(* ===== verification/Mrd_Prelude.thy ===== *)
theory Mrd_Prelude
  imports Main "HOL-Library.Word" "HOL-Library.AList"
begin

text \<open>
  Shared vocabulary of the development.

  \<^item> Machine integers are words of the source's width (\<open>u8\<close> .. \<open>u64\<close>), with Rust's
    saturating and checked operations.  Lengths of vectors and strings (\<open>usize\<close>) are
    \<open>nat\<close>; the target is 64 bit, so no length of an existing vector overflows.
  \<^item> A Rust \<open>Result<T, E>\<close> is the sum type \<open>'e + 'a\<close>, written with the abbreviations
    \<open>Ok\<close> and \<open>Err\<close>; the \<open>?\<close> operator is \<open>and_then\<close>.
  \<^item> A Rust \<open>String\<close> is its UTF-8 byte string, a HOL \<open>string\<close>: \<open>len()\<close> is \<open>length\<close>,
    \<open>as_bytes()\<close> is \<open>as_bytes\<close>, and \<open>trim()\<close> strips the UTF-8 encodings of the Unicode
    White\_Space characters.
  \<^item> A \<open>HashMap\<close> is an association list with distinct keys whose order no theorem uses
    (\<open>HOL-Library.AList\<close>), a \<open>BTreeMap\<close> one that is also sorted by key.  Both provide
    the interface \<open>keyed_store\<close>.
  \<^item> The locales \<open>state_invariant\<close> (invariants of reachable states), \<open>prefix_code\<close>
    (self-delimiting encodings) and \<open>at_most_once\<close> (replay guards) are the contracts the
    components implement.
\<close>

section \<open>Theorem collections\<close>

named_theorems word_nat_simps \<open>moving comparisons of words to natural numbers\<close>
named_theorems wire_simps \<open>evaluation of byte encodings\<close>

section \<open>Machine integers\<close>

type_synonym u8 = "8 word"
type_synonym u16 = "16 word"
type_synonym u32 = "32 word"
type_synonym u64 = "64 word"
type_synonym bytes = "u8 list"

definition saturating_add :: "'a::len word \<Rightarrow> 'a word \<Rightarrow> 'a word" where
  "saturating_add a b = (if unat a + unat b < 2 ^ LENGTH('a) then a + b else - 1)"

definition saturating_sub :: "'a::len word \<Rightarrow> 'a word \<Rightarrow> 'a word" where
  "saturating_sub a b = (if b \<le> a then a - b else 0)"

definition saturating_mul :: "'a::len word \<Rightarrow> 'a word \<Rightarrow> 'a word" where
  "saturating_mul a b = (if unat a * unat b < 2 ^ LENGTH('a) then a * b else - 1)"

definition checked_add :: "'a::len word \<Rightarrow> 'a word \<Rightarrow> 'a word option" where
  "checked_add a b = (if unat a + unat b < 2 ^ LENGTH('a) then Some (a + b) else None)"

definition checked_sub :: "'a::len word \<Rightarrow> 'a word \<Rightarrow> 'a word option" where
  "checked_sub a b = (if b \<le> a then Some (a - b) else None)"

lemma unat_word_max: "unat (- 1 :: 'a::len word) = 2 ^ LENGTH('a) - 1"
  by (simp add: unsigned_minus_1_eq_mask mask_eq_exp_minus_1)

lemma unat_le_word_max: "unat a \<le> 2 ^ LENGTH('a) - 1"
  for a :: "'a::len word"
proof -
  have "unat a < 2 ^ LENGTH('a)" by (rule unsigned_less)
  then show ?thesis by linarith
qed

lemma unat_saturating_add [word_nat_simps]:
  "unat (saturating_add a b) = min (unat a + unat b) (2 ^ LENGTH('a) - 1)"
  for a b :: "'a::len word"
  by (auto simp: saturating_add_def unat_word_ariths unat_word_max min_def)

lemma unat_saturating_sub [word_nat_simps]: "unat (saturating_sub a b) = unat a - unat b"
  for a b :: "'a::len word"
  by (auto simp: saturating_sub_def unat_sub word_le_nat_alt)

lemma unat_saturating_mul [word_nat_simps]:
  "unat (saturating_mul a b) = min (unat a * unat b) (2 ^ LENGTH('a) - 1)"
  for a b :: "'a::len word"
proof (cases "unat a * unat b < 2 ^ LENGTH('a)")
  case True
  then have "unat a * unat b \<le> 2 ^ LENGTH('a) - 1" by linarith
  with True show ?thesis by (simp add: saturating_mul_def unat_word_ariths)
next
  case False
  then have "2 ^ LENGTH('a) - 1 \<le> unat a * unat b" by linarith
  with False show ?thesis by (simp add: saturating_mul_def unat_word_max)
qed

lemma checked_add_Some [word_nat_simps]: "checked_add a b = Some c \<Longrightarrow> unat c = unat a + unat b"
  for a b :: "'a::len word"
  by (auto simp: checked_add_def unat_word_ariths split: if_splits)

lemma checked_sub_Some: "checked_sub a b = Some c \<Longrightarrow> unat c = unat a - unat b \<and> b \<le> a"
  for a b :: "'a::len word"
  by (auto simp: checked_sub_def unat_sub split: if_splits)

lemma saturating_sub_mono: "a \<le> b \<Longrightarrow> saturating_sub a c \<le> saturating_sub b c"
  for a b c :: "'a::len word"
  by (simp add: word_le_nat_alt unat_saturating_sub diff_le_mono)

lemma saturating_sub_le: "saturating_sub a b \<le> a"
  for a b :: "'a::len word"
  by (simp add: word_le_nat_alt unat_saturating_sub)

lemma saturating_add_code [code]:
  fixes a b :: "'a::len word"
  shows "saturating_add a b = (if a + b < a then - 1 else a + b)"
proof -
  have "unat a < 2 ^ LENGTH('a)" "unat b < 2 ^ LENGTH('a)" by (rule unsigned_less)+
  then have "unat a + unat b - 2 ^ LENGTH('a) < unat a" if "\<not> unat a + unat b < 2 ^ LENGTH('a)"
    using that by linarith
  then show ?thesis
    by (simp add: saturating_add_def word_less_nat_alt unat_plus_if_size word_size)
qed

lemma checked_add_code [code]:
  fixes a b :: "'a::len word"
  shows "checked_add a b = (if a + b < a then None else Some (a + b))"
proof -
  have "unat a < 2 ^ LENGTH('a)" "unat b < 2 ^ LENGTH('a)" by (rule unsigned_less)+
  then have "unat a + unat b - 2 ^ LENGTH('a) < unat a" if "\<not> unat a + unat b < 2 ^ LENGTH('a)"
    using that by linarith
  then show ?thesis
    by (simp add: checked_add_def word_less_nat_alt unat_plus_if_size word_size)
qed

lemma saturating_add_ge: "a \<le> saturating_add a b"
  for a b :: "'a::len word"
  using unat_le_word_max [of a] by (simp add: word_le_nat_alt unat_saturating_add)

section \<open>Results\<close>

text \<open>Rust's \<open>Result<T, E>\<close> and its early return \<open>?\<close>.\<close>

type_synonym ('a, 'e) result = "'e + 'a"

abbreviation Ok :: "'a \<Rightarrow> ('a, 'e) result" where
  "Ok \<equiv> Inr"

abbreviation Err :: "'e \<Rightarrow> ('a, 'e) result" where
  "Err \<equiv> Inl"

fun and_then :: "('a, 'e) result \<Rightarrow> ('a \<Rightarrow> ('b, 'e) result) \<Rightarrow> ('b, 'e) result" where
  "and_then (Ok x) f = f x"
| "and_then (Err e) f = Err e"

fun map_err :: "('e \<Rightarrow> 'f) \<Rightarrow> ('a, 'e) result \<Rightarrow> ('a, 'f) result" where
  "map_err f (Ok x) = Ok x"
| "map_err f (Err e) = Err (f e)"

fun is_ok :: "('a, 'e) result \<Rightarrow> bool" where
  "is_ok (Ok _) = True"
| "is_ok (Err _) = False"

definition ok_or :: "'e \<Rightarrow> 'a option \<Rightarrow> ('a, 'e) result" where
  "ok_or e m = (case m of None \<Rightarrow> Err e | Some x \<Rightarrow> Ok x)"

lemma ok_or_simps [simp]: "ok_or e None = Err e" "ok_or e (Some x) = Ok x"
  by (simp_all add: ok_or_def)

lemma ok_or_eq_Ok [simp]: "ok_or e m = Ok x \<longleftrightarrow> m = Some x"
  by (cases m) simp_all

lemma ok_or_eq_Err [simp]: "ok_or e m = Err e' \<longleftrightarrow> m = None \<and> e' = e"
  by (cases m) auto

lemma and_then_eq_Ok [simp]: "and_then r f = Ok y \<longleftrightarrow> (\<exists>x. r = Ok x \<and> f x = Ok y)"
  by (cases r) simp_all

lemma map_err_eq_Ok [simp]: "map_err f r = Ok x \<longleftrightarrow> r = Ok x"
  by (cases r) simp_all

text \<open>A chain of guards with early returns succeeds exactly when every guard is passed.\<close>

lemma guard_Ok: "(if b then Err e else r) = Ok x \<longleftrightarrow> \<not> b \<and> r = Ok x"
  by simp

lemma is_ok_iff: "is_ok r \<longleftrightarrow> (\<exists>x. r = Ok x)"
  by (cases r) simp_all

section \<open>Fixed-width byte encodings\<close>

text \<open>
  \<open>to_be_bytes\<close>, \<open>from_be_bytes\<close> and their little-endian forms, as base-256 digits of a
  natural number: \<open>be_nat n x\<close> writes the \<open>n\<close> low bytes of \<open>x\<close>, most significant first.
\<close>

fun be_nat :: "nat \<Rightarrow> nat \<Rightarrow> bytes" where
  "be_nat 0 x = []"
| "be_nat (Suc n) x = be_nat n (x div 256) @ [of_nat (x mod 256)]"

definition nat_be :: "bytes \<Rightarrow> nat" where
  "nat_be bs = foldl (\<lambda>a b. 256 * a + unat b) 0 bs"

definition u16_be :: "u16 \<Rightarrow> bytes" where "u16_be w = be_nat 2 (unat w)"
definition u32_be :: "u32 \<Rightarrow> bytes" where "u32_be w = be_nat 4 (unat w)"
definition u64_be :: "u64 \<Rightarrow> bytes" where "u64_be w = be_nat 8 (unat w)"
definition u16_of_be :: "bytes \<Rightarrow> u16" where "u16_of_be bs = of_nat (nat_be bs)"
definition u32_of_be :: "bytes \<Rightarrow> u32" where "u32_of_be bs = of_nat (nat_be bs)"
definition u64_of_be :: "bytes \<Rightarrow> u64" where "u64_of_be bs = of_nat (nat_be bs)"
definition u16_le :: "u16 \<Rightarrow> bytes" where "u16_le w = rev (u16_be w)"
definition u32_le :: "u32 \<Rightarrow> bytes" where "u32_le w = rev (u32_be w)"
definition u64_le :: "u64 \<Rightarrow> bytes" where "u64_le w = rev (u64_be w)"
definition u16_of_le :: "bytes \<Rightarrow> u16" where "u16_of_le bs = u16_of_be (rev bs)"
definition u32_of_le :: "bytes \<Rightarrow> u32" where "u32_of_le bs = u32_of_be (rev bs)"

lemma length_be_nat [simp]: "length (be_nat n x) = n"
  by (induction n x rule: be_nat.induct) simp_all

lemma nat_be_Nil [simp]: "nat_be [] = 0"
  by (simp add: nat_be_def)

lemma nat_be_snoc [simp]: "nat_be (bs @ [b]) = 256 * nat_be bs + unat b"
  by (simp add: nat_be_def)

lemma unat_u8_lt [simp]: "unat (b::u8) < 256"
  using unsigned_less [of b] by simp

lemma nat_be_be_nat: "nat_be (be_nat n x) = x mod 256 ^ n"
proof (induction n x rule: be_nat.induct)
  case (1 x)
  then show ?case by simp
next
  case (2 n x)
  have "unat (of_nat (x mod 256) :: u8) = x mod 256"
    by (simp add: unat_of_nat)
  with 2 show ?case
    by (simp add: mod_mult2_eq mult.commute)
qed

lemma nat_be_lt: "nat_be bs < 256 ^ length bs"
proof (induction bs rule: rev_induct)
  case (snoc b bs)
  from snoc have "Suc (nat_be bs) \<le> 256 ^ length bs" by simp
  then have "256 * Suc (nat_be bs) \<le> 256 * 256 ^ length bs" by (rule mult_le_mono2)
  moreover have "256 * nat_be bs + unat b < 256 * Suc (nat_be bs)" by simp
  ultimately have "256 * nat_be bs + unat b < 256 * 256 ^ length bs" by (rule order.strict_trans2 [rotated])
  then show ?case by simp
qed simp

lemma be_nat_nat_be: "be_nat (length bs) (nat_be bs) = bs"
proof (induction bs rule: rev_induct)
  case (snoc b bs)
  have "unat b < 256" by simp
  with snoc show ?case by simp
qed simp

lemma be_nat_eqD: "be_nat n x = be_nat n y \<Longrightarrow> x < 256 ^ n \<Longrightarrow> y < 256 ^ n \<Longrightarrow> x = y"
  by (metis mod_less nat_be_be_nat)

lemma unat_u16_lt [simp]: "unat (w::u16) < 65536"
  using unsigned_less [of w] by simp

lemma unat_u32_lt [simp]: "unat (w::u32) < 4294967296"
  using unsigned_less [of w] by simp

lemma unat_u64_lt [simp]: "unat (w::u64) < 18446744073709551616"
  using unsigned_less [of w] by simp

lemma unat_ucast_u32 [word_nat_simps]: "unat (ucast (w::u32) :: u64) = unat w"
proof -
  have "unat w < 2 ^ 64" by (rule order.strict_trans [OF unat_u32_lt]) simp
  then show ?thesis by (simp add: unsigned_ucast_eq take_bit_nat_eq_self)
qed

lemma length_u_be [simp]:
  "length (u16_be a) = 2" "length (u32_be b) = 4" "length (u64_be c) = 8"
  "length (u16_le a) = 2" "length (u32_le b) = 4" "length (u64_le c) = 8"
  by (simp_all add: u16_be_def u32_be_def u64_be_def u16_le_def u32_le_def u64_le_def)

lemma of_be_be [simp]:
  "u16_of_be (u16_be a) = a" "u32_of_be (u32_be b) = b" "u64_of_be (u64_be c) = c"
  "u16_of_le (u16_le a) = a" "u32_of_le (u32_le b) = b"
  by (simp_all add: u16_of_be_def u16_be_def u32_of_be_def u32_be_def u64_of_be_def u64_be_def
      u16_of_le_def u16_le_def u32_of_le_def u32_le_def nat_be_be_nat)

lemma be_of_be:
  "length bs = 2 \<Longrightarrow> u16_be (u16_of_be bs) = bs"
  "length bs = 4 \<Longrightarrow> u32_be (u32_of_be bs) = bs"
  "length bs = 8 \<Longrightarrow> u64_be (u64_of_be bs) = bs"
  using nat_be_lt [of bs] be_nat_nat_be [of bs]
  by (auto simp: u16_of_be_def u16_be_def u32_of_be_def u32_be_def u64_of_be_def u64_be_def
      unat_of_nat)

lemma u_be_inject [simp]:
  "u16_be a = u16_be a' \<longleftrightarrow> a = a'" "u32_be b = u32_be b' \<longleftrightarrow> b = b'"
  "u64_be c = u64_be c' \<longleftrightarrow> c = c'"
  by (metis of_be_be(1), metis of_be_be(2), metis of_be_be(3))

lemma u_le_inject [simp]:
  "u16_le a = u16_le a' \<longleftrightarrow> a = a'" "u32_le b = u32_le b' \<longleftrightarrow> b = b'"
  "u64_le c = u64_le c' \<longleftrightarrow> c = c'"
  by (simp_all add: u16_le_def u32_le_def u64_le_def)

lemma unat_u16_of_be: "length bs = 2 \<Longrightarrow> unat (u16_of_be bs) = nat_be bs"
  using nat_be_lt [of bs] by (simp add: u16_of_be_def unat_of_nat)

lemma unat_u32_of_be: "length bs = 4 \<Longrightarrow> unat (u32_of_be bs) = nat_be bs"
  using nat_be_lt [of bs] by (simp add: u32_of_be_def unat_of_nat)

lemma be_nat_numeral [wire_simps]:
  "be_nat (numeral k) x = be_nat (pred_numeral k) (x div 256) @ [of_nat (x mod 256)]"
  by (simp only: numeral_eq_Suc [of k] be_nat.simps)

lemmas u_be_eval [wire_simps] =
  u16_be_def u32_be_def u64_be_def u16_of_be_def u32_of_be_def u64_of_be_def
  u16_le_def u32_le_def u64_le_def u16_of_le_def u32_of_le_def nat_be_def

text \<open>The sentinel test \<open>iter().all(|byte| *byte == 0)\<close> of identifiers and digests.\<close>

definition all_zero :: "bytes \<Rightarrow> bool" where
  "all_zero bs \<longleftrightarrow> list_all (\<lambda>b. b = 0) bs"

lemma all_zero_simps [simp]: "all_zero []" "all_zero (b # bs) \<longleftrightarrow> b = 0 \<and> all_zero bs"
  by (simp_all add: all_zero_def)

lemma all_zero_replicate [simp]: "all_zero (replicate n b) \<longleftrightarrow> n = 0 \<or> b = 0"
  by (induction n) auto

section \<open>Strings\<close>

text \<open>
  \<open>ws_prefix s\<close> is the number of bytes of the White\_Space character \<open>s\<close> starts with
  (0 for none), and \<open>ws_suffix r\<close> the same for the reversed string: the UTF-8 encodings of
  U+0009..U+000D, U+0020, U+0085, U+00A0, U+1680, U+2000..U+200A, U+2028, U+2029, U+202F,
  U+205F and U+3000.
\<close>

abbreviation byte_at :: "char \<Rightarrow> nat" where
  "byte_at c \<equiv> of_char c"

definition char_between :: "char \<Rightarrow> char \<Rightarrow> char \<Rightarrow> bool" where
  "char_between lo c hi \<longleftrightarrow> byte_at lo \<le> byte_at c \<and> byte_at c \<le> byte_at hi"

fun ws3 :: "nat \<Rightarrow> nat \<Rightarrow> nat \<Rightarrow> bool" where
  "ws3 a b c \<longleftrightarrow>
     (a = 0xE1 \<and> b = 0x9A \<and> c = 0x80) \<or>
     (a = 0xE2 \<and> b = 0x80 \<and> (0x80 \<le> c \<and> c \<le> 0x8A \<or> c = 0xA8 \<or> c = 0xA9 \<or> c = 0xAF)) \<or>
     (a = 0xE2 \<and> b = 0x81 \<and> c = 0x9F) \<or>
     (a = 0xE3 \<and> b = 0x80 \<and> c = 0x80)"

fun ws2 :: "nat \<Rightarrow> nat \<Rightarrow> bool" where
  "ws2 a b \<longleftrightarrow> a = 0xC2 \<and> (b = 0x85 \<or> b = 0xA0)"

fun ws1 :: "nat \<Rightarrow> bool" where
  "ws1 a \<longleftrightarrow> 0x09 \<le> a \<and> a \<le> 0x0D \<or> a = 0x20"

fun ws_prefix :: "string \<Rightarrow> nat" where
  "ws_prefix [] = 0"
| "ws_prefix [a] = (if ws1 (byte_at a) then 1 else 0)"
| "ws_prefix [a, b] =
     (if ws1 (byte_at a) then 1 else if ws2 (byte_at a) (byte_at b) then 2 else 0)"
| "ws_prefix (a # b # c # s) =
     (if ws1 (byte_at a) then 1 else if ws2 (byte_at a) (byte_at b) then 2
      else if ws3 (byte_at a) (byte_at b) (byte_at c) then 3 else 0)"

fun ws_suffix :: "string \<Rightarrow> nat" where
  "ws_suffix [] = 0"
| "ws_suffix [a] = (if ws1 (byte_at a) then 1 else 0)"
| "ws_suffix [b, a] =
     (if ws1 (byte_at b) then 1 else if ws2 (byte_at a) (byte_at b) then 2 else 0)"
| "ws_suffix (c # b # a # s) =
     (if ws1 (byte_at c) then 1 else if ws2 (byte_at b) (byte_at c) then 2
      else if ws3 (byte_at a) (byte_at b) (byte_at c) then 3 else 0)"

function trim_start :: "string \<Rightarrow> string" where
  "trim_start s =
     (if s = [] \<or> ws_prefix s = 0 then s else trim_start (drop (ws_prefix s) s))"
  by pat_completeness auto
termination by (relation "measure length") auto

function trim_rev :: "string \<Rightarrow> string" where
  "trim_rev s = (if s = [] \<or> ws_suffix s = 0 then s else trim_rev (drop (ws_suffix s) s))"
  by pat_completeness auto
termination by (relation "measure length") auto

definition trim :: "string \<Rightarrow> string" where
  "trim s = rev (trim_rev (rev (trim_start s)))"

declare trim_start.simps [simp del] trim_rev.simps [simp del]

lemma trim_eval [wire_simps]:
  "trim_start [] = []"
  "trim_start (c # s) =
     (if ws_prefix (c # s) = 0 then c # s else trim_start (drop (ws_prefix (c # s)) (c # s)))"
  "trim_rev [] = []"
  "trim_rev (c # s) =
     (if ws_suffix (c # s) = 0 then c # s else trim_rev (drop (ws_suffix (c # s)) (c # s)))"
  by (simp_all add: trim_start.simps [of "[]"] trim_start.simps [of "c # s"]
      trim_rev.simps [of "[]"] trim_rev.simps [of "c # s"])

lemma trim_Nil [simp]: "trim [] = []"
  by (simp add: trim_def wire_simps)

lemma trim_not_Nil: "trim s \<noteq> [] \<Longrightarrow> s \<noteq> []"
  by auto

definition as_bytes :: "string \<Rightarrow> bytes" where
  "as_bytes s = map of_char s"

lemma length_as_bytes [simp]: "length (as_bytes s) = length s"
  by (simp add: as_bytes_def)

lemma of_char_u8_inject: "(of_char c :: u8) = of_char d \<longleftrightarrow> c = d"
proof
  assume eq: "(of_char c :: u8) = of_char d"
  have u: "unat (of_char e :: u8) = of_char e" for e :: char
  proof -
    have "(of_char e :: u8) = of_nat (of_char e)" by (simp only: of_nat_of_char)
    moreover have "(of_char e :: nat) < 256" by simp
    ultimately show ?thesis by (simp add: unat_of_nat)
  qed
  from eq have "unat (of_char c :: u8) = unat (of_char d :: u8)" by (rule arg_cong)
  then have "(of_char c :: nat) = of_char d" unfolding u .
  then show "c = d" by (simp only: of_char_eq_iff)
qed simp

lemma as_bytes_inject [simp]: "as_bytes s = as_bytes t \<longleftrightarrow> s = t"
  unfolding as_bytes_def by (rule inj_map_eq_map) (simp add: inj_def of_char_u8_inject)

text \<open>The lower-case hexadecimal form \<open>{byte:02x}\<close> of a byte.\<close>

definition hex_digit :: "nat \<Rightarrow> char" where
  "hex_digit n = (if n < 10 then char_of (48 + n) else char_of (87 + n))"

definition hex_byte :: "u8 \<Rightarrow> string" where
  "hex_byte b = [hex_digit (unat b div 16), hex_digit (unat b mod 16)]"

lemma hex_digit_inject: "n < 16 \<Longrightarrow> m < 16 \<Longrightarrow> hex_digit n = hex_digit m \<longleftrightarrow> n = m"
proof
  assume lt: "n < 16" "m < 16" and eq: "hex_digit n = hex_digit m"
  have "(of_char (hex_digit k) :: nat) = (if k < 10 then 48 + k else 87 + k)" if "k < 16" for k
    using that by (simp add: hex_digit_def)
  with lt arg_cong [OF eq, of "of_char :: char \<Rightarrow> nat"] show "n = m" by (simp split: if_splits)
qed simp

lemma hex_byte_inject: "hex_byte a = hex_byte b \<longleftrightarrow> a = b"
proof
  assume "hex_byte a = hex_byte b"
  then have "unat a div 16 = unat b div 16" "unat a mod 16 = unat b mod 16"
    by (simp_all add: hex_byte_def hex_digit_inject less_mult_imp_div_less)
  then have "unat a = unat b" by (metis div_mult_mod_eq)
  then show "a = b" by (simp add: word_unat_eq_iff)
qed simp

lemma hex_string_inject: "concat (map hex_byte xs) = concat (map hex_byte ys) \<longleftrightarrow> xs = ys"
proof (induction xs arbitrary: ys)
  case Nil
  then show ?case by (cases ys) (auto simp: hex_byte_def)
next
  case (Cons x xs)
  then show ?case by (cases ys) (use hex_byte_inject in \<open>auto simp: hex_byte_def\<close>)
qed

lemma length_hex: "length (concat (map hex_byte xs)) = 2 * length xs"
  by (induction xs) (simp_all add: hex_byte_def)

text \<open>
  Control characters are U+0000..U+001F and U+007F..U+009F; in UTF-8 the second range is 0x7F
  and the pairs 0xC2 0x80 .. 0xC2 0x9F.
\<close>

fun has_control :: "string \<Rightarrow> bool" where
  "has_control [] = False"
| "has_control [c] \<longleftrightarrow> byte_at c < 0x20 \<or> byte_at c = 0x7F"
| "has_control (c # d # s) \<longleftrightarrow>
     byte_at c < 0x20 \<or> byte_at c = 0x7F \<or>
     (byte_at c = 0xC2 \<and> 0x80 \<le> byte_at d \<and> byte_at d \<le> 0x9F) \<or> has_control (d # s)"

text \<open>The decimal form \<open>{number}\<close>, and reading it back.\<close>

definition decimal_digit :: "nat \<Rightarrow> char" where
  "decimal_digit n = char_of (48 + n)"

fun decimal_string :: "nat \<Rightarrow> string" where
  "decimal_string n =
     (if n < 10 then [decimal_digit n]
      else decimal_string (n div 10) @ [decimal_digit (n mod 10)])"

declare decimal_string.simps [simp del]

lemma decimal_digits: "set (decimal_string n) \<subseteq> decimal_digit ` {..<10}"
proof (induction n rule: decimal_string.induct)
  case (1 n)
  then show ?case by (cases "n < 10") (auto simp: decimal_string.simps [of n])
qed

lemma length_decimal_string: "0 < k \<Longrightarrow> n < 10 ^ k \<Longrightarrow> length (decimal_string n) \<le> k"
proof (induction n arbitrary: k rule: decimal_string.induct)
  case (1 n)
  show ?case
  proof (cases "n < 10")
    case True
    with 1 show ?thesis by (simp add: decimal_string.simps [of n])
  next
    case False
    with "1.prems" have "1 < k" by (cases "k = 1") auto
    then obtain j where k: "k = Suc j" and "0 < j" by (cases k) auto
    with False "1.prems" have "length (decimal_string (n div 10)) \<le> j"
      by (intro "1.IH") (auto simp: less_mult_imp_div_less)
    with False k show ?thesis by (simp add: decimal_string.simps [of n])
  qed
qed

definition decimal_value :: "string \<Rightarrow> nat" where
  "decimal_value s = foldl (\<lambda>a c. 10 * a + (of_char c - 48)) 0 s"

lemma decimal_value_string: "decimal_value (replicate k (decimal_digit 0) @ decimal_string n) = n"
proof -
  have zeros: "foldl (\<lambda>a c. 10 * a + (of_char c - 48)) 0 (replicate k (decimal_digit 0)) = (0::nat)"
    by (induction k) (simp_all add: decimal_digit_def)
  have digit: "(of_char (decimal_digit d) :: nat) - 48 = d" if "d < 10" for d
    using that by (simp add: decimal_digit_def)
  have "foldl (\<lambda>a c. 10 * a + (of_char c - 48)) 0 (decimal_string n) = n"
    by (induction n rule: decimal_string.induct)
       (auto simp: decimal_string.simps digit)
  then show ?thesis using zeros by (simp add: decimal_value_def)
qed

lemma decimal_string_inject [simp]: "decimal_string n = decimal_string m \<longleftrightarrow> n = m"
  using decimal_value_string [of 0] by (metis append_Nil replicate_0)

lemma decimal_string_chars: "c \<in> set (decimal_string n) \<Longrightarrow> 48 \<le> byte_at c \<and> byte_at c \<le> 57"
  using decimal_digits [of n] by (auto simp: decimal_digit_def)

section \<open>Contracts\<close>

subsection \<open>Keyed stores\<close>

text \<open>
  What the source relies on of \<open>HashMap\<close> and \<open>BTreeMap\<close>: a finite map with insert,
  remove and lookup, whose entries can be enumerated without duplicates.
\<close>

locale keyed_store =
  fixes get :: "'m \<Rightarrow> 'k \<Rightarrow> 'v option"
    and ins :: "'k \<Rightarrow> 'v \<Rightarrow> 'm \<Rightarrow> 'm"
    and del :: "'k \<Rightarrow> 'm \<Rightarrow> 'm"
    and entries :: "'m \<Rightarrow> ('k \<times> 'v) list"
    and wf :: "'m \<Rightarrow> bool"
  assumes get_ins: "wf m \<Longrightarrow> get (ins k v m) = (get m)(k \<mapsto> v)"
    and get_del: "wf m \<Longrightarrow> get (del k m) = (get m)(k := None)"
    and get_entries: "wf m \<Longrightarrow> get m k = Some v \<longleftrightarrow> (k, v) \<in> set (entries m)"
    and distinct_entries: "wf m \<Longrightarrow> distinct (map fst (entries m))"
    and wf_ins: "wf m \<Longrightarrow> wf (ins k v m)"
    and wf_del: "wf m \<Longrightarrow> wf (del k m)"
begin

lemma length_entries: "wf m \<Longrightarrow> length (entries m) = card (dom (get m))"
proof -
  assume wf: "wf m"
  have "dom (get m) = fst ` set (entries m)"
    using get_entries [OF wf] by (force simp: dom_def image_iff)
  then show ?thesis
    using distinct_card [OF distinct_entries [OF wf]] by simp
qed

lemma fold_del:
  assumes "wf m"
  shows "wf (fold del ks m) \<and>
    get (fold del ks m) = (\<lambda>k. if k \<in> set ks then None else get m k)"
  using assms
proof (induction ks arbitrary: m)
  case (Cons k ks)
  from Cons.prems have "wf (del k m)" by (rule wf_del)
  from Cons.IH [OF this] get_del [OF Cons.prems] show ?case
    by (auto simp: fun_eq_iff)
qed auto

end

text \<open>Hash maps: association lists with distinct keys.\<close>

type_synonym ('k, 'v) hash_map = "('k \<times> 'v) list"

definition hm_wf :: "('k, 'v) hash_map \<Rightarrow> bool" where
  "hm_wf m \<longleftrightarrow> distinct (map fst m)"

interpretation hm: keyed_store map_of AList.update AList.delete "\<lambda>m. m" hm_wf
proof unfold_locales
  fix m :: "('k, 'v) hash_map" and k :: 'k and v :: 'v
  show "map_of (AList.update k v m) = (map_of m)(k \<mapsto> v)"
    by (rule update_conv')
  show "map_of (AList.delete k m) = (map_of m)(k := None)"
    by (rule delete_conv')
  assume wf: "hm_wf m"
  then show "map_of m k = Some v \<longleftrightarrow> (k, v) \<in> set m"
    by (simp add: hm_wf_def)
  from wf show "distinct (map fst m)" by (simp add: hm_wf_def)
  from wf show "hm_wf (AList.update k v m)"
    by (simp add: hm_wf_def distinct_update)
  from wf show "hm_wf (AList.delete k m)"
    by (simp add: hm_wf_def distinct_delete)
qed

lemma hm_wf_Nil [simp]: "hm_wf []"
  by (simp add: hm_wf_def)

text \<open>B-tree maps: association lists in strictly increasing key order.\<close>

type_synonym ('k, 'v) btree_map = "('k \<times> 'v) list"

fun bt_insert :: "'k::linorder \<Rightarrow> 'v \<Rightarrow> ('k, 'v) btree_map \<Rightarrow> ('k, 'v) btree_map" where
  "bt_insert k v [] = [(k, v)]"
| "bt_insert k v ((l, w) # m) =
     (if k < l then (k, v) # (l, w) # m
      else if k = l then (k, v) # m
      else (l, w) # bt_insert k v m)"

definition bt_remove :: "'k::linorder \<Rightarrow> ('k, 'v) btree_map \<Rightarrow> ('k, 'v) btree_map" where
  "bt_remove k m = filter (\<lambda>e. fst e \<noteq> k) m"

definition bt_range_below :: "'k::linorder \<Rightarrow> ('k, 'v) btree_map \<Rightarrow> ('k \<times> 'v) list" where
  "bt_range_below k m = takeWhile (\<lambda>e. fst e < k) m"

definition bt_wf :: "('k::linorder, 'v) btree_map \<Rightarrow> bool" where
  "bt_wf m \<longleftrightarrow> sorted_wrt (<) (map fst m)"

lemma bt_wf_Nil [simp]: "bt_wf []"
  by (simp add: bt_wf_def)

lemma bt_wf_Cons [simp]: "bt_wf ((k, v) # m) \<longleftrightarrow> (\<forall>l\<in>fst ` set m. k < l) \<and> bt_wf m"
  by (simp add: bt_wf_def)

lemma bt_wf_distinct: "bt_wf m \<Longrightarrow> distinct (map fst m)"
  by (simp add: bt_wf_def strict_sorted_iff)

lemma map_of_bt_insert: "bt_wf m \<Longrightarrow> map_of (bt_insert k v m) = (map_of m)(k \<mapsto> v)"
proof (induction k v m rule: bt_insert.induct)
  case (2 k v l w m)
  then show ?case by (auto simp: fun_eq_iff)
qed simp

lemma keys_bt_insert: "fst ` set (bt_insert k v m) = insert k (fst ` set m)"
  by (induction k v m rule: bt_insert.induct) auto

lemma bt_wf_insert: "bt_wf m \<Longrightarrow> bt_wf (bt_insert k v m)"
  by (induction k v m rule: bt_insert.induct) (auto simp: keys_bt_insert)

lemma map_of_filter_ne: "map_of (filter (\<lambda>e. fst e \<noteq> k) m) = (map_of m)(k := None)"
  by (induction m) (auto simp: fun_eq_iff)

interpretation bt: keyed_store map_of bt_insert bt_remove "\<lambda>m. m" bt_wf
proof unfold_locales
  fix m :: "('k::linorder, 'v) btree_map" and k :: 'k and v :: 'v
  assume wf: "bt_wf m"
  then show "map_of (bt_insert k v m) = (map_of m)(k \<mapsto> v)"
    by (rule map_of_bt_insert)
  show "map_of (bt_remove k m) = (map_of m)(k := None)"
    by (simp add: bt_remove_def map_of_filter_ne)
  from wf show "map_of m k = Some v \<longleftrightarrow> (k, v) \<in> set m"
    by (simp add: bt_wf_distinct)
  from wf show "distinct (map fst m)" by (rule bt_wf_distinct)
  from wf show "bt_wf (bt_insert k v m)" by (rule bt_wf_insert)
  from wf show "bt_wf (bt_remove k m)"
    by (simp add: bt_remove_def bt_wf_def sorted_wrt_map sorted_wrt_filter)
qed

lemma set_bt_range_below: "bt_wf m \<Longrightarrow> set (bt_range_below k m) = {e \<in> set m. fst e < k}"
proof (induction m)
  case (Cons e m)
  obtain l w where e: "e = (l, w)" by (cases e)
  from Cons.prems e have wf: "bt_wf m" and above: "\<forall>x\<in>set m. l < fst x" by auto
  have "l < k" if "x \<in> set m" and "fst x < k" for x
    using above that by (metis order.strict_trans)
  with Cons.IH [OF wf] e show ?case
    by (auto simp: bt_range_below_def)
qed (simp add: bt_range_below_def)

subsection \<open>State machines\<close>

text \<open>
  A machine with start states and steps, and a predicate that holds at the start and is
  kept by every step: it holds in every reachable state.
\<close>

locale state_invariant =
  fixes start :: "'s \<Rightarrow> bool"
    and step :: "'s \<Rightarrow> 's \<Rightarrow> bool"
    and inv :: "'s \<Rightarrow> bool"
  assumes start_inv: "start s \<Longrightarrow> inv s"
    and step_inv: "step s t \<Longrightarrow> inv s \<Longrightarrow> inv t"
begin

lemma steps_inv: "step\<^sup>*\<^sup>* s t \<Longrightarrow> inv s \<Longrightarrow> inv t"
  by (induction rule: rtranclp_induct) (auto intro: step_inv)

lemma reachable_inv: "start s \<Longrightarrow> step\<^sup>*\<^sup>* s t \<Longrightarrow> inv t"
  using start_inv steps_inv by blast

end

subsection \<open>Replay guards\<close>

text \<open>
  A guard that takes tokens one at a time and answers whether this one is fresh.  \<open>spent\<close>
  is the set of tokens it will never again accept as fresh; that set only grows, an
  accepted token was not in it and is in it afterwards.  Then no token is accepted twice in
  a whole run, however accepted and refused tokens interleave.
\<close>

fun fresh_keys :: "('s \<Rightarrow> 't \<Rightarrow> 's \<times> bool) \<Rightarrow> ('t \<Rightarrow> 'k) \<Rightarrow> 's \<Rightarrow> 't list \<Rightarrow> 'k list" where
  "fresh_keys offer key s [] = []"
| "fresh_keys offer key s (t # ts) =
     (case offer s t of (s', b) \<Rightarrow> (if b then [key t] else []) @ fresh_keys offer key s' ts)"

locale at_most_once =
  fixes offer :: "'s \<Rightarrow> 't \<Rightarrow> 's \<times> bool"
    and key :: "'t \<Rightarrow> 'k"
    and spent :: "'s \<Rightarrow> 'k set"
    and wf :: "'s \<Rightarrow> bool"
  assumes fresh_unspent: "wf s \<Longrightarrow> offer s t = (s', True) \<Longrightarrow> key t \<notin> spent s"
    and fresh_spends: "wf s \<Longrightarrow> offer s t = (s', True) \<Longrightarrow> key t \<in> spent s'"
    and spent_mono: "wf s \<Longrightarrow> offer s t = (s', b) \<Longrightarrow> spent s \<subseteq> spent s'"
    and wf_offer: "wf s \<Longrightarrow> offer s t = (s', b) \<Longrightarrow> wf s'"
begin

lemma fresh_keys_unspent: "wf s \<Longrightarrow> set (fresh_keys offer key s ts) \<inter> spent s = {}"
proof (induction ts arbitrary: s)
  case (Cons t ts)
  obtain s' b where o: "offer s t = (s', b)" by (cases "offer s t")
  have "wf s'" using wf_offer [OF Cons.prems o] .
  then have "set (fresh_keys offer key s' ts) \<inter> spent s' = {}" by (rule Cons.IH)
  with spent_mono [OF Cons.prems o] have "set (fresh_keys offer key s' ts) \<inter> spent s = {}"
    by blast
  with o fresh_unspent [OF Cons.prems] show ?case by auto
qed simp

lemma distinct_fresh_keys: "wf s \<Longrightarrow> distinct (fresh_keys offer key s ts)"
proof (induction ts arbitrary: s)
  case (Cons t ts)
  obtain s' b where o: "offer s t = (s', b)" by (cases "offer s t")
  have wf': "wf s'" using wf_offer [OF Cons.prems o] .
  have "key t \<notin> set (fresh_keys offer key s' ts)" if b
    using fresh_spends [OF Cons.prems, of t s'] o that fresh_keys_unspent [OF wf', of ts] by auto
  with o Cons.IH [OF wf'] show ?case by simp
qed simp

end

subsection \<open>Self-delimiting encodings\<close>

text \<open>
  An encoding no two values of which can be confused even when followed by other bytes: the
  contract of every field of a signed byte string.
\<close>

locale prefix_code =
  fixes enc :: "'a \<Rightarrow> bytes"
    and ok :: "'a \<Rightarrow> bool"
  assumes enc_prefix: "ok x \<Longrightarrow> ok y \<Longrightarrow> enc x @ r = enc y @ s \<Longrightarrow> x = y \<and> r = s"
begin

lemma enc_inject: "ok x \<Longrightarrow> ok y \<Longrightarrow> enc x = enc y \<Longrightarrow> x = y"
  using enc_prefix [of x y "[]" "[]"] by simp

lemma enc_list_prefix:
  "length xs = length ys \<Longrightarrow> list_all ok xs \<Longrightarrow> list_all ok ys \<Longrightarrow>
   concat (map enc xs) @ r = concat (map enc ys) @ s \<Longrightarrow> xs = ys \<and> r = s"
proof (induction xs ys rule: list_induct2)
  case (Cons x xs y ys)
  from Cons.prems have "enc x @ (concat (map enc xs) @ r) = enc y @ (concat (map enc ys) @ s)"
    by simp
  then have "x = y \<and> concat (map enc xs) @ r = concat (map enc ys) @ s"
    using Cons.prems(1,2) by (intro enc_prefix) simp_all
  with Cons.IH Cons.prems(1,2) show ?case by simp
qed simp

end

lemma prefix_code_fixed:
  "(\<And>x. length (e x) = n) \<Longrightarrow> (\<And>x y. e x = e y \<Longrightarrow> x = y) \<Longrightarrow> prefix_code e (\<lambda>_. True)"
  by unfold_locales (metis append_eq_append_conv)

interpretation u8c: prefix_code "\<lambda>b. [b]" "\<lambda>_. True"
  by (rule prefix_code_fixed [where n = 1]) simp_all

interpretation u16c: prefix_code u16_be "\<lambda>_. True"
  by (rule prefix_code_fixed [where n = 2]) simp_all

interpretation u32c: prefix_code u32_be "\<lambda>_. True"
  by (rule prefix_code_fixed [where n = 4]) simp_all

interpretation u64c: prefix_code u64_be "\<lambda>_. True"
  by (rule prefix_code_fixed [where n = 8]) simp_all

interpretation u64lc: prefix_code u64_le "\<lambda>_. True"
  by (rule prefix_code_fixed [where n = 8]) simp_all

text \<open>A length field of fixed size, followed by that many bytes.\<close>

lemma prefix_code_counted:
  assumes L: "\<And>n. length (L n) = k" "\<And>n m. n < B \<Longrightarrow> m < B \<Longrightarrow> L n = L m \<Longrightarrow> n = m"
    and f: "\<And>x. length (f x) = length x" "\<And>x y. f x = f y \<Longrightarrow> x = y"
  shows "prefix_code (\<lambda>x. L (length x) @ f x) (\<lambda>x. length x < B)"
proof unfold_locales
  fix x y r s
  assume ok: "length x < B" "length y < B"
    and eq: "(L (length x) @ f x) @ r = (L (length y) @ f y) @ s"
  from eq have "L (length x) = L (length y)" and tl: "f x @ r = f y @ s"
    using L(1) by (simp_all add: append_eq_append_conv)
  then have "length x = length y" using L(2) ok by blast
  with tl have "f x = f y \<and> r = s" using f(1) by (simp add: append_eq_append_conv)
  then show "x = y \<and> r = s" using f(2) by blast
qed

lemma of_nat_word_inject:
  "n < 2 ^ LENGTH('a) \<Longrightarrow> m < 2 ^ LENGTH('a) \<Longrightarrow> (of_nat n :: 'a::len word) = of_nat m \<Longrightarrow> n = m"
  by (metis mod_less unat_of_nat)

interpretation str16: prefix_code "\<lambda>s. u16_be (of_nat (length s)) @ as_bytes s" "\<lambda>s. length s < 65536"
  by (rule prefix_code_counted [where k = 2]) (auto dest: of_nat_word_inject [rotated 2])

interpretation str32: prefix_code "\<lambda>s. u32_be (of_nat (length s)) @ as_bytes s" "\<lambda>s. length s < 4294967296"
  by (rule prefix_code_counted [where k = 4]) (auto dest: of_nat_word_inject [rotated 2])

interpretation bytes64: prefix_code "\<lambda>b. u64_be (of_nat (length b)) @ b"
    "\<lambda>b. length b < 18446744073709551616"
  by (rule prefix_code_counted [where k = 8 and f = "\<lambda>b. b"]) (auto dest: of_nat_word_inject [rotated 2])

text \<open>Composite codes: pairs, counted lists and records seen through an injective view.\<close>

lemma prefix_code_pair:
  assumes "prefix_code e1 ok1" and "prefix_code e2 ok2"
  shows "prefix_code (\<lambda>(x, y). e1 x @ e2 y) (\<lambda>(x, y). ok1 x \<and> ok2 y)"
proof unfold_locales
  fix a b r s
  assume ok: "case a of (x, y) \<Rightarrow> ok1 x \<and> ok2 y" "case b of (x, y) \<Rightarrow> ok1 x \<and> ok2 y"
    and eq: "(case a of (x, y) \<Rightarrow> e1 x @ e2 y) @ r = (case b of (x, y) \<Rightarrow> e1 x @ e2 y) @ s"
  obtain x y x' y' where ab: "a = (x, y)" "b = (x', y')" by (cases a; cases b)
  from eq ab have "e1 x @ (e2 y @ r) = e1 x' @ (e2 y' @ s)" by simp
  then have *: "x = x' \<and> e2 y @ r = e2 y' @ s"
    by (rule prefix_code.enc_prefix [OF assms(1), rotated 2]) (use ok ab in auto)
  then have "y = y' \<and> r = s"
    by (intro prefix_code.enc_prefix [OF assms(2)]) (use ok ab in auto)
  with * ab show "a = b \<and> r = s" by simp
qed

lemma prefix_code_view:
  assumes "prefix_code e ok" and "\<And>x y. f x = f y \<Longrightarrow> x = y"
  shows "prefix_code (\<lambda>x. e (f x)) (\<lambda>x. ok (f x))"
  by unfold_locales (use prefix_code.enc_prefix [OF assms(1)] assms(2) in blast)

lemma prefix_code_list:
  assumes "prefix_code e ok"
  shows "prefix_code (\<lambda>xs. u32_be (of_nat (length xs)) @ concat (map e xs))
    (\<lambda>xs. length xs < 4294967296 \<and> list_all ok xs)"
proof unfold_locales
  fix xs ys r s
  assume ok: "length xs < 4294967296 \<and> list_all ok xs" "length ys < 4294967296 \<and> list_all ok ys"
    and eq: "(u32_be (of_nat (length xs)) @ concat (map e xs)) @ r =
      (u32_be (of_nat (length ys)) @ concat (map e ys)) @ s"
  from eq have hd: "(of_nat (length xs) :: u32) = of_nat (length ys)"
    and tl: "concat (map e xs) @ r = concat (map e ys) @ s"
    using append_eq_append_conv [of "u32_be _" "u32_be _"] by auto
  have "length xs = length ys"
    using of_nat_word_inject [of "length xs" "length ys", where 'a = 32] hd ok by simp
  with tl ok show "xs = ys \<and> r = s" by (intro prefix_code.enc_list_prefix [OF assms]) auto
qed

end
