(* ===== verification/Session_Grant.thy ===== *)
theory Session_Grant
  imports Mrd_Prelude
begin

text \<open>
  Identifiers and roles (\<open>crates/mrd-proto\<close>), the permission scopes and their effective
  intersection (\<open>mrd-session/src/permissions.rs\<close>) and session-bound capability grants
  (\<open>mrd-session/src/grant.rs\<close>).
\<close>

section \<open>Identifiers and roles\<close>

type_synonym device_id = string
type_synonym session_id = string

datatype backend_role = Controller | Agent | Peer

fun has_capability :: "backend_role \<Rightarrow> backend_role \<Rightarrow> bool" where
  "has_capability self required \<longleftrightarrow>
     self = required \<or> (self = Peer \<and> (required = Controller \<or> required = Agent))"

section \<open>Permission scopes\<close>

datatype permission_scope =
    ScreenView | InputPointer | InputKeyboard | ClipboardRead | ClipboardWrite
  | FileRead | FileWrite | AudioListen | AudioTalk | DisplaySwitch | DisplayMultiView
  | PowerRestart | PowerShutdown | TerminalOpen | PrivacyBlockLocalInput
  | PrivacyBlankScreen | SecureDesktopView | SecureDesktopControl

text \<open>The derived order of the source is the order of declaration.\<close>

fun scope_rank :: "permission_scope \<Rightarrow> nat" where
  "scope_rank ScreenView = 0" | "scope_rank InputPointer = 1"
| "scope_rank InputKeyboard = 2" | "scope_rank ClipboardRead = 3"
| "scope_rank ClipboardWrite = 4" | "scope_rank FileRead = 5"
| "scope_rank FileWrite = 6" | "scope_rank AudioListen = 7"
| "scope_rank AudioTalk = 8" | "scope_rank DisplaySwitch = 9"
| "scope_rank DisplayMultiView = 10" | "scope_rank PowerRestart = 11"
| "scope_rank PowerShutdown = 12" | "scope_rank TerminalOpen = 13"
| "scope_rank PrivacyBlockLocalInput = 14" | "scope_rank PrivacyBlankScreen = 15"
| "scope_rank SecureDesktopView = 16" | "scope_rank SecureDesktopControl = 17"

lemma scope_rank_inject [simp]: "scope_rank a = scope_rank b \<longleftrightarrow> a = b"
  by (cases a; cases b) simp_all

instantiation permission_scope :: linorder
begin

definition less_eq_permission_scope :: "permission_scope \<Rightarrow> permission_scope \<Rightarrow> bool" where
  "a \<le> b \<longleftrightarrow> scope_rank a \<le> scope_rank b"

definition less_permission_scope :: "permission_scope \<Rightarrow> permission_scope \<Rightarrow> bool" where
  "a < b \<longleftrightarrow> scope_rank a < scope_rank b"

instance
  by standard (auto simp: less_eq_permission_scope_def less_permission_scope_def)

end

type_synonym permission_scopes = "permission_scope set"

definition resolve ::
  "permission_scopes \<Rightarrow> permission_scopes \<Rightarrow> permission_scopes \<Rightarrow> permission_scopes
   \<Rightarrow> permission_scopes \<Rightarrow> permission_scopes" where
  "resolve requested peer_maximum local_policy local_approval runtime_capabilities =
     fold (\<lambda>other result. result \<inter> other)
       [peer_maximum, local_policy, local_approval, runtime_capabilities] requested"

lemma mem_resolve [simp]:
  "s \<in> resolve req peer pol app run \<longleftrightarrow>
     s \<in> req \<and> s \<in> peer \<and> s \<in> pol \<and> s \<in> app \<and> s \<in> run"
  by (auto simp: resolve_def)

section \<open>Session grants\<close>

datatype grant_error = GrantExpired | ScopeNotGranted | GrantNotYetValid

record session_grant =
  sg_session_id :: session_id
  sg_peer_id :: device_id
  sg_scopes :: permission_scopes
  sg_windows_session_id :: "u32 option"
  sg_issued_at :: u64
  sg_expires_at :: u64
  sg_nonce :: bytes
  sg_policy_revision :: u64
  sg_route_constraint :: "string option"
  sg_profile_constraint :: "string option"
  sg_transport_fingerprint :: "bytes option"
  sg_signature :: bytes

definition session_grant_new ::
  "session_id \<Rightarrow> device_id \<Rightarrow> permission_scopes \<Rightarrow> u64 \<Rightarrow> u64 \<Rightarrow> bytes \<Rightarrow> session_grant" where
  "session_grant_new sid peer scopes issued expires nonce =
     \<lparr>sg_session_id = sid, sg_peer_id = peer, sg_scopes = scopes,
      sg_windows_session_id = None, sg_issued_at = issued, sg_expires_at = expires,
      sg_nonce = nonce, sg_policy_revision = 0, sg_route_constraint = None,
      sg_profile_constraint = None, sg_transport_fingerprint = None, sg_signature = []\<rparr>"

definition grant_authorize ::
  "session_grant \<Rightarrow> permission_scope \<Rightarrow> u64 \<Rightarrow> (unit, grant_error) result" where
  "grant_authorize g scope now =
     (if now < sg_issued_at g then Err GrantNotYetValid
      else if now > sg_expires_at g then Err GrantExpired
      else if scope \<notin> sg_scopes g then Err ScopeNotGranted
      else Ok ())"

lemma grant_authorize_Ok:
  "grant_authorize g scope now = Ok () \<longleftrightarrow>
     sg_issued_at g \<le> now \<and> now \<le> sg_expires_at g \<and> scope \<in> sg_scopes g"
  by (auto simp: grant_authorize_def not_less)

section \<open>Properties\<close>

text \<open>
  Least privilege: a grant built from the resolved scopes authorises a scope at a time
  exactly when the time is inside the (closed) validity interval and the scope was
  requested by the peer, is within the peer's maximum, is allowed by local policy, was
  approved locally and is supported at run time.
\<close>

theorem resolved_grant_least_privilege:
  "grant_authorize
     (session_grant_new sid peer (resolve req peer_max pol app run) issued expires nonce)
     scope now = Ok () \<longleftrightarrow>
   issued \<le> now \<and> now \<le> expires \<and>
   scope \<in> req \<and> scope \<in> peer_max \<and> scope \<in> pol \<and> scope \<in> app \<and> scope \<in> run"
  by (simp add: grant_authorize_Ok session_grant_new_def)

end
