(* ===== verification/Remote_Session.thy ===== *)
theory Remote_Session
  imports Session_Grant
begin

text \<open>
  The service-owned remote session aggregate (\<open>mrd-session/src/remote_session.rs\<close>) with its
  authorization, route and media states.  Every operation of the aggregate checks its guard
  before it changes a field, so an operation that fails leaves the aggregate as it was; the
  model returns the new aggregate on success.
\<close>

section \<open>State\<close>

datatype authorization_state =
    AuthPending
  | AuthGranted u64
  | AuthDenied string
  | AuthRevoked string

datatype media_state =
    MediaIdle | MediaStarting | MediaStreaming | MediaStopped | MediaFailed string

datatype route_kind = LanQuic | WebRtcDirect | WebRtcRelay

datatype route_state =
    RouteIdle
  | Establishing route_kind
  | RouteActive route_kind
  | RouteFailed route_kind string

record capability_set =
  supports_webrtc :: bool
  supports_quic :: bool

record session_plan =
  sp_session_id :: session_id
  sp_initiator :: device_id
  sp_target :: device_id
  sp_role :: backend_role
  sp_capabilities :: capability_set

datatype session_transition_error =
    AuthorizationRequired
  | AuthorizationDenied
  | SessionClosed
  | RouteMigrationNotInProgress

record remote_session =
  rs_plan :: session_plan
  rs_authorization :: authorization_state
  rs_route :: route_state
  rs_media :: media_state
  rs_granted_scopes :: "string list"
  rs_last_failure :: "string option"
  rs_closed :: bool

section \<open>Operations\<close>

definition rs_new :: "session_plan \<Rightarrow> remote_session" where
  "rs_new p =
     \<lparr>rs_plan = p, rs_authorization = AuthPending, rs_route = RouteIdle,
      rs_media = MediaIdle, rs_granted_scopes = [], rs_last_failure = None,
      rs_closed = False\<rparr>"

definition ensure_authorized :: "remote_session \<Rightarrow> (unit, session_transition_error) result" where
  "ensure_authorized s =
     (if rs_closed s then Err SessionClosed
      else case rs_authorization s of
        AuthPending \<Rightarrow> Err AuthorizationRequired
      | AuthDenied _ \<Rightarrow> Err AuthorizationDenied
      | AuthRevoked _ \<Rightarrow> Err AuthorizationDenied
      | AuthGranted _ \<Rightarrow> Ok ())"

definition rs_authorize ::
  "string list \<Rightarrow> u64 \<Rightarrow> remote_session \<Rightarrow> (remote_session, session_transition_error) result" where
  "rs_authorize scopes revision s =
     (if rs_closed s then Err SessionClosed
      else Ok (s\<lparr>rs_granted_scopes := scopes, rs_authorization := AuthGranted revision\<rparr>))"

definition deny_authorization :: "string \<Rightarrow> remote_session \<Rightarrow> remote_session" where
  "deny_authorization reason s = s\<lparr>rs_authorization := AuthDenied reason\<rparr>"

definition begin_route_migration ::
  "route_kind \<Rightarrow> remote_session \<Rightarrow> (remote_session, session_transition_error) result" where
  "begin_route_migration kind s =
     and_then (ensure_authorized s) (\<lambda>_. Ok (s\<lparr>rs_route := Establishing kind\<rparr>))"

definition complete_route_migration ::
  "route_kind \<Rightarrow> remote_session \<Rightarrow> (remote_session, session_transition_error) result" where
  "complete_route_migration kind s =
     (if rs_route s \<noteq> Establishing kind then Err RouteMigrationNotInProgress
      else Ok (s\<lparr>rs_route := RouteActive kind\<rparr>))"

definition start_media :: "remote_session \<Rightarrow> (remote_session, session_transition_error) result" where
  "start_media s = and_then (ensure_authorized s) (\<lambda>_. Ok (s\<lparr>rs_media := MediaStarting\<rparr>))"

definition mark_streaming ::
  "remote_session \<Rightarrow> (remote_session, session_transition_error) result" where
  "mark_streaming s = and_then (ensure_authorized s) (\<lambda>_. Ok (s\<lparr>rs_media := MediaStreaming\<rparr>))"

definition rs_close :: "remote_session \<Rightarrow> remote_session" where
  "rs_close s = s\<lparr>rs_closed := True, rs_media := MediaStopped\<rparr>"

lemmas rs_op_defs =
  rs_new_def ensure_authorized_def rs_authorize_def deny_authorization_def
  begin_route_migration_def complete_route_migration_def start_media_def mark_streaming_def
  rs_close_def

section \<open>The aggregate as a state machine\<close>

inductive rs_step :: "remote_session \<Rightarrow> remote_session \<Rightarrow> bool" where
  authorize: "rs_authorize scopes revision s = Ok s' \<Longrightarrow> rs_step s s'"
| deny: "rs_step s (deny_authorization reason s)"
| begin_route: "begin_route_migration kind s = Ok s' \<Longrightarrow> rs_step s s'"
| complete_route: "complete_route_migration kind s = Ok s' \<Longrightarrow> rs_step s s'"
| start: "start_media s = Ok s' \<Longrightarrow> rs_step s s'"
| stream: "mark_streaming s = Ok s' \<Longrightarrow> rs_step s s'"
| close: "rs_step s (rs_close s)"

definition rs_inv :: "session_plan \<Rightarrow> remote_session \<Rightarrow> bool" where
  "rs_inv p s \<longleftrightarrow>
     rs_plan s = p \<and>
     (rs_closed s \<longleftrightarrow> rs_media s = MediaStopped) \<and>
     (rs_authorization s = AuthPending \<longrightarrow>
        rs_route s = RouteIdle \<and> rs_granted_scopes s = [] \<and>
        (rs_media s = MediaIdle \<or> rs_closed s)) \<and>
     (\<forall>r. rs_authorization s \<noteq> AuthRevoked r) \<and>
     (\<forall>r. rs_media s \<noteq> MediaFailed r) \<and>
     (\<forall>k r. rs_route s \<noteq> RouteFailed k r) \<and>
     rs_last_failure s = None"

lemma ensure_authorized_Ok:
  "ensure_authorized s = Ok () \<longleftrightarrow> \<not> rs_closed s \<and> (\<exists>r. rs_authorization s = AuthGranted r)"
  by (auto simp: ensure_authorized_def split: authorization_state.splits)

lemma rs_step_inv: "rs_step s t \<Longrightarrow> rs_inv p s \<Longrightarrow> rs_inv p t"
  by (induction rule: rs_step.induct)
     (auto simp: rs_inv_def rs_authorize_def deny_authorization_def begin_route_migration_def
        complete_route_migration_def start_media_def mark_streaming_def rs_close_def
        ensure_authorized_Ok split: if_splits)

interpretation rsi: state_invariant "\<lambda>s. s = rs_new p" rs_step "rs_inv p" for p
proof unfold_locales
  show "s = rs_new p \<Longrightarrow> rs_inv p s" for s
    by (simp add: rs_new_def rs_inv_def)
  show "rs_step s t \<Longrightarrow> rs_inv p s \<Longrightarrow> rs_inv p t" for s t
    by (rule rs_step_inv)
qed

lemma rs_step_closed: "rs_step s t \<Longrightarrow> rs_closed s \<Longrightarrow> rs_closed t \<and> rs_media t = rs_media s \<or> t = rs_close s"
  by (induction rule: rs_step.induct)
     (auto simp: rs_authorize_def deny_authorization_def begin_route_migration_def
        complete_route_migration_def start_media_def mark_streaming_def rs_close_def
        ensure_authorized_Ok split: if_splits)

lemma rs_steps_closed: "rs_step\<^sup>*\<^sup>* s t \<Longrightarrow> rs_closed s \<Longrightarrow> rs_closed t"
proof (induction rule: rtranclp_induct)
  case (step t u)
  from rs_step_closed [OF step.hyps(2)] step.IH step.prems show ?case
    by (auto simp: rs_close_def)
qed simp

section \<open>Properties\<close>

text \<open>
  In every reachable state of a session: the plan is the one it was created with, the
  media state is Stopped exactly when the session is closed, and while authorization is
  still pending no scope has been granted, no route has been started and no media has been
  started.
\<close>

theorem remote_session_reachable:
  assumes "rs_step\<^sup>*\<^sup>* (rs_new p) s"
  shows "rs_plan s = p \<and> (rs_closed s \<longleftrightarrow> rs_media s = MediaStopped) \<and>
    (rs_authorization s = AuthPending \<longrightarrow>
       rs_granted_scopes s = [] \<and> rs_route s = RouteIdle \<and>
       rs_media s \<notin> {MediaStarting, MediaStreaming})"
proof -
  have "rs_inv p s" by (rule rsi.reachable_inv [OF refl assms])
  then show ?thesis by (auto simp: rs_inv_def)
qed

theorem remote_session_reachable_witness:
  "let p = \<lparr>sp_session_id = ''s'', sp_initiator = ''a'', sp_target = ''b'',
            sp_role = Controller,
            sp_capabilities = \<lparr>supports_webrtc = True, supports_quic = True\<rparr>\<rparr>;
       s = rs_close (rs_new p)
   in rs_plan s = p \<and> rs_closed s \<and> rs_media s = MediaStopped"
proof -
  let ?p = "\<lparr>sp_session_id = ''s'', sp_initiator = ''a'', sp_target = ''b'',
            sp_role = Controller,
            sp_capabilities = \<lparr>supports_webrtc = True, supports_quic = True\<rparr>\<rparr>"
  have "rs_step\<^sup>*\<^sup>* (rs_new ?p) (rs_close (rs_new ?p))"
    by (rule r_into_rtranclp) (rule rs_step.close)
  from remote_session_reachable [OF this] show ?thesis
    by (simp add: rs_close_def)
qed

text \<open>
  Closing is final for media: once a session is closed, whatever operations follow, it
  stays closed with media Stopped, and authorising it, beginning a route migration, starting
  media and marking it streaming are all refused with the error Closed.
\<close>

theorem remote_session_close_final:
  assumes "rs_step\<^sup>*\<^sup>* (rs_new p) s" and "rs_step\<^sup>*\<^sup>* (rs_close s) t"
  shows "rs_closed t \<and> rs_media t = MediaStopped \<and>
    rs_authorize scopes revision t = Err SessionClosed \<and>
    begin_route_migration kind t = Err SessionClosed \<and>
    start_media t = Err SessionClosed \<and> mark_streaming t = Err SessionClosed"
proof -
  have closed: "rs_closed t"
    using rs_steps_closed [OF assms(2)] by (simp add: rs_close_def)
  have "rs_step\<^sup>*\<^sup>* (rs_new p) t"
    using assms rs_step.close by (meson rtranclp.rtrancl_into_rtrancl rtranclp_trans)
  then have "rs_inv p t" by (rule rsi.reachable_inv [OF refl])
  with closed have "rs_media t = MediaStopped" by (simp add: rs_inv_def)
  with closed show ?thesis
    by (simp add: rs_authorize_def begin_route_migration_def start_media_def
        mark_streaming_def ensure_authorized_def)
qed

theorem remote_session_close_final_witness:
  "start_media (deny_authorization ''policy'' (rs_close (rs_new
      \<lparr>sp_session_id = ''s'', sp_initiator = ''a'', sp_target = ''b'', sp_role = Agent,
       sp_capabilities = \<lparr>supports_webrtc = False, supports_quic = True\<rparr>\<rparr>)))
   = Err SessionClosed"
proof -
  have "rs_step\<^sup>*\<^sup>* s (deny_authorization ''policy'' s)" for s
    using rs_step.deny by (rule r_into_rtranclp)
  from remote_session_close_final [OF rtranclp.rtrancl_refl this] show ?thesis by blast
qed

end
