(* ===== verification/Quic_Session.thy ===== *)
theory Quic_Session
  imports Session_Grant
begin

text \<open>
  The session lifecycle and the QUIC session coordinator (\<open>mrd-session/src/lib.rs\<close>): a
  hash map from session identifiers to snapshots, created on request or accept and moved
  between lifecycle states by the transition calls.
\<close>

section \<open>Lifecycle\<close>

datatype session_lifecycle_state =
    LcCreated | LcListening | LcConnecting | LcConnected | LcStreaming
  | LcFailed string | LcClosed

fun lc_is_active :: "session_lifecycle_state \<Rightarrow> bool" where
  "lc_is_active LcListening = True"
| "lc_is_active LcConnecting = True"
| "lc_is_active LcConnected = True"
| "lc_is_active LcStreaming = True"
| "lc_is_active _ = False"

fun lc_is_terminal :: "session_lifecycle_state \<Rightarrow> bool" where
  "lc_is_terminal (LcFailed _) = True"
| "lc_is_terminal LcClosed = True"
| "lc_is_terminal _ = False"

fun lc_as_str :: "session_lifecycle_state \<Rightarrow> string" where
  "lc_as_str LcCreated = ''created''"
| "lc_as_str LcListening = ''listening''"
| "lc_as_str LcConnecting = ''connecting''"
| "lc_as_str LcConnected = ''connected''"
| "lc_as_str LcStreaming = ''streaming''"
| "lc_as_str (LcFailed _) = ''failed''"
| "lc_as_str LcClosed = ''closed''"

section \<open>Coordinator\<close>

record quic_session_snapshot =
  qs_transport :: string
  qs_source_device_id :: "string option"
  qs_target_device_id :: "string option"
  qs_local_listen_addr :: "string option"
  qs_local_server_name :: "string option"
  qs_local_cert_der_b64 :: "string option"
  qs_remote_listen_addr :: "string option"
  qs_remote_server_name :: "string option"
  qs_remote_cert_der_b64 :: "string option"
  qs_lifecycle_state :: session_lifecycle_state
  qs_last_error :: "string option"

definition qs_default :: quic_session_snapshot where
  "qs_default =
     \<lparr>qs_transport = [], qs_source_device_id = None, qs_target_device_id = None,
      qs_local_listen_addr = None, qs_local_server_name = None,
      qs_local_cert_der_b64 = None, qs_remote_listen_addr = None,
      qs_remote_server_name = None, qs_remote_cert_der_b64 = None,
      qs_lifecycle_state = LcCreated, qs_last_error = None\<rparr>"

type_synonym quic_coordinator = "(session_id, quic_session_snapshot) hash_map"

definition qc_snapshot :: "quic_coordinator \<Rightarrow> session_id \<Rightarrow> quic_session_snapshot option" where
  "qc_snapshot c sid = map_of c sid"

definition entry_or_default :: "quic_coordinator \<Rightarrow> session_id \<Rightarrow> quic_session_snapshot" where
  "entry_or_default c sid = (case map_of c sid of None \<Rightarrow> qs_default | Some q \<Rightarrow> q)"

definition qc_request_session ::
  "session_id \<Rightarrow> device_id \<Rightarrow> device_id \<Rightarrow> string \<Rightarrow> string option \<Rightarrow> string option
   \<Rightarrow> string option \<Rightarrow> quic_coordinator \<Rightarrow> (quic_coordinator, string) result" where
  "qc_request_session sid source target transport addr server cert c =
     Ok (AList.update sid
       ((entry_or_default c sid)
          \<lparr>qs_transport := transport,
           qs_source_device_id := Some source,
           qs_target_device_id := Some target,
           qs_local_listen_addr := addr,
           qs_local_server_name := server,
           qs_local_cert_der_b64 := cert,
           qs_lifecycle_state := LcConnecting\<rparr>) c)"

definition qc_accept_session ::
  "session_id \<Rightarrow> string \<Rightarrow> string option \<Rightarrow> string option \<Rightarrow> string option
   \<Rightarrow> quic_coordinator \<Rightarrow> (quic_coordinator, string) result" where
  "qc_accept_session sid transport addr server cert c =
     Ok (AList.update sid
       ((entry_or_default c sid)
          \<lparr>qs_transport := transport,
           qs_remote_listen_addr := addr,
           qs_remote_server_name := server,
           qs_remote_cert_der_b64 := cert,
           qs_lifecycle_state := LcListening\<rparr>) c)"

definition session_not_found :: "session_id \<Rightarrow> string" where
  "session_not_found sid = ''Session not found: '' @ sid"

definition qc_set_connected ::
  "session_id \<Rightarrow> quic_coordinator \<Rightarrow> (quic_coordinator, string) result" where
  "qc_set_connected sid c =
     and_then (ok_or (session_not_found sid) (map_of c sid))
       (\<lambda>q. Ok (AList.update sid (q\<lparr>qs_lifecycle_state := LcConnected\<rparr>) c))"

definition qc_set_streaming ::
  "session_id \<Rightarrow> quic_coordinator \<Rightarrow> (quic_coordinator, string) result" where
  "qc_set_streaming sid c =
     and_then (ok_or (session_not_found sid) (map_of c sid))
       (\<lambda>q. Ok (AList.update sid (q\<lparr>qs_lifecycle_state := LcStreaming\<rparr>) c))"

definition qc_set_failed ::
  "session_id \<Rightarrow> string \<Rightarrow> quic_coordinator \<Rightarrow> (quic_coordinator, string) result" where
  "qc_set_failed sid message c =
     and_then (ok_or (session_not_found sid) (map_of c sid))
       (\<lambda>q. Ok (AList.update sid
              (q\<lparr>qs_lifecycle_state := LcFailed message, qs_last_error := Some message\<rparr>) c))"

definition qc_close ::
  "session_id \<Rightarrow> quic_coordinator \<Rightarrow> (quic_coordinator, string) result" where
  "qc_close sid c =
     and_then (ok_or (session_not_found sid) (map_of c sid))
       (\<lambda>q. Ok (AList.update sid (q\<lparr>qs_lifecycle_state := LcClosed\<rparr>) c))"

lemmas qc_op_defs =
  qc_request_session_def qc_accept_session_def qc_set_connected_def qc_set_streaming_def
  qc_set_failed_def qc_close_def

section \<open>Steps and what they keep\<close>

inductive qc_step :: "session_id \<Rightarrow> quic_coordinator \<Rightarrow> quic_coordinator \<Rightarrow> bool" where
  qc_request: "qc_request_session sid src tgt tr addr server cert c = Ok c' \<Longrightarrow> qc_step sid c c'"
| qc_accept: "qc_accept_session sid tr addr server cert c = Ok c' \<Longrightarrow> qc_step sid c c'"
| qc_connected: "qc_set_connected sid c = Ok c' \<Longrightarrow> qc_step sid c c'"
| qc_streaming: "qc_set_streaming sid c = Ok c' \<Longrightarrow> qc_step sid c c'"
| qc_failed: "qc_set_failed sid msg c = Ok c' \<Longrightarrow> qc_step sid c c'"
| qc_closed: "qc_close sid c = Ok c' \<Longrightarrow> qc_step sid c c'"

lemma qc_step_update:
  "qc_step sid c c' \<Longrightarrow> \<exists>q. c' = AList.update sid q c \<and> qs_lifecycle_state q \<noteq> LcCreated"
  by (induction rule: qc_step.induct) (auto simp: qc_op_defs)

definition qc_inv :: "quic_coordinator \<Rightarrow> bool" where
  "qc_inv c \<longleftrightarrow> hm_wf c \<and>
     (\<forall>sid q. map_of c sid = Some q \<longrightarrow>
        qs_lifecycle_state q \<noteq> LcCreated \<and>
        (\<forall>m. qs_lifecycle_state q = LcFailed m \<longrightarrow> qs_last_error q = Some m))"

lemma qc_step_inv: "qc_step sid c c' \<Longrightarrow> qc_inv c \<Longrightarrow> qc_inv c'"
  by (induction rule: qc_step.induct)
     (auto simp: qc_op_defs qc_inv_def hm.wf_ins hm.get_ins split: if_splits)

interpretation qci: state_invariant "\<lambda>c. c = []" "\<lambda>c c'. \<exists>sid. qc_step sid c c'" qc_inv
  by unfold_locales (auto simp: qc_inv_def hm_wf_def dest: qc_step_inv)

section \<open>Properties\<close>

text \<open>
  In every state the coordinator reaches from empty, the session table has one entry
  per identifier, no recorded session is still in state Created, and every failed session
  records its failure message as its last error.
\<close>

theorem quic_coordinator_reachable:
  assumes "(\<lambda>c c'. \<exists>sid. qc_step sid c c')\<^sup>*\<^sup>* [] c"
  shows "distinct (map fst c) \<and>
    (\<forall>sid q. qc_snapshot c sid = Some q \<longrightarrow>
       qs_lifecycle_state q \<noteq> LcCreated \<and>
       (\<forall>m. qs_lifecycle_state q = LcFailed m \<longrightarrow> qs_last_error q = Some m))"
  using qci.reachable_inv [OF refl assms] by (simp add: qc_inv_def hm_wf_def qc_snapshot_def)

theorem quic_coordinator_reachable_witness:
  "distinct (map fst [(''s'', qs_default\<lparr>qs_transport := ''quic'',
     qs_lifecycle_state := LcListening\<rparr>)])"
proof -
  have "qc_accept_session ''s'' ''quic'' None None None [] =
      Ok [(''s'', qs_default\<lparr>qs_transport := ''quic'', qs_lifecycle_state := LcListening\<rparr>)]"
    by (simp add: qc_accept_session_def entry_or_default_def qs_default_def)
  then have "(\<lambda>c c'. \<exists>sid. qc_step sid c c')\<^sup>*\<^sup>* []
      [(''s'', qs_default\<lparr>qs_transport := ''quic'', qs_lifecycle_state := LcListening\<rparr>)]"
    by (blast intro: r_into_rtranclp qc_accept)
  from quic_coordinator_reachable [OF this] show ?thesis by blast
qed

text \<open>
  Isolation: an operation on one session leaves the snapshot of every other session
  as it was, and the transition calls on an unknown session fail with the message naming it.
\<close>

theorem quic_coordinator_isolation:
  "(qc_step sid c c' \<longrightarrow> sid' \<noteq> sid \<longrightarrow> qc_snapshot c' sid' = qc_snapshot c sid') \<and>
   (qc_snapshot c sid = None \<longrightarrow>
      qc_set_connected sid c = Err (''Session not found: '' @ sid) \<and>
      qc_set_streaming sid c = Err (''Session not found: '' @ sid) \<and>
      qc_set_failed sid msg c = Err (''Session not found: '' @ sid) \<and>
      qc_close sid c = Err (''Session not found: '' @ sid))"
  using qc_step_update [of sid c c']
  by (auto simp: qc_snapshot_def qc_op_defs session_not_found_def update_conv')

theorem quic_coordinator_isolation_witness:
  "qc_close ''x'' [] = Err (''Session not found: '' @ ''x'')"
  using quic_coordinator_isolation [of "''x''" "[]" "[]" "''y''" "''m''"]
  by (simp add: qc_snapshot_def)

end
