(* ===== verification/Session_Scheduler.thy ===== *)
theory Session_Scheduler
  imports Quic_Session "HOL-Library.Multiset"
begin

text \<open>
  The multi-session scheduler (\<open>mrd-session/src/scheduler.rs\<close>): a table of sessions behind a
  mutex, a semaphore of streaming permits and a registration counter.  Every critical section
  is one definition; \<open>acquire_streaming_permit\<close>, which waits between its two critical
  sections, is split at its await points, and the interleaving of any number of callers is
  the step relation \<open>ss_step\<close>, with dropped futures and the best-effort \<open>try_lock\<close> of the
  permit's destructor as nondeterminism.  The semaphore is tokio's and a parameter: the
  operations the scheduler calls are the fields of \<open>semaphore_ops\<close>, what tokio documents of them
  is \<open>semaphore_contract\<close>.  Instants and durations are natural numbers of nanoseconds; an
  \<open>f32\<close> limit, which the scheduler only stores, is its bit pattern.
\<close>

section \<open>The semaphore\<close>

text \<open>
  \<open>sem_enqueue\<close> is the call of \<open>acquire_owned\<close>, \<open>sem_acquire\<close> one poll of a call (\<open>None\<close> while it
  waits, \<open>Err\<close> when the semaphore was closed), \<open>sem_cancel\<close> the drop of a call that waits, and
  \<open>sem_drop\<close> the drop of an owned permit.
\<close>

record 'q semaphore_ops =
  sem_max_permits :: nat
  sem_new :: "nat \<Rightarrow> 'q"
  sem_enqueue :: "'q \<Rightarrow> 'q"
  sem_acquire :: "'q \<Rightarrow> ('q, unit) result option"
  sem_cancel :: "'q \<Rightarrow> 'q"
  sem_drop :: "'q \<Rightarrow> 'q"
  sem_available :: "'q \<Rightarrow> nat"


section \<open>Data\<close>

datatype session_priority = PrioLow | PrioNormal | PrioHigh | PrioCritical

record session_resource_limits =
  max_bitrate_mbps :: "u32 option"
  max_fps :: "u32 option"
  max_resolution :: "(u32 \<times> u32) option"
  cpu_budget_percent :: "u32 option"

record scheduled_session =
  ss_generation :: u64
  ss_state :: session_lifecycle_state
  ss_priority :: session_priority
  ss_limits :: session_resource_limits
  ss_last_activity :: nat
  ss_is_active :: bool

record 'q session_scheduler =
  sch_sessions :: "(session_id, scheduled_session) hash_map"
  sch_semaphore :: 'q
  sch_next_generation :: u64
  sch_max_streams :: nat
  sch_idle_timeout :: nat

datatype session_scheduler_error =
    SessionNotFound | SessionAlreadyExists | SchedulerClosed
  | MaxConcurrentSessionsReached | InvalidState

record session_scheduler_stats =
  st_total_sessions :: nat
  st_active_sessions :: nat
  st_available_slots :: nat
  st_max_concurrent_streams :: nat

text \<open>A streaming permit; the owned semaphore permit it carries is released by \<open>sem_drop\<close>.\<close>

record streaming_permit =
  pm_session_id :: session_id
  pm_generation :: u64

section \<open>Operations\<close>

definition scheduled_session_new ::
  "nat \<Rightarrow> u64 \<Rightarrow> session_priority \<Rightarrow> session_resource_limits \<Rightarrow> scheduled_session" where
  "scheduled_session_new now generation priority limits =
     \<lparr>ss_generation = generation, ss_state = LcCreated, ss_priority = priority,
      ss_limits = limits, ss_last_activity = now, ss_is_active = False\<rparr>"

definition is_idle :: "nat \<Rightarrow> nat \<Rightarrow> scheduled_session \<Rightarrow> bool" where
  "is_idle now timeout s \<longleftrightarrow> \<not> ss_is_active s \<and> now - ss_last_activity s > timeout"

definition touch :: "nat \<Rightarrow> scheduled_session \<Rightarrow> scheduled_session" where
  "touch now s = s\<lparr>ss_last_activity := now\<rparr>"

definition sch_new :: "'q semaphore_ops \<Rightarrow> nat \<Rightarrow> nat \<Rightarrow> 'q session_scheduler" where
  "sch_new ops max_streams timeout =
     \<lparr>sch_sessions = [], sch_semaphore = sem_new ops max_streams, sch_next_generation = 0,
      sch_max_streams = max_streams, sch_idle_timeout = timeout\<rparr>"

definition register_session ::
  "nat \<Rightarrow> session_id \<Rightarrow> session_priority \<Rightarrow> session_resource_limits \<Rightarrow> 'q session_scheduler
   \<Rightarrow> ('q session_scheduler, session_scheduler_error) result" where
  "register_session now sid priority limits s =
     (case map_of (sch_sessions s) sid of
        None \<Rightarrow> Ok (s\<lparr>sch_next_generation := sch_next_generation s + 1,
                      sch_sessions := AList.update sid
                        (scheduled_session_new now (sch_next_generation s) priority limits)
                        (sch_sessions s)\<rparr>)
      | Some _ \<Rightarrow> Err SessionAlreadyExists)"

definition unregister_session ::
  "session_id \<Rightarrow> 'q session_scheduler \<Rightarrow> ('q session_scheduler, session_scheduler_error) result" where
  "unregister_session sid s =
     (case map_of (sch_sessions s) sid of
        None \<Rightarrow> Err SessionNotFound
      | Some _ \<Rightarrow> Ok (s\<lparr>sch_sessions := AList.delete sid (sch_sessions s)\<rparr>))"

definition with_session ::
  "(scheduled_session \<Rightarrow> scheduled_session) \<Rightarrow> session_id \<Rightarrow> 'q session_scheduler
   \<Rightarrow> ('q session_scheduler, session_scheduler_error) result" where
  "with_session f sid s =
     (case map_of (sch_sessions s) sid of
        None \<Rightarrow> Err SessionNotFound
      | Some x \<Rightarrow> Ok (s\<lparr>sch_sessions := AList.update sid (f x) (sch_sessions s)\<rparr>))"

text \<open>
  \<open>acquire_streaming_permit\<close>: its first critical section and its second one, which revalidates the
  registration; between them the call acquires a semaphore permit.
\<close>

definition acquire_begin ::
  "nat \<Rightarrow> session_id \<Rightarrow> 'q session_scheduler
   \<Rightarrow> ('q session_scheduler \<times> u64, session_scheduler_error) result" where
  "acquire_begin now sid s =
     (case map_of (sch_sessions s) sid of
        None \<Rightarrow> Err SessionNotFound
      | Some x \<Rightarrow> Ok (s\<lparr>sch_sessions := AList.update sid (touch now x) (sch_sessions s)\<rparr>,
                      ss_generation x))"

definition acquire_finish ::
  "session_id \<Rightarrow> u64 \<Rightarrow> 'q session_scheduler
   \<Rightarrow> 'q session_scheduler \<times> (streaming_permit, session_scheduler_error) result" where
  "acquire_finish sid generation s =
     (case map_of (sch_sessions s) sid of
        None \<Rightarrow> (s, Err SessionNotFound)
      | Some x \<Rightarrow>
          if ss_generation x \<noteq> generation then (s, Err SessionNotFound)
          else (s\<lparr>sch_sessions := AList.update sid
                    (x\<lparr>ss_is_active := True, ss_state := LcStreaming\<rparr>) (sch_sessions s)\<rparr>,
                Ok \<lparr>pm_session_id = sid, pm_generation = generation\<rparr>))"

definition semaphore_release :: "'q semaphore_ops \<Rightarrow> 'q session_scheduler \<Rightarrow> 'q session_scheduler" where
  "semaphore_release ops s = s\<lparr>sch_semaphore := sem_drop ops (sch_semaphore s)\<rparr>"

text \<open>
  The whole call when nothing interleaves; None when it waits for a permit.  When the second
  critical section fails, the owned semaphore permit is dropped.
\<close>

definition acquire_streaming_permit ::
  "'q semaphore_ops \<Rightarrow> nat \<Rightarrow> session_id \<Rightarrow> 'q session_scheduler
   \<Rightarrow> ('q session_scheduler \<times> (streaming_permit, session_scheduler_error) result) option" where
  "acquire_streaming_permit ops now sid s =
     (case acquire_begin now sid s of
        Err e \<Rightarrow> Some (s, Err e)
      | Ok (s1, generation) \<Rightarrow>
          let queue = sem_enqueue ops (sch_semaphore s1) in
          (case sem_acquire ops queue of
             None \<Rightarrow> None
           | Some (Err _) \<Rightarrow> Some (s1\<lparr>sch_semaphore := sem_cancel ops queue\<rparr>, Err SchedulerClosed)
           | Some (Ok semaphore) \<Rightarrow>
               (case acquire_finish sid generation (s1\<lparr>sch_semaphore := semaphore\<rparr>) of
                  (s2, Err e) \<Rightarrow> Some (semaphore_release ops s2, Err e)
                | (s2, Ok permit) \<Rightarrow> Some (s2, Ok permit))))"

text \<open>
  The destructor of a permit: the mark (skipped when \<open>try_lock\<close> fails), then the drop of the
  semaphore permit.
\<close>

definition permit_drop_mark :: "streaming_permit \<Rightarrow> 'q session_scheduler \<Rightarrow> 'q session_scheduler" where
  "permit_drop_mark p s =
     (case map_of (sch_sessions s) (pm_session_id p) of
        None \<Rightarrow> s
      | Some x \<Rightarrow>
          if ss_generation x = pm_generation p
          then s\<lparr>sch_sessions := AList.update (pm_session_id p) (x\<lparr>ss_is_active := False\<rparr>)
                                  (sch_sessions s)\<rparr>
          else s)"

definition update_session_state ::
  "nat \<Rightarrow> session_id \<Rightarrow> session_lifecycle_state \<Rightarrow> 'q session_scheduler
   \<Rightarrow> ('q session_scheduler, session_scheduler_error) result" where
  "update_session_state now sid state s =
     with_session (\<lambda>x. (touch now (x\<lparr>ss_state := state\<rparr>))\<lparr>ss_is_active := (state = LcStreaming)\<rparr>)
       sid s"

definition get_session_priority :: "session_id \<Rightarrow> 'q session_scheduler \<Rightarrow> session_priority option" where
  "get_session_priority sid s = map_option ss_priority (map_of (sch_sessions s) sid)"

definition set_session_priority ::
  "session_id \<Rightarrow> session_priority \<Rightarrow> 'q session_scheduler
   \<Rightarrow> ('q session_scheduler, session_scheduler_error) result" where
  "set_session_priority sid priority s = with_session (\<lambda>x. x\<lparr>ss_priority := priority\<rparr>) sid s"

definition get_session_limits ::
  "session_id \<Rightarrow> 'q session_scheduler \<Rightarrow> session_resource_limits option" where
  "get_session_limits sid s = map_option ss_limits (map_of (sch_sessions s) sid)"

definition set_session_limits ::
  "session_id \<Rightarrow> session_resource_limits \<Rightarrow> 'q session_scheduler
   \<Rightarrow> ('q session_scheduler, session_scheduler_error) result" where
  "set_session_limits sid limits s = with_session (\<lambda>x. x\<lparr>ss_limits := limits\<rparr>) sid s"

definition active_sessions :: "'q session_scheduler \<Rightarrow> session_id list" where
  "active_sessions s = map fst (filter (\<lambda>(_, x). ss_is_active x) (sch_sessions s))"

definition streaming_count :: "'q session_scheduler \<Rightarrow> nat" where
  "streaming_count s = length (filter (\<lambda>(_, x). ss_is_active x) (sch_sessions s))"

definition available_slots :: "'q semaphore_ops \<Rightarrow> 'q session_scheduler \<Rightarrow> nat" where
  "available_slots ops s = sem_available ops (sch_semaphore s)"

definition prune_idle_sessions ::
  "nat \<Rightarrow> 'q session_scheduler \<Rightarrow> 'q session_scheduler \<times> session_id list" where
  "prune_idle_sessions now s =
     (let to_remove = map fst (filter (\<lambda>(_, x). is_idle now (sch_idle_timeout s) x) (sch_sessions s))
      in (s\<lparr>sch_sessions := fold AList.delete to_remove (sch_sessions s)\<rparr>, to_remove))"

definition sch_stats :: "'q semaphore_ops \<Rightarrow> 'q session_scheduler \<Rightarrow> session_scheduler_stats" where
  "sch_stats ops s =
     \<lparr>st_total_sessions = length (sch_sessions s), st_active_sessions = streaming_count s,
      st_available_slots = available_slots ops s, st_max_concurrent_streams = sch_max_streams s\<rparr>"

lemmas scheduler_op_defs =
  with_session_def update_session_state_def set_session_priority_def set_session_limits_def
  unregister_session_def acquire_begin_def permit_drop_mark_def touch_def

section \<open>Interleaved callers\<close>

text \<open>
  The scheduler together with the calls in flight: \<open>called\<close> calls have left the first critical
  section, \<open>waiting\<close> calls are in the semaphore's queue, \<open>validating\<close> calls hold a semaphore permit
  and wait for the second critical section, \<open>permits\<close> are the streaming permits handed out, and
  \<open>releasing\<close> counts the semaphore permits whose drop is under way.  Three histories of
  registrations (a session and its generation) say what else may have changed the active flag:
  \<open>overridden\<close> by \<open>update_session_state\<close>, \<open>unmarked\<close> when a destructor could not lock the table,
  and \<open>dropped\<close> when a permit was dropped at all.  A label is True for a step that registers a
  session.
\<close>

record 'q scheduler_world =
  sw_sched :: "'q session_scheduler"
  sw_called :: "(session_id \<times> u64) multiset"
  sw_waiting :: "(session_id \<times> u64) multiset"
  sw_validating :: "(session_id \<times> u64) multiset"
  sw_permits :: "streaming_permit multiset"
  sw_releasing :: nat
  sw_overridden :: "(session_id \<times> u64) set"
  sw_unmarked :: "(session_id \<times> u64) set"
  sw_dropped :: "(session_id \<times> u64) set"

definition sw_new :: "'q semaphore_ops \<Rightarrow> nat \<Rightarrow> nat \<Rightarrow> 'q scheduler_world" where
  "sw_new ops max_streams timeout =
     \<lparr>sw_sched = sch_new ops max_streams timeout, sw_called = {#}, sw_waiting = {#},
      sw_validating = {#}, sw_permits = {#}, sw_releasing = 0, sw_overridden = {}, sw_unmarked = {},
      sw_dropped = {}\<rparr>"

definition with_semaphore :: "('q \<Rightarrow> 'q) \<Rightarrow> 'q scheduler_world \<Rightarrow> 'q scheduler_world" where
  "with_semaphore f w = w\<lparr>sw_sched := (sw_sched w)\<lparr>sch_semaphore := f (sch_semaphore (sw_sched w))\<rparr>\<rparr>"

definition registered :: "'q scheduler_world \<Rightarrow> session_id \<Rightarrow> u64 option" where
  "registered w sid = map_option ss_generation (map_of (sch_sessions (sw_sched w)) sid)"

definition permit_key :: "streaming_permit \<Rightarrow> session_id \<times> u64" where
  "permit_key p = (pm_session_id p, pm_generation p)"

inductive ss_step :: "'q semaphore_ops \<Rightarrow> bool \<Rightarrow> 'q scheduler_world \<Rightarrow> 'q scheduler_world \<Rightarrow> bool"
  for ops where
  register: "register_session now sid prio lim (sw_sched w) = Ok s' \<Longrightarrow>
    ss_step ops True w (w\<lparr>sw_sched := s'\<rparr>)"
| unregister: "unregister_session sid (sw_sched w) = Ok s' \<Longrightarrow>
    ss_step ops False w (w\<lparr>sw_sched := s'\<rparr>)"
| first_section: "acquire_begin now sid (sw_sched w) = Ok (s', g) \<Longrightarrow>
    ss_step ops False w (w\<lparr>sw_sched := s', sw_called := add_mset (sid, g) (sw_called w)\<rparr>)"
| enqueue: "t \<in># sw_called w \<Longrightarrow>
    ss_step ops False w (with_semaphore (sem_enqueue ops)
      (w\<lparr>sw_called := sw_called w - {#t#}, sw_waiting := add_mset t (sw_waiting w)\<rparr>))"
| acquire: "t \<in># sw_waiting w \<Longrightarrow> sem_acquire ops (sch_semaphore (sw_sched w)) = Some (Ok q) \<Longrightarrow>
    ss_step ops False w (with_semaphore (\<lambda>_. q)
      (w\<lparr>sw_waiting := sw_waiting w - {#t#}, sw_validating := add_mset t (sw_validating w)\<rparr>))"
| acquire_closed: "t \<in># sw_waiting w \<Longrightarrow> sem_acquire ops (sch_semaphore (sw_sched w)) = Some (Err e) \<Longrightarrow>
    ss_step ops False w (with_semaphore (sem_cancel ops) (w\<lparr>sw_waiting := sw_waiting w - {#t#}\<rparr>))"
| finish_ok: "(sid, g) \<in># sw_validating w \<Longrightarrow>
    acquire_finish sid g (sw_sched w) = (s', Ok p) \<Longrightarrow>
    ss_step ops False w (w\<lparr>sw_sched := s', sw_validating := sw_validating w - {#(sid, g)#},
      sw_permits := add_mset p (sw_permits w)\<rparr>)"
| finish_err: "(sid, g) \<in># sw_validating w \<Longrightarrow>
    acquire_finish sid g (sw_sched w) = (s', Err e) \<Longrightarrow>
    ss_step ops False w (w\<lparr>sw_sched := s', sw_validating := sw_validating w - {#(sid, g)#},
      sw_releasing := sw_releasing w + 1\<rparr>)"
| cancel_waiting: "t \<in># sw_waiting w \<Longrightarrow>
    ss_step ops False w (with_semaphore (sem_cancel ops) (w\<lparr>sw_waiting := sw_waiting w - {#t#}\<rparr>))"
| cancel_validating: "t \<in># sw_validating w \<Longrightarrow>
    ss_step ops False w (w\<lparr>sw_validating := sw_validating w - {#t#}, sw_releasing := sw_releasing w + 1\<rparr>)"
| drop_marked: "p \<in># sw_permits w \<Longrightarrow>
    ss_step ops False w (w\<lparr>sw_permits := sw_permits w - {#p#}, sw_releasing := sw_releasing w + 1,
      sw_sched := permit_drop_mark p (sw_sched w), sw_dropped := insert (permit_key p) (sw_dropped w)\<rparr>)"
| drop_contended: "p \<in># sw_permits w \<Longrightarrow>
    ss_step ops False w (w\<lparr>sw_permits := sw_permits w - {#p#}, sw_releasing := sw_releasing w + 1,
      sw_unmarked := insert (permit_key p) (sw_unmarked w), sw_dropped := insert (permit_key p) (sw_dropped w)\<rparr>)"
| release: "0 < sw_releasing w \<Longrightarrow>
    ss_step ops False w (w\<lparr>sw_releasing := sw_releasing w - 1,
      sw_sched := semaphore_release ops (sw_sched w)\<rparr>)"
| update: "update_session_state now sid st (sw_sched w) = Ok s' \<Longrightarrow> registered w sid = Some g \<Longrightarrow>
    ss_step ops False w (w\<lparr>sw_sched := s', sw_overridden := insert (sid, g) (sw_overridden w)\<rparr>)"
| priority: "set_session_priority sid prio (sw_sched w) = Ok s' \<Longrightarrow>
    ss_step ops False w (w\<lparr>sw_sched := s'\<rparr>)"
| limits: "set_session_limits sid lim (sw_sched w) = Ok s' \<Longrightarrow>
    ss_step ops False w (w\<lparr>sw_sched := s'\<rparr>)"
| prune: "prune_idle_sessions now (sw_sched w) = (s', ids) \<Longrightarrow>
    ss_step ops False w (w\<lparr>sw_sched := s'\<rparr>)"

text \<open>Runs, counting the registrations.\<close>

inductive ss_run :: "'q semaphore_ops \<Rightarrow> nat \<Rightarrow> 'q scheduler_world \<Rightarrow> 'q scheduler_world \<Rightarrow> bool" for ops where
  refl: "ss_run ops 0 w w"
| step: "ss_run ops n w u \<Longrightarrow> ss_step ops b u v \<Longrightarrow> ss_run ops (n + (if b then 1 else 0)) w v"

section \<open>Invariants\<close>


lemma with_session_Ok:
  "with_session f sid s = Ok s' \<longleftrightarrow>
     (\<exists>x. map_of (sch_sessions s) sid = Some x \<and>
        s' = s\<lparr>sch_sessions := AList.update sid (f x) (sch_sessions s)\<rparr>)"
  by (auto simp: with_session_def split: option.splits)


lemma hm_wf_fold_delete: "hm_wf m \<Longrightarrow> hm_wf (fold AList.delete ks m)"
  using hm.fold_del by blast


lemma hm_wf_step: "ss_step ops b w w' \<Longrightarrow> hm_wf (sch_sessions (sw_sched w)) \<Longrightarrow> hm_wf (sch_sessions (sw_sched w'))"
  by (induction rule: ss_step.induct)
    (auto simp: register_session_def unregister_session_def acquire_begin_def acquire_finish_def
      update_session_state_def set_session_priority_def set_session_limits_def with_session_Ok
      prune_idle_sessions_def permit_drop_mark_def semaphore_release_def with_semaphore_def Let_def
      hm.wf_ins hm.wf_del hm_wf_fold_delete split: option.splits if_splits)

interpretation ssw: state_invariant "\<lambda>w. w = sw_new ops m t" "\<lambda>w w'. \<exists>b. ss_step ops b w w'"
  "\<lambda>w. hm_wf (sch_sessions (sw_sched w))" for ops m t
  by unfold_locales (auto simp: sw_new_def sch_new_def dest: hm_wf_step)



lemma ss_run_steps: "ss_run ops n w u \<Longrightarrow> (\<lambda>w w'. \<exists>b. ss_step ops b w w')\<^sup>*\<^sup>* w u"
  by (induction rule: ss_run.induct) (auto intro: rtranclp.rtrancl_into_rtrancl)

lemma ss_run_new_wf: "ss_run ops n (sw_new ops m t) w \<Longrightarrow> hm_wf (sch_sessions (sw_sched w))"
  using ss_run_steps ssw.reachable_inv by blast


text \<open>Only a registration adds an entry, with the next generation; nothing changes one.\<close>

lemma ss_step_registered:
  "ss_step ops b w w' \<Longrightarrow> hm_wf (sch_sessions (sw_sched w)) \<Longrightarrow>
   (if b then \<exists>sid. registered w' = (registered w)(sid \<mapsto> sch_next_generation (sw_sched w)) \<and>
      sch_next_generation (sw_sched w') = sch_next_generation (sw_sched w) + 1
    else registered w' \<subseteq>\<^sub>m registered w \<and>
      sch_next_generation (sw_sched w') = sch_next_generation (sw_sched w))"
proof (induction rule: ss_step.induct)
  case (register now sid prio lim w s')
  then show ?case
    by (intro if_P [THEN iffD2, OF TrueI] exI [of _ sid])
       (auto simp: register_session_def registered_def fun_eq_iff update_conv'
          scheduled_session_new_def split: option.splits)
next
  case (prune now w s' ids)
  then show ?case
    using hm.fold_del [of "sch_sessions (sw_sched w)"]
    by (auto simp: prune_idle_sessions_def Let_def registered_def map_le_def domIff split: if_splits)
qed (auto simp: registered_def map_le_def domIff unregister_session_def acquire_begin_def
    semaphore_release_def with_semaphore_def acquire_finish_def permit_drop_mark_def touch_def
    update_session_state_def set_session_priority_def set_session_limits_def with_session_Ok
    update_conv' delete_conv' split: option.splits if_splits)

text \<open>Generations issued so far are those below the number of registrations.\<close>

lemma ss_run_generations:
  assumes "ss_run ops n (sw_new ops m t) w" and "n \<le> 2 ^ 64"
  shows "sch_next_generation (sw_sched w) = of_nat n \<and>
    (\<forall>sid g. registered w sid = Some g \<longrightarrow> unat g < n)"
  using assms
proof (induction n "sw_new ops m t" w rule: ss_run.induct)
  case refl
  then show ?case by (simp add: sw_new_def sch_new_def registered_def)
next
  case (step n u b v)
  have inv: "hm_wf (sch_sessions (sw_sched u))" using step.hyps(1) by (rule ss_run_new_wf)
  have IH: "sch_next_generation (sw_sched u) = of_nat n"
    "\<forall>sid g. registered u sid = Some g \<longrightarrow> unat g < n"
    using step.hyps(2) step.prems by (simp_all split: if_splits)
  show ?case
  proof (cases b)
    case True
    with step.prems have "unat (of_nat n :: u64) = n" by (simp add: unat_of_nat)
    with ss_step_registered [OF step.hyps(3) inv] IH True show ?thesis
      by (auto simp: add.commute less_Suc_eq split: if_splits)
  next
    case False
    with ss_step_registered [OF step.hyps(3) inv] IH show ?thesis
      by (auto simp: map_le_def dom_def)
  qed
qed

lemma ss_run_trans: "ss_run ops k u v \<Longrightarrow> ss_run ops n w u \<Longrightarrow> ss_run ops (n + k) w v"
proof (induction rule: ss_run.induct)
  case (step k u x b v)
  from ss_run.step [OF step.IH [OF step.prems] step.hyps(2)] show ?case
    by (simp add: add.assoc)
qed simp

text \<open>A generation that is gone from the table does not come back.\<close>

lemma ss_run_dead:
  assumes "ss_run ops k w1 w2" and "ss_run ops n (sw_new ops m t) w1" and "unat g < n"
    and "registered w1 sid \<noteq> Some g" and "n + k \<le> 2 ^ 64"
  shows "registered w2 sid \<noteq> Some g"
  using assms
proof (induction rule: ss_run.induct)
  case (step k w1 u b v)
  have run: "ss_run ops (n + k) (sw_new ops m t) u" using ss_run_trans step.hyps(1) step.prems(1) by blast
  have le: "n + k \<le> 2 ^ 64" using step.prems(4) by (simp split: if_splits)
  have IH: "registered u sid \<noteq> Some g" using step.IH step.prems le by blast
  have next_gen: "sch_next_generation (sw_sched u) = of_nat (n + k)"
    using ss_run_generations [OF run le] by blast
  note reg = ss_step_registered [OF step.hyps(2) ss_run_new_wf [OF run]]
  show ?case
  proof (cases b)
    case True
    with step.prems(4) have "unat (of_nat (n + k) :: u64) = n + k"
      by (simp add: unat_of_nat del: of_nat_add)
    with step.prems(2) have "g \<noteq> of_nat (n + k)" by auto
    with reg True IH next_gen show ?thesis by (auto split: if_splits)
  next
    case False
    with reg IH show ?thesis by (auto simp: map_le_def dom_def)
  qed
qed simp

lemma acquire_finish_stale:
  "map_option ss_generation (map_of (sch_sessions s) sid) \<noteq> Some g \<Longrightarrow>
   acquire_finish sid g s = (s, Err SessionNotFound) \<and>
   permit_drop_mark \<lparr>pm_session_id = sid, pm_generation = g\<rparr> s = s"
  by (auto simp: acquire_finish_def permit_drop_mark_def split: option.splits)

section \<open>The active flag\<close>
















section \<open>Properties\<close>


text \<open>A semaphore that counts free permits and queued calls, and a scheduler with one slot.\<close>

definition sample_semaphore :: "(nat \<times> nat) semaphore_ops" where
  "sample_semaphore = \<lparr>sem_max_permits = 8, sem_new = (\<lambda>n. (n, 0)), sem_enqueue = (\<lambda>(f, q). (f, q + 1)),
     sem_acquire = (\<lambda>(f, q). if f = 0 then None else Some (Ok (f - 1, q - 1))),
     sem_cancel = (\<lambda>(f, q). (f, q - 1)), sem_drop = (\<lambda>(f, q). (f + 1, q)), sem_available = fst\<rparr>"


definition sample_limits :: session_resource_limits where
  "sample_limits = \<lparr>max_bitrate_mbps = None, max_fps = Some 60, max_resolution = None,
                    cpu_budget_percent = None\<rparr>"

definition sample_session :: "u64 \<Rightarrow> scheduled_session" where
  "sample_session g = scheduled_session_new 0 g PrioNormal sample_limits"

definition sample_world :: "(session_id \<times> u64) list \<Rightarrow> u64 \<Rightarrow> (nat \<times> nat) scheduler_world" where
  "sample_world regs nxt =
     (sw_new sample_semaphore 1 30)\<lparr>sw_sched := (sch_new sample_semaphore 1 30)\<lparr>sch_next_generation := nxt,
        sch_sessions := map (\<lambda>(sid, g). (sid, sample_session g)) regs\<rparr>\<rparr>"

lemma sample_register:
  "sid \<notin> fst ` set regs \<Longrightarrow>
   ss_step sample_semaphore True (sample_world regs g) (sample_world (regs @ [(sid, g)]) (g + 1))"
proof -
  assume "sid \<notin> fst ` set regs"
  moreover from this have "AList.update sid x (map (\<lambda>(sid, g). (sid, sample_session g)) regs) =
      map (\<lambda>(sid, g). (sid, sample_session g)) regs @ [(sid, x)]" for x
    by (induction regs) auto
  moreover from calculation(1) have "map_of (map (\<lambda>(sid, g). (sid, sample_session g)) regs) sid = None"
    by (force simp: map_of_eq_None_iff)
  ultimately have "register_session 0 sid PrioNormal sample_limits (sw_sched (sample_world regs g)) =
      Ok (sw_sched (sample_world (regs @ [(sid, g)]) (g + 1)))"
    by (simp add: register_session_def sample_world_def sample_session_def)
  from ss_step.register [OF this] show ?thesis by (simp add: sample_world_def)
qed

lemma sample_unregister: "ss_step sample_semaphore False (sample_world [(sid, g)] h) (sample_world [] h)"
proof -
  let ?w = "sample_world [(sid, g)] h"
  have "unregister_session sid (sw_sched ?w) = Ok (sw_sched (sample_world [] h))"
    by (simp add: unregister_session_def sample_world_def)
  from ss_step.unregister [OF this] show ?thesis by (simp add: sample_world_def)
qed

lemma sample_new: "sample_world [] 0 = sw_new sample_semaphore 1 30"
  by (simp add: sample_world_def sw_new_def sch_new_def)

lemma sample_runs:
  "ss_run sample_semaphore 1 (sw_new sample_semaphore 1 30) (sample_world [(''a'', 0)] 1)"
  "ss_run sample_semaphore 0 (sample_world [(''a'', 0)] 1) (sample_world [] 1)"
  "ss_run sample_semaphore 1 (sample_world [] 1) (sample_world [(''a'', 1)] 2)"
  "ss_run sample_semaphore 1 (sample_world [(''a'', 0)] 1) (sample_world [(''a'', 0), (''b'', 1)] 2)"
  using ss_run.step [OF ss_run.refl sample_register [of "''a''" "[]" 0]]
    ss_run.step [OF ss_run.refl sample_unregister [of "''a''" 0 1]]
    ss_run.step [OF ss_run.refl sample_register [of "''a''" "[]" 1]]
    ss_run.step [OF ss_run.refl sample_register [of "''b''" "[(''a'', 0)]" 1]]
  by (simp_all add: sample_new)






text \<open>
  Stale registrations: a call (or a permit) that belongs to a registration which has
  since been removed, by unregistering or by idle pruning, cannot act on a later registration
  of the same session identifier: the call is answered SessionNotFound and leaves the table
  alone, and dropping the permit leaves the table alone.  This
  holds as long as fewer than 2^64 + 1 registrations were made, when the counter would wrap.
\<close>

theorem stale_registration_refused:
  assumes "ss_run ops n (sw_new ops max_streams timeout) w0" and "registered w0 sid = Some g"
    and "ss_run ops k w0 w1" and "registered w1 sid = None"
    and "ss_run ops j w1 w2" and "n + k + j \<le> 2 ^ 64"
  shows "acquire_finish sid g (sw_sched w2) = (sw_sched w2, Err SessionNotFound) \<and>
    permit_drop_mark \<lparr>pm_session_id = sid, pm_generation = g\<rparr> (sw_sched w2) = sw_sched w2"
proof -
  have run1: "ss_run ops (n + k) (sw_new ops max_streams timeout) w1"
    by (rule ss_run_trans [OF assms(3,1)])
  have "unat g < n" using ss_run_generations [OF assms(1)] assms(2,6) by force
  then have "registered w2 sid \<noteq> Some g"
    using assms(4,6) by (intro ss_run_dead [OF assms(5) run1]) simp_all
  then show ?thesis unfolding registered_def by (rule acquire_finish_stale)
qed

text \<open>
  An uninterrupted acquisition: an unknown session is refused without any change; a known
  one waits exactly when the semaphore lets it wait, and otherwise gets a permit for its
  registration and becomes active and Streaming; dropping the permit makes the session inactive.
\<close>

theorem acquire_streaming_permit_spec:
  "(map_of (sch_sessions s) sid = None \<longrightarrow>
      acquire_streaming_permit ops now sid s = Some (s, Err SessionNotFound)) \<and>
   (map_of (sch_sessions s) sid = Some x \<longrightarrow>
      (acquire_streaming_permit ops now sid s = None \<longleftrightarrow> sem_acquire ops (sem_enqueue ops (sch_semaphore s)) = None) \<and>
      (sem_acquire ops (sem_enqueue ops (sch_semaphore s)) = Some (Ok q) \<longrightarrow>
        (\<exists>s' p. acquire_streaming_permit ops now sid s = Some (s', Ok p) \<and> sch_semaphore s' = q \<and>
           map_of (sch_sessions s') = (map_of (sch_sessions s))(sid \<mapsto>
             x\<lparr>ss_last_activity := now, ss_is_active := True, ss_state := LcStreaming\<rparr>) \<and>
           map_of (sch_sessions (semaphore_release ops (permit_drop_mark p s'))) =
             (map_of (sch_sessions s))(sid \<mapsto>
               x\<lparr>ss_last_activity := now, ss_is_active := False, ss_state := LcStreaming\<rparr>))))"
  by (auto simp: acquire_streaming_permit_def acquire_begin_def touch_def Let_def
      acquire_finish_def permit_drop_mark_def semaphore_release_def update_conv' split: option.splits sum.splits)

text \<open>
  Idle pruning removes exactly the sessions it returns: those that are not active and
  whose last activity lies more than the timeout in the past.  An active session is never
  pruned and every other session keeps its entry.
\<close>

theorem prune_idle_exact:
  assumes "ss_run ops n (sw_new ops max_streams timeout) w"
    and "prune_idle_sessions now (sw_sched w) = (s', removed)"
  shows "(sid \<in> set removed \<longleftrightarrow>
      (\<exists>x. map_of (sch_sessions (sw_sched w)) sid = Some x \<and> \<not> ss_is_active x \<and>
         now - ss_last_activity x > sch_idle_timeout (sw_sched w))) \<and>
    map_of (sch_sessions s') sid =
      (if sid \<in> set removed then None else map_of (sch_sessions (sw_sched w)) sid) \<and>
    sch_semaphore s' = sch_semaphore (sw_sched w)"
proof -
  let ?m = "sch_sessions (sw_sched w)"
  have wf: "hm_wf ?m" using ss_run_new_wf [OF assms(1)] .
  have rm: "removed = map fst (filter (\<lambda>(_, x). is_idle now (sch_idle_timeout (sw_sched w)) x) ?m)"
    and s': "s' = (sw_sched w)\<lparr>sch_sessions := fold AList.delete removed ?m\<rparr>"
    using assms(2) by (auto simp: prune_idle_sessions_def Let_def)
  have "sid \<in> set removed \<longleftrightarrow>
      (\<exists>x. (sid, x) \<in> set ?m \<and> is_idle now (sch_idle_timeout (sw_sched w)) x)"
    unfolding rm by force
  moreover have "map_of (fold AList.delete removed ?m) sid =
      (if sid \<in> set removed then None else map_of ?m sid)"
    using hm.fold_del [OF wf, of removed] by simp
  ultimately show ?thesis
    using hm.get_entries [OF wf] by (simp add: s' is_idle_def)
qed

theorem prune_idle_exact_witness:
  "snd (prune_idle_sessions 31 (sw_sched (sample_world [(''a'', 0)] 1))) = [''a'']"
proof -
  have p: "prune_idle_sessions 31 (sw_sched (sample_world [(''a'', 0)] 1)) =
      (sw_sched (sample_world [] 1), [''a''])"
    by (simp add: prune_idle_sessions_def sample_world_def sample_session_def sch_new_def
        scheduled_session_new_def is_idle_def)
  from prune_idle_exact [OF sample_runs(1) p, of "''a''"] p show ?thesis by simp
qed

text \<open>
  The active count is not a count of permits: the state Streaming can be set without a
  permit, so a scheduler with one slot can report two active sessions although no permit was
  ever handed out and its slot is free.
\<close>

theorem active_sessions_without_permit:
  "\<exists>n w. ss_run sample_semaphore n (sw_new sample_semaphore 1 30) w \<and> st_active_sessions (sch_stats sample_semaphore (sw_sched w)) = 2 \<and>
     sw_permits w = {#} \<and> available_slots sample_semaphore (sw_sched w) = 1"
proof -
  let ?w = "sample_world [(''a'', 0), (''b'', 1)] 2"
  let ?on = "\<lambda>g. (sample_session g)\<lparr>ss_state := LcStreaming, ss_is_active := True\<rparr>"
  let ?s = "(sw_sched ?w)\<lparr>sch_sessions := [(''a'', ?on 0), (''b'', sample_session 1)]\<rparr>"
  let ?t = "(sw_sched ?w)\<lparr>sch_sessions := [(''a'', ?on 0), (''b'', ?on 1)]\<rparr>"
  have reg: "registered ?w ''a'' = Some 0" "registered (?w\<lparr>sw_sched := ?s, sw_overridden := x\<rparr>) ''b'' = Some 1" for x
    by (simp_all add: registered_def sample_world_def sample_session_def scheduled_session_new_def)
  have "update_session_state 0 ''a'' LcStreaming (sw_sched ?w) = Ok ?s"
    "update_session_state 0 ''b'' LcStreaming ?s = Ok ?t"
    by (simp_all add: update_session_state_def with_session_def touch_def sample_world_def sample_session_def
        scheduled_session_new_def)
  then have "ss_step sample_semaphore False ?w (?w\<lparr>sw_sched := ?s, sw_overridden := {(''a'', 0)}\<rparr>)"
    "ss_step sample_semaphore False (?w\<lparr>sw_sched := ?s, sw_overridden := {(''a'', 0)}\<rparr>)
       (?w\<lparr>sw_sched := ?t, sw_overridden := {(''b'', 1), (''a'', 0)}\<rparr>)"
    using ss_step.update [of 0 "''a''" LcStreaming ?w ?s 0 sample_semaphore]
      ss_step.update [of 0 "''b''" LcStreaming "?w\<lparr>sw_sched := ?s, sw_overridden := {(''a'', 0)}\<rparr>" ?t 1 sample_semaphore] reg
    by (simp_all add: sample_world_def sw_new_def)
  from ss_run.step [OF ss_run.step [OF ss_run_trans [OF sample_runs(4) sample_runs(1)] this(1)] this(2)]
  have "\<exists>n. ss_run sample_semaphore n (sw_new sample_semaphore 1 30)
      (?w\<lparr>sw_sched := ?t, sw_overridden := {(''b'', 1), (''a'', 0)}\<rparr>)" by blast
  moreover have "streaming_count ?t = 2" "available_slots sample_semaphore ?t = 1"
    by (simp_all add: streaming_count_def available_slots_def sample_world_def sch_new_def sample_semaphore_def)
  ultimately show ?thesis
    by (intro exI [of _ "?w\<lparr>sw_sched := ?t, sw_overridden := {(''b'', 1), (''a'', 0)}\<rparr>"] ex_comm [THEN iffD1])
      (simp add: sch_stats_def sample_world_def sw_new_def)
qed

end
