(* ===== verification/Control_Envelope.thy ===== *)
theory Control_Envelope
  imports Session_Grant
begin

text \<open>
  Authenticated, grant-bound control envelopes (\<open>mrd-session/src/control_envelope.rs\<close>,
  everything up to the replay window): shape validation, the bounded deserialisation
  visitors and the bounded JSON entry point.  \<open>serde_json\<close> is not part of the repository:
  \<open>to_vec\<close> and \<open>from_slice\<close> are parameters of the definitions that call it.
\<close>

section \<open>Data\<close>

definition CONTROL_ENVELOPE_VERSION :: u16 where "CONTROL_ENVELOPE_VERSION = 2"
definition CONTROL_ENVELOPE_MAX_EVENT_BYTES :: nat where
  "CONTROL_ENVELOPE_MAX_EVENT_BYTES = 64"
definition CONTROL_ENVELOPE_MAX_WIRE_BYTES :: nat where
  "CONTROL_ENVELOPE_MAX_WIRE_BYTES = 4096"
definition CONTROL_ENVELOPE_MAX_LIFETIME_MS :: u64 where
  "CONTROL_ENVELOPE_MAX_LIFETIME_MS = 2000"
definition CONTROL_ENVELOPE_MAX_CLOCK_SKEW_MS :: u64 where
  "CONTROL_ENVELOPE_MAX_CLOCK_SKEW_MS = 2000"
definition CONTROL_ENVELOPE_MAX_ID_BYTES :: nat where "CONTROL_ENVELOPE_MAX_ID_BYTES = 256"
definition CONTROL_ENVELOPE_MAX_KEY_ID_BYTES :: nat where
  "CONTROL_ENVELOPE_MAX_KEY_ID_BYTES = 256"

lemmas control_envelope_limits =
  CONTROL_ENVELOPE_VERSION_def CONTROL_ENVELOPE_MAX_EVENT_BYTES_def
  CONTROL_ENVELOPE_MAX_WIRE_BYTES_def CONTROL_ENVELOPE_MAX_LIFETIME_MS_def
  CONTROL_ENVELOPE_MAX_CLOCK_SKEW_MS_def CONTROL_ENVELOPE_MAX_ID_BYTES_def
  CONTROL_ENVELOPE_MAX_KEY_ID_BYTES_def

datatype control_envelope_error =
    CeUnsupportedVersion | CeMissingBinding | CeInvalidPeerBinding | CeInvalidGrantId
  | CeInvalidScope | CeInvalidSequence | CeInvalidEventId | CeInvalidPolicyRevision
  | CeInvalidIssuedAt | CeInvalidLifetime | CeNotYetValid | CeExpired
  | CeInvalidEventBytes | CeEncoding | CeWireTooLarge

record control_envelope =
  ce_protocol_version :: u16
  ce_session_id :: session_id
  ce_grant_id :: bytes
  ce_source_device_id :: device_id
  ce_target_device_id :: device_id
  ce_source_key_id :: string
  ce_target_key_id :: string
  ce_scope :: permission_scope
  ce_sequence :: u64
  ce_event_id :: u64
  ce_issued_at_ms :: u64
  ce_expires_at_ms :: u64
  ce_policy_revision :: u64
  ce_authenticated_event_bytes :: bytes

record envelope_commitment =
  ec_schema_version :: u16
  ec_kind :: string
  ec_payload :: control_envelope

record signed_control_envelope =
  sce_payload :: control_envelope
  sce_public_key :: bytes
  sce_signature :: bytes

section \<open>Shape validation\<close>

definition bounded_required :: "string \<Rightarrow> nat \<Rightarrow> bool" where
  "bounded_required value max_bytes \<longleftrightarrow>
     trim value \<noteq> [] \<and> length value \<le> max_bytes \<and> CHR 0x00 \<notin> set value"

definition validate_shape ::
  "control_envelope \<Rightarrow> u64 \<Rightarrow> (unit, control_envelope_error) result" where
  "validate_shape e now_ms =
    (if ce_protocol_version e \<noteq> CONTROL_ENVELOPE_VERSION then Err CeUnsupportedVersion
     else if \<not> bounded_required (ce_session_id e) CONTROL_ENVELOPE_MAX_ID_BYTES
       \<or> \<not> bounded_required (ce_source_device_id e) CONTROL_ENVELOPE_MAX_ID_BYTES
       \<or> \<not> bounded_required (ce_target_device_id e) CONTROL_ENVELOPE_MAX_ID_BYTES
       \<or> \<not> bounded_required (ce_source_key_id e) CONTROL_ENVELOPE_MAX_KEY_ID_BYTES
       \<or> \<not> bounded_required (ce_target_key_id e) CONTROL_ENVELOPE_MAX_KEY_ID_BYTES
     then Err CeMissingBinding
     else if ce_source_device_id e = ce_target_device_id e
       \<or> ce_source_key_id e = ce_target_key_id e
     then Err CeInvalidPeerBinding
     else if list_all (\<lambda>b. b = 0) (ce_grant_id e) then Err CeInvalidGrantId
     else if \<not> (ce_scope e = InputPointer \<or> ce_scope e = InputKeyboard)
     then Err CeInvalidScope
     else if ce_sequence e = 0 \<or> ce_sequence e = - 1 then Err CeInvalidSequence
     else if ce_event_id e = 0 then Err CeInvalidEventId
     else if ce_policy_revision e = 0 then Err CeInvalidPolicyRevision
     else if ce_issued_at_ms e = 0 then Err CeInvalidIssuedAt
     else if ce_expires_at_ms e \<le> ce_issued_at_ms e
       \<or> saturating_sub (ce_expires_at_ms e) (ce_issued_at_ms e)
           > CONTROL_ENVELOPE_MAX_LIFETIME_MS
     then Err CeInvalidLifetime
     else if ce_issued_at_ms e > saturating_add now_ms CONTROL_ENVELOPE_MAX_CLOCK_SKEW_MS
     then Err CeNotYetValid
     else if ce_expires_at_ms e < now_ms then Err CeExpired
     else if ce_authenticated_event_bytes e = []
       \<or> length (ce_authenticated_event_bytes e) > CONTROL_ENVELOPE_MAX_EVENT_BYTES
     then Err CeInvalidEventBytes
     else Ok ())"

definition signing_bytes ::
  "(envelope_commitment \<Rightarrow> bytes option) \<Rightarrow> control_envelope
   \<Rightarrow> (bytes, control_envelope_error) result" where
  "signing_bytes to_vec e =
     ok_or CeEncoding (to_vec
       \<lparr>ec_schema_version = CONTROL_ENVELOPE_VERSION, ec_kind = ''control_envelope'',
        ec_payload = e\<rparr>)"

definition signed_validate_shape ::
  "signed_control_envelope \<Rightarrow> u64 \<Rightarrow> (unit, control_envelope_error) result" where
  "signed_validate_shape s now_ms = validate_shape (sce_payload s) now_ms"

definition decode_bounded_json ::
  "(bytes \<Rightarrow> signed_control_envelope option) \<Rightarrow> bytes \<Rightarrow> u64
   \<Rightarrow> (signed_control_envelope, control_envelope_error) result" where
  "decode_bounded_json from_slice bytes now_ms =
     (if bytes = [] \<or> length bytes > CONTROL_ENVELOPE_MAX_WIRE_BYTES then Err CeWireTooLarge
      else and_then (ok_or CeEncoding (from_slice bytes))
        (\<lambda>envelope. and_then (signed_validate_shape envelope now_ms) (\<lambda>_. Ok envelope)))"

section \<open>Deserialisation visitors\<close>

text \<open>
  The visitors the field attributes install.  A sequence access is the list of what
  \<open>next_element\<close> returns: elements or element errors.
\<close>

datatype de_error = ElementError string | InvalidLength nat | InvalidValue string | Custom string

fun signature_elements :: "nat \<Rightarrow> (u8, de_error) result list \<Rightarrow> (bytes \<times> (u8, de_error) result list, de_error) result" where
  "signature_elements 0 elems = Ok ([], elems)"
| "signature_elements (Suc n) [] = Err (InvalidLength (64 - Suc n))"
| "signature_elements (Suc n) (Err e # elems) = Err e"
| "signature_elements (Suc n) (Ok b # elems) =
     and_then (signature_elements n elems) (\<lambda>(bs, rest). Ok (b # bs, rest))"

definition signature_visit_seq :: "(u8, de_error) result list \<Rightarrow> (bytes, de_error) result" where
  "signature_visit_seq elems =
     and_then (signature_elements 64 elems) (\<lambda>(signature, rest).
       case rest of
         [] \<Rightarrow> Ok signature
       | Err e # _ \<Rightarrow> Err e
       | Ok _ # _ \<Rightarrow> Err (InvalidLength 65))"

fun event_bytes_loop :: "bytes \<Rightarrow> (u8, de_error) result list \<Rightarrow> (bytes, de_error) result" where
  "event_bytes_loop bs [] =
     (if bs = [] then Err (Custom ''authenticated event bytes cannot be empty'') else Ok bs)"
| "event_bytes_loop bs (Err e # elems) = Err e"
| "event_bytes_loop bs (Ok b # elems) =
     (if length bs = CONTROL_ENVELOPE_MAX_EVENT_BYTES
      then Err (Custom ''authenticated event bytes exceed protocol bound'')
      else event_bytes_loop (bs @ [b]) elems)"

definition event_bytes_visit_seq :: "(u8, de_error) result list \<Rightarrow> (bytes, de_error) result" where
  "event_bytes_visit_seq elems = event_bytes_loop [] elems"

definition event_bytes_visit_bytes :: "bytes \<Rightarrow> (bytes, de_error) result" where
  "event_bytes_visit_bytes value =
     (if value = [] \<or> length value > CONTROL_ENVELOPE_MAX_EVENT_BYTES
      then Err (Custom ''authenticated event bytes violate protocol bound'')
      else Ok value)"

definition bounded_visit_str :: "nat \<Rightarrow> string \<Rightarrow> (string, de_error) result" where
  "bounded_visit_str max_bytes value =
     (if bounded_required value max_bytes then Ok value else Err (InvalidValue value))"

definition bounded_visit_string :: "nat \<Rightarrow> string \<Rightarrow> (string, de_error) result" where
  "bounded_visit_string max_bytes value =
     (if bounded_required value max_bytes then Ok value
      else Err (Custom ''string exceeds authenticated control bound''))"

section \<open>Lemmas\<close>

lemma validate_shape_Ok:
  "validate_shape e now = Ok () \<longleftrightarrow>
     ce_protocol_version e = CONTROL_ENVELOPE_VERSION \<and>
     bounded_required (ce_session_id e) CONTROL_ENVELOPE_MAX_ID_BYTES \<and>
     bounded_required (ce_source_device_id e) CONTROL_ENVELOPE_MAX_ID_BYTES \<and>
     bounded_required (ce_target_device_id e) CONTROL_ENVELOPE_MAX_ID_BYTES \<and>
     bounded_required (ce_source_key_id e) CONTROL_ENVELOPE_MAX_KEY_ID_BYTES \<and>
     bounded_required (ce_target_key_id e) CONTROL_ENVELOPE_MAX_KEY_ID_BYTES \<and>
     ce_source_device_id e \<noteq> ce_target_device_id e \<and>
     ce_source_key_id e \<noteq> ce_target_key_id e \<and>
     \<not> list_all (\<lambda>b. b = 0) (ce_grant_id e) \<and>
     (ce_scope e = InputPointer \<or> ce_scope e = InputKeyboard) \<and>
     ce_sequence e \<noteq> 0 \<and> ce_sequence e \<noteq> - 1 \<and> ce_event_id e \<noteq> 0 \<and>
     ce_policy_revision e \<noteq> 0 \<and> ce_issued_at_ms e \<noteq> 0 \<and>
     ce_issued_at_ms e < ce_expires_at_ms e \<and>
     saturating_sub (ce_expires_at_ms e) (ce_issued_at_ms e) \<le> CONTROL_ENVELOPE_MAX_LIFETIME_MS \<and>
     ce_issued_at_ms e \<le> saturating_add now CONTROL_ENVELOPE_MAX_CLOCK_SKEW_MS \<and>
     now \<le> ce_expires_at_ms e \<and>
     ce_authenticated_event_bytes e \<noteq> [] \<and>
     length (ce_authenticated_event_bytes e) \<le> CONTROL_ENVELOPE_MAX_EVENT_BYTES"
  unfolding validate_shape_def guard_Ok de_Morgan_disj not_not not_less not_le
  by (simp only: conj_assoc simp_thms de_Morgan_conj not_not)

lemma validate_shape_times:
  assumes "validate_shape e now = Ok ()"
  shows "unat (ce_expires_at_ms e) \<le> unat (ce_issued_at_ms e) + 2000"
    and "unat (ce_issued_at_ms e) \<le> unat now + 2000"
    and "unat now \<le> unat (ce_expires_at_ms e)"
  using assms unfolding validate_shape_Ok control_envelope_limits
  by (auto simp: word_le_nat_alt word_nat_simps)

lemma event_bytes_loop_elements:
  "event_bytes_loop bs elems = Ok out \<Longrightarrow> \<exists>xs. elems = map Ok xs"
proof (induction bs elems rule: event_bytes_loop.induct)
  case (3 bs b elems)
  then obtain xs where "elems = map Ok xs" by (auto split: if_splits)
  then show ?case by (intro exI [of _ "b # xs"]) simp
qed auto

lemma event_bytes_loop_map:
  "length bs \<le> 64 \<Longrightarrow> event_bytes_loop bs (map Ok xs) = Ok out \<longleftrightarrow>
     out = bs @ xs \<and> out \<noteq> [] \<and> length out \<le> 64"
proof (induction xs arbitrary: bs)
  case (Cons x xs)
  show ?case
  proof (cases "length bs = 64")
    case True
    then show ?thesis by (auto simp: control_envelope_limits)
  next
    case False
    with Cons.prems Cons.IH [of "bs @ [x]"] show ?thesis
      by (simp add: control_envelope_limits)
  qed
qed auto

lemma event_bytes_visit_seq_Ok:
  "event_bytes_visit_seq elems = Ok out \<longleftrightarrow>
     elems = map Ok out \<and> out \<noteq> [] \<and> length out \<le> 64"
proof
  assume ok: "event_bytes_visit_seq elems = Ok out"
  then obtain xs where xs: "elems = map Ok xs"
    using event_bytes_loop_elements [of "[]" elems out] by (auto simp: event_bytes_visit_seq_def)
  with ok show "elems = map Ok out \<and> out \<noteq> [] \<and> length out \<le> 64"
    using event_bytes_loop_map [of "[]" xs out] by (auto simp: event_bytes_visit_seq_def)
next
  assume "elems = map Ok out \<and> out \<noteq> [] \<and> length out \<le> 64"
  then show "event_bytes_visit_seq elems = Ok out"
    using event_bytes_loop_map [of "[]" out out] by (simp add: event_bytes_visit_seq_def)
qed

lemma signature_elements_Ok:
  "signature_elements n elems = Ok (bs, rest) \<longleftrightarrow> elems = map Ok bs @ rest \<and> length bs = n"
proof (induction n elems arbitrary: bs rule: signature_elements.induct)
  case (3 n e elems)
  then show ?case by (cases bs) auto
next
  case (4 n b elems)
  then show ?case by (cases bs) auto
qed auto

lemma signature_visit_seq_Ok:
  "signature_visit_seq elems = Ok sig \<longleftrightarrow> elems = map Ok sig \<and> length sig = 64"
proof -
  have tail: "(case rest of [] \<Rightarrow> Ok bs | Err e # _ \<Rightarrow> Err e | Ok _ # _ \<Rightarrow> Err (InvalidLength 65)) = Ok sig
      \<longleftrightarrow> rest = [] \<and> bs = sig" for rest :: "(u8, de_error) result list" and bs
    by (cases rest; cases "hd rest") auto
  show ?thesis
    by (auto simp: signature_visit_seq_def signature_elements_Ok tail split_paired_Ex)
qed

section \<open>Properties\<close>

text \<open>
  Freshness bound: an envelope carries at most two seconds of lifetime, and the times at
  which the same envelope is accepted all lie within four seconds of one another, also at
  the ends of the 64-bit clock where the arithmetic saturates.
\<close>

theorem envelope_acceptance_window:
  assumes "validate_shape e now = Ok ()" and "validate_shape e later = Ok ()"
  shows "unat (ce_expires_at_ms e) - unat (ce_issued_at_ms e) \<le> 2000 \<and>
    unat later \<le> unat now + 4000"
  using validate_shape_times [OF assms(1)] validate_shape_times [OF assms(2)] by linarith

definition sample_envelope :: control_envelope where
  "sample_envelope =
     \<lparr>ce_protocol_version = 2, ce_session_id = ''session'', ce_grant_id = [49, 0],
      ce_source_device_id = ''controller'', ce_target_device_id = ''target'',
      ce_source_key_id = ''key-a'', ce_target_key_id = ''key-b'', ce_scope = InputPointer,
      ce_sequence = 41, ce_event_id = 91, ce_issued_at_ms = 9000, ce_expires_at_ms = 11000,
      ce_policy_revision = 7, ce_authenticated_event_bytes = [2, 1, 0, 8]\<rparr>"

lemma sample_envelope_valid:
  "validate_shape sample_envelope 10000 = Ok ()" "validate_shape sample_envelope 7000 = Ok ()"
  by (simp_all add: validate_shape_def sample_envelope_def bounded_required_def
      control_envelope_limits saturating_add_def saturating_sub_def trim_def wire_simps)

theorem envelope_acceptance_window_witness:
  "validate_shape sample_envelope 7000 = Ok () \<and> validate_shape sample_envelope 10000 = Ok () \<and>
   unat (ce_expires_at_ms sample_envelope) - unat (ce_issued_at_ms sample_envelope) \<le> 2000 \<and>
   unat (10000 :: u64) \<le> unat (7000 :: u64) + 4000"
  using envelope_acceptance_window [OF sample_envelope_valid(2) sample_envelope_valid(1)]
    sample_envelope_valid by blast

text \<open>
  What a decoded envelope guarantees: it came from 1 to 4096 bytes of wire data and the
  JSON decoder's value, names two different devices with two different keys, asks for an
  input scope only, has a non-zero grant, a usable sequence number and event identifier and
  1 to 64 event bytes, and is neither expired nor issued more than two seconds ahead.
\<close>

theorem decode_bounded_json_sound:
  assumes "decode_bounded_json from_slice bytes now = Ok s"
  shows "from_slice bytes = Some s \<and> bytes \<noteq> [] \<and> length bytes \<le> 4096 \<and>
    (let e = sce_payload s in
       ce_protocol_version e = 2 \<and>
       ce_source_device_id e \<noteq> ce_target_device_id e \<and>
       ce_source_key_id e \<noteq> ce_target_key_id e \<and>
       (\<exists>b\<in>set (ce_grant_id e). b \<noteq> 0) \<and>
       ce_scope e \<in> {InputPointer, InputKeyboard} \<and>
       0 < ce_sequence e \<and> ce_sequence e < - 1 \<and> ce_event_id e \<noteq> 0 \<and>
       ce_authenticated_event_bytes e \<noteq> [] \<and> length (ce_authenticated_event_bytes e) \<le> 64 \<and>
       unat (ce_issued_at_ms e) \<le> unat now + 2000 \<and> now \<le> ce_expires_at_ms e)"
proof -
  from assms have len: "bytes \<noteq> []" "length bytes \<le> 4096" and js: "from_slice bytes = Some s"
    and ok: "validate_shape (sce_payload s) now = Ok ()"
    by (auto simp: decode_bounded_json_def signed_validate_shape_def control_envelope_limits
        split: if_splits)
  note t = validate_shape_times [OF ok]
  from ok have "ce_sequence (sce_payload s) \<noteq> 0" "ce_sequence (sce_payload s) \<noteq> - 1"
    by (simp_all add: validate_shape_Ok)
  then have "0 < ce_sequence (sce_payload s)" "ce_sequence (sce_payload s) < - 1"
    by (simp_all add: word_gt_0 word_order.not_eq_extremum)
  with len js ok t show ?thesis
    by (auto simp: Let_def validate_shape_Ok control_envelope_limits list_all_iff)
qed

theorem decode_bounded_json_sound_witness:
  "let s = \<lparr>sce_payload = sample_envelope, sce_public_key = [], sce_signature = []\<rparr>
   in ce_scope (sce_payload s) \<in> {InputPointer, InputKeyboard}"
proof -
  let ?s = "\<lparr>sce_payload = sample_envelope, sce_public_key = [], sce_signature = []\<rparr>"
  have "decode_bounded_json (\<lambda>_. Some ?s) [123] 10000 = Ok ?s"
    by (simp add: decode_bounded_json_def signed_validate_shape_def sample_envelope_valid
        control_envelope_limits)
  from decode_bounded_json_sound [OF this] show ?thesis by (simp add: Let_def)
qed

text \<open>
  The streaming visitors accept exactly the well-sized sequences: the event-bytes
  visitor returns its elements when there are 1 to 64 of them and agrees with the slice
  visitor, and the signature visitor returns its elements when there are exactly 64; any
  other sequence, and any element error, is refused.
\<close>

theorem bounded_visitors_exact:
  "(event_bytes_visit_seq elems = Ok out \<longleftrightarrow>
      elems = map Ok out \<and> out \<noteq> [] \<and> length out \<le> 64) \<and>
   (is_ok (event_bytes_visit_seq (map Ok bs)) \<longleftrightarrow> is_ok (event_bytes_visit_bytes bs)) \<and>
   (signature_visit_seq elems = Ok sig \<longleftrightarrow> elems = map Ok sig \<and> length sig = 64)"
proof -
  have "is_ok (event_bytes_visit_seq (map Ok bs)) \<longleftrightarrow> bs \<noteq> [] \<and> length bs \<le> 64"
    unfolding is_ok_iff event_bytes_visit_seq_Ok by (auto simp: inj_map_eq_map inj_def)
  then show ?thesis
    by (simp add: event_bytes_visit_seq_Ok signature_visit_seq_Ok event_bytes_visit_bytes_def
        control_envelope_limits not_less)
qed

end
