(* ===== verification/Control_Sequence.thy ===== *)
theory Control_Sequence
  imports Mrd_Prelude
begin

text \<open>
  The replay window of authenticated control envelopes
  (\<open>ControlSequenceWindow\<close> in \<open>mrd-session/src/control_envelope.rs\<close>): a bounded map from
  sequence number to what was observed under it, and the reverse map from event identifier to
  sequence number.  The window provides the contract \<open>at_most_once\<close>.
\<close>

section \<open>State and operations\<close>

datatype control_sequence_decision = FirstSeen | ExactRetry

datatype control_sequence_error = CsInvalid | CsDuplicate | CsOutOfWindow

record control_sequence_observation =
  cso_event_id :: u64
  cso_commitment :: bytes

record control_sequence_window =
  csw_width :: nat
  csw_highest :: "u64 option"
  csw_by_sequence :: "(u64, control_sequence_observation) btree_map"
  csw_sequence_by_event :: "(u64, u64) hash_map"

definition CONTROL_SEQUENCE_WINDOW_MAX_WIDTH :: nat where
  "CONTROL_SEQUENCE_WINDOW_MAX_WIDTH = 4096"

definition csw_new :: "nat \<Rightarrow> control_sequence_window" where
  "csw_new width =
     \<lparr>csw_width = min (max width 1) CONTROL_SEQUENCE_WINDOW_MAX_WIDTH, csw_highest = None,
      csw_by_sequence = [], csw_sequence_by_event = []\<rparr>"

definition replay_floor :: "u64 \<Rightarrow> nat \<Rightarrow> u64" where
  "replay_floor highest width = saturating_sub highest (saturating_sub (of_nat width) 1)"

definition csw_prune :: "control_sequence_window \<Rightarrow> control_sequence_window" where
  "csw_prune w =
     (case csw_highest w of
        None \<Rightarrow> w
      | Some highest \<Rightarrow>
          let floor = replay_floor highest (csw_width w);
              stale = map (\<lambda>(sequence, obs). (sequence, cso_event_id obs))
                        (bt_range_below floor (csw_by_sequence w))
          in fold (\<lambda>(sequence, event_id) v.
               v\<lparr>csw_by_sequence := bt_remove sequence (csw_by_sequence v),
                 csw_sequence_by_event := AList.delete event_id (csw_sequence_by_event v)\<rparr>)
               stale w)"

definition csw_observe ::
  "u64 \<Rightarrow> u64 \<Rightarrow> bytes \<Rightarrow> control_sequence_window
   \<Rightarrow> control_sequence_window \<times> (control_sequence_decision, control_sequence_error) result" where
  "csw_observe sequence event_id commitment w =
     (if sequence = 0 \<or> event_id = 0 then (w, Err CsInvalid)
      else case map_of (csw_by_sequence w) sequence of
        Some observed \<Rightarrow>
          if cso_event_id observed = event_id \<and> cso_commitment observed = commitment
          then (w, Ok ExactRetry) else (w, Err CsDuplicate)
      | None \<Rightarrow>
          if map_of (csw_sequence_by_event w) event_id \<noteq> None then (w, Err CsDuplicate)
          else if (case csw_highest w of None \<Rightarrow> False
                   | Some highest \<Rightarrow> sequence < replay_floor highest (csw_width w))
          then (w, Err CsOutOfWindow)
          else (csw_prune (w
            \<lparr>csw_highest := Some (case csw_highest w of None \<Rightarrow> sequence
                                  | Some highest \<Rightarrow> max highest sequence),
             csw_by_sequence := bt_insert sequence
               \<lparr>cso_event_id = event_id, cso_commitment = commitment\<rparr> (csw_by_sequence w),
             csw_sequence_by_event :=
               AList.update event_id sequence (csw_sequence_by_event w)\<rparr>), Ok FirstSeen))"

definition csw_len :: "control_sequence_window \<Rightarrow> nat" where
  "csw_len w = length (csw_by_sequence w)"

definition csw_capacity :: "control_sequence_window \<Rightarrow> nat" where
  "csw_capacity w = csw_width w"

definition csw_is_empty :: "control_sequence_window \<Rightarrow> bool" where
  "csw_is_empty w \<longleftrightarrow> csw_by_sequence w = []"

section \<open>Invariant\<close>

text \<open>The two maps are inverse to each other on the event identifiers.\<close>

definition csw_linked :: "control_sequence_window \<Rightarrow> bool" where
  "csw_linked w \<longleftrightarrow>
     bt_wf (csw_by_sequence w) \<and> hm_wf (csw_sequence_by_event w) \<and>
     (\<forall>q e. map_of (csw_sequence_by_event w) e = Some q \<longleftrightarrow>
        (\<exists>obs. map_of (csw_by_sequence w) q = Some obs \<and> cso_event_id obs = e))"

definition csw_floor :: "control_sequence_window \<Rightarrow> u64" where
  "csw_floor w =
     (case csw_highest w of None \<Rightarrow> 0 | Some highest \<Rightarrow> replay_floor highest (csw_width w))"

definition csw_inv :: "control_sequence_window \<Rightarrow> bool" where
  "csw_inv w \<longleftrightarrow>
     1 \<le> csw_width w \<and> csw_width w \<le> CONTROL_SEQUENCE_WINDOW_MAX_WIDTH \<and> csw_linked w \<and>
     (csw_highest w = None \<longrightarrow> csw_by_sequence w = []) \<and>
     (\<forall>h. csw_highest w = Some h \<longrightarrow>
        (\<forall>q obs. map_of (csw_by_sequence w) q = Some obs \<longrightarrow> csw_floor w \<le> q \<and> q \<le> h))"

definition csw_spent :: "control_sequence_window \<Rightarrow> u64 set" where
  "csw_spent w = dom (map_of (csw_by_sequence w)) \<union> {q. q < csw_floor w}"

lemma unat_replay_floor:
  "1 \<le> width \<Longrightarrow> width \<le> 4096 \<Longrightarrow> unat (replay_floor h width) = unat h - (width - 1)"
  by (simp add: replay_floor_def unat_saturating_sub unat_of_nat)

lemma replay_floor_mono: "h \<le> h' \<Longrightarrow> replay_floor h width \<le> replay_floor h' width"
  unfolding replay_floor_def by (rule saturating_sub_mono)

lemma replay_floor_le: "replay_floor h width \<le> h"
  unfolding replay_floor_def by (rule saturating_sub_le)

lemma csw_inv_new [simp]: "csw_inv (csw_new width)"
  by (simp add: csw_inv_def csw_new_def csw_linked_def CONTROL_SEQUENCE_WINDOW_MAX_WIDTH_def)

text \<open>Removing entries from both maps keeps them linked.\<close>

lemma csw_linked_remove:
  assumes "csw_linked w" and "map_of (csw_by_sequence w) q = Some obs"
  shows "csw_linked (w\<lparr>csw_by_sequence := bt_remove q (csw_by_sequence w),
    csw_sequence_by_event := AList.delete (cso_event_id obs) (csw_sequence_by_event w)\<rparr>)"
proof -
  from assms(1) have wf: "bt_wf (csw_by_sequence w)" "hm_wf (csw_sequence_by_event w)"
    and link: "\<And>q e. map_of (csw_sequence_by_event w) e = Some q \<longleftrightarrow>
        (\<exists>obs. map_of (csw_by_sequence w) q = Some obs \<and> cso_event_id obs = e)"
    by (auto simp: csw_linked_def)
  have uniq: "p = q" if "map_of (csw_by_sequence w) p = Some obs'"
    and "cso_event_id obs' = cso_event_id obs" for p obs'
  proof -
    have "map_of (csw_sequence_by_event w) (cso_event_id obs) = Some p" using link that by blast
    moreover have "map_of (csw_sequence_by_event w) (cso_event_id obs) = Some q"
      using link assms(2) by blast
    ultimately show ?thesis by simp
  qed
  show ?thesis
    using link assms(2) wf
    by (auto dest: uniq simp: csw_linked_def bt.wf_del hm.wf_del bt.get_del hm.get_del)
qed

definition csw_drop :: "u64 \<times> u64 \<Rightarrow> control_sequence_window \<Rightarrow> control_sequence_window" where
  "csw_drop = (\<lambda>(sequence, event_id) v.
     v\<lparr>csw_by_sequence := bt_remove sequence (csw_by_sequence v),
       csw_sequence_by_event := AList.delete event_id (csw_sequence_by_event v)\<rparr>)"

lemma csw_drop_fold:
  "csw_linked w \<Longrightarrow> distinct (map fst es) \<Longrightarrow>
   (\<And>q obs. (q, obs) \<in> set es \<Longrightarrow> map_of (csw_by_sequence w) q = Some obs) \<Longrightarrow>
   w' = fold csw_drop (map (\<lambda>(q, obs). (q, cso_event_id obs)) es) w \<Longrightarrow>
   csw_linked w' \<and> csw_width w' = csw_width w \<and> csw_highest w' = csw_highest w \<and>
   map_of (csw_by_sequence w') =
     (\<lambda>q. if q \<in> fst ` set es then None else map_of (csw_by_sequence w) q)"
proof (induction es arbitrary: w)
  case (Cons e es)
  obtain q obs where e: "e = (q, obs)" by (cases e)
  let ?v = "csw_drop (q, cso_event_id obs) w"
  have stored: "map_of (csw_by_sequence w) q = Some obs" using Cons.prems(3) e by auto
  have linked: "csw_linked ?v"
    using csw_linked_remove [OF Cons.prems(1) stored] by (simp add: csw_drop_def)
  have get: "map_of (csw_by_sequence ?v) = (map_of (csw_by_sequence w))(q := None)"
    using Cons.prems(1) by (simp add: csw_drop_def csw_linked_def bt.get_del)
  have "map_of (csw_by_sequence ?v) p = Some obs'" if "(p, obs') \<in> set es" for p obs'
    using Cons.prems(2) Cons.prems(3) [of p obs'] that e get by force
  from Cons.IH [OF linked _ this] Cons.prems(2,4) e
  have "csw_linked w' \<and> csw_width w' = csw_width ?v \<and> csw_highest w' = csw_highest ?v \<and>
     map_of (csw_by_sequence w') =
       (\<lambda>p. if p \<in> fst ` set es then None else map_of (csw_by_sequence ?v) p)"
    by simp
  with get e show ?case by (auto simp: csw_drop_def fun_eq_iff)
qed simp

text \<open>Pruning forgets exactly the sequence numbers below the floor.\<close>

lemma csw_prune:
  assumes "csw_linked w"
  shows "csw_linked (csw_prune w) \<and> csw_width (csw_prune w) = csw_width w \<and>
    csw_highest (csw_prune w) = csw_highest w \<and>
    map_of (csw_by_sequence (csw_prune w)) =
      (\<lambda>q. if q < csw_floor w then None else map_of (csw_by_sequence w) q)"
proof (cases "csw_highest w")
  case None
  with assms show ?thesis by (simp add: csw_prune_def csw_floor_def)
next
  case (Some h)
  let ?es = "bt_range_below (csw_floor w) (csw_by_sequence w)"
  have wf: "bt_wf (csw_by_sequence w)" using assms by (simp add: csw_linked_def)
  have "distinct (map fst ?es)"
    using bt_wf_distinct [OF wf] unfolding bt_range_below_def
    by (metis map_append distinct_append takeWhile_dropWhile_id)
  moreover have "map_of (csw_by_sequence w) q = Some obs" if "(q, obs) \<in> set ?es" for q obs
    using wf that by (auto simp: set_bt_range_below bt.get_entries)
  moreover have "csw_prune w = fold csw_drop (map (\<lambda>(q, obs). (q, cso_event_id obs)) ?es) w"
    using Some by (simp add: csw_prune_def csw_floor_def csw_drop_def Let_def)
  ultimately have d: "csw_linked (csw_prune w) \<and> csw_width (csw_prune w) = csw_width w \<and>
      csw_highest (csw_prune w) = csw_highest w \<and>
      map_of (csw_by_sequence (csw_prune w)) =
        (\<lambda>q. if q \<in> fst ` set ?es then None else map_of (csw_by_sequence w) q)"
    using csw_drop_fold [OF assms] by blast
  have "q \<in> fst ` set ?es \<longleftrightarrow> q < csw_floor w \<and> map_of (csw_by_sequence w) q \<noteq> None" for q
    using wf by (force simp: set_bt_range_below map_of_eq_None_iff dest: map_of_SomeD)
  with d show ?thesis by (auto simp: fun_eq_iff)
qed

section \<open>What observe does\<close>

text \<open>The window after an accepted observation, in terms of the two maps.\<close>

lemma csw_observe_first_seen:
  assumes inv: "csw_inv w" and first: "csw_observe q e c w = (w', Ok FirstSeen)"
  shows "csw_inv w'" "csw_width w' = csw_width w" "csw_floor w \<le> csw_floor w'"
    "csw_floor w \<le> q" "csw_floor w' \<le> q" "map_of (csw_by_sequence w) q = None"
    "map_of (csw_by_sequence w') =
       (\<lambda>p. if p < csw_floor w' then None
            else ((map_of (csw_by_sequence w))(q \<mapsto> \<lparr>cso_event_id = e, cso_commitment = c\<rparr>)) p)"
proof -
  let ?h = "case csw_highest w of None \<Rightarrow> q | Some h \<Rightarrow> max h q"
  let ?obs = "\<lparr>cso_event_id = e, cso_commitment = c\<rparr>"
  define v where "v = w\<lparr>csw_highest := Some ?h, csw_by_sequence := bt_insert q ?obs (csw_by_sequence w),
    csw_sequence_by_event := AList.update e q (csw_sequence_by_event w)\<rparr>"
  from first have w': "w' = csw_prune v" and new: "map_of (csw_by_sequence w) q = None"
    and ev: "map_of (csw_sequence_by_event w) e = None" and above: "csw_floor w \<le> q"
    by (auto simp: csw_observe_def v_def csw_floor_def not_less split: if_splits option.splits)
  from inv have linked: "csw_linked w" by (simp add: csw_inv_def)
  then have "cso_event_id obs \<noteq> e" if "map_of (csw_by_sequence w) p = Some obs" for p obs
    using that ev unfolding csw_linked_def by (metis option.distinct(1))
  then have "csw_linked v" using linked new ev
    by (auto simp: csw_linked_def v_def bt.wf_ins hm.wf_ins bt.get_ins hm.get_ins)
  note p = csw_prune [OF this]
  have get_v: "map_of (csw_by_sequence v) = (map_of (csw_by_sequence w))(q \<mapsto> ?obs)"
    using linked by (simp add: v_def csw_linked_def bt.get_ins)
  have floor: "csw_floor w' = csw_floor v" "csw_floor v = replay_floor ?h (csw_width w)"
    using p w' by (simp_all add: csw_floor_def v_def)
  show up: "csw_floor w \<le> csw_floor w'"
    by (cases "csw_highest w") (simp_all add: floor csw_floor_def [of w] replay_floor_mono)
  show "csw_floor w' \<le> q"
    using above replay_floor_le
    by (cases "csw_highest w") (simp_all add: floor csw_floor_def [of w] max_def)
  show get: "map_of (csw_by_sequence w') =
       (\<lambda>p. if p < csw_floor w' then None else ((map_of (csw_by_sequence w))(q \<mapsto> ?obs)) p)"
    using p by (simp add: w' floor [unfolded w'] get_v fun_eq_iff)
  have "p \<le> ?h" if "map_of (csw_by_sequence v) p = Some obs" for p obs
    using that inv get_v by (fastforce simp: csw_inv_def le_max_iff_disj split: if_splits option.splits)
  then show "csw_inv w'"
    using p inv get w' get_v floor unfolding csw_inv_def
    by (auto simp: v_def not_less split: if_splits)
  show "csw_width w' = csw_width w" using p w' by (simp add: v_def)
  show "csw_floor w \<le> q" "map_of (csw_by_sequence w) q = None" by fact+
qed

lemma csw_observe_unchanged: "csw_observe q e c w = (w', r) \<Longrightarrow> r \<noteq> Ok FirstSeen \<Longrightarrow> w' = w"
  by (auto simp: csw_observe_def split: if_splits option.splits)

text \<open>The result of an observation, in every state.\<close>

lemma csw_observe_result:
  "snd (csw_observe q e c w) =
     (if q = 0 \<or> e = 0 then Err CsInvalid
      else if map_of (csw_by_sequence w) q = Some \<lparr>cso_event_id = e, cso_commitment = c\<rparr>
      then Ok ExactRetry
      else if map_of (csw_by_sequence w) q \<noteq> None \<or> map_of (csw_sequence_by_event w) e \<noteq> None
      then Err CsDuplicate
      else if q < csw_floor w then Err CsOutOfWindow
      else Ok FirstSeen)"
  by (auto simp: csw_observe_def csw_floor_def split: option.splits)

lemma csw_observe_cases:
  assumes "csw_observe q e c w = (w', r)"
  obtains (first) "r = Ok FirstSeen" | (same) "r \<noteq> Ok FirstSeen" "w' = w"
  using csw_observe_unchanged [OF assms] by blast

lemma csw_observe_inv: "csw_inv w \<Longrightarrow> csw_observe q e c w = (w', r) \<Longrightarrow> csw_inv w'"
  by (metis csw_observe_cases csw_observe_first_seen(1))

section \<open>Contracts\<close>

fun csw_offer ::
  "control_sequence_window \<Rightarrow> u64 \<times> u64 \<times> bytes \<Rightarrow> control_sequence_window \<times> bool" where
  "csw_offer w (q, e, c) = (case csw_observe q e c w of (w', r) \<Rightarrow> (w', r = Ok FirstSeen))"

interpretation csw: at_most_once csw_offer fst csw_spent csw_inv
proof unfold_locales
  fix w w' :: control_sequence_window and t :: "u64 \<times> u64 \<times> bytes" and b
  obtain q e c where t: "t = (q, e, c)" by (cases t)
  assume inv: "csw_inv w"
  { assume "csw_offer w t = (w', True)"
    then have o: "csw_observe q e c w = (w', Ok FirstSeen)" by (auto simp: t split: prod.splits)
    note f = csw_observe_first_seen [OF inv o]
    show "fst t \<notin> csw_spent w" using f(4,6) by (simp add: t csw_spent_def domIff)
    show "fst t \<in> csw_spent w'" using f(5,7) by (simp add: t csw_spent_def domIff) }
  { assume "csw_offer w t = (w', b)"
    then obtain r where o: "csw_observe q e c w = (w', r)" by (auto simp: t split: prod.splits)
    show "csw_inv w'" using csw_observe_inv [OF inv o] .
    from o show "csw_spent w \<subseteq> csw_spent w'"
    proof (cases rule: csw_observe_cases)
      case first
      with o have "csw_observe q e c w = (w', Ok FirstSeen)" by simp
      note f = csw_observe_first_seen [OF inv this]
      show ?thesis using f(3,7) unfolding csw_spent_def by (auto simp: domIff split: if_splits)
    qed simp }
qed

inductive csw_step :: "control_sequence_window \<Rightarrow> control_sequence_window \<Rightarrow> bool" where
  observe: "csw_observe q e c w = (w', r) \<Longrightarrow> csw_step w w'"

interpretation cswi: state_invariant "\<lambda>w. w = csw_new width" csw_step
    "\<lambda>w. csw_inv w \<and> csw_width w = min (max width 1) 4096" for width
proof unfold_locales
  show "csw_inv w \<and> csw_width w = min (max width 1) 4096" if "w = csw_new width" for w
    using that csw_inv_new [of width]
    by (simp add: csw_new_def CONTROL_SEQUENCE_WINDOW_MAX_WIDTH_def)
next
  fix w w' assume "csw_step w w'" and inv: "csw_inv w \<and> csw_width w = min (max width 1) 4096"
  then obtain q e c r where o: "csw_observe q e c w = (w', r)" by (auto elim: csw_step.cases)
  moreover have "csw_width w' = csw_width w"
    using o by (rule csw_observe_cases) (use inv o in \<open>auto dest: csw_observe_first_seen\<close>)
  ultimately show "csw_inv w' \<and> csw_width w' = min (max width 1) 4096"
    using inv csw_observe_inv by auto
qed

text \<open>A stored observation stays stored until the floor passes it.\<close>

lemma csw_step_keeps:
  "csw_step w w' \<Longrightarrow> csw_inv w \<Longrightarrow> map_of (csw_by_sequence w) q = Some obs \<Longrightarrow>
   csw_floor w \<le> csw_floor w' \<and>
   (map_of (csw_by_sequence w') q = Some obs \<or> q < csw_floor w')"
proof (induction rule: csw_step.induct)
  case (observe p e c w w' r)
  from observe.hyps show ?case
  proof (cases rule: csw_observe_cases)
    case first
    with observe.hyps have "csw_observe p e c w = (w', Ok FirstSeen)" by simp
    note f = csw_observe_first_seen [OF observe.prems(1) this]
    show ?thesis using f(3,6,7) observe.prems(2) by auto
  qed (use observe in auto)
qed

lemma csw_steps_keep:
  assumes "csw_step\<^sup>*\<^sup>* w w'" "csw_inv w" "map_of (csw_by_sequence w) q = Some obs"
  shows "csw_inv w' \<and> (map_of (csw_by_sequence w') q = Some obs \<or> q < csw_floor w')"
  using assms
proof (induction rule: rtranclp_induct)
  case (step u v)
  then have u: "csw_inv u" "map_of (csw_by_sequence u) q = Some obs \<or> q < csw_floor u" by auto
  have "csw_inv v" using step.hyps(2) u(1) by (auto elim: csw_step.cases intro: csw_observe_inv)
  moreover have "csw_floor u \<le> csw_floor v"
    using step.hyps(2)
  proof (cases rule: csw_step.cases)
    case (observe p e c r)
    then show ?thesis
      by (rule csw_observe_cases) (use u(1) observe in \<open>auto dest: csw_observe_first_seen\<close>)
  qed
  ultimately show ?case using csw_step_keeps [OF step.hyps(2) u(1)] u(2) by force
qed simp

lemma csw_len_bound:
  assumes "csw_inv w"
  shows "csw_len w \<le> csw_width w"
proof (cases "csw_highest w")
  case None
  with assms show ?thesis by (simp add: csw_inv_def csw_len_def)
next
  case (Some h)
  let ?K = "fst ` set (csw_by_sequence w)"
  from assms have wf: "bt_wf (csw_by_sequence w)" by (simp add: csw_inv_def csw_linked_def)
  have wd: "1 \<le> csw_width w" "csw_width w \<le> 4096"
    using assms by (simp_all add: csw_inv_def CONTROL_SEQUENCE_WINDOW_MAX_WIDTH_def)
  have "replay_floor h (csw_width w) \<le> q \<and> q \<le> h" if "q \<in> ?K" for q
    using that assms Some wf by (auto simp: csw_inv_def csw_floor_def bt.get_entries)
  then have "unat ` ?K \<subseteq> {unat h - (csw_width w - 1) .. unat h}"
    unfolding image_subset_iff word_le_nat_alt unat_replay_floor [OF wd] atLeastAtMost_iff by blast
  then have "card (unat ` ?K) \<le> card {unat h - (csw_width w - 1) .. unat h}"
    by (rule card_mono [rotated]) simp
  moreover have "card (unat ` ?K) = card ?K" by (rule card_image) (auto intro: inj_onI simp: word_unat_eq_iff)
  moreover have "card ?K = csw_len w"
    using distinct_card [OF bt_wf_distinct [OF wf]] by (simp add: csw_len_def)
  ultimately show ?thesis using wd by simp
qed

section \<open>Properties\<close>

text \<open>
  C12. No replay: however a peer orders, repeats and mixes its messages, no sequence number is
  ever reported as first seen twice by a window, also after the window has forgotten it.
\<close>

theorem control_sequence_no_replay:
  "distinct (fresh_keys csw_offer fst (csw_new width) messages)"
  by (rule csw.distinct_fresh_keys) (rule csw_inv_new)

text \<open>
  Bounded memory: after any run of observations the window holds at most its width of
  sequence numbers, the width is the requested one clamped to 1..4096, and the event
  identifiers it holds are exactly those of the held sequence numbers.
\<close>

theorem control_sequence_bounded:
  assumes "csw_step\<^sup>*\<^sup>* (csw_new width) w"
  shows "csw_len w \<le> csw_capacity w \<and> csw_capacity w = min (max width 1) 4096 \<and>
    (map_of (csw_sequence_by_event w) e = Some q \<longleftrightarrow>
       (\<exists>obs. map_of (csw_by_sequence w) q = Some obs \<and> cso_event_id obs = e))"
proof -
  have "csw_inv w \<and> csw_width w = min (max width 1) 4096"
    by (rule cswi.reachable_inv [OF refl assms])
  then show ?thesis
    using csw_len_bound [of w] by (simp add: csw_capacity_def csw_inv_def csw_linked_def)
qed

lemma csw_sample:
  "csw_observe 7 1 [9] (csw_new 2) =
     (\<lparr>csw_width = 2, csw_highest = Some 7,
       csw_by_sequence = [(7, \<lparr>cso_event_id = 1, cso_commitment = [9]\<rparr>)],
       csw_sequence_by_event = [(1, 7)]\<rparr>, Ok FirstSeen)"
  by (simp add: csw_observe_def csw_new_def csw_prune_def replay_floor_def saturating_sub_def
      bt_range_below_def CONTROL_SEQUENCE_WINDOW_MAX_WIDTH_def)

theorem control_sequence_bounded_witness:
  "csw_len (fst (csw_observe 7 1 [9] (csw_new 2))) \<le> 2 \<and>
   csw_capacity (fst (csw_observe 7 1 [9] (csw_new 2))) = 2"
proof -
  have "csw_step\<^sup>*\<^sup>* (csw_new 2) (fst (csw_observe 7 1 [9] (csw_new 2)))"
    by (rule r_into_rtranclp, rule csw_step.observe, rule prod.collapse [symmetric])
  from control_sequence_bounded [OF this, of 1 7] show ?thesis by auto
qed

text \<open>
  Exact retries: once a message has been reported as first seen, after any further run
  of observations the same message is answered as an exact retry, and any other message under
  its sequence number as a duplicate, for as long as the sequence number is not below the
  replay floor; below it, no message is accepted under that number.  The state does not
  change in either case.
\<close>

theorem control_sequence_exact_retry:
  assumes "csw_step\<^sup>*\<^sup>* (csw_new width) w" and "csw_observe q e c w = (w1, Ok FirstSeen)"
    and "csw_step\<^sup>*\<^sup>* w1 w2"
  shows "(csw_floor w2 \<le> q \<longrightarrow>
      csw_observe q e c w2 = (w2, Ok ExactRetry) \<and>
      (e' \<noteq> 0 \<and> (e', c') \<noteq> (e, c) \<longrightarrow> csw_observe q e' c' w2 = (w2, Err CsDuplicate))) \<and>
    (q < csw_floor w2 \<longrightarrow> (\<exists>err. csw_observe q e' c' w2 = (w2, Err err)))"
proof -
  have inv: "csw_inv w" using cswi.reachable_inv [OF refl assms(1)] by simp
  note f = csw_observe_first_seen [OF inv assms(2)]
  have nz: "q \<noteq> 0" "e \<noteq> 0" using assms(2) by (auto simp: csw_observe_def split: if_splits)
  have "map_of (csw_by_sequence w1) q = Some \<lparr>cso_event_id = e, cso_commitment = c\<rparr>"
    using f(5,7) by simp
  from csw_steps_keep [OF assms(3) f(1) this]
  have inv2: "csw_inv w2" and
    kept: "map_of (csw_by_sequence w2) q = Some \<lparr>cso_event_id = e, cso_commitment = c\<rparr> \<or> q < csw_floor w2"
    by auto
  have gone: "map_of (csw_by_sequence w2) q = None" if "q < csw_floor w2"
    using that inv2 by (cases "csw_highest w2"; cases "map_of (csw_by_sequence w2) q")
      (auto simp: csw_inv_def csw_floor_def)
  have same: "csw_observe q e c w2 = (w2, Ok ExactRetry) \<and>
      (e' \<noteq> 0 \<and> (e', c') \<noteq> (e, c) \<longrightarrow> csw_observe q e' c' w2 = (w2, Err CsDuplicate))"
    if "csw_floor w2 \<le> q"
    using kept that nz by (auto simp: csw_observe_def not_less [symmetric])
  have "snd (csw_observe q e' c' w2) \<noteq> Ok d" if "q < csw_floor w2" for d
    using gone [OF that] that by (simp add: csw_observe_result)
  then have "\<exists>err. csw_observe q e' c' w2 = (w2, Err err)" if "q < csw_floor w2"
    using that csw_observe_unchanged by (metis prod.collapse sum.exhaust)
  with same show ?thesis by blast
qed

theorem control_sequence_exact_retry_witness:
  "csw_observe 7 1 [9] (fst (csw_observe 7 1 [9] (csw_new 2))) =
     (fst (csw_observe 7 1 [9] (csw_new 2)), Ok ExactRetry)"
proof -
  have "csw_floor (fst (csw_observe 7 1 [9] (csw_new 2))) \<le> 7"
    by (simp add: csw_sample csw_floor_def replay_floor_def saturating_sub_def)
  moreover have "csw_observe 7 1 [9] (csw_new 2) =
      (fst (csw_observe 7 1 [9] (csw_new 2)), Ok FirstSeen)"
    by (simp add: csw_sample)
  ultimately show ?thesis
    using control_sequence_exact_retry [OF rtranclp.rtrancl_refl _ rtranclp.rtrancl_refl] by blast
qed

text \<open>
  Completeness: a message is accepted as first seen exactly when its sequence number and
  event identifier are not zero, neither is held by the window, and the sequence number is
  not below the replay floor; in particular a number above all accepted so far with a new
  event identifier is never refused.
\<close>

theorem control_sequence_complete:
  assumes "csw_step\<^sup>*\<^sup>* (csw_new width) w"
  shows "(snd (csw_observe q e c w) = Ok FirstSeen \<longleftrightarrow>
      q \<noteq> 0 \<and> e \<noteq> 0 \<and> map_of (csw_by_sequence w) q = None \<and>
      map_of (csw_sequence_by_event w) e = None \<and> csw_floor w \<le> q) \<and>
    (csw_highest w = Some h \<and> h < q \<and> e \<noteq> 0 \<and> map_of (csw_sequence_by_event w) e = None
       \<longrightarrow> snd (csw_observe q e c w) = Ok FirstSeen)"
proof -
  have inv: "csw_inv w" using cswi.reachable_inv [OF refl assms] by simp
  have iff: "snd (csw_observe q e c w) = Ok FirstSeen \<longleftrightarrow>
      q \<noteq> 0 \<and> e \<noteq> 0 \<and> map_of (csw_by_sequence w) q = None \<and>
      map_of (csw_sequence_by_event w) e = None \<and> csw_floor w \<le> q"
    by (auto simp: csw_observe_result not_less)
  have "q \<noteq> 0 \<and> map_of (csw_by_sequence w) q = None \<and> csw_floor w \<le> q"
    if "csw_highest w = Some h" "h < q"
    using inv that replay_floor_le [of h "csw_width w"]
    by (cases "map_of (csw_by_sequence w) q") (auto simp: csw_inv_def csw_floor_def word_gt_0)
  with iff show ?thesis by blast
qed

theorem control_sequence_complete_witness:
  "snd (csw_observe 8 2 [] (fst (csw_observe 7 1 [9] (csw_new 2)))) = Ok FirstSeen"
proof -
  let ?w = "fst (csw_observe 7 1 [9] (csw_new 2))"
  have "csw_step\<^sup>*\<^sup>* (csw_new 2) ?w"
    by (rule r_into_rtranclp, rule csw_step.observe, rule prod.collapse [symmetric])
  moreover have "csw_highest ?w = Some 7 \<and> (7::u64) < 8 \<and> (2::u64) \<noteq> 0 \<and>
      map_of (csw_sequence_by_event ?w) 2 = None"
    by (simp add: csw_sample)
  ultimately show ?thesis using control_sequence_complete by blast
qed

end
