(* ===== verification/Control_Proto.thy ===== *)
theory Control_Proto
  imports Mrd_Prelude
begin

text \<open>
  The binary control protocol (\<open>common-control-proto/src/lib.rs\<close>): control events, the frame
  codec, the authenticated-input codec and the sequence tracker.  An \<open>i32\<close> or \<open>i16\<close> is the
  word of its two's complement bits, which is what \<open>to_be_bytes\<close> writes.  A slice or an index
  of a buffer is only taken after the length check of the source, so it is in range.
\<close>

section \<open>Lossy UTF-8 decoding\<close>

text \<open>
  \<open>String::from_utf8_lossy\<close>.  \<open>utf8_char bs\<close> looks at the start of a non-empty buffer and
  returns whether it is a well-formed scalar value and how many bytes it or the maximal
  ill-formed prefix takes; a byte past the end reads as 0.
\<close>

definition byte_get :: "bytes \<Rightarrow> nat \<Rightarrow> nat" where
  "byte_get bs i = (if i < length bs then unat (bs ! i) else 0)"

definition utf8_cont :: "nat \<Rightarrow> bool" where
  "utf8_cont c \<longleftrightarrow> 0x80 \<le> c \<and> c \<le> 0xBF"

definition utf8_second3 :: "nat \<Rightarrow> nat \<Rightarrow> bool" where
  "utf8_second3 b c \<longleftrightarrow>
     (b = 0xE0 \<and> 0xA0 \<le> c \<and> c \<le> 0xBF) \<or> (0xE1 \<le> b \<and> b \<le> 0xEC \<and> utf8_cont c) \<or>
     (b = 0xED \<and> 0x80 \<le> c \<and> c \<le> 0x9F) \<or> (0xEE \<le> b \<and> b \<le> 0xEF \<and> utf8_cont c)"

definition utf8_second4 :: "nat \<Rightarrow> nat \<Rightarrow> bool" where
  "utf8_second4 b c \<longleftrightarrow>
     (b = 0xF0 \<and> 0x90 \<le> c \<and> c \<le> 0xBF) \<or> (0xF1 \<le> b \<and> b \<le> 0xF3 \<and> utf8_cont c) \<or>
     (b = 0xF4 \<and> 0x80 \<le> c \<and> c \<le> 0x8F)"

definition utf8_char :: "bytes \<Rightarrow> bool \<times> nat" where
  "utf8_char bs =
     (let b = byte_get bs 0; c = byte_get bs 1; d = byte_get bs 2; e = byte_get bs 3 in
      if b < 0x80 then (True, 1)
      else if 0xC2 \<le> b \<and> b \<le> 0xDF then (if utf8_cont c then (True, 2) else (False, 1))
      else if 0xE0 \<le> b \<and> b \<le> 0xEF then
        (if \<not> utf8_second3 b c then (False, 1)
         else if \<not> utf8_cont d then (False, 2) else (True, 3))
      else if 0xF0 \<le> b \<and> b \<le> 0xF4 then
        (if \<not> utf8_second4 b c then (False, 1)
         else if \<not> utf8_cont d then (False, 2)
         else if \<not> utf8_cont e then (False, 3) else (True, 4))
      else (False, 1))"

lemma utf8_char_pos: "0 < snd (utf8_char bs)"
  by (simp add: utf8_char_def Let_def)

definition REPLACEMENT_CHARACTER :: bytes where
  "REPLACEMENT_CHARACTER = [0xEF, 0xBF, 0xBD]"

function from_utf8_lossy :: "bytes \<Rightarrow> bytes" where
  "from_utf8_lossy bs =
     (if bs = [] then []
      else (if fst (utf8_char bs) then take (snd (utf8_char bs)) bs else REPLACEMENT_CHARACTER)
           @ from_utf8_lossy (drop (snd (utf8_char bs)) bs))"
  by pat_completeness auto
termination by (relation "measure length") (auto simp: utf8_char_pos)

function utf8_valid :: "bytes \<Rightarrow> bool" where
  "utf8_valid bs \<longleftrightarrow>
     (if bs = [] then True
      else fst (utf8_char bs) \<and> utf8_valid (drop (snd (utf8_char bs)) bs))"
  by pat_completeness auto
termination by (relation "measure length") (auto simp: utf8_char_pos)

declare from_utf8_lossy.simps [simp del] utf8_valid.simps [simp del]

definition string_of_bytes :: "bytes \<Rightarrow> string" where
  "string_of_bytes bs = map (\<lambda>b. char_of (unat b)) bs"

section \<open>Events\<close>

definition PROTOCOL_VERSION :: u8 where "PROTOCOL_VERSION = 2"
definition HEADER_LEN :: nat where "HEADER_LEN = 17"
definition AUTHENTICATED_INPUT_PROTOCOL_VERSION :: u8 where
  "AUTHENTICATED_INPUT_PROTOCOL_VERSION = 2"
definition AUTHENTICATED_INPUT_MAX_BYTES :: nat where "AUTHENTICATED_INPUT_MAX_BYTES = 64"
definition AUTHENTICATED_INPUT_HEADER_LEN :: nat where "AUTHENTICATED_INPUT_HEADER_LEN = 4"

lemmas proto_consts =
  PROTOCOL_VERSION_def HEADER_LEN_def AUTHENTICATED_INPUT_PROTOCOL_VERSION_def
  AUTHENTICATED_INPUT_MAX_BYTES_def AUTHENTICATED_INPUT_HEADER_LEN_def

datatype channel_class = Realtime | Reliable

datatype event_type =
    TMouseMove | TMouseButton | TMouseWheel | TKey | TGamepadAxis | TGamepadButton
  | TClipboardSet | TClipboardGet | TFileControl | TFileChunk | TAudioControl | TFileMount
  | TAudioRouteControl | TMouseHorizontalWheel | TReleaseAll

datatype authenticated_input_scope_t = ScopePointer | ScopeKeyboard

datatype control_event =
    MouseMove u32 u32
  | MouseButton u8 bool
  | MouseWheel u32
  | MouseHorizontalWheel u32
  | Key u32 bool
  | GamepadAxis u8 u8 u16
  | GamepadButton u8 u8 bool
  | ClipboardSet u8 bytes
  | ClipboardGet
  | FileControl u8 u64 u64 u64
  | FileChunk u64 u32 u32 bytes bytes
  | AudioControl u8 u8 u32 u8 u16
  | AudioRouteControl u8 u8 u32 bool
  | FileMount u8 u64 u32 string
  | ReleaseAll authenticated_input_scope_t

record frame =
  fr_flags :: u8
  fr_seq :: u32
  fr_ts_us :: u64
  fr_event :: control_event

datatype proto_error =
    FrameTooShort nat nat
  | UnsupportedVersion u8
  | UnknownEventType u8
  | PayloadLengthMismatch nat nat
  | InvalidEventPayloadLength event_type nat nat
  | UnsupportedAuthenticatedInput event_type
  | InvalidBoolean u8
  | InvalidAuthenticatedInputScope u8
  | AuthenticatedInputTooLarge nat nat

fun event_code :: "event_type \<Rightarrow> u8" where
  "event_code TMouseMove = 1" | "event_code TMouseButton = 2" | "event_code TMouseWheel = 3"
| "event_code TKey = 4" | "event_code TGamepadAxis = 5" | "event_code TGamepadButton = 6"
| "event_code TClipboardSet = 7" | "event_code TClipboardGet = 8" | "event_code TFileControl = 9"
| "event_code TFileChunk = 10" | "event_code TAudioControl = 11" | "event_code TFileMount = 12"
| "event_code TAudioRouteControl = 13" | "event_code TMouseHorizontalWheel = 14"
| "event_code TReleaseAll = 15"

definition event_type_try_from :: "u8 \<Rightarrow> (event_type, proto_error) result" where
  "event_type_try_from value =
    (if value = 1 then Ok TMouseMove else if value = 2 then Ok TMouseButton
     else if value = 3 then Ok TMouseWheel else if value = 4 then Ok TKey
     else if value = 5 then Ok TGamepadAxis else if value = 6 then Ok TGamepadButton
     else if value = 7 then Ok TClipboardSet else if value = 8 then Ok TClipboardGet
     else if value = 9 then Ok TFileControl else if value = 10 then Ok TFileChunk
     else if value = 11 then Ok TAudioControl else if value = 12 then Ok TFileMount
     else if value = 13 then Ok TAudioRouteControl
     else if value = 14 then Ok TMouseHorizontalWheel
     else if value = 15 then Ok TReleaseAll
     else Err (UnknownEventType value))"

fun event_type_of :: "control_event \<Rightarrow> event_type" where
  "event_type_of (MouseMove _ _) = TMouseMove"
| "event_type_of (MouseButton _ _) = TMouseButton"
| "event_type_of (MouseWheel _) = TMouseWheel"
| "event_type_of (MouseHorizontalWheel _) = TMouseHorizontalWheel"
| "event_type_of (Key _ _) = TKey"
| "event_type_of (GamepadAxis _ _ _) = TGamepadAxis"
| "event_type_of (GamepadButton _ _ _) = TGamepadButton"
| "event_type_of (ClipboardSet _ _) = TClipboardSet"
| "event_type_of ClipboardGet = TClipboardGet"
| "event_type_of (FileControl _ _ _ _) = TFileControl"
| "event_type_of (FileChunk _ _ _ _ _) = TFileChunk"
| "event_type_of (AudioControl _ _ _ _ _) = TAudioControl"
| "event_type_of (FileMount _ _ _ _) = TFileMount"
| "event_type_of (AudioRouteControl _ _ _ _) = TAudioRouteControl"
| "event_type_of (ReleaseAll _) = TReleaseAll"

fun channel_class_of :: "control_event \<Rightarrow> channel_class" where
  "channel_class_of (MouseMove _ _) = Realtime"
| "channel_class_of (MouseWheel _) = Realtime"
| "channel_class_of (MouseHorizontalWheel _) = Realtime"
| "channel_class_of (GamepadAxis _ _ _) = Realtime"
| "channel_class_of (MouseButton _ _) = Reliable"
| "channel_class_of (Key _ _) = Reliable"
| "channel_class_of (GamepadButton _ _ _) = Reliable"
| "channel_class_of (ClipboardSet _ _) = Reliable"
| "channel_class_of ClipboardGet = Reliable"
| "channel_class_of (FileControl _ _ _ _) = Reliable"
| "channel_class_of (FileChunk _ _ _ _ _) = Reliable"
| "channel_class_of (AudioControl _ _ _ _ _) = Reliable"
| "channel_class_of (FileMount _ _ _ _) = Reliable"
| "channel_class_of (AudioRouteControl _ _ _ _) = Reliable"
| "channel_class_of (ReleaseAll _) = Reliable"

section \<open>Payload codec\<close>

definition bool_u8 :: "bool \<Rightarrow> u8" where
  "bool_u8 b = (if b then 1 else 0)"

fun scope_u8 :: "authenticated_input_scope_t \<Rightarrow> u8" where
  "scope_u8 ScopePointer = 1" | "scope_u8 ScopeKeyboard = 2"

text \<open>The slice \<open>bs[a..b]\<close> of a buffer.\<close>

definition buf_slice :: "nat \<Rightarrow> nat \<Rightarrow> bytes \<Rightarrow> bytes" where
  "buf_slice a b bs = take (b - a) (drop a bs)"

fun encode_event_payload :: "control_event \<Rightarrow> bytes" where
  "encode_event_payload (MouseMove x y) = u32_be x @ u32_be y"
| "encode_event_payload (MouseButton button pressed) = [button, bool_u8 pressed]"
| "encode_event_payload (MouseWheel delta) = u32_be delta"
| "encode_event_payload (MouseHorizontalWheel delta) = u32_be delta"
| "encode_event_payload (Key key pressed) = u32_be key @ [bool_u8 pressed]"
| "encode_event_payload (GamepadAxis gamepad axis value) = [gamepad] @ [axis] @ u16_be value"
| "encode_event_payload (GamepadButton gamepad button pressed) = [gamepad, button, bool_u8 pressed]"
| "encode_event_payload (ClipboardSet mime bs) = [mime] @ u32_be (of_nat (length bs)) @ bs"
| "encode_event_payload ClipboardGet = []"
| "encode_event_payload (FileControl op transfer_id arg0 arg1) =
     [op] @ u64_be transfer_id @ u64_be arg0 @ u64_be arg1"
| "encode_event_payload (FileChunk transfer_id chunk_idx total_chunks sha256_16 payload) =
     u64_be transfer_id @ u32_be chunk_idx @ u32_be total_chunks @ sha256_16
     @ u32_be (of_nat (length payload)) @ payload"
| "encode_event_payload (AudioControl op codec sample_rate channels frame_ms) =
     [op] @ [codec] @ u32_be sample_rate @ [channels] @ u16_be frame_ms"
| "encode_event_payload (FileMount op mount_id flags path) =
     [op] @ u64_be mount_id @ u32_be flags @ u16_be (of_nat (length (as_bytes path)))
     @ as_bytes path"
| "encode_event_payload (AudioRouteControl mode scope target_pid follow_children) =
     [mode] @ [scope] @ u32_be target_pid @ [bool_u8 follow_children]"
| "encode_event_payload (ReleaseAll scope) = [scope_u8 scope]"

definition expect_payload_len ::
  "event_type \<Rightarrow> bytes \<Rightarrow> nat \<Rightarrow> (unit, proto_error) result" where
  "expect_payload_len typ payload expected =
     (if length payload \<noteq> expected
      then Err (InvalidEventPayloadLength typ expected (length payload)) else Ok ())"

fun decode_event_payload :: "event_type \<Rightarrow> bytes \<Rightarrow> (control_event, proto_error) result" where
  "decode_event_payload TMouseMove p =
     and_then (expect_payload_len TMouseMove p 8) (\<lambda>_.
       Ok (MouseMove (u32_of_be (buf_slice 0 4 p)) (u32_of_be (buf_slice 4 8 p))))"
| "decode_event_payload TMouseButton p =
     and_then (expect_payload_len TMouseButton p 2) (\<lambda>_. Ok (MouseButton (p ! 0) (p ! 1 \<noteq> 0)))"
| "decode_event_payload TMouseWheel p =
     and_then (expect_payload_len TMouseWheel p 4) (\<lambda>_. Ok (MouseWheel (u32_of_be (buf_slice 0 4 p))))"
| "decode_event_payload TMouseHorizontalWheel p =
     and_then (expect_payload_len TMouseHorizontalWheel p 4) (\<lambda>_.
       Ok (MouseHorizontalWheel (u32_of_be (buf_slice 0 4 p))))"
| "decode_event_payload TKey p =
     and_then (expect_payload_len TKey p 5) (\<lambda>_. Ok (Key (u32_of_be (buf_slice 0 4 p)) (p ! 4 \<noteq> 0)))"
| "decode_event_payload TGamepadAxis p =
     and_then (expect_payload_len TGamepadAxis p 4) (\<lambda>_.
       Ok (GamepadAxis (p ! 0) (p ! 1) (u16_of_be (buf_slice 2 4 p))))"
| "decode_event_payload TGamepadButton p =
     and_then (expect_payload_len TGamepadButton p 3) (\<lambda>_.
       Ok (GamepadButton (p ! 0) (p ! 1) (p ! 2 \<noteq> 0)))"
| "decode_event_payload TClipboardSet p =
     (if length p < 5 then Err (InvalidEventPayloadLength TClipboardSet 5 (length p))
      else let mime = p ! 0; len = unat (u32_of_be (buf_slice 1 5 p)) in
        if length p \<noteq> 5 + len then Err (PayloadLengthMismatch (5 + len) (length p))
        else Ok (ClipboardSet mime (drop 5 p)))"
| "decode_event_payload TClipboardGet p =
     and_then (expect_payload_len TClipboardGet p 0) (\<lambda>_. Ok ClipboardGet)"
| "decode_event_payload TFileControl p =
     and_then (expect_payload_len TFileControl p 25) (\<lambda>_.
       Ok (FileControl (p ! 0) (u64_of_be (buf_slice 1 9 p)) (u64_of_be (buf_slice 9 17 p))
             (u64_of_be (buf_slice 17 25 p))))"
| "decode_event_payload TFileChunk p =
     (if length p < 36 then Err (InvalidEventPayloadLength TFileChunk 36 (length p))
      else let declared = unat (u32_of_be (buf_slice 32 36 p)) in
        if length p \<noteq> 36 + declared then Err (PayloadLengthMismatch (36 + declared) (length p))
        else Ok (FileChunk (u64_of_be (buf_slice 0 8 p)) (u32_of_be (buf_slice 8 12 p))
                  (u32_of_be (buf_slice 12 16 p)) (buf_slice 16 32 p) (drop 36 p)))"
| "decode_event_payload TAudioControl p =
     and_then (expect_payload_len TAudioControl p 9) (\<lambda>_.
       Ok (AudioControl (p ! 0) (p ! 1) (u32_of_be (buf_slice 2 6 p)) (p ! 6) (u16_of_be (buf_slice 7 9 p))))"
| "decode_event_payload TFileMount p =
     (if length p < 15 then Err (InvalidEventPayloadLength TFileMount 15 (length p))
      else let declared_len = unat (u16_of_be (buf_slice 13 15 p)) in
        if length p \<noteq> 15 + declared_len
        then Err (PayloadLengthMismatch (15 + declared_len) (length p))
        else Ok (FileMount (p ! 0) (u64_of_be (buf_slice 1 9 p)) (u32_of_be (buf_slice 9 13 p))
                  (string_of_bytes (from_utf8_lossy (drop 15 p)))))"
| "decode_event_payload TAudioRouteControl p =
     and_then (expect_payload_len TAudioRouteControl p 7) (\<lambda>_.
       Ok (AudioRouteControl (p ! 0) (p ! 1) (u32_of_be (buf_slice 2 6 p)) (p ! 6 \<noteq> 0)))"
| "decode_event_payload TReleaseAll p =
     and_then (expect_payload_len TReleaseAll p 1) (\<lambda>_.
       if p ! 0 = scope_u8 ScopePointer then Ok (ReleaseAll ScopePointer)
       else if p ! 0 = scope_u8 ScopeKeyboard then Ok (ReleaseAll ScopeKeyboard)
       else Err (InvalidAuthenticatedInputScope (p ! 0)))"

section \<open>Frames\<close>

definition frame_encode :: "frame \<Rightarrow> bytes" where
  "frame_encode f =
     (let payload = encode_event_payload (fr_event f) in
      [PROTOCOL_VERSION] @ [event_code (event_type_of (fr_event f))] @ [fr_flags f]
      @ u16_be (of_nat (length payload)) @ u32_be (fr_seq f) @ u64_be (fr_ts_us f) @ payload)"

definition frame_decode :: "bytes \<Rightarrow> (frame, proto_error) result" where
  "frame_decode buf =
     (if length buf < HEADER_LEN then Err (FrameTooShort (length buf) HEADER_LEN)
      else if buf ! 0 \<noteq> PROTOCOL_VERSION then Err (UnsupportedVersion (buf ! 0))
      else and_then (event_type_try_from (buf ! 1)) (\<lambda>typ.
        let flags = buf ! 2;
            payload_len = unat (u16_of_be (buf_slice 3 5 buf));
            seq = u32_of_be (buf_slice 5 9 buf);
            ts_us = u64_of_be (buf_slice 9 17 buf)
        in if length buf \<noteq> HEADER_LEN + payload_len
           then Err (PayloadLengthMismatch payload_len (length buf - HEADER_LEN))
           else and_then (decode_event_payload typ (drop HEADER_LEN buf)) (\<lambda>event.
             Ok \<lparr>fr_flags = flags, fr_seq = seq, fr_ts_us = ts_us, fr_event = event\<rparr>)))"

section \<open>Authenticated input\<close>

fun authenticated_input_scope ::
  "control_event \<Rightarrow> (authenticated_input_scope_t, proto_error) result" where
  "authenticated_input_scope (MouseMove _ _) = Ok ScopePointer"
| "authenticated_input_scope (MouseButton _ _) = Ok ScopePointer"
| "authenticated_input_scope (MouseWheel _) = Ok ScopePointer"
| "authenticated_input_scope (MouseHorizontalWheel _) = Ok ScopePointer"
| "authenticated_input_scope (Key _ _) = Ok ScopeKeyboard"
| "authenticated_input_scope (ReleaseAll scope) = Ok scope"
| "authenticated_input_scope unsupported =
     Err (UnsupportedAuthenticatedInput (event_type_of unsupported))"

definition encode_authenticated_input_event :: "control_event \<Rightarrow> (bytes, proto_error) result" where
  "encode_authenticated_input_event event =
     and_then (authenticated_input_scope event) (\<lambda>_.
       let payload = encode_event_payload event;
           total_len = AUTHENTICATED_INPUT_HEADER_LEN + length payload
       in if length payload > 65535
          then Err (AuthenticatedInputTooLarge (length payload) AUTHENTICATED_INPUT_MAX_BYTES)
          else if total_len > AUTHENTICATED_INPUT_MAX_BYTES
          then Err (AuthenticatedInputTooLarge total_len AUTHENTICATED_INPUT_MAX_BYTES)
          else Ok ([AUTHENTICATED_INPUT_PROTOCOL_VERSION] @ [event_code (event_type_of event)]
                   @ u16_be (of_nat (length payload)) @ payload))"

definition decode_authenticated_input_event :: "bytes \<Rightarrow> (control_event, proto_error) result" where
  "decode_authenticated_input_event bs =
     (if length bs > AUTHENTICATED_INPUT_MAX_BYTES
      then Err (AuthenticatedInputTooLarge (length bs) AUTHENTICATED_INPUT_MAX_BYTES)
      else if length bs < AUTHENTICATED_INPUT_HEADER_LEN
      then Err (FrameTooShort (length bs) AUTHENTICATED_INPUT_HEADER_LEN)
      else if bs ! 0 \<noteq> AUTHENTICATED_INPUT_PROTOCOL_VERSION then Err (UnsupportedVersion (bs ! 0))
      else and_then (event_type_try_from (bs ! 1)) (\<lambda>typ.
        let payload_len = unat (u16_of_be (buf_slice 2 4 bs));
            payload = drop AUTHENTICATED_INPUT_HEADER_LEN bs
        in if length bs \<noteq> AUTHENTICATED_INPUT_HEADER_LEN + payload_len
           then Err (PayloadLengthMismatch payload_len (length bs - AUTHENTICATED_INPUT_HEADER_LEN))
           else if typ = TMouseButton \<and> length payload = 2 \<and> payload ! 1 > 1
           then Err (InvalidBoolean (payload ! 1))
           else if typ = TKey \<and> length payload = 5 \<and> payload ! 4 > 1
           then Err (InvalidBoolean (payload ! 4))
           else and_then (decode_event_payload typ payload) (\<lambda>event.
             and_then (authenticated_input_scope event) (\<lambda>_. Ok event))))"

section \<open>Sequence tracker\<close>

record seq_tracker =
  last_seq :: "u32 option"

definition validate_and_update :: "seq_tracker \<Rightarrow> u32 \<Rightarrow> seq_tracker \<times> bool" where
  "validate_and_update t seq =
     (let is_valid = (case last_seq t of None \<Rightarrow> True | Some prev \<Rightarrow> seq > prev)
      in (if is_valid then t\<lparr>last_seq := Some seq\<rparr> else t, is_valid))"

section \<open>Lemmas\<close>

subsection \<open>UTF-8\<close>

lemma utf8_cont_get: "utf8_cont (byte_get bs i) \<Longrightarrow> i < length bs"
  by (auto simp: utf8_cont_def byte_get_def split: if_splits)

lemma utf8_second_get:
  "utf8_second3 b (byte_get bs i) \<Longrightarrow> i < length bs"
  "utf8_second4 b (byte_get bs i) \<Longrightarrow> i < length bs"
  by (auto simp: utf8_second3_def utf8_second4_def utf8_cont_def byte_get_def split: if_splits)

lemma utf8_char_length: "bs \<noteq> [] \<Longrightarrow> utf8_char bs = (True, n) \<Longrightarrow> n \<le> length bs"
  by (auto simp: utf8_char_def Let_def Suc_le_eq dest: utf8_cont_get utf8_second_get split: if_splits)

lemma byte_get_take: "i < n \<Longrightarrow> n \<le> length bs \<Longrightarrow> byte_get (take n bs @ ys) i = byte_get bs i"
  by (simp add: byte_get_def nth_append)

lemma utf8_char_append:
  assumes "bs \<noteq> []" and "utf8_char bs = (True, n)"
  shows "utf8_char (take n bs @ ys) = (True, n)"
proof -
  have "n \<le> length bs" by (rule utf8_char_length [OF assms])
  then have get: "byte_get (take n bs @ ys) i = byte_get bs i" if "i < n" for i
    using that by (rule byte_get_take [rotated])
  from assms(2) get [of 0] get [of 1] get [of 2] get [of 3] show ?thesis
    unfolding utf8_char_def Let_def by (simp split: if_splits)
qed

lemma from_utf8_lossy_Nil [simp]: "from_utf8_lossy [] = []"
  by (simp add: from_utf8_lossy.simps)

lemma utf8_valid_Nil [simp]: "utf8_valid []"
  by (simp add: utf8_valid.simps)

lemma from_utf8_lossy_id: "utf8_valid bs \<Longrightarrow> from_utf8_lossy bs = bs"
proof (induction bs rule: from_utf8_lossy.induct)
  case (1 bs)
  then show ?case
    by (cases "bs = []") (simp_all add: utf8_valid.simps [of bs] from_utf8_lossy.simps [of bs])
qed

lemma utf8_char_replacement: "utf8_char (REPLACEMENT_CHARACTER @ ys) = (True, 3)"
  by (simp add: utf8_char_def REPLACEMENT_CHARACTER_def byte_get_def utf8_second3_def utf8_cont_def)

lemma utf8_valid_append_char:
  "xs \<noteq> [] \<Longrightarrow> utf8_char (xs @ ys) = (True, length xs) \<Longrightarrow> utf8_valid ys \<Longrightarrow> utf8_valid (xs @ ys)"
  by (simp add: utf8_valid.simps [of "xs @ ys"])

lemma utf8_valid_lossy: "utf8_valid (from_utf8_lossy bs)"
proof (induction bs rule: from_utf8_lossy.induct)
  case (1 bs)
  obtain ok n where c: "utf8_char bs = (ok, n)" by (cases "utf8_char bs")
  show ?case
  proof (cases "bs = []")
    case False
    with 1 c have IH: "utf8_valid (from_utf8_lossy (drop n bs))" by simp
    show ?thesis
    proof (cases ok)
      case True
      with c False have ch: "utf8_char bs = (True, n)" by simp
      note len = utf8_char_length [OF False ch]
      have "0 < n" using utf8_char_pos [of bs] c by simp
      with len utf8_char_append [OF False ch] IH show ?thesis
        by (simp add: from_utf8_lossy.simps [of bs] c True False)
           (rule utf8_valid_append_char, auto simp: min_def)
    next
      case False
      with \<open>bs \<noteq> []\<close> c have "from_utf8_lossy bs = REPLACEMENT_CHARACTER @ from_utf8_lossy (drop n bs)"
        by (simp add: from_utf8_lossy.simps [of bs])
      then show ?thesis
        using IH utf8_char_replacement utf8_valid_append_char [of REPLACEMENT_CHARACTER]
        by (simp add: REPLACEMENT_CHARACTER_def)
    qed
  qed simp
qed

lemma as_bytes_of_bytes [simp]: "as_bytes (string_of_bytes bs) = bs"
proof -
  have "(of_char (char_of (unat b)) :: u8) = b" for b :: u8
  proof -
    have "(of_char (char_of (unat b)) :: nat) = unat b" by simp
    then have "(of_nat (of_char (char_of (unat b))) :: u8) = b" by simp
    then show ?thesis by (simp only: of_nat_of_char)
  qed
  then show ?thesis by (simp add: as_bytes_def string_of_bytes_def map_idI comp_def)
qed

lemma of_bytes_as_bytes [simp]: "string_of_bytes (as_bytes s) = s"
  by (metis as_bytes_inject as_bytes_of_bytes)

subsection \<open>Codecs\<close>

text \<open>
  What the Rust types guarantee of an event: the truncated digest has 16 bytes and a path is
  valid UTF-8.
\<close>

fun event_wf :: "control_event \<Rightarrow> bool" where
  "event_wf (FileChunk _ _ _ sha256_16 _) \<longleftrightarrow> length sha256_16 = 16"
| "event_wf (FileMount _ _ _ path) \<longleftrightarrow> utf8_valid (as_bytes path)"
| "event_wf _ \<longleftrightarrow> True"

lemma event_type_try_from_code [simp]: "event_type_try_from (event_code t) = Ok t"
  by (cases t) (simp_all add: event_type_try_from_def)

lemma event_type_try_from_Ok: "event_type_try_from b = Ok t \<Longrightarrow> b = event_code t"
  by (auto simp: event_type_try_from_def split: if_splits)

lemma bool_u8_ne_0 [simp]: "(bool_u8 b \<noteq> 0) = b" "(bool_u8 b = 0) = (\<not> b)"
  by (simp_all add: bool_u8_def)

lemma scope_u8_simps [simp]: "scope_u8 s = 1 \<longleftrightarrow> s = ScopePointer" "scope_u8 s = 2 \<longleftrightarrow> s = ScopeKeyboard"
  by (cases s; simp)+

lemma not_scope_iff [simp]: "s \<noteq> ScopeKeyboard \<longleftrightarrow> s = ScopePointer"
  by (cases s) simp_all

lemma unat_of_nat_u16: "n < 65536 \<Longrightarrow> unat (of_nat n :: u16) = n"
  by (simp add: unat_of_nat)

lemma unat_of_nat_u32: "n < 4294967296 \<Longrightarrow> unat (of_nat n :: u32) = n"
  by (simp add: unat_of_nat)

lemma decode_encode_payload:
  assumes "event_wf e" and "length (encode_event_payload e) < 65536"
  shows "decode_event_payload (event_type_of e) (encode_event_payload e) = Ok e"
  using assms
  by (cases e)
     (auto simp: expect_payload_len_def buf_slice_def Let_def nth_append unat_of_nat_u16
        unat_of_nat_u32 from_utf8_lossy_id drop_Cons' take_Cons')

lemma slice_append:
  assumes "a \<le> b" and "b \<le> c"
  shows "buf_slice a b p @ buf_slice b c p = buf_slice a c p"
proof -
  have "take ((b - a) + (c - b)) (drop a p) = take (b - a) (drop a p) @ take (c - b) (drop (b - a) (drop a p))"
    by (rule take_add)
  then show ?thesis using assms by (simp add: buf_slice_def)
qed

lemma slice_all: "length p = n \<Longrightarrow> buf_slice 0 n p = p"
  by (simp add: buf_slice_def)

lemma length_slice: "b \<le> length p \<Longrightarrow> length (buf_slice a b p) = b - a"
  by (simp add: buf_slice_def)

lemma slice_nth: "a < length p \<Longrightarrow> buf_slice a (Suc a) p = [p ! a]"
  by (simp add: buf_slice_def take_Suc hd_drop_conv_nth)

lemma decode_payload_type: "decode_event_payload typ p = Ok e \<Longrightarrow> event_type_of e = typ"
  by (cases "typ") (auto simp: expect_payload_len_def Let_def split: if_splits)

lemma decode_payload_wf: "decode_event_payload typ p = Ok e \<Longrightarrow> event_wf e"
  by (cases "typ")
     (auto simp: expect_payload_len_def Let_def length_slice utf8_valid_lossy split: if_splits)

lemma decode_payload_length:
  "decode_event_payload typ p = Ok e \<Longrightarrow> typ \<noteq> TFileMount \<Longrightarrow>
   length (encode_event_payload e) = length p"
  by (cases "typ") (auto simp: expect_payload_len_def Let_def length_slice split: if_splits)

lemma bool_u8_canonical: "\<not> 1 < b \<Longrightarrow> bool_u8 (b \<noteq> 0) = b"
proof -
  assume "\<not> 1 < b"
  then have "unat b \<le> 1" by (simp add: not_less word_le_nat_alt)
  then have "unat b = 0 \<or> unat b = 1" by linarith
  then have "b = 0 \<or> b = 1" unfolding word_unat_eq_iff [of b 0] word_unat_eq_iff [of b 1] by simp
  then show ?thesis by (auto simp: bool_u8_def)
qed

text \<open>A payload of the authenticated events is the encoding of what it decodes to.\<close>

lemma encode_decode_authenticated:
  assumes "decode_event_payload typ p = Ok e" and "authenticated_input_scope e = Ok sc"
    and "typ = TMouseButton \<Longrightarrow> \<not> 1 < p ! 1" and "typ = TKey \<Longrightarrow> \<not> 1 < p ! 4"
  shows "encode_event_payload e = p"
proof (cases "typ")
  case TMouseMove
  with assms(1) slice_append [of 0 4 8 p] show ?thesis
    by (auto simp: expect_payload_len_def be_of_be length_slice slice_all split: if_splits)
next
  case TMouseButton
  with assms(1) have len: "length p = 2" and e: "e = MouseButton (p ! 0) (p ! 1 \<noteq> 0)"
    by (auto simp: expect_payload_len_def split: if_splits)
  with assms(3) TMouseButton show ?thesis
    by (intro nth_equalityI) (auto simp: bool_u8_canonical less_Suc_eq)
next
  case TKey
  with assms(1) have len: "length p = 5" and e: "e = Key (u32_of_be (buf_slice 0 4 p)) (p ! 4 \<noteq> 0)"
    by (auto simp: expect_payload_len_def split: if_splits)
  have "buf_slice 0 4 p @ buf_slice 4 5 p = p" using slice_append [of 0 4 5 p] len by (simp add: slice_all)
  moreover have "buf_slice 4 5 p = [p ! 4]" using slice_nth [of 4 p] len by simp
  ultimately show ?thesis
    using assms(4) TKey len by (simp add: e be_of_be length_slice bool_u8_canonical)
next
  case TReleaseAll
  with assms(1) show ?thesis
    by (cases p) (auto simp: expect_payload_len_def split: if_splits)
qed (use assms(1,2) in \<open>auto simp: expect_payload_len_def be_of_be length_slice slice_all Let_def
    split: if_splits\<close>)

lemma authenticated_payload_length:
  "authenticated_input_scope e = Ok sc \<Longrightarrow>
   1 \<le> length (encode_event_payload e) \<and> length (encode_event_payload e) \<le> 8 \<and> event_wf e"
  by (cases e) auto

lemma encode_authenticated_Ok:
  "encode_authenticated_input_event e = Ok b \<longleftrightarrow>
     (\<exists>sc. authenticated_input_scope e = Ok sc) \<and>
     b = [2, event_code (event_type_of e)] @ u16_be (of_nat (length (encode_event_payload e)))
         @ encode_event_payload e"
  using authenticated_payload_length [of e]
  by (auto simp: encode_authenticated_input_event_def Let_def proto_consts)

lemma authenticated_encode_decode:
  assumes "decode_authenticated_input_event b = Ok e"
  shows "encode_authenticated_input_event e = Ok b"
proof -
  from assms obtain t sc where len: "4 \<le> length b" and ver: "b ! 0 = 2" and ty: "event_type_try_from (b ! 1) = Ok t"
    and plen: "length b = 4 + unat (u16_of_be (buf_slice 2 4 b))"
    and dec: "decode_event_payload t (drop 4 b) = Ok e" and sc: "authenticated_input_scope e = Ok sc"
    and b1: "t = TMouseButton \<Longrightarrow> length (drop 4 b) = 2 \<Longrightarrow> \<not> 1 < drop 4 b ! 1"
    and b2: "t = TKey \<Longrightarrow> length (drop 4 b) = 5 \<Longrightarrow> \<not> 1 < drop 4 b ! 4"
    unfolding decode_authenticated_input_event_def proto_consts Let_def guard_Ok and_then_eq_Ok
    by (elim conjE exE) (rule that, auto)
  have "encode_event_payload e = drop 4 b"
    by (rule encode_decode_authenticated [OF dec sc])
       (use b1 b2 dec in \<open>auto simp: expect_payload_len_def split: if_splits\<close>)
  moreover have "event_type_of e = t" by (rule decode_payload_type [OF dec])
  moreover have "b ! 1 = event_code t" by (rule event_type_try_from_Ok [OF ty])
  moreover have "u16_be (of_nat (length (drop 4 b))) = buf_slice 2 4 b"
    using plen len by (simp add: be_of_be length_slice)
  moreover have "b = [b ! 0, b ! 1] @ buf_slice 2 4 b @ drop 4 b"
  proof -
    have "buf_slice 0 1 b @ buf_slice 1 2 b @ buf_slice 2 4 b = take 4 b"
      using slice_append [of 0 1 2 b] slice_append [of 0 2 4 b]
      by (simp only: append.assoc [symmetric]) (simp add: buf_slice_def [of 0 4])
    then have "b = (buf_slice 0 1 b @ buf_slice 1 2 b @ buf_slice 2 4 b) @ drop 4 b" by simp
    moreover have "b \<noteq> []" using len by auto
    then have "buf_slice 0 1 b = [b ! 0]" "buf_slice 1 2 b = [b ! 1]"
      using slice_nth [of 0 b] slice_nth [of 1 b] len by (simp_all add: numeral_2_eq_2)
    ultimately show ?thesis by simp
  qed
  ultimately show ?thesis using sc ver by (simp add: encode_authenticated_Ok)
qed

lemma authenticated_decode_encode:
  assumes "encode_authenticated_input_event e = Ok b"
  shows "decode_authenticated_input_event b = Ok e"
proof -
  from assms obtain sc where sc: "authenticated_input_scope e = Ok sc"
    and b: "b = [2, event_code (event_type_of e)] @ u16_be (of_nat (length (encode_event_payload e)))
       @ encode_event_payload e"
    by (auto simp: encode_authenticated_Ok)
  note len = authenticated_payload_length [OF sc]
  have dec: "decode_event_payload (event_type_of e) (encode_event_payload e) = Ok e"
    by (rule decode_encode_payload) (use len in auto)
  have "\<not> (event_type_of e = TMouseButton \<and> 1 < encode_event_payload e ! 1)"
    "\<not> (event_type_of e = TKey \<and> 1 < encode_event_payload e ! 4)"
    by (cases e; auto simp: bool_u8_def nth_append)+
  with len dec sc show ?thesis
    by (auto simp: b decode_authenticated_input_event_def Let_def proto_consts buf_slice_def
        unat_of_nat_u16)
qed

lemma frame_roundtrip_aux:
  assumes "event_wf (fr_event f)"
  shows "frame_decode (frame_encode f) =
    (let n = length (encode_event_payload (fr_event f)) in
     if n < 65536 then Ok f else Err (PayloadLengthMismatch (n mod 65536) n))"
proof -
  let ?p = "encode_event_payload (fr_event f)"
  have n: "unat (of_nat (length ?p) :: u16) = length ?p mod 65536" by (simp add: unat_of_nat)
  have ne: "length ?p mod 65536 \<noteq> length ?p" if "\<not> length ?p < 65536"
  proof -
    have "length ?p mod 65536 < 65536" by simp
    with that show ?thesis by linarith
  qed
  show ?thesis
  proof (cases "length ?p < 65536")
    case True
    with decode_encode_payload [OF assms True] n show ?thesis
      by (simp add: frame_encode_def frame_decode_def Let_def proto_consts buf_slice_def)
  next
    case False
    with n ne show ?thesis
      by (simp add: frame_encode_def frame_decode_def Let_def proto_consts buf_slice_def)
  qed
qed

section \<open>The sequence tracker as a replay guard\<close>

definition seq_spent :: "seq_tracker \<Rightarrow> u32 set" where
  "seq_spent t = (case last_seq t of None \<Rightarrow> {} | Some prev \<Rightarrow> {..prev})"

interpretation seqt: at_most_once validate_and_update "\<lambda>seq. seq" seq_spent "\<lambda>_. True"
  by unfold_locales
     (auto simp: validate_and_update_def seq_spent_def Let_def split: option.splits if_splits)

lemma seq_tracker_increasing:
  "sorted_wrt (<) (fresh_keys validate_and_update (\<lambda>seq. seq) t seqs)"
proof (induction seqs arbitrary: t)
  case (Cons seq seqs)
  obtain t' b where v: "validate_and_update t seq = (t', b)" by (cases "validate_and_update t seq")
  show ?case
  proof (cases b)
    case True
    with v have "seq_spent t' = {..seq}"
      by (auto simp: validate_and_update_def seq_spent_def Let_def split: if_splits)
    with seqt.fresh_keys_unspent [of t' seqs] have "\<forall>k\<in>set (fresh_keys validate_and_update (\<lambda>s. s) t' seqs). seq < k"
      by (auto simp: disjoint_iff not_le)
    with Cons.IH [of t'] v True show ?thesis by simp
  next
    case False
    with Cons.IH [of t'] v show ?thesis by simp
  qed
qed simp

section \<open>Properties\<close>

text \<open>
  Frame round trip: a frame decodes to itself exactly when its event's payload fits the
  16-bit length field; a longer payload is encoded with its length truncated modulo 65536, and
  every receiver refuses that frame with a length mismatch.
\<close>

theorem frame_roundtrip:
  assumes "event_wf (fr_event f)"
  shows "frame_decode (frame_encode f) =
    (let n = length (encode_event_payload (fr_event f)) in
     if n < 65536 then Ok f else Err (PayloadLengthMismatch (n mod 65536) n))"
  by (rule frame_roundtrip_aux [OF assms])

theorem frame_roundtrip_witness:
  "frame_decode (frame_encode \<lparr>fr_flags = 0, fr_seq = 7, fr_ts_us = 9, fr_event = Key 65 True\<rparr>) =
     Ok \<lparr>fr_flags = 0, fr_seq = 7, fr_ts_us = 9, fr_event = Key 65 True\<rparr>"
  using frame_roundtrip [of "\<lparr>fr_flags = 0, fr_seq = 7, fr_ts_us = 9, fr_event = Key 65 True\<rparr>"]
  by simp

text \<open>
  C16. Authenticated input is canonical: a byte string decodes to an event exactly when it is
  that event's encoding, so the bytes a peer signs and the event the receiver injects determine
  each other; only pointer and keyboard events occur, in 5 to 12 bytes.
\<close>

theorem authenticated_input_canonical:
  "(decode_authenticated_input_event b = Ok e \<longleftrightarrow> encode_authenticated_input_event e = Ok b) \<and>
   (encode_authenticated_input_event e = Ok b \<longrightarrow>
      5 \<le> length b \<and> length b \<le> 12 \<and>
      event_type_of e \<in> {TMouseMove, TMouseButton, TMouseWheel, TMouseHorizontalWheel, TKey, TReleaseAll})"
proof -
  have "event_type_of e \<in> {TMouseMove, TMouseButton, TMouseWheel, TMouseHorizontalWheel, TKey, TReleaseAll}"
    if "authenticated_input_scope e = Ok sc" for sc
    using that by (cases e) auto
  then show ?thesis
    using authenticated_decode_encode authenticated_encode_decode authenticated_payload_length [of e]
    by (fastforce simp: encode_authenticated_Ok)
qed

theorem authenticated_input_canonical_witness:
  "decode_authenticated_input_event [2, 15, 0, 1, 2] = Ok (ReleaseAll ScopeKeyboard) \<and>
   5 \<le> length [2, 15, 0, 1, 2 :: u8]"
proof -
  have "encode_authenticated_input_event (ReleaseAll ScopeKeyboard) = Ok [2, 15, 0, 1, 2]"
    by (simp add: encode_authenticated_Ok wire_simps)
  with authenticated_input_canonical [of "[2, 15, 0, 1, 2]" "ReleaseAll ScopeKeyboard"]
  show ?thesis by blast
qed

text \<open>
  Whatever bytes arrive, a frame that is accepted holds a well-formed event (its path is
  valid UTF-8), and, except for mount requests, whose invalid paths are repaired and so may
  grow, re-encoding it gives a frame of the same size that decodes to the same frame.
\<close>

theorem frame_decode_stable:
  assumes "frame_decode buf = Ok f"
  shows "event_wf (fr_event f) \<and>
    (event_type_of (fr_event f) \<noteq> TFileMount \<longrightarrow>
       length (frame_encode f) = length buf \<and> frame_decode (frame_encode f) = Ok f)"
proof -
  from assms obtain t where len: "length buf = 17 + unat (u16_of_be (buf_slice 3 5 buf))"
    and dec: "decode_event_payload t (drop 17 buf) = Ok (fr_event f)"
    unfolding frame_decode_def proto_consts Let_def guard_Ok and_then_eq_Ok
    by (elim conjE exE) (rule that, auto)
  note wf = decode_payload_wf [OF dec]
  have "length (encode_event_payload (fr_event f)) = length (drop 17 buf)" if "t \<noteq> TFileMount"
    using decode_payload_length [OF dec that] .
  moreover have "length (drop 17 buf) < 65536" using len by simp
  moreover have "event_type_of (fr_event f) = t" by (rule decode_payload_type [OF dec])
  moreover have "length (frame_encode f) = 17 + length (encode_event_payload (fr_event f))"
    by (simp add: frame_encode_def Let_def)
  ultimately show ?thesis
    using wf len frame_roundtrip_aux [OF wf] by (auto simp: Let_def)
qed

theorem frame_decode_stable_witness:
  "frame_decode (frame_encode \<lparr>fr_flags = 1, fr_seq = 2, fr_ts_us = 3, fr_event = MouseButton 1 True\<rparr>)
   = Ok \<lparr>fr_flags = 1, fr_seq = 2, fr_ts_us = 3, fr_event = MouseButton 1 True\<rparr>"
proof -
  let ?f = "\<lparr>fr_flags = 1, fr_seq = 2, fr_ts_us = 3, fr_event = MouseButton 1 True\<rparr>"
  have "frame_decode [2, 2, 1, 0, 2, 0, 0, 0, 2, 0, 0, 0, 0, 0, 0, 0, 3, 1, 9] = Ok ?f"
    by (simp add: frame_decode_def proto_consts event_type_try_from_def buf_slice_def wire_simps
        expect_payload_len_def)
  from frame_decode_stable [OF this] show ?thesis by simp
qed

text \<open>
  Lossy decoding of a path: the result is always valid UTF-8, valid input is returned
  unchanged, and decoding the result again changes nothing.
\<close>

lemma lossy_path_valid:
  "utf8_valid (from_utf8_lossy bs) \<and> from_utf8_lossy (from_utf8_lossy bs) = from_utf8_lossy bs \<and>
   (from_utf8_lossy bs = bs \<longleftrightarrow> utf8_valid bs)"
  using utf8_valid_lossy [of bs] from_utf8_lossy_id from_utf8_lossy_id [OF utf8_valid_lossy]
  by metis

text \<open>
  The sequence tracker accepts a strictly increasing sequence of numbers, whatever order
  they arrive in, so no number is accepted twice.
\<close>

theorem seq_tracker_strict:
  "sorted_wrt (<) (fresh_keys validate_and_update (\<lambda>seq. seq) \<lparr>last_seq = None\<rparr> seqs) \<and>
   distinct (fresh_keys validate_and_update (\<lambda>seq. seq) \<lparr>last_seq = None\<rparr> seqs)"
  using seq_tracker_increasing seqt.distinct_fresh_keys by blast

end
