(* ===== verification/Device_Identity.thy ===== *)
theory Device_Identity
  imports Session_Grant
begin

text \<open>
  Device identity (\<open>crates/mrd-identity\<close>): context signatures, signed session intents and
  grants, key rotation proofs, the nonce replay window, short authentication strings and the
  unattended-access proof.  The cryptography (\<open>ring\<close>) and \<open>serde_json\<close> are outside the
  repository: they are the fields of the parameter \<open>crypto_suite\<close> and the parameter
  \<open>to_vec\<close>.
\<close>

section \<open>Parameters\<close>

text \<open>
  What the source calls of \<open>ring\<close>: parsing a PKCS#8 document, the public key of a pair,
  Ed25519 signing and verification, SHA-256, and HMAC-SHA-256 signing and verification.
\<close>

record 'kp crypto_suite =
  cr_from_pkcs8 :: "bytes \<Rightarrow> 'kp option"
  cr_public_key :: "'kp \<Rightarrow> bytes"
  cr_sign :: "'kp \<Rightarrow> bytes \<Rightarrow> bytes"
  cr_verify :: "bytes \<Rightarrow> bytes \<Rightarrow> bytes \<Rightarrow> bool"
  cr_sha256 :: "bytes \<Rightarrow> bytes"
  cr_hmac_sign :: "bytes \<Rightarrow> bytes \<Rightarrow> bytes"
  cr_hmac_verify :: "bytes \<Rightarrow> bytes \<Rightarrow> bytes \<Rightarrow> bool"

text \<open>Documented behaviour: a signature made by a key pair verifies under its public key.\<close>

definition signatures_verify :: "'kp crypto_suite \<Rightarrow> bool" where
  "signatures_verify cr \<longleftrightarrow> (\<forall>kp m. cr_verify cr (cr_public_key cr kp) m (cr_sign cr kp m))"

definition hmacs_verify :: "'kp crypto_suite \<Rightarrow> bool" where
  "hmacs_verify cr \<longleftrightarrow> (\<forall>k m t. cr_hmac_verify cr k m t \<longleftrightarrow> t = cr_hmac_sign cr k m)"

section \<open>Identities and contexts\<close>

datatype identity_error =
    KeyGeneration | InvalidPrivateKey | InvalidSignature | PayloadEncoding | PeerBindingMismatch

record device_identity =
  di_private_pkcs8 :: bytes
  di_public_key :: bytes
  di_key_id :: string

definition hex_digest :: "'kp crypto_suite \<Rightarrow> bytes \<Rightarrow> string" where
  "hex_digest cr bs = concat (map hex_byte (cr_sha256 cr bs))"

definition public_key_id :: "'kp crypto_suite \<Rightarrow> bytes \<Rightarrow> string" where
  "public_key_id cr public_key = hex_digest cr public_key"

definition identity_from_pkcs8 ::
  "'kp crypto_suite \<Rightarrow> bytes \<Rightarrow> (device_identity, identity_error) result" where
  "identity_from_pkcs8 cr bs =
     and_then (ok_or InvalidPrivateKey (cr_from_pkcs8 cr bs)) (\<lambda>pair.
       let public_key = cr_public_key cr pair in
       Ok \<lparr>di_private_pkcs8 = bs, di_public_key = public_key,
           di_key_id = public_key_id cr public_key\<rparr>)"

definition CONTEXT_SIGNATURE_PREFIX :: bytes where
  "CONTEXT_SIGNATURE_PREFIX = as_bytes ''MRD_CONTEXT_SIGNATURE_V1''"

definition contextual_bytes :: "string \<Rightarrow> bytes \<Rightarrow> (bytes, identity_error) result" where
  "contextual_bytes context payload =
     (if length context > 65535 then Err PayloadEncoding
      else if length payload > 18446744073709551615 then Err PayloadEncoding
      else if context = [] then Err PayloadEncoding
      else Ok (CONTEXT_SIGNATURE_PREFIX @ u16_be (of_nat (length context)) @ as_bytes context
               @ u64_be (of_nat (length payload)) @ payload))"

definition sign_domain_bytes ::
  "'kp crypto_suite \<Rightarrow> device_identity \<Rightarrow> bytes \<Rightarrow> (bytes, identity_error) result" where
  "sign_domain_bytes cr self bs =
     and_then (ok_or InvalidPrivateKey (cr_from_pkcs8 cr (di_private_pkcs8 self))) (\<lambda>pair.
       Ok (cr_sign cr pair bs))"

definition sign_context_bytes ::
  "'kp crypto_suite \<Rightarrow> device_identity \<Rightarrow> string \<Rightarrow> bytes \<Rightarrow> (bytes, identity_error) result" where
  "sign_context_bytes cr self context payload =
     and_then (contextual_bytes context payload) (sign_domain_bytes cr self)"

definition ed25519_verify ::
  "'kp crypto_suite \<Rightarrow> bytes \<Rightarrow> bytes \<Rightarrow> bytes \<Rightarrow> (unit, identity_error) result" where
  "ed25519_verify cr public_key bs sig =
     (if cr_verify cr public_key bs sig then Ok () else Err InvalidSignature)"

definition verify_context_bytes ::
  "'kp crypto_suite \<Rightarrow> bytes \<Rightarrow> string \<Rightarrow> bytes \<Rightarrow> bytes \<Rightarrow> (unit, identity_error) result" where
  "verify_context_bytes cr public_key context payload sig =
     and_then (contextual_bytes context payload) (\<lambda>bs. ed25519_verify cr public_key bs sig)"

section \<open>Signed intents, grants and rotations\<close>

record session_intent =
  in_session_id :: string
  in_controller_key_id :: string
  in_target_key_id :: string
  in_requested_scopes :: permission_scopes

record signed_session_intent =
  si_payload :: session_intent
  si_public_key :: bytes
  si_signature :: bytes

record signed_grant_payload =
  gp_session_id :: string
  gp_controller_public_key :: bytes
  gp_target_public_key :: bytes
  gp_nonce :: bytes

record signed_grant =
  gr_payload :: signed_grant_payload
  gr_controller_public_key :: bytes
  gr_signature :: bytes

record rotation_payload =
  rp_new_public_key :: bytes
  rp_epoch :: u64
  rp_old_public_key :: bytes

record rotation_proof =
  ro_new_public_key :: bytes
  ro_epoch :: u64
  ro_old_public_key :: bytes
  ro_signature :: bytes

datatype rotation_error =
    RotOldKeyRevoked | RotEpochNotIncreasing | RotInvalidSignature | RotPayloadEncoding

text \<open>The generic envelope of \<open>canonical_bytes\<close>, at the three types it is used with.\<close>

datatype canonical_payload =
    IntentPayload session_intent
  | GrantPayload signed_grant_payload
  | RotationPayload rotation_payload

record canonical_envelope =
  env_version :: u8
  env_domain :: string
  env_payload :: canonical_payload

definition canonical_bytes ::
  "(canonical_envelope \<Rightarrow> bytes option) \<Rightarrow> string \<Rightarrow> canonical_payload
   \<Rightarrow> (bytes, identity_error) result" where
  "canonical_bytes to_vec domain payload =
     ok_or PayloadEncoding
       (to_vec \<lparr>env_version = 1, env_domain = domain, env_payload = payload\<rparr>)"

definition sign_intent ::
  "'kp crypto_suite \<Rightarrow> (canonical_envelope \<Rightarrow> bytes option) \<Rightarrow> device_identity \<Rightarrow> session_intent
   \<Rightarrow> (signed_session_intent, identity_error) result" where
  "sign_intent cr to_vec self payload =
     and_then (canonical_bytes to_vec ''MRD_SESSION_INTENT_V1'' (IntentPayload payload)) (\<lambda>bs.
     and_then (sign_domain_bytes cr self bs) (\<lambda>sig.
       Ok \<lparr>si_payload = payload, si_public_key = di_public_key self, si_signature = sig\<rparr>))"

definition verify_intent ::
  "'kp crypto_suite \<Rightarrow> (canonical_envelope \<Rightarrow> bytes option) \<Rightarrow> signed_session_intent
   \<Rightarrow> (unit, identity_error) result" where
  "verify_intent cr to_vec self =
     and_then (canonical_bytes to_vec ''MRD_SESSION_INTENT_V1'' (IntentPayload (si_payload self)))
       (\<lambda>bs. ed25519_verify cr (si_public_key self) bs (si_signature self))"

definition sign_grant ::
  "'kp crypto_suite \<Rightarrow> (canonical_envelope \<Rightarrow> bytes option) \<Rightarrow> device_identity
   \<Rightarrow> signed_grant_payload \<Rightarrow> (signed_grant, identity_error) result" where
  "sign_grant cr to_vec self payload =
     and_then (canonical_bytes to_vec ''MRD_SESSION_GRANT_V1'' (GrantPayload payload)) (\<lambda>bs.
     and_then (sign_domain_bytes cr self bs) (\<lambda>sig.
       Ok \<lparr>gr_payload = payload, gr_controller_public_key = di_public_key self,
           gr_signature = sig\<rparr>))"

definition verify_grant_for ::
  "'kp crypto_suite \<Rightarrow> (canonical_envelope \<Rightarrow> bytes option) \<Rightarrow> signed_grant \<Rightarrow> bytes \<Rightarrow> bytes
   \<Rightarrow> (unit, identity_error) result" where
  "verify_grant_for cr to_vec self controller_public_key target_public_key =
     (if gr_controller_public_key self \<noteq> controller_public_key
        \<or> gp_controller_public_key (gr_payload self) \<noteq> controller_public_key
        \<or> gp_target_public_key (gr_payload self) \<noteq> target_public_key
      then Err PeerBindingMismatch
      else and_then (canonical_bytes to_vec ''MRD_SESSION_GRANT_V1'' (GrantPayload (gr_payload self)))
        (\<lambda>bs. ed25519_verify cr controller_public_key bs (gr_signature self)))"

definition sign_rotation ::
  "'kp crypto_suite \<Rightarrow> (canonical_envelope \<Rightarrow> bytes option) \<Rightarrow> device_identity \<Rightarrow> bytes \<Rightarrow> u64
   \<Rightarrow> (rotation_proof, identity_error) result" where
  "sign_rotation cr to_vec self new_public_key epoch =
     and_then (canonical_bytes to_vec ''MRD_KEY_ROTATION_V1'' (RotationPayload
         \<lparr>rp_new_public_key = new_public_key, rp_epoch = epoch,
          rp_old_public_key = di_public_key self\<rparr>)) (\<lambda>bs.
     and_then (sign_domain_bytes cr self bs) (\<lambda>sig.
       Ok \<lparr>ro_new_public_key = new_public_key, ro_epoch = epoch,
           ro_old_public_key = di_public_key self, ro_signature = sig\<rparr>))"

definition verify_rotation ::
  "'kp crypto_suite \<Rightarrow> (canonical_envelope \<Rightarrow> bytes option) \<Rightarrow> rotation_proof \<Rightarrow> bytes \<Rightarrow> u64
   \<Rightarrow> bool \<Rightarrow> (unit, rotation_error) result" where
  "verify_rotation cr to_vec self old_public_key current_epoch revoked =
     (if revoked then Err RotOldKeyRevoked
      else if ro_epoch self \<le> current_epoch then Err RotEpochNotIncreasing
      else if ro_old_public_key self \<noteq> old_public_key then Err RotInvalidSignature
      else and_then (map_err (\<lambda>_. RotInvalidSignature)
          (canonical_bytes to_vec ''MRD_KEY_ROTATION_V1'' (RotationPayload
            \<lparr>rp_new_public_key = ro_new_public_key self, rp_epoch = ro_epoch self,
             rp_old_public_key = ro_old_public_key self\<rparr>)))
        (\<lambda>bs. map_err (\<lambda>_. RotInvalidSignature)
           (ed25519_verify cr old_public_key bs (ro_signature self))))"

section \<open>Nonce replay window\<close>

datatype replay_error = DuplicateNonce | CounterRollback

record replay_window =
  rw_width :: u64
  rw_highest :: "u64 option"
  rw_nonces :: "bytes set"

definition rw_new :: "u64 \<Rightarrow> replay_window" where
  "rw_new width = \<lparr>rw_width = max width 1, rw_highest = None, rw_nonces = {}\<rparr>"

definition rw_accept ::
  "u64 \<Rightarrow> bytes \<Rightarrow> replay_window \<Rightarrow> replay_window \<times> (unit, replay_error) result" where
  "rw_accept counter nonce w =
     (if nonce \<in> rw_nonces w then (w, Err DuplicateNonce)
      else if (case rw_highest w of None \<Rightarrow> False
               | Some highest \<Rightarrow> counter < saturating_sub highest (rw_width w))
      then (w, Err CounterRollback)
      else if (case rw_highest w of None \<Rightarrow> False | Some highest \<Rightarrow> counter < highest)
      then (w, Err CounterRollback)
      else (w\<lparr>rw_highest := Some counter, rw_nonces := insert nonce (rw_nonces w)\<rparr>, Ok ()))"

section \<open>Short authentication strings and unattended access\<close>

definition zero_padded :: "nat \<Rightarrow> string \<Rightarrow> string" where
  "zero_padded width s = replicate (width - length s) (decimal_digit 0) @ s"

definition sas_code :: "'kp crypto_suite \<Rightarrow> bytes \<Rightarrow> string" where
  "sas_code cr transcript =
     (let digest = cr_sha256 cr (as_bytes ''MRD_SAS_V1'' @ transcript);
          number = u32_of_be (take 4 digest) mod 1000000
      in zero_padded 6 (decimal_string (unat number)))"

record unattended_credential =
  uc_secret :: bytes

definition unattended_input :: "bytes \<Rightarrow> bytes \<Rightarrow> bytes" where
  "unattended_input transcript nonce = as_bytes ''MRD_UNATTENDED_PROOF_V1'' @ transcript @ nonce"

definition unattended_from_secret :: "bytes \<Rightarrow> unattended_credential" where
  "unattended_from_secret secret = \<lparr>uc_secret = secret\<rparr>"

definition unattended_prove ::
  "'kp crypto_suite \<Rightarrow> unattended_credential \<Rightarrow> bytes \<Rightarrow> bytes \<Rightarrow> bytes" where
  "unattended_prove cr self transcript nonce =
     cr_hmac_sign cr (uc_secret self) (unattended_input transcript nonce)"

definition unattended_verify ::
  "'kp crypto_suite \<Rightarrow> unattended_credential \<Rightarrow> bytes \<Rightarrow> bytes \<Rightarrow> bytes \<Rightarrow> bool" where
  "unattended_verify cr self transcript nonce proof_bytes \<longleftrightarrow>
     cr_hmac_verify cr (uc_secret self) (unattended_input transcript nonce) proof_bytes"

section \<open>Lemmas\<close>

lemma contextual_bytes_Ok:
  "contextual_bytes context payload = Ok b \<longleftrightarrow>
     context \<noteq> [] \<and> length context < 65536 \<and> length payload < 18446744073709551616 \<and>
     b = CONTEXT_SIGNATURE_PREFIX @ (u16_be (of_nat (length context)) @ as_bytes context)
         @ (u64_be (of_nat (length payload)) @ payload)"
  by (auto simp: contextual_bytes_def)

lemma contextual_bytes_inject:
  assumes "contextual_bytes c p = Ok b" and "contextual_bytes c' p' = Ok b"
  shows "c = c' \<and> p = p'"
proof -
  from assms have len: "length c < 65536" "length c' < 65536"
      "length p < 18446744073709551616" "length p' < 18446744073709551616"
    and eq: "(u16_be (of_nat (length c)) @ as_bytes c) @ (u64_be (of_nat (length p)) @ p) =
      (u16_be (of_nat (length c')) @ as_bytes c') @ (u64_be (of_nat (length p')) @ p')"
    by (auto simp: contextual_bytes_Ok)
  from str16.enc_prefix [OF len(1,2) eq] bytes64.enc_inject [OF len(3,4)] show ?thesis by simp
qed

text \<open>An identity whose key document parses signs with the pair behind its public key.\<close>

lemma sign_domain_bytes_verifies:
  assumes "signatures_verify cr" and "identity_from_pkcs8 cr doc = Ok self"
  shows "\<exists>sig. sign_domain_bytes cr self bs = Ok sig \<and>
    ed25519_verify cr (di_public_key self) bs sig = Ok ()"
proof -
  from assms(2) obtain pair where "cr_from_pkcs8 cr doc = Some pair"
    "self = \<lparr>di_private_pkcs8 = doc, di_public_key = cr_public_key cr pair,
             di_key_id = public_key_id cr (cr_public_key cr pair)\<rparr>"
    by (auto simp: identity_from_pkcs8_def Let_def)
  with assms(1) show ?thesis
    by (simp add: sign_domain_bytes_def ed25519_verify_def signatures_verify_def)
qed

subsection \<open>Replay window\<close>

fun rw_offer :: "replay_window \<Rightarrow> u64 \<times> bytes \<Rightarrow> replay_window \<times> bool" where
  "rw_offer w (counter, nonce) = (case rw_accept counter nonce w of (w', r) \<Rightarrow> (w', r = Ok ()))"

interpretation rw: at_most_once rw_offer snd rw_nonces "\<lambda>_. True"
proof unfold_locales
  fix w w' :: replay_window and t :: "u64 \<times> bytes" and b
  obtain c n where t: "t = (c, n)" by (cases t)
  show "rw_offer w t = (w', True) \<Longrightarrow> snd t \<notin> rw_nonces w"
    "rw_offer w t = (w', True) \<Longrightarrow> snd t \<in> rw_nonces w'"
    "rw_offer w t = (w', b) \<Longrightarrow> rw_nonces w \<subseteq> rw_nonces w'"
    by (auto simp: t rw_accept_def split: if_splits option.splits)
qed simp

fun accepted_counters :: "replay_window \<Rightarrow> (u64 \<times> bytes) list \<Rightarrow> u64 list" where
  "accepted_counters w [] = []"
| "accepted_counters w ((counter, nonce) # ms) =
     (case rw_accept counter nonce w of
        (w', Ok _) \<Rightarrow> counter # accepted_counters w' ms
      | (w', Err _) \<Rightarrow> accepted_counters w' ms)"

lemma rw_accept_cases:
  "rw_accept counter nonce w =
     (if nonce \<in> rw_nonces w then (w, Err DuplicateNonce)
      else if (case rw_highest w of None \<Rightarrow> False | Some highest \<Rightarrow> counter < highest)
      then (w, Err CounterRollback)
      else (w\<lparr>rw_highest := Some counter, rw_nonces := insert nonce (rw_nonces w)\<rparr>, Ok ()))"
proof -
  have "counter < h" if "counter < saturating_sub h (rw_width w)" for h
    using that saturating_sub_le by (rule order.strict_trans2)
  then show ?thesis by (auto simp: rw_accept_def split: option.splits)
qed

lemma accepted_counters_sorted:
  "sorted (accepted_counters w ms) \<and>
   (\<forall>h. rw_highest w = Some h \<longrightarrow> (\<forall>c\<in>set (accepted_counters w ms). h \<le> c))"
proof (induction ms arbitrary: w)
  case (Cons m ms)
  obtain counter nonce where m: "m = (counter, nonce)" by (cases m)
  obtain w' r where acc: "rw_accept counter nonce w = (w', r)" by (cases "rw_accept counter nonce w")
  show ?case
  proof (cases r)
    case (Inl e)
    with acc have "w' = w" by (auto simp: rw_accept_cases split: if_splits)
    with Cons.IH [of w] acc Inl m show ?thesis by simp
  next
    case (Inr u)
    with acc have "rw_highest w' = Some counter" and "\<And>h. rw_highest w = Some h \<Longrightarrow> h \<le> counter"
      by (auto simp: rw_accept_cases not_less split: if_splits option.splits)
    with Cons.IH [of w'] acc Inr m show ?thesis by fastforce
  qed
qed simp

section \<open>Properties\<close>

text \<open>
  Context separation: the byte string a context signature covers determines both the
  context and the payload, so a signature made under one protocol context is never over the
  bytes of another context or of another payload.
\<close>

theorem context_signature_separation:
  assumes "contextual_bytes c p = Ok b" and "contextual_bytes c' p' = Ok b'"
    and "c \<noteq> c' \<or> p \<noteq> p'"
  shows "b \<noteq> b'"
  using assms contextual_bytes_inject by blast

theorem context_signature_separation_witness:
  "contextual_bytes ''a'' [98, 1] \<noteq> contextual_bytes ''ab'' [1]"
proof -
  obtain b b' where "contextual_bytes ''a'' [98, 1] = Ok b" "contextual_bytes ''ab'' [1] = Ok b'"
    by (simp add: contextual_bytes_def)
  with context_signature_separation [OF this] show ?thesis by simp
qed

text \<open>
  What an identity signs verifies: for an identity parsed from a key document, a context
  signature, a session intent and a rotation proof it makes are accepted by the matching
  verifier (a rotation at any earlier epoch while the old key is not revoked), and a grant is
  accepted for exactly the controller and target it names.
\<close>

theorem identity_sign_verify:
  assumes "signatures_verify cr" and "identity_from_pkcs8 cr doc = Ok self"
  shows
    "(sign_context_bytes cr self c p = Ok sig \<longrightarrow>
        verify_context_bytes cr (di_public_key self) c p sig = Ok ()) \<and>
     (sign_intent cr to_vec self ipl = Ok intent \<longrightarrow>
        si_payload intent = ipl \<and> verify_intent cr to_vec intent = Ok ()) \<and>
     (sign_rotation cr to_vec self new epoch = Ok pr \<and> current < epoch \<longrightarrow>
        verify_rotation cr to_vec pr (di_public_key self) current False = Ok ()) \<and>
     (sign_grant cr to_vec self gpl = Ok grant \<longrightarrow>
        (verify_grant_for cr to_vec grant ck tk = Ok () \<longleftrightarrow>
           ck = di_public_key self \<and> ck = gp_controller_public_key gpl \<and>
           tk = gp_target_public_key gpl))"
proof -
  have ver: "ed25519_verify cr (di_public_key self) bs s = Ok ()"
    if "sign_domain_bytes cr self bs = Ok s" for bs s
    using sign_domain_bytes_verifies [OF assms, of bs] that by auto
  show ?thesis
    by (auto simp: sign_context_bytes_def verify_context_bytes_def sign_intent_def verify_intent_def
        sign_rotation_def verify_rotation_def sign_grant_def verify_grant_for_def dest: ver)
qed

definition sample_suite :: "bytes crypto_suite" where
  "sample_suite =
     \<lparr>cr_from_pkcs8 = (\<lambda>doc. if doc = [] then None else Some doc), cr_public_key = rev,
      cr_sign = (\<lambda>kp m. rev kp @ m), cr_verify = (\<lambda>pk m s. s = pk @ m),
      cr_sha256 = (\<lambda>m. take 32 (m @ replicate 32 0)),
      cr_hmac_sign = (\<lambda>k m. k @ m), cr_hmac_verify = (\<lambda>k m t. t = k @ m)\<rparr>"

theorem identity_sign_verify_witness:
  "\<exists>self sig. identity_from_pkcs8 sample_suite [1, 2] = Ok self \<and>
     sign_context_bytes sample_suite self ''ctx'' [7] = Ok sig \<and>
     verify_context_bytes sample_suite (di_public_key self) ''ctx'' [7] sig = Ok ()"
proof -
  obtain self where self: "identity_from_pkcs8 sample_suite [1, 2] = Ok self"
    and doc: "di_private_pkcs8 self = [1, 2]"
    by (simp add: identity_from_pkcs8_def sample_suite_def Let_def)
  obtain sig where sig: "sign_context_bytes sample_suite self ''ctx'' [7] = Ok sig"
    by (simp add: sign_context_bytes_def contextual_bytes_def sign_domain_bytes_def doc
        sample_suite_def)
  have "signatures_verify sample_suite" by (simp add: signatures_verify_def sample_suite_def)
  from identity_sign_verify [OF this self] sig self show ?thesis by blast
qed

text \<open>
  A rotation proof is accepted only for the key it replaces, only while that key is not
  revoked and only for a strictly larger epoch, with a signature of the old key over the new
  key and the epoch; once its epoch is the current one the same proof is refused.
\<close>

theorem rotation_not_replayable:
  assumes "verify_rotation cr to_vec pr old current revoked = Ok ()"
  shows "\<not> revoked \<and> current < ro_epoch pr \<and> ro_old_public_key pr = old \<and>
    (\<exists>bs. to_vec \<lparr>env_version = 1, env_domain = ''MRD_KEY_ROTATION_V1'',
             env_payload = RotationPayload \<lparr>rp_new_public_key = ro_new_public_key pr,
               rp_epoch = ro_epoch pr, rp_old_public_key = old\<rparr>\<rparr> = Some bs \<and>
           cr_verify cr old bs (ro_signature pr)) \<and>
    (ro_epoch pr \<le> later \<longrightarrow>
       verify_rotation cr to_vec pr key later False = Err RotEpochNotIncreasing)"
  using assms
  by (auto simp: verify_rotation_def canonical_bytes_def ed25519_verify_def not_le split: if_splits)

theorem rotation_not_replayable_witness:
  "let pr = \<lparr>ro_new_public_key = [5], ro_epoch = 3, ro_old_public_key = [9], ro_signature = [9, 1]\<rparr>
   in verify_rotation sample_suite (\<lambda>_. Some [1]) pr [9] 2 False = Ok () \<and>
      verify_rotation sample_suite (\<lambda>_. Some [1]) pr [9] 3 False = Err RotEpochNotIncreasing"
proof -
  let ?pr = "\<lparr>ro_new_public_key = [5], ro_epoch = 3, ro_old_public_key = [9], ro_signature = [9, 1]\<rparr>"
  have "verify_rotation sample_suite (\<lambda>_. Some [1]) ?pr [9] 2 False = Ok ()"
    by (simp add: verify_rotation_def canonical_bytes_def ed25519_verify_def sample_suite_def)
  with rotation_not_replayable [OF this, of 3 "[9]"] show ?thesis by (simp add: Let_def)
qed

text \<open>
  The nonce window accepts no nonce twice and its accepted counters never decrease,
  whatever order messages arrive in; the configured width has no influence on any answer,
  because every counter below the highest one is refused.
\<close>

theorem replay_window_monotone:
  "distinct (fresh_keys rw_offer snd (rw_new width) ms) \<and>
   sorted (accepted_counters (rw_new width) ms) \<and>
   snd (rw_accept counter nonce w) = snd (rw_accept counter nonce (w\<lparr>rw_width := other\<rparr>))"
  using rw.distinct_fresh_keys accepted_counters_sorted by (simp add: rw_accept_cases)

text \<open>
  A short authentication string is always six decimal digits, and read as a number it is
  the first 32 bits of the domain-separated digest modulo one million.
\<close>

theorem sas_code_six_digits:
  "length (sas_code cr transcript) = 6 \<and>
   set (sas_code cr transcript) \<subseteq> decimal_digit ` {..<10} \<and>
   decimal_value (sas_code cr transcript) =
     unat (u32_of_be (take 4 (cr_sha256 cr (as_bytes ''MRD_SAS_V1'' @ transcript)))) mod 1000000"
proof -
  let ?n = "unat (u32_of_be (take 4 (cr_sha256 cr (as_bytes ''MRD_SAS_V1'' @ transcript))) mod 1000000)"
  have n: "?n = unat (u32_of_be (take 4 (cr_sha256 cr (as_bytes ''MRD_SAS_V1'' @ transcript)))) mod 1000000"
    by (simp add: unat_mod)
  then have "?n < 10 ^ 6" by simp
  then have "length (decimal_string ?n) \<le> 6" by (rule length_decimal_string [rotated]) simp
  moreover have "decimal_digit 0 \<in> decimal_digit ` {..<10}" by simp
  ultimately show ?thesis
    using decimal_digits [of ?n] decimal_value_string [of _ ?n] n
    by (auto simp: sas_code_def zero_padded_def Let_def)
qed

text \<open>
  Unattended access: a proof verifies for exactly the credential holder's transcript and
  nonce bytes, that is, verification accepts precisely the proof the credential makes, and the
  authenticated input determines transcript and nonce, the nonce having its fixed 16 bytes.
\<close>

theorem unattended_proof_exact:
  assumes "hmacs_verify cr" and "length nonce = 16" and "length nonce' = 16"
  shows "(unattended_verify cr cred transcript nonce pf \<longleftrightarrow>
      pf = unattended_prove cr cred transcript nonce) \<and>
    (unattended_input transcript nonce = unattended_input transcript' nonce' \<longleftrightarrow>
       transcript = transcript' \<and> nonce = nonce')"
  using assms
  by (auto simp: hmacs_verify_def unattended_verify_def unattended_prove_def unattended_input_def)

theorem unattended_proof_exact_witness:
  "unattended_verify sample_suite (unattended_from_secret [1]) [2] (replicate 16 3)
     (unattended_prove sample_suite (unattended_from_secret [1]) [2] (replicate 16 3))"
proof -
  have "hmacs_verify sample_suite" by (simp add: hmacs_verify_def sample_suite_def)
  from unattended_proof_exact [OF this, of "replicate 16 3" "replicate 16 3"] show ?thesis by simp
qed

text \<open>Two keys share an identifier exactly when they share a digest.\<close>

lemma key_id_exact:
  "length (public_key_id cr k) = 2 * length (cr_sha256 cr k) \<and>
   (public_key_id cr k = public_key_id cr k' \<longleftrightarrow> cr_sha256 cr k = cr_sha256 cr k')"
  by (simp add: public_key_id_def hex_digest_def length_hex hex_string_inject)

end
