(* ===== verification/File_Transfer.thy ===== *)
theory File_Transfer
  imports Mrd_Prelude
begin

text \<open>
  Bounded, resumable file transfer (\<open>crates/mrd-file-transfer\<close>): validation of the path a
  peer supplies, resolution under an approved root, transfer manifests, chunking, the resume
  cursor and the final commit.  The digest (crate \<open>sha2\<close>) is the parameter \<open>sha\<close>; the file
  system is an explicit state, and which of its calls fail is a parameter.
\<close>

section \<open>Paths\<close>

datatype path_validation_error =
    PathRejected string | RootUnavailable | EscapesRoot | Symlink

text \<open>
  \<open>std::path::Path::components\<close>.  \<open>windows\<close> selects the platform: there the backslash is a
  separator too and a drive letter is a prefix.  The prefixes that start with a separator are
  not reached, because such a path is refused before it is split.
\<close>

datatype path_component = CPrefix | CRootDir | CCurDir | CParentDir | CNormal string

definition is_separator :: "bool \<Rightarrow> char \<Rightarrow> bool" where
  "is_separator windows c \<longleftrightarrow> c = CHR ''/'' \<or> (windows \<and> c = CHR 0x5C)"

fun split_on :: "(char \<Rightarrow> bool) \<Rightarrow> string \<Rightarrow> string list" where
  "split_on P [] = [[]]"
| "split_on P (c # s) =
     (if P c then [] # split_on P s
      else case split_on P s of [] \<Rightarrow> [[c]] | w # ws \<Rightarrow> (c # w) # ws)"

definition segment_component :: "string \<Rightarrow> path_component option" where
  "segment_component seg =
     (if seg = [] \<or> seg = ''.'' then None
      else if seg = ''..'' then Some CParentDir else Some (CNormal seg))"

definition ascii_letter :: "char \<Rightarrow> bool" where
  "ascii_letter c \<longleftrightarrow> (char_between (CHR ''a'') c (CHR ''z'')) \<or> (char_between (CHR ''A'') c (CHR ''Z''))"

definition has_drive :: "string \<Rightarrow> bool" where
  "has_drive s \<longleftrightarrow> 2 \<le> length s \<and> ascii_letter (s ! 0) \<and> s ! 1 = CHR '':''"

definition body_components :: "bool \<Rightarrow> string \<Rightarrow> path_component list" where
  "body_components windows s =
     (let segs = split_on (is_separator windows) s;
          rooted = (s \<noteq> [] \<and> is_separator windows (hd s))
      in (if rooted then [CRootDir] else if hd segs = ''.'' then [CCurDir] else [])
         @ List.map_filter segment_component segs)"

definition path_components :: "bool \<Rightarrow> string \<Rightarrow> path_component list" where
  "path_components windows s =
     (if windows \<and> has_drive s then CPrefix # body_components windows (drop 2 s)
      else body_components windows s)"

definition ascii_uppercase :: "char \<Rightarrow> char" where
  "ascii_uppercase c =
     (if char_between (CHR ''a'') c (CHR ''z'') then char_of (byte_at c - 32) else c)"

definition ascii_digit :: "char \<Rightarrow> bool" where
  "ascii_digit c \<longleftrightarrow> char_between (CHR ''0'') c (CHR ''9'')"

definition is_reserved_windows_name :: "string \<Rightarrow> bool" where
  "is_reserved_windows_name value =
     (let stem = map ascii_uppercase (takeWhile (\<lambda>c. c \<noteq> CHR ''.'') value) in
      stem \<in> {''CON'', ''PRN'', ''AUX'', ''NUL''} \<or>
      (length stem = 4 \<and> (take 3 stem = ''COM'' \<or> take 3 stem = ''LPT'') \<and>
       list_all ascii_digit (drop 3 stem)))"

definition component_rejected :: "string \<Rightarrow> bool" where
  "component_rejected value \<longleftrightarrow>
     value = [] \<or> value = ''.'' \<or> value = ''..'' \<or>
     last value = CHR ''.'' \<or> last value = CHR '' '' \<or> CHR '':'' \<in> set value \<or>
     has_control value \<or> (\<exists>c\<in>set value. c \<in> set [CHR ''<'', CHR ''>'', CHR 0x22, CHR ''|'', CHR ''?'', CHR ''*'']) \<or>
     is_reserved_windows_name value"

fun validate_components :: "path_component list \<Rightarrow> (string list, path_validation_error) result" where
  "validate_components [] = Ok []"
| "validate_components (CNormal value # cs) =
     (if component_rejected value then Err (PathRejected value)
      else and_then (validate_components cs) (\<lambda>parts. Ok (value # parts)))"
| "validate_components (_ # cs) = Err (PathRejected ''parent or prefix component'')"

fun join_slash :: "string list \<Rightarrow> string" where
  "join_slash [] = []"
| "join_slash [p] = p"
| "join_slash (p # q # ps) = p @ CHR ''/'' # join_slash (q # ps)"

definition validate_relative_path ::
  "bool \<Rightarrow> string \<Rightarrow> (string, path_validation_error) result" where
  "validate_relative_path windows path0 =
     (let path = trim path0 in
      if path = [] \<or> hd path = CHR ''/'' \<or> hd path = CHR 0x5C
      then Err (PathRejected ''absolute or empty path'')
      else and_then (validate_components (path_components windows path)) (\<lambda>parts.
        if parts = [] then Err (PathRejected ''empty path'') else Ok (join_slash parts)))"

text \<open>
  The file system as \<open>resolve_under_root\<close> sees it: an absolute path is its list of
  components.  \<open>fs_canonicalize\<close> and \<open>fs_exists\<close> (\<open>Path::exists\<close>) follow symbolic links, so a link
  whose target does not exist counts as not existing; \<open>fs_is_symlink\<close> is the answer of
  \<open>symlink_metadata\<close>, which does not follow the last component.
\<close>

type_synonym abs_path = "string list"

record file_system_view =
  fs_canonicalize :: "abs_path \<Rightarrow> abs_path option"
  fs_exists :: "abs_path \<Rightarrow> bool"
  fs_is_symlink :: "abs_path \<Rightarrow> bool option"

definition path_starts_with :: "abs_path \<Rightarrow> abs_path \<Rightarrow> bool" where
  "path_starts_with p root \<longleftrightarrow> take (length root) p = root"

fun check_symlinks ::
  "file_system_view \<Rightarrow> abs_path \<Rightarrow> string list \<Rightarrow> (unit, path_validation_error) result" where
  "check_symlinks fs current [] = Ok ()"
| "check_symlinks fs current (c # cs) =
     (let current = current @ [c] in
      if fs_exists fs current then
        (case fs_is_symlink fs current of
           None \<Rightarrow> Err RootUnavailable
         | Some True \<Rightarrow> Err Symlink
         | Some False \<Rightarrow> check_symlinks fs current cs)
      else check_symlinks fs current cs)"

definition resolve_under_root ::
  "bool \<Rightarrow> file_system_view \<Rightarrow> abs_path \<Rightarrow> string \<Rightarrow> (abs_path, path_validation_error) result" where
  "resolve_under_root windows fs root0 relative0 =
     and_then (validate_relative_path windows relative0) (\<lambda>relative.
     and_then (ok_or RootUnavailable (fs_canonicalize fs root0)) (\<lambda>root.
       let parts = split_on (\<lambda>c. c = CHR ''/'') relative; target = root @ parts in
       and_then (check_symlinks fs root parts) (\<lambda>_.
         case fs_canonicalize fs target of
           Some canonical \<Rightarrow> if \<not> path_starts_with canonical root then Err EscapesRoot else Ok target
         | None \<Rightarrow>
             (case fs_canonicalize fs (butlast target) of
                Some parent \<Rightarrow> if \<not> path_starts_with parent root then Err EscapesRoot else Ok target
              | None \<Rightarrow> Ok target))))"

section \<open>Manifests\<close>

definition MAX_CHUNK_SIZE :: u32 where "MAX_CHUNK_SIZE = 1048576"
definition MAX_TRANSFER_SIZE :: u64 where "MAX_TRANSFER_SIZE = 1099511627776"

datatype file_direction = Upload | Download
datatype transfer_provider = RemoteProvider | LocalProvider | ExternalProvider
datatype conflict_policy = RejectExisting | ReplaceExisting | RenameNew

record file_transfer_manifest =
  tm_transfer_id :: string
  tm_session_id :: string
  tm_direction :: file_direction
  tm_provider :: transfer_provider
  tm_relative_path :: string
  tm_size_bytes :: u64
  tm_chunk_size :: u32
  tm_file_sha256 :: string
  tm_conflict_policy :: conflict_policy

datatype manifest_error =
    InvalidIdentifier | InvalidPath path_validation_error | InvalidChunkSize | TransferTooLarge
  | InvalidHash

definition lower_hex :: "char \<Rightarrow> bool" where
  "lower_hex c \<longleftrightarrow> ascii_digit c \<or> (char_between (CHR ''a'') c (CHR ''f''))"

definition manifest_new ::
  "bool \<Rightarrow> string \<Rightarrow> string \<Rightarrow> file_direction \<Rightarrow> string \<Rightarrow> u64 \<Rightarrow> u32 \<Rightarrow> string
   \<Rightarrow> (file_transfer_manifest, manifest_error) result" where
  "manifest_new windows transfer_id session_id direction relative_path size_bytes chunk_size file_sha256 =
     (if trim transfer_id = [] \<or> trim session_id = [] \<or> length transfer_id > 128
        \<or> length session_id > 128
      then Err InvalidIdentifier
      else and_then (map_err InvalidPath (validate_relative_path windows relative_path)) (\<lambda>path.
        if chunk_size = 0 \<or> chunk_size > MAX_CHUNK_SIZE then Err InvalidChunkSize
        else if size_bytes > MAX_TRANSFER_SIZE then Err TransferTooLarge
        else if length file_sha256 \<noteq> 64 \<or> \<not> list_all lower_hex file_sha256 then Err InvalidHash
        else Ok \<lparr>tm_transfer_id = transfer_id, tm_session_id = session_id,
                 tm_direction = direction, tm_provider = RemoteProvider,
                 tm_relative_path = path, tm_size_bytes = size_bytes,
                 tm_chunk_size = chunk_size, tm_file_sha256 = file_sha256,
                 tm_conflict_policy = RejectExisting\<rparr>))"

section \<open>Chunks\<close>

record file_chunk =
  fc_transfer_id :: string
  fc_offset :: u64
  fc_payload :: bytes
  fc_sha256 :: string

datatype chunk_error = ChunkInvalidSize | ChunkOversized | ChunkHashMismatch

datatype file_bulk_message =
    BulkManifest file_transfer_manifest
  | BulkChunk file_chunk
  | BulkAck string u64
  | BulkCancel string string

fun bulk_transfer_id :: "file_bulk_message \<Rightarrow> string" where
  "bulk_transfer_id (BulkManifest m) = tm_transfer_id m"
| "bulk_transfer_id (BulkChunk c) = fc_transfer_id c"
| "bulk_transfer_id (BulkAck i _) = i"
| "bulk_transfer_id (BulkCancel i _) = i"

definition sha256_hex :: "(bytes \<Rightarrow> bytes) \<Rightarrow> bytes \<Rightarrow> string" where
  "sha256_hex sha bs = concat (map hex_byte (sha bs))"

text \<open>\<open>slice::chunks\<close>, and the chunks of a buffer with their offsets.\<close>

function slice_chunks :: "nat \<Rightarrow> bytes \<Rightarrow> bytes list" where
  "slice_chunks n bs =
     (if bs = [] \<or> n = 0 then [] else take n bs # slice_chunks n (drop n bs))"
  by pat_completeness auto
termination by (relation "measure (\<lambda>(n, bs). length bs)") auto

declare slice_chunks.simps [simp del]

definition chunk_bytes ::
  "(bytes \<Rightarrow> bytes) \<Rightarrow> bytes \<Rightarrow> u32 \<Rightarrow> (file_chunk list, chunk_error) result" where
  "chunk_bytes sha bs chunk_size =
     (if chunk_size = 0 \<or> chunk_size > MAX_CHUNK_SIZE then Err ChunkInvalidSize
      else Ok (map (\<lambda>(index, payload).
             \<lparr>fc_transfer_id = [], fc_offset = of_nat (index * unat chunk_size),
              fc_payload = payload, fc_sha256 = sha256_hex sha payload\<rparr>)
           (List.enumerate 0 (slice_chunks (unat chunk_size) bs))))"

definition verify_chunk :: "(bytes \<Rightarrow> bytes) \<Rightarrow> file_chunk \<Rightarrow> (unit, chunk_error) result" where
  "verify_chunk sha c =
     (if length (fc_payload c) > unat MAX_CHUNK_SIZE then Err ChunkOversized
      else if sha256_hex sha (fc_payload c) \<noteq> fc_sha256 c then Err ChunkHashMismatch
      else Ok ())"

section \<open>Resume cursor\<close>

datatype resume_error =
    NonContiguous | OutOfBounds | ManifestMismatch | FinalHashMismatch | Commit

record resume_state =
  rsm_transfer_id :: string
  rsm_file_sha256 :: string
  rsm_expected_offset :: u64
  rsm_size_bytes :: u64

definition resume_new :: "file_transfer_manifest \<Rightarrow> resume_state" where
  "resume_new m =
     \<lparr>rsm_transfer_id = tm_transfer_id m, rsm_file_sha256 = tm_file_sha256 m,
      rsm_expected_offset = 0, rsm_size_bytes = tm_size_bytes m\<rparr>"

definition next_offset :: "resume_state \<Rightarrow> u64" where
  "next_offset s = rsm_expected_offset s"

definition completed_bytes :: "resume_state \<Rightarrow> u64" where
  "completed_bytes s = rsm_expected_offset s"

definition accept_offset ::
  "u64 \<Rightarrow> u64 \<Rightarrow> file_transfer_manifest \<Rightarrow> resume_state
   \<Rightarrow> resume_state \<times> (u64, resume_error) result" where
  "accept_offset offset len m s =
     (if rsm_transfer_id s \<noteq> tm_transfer_id m \<or> rsm_file_sha256 s \<noteq> tm_file_sha256 m
      then (s, Err ManifestMismatch)
      else if offset \<noteq> rsm_expected_offset s \<or> len > ucast (tm_chunk_size m)
        \<or> saturating_add offset len > rsm_size_bytes s
      then (s, Err (if offset \<noteq> rsm_expected_offset s then NonContiguous else OutOfBounds))
      else let s' = s\<lparr>rsm_expected_offset := saturating_add (rsm_expected_offset s) len\<rparr>
           in (s', Ok (rsm_expected_offset s')))"

definition accept_chunk ::
  "(bytes \<Rightarrow> bytes) \<Rightarrow> file_chunk \<Rightarrow> file_transfer_manifest \<Rightarrow> resume_state
   \<Rightarrow> resume_state \<times> (u64, resume_error) result" where
  "accept_chunk sha c m s =
     (if rsm_transfer_id s \<noteq> tm_transfer_id m \<or> rsm_file_sha256 s \<noteq> tm_file_sha256 m
        \<or> fc_transfer_id c \<noteq> tm_transfer_id m
      then (s, Err ManifestMismatch)
      else case verify_chunk sha c of
        Err _ \<Rightarrow> (s, Err OutOfBounds)
      | Ok _ \<Rightarrow> accept_offset (fc_offset c) (of_nat (length (fc_payload c))) m s)"

section \<open>Commit\<close>

text \<open>
  The files are a map from absolute paths to contents; \<open>fails\<close> says which call of the
  operating system fails.  Creating directories does not change the files.  \<open>windows\<close>
  compiles the removal of an existing destination in.
\<close>

datatype commit_call = CallRead | CallCreateDir | CallRemove | CallRename

type_synonym files = "abs_path \<rightharpoonup> bytes"

definition atomic_commit ::
  "bool \<Rightarrow> (commit_call \<Rightarrow> bool) \<Rightarrow> (bytes \<Rightarrow> bytes) \<Rightarrow> abs_path \<Rightarrow> abs_path \<Rightarrow> string \<Rightarrow> files
   \<Rightarrow> files \<times> (unit, resume_error) result" where
  "atomic_commit windows fails sha temp destination expected_sha256 fs =
     (case (if fails CallRead then None else fs temp) of
        None \<Rightarrow> (fs, Err Commit)
      | Some bs \<Rightarrow>
          if sha256_hex sha bs \<noteq> expected_sha256 then (fs, Err FinalHashMismatch)
          else if destination = [] then (fs, Err Commit)
          else if fails CallCreateDir then (fs, Err Commit)
          else if windows \<and> fs destination \<noteq> None \<and> fails CallRemove then (fs, Err Commit)
          else let fs1 = (if windows \<and> fs destination \<noteq> None then fs(destination := None) else fs) in
            if fails CallRename \<or> fs1 temp = None then (fs1, Err Commit)
            else ((fs1(temp := None))(destination := fs1 temp), Ok ()))"

section \<open>Lemmas on paths\<close>

lemma split_on_ne [simp]: "split_on P s \<noteq> []"
  by (induction s) (auto split: list.splits)

lemma split_on_segments: "w \<in> set (split_on P s) \<Longrightarrow> c \<in> set w \<Longrightarrow> \<not> P c"
proof (induction s arbitrary: w)
  case (Cons a s)
  then show ?case
    by (cases "split_on P s") (fastforce split: if_splits)+
qed simp

lemma split_on_single: "\<forall>c\<in>set w. \<not> P c \<Longrightarrow> split_on P w = [w]"
  by (induction w) auto

lemma split_on_append: "\<forall>c\<in>set w. \<not> P c \<Longrightarrow> P d \<Longrightarrow> split_on P (w @ d # s) = w # split_on P s"
  by (induction w) auto

lemma split_on_hd: "s \<noteq> [] \<Longrightarrow> \<not> P (hd s) \<Longrightarrow> \<exists>w. hd (split_on P s) = hd s # w"
  by (cases s; cases "split_on P (tl s)") auto

lemma split_on_join:
  "parts \<noteq> [] \<Longrightarrow> P (CHR ''/'') \<Longrightarrow> \<forall>p\<in>set parts. \<forall>c\<in>set p. \<not> P c \<Longrightarrow>
   split_on P (join_slash parts) = parts"
  by (induction parts rule: join_slash.induct) (simp_all add: split_on_single split_on_append)

lemma set_join_slash: "set (join_slash parts) \<subseteq> insert (CHR ''/'') (\<Union> (set ` set parts))"
  by (induction parts rule: join_slash.induct) auto

lemma hd_join_slash: "parts \<noteq> [] \<Longrightarrow> hd parts \<noteq> [] \<Longrightarrow> join_slash parts \<noteq> [] \<and> hd (join_slash parts) = hd (hd parts)"
  by (cases parts rule: join_slash.cases) auto

lemma validate_components_Ok:
  "validate_components cs = Ok parts \<longleftrightarrow>
     cs = map CNormal parts \<and> list_all (\<lambda>p. \<not> component_rejected p) parts"
proof (induction cs arbitrary: parts rule: validate_components.induct)
  case (2 v cs)
  then show ?case by (cases parts) auto
qed (auto simp: map_eq_Cons_conv Cons_eq_map_conv)

lemma map_filter_segments:
  "List.map_filter segment_component segs = map CNormal parts \<Longrightarrow> set parts \<subseteq> set segs"
proof
  fix p
  assume eq: "List.map_filter segment_component segs = map CNormal parts" and p: "p \<in> set parts"
  have "CNormal p \<in> set (List.map_filter segment_component segs)" using p by (simp add: eq)
  then show "p \<in> set segs"
    by (auto simp: List.map_filter_def segment_component_def split: if_splits)
qed

lemma body_components_normal:
  assumes "body_components windows s = map CNormal parts" and "s \<noteq> []"
  shows "\<not> is_separator windows (hd s)" and "hd (split_on (is_separator windows) s) \<noteq> ''.''"
    and "List.map_filter segment_component (split_on (is_separator windows) s) = map CNormal parts"
  using assms by (cases parts; auto simp: body_components_def Let_def split: if_splits)+

lemma component_not_special:
  "\<not> component_rejected p \<Longrightarrow> segment_component p = Some (CNormal p) \<and> p \<noteq> [] \<and> p \<noteq> ''.'' \<and> CHR '':'' \<notin> set p"
  by (auto simp: component_rejected_def segment_component_def)

lemma map_filter_parts:
  "list_all (\<lambda>p. \<not> component_rejected p) parts \<Longrightarrow>
   List.map_filter segment_component parts = map CNormal parts"
  by (induction parts) (auto simp: List.map_filter_simps dest: component_not_special)

text \<open>What a validated path is: safe components, joined by slashes.\<close>

lemma validate_relative_path_parts:
  assumes "validate_relative_path windows path = Ok q"
  obtains parts where "q = join_slash parts" "parts \<noteq> []"
    "list_all (\<lambda>p. \<not> component_rejected p) parts"
    "\<forall>p\<in>set parts. \<forall>c\<in>set p. \<not> is_separator windows c"
    "hd (hd parts) = hd (trim path)" "hd (trim path) \<noteq> CHR 0x5C"
proof -
  let ?s = "trim path" and ?P = "is_separator windows"
  from assms obtain parts where ne: "?s \<noteq> []" "hd ?s \<noteq> CHR ''/''" "hd ?s \<noteq> CHR 0x5C"
    and v: "validate_components (path_components windows ?s) = Ok parts"
    and parts: "parts \<noteq> []" "q = join_slash parts"
    by (auto simp: validate_relative_path_def Let_def split: if_splits)
  from v have cs: "path_components windows ?s = map CNormal parts"
    and safe: "list_all (\<lambda>p. \<not> component_rejected p) parts"
    by (auto simp: validate_components_Ok)
  have body: "body_components windows ?s = map CNormal parts"
    using cs parts(1) by (cases parts) (auto simp: path_components_def split: if_splits)
  note b = body_components_normal [OF body ne(1)]
  obtain w where w: "hd (split_on ?P ?s) = hd ?s # w" using split_on_hd [of ?s ?P] ne(1) b(1) by blast
  then obtain segs where segs: "split_on ?P ?s = (hd ?s # w) # segs"
    by (cases "split_on ?P ?s") auto
  have "hd parts = hd ?s # w"
    using b(2,3) segs parts(1)
    by (cases parts) (auto simp: List.map_filter_simps segment_component_def split: if_splits)
  moreover have "\<forall>p\<in>set parts. \<forall>c\<in>set p. \<not> ?P c"
    using map_filter_segments [OF b(3)] split_on_segments [of _ ?P ?s] by blast
  ultimately show thesis using that [of parts] parts safe ne(3) by simp
qed

lemma check_symlinks_Ok:
  "check_symlinks fs cur cs = Ok () \<longleftrightarrow>
   (\<forall>k. 0 < k \<and> k \<le> length cs \<and> fs_exists fs (cur @ take k cs) \<longrightarrow> fs_is_symlink fs (cur @ take k cs) = Some False)"
proof (induction cs arbitrary: cur)
  case (Cons c cs)
  let ?P = "\<lambda>cur k. fs_exists fs (cur @ take k cs) \<longrightarrow> fs_is_symlink fs (cur @ take k cs) = Some False"
  have "(\<forall>k. 0 < k \<and> k \<le> length (c # cs) \<and> fs_exists fs (cur @ take k (c # cs)) \<longrightarrow>
      fs_is_symlink fs (cur @ take k (c # cs)) = Some False) \<longleftrightarrow>
    (\<forall>j \<le> length cs. ?P (cur @ [c]) j)" (is "?L \<longleftrightarrow> ?R")
  proof
    assume l: ?L
    show ?R
    proof (intro allI impI)
      fix j assume "j \<le> length cs" "fs_exists fs ((cur @ [c]) @ take j cs)"
      then show "fs_is_symlink fs ((cur @ [c]) @ take j cs) = Some False" using l [rule_format, of "Suc j"] by simp
    qed
  next
    assume r: ?R
    show ?L
    proof (intro allI impI)
      fix k assume k: "0 < k \<and> k \<le> length (c # cs) \<and> fs_exists fs (cur @ take k (c # cs))"
      then obtain j where "k = Suc j" by (cases k) auto
      with k r show "fs_is_symlink fs (cur @ take k (c # cs)) = Some False" by simp
    qed
  qed
  also have "\<dots> \<longleftrightarrow> ?P (cur @ [c]) 0 \<and> (\<forall>k. 0 < k \<and> k \<le> length cs \<longrightarrow> ?P (cur @ [c]) k)" by (metis gr0I le0)
  finally show ?case using Cons.IH [of "cur @ [c]"]
    by (auto simp: Let_def split: option.splits bool.splits)
qed simp

text \<open>
  What the standard library documents of \<open>canonicalize\<close>: it fails unless the path and everything on
  the way to it exists.
\<close>

definition fs_prefixes_exist :: "file_system_view \<Rightarrow> bool" where
  "fs_prefixes_exist fs \<longleftrightarrow>
     (\<forall>p q k. fs_canonicalize fs p = Some q \<and> k \<le> length p \<longrightarrow> fs_exists fs (take k p))"

text \<open>What \<open>resolve_under_root\<close> has checked of a target made of a root and its parts.\<close>

definition resolves_to :: "bool \<Rightarrow> file_system_view \<Rightarrow> abs_path \<Rightarrow> string \<Rightarrow> abs_path \<Rightarrow> string list \<Rightarrow> bool" where
  "resolves_to windows fs root0 relative root parts \<longleftrightarrow>
     validate_relative_path windows relative = Ok (join_slash parts) \<and> fs_canonicalize fs root0 = Some root \<and>
     parts \<noteq> [] \<and> (\<forall>p\<in>set parts. \<not> component_rejected p \<and> (\<forall>c\<in>set p. \<not> is_separator windows c)) \<and>
     (\<forall>k. 0 < k \<and> k \<le> length parts \<and> fs_exists fs (root @ take k parts) \<longrightarrow>
        fs_is_symlink fs (root @ take k parts) = Some False) \<and>
     (\<forall>canonical. fs_canonicalize fs (root @ parts) = Some canonical \<longrightarrow> path_starts_with canonical root) \<and>
     (fs_canonicalize fs (root @ parts) = None \<longrightarrow>
        (\<forall>parent. fs_canonicalize fs (root @ butlast parts) = Some parent \<longrightarrow> path_starts_with parent root))"

lemma resolve_parts:
  assumes "parts \<noteq> []" "\<forall>p\<in>set parts. \<forall>c\<in>set p. \<not> is_separator windows c"
    "validate_relative_path windows relative = Ok (join_slash parts)"
    "\<forall>p\<in>set parts. \<not> component_rejected p"
  shows "resolve_under_root windows fs root0 relative = Ok target \<longleftrightarrow>
    (\<exists>root. resolves_to windows fs root0 relative root parts \<and> target = root @ parts)"
proof -
  have parts: "split_on (\<lambda>c. c = CHR ''/'') (join_slash parts) = parts"
    using assms(1,2) by (intro split_on_join) (auto simp: is_separator_def)
  have "butlast (root @ parts) = root @ butlast parts" for root using assms(1) by (simp add: butlast_append)
  then have "resolve_under_root windows fs root0 relative = and_then (ok_or RootUnavailable (fs_canonicalize fs root0)) (\<lambda>root.
      and_then (check_symlinks fs root parts) (\<lambda>_. case fs_canonicalize fs (root @ parts) of
          Some canonical \<Rightarrow> if \<not> path_starts_with canonical root then Err EscapesRoot else Ok (root @ parts)
        | None \<Rightarrow> (case fs_canonicalize fs (root @ butlast parts) of
            Some parent \<Rightarrow> if \<not> path_starts_with parent root then Err EscapesRoot else Ok (root @ parts)
          | None \<Rightarrow> Ok (root @ parts))))"
    unfolding resolve_under_root_def assms(3) Let_def by (simp add: parts cong: option.case_cong if_cong)
  moreover have "(case fs_canonicalize fs (root @ parts) of
          Some canonical \<Rightarrow> if \<not> path_starts_with canonical root then Err EscapesRoot else Ok (root @ parts)
        | None \<Rightarrow> (case fs_canonicalize fs (root @ butlast parts) of
            Some parent \<Rightarrow> if \<not> path_starts_with parent root then Err EscapesRoot else Ok (root @ parts)
          | None \<Rightarrow> Ok (root @ parts))) = Ok target \<longleftrightarrow> target = root @ parts \<and>
      (\<forall>canonical. fs_canonicalize fs (root @ parts) = Some canonical \<longrightarrow> path_starts_with canonical root) \<and>
      (fs_canonicalize fs (root @ parts) = None \<longrightarrow>
        (\<forall>parent. fs_canonicalize fs (root @ butlast parts) = Some parent \<longrightarrow> path_starts_with parent root))" for root
    by (auto split: option.split)
  ultimately show ?thesis using assms by (auto simp: resolves_to_def check_symlinks_Ok ok_or_eq_Ok)
qed

lemma resolve_iff:
  "resolve_under_root windows fs root0 relative = Ok target \<longleftrightarrow>
   (\<exists>root parts. resolves_to windows fs root0 relative root parts \<and> target = root @ parts)"
proof
  assume r: "resolve_under_root windows fs root0 relative = Ok target"
  then obtain q where q: "validate_relative_path windows relative = Ok q" by (auto simp: resolve_under_root_def)
  from q obtain parts where "q = join_slash parts" "parts \<noteq> []" "list_all (\<lambda>p. \<not> component_rejected p) parts"
    "\<forall>p\<in>set parts. \<forall>c\<in>set p. \<not> is_separator windows c"
    by (rule validate_relative_path_parts)
  with q r resolve_parts [of parts windows relative fs root0 target] show "\<exists>root parts. resolves_to windows fs root0 relative root parts \<and> target = root @ parts"
    by (auto simp: list_all_iff)
next
  assume "\<exists>root parts. resolves_to windows fs root0 relative root parts \<and> target = root @ parts"
  then obtain root parts where r: "resolves_to windows fs root0 relative root parts" "target = root @ parts" by blast
  then show "resolve_under_root windows fs root0 relative = Ok target"
    using resolve_parts [of parts windows relative fs root0 target] by (auto simp: resolves_to_def)
qed

section \<open>Runs of a receiver\<close>

text \<open>
  What a receiver has written after a sequence of chunks, honest or not: the payloads of the
  accepted chunks, in order.
\<close>

fun resume_run ::
  "(bytes \<Rightarrow> bytes) \<Rightarrow> file_transfer_manifest \<Rightarrow> resume_state \<Rightarrow> file_chunk list
   \<Rightarrow> resume_state \<times> bytes" where
  "resume_run sha m s [] = (s, [])"
| "resume_run sha m s (c # cs) =
     (case accept_chunk sha c m s of
        (s', Ok _) \<Rightarrow> (case resume_run sha m s' cs of (t, bs) \<Rightarrow> (t, fc_payload c @ bs))
      | (s', Err _) \<Rightarrow> resume_run sha m s' cs)"

lemma accept_chunk_Err: "accept_chunk sha c m s = (s', Err e) \<Longrightarrow> s' = s"
  by (auto simp: accept_chunk_def accept_offset_def Let_def split: if_splits sum.splits)

lemma accept_chunk_Ok:
  assumes "accept_chunk sha c m s = (s', Ok n)" and "rsm_size_bytes s \<le> MAX_TRANSFER_SIZE"
  shows "unat (rsm_expected_offset s') = unat (rsm_expected_offset s) + length (fc_payload c)"
    "unat (rsm_expected_offset s') \<le> unat (rsm_size_bytes s)" "rsm_size_bytes s' = rsm_size_bytes s"
    "fc_offset c = rsm_expected_offset s" "n = rsm_expected_offset s'"
    "sha256_hex sha (fc_payload c) = fc_sha256 c" "length (fc_payload c) \<le> unat (tm_chunk_size m)"
proof -
  from assms(1) have v: "length (fc_payload c) \<le> 1048576" "sha256_hex sha (fc_payload c) = fc_sha256 c"
    and off: "fc_offset c = rsm_expected_offset s"
    and lenw: "of_nat (length (fc_payload c)) \<le> (ucast (tm_chunk_size m) :: u64)"
    and sum: "saturating_add (rsm_expected_offset s) (of_nat (length (fc_payload c))) \<le> rsm_size_bytes s"
    and s': "s' = s\<lparr>rsm_expected_offset :=
        saturating_add (rsm_expected_offset s) (of_nat (length (fc_payload c)))\<rparr>"
      "n = rsm_expected_offset s'"
    by (auto simp: accept_chunk_def accept_offset_def verify_chunk_def Let_def MAX_CHUNK_SIZE_def not_less
        split: if_splits sum.splits)
  have len: "unat (of_nat (length (fc_payload c)) :: u64) = length (fc_payload c)"
    using v(1) by (simp add: unat_of_nat)
  have "unat (rsm_size_bytes s) \<le> 1099511627776"
    using assms(2) by (simp add: MAX_TRANSFER_SIZE_def word_le_nat_alt)
  with sum len show "unat (rsm_expected_offset s') = unat (rsm_expected_offset s) + length (fc_payload c)"
    "unat (rsm_expected_offset s') \<le> unat (rsm_size_bytes s)"
    by (auto simp: s' word_le_nat_alt unat_saturating_add min_def split: if_splits)
  show "length (fc_payload c) \<le> unat (tm_chunk_size m)"
    using lenw len by (simp add: word_le_nat_alt unat_ucast_u32)
  show "rsm_size_bytes s' = rsm_size_bytes s" "fc_offset c = rsm_expected_offset s"
    "n = rsm_expected_offset s'" "sha256_hex sha (fc_payload c) = fc_sha256 c"
    using s' off v by simp_all
qed

lemma accept_chunk_size: "accept_chunk sha c m s = (s', r) \<Longrightarrow> rsm_size_bytes s' = rsm_size_bytes s"
  by (auto simp: accept_chunk_def accept_offset_def Let_def split: sum.splits if_splits)

lemma resume_run_size: "resume_run sha m s cs = (t, bs) \<Longrightarrow> rsm_size_bytes t = rsm_size_bytes s"
proof (induction cs arbitrary: s bs)
  case (Cons c cs)
  obtain s' r where a: "accept_chunk sha c m s = (s', r)" by (cases "accept_chunk sha c m s")
  with Cons.prems obtain bs' where "resume_run sha m s' cs = (t, bs')"
    by (cases r) (auto split: prod.splits)
  with Cons.IH accept_chunk_size [OF a] show ?case by simp
qed simp

lemma resume_run_length:
  "resume_run sha m s cs = (t, bs) \<Longrightarrow> rsm_size_bytes s \<le> MAX_TRANSFER_SIZE \<Longrightarrow>
   rsm_expected_offset s \<le> rsm_size_bytes s \<Longrightarrow>
   unat (rsm_expected_offset t) = unat (rsm_expected_offset s) + length bs \<and>
   rsm_expected_offset t \<le> rsm_size_bytes s"
proof (induction cs arbitrary: s bs)
  case (Cons c cs)
  obtain s' r where a: "accept_chunk sha c m s = (s', r)" by (cases "accept_chunk sha c m s")
  show ?case
  proof (cases r)
    case (Inl e)
    with a have "s' = s" by (simp add: accept_chunk_Err)
    with Cons a Inl show ?thesis by simp
  next
    case (Inr n)
    with a have ok: "accept_chunk sha c m s = (s', Ok n)" by simp
    note f = accept_chunk_Ok [OF ok Cons.prems(2)]
    obtain bs' where bs: "bs = fc_payload c @ bs'" "resume_run sha m s' cs = (t, bs')"
      using Cons.prems(1) a Inr by (auto split: prod.splits)
    from Cons.IH [OF bs(2)] f Cons.prems(2) bs(1) show ?thesis
      by (simp add: word_le_nat_alt)
  qed
qed simp

subsection \<open>An honest sender\<close>

lemma slice_chunks_length: "p \<in> set (slice_chunks n bs) \<Longrightarrow> length p \<le> n"
proof (induction n bs rule: slice_chunks.induct)
  case (1 n bs)
  then show ?case by (auto simp: slice_chunks.simps [of n bs] split: if_splits)
qed

lemma in_set_enumerate_snd: "(i, p) \<in> set (List.enumerate k ps) \<Longrightarrow> p \<in> set ps"
  by (induction ps arbitrary: k) auto

definition honest_chunk ::
  "(bytes \<Rightarrow> bytes) \<Rightarrow> string \<Rightarrow> nat \<Rightarrow> nat \<times> bytes \<Rightarrow> file_chunk" where
  "honest_chunk sha tid n = (\<lambda>(index, payload).
     \<lparr>fc_transfer_id = tid, fc_offset = of_nat (index * n), fc_payload = payload,
      fc_sha256 = sha256_hex sha payload\<rparr>)"

lemma accept_honest:
  assumes "rsm_transfer_id s = tm_transfer_id m" "rsm_file_sha256 s = tm_file_sha256 m"
    and "rsm_expected_offset s = of_nat k" and "k + length p \<le> unat (rsm_size_bytes s)"
    and "length p \<le> unat (tm_chunk_size m)" "tm_chunk_size m \<le> MAX_CHUNK_SIZE" "k = i * n"
  shows "accept_chunk sha (honest_chunk sha (tm_transfer_id m) n (i, p)) m s =
    (s\<lparr>rsm_expected_offset := of_nat (k + length p)\<rparr>, Ok (of_nat (k + length p)))"
proof -
  have lt: "k + length p < 18446744073709551616"
    using assms(4) unat_u64_lt [of "rsm_size_bytes s"] by linarith
  have sizes: "length p \<le> 1048576"
    using assms(5,6) by (simp add: MAX_CHUNK_SIZE_def word_le_nat_alt)
  have sat: "saturating_add (of_nat k) (of_nat (length p)) = (of_nat (k + length p) :: u64)"
    using lt by (simp add: saturating_add_def unat_of_nat)
  have "unat (of_nat (k + length p) :: u64) = k + length p"
    using lt by (simp add: unat_of_nat del: of_nat_add)
  then have "\<not> rsm_size_bytes s < of_nat (k + length p)"
    using assms(4) by (simp add: word_less_nat_alt del: of_nat_add)
  moreover have "\<not> (ucast (tm_chunk_size m) :: u64) < of_nat (length p)"
    using assms(5) lt by (simp add: word_less_nat_alt unat_of_nat unat_ucast_u32)
  ultimately show ?thesis
    using assms sizes sat
    by (simp add: accept_chunk_def verify_chunk_def honest_chunk_def accept_offset_def
        MAX_CHUNK_SIZE_def Let_def del: of_nat_add of_nat_mult)
qed

lemma resume_run_honest:
  assumes "rsm_transfer_id s = tm_transfer_id m" "rsm_file_sha256 s = tm_file_sha256 m"
    and "0 < n" "n = unat (tm_chunk_size m)" "tm_chunk_size m \<le> MAX_CHUNK_SIZE"
    and "rsm_expected_offset s = of_nat (i * n)" and "i * n + length bs \<le> unat (rsm_size_bytes s)"
  shows "resume_run sha m s
      (map (honest_chunk sha (tm_transfer_id m) n) (List.enumerate i (slice_chunks n bs))) =
    (s\<lparr>rsm_expected_offset := of_nat (i * n + length bs)\<rparr>, bs)"
  using assms
proof (induction n bs arbitrary: s i rule: slice_chunks.induct)
  case (1 n bs)
  show ?case
  proof (cases "bs = []")
    case True
    with "1.prems" show ?thesis by (simp add: slice_chunks.simps)
  next
    case False
    let ?p = "take n bs" and ?k = "i * n"
    let ?s' = "s\<lparr>rsm_expected_offset := of_nat (?k + length ?p)\<rparr>"
    have a: "accept_chunk sha (honest_chunk sha (tm_transfer_id m) n (i, ?p)) m s =
        (?s', Ok (of_nat (?k + length ?p)))"
      using "1.prems" by (intro accept_honest) auto
    have payload: "fc_payload (honest_chunk sha (tm_transfer_id m) n (i, ?p)) = ?p"
      by (simp add: honest_chunk_def)
    show ?thesis
    proof (cases "length bs \<le> n")
      case True
      then have "slice_chunks n bs = [bs]" using False "1.prems"(3)
        by (simp add: slice_chunks.simps)
      with a payload True show ?thesis by simp
    next
      case longer: False
      then have p: "length ?p = n" by simp
      have "resume_run sha m ?s'
          (map (honest_chunk sha (tm_transfer_id m) n) (List.enumerate (Suc i) (slice_chunks n (drop n bs)))) =
        (?s'\<lparr>rsm_expected_offset := of_nat (Suc i * n + length (drop n bs))\<rparr>, drop n bs)"
        by (rule "1.IH") (use "1.prems" False longer p in \<open>auto simp: algebra_simps\<close>)
      moreover have "slice_chunks n bs = ?p # slice_chunks n (drop n bs)"
        using False "1.prems"(3) by (subst slice_chunks.simps) simp
      moreover have "Suc i * n + length (drop n bs) = i * n + length bs" using longer by simp
      ultimately show ?thesis using a payload by simp
    qed
  qed
qed

text \<open>
  A receiver that checks each chunk by itself and reports its place with \<open>accept_offset\<close>, as the
  transport-level check does, accepts what \<open>accept_chunk\<close> accepts under the manifest's identifier.
\<close>

fun offset_run ::
  "(bytes \<Rightarrow> bytes) \<Rightarrow> file_transfer_manifest \<Rightarrow> resume_state \<Rightarrow> file_chunk list \<Rightarrow> resume_state \<times> bytes" where
  "offset_run sha m s [] = (s, [])"
| "offset_run sha m s (c # cs) =
     (case verify_chunk sha c of
        Err _ \<Rightarrow> offset_run sha m s cs
      | Ok _ \<Rightarrow>
          (case accept_offset (fc_offset c) (of_nat (length (fc_payload c))) m s of
             (s', Ok _) \<Rightarrow> (case offset_run sha m s' cs of (t, bs) \<Rightarrow> (t, fc_payload c @ bs))
           | (s', Err _) \<Rightarrow> offset_run sha m s' cs))"

lemma offset_run_eq:
  "rsm_transfer_id s = tm_transfer_id m \<Longrightarrow> rsm_file_sha256 s = tm_file_sha256 m \<Longrightarrow>
   offset_run sha m s cs = resume_run sha m s (map (\<lambda>c. c\<lparr>fc_transfer_id := tm_transfer_id m\<rparr>) cs)"
proof (induction cs arbitrary: s)
  case (Cons c cs)
  obtain s' r where r: "accept_offset (fc_offset c) (of_nat (length (fc_payload c))) m s = (s', r)" by (rule prod.exhaust)
  then have "rsm_transfer_id s' = tm_transfer_id m" "rsm_file_sha256 s' = tm_file_sha256 m"
    using Cons.prems by (auto simp: accept_offset_def Let_def split: if_splits)
  with Cons r show ?case
    by (auto simp: accept_chunk_def verify_chunk_def split: sum.splits)
qed simp

section \<open>Properties\<close>

text \<open>
  C14. What a peer's path resolves to.  A path is resolved under an approved root exactly when it
  validates to components none of which is empty, a dot, a parent reference, a drive or stream, a
  reserved device name or contains a separator, the root exists, every component that exists is
  found not to be a symbolic link, and the target, or its parent when the target does not exist,
  canonicalises inside the root; the result is the canonical root followed by the components.  So
  when the target exists no component on the way is a symbolic link, and when its parent exists
  none on the way to the parent.  Existence is judged with links followed: a link that points to
  nothing is not refused.
\<close>

theorem resolve_under_root_exact:
  assumes "fs_prefixes_exist fs"
  shows "(resolve_under_root windows fs root0 relative = Ok target \<longleftrightarrow>
      (\<exists>root parts. resolves_to windows fs root0 relative root parts \<and> target = root @ parts)) \<and>
    (resolve_under_root windows fs root0 relative = Ok target \<and> fs_canonicalize fs target = Some canonical \<longrightarrow>
      (\<exists>root parts. resolves_to windows fs root0 relative root parts \<and> target = root @ parts \<and>
        path_starts_with canonical root \<and>
        (\<forall>k. 0 < k \<and> k \<le> length parts \<longrightarrow> fs_is_symlink fs (root @ take k parts) = Some False))) \<and>
    (resolve_under_root windows fs root0 relative = Ok target \<and> fs_canonicalize fs target = None \<and>
      fs_canonicalize fs (butlast target) = Some parent \<longrightarrow>
      (\<exists>root parts. resolves_to windows fs root0 relative root parts \<and> target = root @ parts \<and>
        path_starts_with parent root \<and>
        (\<forall>k. 0 < k \<and> k < length parts \<longrightarrow> fs_is_symlink fs (root @ take k parts) = Some False)))"
proof (intro conjI impI, rule resolve_iff)
  assume a: "resolve_under_root windows fs root0 relative = Ok target \<and> fs_canonicalize fs target = Some canonical"
  then obtain root parts where r: "resolves_to windows fs root0 relative root parts" "target = root @ parts"
    unfolding resolve_iff by blast
  have "fs_exists fs (root @ take k parts)" if "k \<le> length parts" for k
    using assms [unfolded fs_prefixes_exist_def, rule_format, of "root @ parts" canonical "length root + k"] a that r(2)
    by simp
  then have "\<forall>k. 0 < k \<and> k \<le> length parts \<longrightarrow> fs_is_symlink fs (root @ take k parts) = Some False"
    "path_starts_with canonical root"
    using r(1) a unfolding resolves_to_def r(2) by simp_all
  with r show "\<exists>root parts. resolves_to windows fs root0 relative root parts \<and> target = root @ parts \<and>
      path_starts_with canonical root \<and>
      (\<forall>k. 0 < k \<and> k \<le> length parts \<longrightarrow> fs_is_symlink fs (root @ take k parts) = Some False)"
    by (intro exI [of _ root] exI [of _ parts]) simp
next
  assume a: "resolve_under_root windows fs root0 relative = Ok target \<and> fs_canonicalize fs target = None \<and>
    fs_canonicalize fs (butlast target) = Some parent"
  then obtain root parts where r: "resolves_to windows fs root0 relative root parts" "target = root @ parts"
    unfolding resolve_iff by blast
  then have p: "butlast target = root @ butlast parts" by (auto simp: resolves_to_def butlast_append)
  have "fs_exists fs (root @ take k parts)" if "k < length parts" for k
    using assms [unfolded fs_prefixes_exist_def, rule_format, of "root @ butlast parts" parent "length root + k"] a that p
    by (simp add: take_butlast)
  then have "\<forall>k. 0 < k \<and> k < length parts \<longrightarrow> fs_is_symlink fs (root @ take k parts) = Some False"
    "path_starts_with parent root"
    using r(1) a unfolding resolves_to_def p unfolding r(2) by simp_all
  with r show "\<exists>root parts. resolves_to windows fs root0 relative root parts \<and> target = root @ parts \<and>
      path_starts_with parent root \<and>
      (\<forall>k. 0 < k \<and> k < length parts \<longrightarrow> fs_is_symlink fs (root @ take k parts) = Some False)"
    by (intro exI [of _ root] exI [of _ parts]) simp
qed

text \<open>A root with a file \<open>a\<close> and a symbolic link \<open>l\<close> to a place that does not exist.\<close>

definition sample_fs :: file_system_view where
  "sample_fs = \<lparr>fs_canonicalize = (\<lambda>p. if p \<in> {[], [''srv''], [''srv'', ''a'']} then Some p else None),
     fs_exists = (\<lambda>p. p \<in> {[], [''srv''], [''srv'', ''a'']}),
     fs_is_symlink = (\<lambda>p. if p = [''srv'', ''l''] then Some True
        else if p \<in> {[], [''srv''], [''srv'', ''a'']} then Some False else None)\<rparr>"

theorem resolve_under_root_exact_witness:
  "resolve_under_root True sample_fs [''srv''] ''a'' = Ok [''srv'', ''a''] \<and>
   (\<exists>root parts. [''srv'', ''a''] = root @ parts \<and> path_starts_with [''srv'', ''a''] root \<and>
      (\<forall>k. 0 < k \<and> k \<le> length parts \<longrightarrow> fs_is_symlink sample_fs (root @ take k parts) = Some False)) \<and>
   resolve_under_root True sample_fs [''srv''] ''l'' = Ok [''srv'', ''l''] \<and>
   fs_is_symlink sample_fs [''srv'', ''l''] = Some True"
proof -
  have laws: "fs_prefixes_exist sample_fs"
    by (auto simp: fs_prefixes_exist_def sample_fs_def le_Suc_eq numeral_2_eq_2 split: if_splits)
  have ok: "resolve_under_root True sample_fs [''srv''] ''a'' = Ok [''srv'', ''a'']"
    "resolve_under_root True sample_fs [''srv''] ''l'' = Ok [''srv'', ''l'']"
    by (simp_all add: resolve_under_root_def validate_relative_path_def path_components_def
        body_components_def has_drive_def is_separator_def segment_component_def Let_def
        List.map_filter_simps component_rejected_def is_reserved_windows_name_def
        ascii_uppercase_def char_between_def sample_fs_def path_starts_with_def trim_def wire_simps)
  have "fs_canonicalize sample_fs [''srv'', ''a''] = Some [''srv'', ''a'']"
    "fs_is_symlink sample_fs [''srv'', ''l''] = Some True" by (simp_all add: sample_fs_def)
  with ok resolve_under_root_exact [OF laws, of True "[''srv'']" "''a''" "[''srv'', ''a'']" "[''srv'', ''a'']"]
  show ?thesis by blast
qed

text \<open>
  Normal form: a validated path without surrounding white space validates to itself.  The
  condition is needed: with a trailing slash after a component that ends in an ideographic
  space the validator returns a path which it then maps to a different one.
\<close>

theorem validated_path_normal_form:
  "(validate_relative_path windows path = Ok q \<and> trim q = q \<longrightarrow>
      validate_relative_path windows q = Ok q) \<and>
   validate_relative_path windows [CHR ''a'', CHR 0xE3, CHR 0x80, CHR 0x80, CHR ''/''] =
     Ok [CHR ''a'', CHR 0xE3, CHR 0x80, CHR 0x80] \<and>
   validate_relative_path windows [CHR ''a'', CHR 0xE3, CHR 0x80, CHR 0x80] = Ok ''a''"
proof (intro conjI impI)
  assume "validate_relative_path windows path = Ok q \<and> trim q = q"
  then have q: "validate_relative_path windows path = Ok q" and tq: "trim q = q" by auto
  let ?P = "is_separator windows"
  from q obtain parts where p: "q = join_slash parts" "parts \<noteq> []"
    "list_all (\<lambda>p. \<not> component_rejected p) parts" "\<forall>p\<in>set parts. \<forall>c\<in>set p. \<not> ?P c"
    "hd (hd parts) = hd (trim path)" "hd (trim path) \<noteq> CHR 0x5C"
    by (rule validate_relative_path_parts)
  have hp: "hd parts \<in> set parts" "hd parts \<noteq> []" "hd parts \<noteq> ''.''"
    using p(2,3) component_not_special by (auto simp: list_all_iff)
  have hq: "q \<noteq> []" "hd q = hd (hd parts)" "\<not> ?P (hd q)"
    using hd_join_slash [OF p(2) hp(2)] p(1,4) hp by auto
  have split: "split_on ?P q = parts"
    unfolding p(1) using p(2,4) by (intro split_on_join) (auto simp: is_separator_def)
  have "CHR '':'' \<notin> set q"
    using set_join_slash [of parts] p(1,3) component_not_special by (fastforce simp: list_all_iff)
  then have "\<not> has_drive q" by (auto simp: has_drive_def in_set_conv_nth)
  then have "path_components windows q = map CNormal parts"
    using split hq hp(3) map_filter_parts [OF p(3)]
    by (simp add: path_components_def body_components_def)
  with p hq tq show "validate_relative_path windows q = Ok q"
    by (auto simp: validate_relative_path_def validate_components_Ok is_separator_def)
qed (simp_all add: validate_relative_path_def path_components_def body_components_def has_drive_def
    is_separator_def segment_component_def Let_def List.map_filter_simps component_rejected_def
    is_reserved_windows_name_def ascii_uppercase_def char_between_def trim_def wire_simps)

theorem validated_path_normal_form_witness:
  "validate_relative_path False ''b'' = Ok ''b''"
proof -
  have "validate_relative_path False '' b'' = Ok ''b'' \<and> trim ''b'' = ''b''"
    by (simp add: validate_relative_path_def path_components_def body_components_def
        is_separator_def segment_component_def Let_def List.map_filter_simps component_rejected_def
        is_reserved_windows_name_def ascii_uppercase_def char_between_def trim_def wire_simps)
  with validated_path_normal_form [of False "'' b''" "''b''"] show ?thesis by blast
qed

text \<open>
  C25. Splitting and receiving.  Under a manifest for the file's size, the file can be split with the
  manifest's chunk size; every chunk passes verification, and a fresh cursor that is told the place
  of each verified chunk in order accepts them all, so that the file is reproduced and complete.  The
  chunks carry no transfer identifier: given to \<open>accept_chunk\<close> as they are, every one of them is
  refused as belonging to another transfer, at any cursor; with the manifest's identifier filled in,
  \<open>accept_chunk\<close> accepts them all too.
\<close>

theorem transfer_roundtrip:
  assumes "manifest_new windows tid sid direction path (of_nat (length bs)) chunk_size digest = Ok m"
    and "length bs < 2 ^ 64"
  shows "\<exists>chunks t. chunk_bytes sha bs chunk_size = Ok chunks \<and> list_all (\<lambda>c. verify_chunk sha c = Ok ()) chunks \<and>
    offset_run sha m (resume_new m) chunks = (t, bs) \<and> unat (completed_bytes t) = length bs \<and>
    (\<forall>c\<in>set chunks. \<forall>s. accept_chunk sha c m s = (s, Err ManifestMismatch)) \<and>
    resume_run sha m (resume_new m) (map (\<lambda>c. c\<lparr>fc_transfer_id := tid\<rparr>) chunks) = (t, bs)"
proof -
  let ?n = "unat chunk_size" and ?t = "(resume_new m)\<lparr>rsm_expected_offset := of_nat (length bs)\<rparr>"
  let ?chunks = "\<lambda>tid. map (honest_chunk sha tid ?n) (List.enumerate 0 (slice_chunks ?n bs))"
  have "trim [] = []" by (simp add: trim_def wire_simps)
  with assms(1) have m: "tm_transfer_id m = tid" "tm_chunk_size m = chunk_size" "tm_size_bytes m = of_nat (length bs)"
    "chunk_size \<noteq> 0" "chunk_size \<le> MAX_CHUNK_SIZE" "tid \<noteq> []"
    by (auto simp: manifest_new_def not_less split: if_splits)
  then have split: "chunk_bytes sha bs chunk_size = Ok (?chunks [])"
    by (auto simp: chunk_bytes_def honest_chunk_def split: if_splits)
  have size: "unat (of_nat (length bs) :: u64) = length bs" using assms(2) by (simp add: unat_of_nat)
  define chunks where ch: "chunks = ?chunks []"
  have retag: "map (\<lambda>c. c\<lparr>fc_transfer_id := tid\<rparr>) chunks = ?chunks tid"
    by (simp add: ch honest_chunk_def split_beta)
  have run: "resume_run sha m (resume_new m) (?chunks tid) = (?t, bs)"
  proof -
    have n: "0 < ?n" using m(4) by (simp add: unat_gt_0)
    have "resume_run sha m (resume_new m) (?chunks (tm_transfer_id m)) =
        ((resume_new m)\<lparr>rsm_expected_offset := of_nat (0 * ?n + length bs)\<rparr>, bs)"
      by (rule resume_run_honest) (use n m(2,3,5) size in \<open>simp_all add: resume_new_def\<close>)
    then show ?thesis by (simp add: m(1))
  qed
  have ids: "rsm_transfer_id (resume_new m) = tm_transfer_id m" "rsm_file_sha256 (resume_new m) = tm_file_sha256 m"
    by (simp_all add: resume_new_def)
  have off: "offset_run sha m (resume_new m) chunks = (?t, bs)"
    unfolding offset_run_eq [OF ids] m(1) retag by (rule run)
  have "list_all (\<lambda>c. verify_chunk sha c = Ok ()) chunks"
    using m(5) slice_chunks_length [of _ ?n bs]
    by (fastforce simp: ch list_all_iff verify_chunk_def honest_chunk_def word_le_nat_alt
        dest: in_set_enumerate_snd)
  moreover have "\<forall>c\<in>set chunks. \<forall>s. accept_chunk sha c m s = (s, Err ManifestMismatch)"
    using m(1,6) by (auto simp: ch accept_chunk_def honest_chunk_def)
  moreover have "unat (completed_bytes ?t) = length bs" using size by (simp add: completed_bytes_def)
  ultimately show ?thesis
    using split off run by (intro exI [of _ chunks] exI [of _ ?t]) (simp add: ch [symmetric] retag)
qed

definition sample_manifest :: file_transfer_manifest where
  "sample_manifest =
     \<lparr>tm_transfer_id = ''t'', tm_session_id = ''s'', tm_direction = Upload,
      tm_provider = RemoteProvider, tm_relative_path = ''a'', tm_size_bytes = 3,
      tm_chunk_size = 2, tm_file_sha256 = ''h'', tm_conflict_policy = RejectExisting\<rparr>"

theorem transfer_roundtrip_witness:
  "\<exists>m chunks t. manifest_new False ''t'' ''s'' Upload ''a'' 3 2 (replicate 64 (CHR ''0'')) = Ok m \<and>
     chunk_bytes (\<lambda>_. []) [7, 8, 9] 2 = Ok chunks \<and> offset_run (\<lambda>_. []) m (resume_new m) chunks = (t, [7, 8, 9])"
proof -
  obtain m where m: "manifest_new False ''t'' ''s'' Upload ''a'' 3 2 (replicate 64 (CHR ''0'')) = Ok m"
    by (simp add: manifest_new_def validate_relative_path_def path_components_def
        body_components_def has_drive_def is_separator_def segment_component_def Let_def
        List.map_filter_simps component_rejected_def is_reserved_windows_name_def
        ascii_uppercase_def char_between_def lower_hex_def ascii_digit_def MAX_CHUNK_SIZE_def
        MAX_TRANSFER_SIZE_def trim_def wire_simps list_all_iff)
  have "of_nat (length [7, 8, 9 :: u8]) = (3 :: u64)" "length [7, 8, 9 :: u8] < 2 ^ 64" by simp_all
  with transfer_roundtrip [of False "''t''" "''s''" Upload "''a''" "[7, 8, 9]" 2 "replicate 64 (CHR ''0'')" m "\<lambda>_. []"] m
  show ?thesis by auto
qed

text \<open>
  A hostile sender cannot overrun or skip: after any sequence of chunks, accepted or
  refused, the cursor stands exactly at the number of bytes accepted so far, which never
  exceeds the manifest's size; a refused chunk leaves the cursor where it was, and an accepted
  one starts at the cursor, is at most one chunk long and carries the digest of its payload.
\<close>

theorem resume_cursor_exact:
  assumes "tm_size_bytes m \<le> MAX_TRANSFER_SIZE"
    and "resume_run sha m (resume_new m) chunks = (s, written)"
  shows "unat (completed_bytes s) = length written \<and> length written \<le> unat (tm_size_bytes m) \<and>
    (accept_chunk sha c m s = (s', Err e) \<longrightarrow> s' = s) \<and>
    (accept_chunk sha c m s = (s', Ok n) \<longrightarrow>
       fc_offset c = next_offset s \<and> n = next_offset s' \<and>
       unat n = length written + length (fc_payload c) \<and> n \<le> tm_size_bytes m \<and>
       length (fc_payload c) \<le> unat (tm_chunk_size m) \<and>
       sha256_hex sha (fc_payload c) = fc_sha256 c)"
proof -
  have size: "rsm_size_bytes (resume_new m) = tm_size_bytes m" by (simp add: resume_new_def)
  have s: "rsm_size_bytes s = tm_size_bytes m" using resume_run_size [OF assms(2)] size by simp
  have run: "unat (rsm_expected_offset s) = length written" "rsm_expected_offset s \<le> tm_size_bytes m"
    using resume_run_length [OF assms(2)] assms(1) by (auto simp: resume_new_def)
  have acc: "fc_offset c = rsm_expected_offset s \<and> n = rsm_expected_offset s' \<and>
      unat n = length written + length (fc_payload c) \<and> n \<le> tm_size_bytes m \<and>
      length (fc_payload c) \<le> unat (tm_chunk_size m) \<and> sha256_hex sha (fc_payload c) = fc_sha256 c"
    if "accept_chunk sha c m s = (s', Ok n)"
    using accept_chunk_Ok [OF that] assms(1) s run by (simp add: word_le_nat_alt)
  have "s' = s" if "accept_chunk sha c m s = (s', Err e)" by (rule accept_chunk_Err [OF that])
  with acc run show ?thesis
    by (auto simp: completed_bytes_def next_offset_def word_le_nat_alt)
qed

theorem resume_cursor_exact_witness:
  "unat (completed_bytes (fst (resume_run (\<lambda>_. []) sample_manifest (resume_new sample_manifest)
     [\<lparr>fc_transfer_id = ''t'', fc_offset = 0, fc_payload = [1, 2], fc_sha256 = []\<rparr>,
      \<lparr>fc_transfer_id = ''t'', fc_offset = 0, fc_payload = [1, 2], fc_sha256 = []\<rparr>]))) = 2"
proof -
  let ?c = "\<lparr>fc_transfer_id = ''t'', fc_offset = 0, fc_payload = [1, 2], fc_sha256 = []\<rparr>"
  obtain s where r: "resume_run (\<lambda>_. []) sample_manifest (resume_new sample_manifest) [?c, ?c] = (s, [1, 2])"
    by (simp add: accept_chunk_def accept_offset_def verify_chunk_def sha256_hex_def Let_def
        sample_manifest_def resume_new_def MAX_CHUNK_SIZE_def saturating_add_def)
  have "tm_size_bytes sample_manifest \<le> MAX_TRANSFER_SIZE"
    by (simp add: sample_manifest_def MAX_TRANSFER_SIZE_def)
  from resume_cursor_exact [OF this r] r show ?thesis by simp
qed

text \<open>
  Committing: a digest mismatch changes nothing; success leaves the verified bytes at the
  destination and removes the temporary file; any other failure changes nothing, except that
  on Windows a rename that fails after the existing destination was removed leaves no
  destination at all, so the replacement is not atomic there.
\<close>

theorem commit_outcomes:
  assumes "atomic_commit windows fails sha temp destination expected fs = (fs', r)"
    and "temp \<noteq> destination"
  shows "(r = Ok () \<longrightarrow> (\<exists>bs. fs temp = Some bs \<and> sha256_hex sha bs = expected \<and>
      fs' = (fs(temp := None))(destination \<mapsto> bs))) \<and>
    (r = Err FinalHashMismatch \<longrightarrow> fs' = fs) \<and>
    (r \<noteq> Ok () \<longrightarrow> fs' = fs \<or>
       (windows \<and> fails CallRename \<and> fs destination \<noteq> None \<and> fs' = fs(destination := None)))"
  using assms
  by (auto simp: atomic_commit_def Let_def fun_eq_iff split: if_splits option.splits)

theorem commit_outcomes_witness:
  "fst (atomic_commit True (\<lambda>c. c = CallRename) (\<lambda>_. []) [''t''] [''d''] []
     [[''t''] \<mapsto> [1], [''d''] \<mapsto> [2]]) [''d''] = None"
proof -
  let ?fs = "[[''t''] \<mapsto> [1], [''d''] \<mapsto> [2 :: u8]]"
  have "atomic_commit True (\<lambda>c. c = CallRename) (\<lambda>_. []) [''t''] [''d''] [] ?fs =
      (?fs([''d''] := None), Err Commit)"
    by (simp add: atomic_commit_def sha256_hex_def)
  with commit_outcomes [OF this] show ?thesis by simp
qed

text \<open>
  A manifest that can be constructed has identifiers of 1 to 128 bytes that are not
  blank, a non-empty safe relative path, a chunk size between 1 byte and 1 MiB, at most 1 TiB
  and a 64-character lower-case hexadecimal digest, is served by the remote provider only and
  refuses to replace an existing destination.
\<close>

theorem manifest_new_sound:
  assumes "manifest_new windows tid sid dir path sz chunk hash = Ok m"
  shows "tm_transfer_id m = tid \<and> trim tid \<noteq> [] \<and> length tid \<le> 128 \<and>
    tm_session_id m = sid \<and> trim sid \<noteq> [] \<and> length sid \<le> 128 \<and>
    (\<exists>parts. tm_relative_path m = join_slash parts \<and> parts \<noteq> [] \<and>
       (\<forall>p\<in>set parts. \<not> component_rejected p \<and> (\<forall>c\<in>set p. \<not> is_separator windows c))) \<and>
    1 \<le> unat (tm_chunk_size m) \<and> unat (tm_chunk_size m) \<le> 1048576 \<and>
    tm_size_bytes m \<le> MAX_TRANSFER_SIZE \<and>
    length (tm_file_sha256 m) = 64 \<and> list_all lower_hex (tm_file_sha256 m) \<and>
    tm_provider m = RemoteProvider \<and> tm_conflict_policy m = RejectExisting"
proof -
  from assms obtain q where q: "validate_relative_path windows path = Ok q"
    and m: "m = \<lparr>tm_transfer_id = tid, tm_session_id = sid, tm_direction = dir,
                 tm_provider = RemoteProvider, tm_relative_path = q, tm_size_bytes = sz,
                 tm_chunk_size = chunk, tm_file_sha256 = hash, tm_conflict_policy = RejectExisting\<rparr>"
    and ids: "trim tid \<noteq> []" "length tid \<le> 128" "trim sid \<noteq> []" "length sid \<le> 128"
    and nums: "chunk \<noteq> 0" "chunk \<le> MAX_CHUNK_SIZE" "sz \<le> MAX_TRANSFER_SIZE"
    and h: "length hash = 64" "list_all lower_hex hash"
    by (auto simp: manifest_new_def not_less split: if_splits)
  from q obtain parts where "q = join_slash parts" "parts \<noteq> []"
    "list_all (\<lambda>p. \<not> component_rejected p) parts"
    "\<forall>p\<in>set parts. \<forall>c\<in>set p. \<not> is_separator windows c"
    by (rule validate_relative_path_parts)
  then have "\<exists>parts. q = join_slash parts \<and> parts \<noteq> [] \<and>
       (\<forall>p\<in>set parts. \<not> component_rejected p \<and> (\<forall>c\<in>set p. \<not> is_separator windows c))"
    by (auto simp: list_all_iff)
  moreover have "1 \<le> unat chunk" using nums(1) by (simp add: Suc_le_eq unat_gt_0)
  moreover have "unat chunk \<le> 1048576" using nums(2) by (simp add: MAX_CHUNK_SIZE_def word_le_nat_alt)
  ultimately show ?thesis using ids nums(3) h by (simp add: m)
qed

theorem manifest_new_sound_witness:
  "\<exists>m. manifest_new False ''t'' ''s'' Upload ''a'' 3 2 (replicate 64 (CHR ''0'')) = Ok m \<and>
     tm_provider m = RemoteProvider"
proof -
  obtain m where "manifest_new False ''t'' ''s'' Upload ''a'' 3 2 (replicate 64 (CHR ''0'')) = Ok m"
    by (simp add: manifest_new_def validate_relative_path_def path_components_def
        body_components_def is_separator_def segment_component_def Let_def
        List.map_filter_simps component_rejected_def is_reserved_windows_name_def
        ascii_uppercase_def char_between_def trim_def wire_simps MAX_CHUNK_SIZE_def
        MAX_TRANSFER_SIZE_def lower_hex_def ascii_digit_def list_all_iff)
  with manifest_new_sound [OF this] show ?thesis by blast
qed

end
