(* ===== verification/Relay_Selection.thy ===== *)
theory Relay_Selection
  imports Mrd_Prelude "HOL-Library.Multiset" "HOL-Library.List_Lexorder" "HOL-Library.Char_ord"
    "HOL-Library.Product_Lexorder"
begin

text \<open>
  Relay nodes (\<open>mrd-relay-control/src/model.rs\<close>), their health tracker (\<open>health.rs\<close>) and the
  selection of a primary relay and its backups (\<open>selection.rs\<close>).  Strings are compared byte
  by byte, which is the lexicographic order of their characters; \<open>sort_by\<close> is stable, as is
  \<open>sort_key\<close>.
\<close>

section \<open>Identifiers, endpoints and snapshots\<close>

definition MAX_IDENTIFIER_LEN :: nat where "MAX_IDENTIFIER_LEN = 64"

datatype identifier_error = IdEmpty | IdTooLong nat | IdInvalidCharacter nat

definition identifier_char :: "char \<Rightarrow> bool" where
  "identifier_char c \<longleftrightarrow>
     char_between (CHR ''0'') c (CHR ''9'') \<or> char_between (CHR ''a'') c (CHR ''z'') \<or>
     char_between (CHR ''A'') c (CHR ''Z'') \<or> c \<in> {CHR ''-'', CHR ''_'', CHR ''.''}"

fun find_index :: "('a \<Rightarrow> bool) \<Rightarrow> 'a list \<Rightarrow> nat option" where
  "find_index P [] = None"
| "find_index P (x # xs) = (if P x then Some 0 else map_option Suc (find_index P xs))"

definition validate_identifier :: "string \<Rightarrow> (unit, identifier_error) result" where
  "validate_identifier value =
     (if value = [] then Err IdEmpty
      else if length value > MAX_IDENTIFIER_LEN then Err (IdTooLong MAX_IDENTIFIER_LEN)
      else case find_index (\<lambda>c. \<not> identifier_char c) value of
        Some index \<Rightarrow> Err (IdInvalidCharacter index)
      | None \<Rightarrow> Ok ())"

definition identifier_new :: "string \<Rightarrow> (string, identifier_error) result" where
  "identifier_new value = and_then (validate_identifier value) (\<lambda>_. Ok value)"

datatype relay_node_state = Enrolling | Ready | Degraded | Draining | Unavailable | Revoked

datatype relay_transport = Udp | Tcp | Tls

datatype relay_endpoint_error = EmptyHost | InvalidPort

record relay_endpoint =
  re_transport :: relay_transport
  re_host :: string
  re_port :: u16

definition relay_endpoint_new ::
  "relay_transport \<Rightarrow> string \<Rightarrow> u16 \<Rightarrow> (relay_endpoint, relay_endpoint_error) result" where
  "relay_endpoint_new transport host port =
     (if trim host = [] then Err EmptyHost
      else if port = 0 then Err InvalidPort
      else Ok \<lparr>re_transport = transport, re_host = host, re_port = port\<rparr>)"

record relay_node_snapshot =
  rn_node_id :: string
  rn_region :: string
  rn_failure_domain :: string
  rn_state :: relay_node_state
  rn_lease_expires_at_ms :: u64
  rn_endpoints :: "relay_endpoint list"
  rn_active_allocations :: u32
  rn_max_allocations :: u32
  rn_current_egress_bps :: u64
  rn_max_egress_bps :: u64
  rn_recent_failure_bps :: u16
  rn_measured_rtt_ms :: "u32 option"

section \<open>Health\<close>

definition RELAY_LEASE_DURATION_MS :: u64 where "RELAY_LEASE_DURATION_MS = 15000"
definition HEALTHY_HEARTBEATS_TO_RECOVER :: u8 where "HEALTHY_HEARTBEATS_TO_RECOVER = 3"

definition lease_expires_at :: "u64 \<Rightarrow> u64" where
  "lease_expires_at heartbeat_at_ms = saturating_add heartbeat_at_ms RELAY_LEASE_DURATION_MS"

definition lease_is_fresh :: "u64 \<Rightarrow> u64 \<Rightarrow> bool" where
  "lease_is_fresh lease_expires_at_ms now_ms \<longleftrightarrow> now_ms < lease_expires_at_ms"

record relay_health_tracker =
  ht_state :: relay_node_state
  ht_streak :: u8

definition health_new :: "relay_node_state \<Rightarrow> relay_health_tracker" where
  "health_new state = \<lparr>ht_state = state, ht_streak = 0\<rparr>"

definition record_heartbeat :: "bool \<Rightarrow> relay_health_tracker \<Rightarrow> relay_health_tracker" where
  "record_heartbeat healthy t =
     (if \<not> healthy then
        t\<lparr>ht_streak := 0,
          ht_state := (case ht_state t of Enrolling \<Rightarrow> Unavailable | Ready \<Rightarrow> Degraded | s \<Rightarrow> s)\<rparr>
      else if ht_state t \<in> {Enrolling, Degraded, Unavailable} then
        let streak = min (saturating_add (ht_streak t) 1) HEALTHY_HEARTBEATS_TO_RECOVER in
        if streak = HEALTHY_HEARTBEATS_TO_RECOVER
        then t\<lparr>ht_state := Ready, ht_streak := 0\<rparr>
        else t\<lparr>ht_streak := streak\<rparr>
      else t\<lparr>ht_streak := 0\<rparr>)"

section \<open>Selection\<close>

definition BASIS_POINTS :: u64 where "BASIS_POINTS = 10000"
definition UNKNOWN_RTT_MS :: u32 where "UNKNOWN_RTT_MS = - 1"

record relay_score_weights =
  rw_base_score :: u64
  rw_region_preference :: u64
  rw_rtt_penalty_per_ms :: u64
  rw_allocation_utilization_penalty :: u64
  rw_bandwidth_headroom_reward :: u64
  rw_recent_failure_penalty :: u64
  rw_soft_full_penalty :: u64
  rw_degraded_penalty :: u64

record relay_selection_policy =
  rp_preferred_regions :: "string list"
  rp_accepted_transports :: "relay_transport list"
  rp_max_backups :: nat
  rp_soft_allocation_limit_bps :: u16
  rp_weights :: relay_score_weights

datatype relay_rejection_code =
    RejStaleLease | RejEnrolling | RejDraining | RejUnavailable | RejRevoked
  | RejTransportIncompatible | RejHardCapacityReached

fun rejection_str :: "relay_rejection_code \<Rightarrow> string" where
  "rejection_str RejStaleLease = ''stale_lease''"
| "rejection_str RejEnrolling = ''enrolling''"
| "rejection_str RejDraining = ''draining''"
| "rejection_str RejUnavailable = ''unavailable''"
| "rejection_str RejRevoked = ''revoked''"
| "rejection_str RejTransportIncompatible = ''transport_incompatible''"
| "rejection_str RejHardCapacityReached = ''hard_capacity_reached''"

record relay_rejection =
  rej_node_id :: string
  rej_reason :: relay_rejection_code

record relay_selected_candidate =
  rc_node_id :: string
  rc_region :: string
  rc_failure_domain :: string
  rc_endpoints :: "relay_endpoint list"
  rc_score :: u64

record relay_selection_decision =
  rd_primary :: relay_selected_candidate
  rd_backups :: "relay_selected_candidate list"
  rd_rejections :: "relay_rejection list"

definition transport_is_accepted :: "relay_selection_policy \<Rightarrow> relay_transport \<Rightarrow> bool" where
  "transport_is_accepted policy transport \<longleftrightarrow> transport \<in> set (rp_accepted_transports policy)"

definition has_compatible_transport :: "relay_selection_policy \<Rightarrow> relay_node_snapshot \<Rightarrow> bool" where
  "has_compatible_transport policy node \<longleftrightarrow>
     list_ex (\<lambda>endpoint. transport_is_accepted policy (re_transport endpoint)) (rn_endpoints node)"

definition rejection_reason ::
  "relay_selection_policy \<Rightarrow> relay_node_snapshot \<Rightarrow> u64 \<Rightarrow> relay_rejection_code option" where
  "rejection_reason policy node now_ms =
     (if \<not> lease_is_fresh (rn_lease_expires_at_ms node) now_ms then Some RejStaleLease
      else case rn_state node of
        Enrolling \<Rightarrow> Some RejEnrolling
      | Draining \<Rightarrow> Some RejDraining
      | Unavailable \<Rightarrow> Some RejUnavailable
      | Revoked \<Rightarrow> Some RejRevoked
      | _ \<Rightarrow>
          if \<not> has_compatible_transport policy node then Some RejTransportIncompatible
          else if rn_active_allocations node \<ge> rn_max_allocations node
            \<or> rn_current_egress_bps node \<ge> rn_max_egress_bps node
          then Some RejHardCapacityReached
          else None)"

definition clamp_u128_to_u64 :: "nat \<Rightarrow> u64" where
  "clamp_u128_to_u64 value = (if value < 18446744073709551616 then of_nat value else - 1)"

text \<open>The products are computed in 128 bits, where they cannot overflow.\<close>

definition ratio_bps :: "u64 \<Rightarrow> u64 \<Rightarrow> u64" where
  "ratio_bps current maximum =
     (if maximum = 0 then BASIS_POINTS
      else clamp_u128_to_u64 (unat (min current maximum) * unat BASIS_POINTS div unat maximum))"

definition weighted_bps :: "u64 \<Rightarrow> u64 \<Rightarrow> u64" where
  "weighted_bps value_bps weight =
     clamp_u128_to_u64 (unat value_bps * unat weight div unat BASIS_POINTS)"

definition relay_score :: "relay_selection_policy \<Rightarrow> relay_node_snapshot \<Rightarrow> u64" where
  "relay_score policy node =
     (let w = rp_weights policy;
          allocation_utilization_bps =
            ratio_bps (ucast (rn_active_allocations node)) (ucast (rn_max_allocations node));
          bandwidth_utilization_bps = ratio_bps (rn_current_egress_bps node) (rn_max_egress_bps node);
          bandwidth_headroom_bps = saturating_sub BASIS_POINTS bandwidth_utilization_bps;
          region_reward =
            (case find_index (\<lambda>region. region = rn_region node) (rp_preferred_regions policy) of
               None \<Rightarrow> 0
             | Some index \<Rightarrow> saturating_mul
                 (clamp_u128_to_u64 (length (rp_preferred_regions policy) - index))
                 (rw_region_preference w));
          rewards = saturating_add (saturating_add (rw_base_score w) region_reward)
            (weighted_bps bandwidth_headroom_bps (rw_bandwidth_headroom_reward w));
          rtt = (case rn_measured_rtt_ms node of None \<Rightarrow> UNKNOWN_RTT_MS | Some ms \<Rightarrow> ms);
          penalties = saturating_add (saturating_add
            (saturating_mul (ucast rtt) (rw_rtt_penalty_per_ms w))
            (weighted_bps allocation_utilization_bps (rw_allocation_utilization_penalty w)))
            (weighted_bps (min (ucast (rn_recent_failure_bps node)) BASIS_POINTS)
              (rw_recent_failure_penalty w));
          penalties = (if allocation_utilization_bps \<ge> ucast (rp_soft_allocation_limit_bps policy)
            then saturating_add penalties (rw_soft_full_penalty w) else penalties);
          penalties = (if rn_state node = Degraded
            then saturating_add penalties (rw_degraded_penalty w) else penalties)
      in saturating_sub rewards penalties)"

definition relay_candidate ::
  "relay_selection_policy \<Rightarrow> relay_node_snapshot \<Rightarrow> relay_selected_candidate" where
  "relay_candidate policy node =
     \<lparr>rc_node_id = rn_node_id node, rc_region = rn_region node,
      rc_failure_domain = rn_failure_domain node,
      rc_endpoints = filter (\<lambda>endpoint. transport_is_accepted policy (re_transport endpoint))
        (rn_endpoints node),
      rc_score = relay_score policy node\<rparr>"

text \<open>The iterator adapter that keeps a candidate when its failure domain is new.\<close>

fun filter_new_domains ::
  "string set \<Rightarrow> relay_selected_candidate list \<Rightarrow> relay_selected_candidate list" where
  "filter_new_domains seen [] = []"
| "filter_new_domains seen (c # cs) =
     (if rc_failure_domain c \<in> seen then filter_new_domains seen cs
      else c # filter_new_domains (insert (rc_failure_domain c) seen) cs)"

definition candidate_key :: "relay_selected_candidate \<Rightarrow> int \<times> string" where
  "candidate_key c = (- uint (rc_score c), rc_node_id c)"

definition rejection_key :: "relay_rejection \<Rightarrow> string \<times> string" where
  "rejection_key r = (rej_node_id r, rejection_str (rej_reason r))"

definition select_relays ::
  "relay_selection_policy \<Rightarrow> relay_node_snapshot list \<Rightarrow> u64
   \<Rightarrow> (relay_selection_decision, relay_rejection list) result" where
  "select_relays policy nodes now_ms =
     (let candidates = sort_key candidate_key
            (map (relay_candidate policy) (filter (\<lambda>n. rejection_reason policy n now_ms = None) nodes));
          rejections = sort_key rejection_key
            (List.map_filter (\<lambda>n. map_option
               (\<lambda>reason. \<lparr>rej_node_id = rn_node_id n, rej_reason = reason\<rparr>)
               (rejection_reason policy n now_ms)) nodes)
      in case candidates of
           [] \<Rightarrow> Err rejections
         | primary # rest \<Rightarrow>
             Ok \<lparr>rd_primary = primary,
                 rd_backups = take (rp_max_backups policy)
                   (filter_new_domains {rc_failure_domain primary} rest),
                 rd_rejections = rejections\<rparr>)"

section \<open>Lemmas\<close>

lemma rejection_reason_None:
  "rejection_reason policy n now = None \<longleftrightarrow>
     now < rn_lease_expires_at_ms n \<and> rn_state n \<in> {Ready, Degraded} \<and>
     (\<exists>e\<in>set (rn_endpoints n). re_transport e \<in> set (rp_accepted_transports policy)) \<and>
     rn_active_allocations n < rn_max_allocations n \<and>
     rn_current_egress_bps n < rn_max_egress_bps n"
  by (cases "rn_state n")
     (auto simp: rejection_reason_def lease_is_fresh_def has_compatible_transport_def list_ex_iff
        transport_is_accepted_def not_le)

lemma rejection_str_inject [simp]: "rejection_str a = rejection_str b \<longleftrightarrow> a = b"
  by (cases a; cases b) simp_all

lemma filter_new_domains_subset: "set (filter_new_domains seen cs) \<subseteq> set cs"
  by (induction seen cs rule: filter_new_domains.induct) auto

lemma filter_new_domains_distinct:
  "distinct (map rc_failure_domain (filter_new_domains seen cs)) \<and>
   rc_failure_domain ` set (filter_new_domains seen cs) \<inter> seen = {}"
  by (induction seen cs rule: filter_new_domains.induct) auto

lemma filter_new_domains_sorted:
  "sorted (map candidate_key cs) \<Longrightarrow> sorted (map candidate_key (filter_new_domains seen cs))"
proof (induction seen cs rule: filter_new_domains.induct)
  case (2 seen c cs)
  then show ?case
    using filter_new_domains_subset [of "insert (rc_failure_domain c) seen" cs] by auto
qed simp

text \<open>Every domain that appears is taken by the first candidate that has it.\<close>

lemma filter_new_domains_covers:
  "rc_failure_domain ` set cs \<subseteq> seen \<union> rc_failure_domain ` set (filter_new_domains seen cs)"
proof (induction seen cs rule: filter_new_domains.induct)
  case (2 seen c cs)
  then show ?case by auto
qed simp

lemma candidate_key_le:
  "candidate_key a \<le> candidate_key b \<Longrightarrow> rc_score b \<le> rc_score a"
  by (auto simp: candidate_key_def less_eq_prod_def word_le_def)

text \<open>Sorting by an injective key does not depend on the order of the input.\<close>

lemma sort_key_mset_cong:
  assumes "mset xs = mset ys" and "inj_on f (set xs)"
  shows "sort_key f xs = sort_key f ys"
proof (rule properties_for_sort_key)
  show "mset (sort_key f ys) = mset xs" using assms(1) by simp
  show "sorted (map f (sort_key f ys))" by simp
next
  fix k
  assume "k \<in> set (sort_key f ys)"
  with assms(1) have k: "k \<in> set xs" by (metis set_sort mset_eq_setD)
  have eq: "x = k" if "x \<in> set xs" "f k = f x" for x
    using assms(2) k that by (simp add: inj_on_def)
  have rep: "filter (\<lambda>x. f k = f x) zs = replicate (count (mset zs) k) k" if "set zs \<subseteq> set xs" for zs
    using that
  proof (induction zs)
    case (Cons z zs)
    then show ?case using eq [of z] by auto
  qed simp
  have "set (sort_key f ys) \<subseteq> set xs" using assms(1) by (metis set_sort mset_eq_setD order_refl)
  with rep [of xs] rep [of "sort_key f ys"] assms(1)
  show "filter (\<lambda>x. f k = f x) (sort_key f ys) = filter (\<lambda>x. f k = f x) xs" by simp
qed

lemma clamp_small: "n < 18446744073709551616 \<Longrightarrow> unat (clamp_u128_to_u64 n) = n"
  by (simp add: clamp_u128_to_u64_def unat_of_nat)

lemma ratio_bps_value:
  "maximum \<noteq> 0 \<Longrightarrow> unat (ratio_bps current maximum) = min (unat current) (unat maximum) * 10000 div unat maximum"
proof -
  assume m: "maximum \<noteq> 0"
  then have pos: "0 < unat maximum" by (simp add: unat_gt_0)
  have min: "unat (min current maximum) = min (unat current) (unat maximum)"
    by (simp add: min_def word_le_nat_alt)
  have "min (unat current) (unat maximum) * 10000 div unat maximum \<le> unat maximum * 10000 div unat maximum"
    by (intro div_le_mono mult_le_mono1) simp
  then have "min (unat current) (unat maximum) * 10000 div unat maximum \<le> 10000" using pos by simp
  then show ?thesis using m min by (simp add: ratio_bps_def BASIS_POINTS_def clamp_small)
qed

text \<open>The eligible nodes as candidates, best first.\<close>

definition eligible_candidates ::
  "relay_selection_policy \<Rightarrow> relay_node_snapshot list \<Rightarrow> u64 \<Rightarrow> relay_selected_candidate list" where
  "eligible_candidates policy nodes now = sort_key candidate_key
     (map (relay_candidate policy) (filter (\<lambda>n. rejection_reason policy n now = None) nodes))"

lemma eligible_sorted: "sorted (map candidate_key (eligible_candidates policy nodes now))"
  unfolding eligible_candidates_def by (rule sorted_sort_key)

lemma select_relays_Ok:
  assumes "select_relays policy nodes now = Ok d"
  obtains p rest where "eligible_candidates policy nodes now = p # rest" "rd_primary d = p"
    "rd_backups d = take (rp_max_backups policy) (filter_new_domains {rc_failure_domain p} rest)"
  using assms that
  by (auto simp: select_relays_def eligible_candidates_def Let_def split: list.splits)

lemma eligible_node:
  assumes "rejection_reason policy n now = None"
  shows "now < rn_lease_expires_at_ms n" "rn_state n \<in> {Ready, Degraded}"
    "rn_active_allocations n < rn_max_allocations n" "rn_current_egress_bps n < rn_max_egress_bps n"
    "rc_endpoints (relay_candidate policy n) \<noteq> []"
    "\<forall>e\<in>set (rc_endpoints (relay_candidate policy n)). re_transport e \<in> set (rp_accepted_transports policy)"
  using assms unfolding rejection_reason_None
  by (auto simp: relay_candidate_def transport_is_accepted_def filter_empty_conv)

lemma eligible_best:
  assumes cs: "eligible_candidates policy nodes now = p # rest"
    and "n \<in> set nodes" "rejection_reason policy n now = None"
  shows "relay_score policy n \<le> rc_score p"
proof -
  have "relay_candidate policy n \<in> set (eligible_candidates policy nodes now)"
    using assms(2,3) by (auto simp: eligible_candidates_def)
  then have "candidate_key p \<le> candidate_key (relay_candidate policy n)"
    using eligible_sorted [of policy nodes now] cs by auto
  from candidate_key_le [OF this] show ?thesis by (simp add: relay_candidate_def)
qed

lemma chosen_backups:
  assumes cs: "eligible_candidates policy nodes now = p # rest"
  shows "set (p # take k (filter_new_domains {rc_failure_domain p} rest)) \<subseteq> set (p # rest)"
    "sorted (map candidate_key (p # take k (filter_new_domains {rc_failure_domain p} rest)))"
    "distinct (map rc_failure_domain (p # take k (filter_new_domains {rc_failure_domain p} rest)))"
proof -
  let ?f = "filter_new_domains {rc_failure_domain p} rest"
  note sub = filter_new_domains_subset [of "{rc_failure_domain p}" rest]
  show "set (p # take k ?f) \<subseteq> set (p # rest)" using sub set_take_subset [of k ?f] by auto
  have "sorted (map candidate_key (p # rest))" using eligible_sorted [of policy nodes now] cs by simp
  then have "sorted (map candidate_key (p # ?f))" using filter_new_domains_sorted [of rest] sub by auto
  then have "sorted (take (Suc k) (map candidate_key (p # ?f)))" by (rule sorted_wrt_take)
  then show "sorted (map candidate_key (p # take k ?f))" by (simp only: take_map take_Suc_Cons)
  show "distinct (map rc_failure_domain (p # take k ?f))"
    using filter_new_domains_distinct [of "{rc_failure_domain p}" rest]
    by (auto simp: take_map [symmetric] distinct_take dest: in_set_takeD)
qed

text \<open>Heartbeats: the streak counts the healthy heartbeats since the last unhealthy one.\<close>

definition three_healthy :: "bool list \<Rightarrow> bool" where
  "three_healthy beats \<longleftrightarrow> (\<exists>before after. beats = before @ [True, True, True] @ after)"

definition heartbeat_inv :: "relay_node_state \<Rightarrow> bool list \<Rightarrow> relay_health_tracker \<Rightarrow> bool" where
  "heartbeat_inv st beats t \<longleftrightarrow>
     (ht_streak t = 0 \<or> ht_streak t = 1 \<or> ht_streak t = 2) \<and>
     (st \<in> {Draining, Revoked} \<longrightarrow> ht_state t = st) \<and>
     (st \<in> {Enrolling, Degraded, Unavailable} \<longrightarrow>
        three_healthy beats \<or>
        (ht_state t \<in> {Enrolling, Degraded, Unavailable} \<and>
         (ht_streak t = 1 \<longrightarrow> (\<exists>before. beats = before @ [True])) \<and>
         (ht_streak t = 2 \<longrightarrow> (\<exists>before. beats = before @ [True, True]))))"

lemma three_healthy_snoc: "three_healthy beats \<Longrightarrow> three_healthy (beats @ [b])"
  unfolding three_healthy_def by (metis append.assoc)

lemma healthy_heartbeat:
  assumes "ht_state t \<in> {Enrolling, Degraded, Unavailable}"
  shows "ht_streak t = 0 \<Longrightarrow> record_heartbeat True t = t\<lparr>ht_streak := 1\<rparr>"
    "ht_streak t = 1 \<Longrightarrow> record_heartbeat True t = t\<lparr>ht_streak := 2\<rparr>"
    "ht_streak t = 2 \<Longrightarrow> record_heartbeat True t = t\<lparr>ht_state := Ready, ht_streak := 0\<rparr>"
  using assms
  by (simp_all add: record_heartbeat_def HEALTHY_HEARTBEATS_TO_RECOVER_def saturating_add_def
      min_def word_le_nat_alt)

lemma heartbeat_other:
  "ht_state t \<notin> {Enrolling, Degraded, Unavailable} \<Longrightarrow> record_heartbeat True t = t\<lparr>ht_streak := 0\<rparr>"
  "record_heartbeat False t = t\<lparr>ht_streak := 0,
     ht_state := (case ht_state t of Enrolling \<Rightarrow> Unavailable | Ready \<Rightarrow> Degraded | s \<Rightarrow> s)\<rparr>"
  by (simp_all add: record_heartbeat_def)

lemma heartbeat_inv_step:
  assumes "heartbeat_inv st beats t"
  shows "heartbeat_inv st (beats @ [b]) (record_heartbeat b t)"
proof -
  have third: "three_healthy ((before @ [True, True]) @ [True])" for before
    unfolding three_healthy_def by (intro exI [of _ before] exI [of _ "[]"]) simp
  have second: "\<exists>c. (before @ [True]) @ [True] = c @ [True, True]" for before by simp
  from assms have s: "ht_streak t = 0 \<or> ht_streak t = 1 \<or> ht_streak t = 2"
    and d: "st \<in> {Draining, Revoked} \<Longrightarrow> ht_state t = st"
    and r: "st \<in> {Enrolling, Degraded, Unavailable} \<Longrightarrow> three_healthy beats \<or>
        (ht_state t \<in> {Enrolling, Degraded, Unavailable} \<and>
         (ht_streak t = 1 \<longrightarrow> (\<exists>before. beats = before @ [True])) \<and>
         (ht_streak t = 2 \<longrightarrow> (\<exists>before. beats = before @ [True, True])))"
    by (simp_all only: heartbeat_inv_def)
  show ?thesis
  proof (cases b)
    case False
    have "ht_state t \<in> {Enrolling, Degraded, Unavailable} \<Longrightarrow>
        (case ht_state t of Enrolling \<Rightarrow> Unavailable | Ready \<Rightarrow> Degraded | s \<Rightarrow> s) \<in> {Enrolling, Degraded, Unavailable}"
      by auto
    with False d r three_healthy_snoc [of beats b] show ?thesis
      by (auto simp: heartbeat_inv_def heartbeat_other)
  next
    case True
    show ?thesis
    proof (cases "ht_state t \<in> {Enrolling, Degraded, Unavailable}")
      case rec: True
      then have nd: "st \<notin> {Draining, Revoked}" using d by auto
      from s show ?thesis
      proof (elim disjE)
        assume 0: "ht_streak t = 0"
        then show ?thesis using True rec nd by (simp add: heartbeat_inv_def healthy_heartbeat [OF rec])
      next
        assume 1: "ht_streak t = 1"
        then show ?thesis using True rec nd r second three_healthy_snoc [of beats b]
          by (auto simp: heartbeat_inv_def healthy_heartbeat [OF rec])
      next
        assume 2: "ht_streak t = 2"
        then have "three_healthy (beats @ [b])" if "st \<in> {Enrolling, Degraded, Unavailable}"
          using r [OF that] third three_healthy_snoc [of beats b] True by auto
        with 2 show ?thesis using True nd by (simp add: heartbeat_inv_def healthy_heartbeat [OF rec])
      qed
    next
      case False
      with True d r three_healthy_snoc [of beats b] show ?thesis
        by (auto simp: heartbeat_inv_def heartbeat_other)
    qed
  qed
qed

lemma heartbeats_inv: "heartbeat_inv st beats (fold record_heartbeat beats (health_new st))"
proof (induction beats rule: rev_induct)
  case Nil
  then show ?case by (simp add: heartbeat_inv_def health_new_def)
next
  case (snoc b beats)
  then show ?case using heartbeat_inv_step by simp
qed

section \<open>Properties\<close>

text \<open>
  C24. A selection is sound: the primary and every backup come from a node of the snapshot
  whose lease is fresh, which is Ready or Degraded, below both capacity limits and reachable
  over an accepted transport, and list only accepted endpoints, at least one; no two of them
  share a failure domain; there are at most the configured number of backups; no eligible node
  scores higher than the primary and the backups are in descending order of score.
\<close>

theorem select_relays_sound:
  assumes "select_relays policy nodes now = Ok d"
  shows "(\<forall>c\<in>set (rd_primary d # rd_backups d). \<exists>n\<in>set nodes.
      c = relay_candidate policy n \<and> now < rn_lease_expires_at_ms n \<and>
      rn_state n \<in> {Ready, Degraded} \<and> rn_active_allocations n < rn_max_allocations n \<and>
      rn_current_egress_bps n < rn_max_egress_bps n \<and> rc_endpoints c \<noteq> [] \<and>
      (\<forall>e\<in>set (rc_endpoints c). re_transport e \<in> set (rp_accepted_transports policy))) \<and>
    distinct (map rc_failure_domain (rd_primary d # rd_backups d)) \<and>
    length (rd_backups d) \<le> rp_max_backups policy \<and>
    (\<forall>n\<in>set nodes. rejection_reason policy n now = None \<longrightarrow>
       relay_score policy n \<le> rc_score (rd_primary d)) \<and>
    sorted_wrt (\<ge>) (map rc_score (rd_primary d # rd_backups d))"
proof -
  obtain p rest where cs: "eligible_candidates policy nodes now = p # rest" and d: "rd_primary d = p"
    "rd_backups d = take (rp_max_backups policy) (filter_new_domains {rc_failure_domain p} rest)"
    using select_relays_Ok [OF assms] .
  let ?sel = "rd_primary d # rd_backups d"
  have sel: "set ?sel \<subseteq> set (p # rest)" "sorted (map candidate_key ?sel)"
    "distinct (map rc_failure_domain ?sel)"
    unfolding d using chosen_backups [OF cs, of "rp_max_backups policy"] by auto
  have from_node: "\<forall>c\<in>set ?sel. \<exists>n\<in>set nodes. c = relay_candidate policy n \<and>
      now < rn_lease_expires_at_ms n \<and> rn_state n \<in> {Ready, Degraded} \<and>
      rn_active_allocations n < rn_max_allocations n \<and>
      rn_current_egress_bps n < rn_max_egress_bps n \<and> rc_endpoints c \<noteq> [] \<and>
      (\<forall>e\<in>set (rc_endpoints c). re_transport e \<in> set (rp_accepted_transports policy))"
  proof
    fix c assume "c \<in> set ?sel"
    then have "c \<in> set (eligible_candidates policy nodes now)" unfolding cs using sel(1) by blast
    then obtain n where n: "n \<in> set nodes" "c = relay_candidate policy n"
      "rejection_reason policy n now = None"
      by (auto simp: eligible_candidates_def)
    from n(1) show "\<exists>n\<in>set nodes. c = relay_candidate policy n \<and>
      now < rn_lease_expires_at_ms n \<and> rn_state n \<in> {Ready, Degraded} \<and>
      rn_active_allocations n < rn_max_allocations n \<and>
      rn_current_egress_bps n < rn_max_egress_bps n \<and> rc_endpoints c \<noteq> [] \<and>
      (\<forall>e\<in>set (rc_endpoints c). re_transport e \<in> set (rp_accepted_transports policy))"
      using eligible_node [OF n(3)] n(2) by (intro bexI [of _ n]) simp_all
  qed
  have best: "\<forall>n\<in>set nodes. rejection_reason policy n now = None \<longrightarrow>
      relay_score policy n \<le> rc_score (rd_primary d)"
    unfolding d using eligible_best [OF cs] by blast
  have "sorted_wrt (\<ge>) (map rc_score ?sel)"
    using sel(2) unfolding sorted_wrt_map
    by (rule sorted_wrt_mono_rel [rotated]) (rule candidate_key_le)
  moreover have "length (rd_backups d) \<le> rp_max_backups policy" by (simp add: d)
  ultimately show ?thesis using from_node sel(3) best by blast
qed

definition sample_policy :: relay_selection_policy where
  "sample_policy =
     \<lparr>rp_preferred_regions = [''eu''], rp_accepted_transports = [Udp, Tls], rp_max_backups = 2,
      rp_soft_allocation_limit_bps = 8000,
      rp_weights = \<lparr>rw_base_score = 1000, rw_region_preference = 10, rw_rtt_penalty_per_ms = 1,
        rw_allocation_utilization_penalty = 100, rw_bandwidth_headroom_reward = 100,
        rw_recent_failure_penalty = 100, rw_soft_full_penalty = 50, rw_degraded_penalty = 200\<rparr>\<rparr>"

definition sample_node :: "string \<Rightarrow> relay_node_state \<Rightarrow> relay_node_snapshot" where
  "sample_node i st =
     \<lparr>rn_node_id = i, rn_region = ''eu'', rn_failure_domain = ''rack'', rn_state = st,
      rn_lease_expires_at_ms = 9000,
      rn_endpoints = [\<lparr>re_transport = Udp, re_host = ''h'', re_port = 3478\<rparr>],
      rn_active_allocations = 1, rn_max_allocations = 10, rn_current_egress_bps = 1,
      rn_max_egress_bps = 10, rn_recent_failure_bps = 0, rn_measured_rtt_ms = Some 20\<rparr>"

lemma sample_reasons:
  "rejection_reason sample_policy (sample_node i Ready) 8000 = None"
  "rejection_reason sample_policy (sample_node i Draining) 8000 = Some RejDraining"
  by (simp_all add: rejection_reason_def sample_node_def lease_is_fresh_def
      has_compatible_transport_def transport_is_accepted_def sample_policy_def word_le_nat_alt)

theorem select_relays_sound_witness:
  "\<exists>d. select_relays sample_policy [sample_node ''b'' Draining, sample_node ''a'' Ready] 8000 = Ok d \<and>
     length (rd_backups d) \<le> 2 \<and> rd_rejections d = [\<lparr>rej_node_id = ''b'', rej_reason = RejDraining\<rparr>]"
proof -
  obtain d where d: "select_relays sample_policy [sample_node ''b'' Draining, sample_node ''a'' Ready] 8000 = Ok d"
    and r: "rd_rejections d = [\<lparr>rej_node_id = ''b'', rej_reason = RejDraining\<rparr>]"
    by (simp add: select_relays_def sample_reasons List.map_filter_simps Let_def)
      (simp add: sample_node_def)
  from select_relays_sound [OF d] have "length (rd_backups d) \<le> rp_max_backups sample_policy" by blast
  with d r show ?thesis by (auto simp: sample_policy_def)
qed

text \<open>
  C26. When the outcome does not depend on the order in which nodes are reported.  If no two eligible
  reports of one node identifier reach the same score with different contents (in particular if the
  identifiers are pairwise different), any reordering gives the same primary, backups and
  explanations; a node may be reported twice and rejected nodes may be reported in any way.  The
  condition is needed, because the sort is stable and \<open>select_relays\<close> does not reject repeated
  identifiers: two such reports alone give different primaries in their two orders.
\<close>

theorem select_relays_order_independent:
  "(mset nodes = mset nodes' \<and>
      (\<forall>n\<in>set nodes. \<forall>n'\<in>set nodes. rejection_reason policy n now = None \<and> rejection_reason policy n' now = None \<and>
         rn_node_id n = rn_node_id n' \<and> relay_score policy n = relay_score policy n' \<longrightarrow>
         relay_candidate policy n = relay_candidate policy n') \<longrightarrow>
      select_relays policy nodes now = select_relays policy nodes' now) \<and>
   (rejection_reason policy n now = None \<and> rejection_reason policy n' now = None \<and>
      rn_node_id n = rn_node_id n' \<and> relay_score policy n = relay_score policy n' \<and>
      relay_candidate policy n \<noteq> relay_candidate policy n' \<longrightarrow>
      select_relays policy [n, n'] now \<noteq> select_relays policy [n', n] now)"
proof (intro conjI impI)
  assume a: "mset nodes = mset nodes' \<and>
    (\<forall>n\<in>set nodes. \<forall>n'\<in>set nodes. rejection_reason policy n now = None \<and> rejection_reason policy n' now = None \<and>
       rn_node_id n = rn_node_id n' \<and> relay_score policy n = relay_score policy n' \<longrightarrow>
       relay_candidate policy n = relay_candidate policy n')"
  let ?el = "\<lambda>ns. map (relay_candidate policy) (filter (\<lambda>n. rejection_reason policy n now = None) ns)"
  let ?rej = "\<lambda>n. map_option (\<lambda>reason. \<lparr>rej_node_id = rn_node_id n, rej_reason = reason\<rparr>)
    (rejection_reason policy n now)"
  have "sort_key candidate_key (?el nodes) = sort_key candidate_key (?el nodes')"
  proof (rule sort_key_mset_cong)
    show "mset (?el nodes) = mset (?el nodes')" using a by (simp add: mset_filter)
    show "inj_on candidate_key (set (?el nodes))"
    proof (rule inj_onI)
      fix c c' assume "c \<in> set (?el nodes)" "c' \<in> set (?el nodes)" and key: "candidate_key c = candidate_key c'"
      then obtain n n' where n: "n \<in> set nodes" "n' \<in> set nodes" "rejection_reason policy n now = None"
        "rejection_reason policy n' now = None" "c = relay_candidate policy n" "c' = relay_candidate policy n'" by auto
      from key n(5,6) have "rn_node_id n = rn_node_id n'" "relay_score policy n = relay_score policy n'"
        by (simp_all add: candidate_key_def relay_candidate_def word_uint_eq_iff)
      with a n show "c = c'" by blast
    qed
  qed
  moreover have "sort_key rejection_key (List.map_filter ?rej nodes) =
      sort_key rejection_key (List.map_filter ?rej nodes')"
  proof (rule sort_key_mset_cong)
    have "mset (List.map_filter ?rej ns) = image_mset (\<lambda>n. the (?rej n)) (filter_mset (\<lambda>n. ?rej n \<noteq> None) (mset ns))" for ns
      by (simp add: List.map_filter_def mset_filter comp_def)
    then show "mset (List.map_filter ?rej nodes) = mset (List.map_filter ?rej nodes')"
      using a by simp
    show "inj_on rejection_key (set (List.map_filter ?rej nodes))"
      by (auto simp: inj_on_def rejection_key_def)
  qed
  ultimately show "select_relays policy nodes now = select_relays policy nodes' now"
    by (simp add: select_relays_def Let_def)
next
  assume t: "rejection_reason policy n now = None \<and> rejection_reason policy n' now = None \<and>
    rn_node_id n = rn_node_id n' \<and> relay_score policy n = relay_score policy n' \<and>
    relay_candidate policy n \<noteq> relay_candidate policy n'"
  then have "candidate_key (relay_candidate policy n) = candidate_key (relay_candidate policy n')"
    by (simp add: candidate_key_def relay_candidate_def)
  with t show "select_relays policy [n, n'] now \<noteq> select_relays policy [n', n] now"
    by (auto simp: select_relays_def Let_def)
qed

theorem select_relays_order_independent_witness:
  "select_relays sample_policy [sample_node ''a'' Ready, sample_node ''b'' Ready, sample_node ''a'' Ready] 8000 =
     select_relays sample_policy [sample_node ''b'' Ready, sample_node ''a'' Ready, sample_node ''a'' Ready] 8000 \<and>
   select_relays sample_policy [sample_node ''a'' Ready, (sample_node ''a'' Ready)\<lparr>rn_failure_domain := ''other''\<rparr>] 8000 \<noteq>
     select_relays sample_policy [(sample_node ''a'' Ready)\<lparr>rn_failure_domain := ''other''\<rparr>, sample_node ''a'' Ready] 8000"
proof -
  let ?a = "sample_node ''a'' Ready" and ?b = "sample_node ''b'' Ready"
  let ?c = "?a\<lparr>rn_failure_domain := ''other''\<rparr>"
  note th = select_relays_order_independent [of "[?a, ?b, ?a]" "[?b, ?a, ?a]" sample_policy 8000 ?a ?c]
  have "mset [?a, ?b, ?a] = mset [?b, ?a, ?a]" by (simp add: add_mset_commute)
  moreover have "rn_node_id ?a \<noteq> rn_node_id ?b" by (simp add: sample_node_def)
  then have "\<forall>n\<in>set [?a, ?b, ?a]. \<forall>n'\<in>set [?a, ?b, ?a]. rejection_reason sample_policy n 8000 = None \<and>
      rejection_reason sample_policy n' 8000 = None \<and> rn_node_id n = rn_node_id n' \<and>
      relay_score sample_policy n = relay_score sample_policy n' \<longrightarrow>
      relay_candidate sample_policy n = relay_candidate sample_policy n'"
    unfolding list.set by (metis empty_iff insert_iff)
  ultimately have 1: "select_relays sample_policy [?a, ?b, ?a] 8000 = select_relays sample_policy [?b, ?a, ?a] 8000"
    using th by blast
  have "rejection_reason sample_policy ?c 8000 = None"
    by (simp add: rejection_reason_def sample_node_def lease_is_fresh_def
      has_compatible_transport_def transport_is_accepted_def sample_policy_def word_le_nat_alt)
  moreover have "relay_score sample_policy ?a = relay_score sample_policy ?c"
    by (simp add: relay_score_def sample_node_def)
  moreover have "relay_candidate sample_policy ?a \<noteq> relay_candidate sample_policy ?c" "rn_node_id ?a = rn_node_id ?c"
    by (simp_all add: relay_candidate_def sample_node_def)
  ultimately have "select_relays sample_policy [?a, ?c] 8000 \<noteq> select_relays sample_policy [?c, ?a] 8000"
    using th sample_reasons(1) [of "''a''"] by blast
  with 1 show ?thesis ..
qed

text \<open>
  Every node is accounted for: selection fails exactly when every node has a rejection
  reason, and the explanations, on success and on failure, are exactly one entry per rejected
  node with its reason, in order of node identifier.
\<close>

theorem select_relays_explains:
  "(select_relays policy nodes now = Err rs \<longrightarrow>
      (\<forall>n\<in>set nodes. rejection_reason policy n now \<noteq> None)) \<and>
   ((\<forall>n\<in>set nodes. rejection_reason policy n now \<noteq> None) \<longrightarrow>
      (\<exists>rs. select_relays policy nodes now = Err rs)) \<and>
   (select_relays policy nodes now = Err rs \<or>
      (\<exists>d. select_relays policy nodes now = Ok d \<and> rs = rd_rejections d) \<longrightarrow>
      mset rs = mset (map (\<lambda>n. \<lparr>rej_node_id = rn_node_id n,
          rej_reason = the (rejection_reason policy n now)\<rparr>)
        (filter (\<lambda>n. rejection_reason policy n now \<noteq> None) nodes)) \<and>
      sorted (map rej_node_id rs))"
proof -
  let ?rej = "\<lambda>n. map_option (\<lambda>reason. \<lparr>rej_node_id = rn_node_id n, rej_reason = reason\<rparr>)
    (rejection_reason policy n now)"
  let ?rs = "sort_key rejection_key (List.map_filter ?rej nodes)"
  have rej: "rs = ?rs" if "select_relays policy nodes now = Err rs \<or>
      (\<exists>d. select_relays policy nodes now = Ok d \<and> rs = rd_rejections d)"
    using that by (auto simp: select_relays_def Let_def split: list.splits)
  have empty: "(\<exists>rs. select_relays policy nodes now = Err rs) \<longleftrightarrow> eligible_candidates policy nodes now = []"
    by (auto simp: select_relays_def eligible_candidates_def Let_def split: list.splits)
  have none: "eligible_candidates policy nodes now = [] \<longleftrightarrow>
      (\<forall>n\<in>set nodes. rejection_reason policy n now \<noteq> None)"
    unfolding eligible_candidates_def
    by (simp only: length_0_conv [symmetric] length_sort length_map) (simp add: filter_empty_conv)
  have "List.map_filter ?rej ns = map (\<lambda>n. \<lparr>rej_node_id = rn_node_id n,
          rej_reason = the (rejection_reason policy n now)\<rparr>)
        (filter (\<lambda>n. rejection_reason policy n now \<noteq> None) ns)" for ns
    by (induction ns) (auto simp: List.map_filter_simps)
  then have ms: "mset ?rs = mset (map (\<lambda>n. \<lparr>rej_node_id = rn_node_id n,
          rej_reason = the (rejection_reason policy n now)\<rparr>)
        (filter (\<lambda>n. rejection_reason policy n now \<noteq> None) nodes))"
    by (simp only: mset_sort)
  have "sorted (map rejection_key ?rs)" by simp
  then have so: "sorted (map rej_node_id ?rs)"
    unfolding sorted_wrt_map
    by (rule sorted_wrt_mono_rel [rotated]) (auto simp: rejection_key_def less_eq_prod_def)
  show ?thesis
  proof (intro conjI impI)
    assume "select_relays policy nodes now = Err rs"
    then show "\<forall>n\<in>set nodes. rejection_reason policy n now \<noteq> None" using empty none by blast
  next
    assume "\<forall>n\<in>set nodes. rejection_reason policy n now \<noteq> None"
    then show "\<exists>rs. select_relays policy nodes now = Err rs" using empty none by blast
  next
    assume "select_relays policy nodes now = Err rs \<or>
      (\<exists>d. select_relays policy nodes now = Ok d \<and> rs = rd_rejections d)"
    then have "rs = ?rs" by (rule rej)
    with ms so show "mset rs = mset (map (\<lambda>n. \<lparr>rej_node_id = rn_node_id n,
          rej_reason = the (rejection_reason policy n now)\<rparr>)
        (filter (\<lambda>n. rejection_reason policy n now \<noteq> None) nodes))"
      and "sorted (map rej_node_id rs)" by (simp_all only:)
  qed
qed

theorem select_relays_explains_witness:
  "\<exists>rs. select_relays sample_policy [sample_node ''b'' Draining] 8000 = Err rs"
  using select_relays_explains [of sample_policy "[sample_node ''b'' Draining]" 8000 "[]"]
  by (simp add: sample_reasons)

text \<open>
  Recovery of a relay: whatever heartbeats a tracker sees, it counts fewer than three; a
  node that starts out enrolling, degraded or unavailable can be Ready only after three healthy
  heartbeats in a row, and Draining and Revoked are never left by heartbeats.
\<close>

theorem health_recovery:
  "ht_streak (fold record_heartbeat beats (health_new st)) < 3 \<and>
   (st \<in> {Draining, Revoked} \<longrightarrow> ht_state (fold record_heartbeat beats (health_new st)) = st) \<and>
   (st \<in> {Enrolling, Degraded, Unavailable} \<and>
      ht_state (fold record_heartbeat beats (health_new st)) = Ready \<longrightarrow>
      (\<exists>before after. beats = before @ [True, True, True] @ after))"
proof -
  let ?t = "fold record_heartbeat beats (health_new st)"
  have inv: "(ht_streak ?t = 0 \<or> ht_streak ?t = 1 \<or> ht_streak ?t = 2)"
    "st \<in> {Draining, Revoked} \<longrightarrow> ht_state ?t = st"
    "st \<in> {Enrolling, Degraded, Unavailable} \<longrightarrow>
       three_healthy beats \<or> ht_state ?t \<in> {Enrolling, Degraded, Unavailable}"
    using heartbeats_inv [of st beats] unfolding heartbeat_inv_def by blast+
  from inv(1) have "ht_streak ?t < 3" by auto
  moreover have "Ready \<notin> {Enrolling, Degraded, Unavailable}" by simp
  ultimately show ?thesis using inv(2,3) unfolding three_healthy_def by metis
qed

theorem health_recovery_witness:
  "ht_state (fold record_heartbeat [False, True, True] (health_new Degraded)) \<noteq> Ready \<and>
   ht_state (fold record_heartbeat [False, True, True, True] (health_new Degraded)) = Ready"
proof
  have "\<not> (\<exists>before after. [False, True, True] = before @ [True, True, True] @ after)"
    by (auto simp: Cons_eq_append_conv)
  then show "ht_state (fold record_heartbeat [False, True, True] (health_new Degraded)) \<noteq> Ready"
    using health_recovery [of "[False, True, True]" Degraded] by blast
  show "ht_state (fold record_heartbeat [False, True, True, True] (health_new Degraded)) = Ready"
    by (simp add: record_heartbeat_def health_new_def HEALTHY_HEARTBEATS_TO_RECOVER_def
        saturating_add_def Let_def)
qed

end
