(* ===== verification/Relay_Directory.thy ===== *)
theory Relay_Directory
  imports Mrd_Prelude "HOL-Library.Multiset" "HOL-Library.List_Lexorder" "HOL-Library.Char_ord"
    "HOL-Library.Product_Lexorder"
begin

text \<open>
  The signed, session-bound relay directory (\<open>mrd-relay-control/src/directory.rs\<close>): the wire
  types, contract validation, the canonical byte string a signature covers, bounded JSON entry
  and verification.  \<open>serde_json\<close>, \<open>base64\<close> and \<open>ed25519_dalek\<close> are outside the repository;
  what the source calls of them is the parameter \<open>directory_env\<close>.  Byte strings are compared
  lexicographically, which for the characters of a string is the order of their codes.
\<close>

section \<open>Data\<close>

definition RELAY_DIRECTORY_CONTEXT :: bytes where
  "RELAY_DIRECTORY_CONTEXT = as_bytes ''MRD_RELAY_DIRECTORY_V1''"
definition RELAY_DIRECTORY_FORMAT_VERSION :: u16 where "RELAY_DIRECTORY_FORMAT_VERSION = 1"
definition MAX_RELAY_DIRECTORY_JSON_BYTES :: nat where "MAX_RELAY_DIRECTORY_JSON_BYTES = 131072"
definition MAX_CANDIDATES :: nat where "MAX_CANDIDATES = 8"
definition MAX_ENDPOINTS_PER_CANDIDATE :: nat where "MAX_ENDPOINTS_PER_CANDIDATE = 4"
definition MAX_STRING_BYTES :: nat where "MAX_STRING_BYTES = 256"
definition MAX_CANONICAL_BYTES :: nat where "MAX_CANONICAL_BYTES = 16384"

lemmas directory_limits =
  RELAY_DIRECTORY_FORMAT_VERSION_def MAX_RELAY_DIRECTORY_JSON_BYTES_def MAX_CANDIDATES_def
  MAX_ENDPOINTS_PER_CANDIDATE_def MAX_STRING_BYTES_def MAX_CANONICAL_BYTES_def

datatype relay_directory_transport = DirUdp | DirTcp | DirTls

fun wire_code :: "relay_directory_transport \<Rightarrow> u8" where
  "wire_code DirUdp = 1" | "wire_code DirTcp = 2" | "wire_code DirTls = 3"

record relay_directory_endpoint =
  de_transport :: relay_directory_transport
  de_host :: string
  de_port :: u16

record relay_reservation =
  rr_reservation_id :: string
  rr_expires_at_ms :: u64

record relay_directory_candidate =
  dc_node_id :: string
  dc_region :: string
  dc_failure_domain :: string
  dc_endpoints :: "relay_directory_endpoint list"
  dc_capabilities :: u32
  dc_load_class :: u8
  dc_selection_reason :: string
  dc_reservation :: relay_reservation

record relay_directory_payload =
  dp_format_version :: u16
  dp_policy_revision :: u64
  dp_directory_id :: string
  dp_issued_at_ms :: u64
  dp_expires_at_ms :: u64
  dp_session_id :: string
  dp_intended_peer_digest :: string
  dp_candidates :: "relay_directory_candidate list"

record signed_relay_directory =
  sd_payload :: relay_directory_payload
  sd_signing_key_id :: string
  sd_signature_b64 :: string

record verified_relay_directory =
  vd_payload :: relay_directory_payload
  vd_canonical_signing_bytes :: bytes

record context_verified_relay_directory =
  cv_verified :: verified_relay_directory

datatype relay_directory_error =
    UnsupportedFormatVersion u16 | InvalidPolicyRevision | PolicyRevisionMismatch u64 u64
  | DirPeerBindingMismatch | JsonTooLarge nat | InvalidJson | TooManyCandidates nat
  | TooManyEndpoints nat | EmptyCandidates | EmptyEndpoints | DuplicateNode | DuplicateEndpoint
  | DuplicateReservation | NonCanonicalCandidateOrder | NonCanonicalEndpointOrder
  | EmptyField string | StringTooLong string nat | InvalidValidityWindow | InvalidReservation
  | InvalidLoadClass | DirNotYetValid | DirExpired | ReservationExpired | SessionMismatch
  | UntrustedSigningKey | InvalidPublicKey | InvalidSignatureEncoding | DirInvalidSignature
  | CanonicalEncodingTooLarge

subsection \<open>The private types the JSON decoder fills\<close>

datatype raw_transport = RawUdp | RawTcp | RawTls

record raw_endpoint =
  raw_transport :: raw_transport
  raw_host :: string
  raw_port :: u16

record raw_reservation =
  raw_reservation_id :: string
  raw_reservation_expires_at_ms :: u64

record raw_candidate =
  raw_node_id :: string
  raw_region :: string
  raw_failure_domain :: string
  raw_endpoints :: "raw_endpoint list"
  raw_capabilities :: u32
  raw_load_class :: u8
  raw_selection_reason :: string
  raw_reservation :: raw_reservation

record raw_payload =
  raw_format_version :: u16
  raw_policy_revision :: u64
  raw_directory_id :: string
  raw_issued_at_ms :: u64
  raw_expires_at_ms :: u64
  raw_session_id :: string
  raw_intended_peer_digest :: string
  raw_candidates :: "raw_candidate list"

record raw_signed_directory =
  raw_payload :: raw_payload
  raw_signing_key_id :: string
  raw_signature_b64 :: string

fun from_raw_transport :: "raw_transport \<Rightarrow> relay_directory_transport" where
  "from_raw_transport RawUdp = DirUdp"
| "from_raw_transport RawTcp = DirTcp"
| "from_raw_transport RawTls = DirTls"

definition from_raw_endpoint :: "raw_endpoint \<Rightarrow> relay_directory_endpoint" where
  "from_raw_endpoint raw =
     \<lparr>de_transport = from_raw_transport (raw_transport raw), de_host = raw_host raw,
      de_port = raw_port raw\<rparr>"

definition from_raw_reservation :: "raw_reservation \<Rightarrow> relay_reservation" where
  "from_raw_reservation raw =
     \<lparr>rr_reservation_id = raw_reservation_id raw,
      rr_expires_at_ms = raw_reservation_expires_at_ms raw\<rparr>"

definition from_raw_candidate :: "raw_candidate \<Rightarrow> relay_directory_candidate" where
  "from_raw_candidate raw =
     \<lparr>dc_node_id = raw_node_id raw, dc_region = raw_region raw,
      dc_failure_domain = raw_failure_domain raw,
      dc_endpoints = map from_raw_endpoint (raw_endpoints raw),
      dc_capabilities = raw_capabilities raw, dc_load_class = raw_load_class raw,
      dc_selection_reason = raw_selection_reason raw,
      dc_reservation = from_raw_reservation (raw_reservation raw)\<rparr>"

definition from_raw_payload :: "raw_payload \<Rightarrow> relay_directory_payload" where
  "from_raw_payload raw =
     \<lparr>dp_format_version = raw_format_version raw, dp_policy_revision = raw_policy_revision raw,
      dp_directory_id = raw_directory_id raw, dp_issued_at_ms = raw_issued_at_ms raw,
      dp_expires_at_ms = raw_expires_at_ms raw, dp_session_id = raw_session_id raw,
      dp_intended_peer_digest = raw_intended_peer_digest raw,
      dp_candidates = map from_raw_candidate (raw_candidates raw)\<rparr>"

definition from_raw_signed :: "raw_signed_directory \<Rightarrow> signed_relay_directory" where
  "from_raw_signed raw =
     \<lparr>sd_payload = from_raw_payload (raw_payload raw),
      sd_signing_key_id = raw_signing_key_id raw, sd_signature_b64 = raw_signature_b64 raw\<rparr>"

section \<open>Contract validation\<close>

definition validate_string :: "string \<Rightarrow> string \<Rightarrow> (unit, relay_directory_error) result" where
  "validate_string field value =
     (if value = [] then Err (EmptyField field)
      else if length value > MAX_STRING_BYTES then Err (StringTooLong field MAX_STRING_BYTES)
      else Ok ())"

text \<open>The first pass inserts keys into a set and fails on the first one already there.\<close>

fun insert_all_new :: "'e \<Rightarrow> 'k set \<Rightarrow> 'k list \<Rightarrow> (unit, 'e) result" where
  "insert_all_new e seen [] = Ok ()"
| "insert_all_new e seen (k # ks) =
     (if k \<in> seen then Err e else insert_all_new e (insert k seen) ks)"

fun adjacent_increasing :: "'e \<Rightarrow> 'e \<Rightarrow> 'k::linorder list \<Rightarrow> (unit, 'e) result" where
  "adjacent_increasing dup bad (a # b # ks) =
     (if a < b then adjacent_increasing dup bad (b # ks) else if a = b then Err dup else Err bad)"
| "adjacent_increasing dup bad _ = Ok ()"

definition validate_candidate_order ::
  "relay_directory_candidate list \<Rightarrow> (unit, relay_directory_error) result" where
  "validate_candidate_order candidates =
     and_then (insert_all_new DuplicateNode {} (map dc_node_id candidates)) (\<lambda>_.
       adjacent_increasing DuplicateNode NonCanonicalCandidateOrder (map dc_node_id candidates))"

definition endpoint_key :: "relay_directory_endpoint \<Rightarrow> u8 \<times> string \<times> u16" where
  "endpoint_key e = (wire_code (de_transport e), de_host e, de_port e)"

definition validate_endpoint_order ::
  "relay_directory_endpoint list \<Rightarrow> (unit, relay_directory_error) result" where
  "validate_endpoint_order endpoints =
     and_then (insert_all_new DuplicateEndpoint {}
         (map (\<lambda>e. (de_transport e, de_host e, de_port e)) endpoints)) (\<lambda>_.
       adjacent_increasing DuplicateEndpoint NonCanonicalEndpointOrder (map endpoint_key endpoints))"

fun validate_endpoints ::
  "relay_directory_endpoint list \<Rightarrow> (unit, relay_directory_error) result" where
  "validate_endpoints [] = Ok ()"
| "validate_endpoints (e # es) =
     and_then (validate_string ''endpoint_host'' (de_host e)) (\<lambda>_.
       if de_port e = 0 then Err (EmptyField ''endpoint_port'') else validate_endpoints es)"

fun validate_candidates ::
  "relay_directory_payload \<Rightarrow> string set \<Rightarrow> relay_directory_candidate list
   \<Rightarrow> (unit, relay_directory_error) result" where
  "validate_candidates p reservation_ids [] = Ok ()"
| "validate_candidates p reservation_ids (c # cs) =
     and_then (validate_string ''node_id'' (dc_node_id c)) (\<lambda>_.
     and_then (validate_string ''region'' (dc_region c)) (\<lambda>_.
     and_then (validate_string ''failure_domain'' (dc_failure_domain c)) (\<lambda>_.
     and_then (validate_string ''selection_reason'' (dc_selection_reason c)) (\<lambda>_.
     and_then (validate_string ''reservation_id'' (rr_reservation_id (dc_reservation c))) (\<lambda>_.
       if rr_reservation_id (dc_reservation c) \<in> reservation_ids then Err DuplicateReservation
       else if dc_load_class c > 3 then Err InvalidLoadClass
       else if rr_expires_at_ms (dc_reservation c) \<le> dp_issued_at_ms p
         \<or> rr_expires_at_ms (dc_reservation c) > dp_expires_at_ms p
       then Err InvalidReservation
       else if dc_endpoints c = [] then Err EmptyEndpoints
       else if length (dc_endpoints c) > MAX_ENDPOINTS_PER_CANDIDATE
       then Err (TooManyEndpoints MAX_ENDPOINTS_PER_CANDIDATE)
       else and_then (validate_endpoint_order (dc_endpoints c)) (\<lambda>_.
         and_then (validate_endpoints (dc_endpoints c)) (\<lambda>_.
           validate_candidates p
             (insert (rr_reservation_id (dc_reservation c)) reservation_ids) cs)))))))"

definition validate_contract ::
  "relay_directory_payload \<Rightarrow> (unit, relay_directory_error) result" where
  "validate_contract p =
     (if dp_format_version p \<noteq> RELAY_DIRECTORY_FORMAT_VERSION
      then Err (UnsupportedFormatVersion (dp_format_version p))
      else if dp_policy_revision p = 0 then Err InvalidPolicyRevision
      else and_then (validate_string ''directory_id'' (dp_directory_id p)) (\<lambda>_.
        and_then (validate_string ''session_id'' (dp_session_id p)) (\<lambda>_.
        and_then (validate_string ''intended_peer_digest'' (dp_intended_peer_digest p)) (\<lambda>_.
          if dp_issued_at_ms p \<ge> dp_expires_at_ms p then Err InvalidValidityWindow
          else if dp_candidates p = [] then Err EmptyCandidates
          else if length (dp_candidates p) > MAX_CANDIDATES
          then Err (TooManyCandidates MAX_CANDIDATES)
          else and_then (validate_candidate_order (dp_candidates p)) (\<lambda>_.
            validate_candidates p {} (dp_candidates p))))))"

section \<open>Canonical bytes\<close>

definition push_string :: "string \<Rightarrow> string \<Rightarrow> (bytes, relay_directory_error) result" where
  "push_string field value =
     and_then (validate_string field value) (\<lambda>_.
       Ok (u32_be (of_nat (length value)) @ as_bytes value))"

text \<open>A sequence of pushes onto the buffer, stopping at the first error.\<close>

fun push_all :: "(bytes, relay_directory_error) result list \<Rightarrow> (bytes, relay_directory_error) result" where
  "push_all [] = Ok []"
| "push_all (r # rs) = and_then r (\<lambda>b. and_then (push_all rs) (\<lambda>bs. Ok (b @ bs)))"

definition push_endpoint :: "relay_directory_endpoint \<Rightarrow> (bytes, relay_directory_error) result" where
  "push_endpoint e =
     push_all [Ok [wire_code (de_transport e)], push_string ''endpoint_host'' (de_host e),
               Ok (u16_be (de_port e))]"

definition push_candidate :: "relay_directory_candidate \<Rightarrow> (bytes, relay_directory_error) result" where
  "push_candidate c =
     (let endpoints = sort_key endpoint_key (dc_endpoints c) in
      push_all [push_string ''node_id'' (dc_node_id c), push_string ''region'' (dc_region c),
        push_string ''failure_domain'' (dc_failure_domain c),
        Ok (u32_be (of_nat (length endpoints))),
        push_all (map push_endpoint endpoints),
        Ok (u32_be (dc_capabilities c)), Ok [dc_load_class c],
        push_string ''selection_reason'' (dc_selection_reason c),
        push_string ''reservation_id'' (rr_reservation_id (dc_reservation c)),
        Ok (u64_be (rr_expires_at_ms (dc_reservation c)))])"

definition canonical_signing_bytes ::
  "relay_directory_payload \<Rightarrow> (bytes, relay_directory_error) result" where
  "canonical_signing_bytes p =
     and_then (validate_contract p) (\<lambda>_.
       let candidates = sort_key dc_node_id (dp_candidates p) in
       and_then (push_all [Ok RELAY_DIRECTORY_CONTEXT, Ok (u16_be (dp_format_version p)),
           Ok (u64_be (dp_policy_revision p)), push_string ''directory_id'' (dp_directory_id p),
           Ok (u64_be (dp_issued_at_ms p)), Ok (u64_be (dp_expires_at_ms p)),
           push_string ''session_id'' (dp_session_id p),
           push_string ''intended_peer_digest'' (dp_intended_peer_digest p),
           Ok (u32_be (of_nat (length candidates))), push_all (map push_candidate candidates)])
         (\<lambda>encoded. if length encoded > MAX_CANONICAL_BYTES then Err CanonicalEncodingTooLarge
                    else Ok encoded))"

section \<open>Entry and verification\<close>

text \<open>
  The calls into other crates: JSON decoding, base64 in both directions, \<open>Signature::from_slice\<close>
  and \<open>VerifyingKey::from_bytes\<close> as predicates on the bytes, and strict verification.
\<close>

record directory_env =
  env_from_slice :: "bytes \<Rightarrow> raw_signed_directory option"
  env_b64_decode :: "string \<Rightarrow> bytes option"
  env_b64_encode :: "bytes \<Rightarrow> string"
  env_signature_ok :: "bytes \<Rightarrow> bool"
  env_key_ok :: "bytes \<Rightarrow> bool"
  env_verify_strict :: "bytes \<Rightarrow> bytes \<Rightarrow> bytes \<Rightarrow> bool"

definition decode_signature ::
  "directory_env \<Rightarrow> string \<Rightarrow> (bytes, relay_directory_error) result" where
  "decode_signature env signature_b64 =
     (if signature_b64 = [] \<or> length signature_b64 > 128 then Err InvalidSignatureEncoding
      else and_then (ok_or InvalidSignatureEncoding (env_b64_decode env signature_b64)) (\<lambda>bs.
        if env_b64_encode env bs \<noteq> signature_b64 then Err InvalidSignatureEncoding
        else if \<not> env_signature_ok env bs then Err InvalidSignatureEncoding
        else Ok bs))"

definition directory_from_json ::
  "directory_env \<Rightarrow> bytes \<Rightarrow> (signed_relay_directory, relay_directory_error) result" where
  "directory_from_json env input =
     (if length input > MAX_RELAY_DIRECTORY_JSON_BYTES
      then Err (JsonTooLarge MAX_RELAY_DIRECTORY_JSON_BYTES)
      else and_then (ok_or InvalidJson (env_from_slice env input)) (\<lambda>raw.
        let signed = from_raw_signed raw in
        and_then (canonical_signing_bytes (sd_payload signed)) (\<lambda>_.
        and_then (validate_string ''signing_key_id'' (sd_signing_key_id signed)) (\<lambda>_.
        and_then (decode_signature env (sd_signature_b64 signed)) (\<lambda>_. Ok signed)))))"

definition directory_verify ::
  "directory_env \<Rightarrow> signed_relay_directory \<Rightarrow> (string, bytes) btree_map \<Rightarrow> string \<Rightarrow> u64
   \<Rightarrow> (verified_relay_directory, relay_directory_error) result" where
  "directory_verify env self trusted_keys expected_session_id now_ms =
     and_then (canonical_signing_bytes (sd_payload self)) (\<lambda>canonical.
     and_then (validate_string ''signing_key_id'' (sd_signing_key_id self)) (\<lambda>_.
       if dp_session_id (sd_payload self) \<noteq> expected_session_id then Err SessionMismatch
       else if now_ms < dp_issued_at_ms (sd_payload self) then Err DirNotYetValid
       else if now_ms \<ge> dp_expires_at_ms (sd_payload self) then Err DirExpired
       else if list_ex (\<lambda>c. now_ms \<ge> rr_expires_at_ms (dc_reservation c)) (dp_candidates (sd_payload self))
       then Err ReservationExpired
       else and_then (ok_or UntrustedSigningKey (map_of trusted_keys (sd_signing_key_id self))) (\<lambda>key.
         if length key \<noteq> 32 then Err InvalidPublicKey
         else if \<not> env_key_ok env key then Err InvalidPublicKey
         else and_then (decode_signature env (sd_signature_b64 self)) (\<lambda>sig.
           if \<not> env_verify_strict env key canonical sig then Err DirInvalidSignature
           else Ok \<lparr>vd_payload = sd_payload self, vd_canonical_signing_bytes = canonical\<rparr>))))"

definition verify_for_context ::
  "directory_env \<Rightarrow> signed_relay_directory \<Rightarrow> (string, bytes) btree_map \<Rightarrow> string \<Rightarrow> u64
   \<Rightarrow> string \<Rightarrow> u64 \<Rightarrow> (context_verified_relay_directory, relay_directory_error) result" where
  "verify_for_context env self trusted_keys expected_session_id expected_policy_revision
      expected_peer_digest now_ms =
     and_then (directory_verify env self trusted_keys expected_session_id now_ms) (\<lambda>verified.
       if dp_policy_revision (vd_payload verified) \<noteq> expected_policy_revision
       then Err (PolicyRevisionMismatch expected_policy_revision
              (dp_policy_revision (vd_payload verified)))
       else if dp_intended_peer_digest (vd_payload verified) \<noteq> expected_peer_digest
       then Err DirPeerBindingMismatch
       else Ok \<lparr>cv_verified = verified\<rparr>)"

section \<open>What validation establishes\<close>

definition string_ok :: "string \<Rightarrow> bool" where
  "string_ok v \<longleftrightarrow> v \<noteq> [] \<and> length v \<le> 256"

definition endpoint_ok :: "relay_directory_endpoint \<Rightarrow> bool" where
  "endpoint_ok e \<longleftrightarrow> string_ok (de_host e) \<and> de_port e \<noteq> 0"

definition candidate_ok :: "relay_directory_payload \<Rightarrow> relay_directory_candidate \<Rightarrow> bool" where
  "candidate_ok p c \<longleftrightarrow>
     string_ok (dc_node_id c) \<and> string_ok (dc_region c) \<and> string_ok (dc_failure_domain c) \<and>
     string_ok (dc_selection_reason c) \<and> string_ok (rr_reservation_id (dc_reservation c)) \<and>
     dc_load_class c \<le> 3 \<and> dp_issued_at_ms p < rr_expires_at_ms (dc_reservation c) \<and>
     rr_expires_at_ms (dc_reservation c) \<le> dp_expires_at_ms p \<and>
     dc_endpoints c \<noteq> [] \<and> length (dc_endpoints c) \<le> 4 \<and>
     sorted_wrt (<) (map endpoint_key (dc_endpoints c)) \<and> list_all endpoint_ok (dc_endpoints c)"

definition payload_ok :: "relay_directory_payload \<Rightarrow> bool" where
  "payload_ok p \<longleftrightarrow>
     dp_format_version p = 1 \<and> dp_policy_revision p \<noteq> 0 \<and> string_ok (dp_directory_id p) \<and>
     string_ok (dp_session_id p) \<and> string_ok (dp_intended_peer_digest p) \<and>
     dp_issued_at_ms p < dp_expires_at_ms p \<and>
     dp_candidates p \<noteq> [] \<and> length (dp_candidates p) \<le> 8 \<and>
     sorted_wrt (<) (map dc_node_id (dp_candidates p)) \<and>
     distinct (map (\<lambda>c. rr_reservation_id (dc_reservation c)) (dp_candidates p)) \<and>
     list_all (candidate_ok p) (dp_candidates p)"

lemma validate_string_Ok [simp]: "validate_string field v = Ok () \<longleftrightarrow> string_ok v"
  by (auto simp: validate_string_def string_ok_def MAX_STRING_BYTES_def)

lemma insert_all_new_Ok: "insert_all_new e seen ks = Ok () \<longleftrightarrow> distinct ks \<and> set ks \<inter> seen = {}"
  by (induction ks arbitrary: seen) auto

lemma adjacent_increasing_Ok: "adjacent_increasing dup bad ks = Ok () \<longleftrightarrow> sorted_wrt (<) ks"
proof (induction dup bad ks rule: adjacent_increasing.induct)
  case (1 dup bad a b ks)
  then show ?case by (auto dest: order.strict_trans)
qed auto

lemma validate_candidate_order_Ok:
  "validate_candidate_order cs = Ok () \<longleftrightarrow> sorted_wrt (<) (map dc_node_id cs)"
  by (auto simp: validate_candidate_order_def insert_all_new_Ok adjacent_increasing_Ok strict_sorted_iff)

lemma wire_code_inject [simp]: "wire_code a = wire_code b \<longleftrightarrow> a = b"
  by (cases a; cases b) simp_all

lemma endpoint_key_inject: "endpoint_key a = endpoint_key b \<Longrightarrow> a = b"
  by (cases a; cases b) (simp add: endpoint_key_def)

lemma validate_endpoint_order_Ok:
  "validate_endpoint_order es = Ok () \<longleftrightarrow> sorted_wrt (<) (map endpoint_key es)"
proof -
  have "distinct (map (\<lambda>e. (de_transport e, de_host e, de_port e)) es)"
    if "sorted_wrt (<) (map endpoint_key es)"
  proof -
    have "distinct (map endpoint_key es)" using that by (simp add: strict_sorted_iff)
    then show ?thesis by (auto simp: distinct_map inj_on_def endpoint_key_def)
  qed
  then show ?thesis
    by (auto simp: validate_endpoint_order_def insert_all_new_Ok adjacent_increasing_Ok)
qed

lemma validate_endpoints_Ok: "validate_endpoints es = Ok () \<longleftrightarrow> list_all endpoint_ok es"
  by (induction es) (auto simp: endpoint_ok_def)

lemma validate_candidates_Ok:
  "validate_candidates p seen cs = Ok () \<longleftrightarrow>
     list_all (candidate_ok p) cs \<and>
     distinct (map (\<lambda>c. rr_reservation_id (dc_reservation c)) cs) \<and>
     (\<lambda>c. rr_reservation_id (dc_reservation c)) ` set cs \<inter> seen = {}"
proof (induction cs arbitrary: seen)
  case (Cons c cs)
  show ?case
    unfolding validate_candidates.simps and_then_eq_Ok guard_Ok
    by (auto simp: Cons.IH candidate_ok_def validate_endpoint_order_Ok validate_endpoints_Ok
        directory_limits not_less not_le)
qed simp

lemma validate_contract_Ok: "validate_contract p = Ok () \<longleftrightarrow> payload_ok p"
  unfolding validate_contract_def payload_ok_def and_then_eq_Ok guard_Ok
  by (auto simp: validate_candidate_order_Ok validate_candidates_Ok directory_limits not_le not_less)

section \<open>The canonical encoding\<close>

abbreviation string_code :: "string \<Rightarrow> bytes" where
  "string_code v \<equiv> u32_be (of_nat (length v)) @ as_bytes v"

definition endpoint_code :: "relay_directory_endpoint \<Rightarrow> bytes" where
  "endpoint_code e = [wire_code (de_transport e)] @ string_code (de_host e) @ u16_be (de_port e)"

definition candidate_code :: "relay_directory_candidate \<Rightarrow> bytes" where
  "candidate_code c =
     string_code (dc_node_id c) @ string_code (dc_region c) @ string_code (dc_failure_domain c) @
     (u32_be (of_nat (length (dc_endpoints c))) @ concat (map endpoint_code (dc_endpoints c))) @
     u32_be (dc_capabilities c) @ [dc_load_class c] @ string_code (dc_selection_reason c) @
     string_code (rr_reservation_id (dc_reservation c)) @
     u64_be (rr_expires_at_ms (dc_reservation c))"

definition payload_code :: "relay_directory_payload \<Rightarrow> bytes" where
  "payload_code p =
     u16_be (dp_format_version p) @ u64_be (dp_policy_revision p) @ string_code (dp_directory_id p) @
     u64_be (dp_issued_at_ms p) @ u64_be (dp_expires_at_ms p) @ string_code (dp_session_id p) @
     string_code (dp_intended_peer_digest p) @
     (u32_be (of_nat (length (dp_candidates p))) @ concat (map candidate_code (dp_candidates p)))"

lemma string_ok_short: "string_ok v \<Longrightarrow> length v < 4294967296"
  by (simp add: string_ok_def)

lemma push_string_Ok: "string_ok v \<Longrightarrow> push_string field v = Ok (string_code v)"
  by (simp add: push_string_def)

lemma push_all_map:
  "list_all (\<lambda>x. f x = Ok (g x)) xs \<Longrightarrow> push_all (map f xs) = Ok (concat (map g xs))"
  by (induction xs) auto

lemma push_endpoint_Ok: "endpoint_ok e \<Longrightarrow> push_endpoint e = Ok (endpoint_code e)"
  by (simp add: push_endpoint_def endpoint_ok_def push_string_Ok endpoint_code_def)

lemma sorted_sort_key_id: "sorted_wrt (<) (map f xs) \<Longrightarrow> sort_key f xs = xs"
  by (simp add: strict_sorted_iff sort_key_id_if_sorted)

lemma push_candidate_Ok: "candidate_ok p c \<Longrightarrow> push_candidate c = Ok (candidate_code c)"
proof -
  assume ok: "candidate_ok p c"
  then have "push_all (map push_endpoint (dc_endpoints c)) = Ok (concat (map endpoint_code (dc_endpoints c)))"
    by (intro push_all_map) (auto simp: candidate_ok_def list_all_iff push_endpoint_Ok)
  with ok show ?thesis
    by (simp add: push_candidate_def candidate_ok_def sorted_sort_key_id push_string_Ok candidate_code_def
        Let_def)
qed

lemma canonical_signing_bytes_Ok:
  "canonical_signing_bytes p = Ok b \<longleftrightarrow>
     payload_ok p \<and> b = RELAY_DIRECTORY_CONTEXT @ payload_code p \<and> length b \<le> 16384"
proof (cases "payload_ok p")
  case True
  then have "push_all (map push_candidate (dp_candidates p)) = Ok (concat (map candidate_code (dp_candidates p)))"
    by (intro push_all_map) (auto simp: payload_ok_def list_all_iff push_candidate_Ok)
  moreover have "validate_contract p = Ok ()" using True by (simp add: validate_contract_Ok)
  ultimately have "canonical_signing_bytes p =
      (if length (RELAY_DIRECTORY_CONTEXT @ payload_code p) > 16384 then Err CanonicalEncodingTooLarge
       else Ok (RELAY_DIRECTORY_CONTEXT @ payload_code p))"
    using True by (simp add: canonical_signing_bytes_def Let_def payload_ok_def sorted_sort_key_id
        push_string_Ok payload_code_def MAX_CANONICAL_BYTES_def)
  with True show ?thesis by auto
next
  case False
  then have "validate_contract p \<noteq> Ok ()" by (simp add: validate_contract_Ok)
  with False show ?thesis by (auto simp: canonical_signing_bytes_def)
qed

lemmas word_codes = u8c.prefix_code_axioms u16c.prefix_code_axioms u32c.prefix_code_axioms
  u64c.prefix_code_axioms str32.prefix_code_axioms

interpretation epc: prefix_code endpoint_code endpoint_ok
proof -
  let ?f = "\<lambda>e :: relay_directory_endpoint. (wire_code (de_transport e), de_host e, de_port e)"
  have inj: "?f x = ?f y \<Longrightarrow> x = y" for x y by (cases x; cases y) simp
  note c = prefix_code_view [OF prefix_code_pair [OF word_codes(1)
      prefix_code_pair [OF word_codes(5,2)]], of ?f, OF inj]
  show "prefix_code endpoint_code endpoint_ok"
  proof unfold_locales
    fix x y r s
    assume "endpoint_ok x" "endpoint_ok y" "endpoint_code x @ r = endpoint_code y @ s"
    then show "x = y \<and> r = s"
      using prefix_code.enc_prefix [OF c, of x y r s] string_ok_short
      by (simp add: endpoint_code_def endpoint_ok_def)
  qed
qed

lemmas endpoint_list_code = prefix_code_list [OF epc.prefix_code_axioms]

interpretation cdc: prefix_code candidate_code "candidate_ok p" for p
proof -
  let ?f = "\<lambda>c :: relay_directory_candidate. (dc_node_id c, dc_region c, dc_failure_domain c, dc_endpoints c, dc_capabilities c,
    dc_load_class c, dc_selection_reason c, rr_reservation_id (dc_reservation c),
    rr_expires_at_ms (dc_reservation c))"
  have inj: "?f x = ?f y \<Longrightarrow> x = y" for x y
    by (cases x; cases y; cases "dc_reservation x"; cases "dc_reservation y") simp
  note c = prefix_code_view [OF prefix_code_pair [OF word_codes(5) prefix_code_pair [OF word_codes(5)
      prefix_code_pair [OF word_codes(5) prefix_code_pair [OF endpoint_list_code
      prefix_code_pair [OF word_codes(3) prefix_code_pair [OF word_codes(1)
      prefix_code_pair [OF word_codes(5) prefix_code_pair [OF word_codes(5,4)]]]]]]]], of ?f, OF inj]
  show "prefix_code candidate_code (candidate_ok p)"
  proof unfold_locales
    fix x y r s
    assume "candidate_ok p x" "candidate_ok p y" "candidate_code x @ r = candidate_code y @ s"
    then show "x = y \<and> r = s"
      using prefix_code.enc_prefix [OF c, of x y r s] string_ok_short
      by (simp add: candidate_code_def candidate_ok_def)
  qed
qed

text \<open>
  Candidates are valid relative to the validity window of their payload; two payloads with
  the same code have the same window, so their candidates are decoded by the same code.
\<close>

lemma candidate_ok_window:
  "dp_issued_at_ms p = dp_issued_at_ms q \<Longrightarrow> dp_expires_at_ms p = dp_expires_at_ms q \<Longrightarrow>
   candidate_ok p = candidate_ok q"
  by (simp add: candidate_ok_def fun_eq_iff)

lemma payload_code_inject:
  assumes p: "payload_ok p" and q: "payload_ok q" and eq: "payload_code p = payload_code q"
  shows "p = q"
proof -
  let ?ok = "\<lambda>v::string. length v < 4294967296"
  let ?cands = "\<lambda>p. u32_be (of_nat (length (dp_candidates p))) @ concat (map candidate_code (dp_candidates p))"
  let ?head = "\<lambda>p :: relay_directory_payload. (dp_format_version p, dp_policy_revision p, dp_directory_id p,
    dp_issued_at_ms p, dp_expires_at_ms p, dp_session_id p, dp_intended_peer_digest p)"
  note hc = prefix_code_pair [OF word_codes(2) prefix_code_pair [OF word_codes(4)
    prefix_code_pair [OF word_codes(5) prefix_code_pair [OF word_codes(4)
    prefix_code_pair [OF word_codes(4) prefix_code_pair [OF word_codes(5,5)]]]]]]
  have strs: "?ok (dp_directory_id x) \<and> ?ok (dp_session_id x) \<and> ?ok (dp_intended_peer_digest x)"
    if "payload_ok x" for x
    using that string_ok_short by (simp add: payload_ok_def)
  have h: "?head p = ?head q \<and> ?cands p = ?cands q"
    using prefix_code.enc_prefix [OF hc, of "?head p" "?head q" "?cands p" "?cands q"]
      strs [OF p] strs [OF q] eq
    by (simp add: payload_code_def)
  then have ok_eq: "candidate_ok q = candidate_ok p" by (intro candidate_ok_window) auto
  have "dp_candidates p = dp_candidates q"
    using prefix_code.enc_inject [OF prefix_code_list [OF cdc.prefix_code_axioms [of p]], of "dp_candidates p" "dp_candidates q"]
      h p q ok_eq
    by (simp add: payload_ok_def)
  with h show ?thesis by (cases p; cases q) simp
qed

lemma directory_verify_Ok:
  assumes "directory_verify env d keys sid now = Ok v"
  obtains key sig where "canonical_signing_bytes (sd_payload d) = Ok (vd_canonical_signing_bytes v)"
    "vd_payload v = sd_payload d" "dp_session_id (sd_payload d) = sid"
    "dp_issued_at_ms (sd_payload d) \<le> now" "now < dp_expires_at_ms (sd_payload d)"
    "\<forall>c\<in>set (dp_candidates (sd_payload d)). now < rr_expires_at_ms (dc_reservation c)"
    "map_of keys (sd_signing_key_id d) = Some key" "length key = 32" "env_key_ok env key"
    "decode_signature env (sd_signature_b64 d) = Ok sig"
    "env_verify_strict env key (vd_canonical_signing_bytes v) sig"
  using assms unfolding directory_verify_def and_then_eq_Ok guard_Ok ok_or_eq_Ok
  by (elim exE conjE) (rule that, auto simp: list_ex_iff not_le not_less)

section \<open>Properties\<close>

text \<open>
  C15. A signature covers the whole directory: two payloads with the same canonical bytes are
  equal, in every field of every candidate and endpoint, and the canonical bytes of a valid
  payload are its fields in the given order, since any other order is refused.
\<close>

theorem canonical_bytes_injective:
  assumes "canonical_signing_bytes p = Ok b" and "canonical_signing_bytes q = Ok b"
  shows "p = q"
  using assms payload_code_inject by (auto simp: canonical_signing_bytes_Ok)

definition sample_payload :: "u64 \<Rightarrow> relay_directory_payload" where
  "sample_payload revn =
     \<lparr>dp_format_version = 1, dp_policy_revision = revn, dp_directory_id = ''d'', dp_issued_at_ms = 10,
      dp_expires_at_ms = 100, dp_session_id = ''s'', dp_intended_peer_digest = ''p'',
      dp_candidates = [\<lparr>dc_node_id = ''n'', dc_region = ''r'', dc_failure_domain = ''f'',
        dc_endpoints = [\<lparr>de_transport = DirUdp, de_host = ''h'', de_port = 3478\<rparr>],
        dc_capabilities = 0, dc_load_class = 1, dc_selection_reason = ''best'',
        dc_reservation = \<lparr>rr_reservation_id = ''x'', rr_expires_at_ms = 90\<rparr>\<rparr>]\<rparr>"

lemma sample_payload_canonical:
  "revn \<noteq> 0 \<Longrightarrow> \<exists>b. canonical_signing_bytes (sample_payload revn) = Ok b"
  unfolding canonical_signing_bytes_Ok
  by (simp add: payload_ok_def candidate_ok_def endpoint_ok_def string_ok_def sample_payload_def
      payload_code_def candidate_code_def endpoint_code_def RELAY_DIRECTORY_CONTEXT_def
      word_le_nat_alt)

theorem canonical_bytes_injective_witness:
  "canonical_signing_bytes (sample_payload 1) \<noteq> canonical_signing_bytes (sample_payload 2)"
proof
  assume eq: "canonical_signing_bytes (sample_payload 1) = canonical_signing_bytes (sample_payload 2)"
  obtain b where "canonical_signing_bytes (sample_payload 1) = Ok b"
    using sample_payload_canonical [of 1] by auto
  with eq have "sample_payload 1 = sample_payload 2"
    by (intro canonical_bytes_injective [of _ b]) simp_all
  then show False by (simp add: sample_payload_def)
qed

text \<open>
  C13. What a context-verified directory guarantees: it is the payload that was signed, its
  canonical bytes (at most 16 KiB) carry a signature that verifies under the trusted key named
  by the directory, session, policy revision and peer digest are the caller's, the time lies
  inside the validity window and before the expiry of every reservation, and it has 1 to 8
  candidates in strictly increasing order of node, with pairwise different reservations, each
  with 1 to 4 distinct endpoints in canonical order.
\<close>

theorem verify_for_context_sound:
  assumes "verify_for_context env d keys sid revn digest now = Ok c"
  shows "let p = vd_payload (cv_verified c); b = vd_canonical_signing_bytes (cv_verified c) in
    p = sd_payload d \<and> canonical_signing_bytes p = Ok b \<and> length b \<le> 16384 \<and>
    (\<exists>key sig. map_of keys (sd_signing_key_id d) = Some key \<and> length key = 32 \<and>
       decode_signature env (sd_signature_b64 d) = Ok sig \<and> env_verify_strict env key b sig) \<and>
    dp_session_id p = sid \<and> dp_policy_revision p = revn \<and> dp_intended_peer_digest p = digest \<and>
    dp_issued_at_ms p \<le> now \<and> now < dp_expires_at_ms p \<and>
    (\<forall>x\<in>set (dp_candidates p). now < rr_expires_at_ms (dc_reservation x)) \<and>
    1 \<le> length (dp_candidates p) \<and> length (dp_candidates p) \<le> 8 \<and>
    sorted_wrt (<) (map dc_node_id (dp_candidates p)) \<and>
    distinct (map (\<lambda>x. rr_reservation_id (dc_reservation x)) (dp_candidates p)) \<and>
    (\<forall>x\<in>set (dp_candidates p). 1 \<le> length (dc_endpoints x) \<and> length (dc_endpoints x) \<le> 4 \<and>
       sorted_wrt (<) (map endpoint_key (dc_endpoints x)))"
proof -
  from assms obtain v where v: "directory_verify env d keys sid now = Ok v" "c = \<lparr>cv_verified = v\<rparr>"
    and ctx: "dp_policy_revision (vd_payload v) = revn" "dp_intended_peer_digest (vd_payload v) = digest"
    by (auto simp: verify_for_context_def split: if_splits)
  from v(1) show ?thesis
  proof (rule directory_verify_Ok)
    fix key sig
    assume a: "canonical_signing_bytes (sd_payload d) = Ok (vd_canonical_signing_bytes v)"
      "vd_payload v = sd_payload d" "dp_session_id (sd_payload d) = sid"
      "dp_issued_at_ms (sd_payload d) \<le> now" "now < dp_expires_at_ms (sd_payload d)"
      "\<forall>c\<in>set (dp_candidates (sd_payload d)). now < rr_expires_at_ms (dc_reservation c)"
      "map_of keys (sd_signing_key_id d) = Some key" "length key = 32"
      "decode_signature env (sd_signature_b64 d) = Ok sig"
      "env_verify_strict env key (vd_canonical_signing_bytes v) sig"
    from a(1) have "payload_ok (sd_payload d)" "length (vd_canonical_signing_bytes v) \<le> 16384"
      unfolding canonical_signing_bytes_Ok by blast+
    with a v(2) ctx show ?thesis
      by (auto simp: Let_def payload_ok_def candidate_ok_def list_all_iff Suc_le_eq)
  qed
qed

definition sample_env :: directory_env where
  "sample_env = \<lparr>env_from_slice = (\<lambda>_. None), env_b64_decode = (\<lambda>_. Some []), env_b64_encode = (\<lambda>_. ''AA''),
     env_signature_ok = (\<lambda>_. True), env_key_ok = (\<lambda>_. True), env_verify_strict = (\<lambda>_ _ _. True)\<rparr>"

theorem verify_for_context_sound_witness:
  "\<exists>c. verify_for_context sample_env
     \<lparr>sd_payload = sample_payload 5, sd_signing_key_id = ''k'', sd_signature_b64 = ''AA''\<rparr>
     [(''k'', replicate 32 0)] ''s'' 5 ''p'' 20 = Ok c \<and> vd_payload (cv_verified c) = sample_payload 5"
proof -
  let ?d = "\<lparr>sd_payload = sample_payload 5, sd_signing_key_id = ''k'', sd_signature_b64 = ''AA''\<rparr>"
  obtain b where b: "canonical_signing_bytes (sample_payload 5) = Ok b"
    using sample_payload_canonical [of 5] by auto
  have sig: "decode_signature sample_env ''AA'' = Ok []"
    by (simp add: decode_signature_def sample_env_def)
  obtain c where c: "verify_for_context sample_env ?d [(''k'', replicate 32 0)] ''s'' 5 ''p'' 20 = Ok c"
    using b sig
    by (simp add: verify_for_context_def directory_verify_def string_ok_def)
      (simp add: sample_payload_def sample_env_def)
  from verify_for_context_sound [OF c] c show ?thesis by (auto simp: Let_def)
qed

end
