(* ===== verification/Agent_Framing.thy ===== *)
theory Agent_Framing
  imports Mrd_Prelude
begin

text \<open>
  Bounded, versioned framing of the private channel between the machine service and the
  interactive-session agent (\<open>crates/mrd-agent-ipc/src/framing.rs\<close>): a little-endian header
  (payload length, protocol major and minor) followed by a JSON payload.

  \<open>serde_json\<close> is not part of the repository: \<open>to_vec\<close> and \<open>from_slice\<close> are parameters, and
  so are \<open>write_all\<close> and \<open>flush\<close> of the generic writer.  The generic reader is the list of
  bytes it will still deliver before its end of file; \<open>read_exact\<close> is tokio's.
\<close>

section \<open>Data\<close>

definition AGENT_IPC_PROTOCOL_MAJOR :: u16 where "AGENT_IPC_PROTOCOL_MAJOR = 1"
definition AGENT_IPC_PROTOCOL_MINOR :: u16 where "AGENT_IPC_PROTOCOL_MINOR = 8"
definition AGENT_IPC_MAX_FRAME_BYTES :: nat where "AGENT_IPC_MAX_FRAME_BYTES = 1024 * 1024"
definition AGENT_IPC_FRAME_HEADER_BYTES :: nat where "AGENT_IPC_FRAME_HEADER_BYTES = 8"

lemmas agent_frame_limits =
  AGENT_IPC_PROTOCOL_MAJOR_def AGENT_IPC_PROTOCOL_MINOR_def AGENT_IPC_MAX_FRAME_BYTES_def
  AGENT_IPC_FRAME_HEADER_BYTES_def

record 'm decoded_frame =
  df_protocol_major :: u16
  df_protocol_minor :: u16
  df_message :: 'm

datatype 'i io_error = UnexpectedEof | Transport 'i

datatype ('j, 'i) frame_error =
    HeaderTooShort nat
  | UnsupportedMajor u16 u16
  | EmptyPayload
  | FrameTooLarge nat nat
  | LengthMismatch nat nat
  | EncodeError 'j
  | DecodeError 'j
  | FrameIo "'i io_error"

section \<open>Operations\<close>

definition parse_header :: "bytes \<Rightarrow> nat \<times> u16 \<times> u16" where
  "parse_header header =
     (let payload_len = u32_of_le (take 4 header);
          protocol_major = u16_of_le (take 2 (drop 4 header));
          protocol_minor = u16_of_le (take 2 (drop 6 header))
      in (unat payload_len, protocol_major, protocol_minor))"

definition validate_major :: "u16 \<Rightarrow> (unit, ('j, 'i) frame_error) result" where
  "validate_major protocol_major =
     (if protocol_major \<noteq> AGENT_IPC_PROTOCOL_MAJOR
      then Err (UnsupportedMajor protocol_major AGENT_IPC_PROTOCOL_MAJOR) else Ok ())"

definition validate_payload_len :: "nat \<Rightarrow> (unit, ('j, 'i) frame_error) result" where
  "validate_payload_len payload_len =
     (if payload_len = 0 then Err EmptyPayload
      else if payload_len > AGENT_IPC_MAX_FRAME_BYTES
      then Err (FrameTooLarge payload_len AGENT_IPC_MAX_FRAME_BYTES) else Ok ())"

definition encode_frame ::
  "('m \<Rightarrow> (bytes, 'j) result) \<Rightarrow> 'm \<Rightarrow> (bytes, ('j, 'i) frame_error) result" where
  "encode_frame to_vec message =
     and_then (map_err EncodeError (to_vec message)) (\<lambda>payload.
     and_then (validate_payload_len (length payload)) (\<lambda>_.
     and_then (if length payload < 2 ^ 32 then Ok (of_nat (length payload) :: u32)
               else Err (FrameTooLarge (length payload) AGENT_IPC_MAX_FRAME_BYTES)) (\<lambda>payload_len.
     Ok (u32_le payload_len @ u16_le AGENT_IPC_PROTOCOL_MAJOR @ u16_le AGENT_IPC_PROTOCOL_MINOR
         @ payload))))"

definition decode_frame ::
  "(bytes \<Rightarrow> ('m, 'j) result) \<Rightarrow> bytes \<Rightarrow> ('m decoded_frame, ('j, 'i) frame_error) result" where
  "decode_frame from_slice frame =
     (if length frame < AGENT_IPC_FRAME_HEADER_BYTES then Err (HeaderTooShort (length frame))
      else (case parse_header frame of (payload_len, protocol_major, protocol_minor) \<Rightarrow>
        and_then (validate_major protocol_major) (\<lambda>_.
        and_then (validate_payload_len payload_len) (\<lambda>_.
          let actual = length frame - AGENT_IPC_FRAME_HEADER_BYTES in
          if actual \<noteq> payload_len then Err (LengthMismatch payload_len actual)
          else and_then (map_err DecodeError (from_slice (drop AGENT_IPC_FRAME_HEADER_BYTES frame)))
            (\<lambda>message. Ok \<lparr>df_protocol_major = protocol_major, df_protocol_minor = protocol_minor,
                          df_message = message\<rparr>)))))"

text \<open>
  \<open>read_exact n\<close> takes \<open>n\<close> bytes off the stream; when it ends early the bytes that were there
  are gone and the call fails.  \<open>read_frame\<close> returns its result, the stream that remains and
  the sizes of the payload buffers it allocated.
\<close>

definition read_exact :: "nat \<Rightarrow> bytes \<Rightarrow> (bytes, 'i io_error) result \<times> bytes" where
  "read_exact n stream =
     (if n \<le> length stream then (Ok (take n stream), drop n stream) else (Err UnexpectedEof, []))"

definition read_frame ::
  "(bytes \<Rightarrow> ('m, 'j) result) \<Rightarrow> bytes
   \<Rightarrow> ('m decoded_frame, ('j, 'i) frame_error) result \<times> bytes \<times> nat list" where
  "read_frame from_slice stream =
     (case read_exact AGENT_IPC_FRAME_HEADER_BYTES stream of
        (Err e, rest) \<Rightarrow> (Err (FrameIo e), rest, [])
      | (Ok header, rest) \<Rightarrow>
          (case parse_header header of (payload_len, protocol_major, protocol_minor) \<Rightarrow>
             (case validate_major protocol_major of
                Err e \<Rightarrow> (Err e, rest, [])
              | Ok _ \<Rightarrow>
                  (case validate_payload_len payload_len of
                     Err e \<Rightarrow> (Err e, rest, [])
                   | Ok _ \<Rightarrow>
                       (case read_exact payload_len rest of
                          (Err e, rest') \<Rightarrow> (Err (FrameIo e), rest', [payload_len])
                        | (Ok payload, rest') \<Rightarrow>
                            (case from_slice payload of
                               Err e \<Rightarrow> (Err (DecodeError e), rest', [payload_len])
                             | Ok message \<Rightarrow>
                                 (Ok \<lparr>df_protocol_major = protocol_major,
                                      df_protocol_minor = protocol_minor, df_message = message\<rparr>,
                                  rest', [payload_len])))))))"

definition write_frame ::
  "('w \<Rightarrow> bytes \<Rightarrow> (unit, 'i io_error) result \<times> 'w) \<Rightarrow> ('w \<Rightarrow> (unit, 'i io_error) result \<times> 'w)
   \<Rightarrow> ('m \<Rightarrow> (bytes, 'j) result) \<Rightarrow> 'w \<Rightarrow> 'm \<Rightarrow> (unit, ('j, 'i) frame_error) result \<times> 'w" where
  "write_frame write_all flush to_vec writer message =
     (case encode_frame to_vec message of
        Err e \<Rightarrow> (Err e, writer)
      | Ok frame \<Rightarrow>
          (case write_all writer frame of
             (Err e, writer') \<Rightarrow> (Err (FrameIo e), writer')
           | (Ok _, writer') \<Rightarrow>
               (case flush writer' of
                  (Err e, writer'') \<Rightarrow> (Err (FrameIo e), writer'')
                | (Ok _, writer'') \<Rightarrow> (Ok (), writer''))))"

section \<open>The header\<close>

lemma validate_major_Ok [simp]:
  "validate_major v = Ok u \<longleftrightarrow> v = AGENT_IPC_PROTOCOL_MAJOR"
  by (simp add: validate_major_def)

lemma validate_payload_len_Ok [simp]:
  "validate_payload_len n = Ok u \<longleftrightarrow> 0 < n \<and> n \<le> AGENT_IPC_MAX_FRAME_BYTES"
  by (simp add: validate_payload_len_def)

lemma parse_header_build:
  "parse_header (u32_le n @ u16_le major @ u16_le minor @ rest) = (unat n, major, minor)"
  by (simp add: parse_header_def)

lemma parse_header_take: "8 \<le> k \<Longrightarrow> parse_header (take k s) = parse_header s"
  by (simp add: parse_header_def drop_take min_def)

lemma encode_frame_Ok:
  "encode_frame to_vec m = Ok f \<longleftrightarrow>
     (\<exists>payload. to_vec m = Ok payload \<and> payload \<noteq> [] \<and> length payload \<le> AGENT_IPC_MAX_FRAME_BYTES \<and>
        f = u32_le (of_nat (length payload)) @ u16_le AGENT_IPC_PROTOCOL_MAJOR
          @ u16_le AGENT_IPC_PROTOCOL_MINOR @ payload)"
  by (auto simp: encode_frame_def agent_frame_limits)

lemma decode_frame_Ok:
  "decode_frame from_slice f = Ok d \<longleftrightarrow>
     (\<exists>minor m. 8 \<le> length f \<and> parse_header f = (length f - 8, AGENT_IPC_PROTOCOL_MAJOR, minor) \<and>
        8 < length f \<and> length f - 8 \<le> AGENT_IPC_MAX_FRAME_BYTES \<and> from_slice (drop 8 f) = Ok m \<and>
        d = \<lparr>df_protocol_major = AGENT_IPC_PROTOCOL_MAJOR, df_protocol_minor = minor, df_message = m\<rparr>)"
  by (auto simp: decode_frame_def AGENT_IPC_FRAME_HEADER_BYTES_def Let_def split: prod.splits)

lemma encoded_frame_header:
  assumes "encode_frame to_vec m = Ok f"
  obtains payload where "to_vec m = Ok payload" "payload \<noteq> []"
    "length payload \<le> AGENT_IPC_MAX_FRAME_BYTES" "length f = 8 + length payload"
    "drop 8 f = payload"
    "\<And>rest. parse_header (f @ rest) = (length payload, AGENT_IPC_PROTOCOL_MAJOR, AGENT_IPC_PROTOCOL_MINOR)"
proof -
  from assms obtain payload where p: "to_vec m = Ok payload" "payload \<noteq> []"
    "length payload \<le> AGENT_IPC_MAX_FRAME_BYTES"
    and f: "f = u32_le (of_nat (length payload)) @ u16_le AGENT_IPC_PROTOCOL_MAJOR
          @ u16_le AGENT_IPC_PROTOCOL_MINOR @ payload"
    by (auto simp: encode_frame_Ok)
  have "unat (of_nat (length payload) :: u32) = length payload"
    using p(3) by (simp add: unat_of_nat AGENT_IPC_MAX_FRAME_BYTES_def)
  then have "parse_header (f @ rest) = (length payload, AGENT_IPC_PROTOCOL_MAJOR, AGENT_IPC_PROTOCOL_MINOR)"
    for rest
    unfolding f append_assoc parse_header_build by simp
  then show ?thesis using p f by (intro that [of payload]) simp_all
qed

section \<open>The stream reader\<close>

lemma read_exact_Ok:
  "read_exact n s = (Ok bs, rest) \<longleftrightarrow> s = bs @ rest \<and> length bs = n"
  by (auto simp: read_exact_def append_eq_conv_conj)

lemma read_exact_Err:
  "read_exact n s = (Err e, rest) \<longleftrightarrow> length s < n \<and> e = UnexpectedEof \<and> rest = []"
  by (auto simp: read_exact_def)

lemma read_frame_frame:
  assumes "length frame = 8 + n" "parse_header frame = (n, AGENT_IPC_PROTOCOL_MAJOR, minor)"
    "0 < n" "n \<le> AGENT_IPC_MAX_FRAME_BYTES"
  shows "read_frame from_slice (frame @ rest) =
    (case from_slice (drop 8 frame) of
       Err e \<Rightarrow> (Err (DecodeError e), rest, [n])
     | Ok m \<Rightarrow> (Ok \<lparr>df_protocol_major = AGENT_IPC_PROTOCOL_MAJOR, df_protocol_minor = minor,
                      df_message = m\<rparr>, rest, [n]))"
  using assms
  by (simp add: read_frame_def read_exact_def AGENT_IPC_FRAME_HEADER_BYTES_def parse_header_take
      validate_major_def validate_payload_len_def split: sum.split)

lemma read_frame_decodes:
  assumes "read_frame from_slice s = (Ok d, rest, allocs)"
  shows "\<exists>frame. s = frame @ rest \<and> decode_frame from_slice frame = Ok d \<and> allocs = [length frame - 8]"
proof -
  from assms obtain header payload n minor m where
    *: "read_exact 8 s = (Ok header, payload @ rest)" "read_exact n (payload @ rest) = (Ok payload, rest)"
    "parse_header header = (n, AGENT_IPC_PROTOCOL_MAJOR, minor)" "0 < n"
    "n \<le> AGENT_IPC_MAX_FRAME_BYTES" "from_slice payload = Ok m" "allocs = [n]"
    "d = \<lparr>df_protocol_major = AGENT_IPC_PROTOCOL_MAJOR, df_protocol_minor = minor, df_message = m\<rparr>"
    by (auto simp: read_frame_def AGENT_IPC_FRAME_HEADER_BYTES_def read_exact_Ok split: prod.splits sum.splits)
  then have s: "s = header @ payload @ rest" "length header = 8" "length payload = n"
    by (simp_all add: read_exact_Ok)
  have "parse_header (header @ payload) = parse_header header"
    using parse_header_take [of 8 "header @ payload"] s by simp
  with * s have "decode_frame from_slice (header @ payload) = Ok d"
    by (simp add: decode_frame_Ok)
  with s * show ?thesis by (intro exI [of _ "header @ payload"]) simp
qed

lemma decodes_read_frame:
  assumes "decode_frame from_slice frame = Ok d"
  shows "read_frame from_slice (frame @ rest) = (Ok d, rest, [length frame - 8])"
proof -
  from assms obtain minor m where
    *: "8 \<le> length frame" "parse_header frame = (length frame - 8, AGENT_IPC_PROTOCOL_MAJOR, minor)"
    "8 < length frame" "length frame - 8 \<le> AGENT_IPC_MAX_FRAME_BYTES" "from_slice (drop 8 frame) = Ok m"
    "d = \<lparr>df_protocol_major = AGENT_IPC_PROTOCOL_MAJOR, df_protocol_minor = minor, df_message = m\<rparr>"
    unfolding decode_frame_Ok by auto
  then show ?thesis using read_frame_frame [of frame "length frame - 8" minor from_slice rest] by simp
qed

lemma encoded_frame_decodes:
  assumes "encode_frame to_vec m = Ok f" and "\<And>x p. to_vec x = Ok p \<Longrightarrow> from_slice p = Ok x"
  shows "decode_frame from_slice f =
    Ok \<lparr>df_protocol_major = AGENT_IPC_PROTOCOL_MAJOR, df_protocol_minor = AGENT_IPC_PROTOCOL_MINOR,
        df_message = m\<rparr>"
  using assms(1)
proof (rule encoded_frame_header)
  fix p assume p: "to_vec m = Ok p" "p \<noteq> []" "length p \<le> AGENT_IPC_MAX_FRAME_BYTES"
    "length f = 8 + length p" "drop 8 f = p"
    "\<And>rest. parse_header (f @ rest) = (length p, AGENT_IPC_PROTOCOL_MAJOR, AGENT_IPC_PROTOCOL_MINOR)"
  from p(6) [of "[]"] p(1-5) assms(2) [OF p(1)] show ?thesis by (simp add: decode_frame_Ok)
qed

lemma encoded_frame_trailing:
  assumes "encode_frame to_vec m = Ok f" "to_vec m = Ok payload" "rest \<noteq> []"
  shows "decode_frame from_slice (f @ rest) =
    Err (LengthMismatch (length payload) (length payload + length rest))"
  using assms(1)
proof (rule encoded_frame_header)
  fix p assume p: "to_vec m = Ok p" "p \<noteq> []" "length p \<le> AGENT_IPC_MAX_FRAME_BYTES"
    "length f = 8 + length p"
    "\<And>rest. parse_header (f @ rest) = (length p, AGENT_IPC_PROTOCOL_MAJOR, AGENT_IPC_PROTOCOL_MINOR)"
  with assms(2,3) show ?thesis
    by (simp add: decode_frame_def AGENT_IPC_FRAME_HEADER_BYTES_def validate_major_def
        validate_payload_len_def)
qed

lemma encoded_frame_truncated:
  assumes "encode_frame to_vec m = Ok f" "k < length f"
  shows "fst (read_frame from_slice (take k f)) = Err (FrameIo UnexpectedEof)"
  using assms(1)
proof (rule encoded_frame_header)
  fix p assume p: "p \<noteq> []" "length p \<le> AGENT_IPC_MAX_FRAME_BYTES" "length f = 8 + length p"
    "\<And>rest. parse_header (f @ rest) = (length p, AGENT_IPC_PROTOCOL_MAJOR, AGENT_IPC_PROTOCOL_MINOR)"
  from p(4) [of "[]"] have "8 \<le> k \<Longrightarrow> parse_header (take 8 (take k f)) =
    (length p, AGENT_IPC_PROTOCOL_MAJOR, AGENT_IPC_PROTOCOL_MINOR)"
    by (simp add: parse_header_take)
  with p(1-3) assms(2) show ?thesis
    by (auto simp: read_frame_def read_exact_def AGENT_IPC_FRAME_HEADER_BYTES_def validate_major_def
        validate_payload_len_def)
qed

lemma read_frame_bounds:
  assumes "read_frame from_slice s = (r, rest, allocs)"
  shows "length s \<le> length rest + 8 + AGENT_IPC_MAX_FRAME_BYTES \<and> length allocs \<le> 1 \<and>
    (\<forall>n\<in>set allocs. 0 < n \<and> n \<le> AGENT_IPC_MAX_FRAME_BYTES)"
  using assms
  by (auto simp: read_frame_def read_exact_def AGENT_IPC_FRAME_HEADER_BYTES_def
      split: prod.splits sum.splits if_splits)

lemma read_frame_refused_early:
  assumes "read_frame from_slice s = (Err e, rest, allocs)"
    and "case e of UnsupportedMajor v w \<Rightarrow> True | EmptyPayload \<Rightarrow> True | FrameTooLarge n k \<Rightarrow> True
         | _ \<Rightarrow> False"
  shows "length s = length rest + 8 \<and> allocs = []"
  using assms
  by (auto simp: read_frame_def read_exact_def AGENT_IPC_FRAME_HEADER_BYTES_def
      split: prod.splits sum.splits if_splits)

section \<open>Properties\<close>

text \<open>
  Framing round trip.  When JSON decodes what it encoded, a message whose frame was
  encoded is what both decoders return for it, at version 1.8; the stream reader leaves
  exactly the bytes behind the frame, whatever they are, the in-memory decoder refuses any
  trailing byte, and a stream that ends inside the frame fails with an end-of-file error.
  Encoding itself succeeds exactly for payloads of 1 byte to 1 MiB.
\<close>

theorem agent_frame_roundtrip:
  fixes from_slice :: "bytes \<Rightarrow> ('m, 'j) result"
  assumes json: "\<And>x p. to_vec x = Ok p \<Longrightarrow> from_slice p = Ok x"
    and payload: "to_vec m = Ok payload"
  shows "(is_ok (encode_frame to_vec m :: (bytes, ('j, 'i) frame_error) result) \<longleftrightarrow>
            0 < length payload \<and> length payload \<le> 1048576) \<and>
    (\<forall>f rest. encode_frame to_vec m = (Ok f :: (bytes, ('j, 'i) frame_error) result) \<longrightarrow>
       decode_frame from_slice f = (Ok \<lparr>df_protocol_major = 1, df_protocol_minor = 8, df_message = m\<rparr>
         :: (_, ('j, 'i) frame_error) result) \<and>
       read_frame from_slice (f @ rest) =
         (Ok \<lparr>df_protocol_major = 1, df_protocol_minor = 8, df_message = m\<rparr>
            :: (_, ('j, 'i) frame_error) result, rest, [length payload]) \<and>
       (rest \<noteq> [] \<longrightarrow> decode_frame from_slice (f @ rest) =
         (Err (LengthMismatch (length payload) (length payload + length rest))
            :: (_, ('j, 'i) frame_error) result)) \<and>
       (\<forall>k < length f. fst (read_frame from_slice (take k f)) =
         (Err (FrameIo UnexpectedEof) :: (_, ('j, 'i) frame_error) result)))"
proof (intro conjI allI impI)
  show "is_ok (encode_frame to_vec m :: (bytes, ('j, 'i) frame_error) result) \<longleftrightarrow>
      0 < length payload \<and> length payload \<le> 1048576"
    using payload by (auto simp: is_ok_iff encode_frame_Ok AGENT_IPC_MAX_FRAME_BYTES_def)
next
  fix f rest assume enc: "encode_frame to_vec m = (Ok f :: (bytes, ('j, 'i) frame_error) result)"
  show dec: "decode_frame from_slice f =
      (Ok \<lparr>df_protocol_major = 1, df_protocol_minor = 8, df_message = m\<rparr> :: (_, ('j, 'i) frame_error) result)"
    using encoded_frame_decodes [of to_vec m f from_slice, OF enc json]
    by (simp add: AGENT_IPC_PROTOCOL_MAJOR_def AGENT_IPC_PROTOCOL_MINOR_def)
  have "length f = 8 + length payload" using enc payload by (auto simp: encode_frame_Ok)
  then show "read_frame from_slice (f @ rest) =
      (Ok \<lparr>df_protocol_major = 1, df_protocol_minor = 8, df_message = m\<rparr>
         :: (_, ('j, 'i) frame_error) result, rest, [length payload])"
    using decodes_read_frame [OF dec] by simp
  show "decode_frame from_slice (f @ rest) =
      (Err (LengthMismatch (length payload) (length payload + length rest))
         :: (_, ('j, 'i) frame_error) result)" if "rest \<noteq> []"
    using encoded_frame_trailing [OF enc payload that] .
  show "fst (read_frame from_slice (take k f)) =
      (Err (FrameIo UnexpectedEof) :: (_, ('j, 'i) frame_error) result)" if "k < length f" for k
    using encoded_frame_truncated [OF enc that] .
qed

text \<open>A one-byte message whose JSON is its own list of bytes, followed by another byte.\<close>

theorem agent_frame_roundtrip_witness:
  "encode_frame Ok [7] = (Ok [1, 0, 0, 0, 1, 0, 8, 0, 7] :: (bytes, (unit, unit) frame_error) result) \<and>
   read_frame Ok ([1, 0, 0, 0, 1, 0, 8, 0, 7] @ [9]) =
     (Ok \<lparr>df_protocol_major = 1, df_protocol_minor = 8, df_message = [7]\<rparr>
        :: (_, (unit, unit) frame_error) result, [9], [1])"
proof -
  have enc: "encode_frame Ok [7] =
      (Ok [1, 0, 0, 0, 1, 0, 8, 0, 7] :: (bytes, (unit, unit) frame_error) result)"
    by (simp add: encode_frame_def validate_payload_len_def agent_frame_limits wire_simps)
  have json: "(Ok x :: (bytes, unit) result) = Ok p \<Longrightarrow> (Ok p :: (bytes, unit) result) = Ok x" for x p
    by simp
  have "read_frame Ok ([1, 0, 0, 0, 1, 0, 8, 0, 7] @ [9]) =
     (Ok \<lparr>df_protocol_major = 1, df_protocol_minor = 8, df_message = [7]\<rparr>
        :: (_, (unit, unit) frame_error) result, [9], [length [7::u8]])"
    using agent_frame_roundtrip [of Ok Ok "[7]" "[7]", where 'i = unit, OF json refl] enc by blast
  with enc show ?thesis by simp
qed

text \<open>
  C28. The stream reader implements the in-memory decoder and allocates only within the
  bound.  A frame is read from a stream exactly when the stream starts with a byte string
  the in-memory decoder accepts, and then exactly that string is consumed.  Whatever a peer
  sends, at most one payload buffer, of 1 byte to 1 MiB, is allocated and at most 8 bytes and
  1 MiB are consumed; a frame refused for its version or its declared size costs its header
  only and no allocation.
\<close>

theorem agent_frame_reader_refines_decoder:
  fixes from_slice :: "bytes \<Rightarrow> ('m, 'j) result"
  shows "((\<exists>allocs. read_frame from_slice s =
             (Ok d :: (_, ('j, 'i) frame_error) result, rest, allocs)) \<longleftrightarrow>
          (\<exists>frame. s = frame @ rest \<and>
             decode_frame from_slice frame = (Ok d :: (_, ('j, 'i) frame_error) result))) \<and>
    (case read_frame from_slice s :: (_, ('j, 'i) frame_error) result \<times> _ of (r, left, allocs) \<Rightarrow>
      length s \<le> length left + 8 + 1048576 \<and> length allocs \<le> 1 \<and>
      list_all (\<lambda>n. 0 < n \<and> n \<le> 1048576) allocs \<and>
      (case r of
         Err (UnsupportedMajor v w) \<Rightarrow> length s = length left + 8 \<and> allocs = []
       | Err EmptyPayload \<Rightarrow> length s = length left + 8 \<and> allocs = []
       | Err (FrameTooLarge n k) \<Rightarrow> length s = length left + 8 \<and> allocs = []
       | _ \<Rightarrow> True))"
proof (intro conjI)
  show "(\<exists>allocs. read_frame from_slice s =
          (Ok d :: (_, ('j, 'i) frame_error) result, rest, allocs)) \<longleftrightarrow>
      (\<exists>frame. s = frame @ rest \<and>
          decode_frame from_slice frame = (Ok d :: (_, ('j, 'i) frame_error) result))"
    using read_frame_decodes decodes_read_frame by metis
next
  obtain r left allocs where r:
    "read_frame from_slice s = (r :: (_, ('j, 'i) frame_error) result, left, allocs)"
    by (cases "read_frame from_slice s :: (_, ('j, 'i) frame_error) result \<times> _")
  have early: "length s = length left + 8 \<and> allocs = []"
    if "r = Err e" "case e of UnsupportedMajor v w \<Rightarrow> True | EmptyPayload \<Rightarrow> True
        | FrameTooLarge n k \<Rightarrow> True | _ \<Rightarrow> False" for e
    using read_frame_refused_early [of from_slice s e left allocs] r that by simp
  have "case r of
         Err (UnsupportedMajor v w) \<Rightarrow> length s = length left + 8 \<and> allocs = []
       | Err EmptyPayload \<Rightarrow> length s = length left + 8 \<and> allocs = []
       | Err (FrameTooLarge n k) \<Rightarrow> length s = length left + 8 \<and> allocs = []
       | _ \<Rightarrow> True"
    using early by (auto split: sum.split frame_error.split)
  with read_frame_bounds [OF r]
  show "case read_frame from_slice s :: (_, ('j, 'i) frame_error) result \<times> _ of (r, left, allocs) \<Rightarrow>
      length s \<le> length left + 8 + 1048576 \<and> length allocs \<le> 1 \<and>
      list_all (\<lambda>n. 0 < n \<and> n \<le> 1048576) allocs \<and>
      (case r of
         Err (UnsupportedMajor v w) \<Rightarrow> length s = length left + 8 \<and> allocs = []
       | Err EmptyPayload \<Rightarrow> length s = length left + 8 \<and> allocs = []
       | Err (FrameTooLarge n k) \<Rightarrow> length s = length left + 8 \<and> allocs = []
       | _ \<Rightarrow> True)"
    by (simp add: r list_all_iff AGENT_IPC_MAX_FRAME_BYTES_def)
qed

end
