(* ===== verification/Agent_Registration.thy ===== *)
theory Agent_Registration
  imports Agent_Framing
begin

text \<open>
  The registration handshake by which the interactive-session agent proves its identity to
  the machine service (\<open>crates/mrd-agent-ipc/src/protocol.rs\<close>, \<open>AgentProtocolState\<close> and the
  messages it consumes): the agent pins an identity, the service issues one challenge for
  it, and one signed proof completes the registration.

  The source's fixed-size arrays are byte lists; \<open>register_wf\<close>, \<open>challenge_wf\<close> and \<open>proof_wf\<close>
  state their sizes where a property depends on them.  The \<open>RegistrationProofVerifier\<close> trait
  object is the parameter \<open>verify\<close>.
\<close>

section \<open>Messages\<close>

definition AGENT_REGISTRATION_CHALLENGE_MAX_LIFETIME_MS :: u64 where
  "AGENT_REGISTRATION_CHALLENGE_MAX_LIFETIME_MS = 30000"

record agent_register =
  ar_agent_instance_id :: bytes
  ar_process_id :: u32
  ar_process_creation_time :: u64
  ar_logon_sid_hash :: bytes
  ar_windows_session_id :: u32
  ar_agent_key_id :: bytes
  ar_agent_nonce :: bytes

record agent_challenge =
  ac_registration_id :: bytes
  ac_registration_epoch :: u64
  ac_challenge_id :: bytes
  ac_challenge_nonce :: bytes
  ac_expected_agent_instance_id :: bytes
  ac_expected_process_id :: u32
  ac_expected_process_creation_time :: u64
  ac_expected_logon_sid_hash :: bytes
  ac_expected_windows_session_id :: u32
  ac_issued_at_ms :: u64
  ac_expires_at_ms :: u64

record agent_registered =
  ap_registration_id :: bytes
  ap_registration_epoch :: u64
  ap_challenge_id :: bytes
  ap_agent_instance_id :: bytes
  ap_accepted_protocol_major :: u16
  ap_accepted_protocol_minor :: u16
  ap_signed_at_ms :: u64
  ap_signature :: bytes

record registered_agent_identity =
  ri_agent_instance_id :: bytes
  ri_process_id :: u32
  ri_process_creation_time :: u64
  ri_logon_sid_hash :: bytes
  ri_windows_session_id :: u32
  ri_agent_key_id :: bytes
  ri_registration_id :: bytes
  ri_registration_epoch :: u64
  ri_protocol_major :: u16
  ri_protocol_minor :: u16

datatype registration_error =
    InvalidRegistrationShape | DuplicateRegistration | RegistrationRequired
  | ChallengeAlreadyIssued | ChallengeRequired | ErrChallengeConsumed
  | ChallengeIdentityMismatch | InvalidChallengeWindow | InvalidChallengeShape
  | ChallengeLifetimeExceeded | ChallengeNotYetValid | ChallengeExpired | ProofMismatch
  | ProofTimestampOutsideWindow | ProofTimestampInFuture | UnsupportedProtocol u16 u16
  | RegInvalidSignature | AlreadyRegistered

datatype registration_phase =
    Empty
  | AwaitingChallenge agent_register
  | ChallengeIssued agent_register agent_challenge
  | ChallengeConsumed agent_register
  | Registered registered_agent_identity

record agent_protocol_state =
  aps_phase :: registration_phase

section \<open>Operations\<close>

definition aps_new :: agent_protocol_state where
  "aps_new = \<lparr>aps_phase = Empty\<rparr>"

definition accept_register ::
  "agent_protocol_state \<Rightarrow> agent_register
   \<Rightarrow> agent_protocol_state \<times> (unit, registration_error) result" where
  "accept_register self register =
     (if all_zero (ar_agent_instance_id register) \<or> ar_process_id register = 0
        \<or> ar_process_creation_time register = 0 \<or> all_zero (ar_logon_sid_hash register)
        \<or> ar_windows_session_id register = 0 \<or> all_zero (ar_agent_key_id register)
        \<or> all_zero (ar_agent_nonce register)
      then (self, Err InvalidRegistrationShape)
      else (case aps_phase self of
              Empty \<Rightarrow> (self\<lparr>aps_phase := AwaitingChallenge register\<rparr>, Ok ())
            | _ \<Rightarrow> (self, Err DuplicateRegistration)))"

definition issue_challenge ::
  "agent_protocol_state \<Rightarrow> agent_challenge
   \<Rightarrow> agent_protocol_state \<times> (unit, registration_error) result" where
  "issue_challenge self challenge =
     (case aps_phase self of
        Empty \<Rightarrow> (self, Err RegistrationRequired)
      | ChallengeIssued _ _ \<Rightarrow> (self, Err ChallengeAlreadyIssued)
      | ChallengeConsumed _ \<Rightarrow> (self, Err ErrChallengeConsumed)
      | Registered _ \<Rightarrow> (self, Err AlreadyRegistered)
      | AwaitingChallenge register \<Rightarrow>
          if ac_expires_at_ms challenge \<le> ac_issued_at_ms challenge
          then (self, Err InvalidChallengeWindow)
          else if all_zero (ac_registration_id challenge) \<or> ac_registration_epoch challenge = 0
            \<or> all_zero (ac_challenge_id challenge) \<or> all_zero (ac_challenge_nonce challenge)
            \<or> ac_issued_at_ms challenge = 0
          then (self, Err InvalidChallengeShape)
          else if saturating_sub (ac_expires_at_ms challenge) (ac_issued_at_ms challenge)
            > AGENT_REGISTRATION_CHALLENGE_MAX_LIFETIME_MS
          then (self, Err ChallengeLifetimeExceeded)
          else if ac_expected_agent_instance_id challenge \<noteq> ar_agent_instance_id register
            \<or> ac_expected_process_id challenge \<noteq> ar_process_id register
            \<or> ac_expected_process_creation_time challenge \<noteq> ar_process_creation_time register
            \<or> ac_expected_logon_sid_hash challenge \<noteq> ar_logon_sid_hash register
            \<or> ac_expected_windows_session_id challenge \<noteq> ar_windows_session_id register
          then (self, Err ChallengeIdentityMismatch)
          else (self\<lparr>aps_phase := ChallengeIssued register challenge\<rparr>, Ok ()))"

definition registration_proof_signing_bytes ::
  "agent_register \<Rightarrow> agent_challenge \<Rightarrow> agent_registered \<Rightarrow> bytes" where
  "registration_proof_signing_bytes register challenge proof =
     as_bytes (''mrd-agent-registration-v1'' @ [CHR 0x00])
     @ ar_agent_instance_id register
     @ u32_le (ar_process_id register)
     @ u64_le (ar_process_creation_time register)
     @ ar_logon_sid_hash register
     @ u32_le (ar_windows_session_id register)
     @ ar_agent_key_id register
     @ ar_agent_nonce register
     @ ac_registration_id challenge
     @ u64_le (ac_registration_epoch challenge)
     @ ac_challenge_id challenge
     @ ac_challenge_nonce challenge
     @ ac_expected_agent_instance_id challenge
     @ u32_le (ac_expected_process_id challenge)
     @ u64_le (ac_expected_process_creation_time challenge)
     @ ac_expected_logon_sid_hash challenge
     @ u32_le (ac_expected_windows_session_id challenge)
     @ u64_le (ac_issued_at_ms challenge)
     @ u64_le (ac_expires_at_ms challenge)
     @ ap_registration_id proof
     @ u64_le (ap_registration_epoch proof)
     @ ap_challenge_id proof
     @ ap_agent_instance_id proof
     @ u16_le (ap_accepted_protocol_major proof)
     @ u16_le (ap_accepted_protocol_minor proof)
     @ u64_le (ap_signed_at_ms proof)"

text \<open>
  \<open>complete_registration\<close> consumes an outstanding challenge before it validates the proof.
\<close>

definition complete_registration ::
  "(bytes \<Rightarrow> bytes \<Rightarrow> bytes \<Rightarrow> bool) \<Rightarrow> agent_protocol_state \<Rightarrow> agent_registered \<Rightarrow> u64
   \<Rightarrow> agent_protocol_state \<times> (registered_agent_identity, registration_error) result" where
  "complete_registration verify self proof now_ms =
     (case aps_phase self of
        Empty \<Rightarrow> (self, Err ChallengeRequired)
      | AwaitingChallenge register \<Rightarrow> (self, Err ChallengeRequired)
      | ChallengeConsumed register \<Rightarrow> (self, Err ErrChallengeConsumed)
      | Registered identity \<Rightarrow> (self, Err AlreadyRegistered)
      | ChallengeIssued register challenge \<Rightarrow>
          let self = self\<lparr>aps_phase := ChallengeConsumed register\<rparr> in
          if now_ms < ac_issued_at_ms challenge then (self, Err ChallengeNotYetValid)
          else if now_ms \<ge> ac_expires_at_ms challenge then (self, Err ChallengeExpired)
          else if ap_registration_id proof \<noteq> ac_registration_id challenge
            \<or> ap_registration_epoch proof \<noteq> ac_registration_epoch challenge
            \<or> ap_challenge_id proof \<noteq> ac_challenge_id challenge
            \<or> ap_agent_instance_id proof \<noteq> ar_agent_instance_id register
          then (self, Err ProofMismatch)
          else if ap_signed_at_ms proof < ac_issued_at_ms challenge
            \<or> ap_signed_at_ms proof \<ge> ac_expires_at_ms challenge
          then (self, Err ProofTimestampOutsideWindow)
          else if ap_signed_at_ms proof > now_ms then (self, Err ProofTimestampInFuture)
          else if ap_accepted_protocol_major proof \<noteq> AGENT_IPC_PROTOCOL_MAJOR
            \<or> ap_accepted_protocol_minor proof > AGENT_IPC_PROTOCOL_MINOR
          then (self, Err (UnsupportedProtocol (ap_accepted_protocol_major proof)
                                               (ap_accepted_protocol_minor proof)))
          else if all_zero (ap_signature proof) then (self, Err RegInvalidSignature)
          else
            let signing_bytes = registration_proof_signing_bytes register challenge proof in
            if \<not> verify (ar_agent_key_id register) signing_bytes (ap_signature proof)
            then (self, Err RegInvalidSignature)
            else
              let identity =
                \<lparr>ri_agent_instance_id = ar_agent_instance_id register,
                 ri_process_id = ar_process_id register,
                 ri_process_creation_time = ar_process_creation_time register,
                 ri_logon_sid_hash = ar_logon_sid_hash register,
                 ri_windows_session_id = ar_windows_session_id register,
                 ri_agent_key_id = ar_agent_key_id register,
                 ri_registration_id = ac_registration_id challenge,
                 ri_registration_epoch = ac_registration_epoch challenge,
                 ri_protocol_major = ap_accepted_protocol_major proof,
                 ri_protocol_minor = ap_accepted_protocol_minor proof\<rparr>
              in (self\<lparr>aps_phase := Registered identity\<rparr>, Ok identity))"

definition is_registered :: "agent_protocol_state \<Rightarrow> bool" where
  "is_registered self = (case aps_phase self of Registered _ \<Rightarrow> True | _ \<Rightarrow> False)"

definition registered_identity :: "agent_protocol_state \<Rightarrow> registered_agent_identity option" where
  "registered_identity self =
     (case aps_phase self of Registered identity \<Rightarrow> Some identity | _ \<Rightarrow> None)"

section \<open>The connection as a state machine\<close>

text \<open>One message or local decision on the connection, accepted or refused.\<close>

inductive reg_step ::
  "(bytes \<Rightarrow> bytes \<Rightarrow> bytes \<Rightarrow> bool) \<Rightarrow> agent_protocol_state \<Rightarrow> agent_protocol_state \<Rightarrow> bool"
  for verify where
  reg_accept: "accept_register s r = (t, res) \<Longrightarrow> reg_step verify s t"
| reg_issue: "issue_challenge s c = (t, res) \<Longrightarrow> reg_step verify s t"
| reg_complete: "complete_registration verify s p now = (t, res') \<Longrightarrow> reg_step verify s t"

inductive_cases reg_stepE: "reg_step verify s t"

text \<open>What an accepted identity and an issued challenge satisfy.\<close>

definition register_shape :: "agent_register \<Rightarrow> bool" where
  "register_shape r \<longleftrightarrow>
     \<not> all_zero (ar_agent_instance_id r) \<and> ar_process_id r \<noteq> 0 \<and> ar_process_creation_time r \<noteq> 0 \<and>
     \<not> all_zero (ar_logon_sid_hash r) \<and> ar_windows_session_id r \<noteq> 0 \<and>
     \<not> all_zero (ar_agent_key_id r) \<and> \<not> all_zero (ar_agent_nonce r)"

definition challenge_for :: "agent_register \<Rightarrow> agent_challenge \<Rightarrow> bool" where
  "challenge_for r c \<longleftrightarrow>
     \<not> all_zero (ac_registration_id c) \<and> ac_registration_epoch c \<noteq> 0 \<and>
     \<not> all_zero (ac_challenge_id c) \<and> \<not> all_zero (ac_challenge_nonce c) \<and>
     ac_expected_agent_instance_id c = ar_agent_instance_id r \<and>
     ac_expected_process_id c = ar_process_id r \<and>
     ac_expected_process_creation_time c = ar_process_creation_time r \<and>
     ac_expected_logon_sid_hash c = ar_logon_sid_hash r \<and>
     ac_expected_windows_session_id c = ar_windows_session_id r \<and>
     ac_issued_at_ms c < ac_expires_at_ms c \<and>
     unat (ac_expires_at_ms c) \<le> unat (ac_issued_at_ms c) + 30000"

text \<open>
  \<open>proof_answers\<close>: a verified proof for the challenge, seen by the service at \<open>now\<close>.
\<close>

definition proof_answers ::
  "(bytes \<Rightarrow> bytes \<Rightarrow> bytes \<Rightarrow> bool) \<Rightarrow> agent_register \<Rightarrow> agent_challenge \<Rightarrow> agent_registered \<Rightarrow> u64
   \<Rightarrow> bool" where
  "proof_answers verify r c p now \<longleftrightarrow>
     ap_registration_id p = ac_registration_id c \<and>
     ap_registration_epoch p = ac_registration_epoch c \<and>
     ap_challenge_id p = ac_challenge_id c \<and> ap_agent_instance_id p = ar_agent_instance_id r \<and>
     ac_issued_at_ms c \<le> ap_signed_at_ms p \<and> ap_signed_at_ms p \<le> now \<and> now < ac_expires_at_ms c \<and>
     ap_accepted_protocol_major p = 1 \<and> ap_accepted_protocol_minor p \<le> 8 \<and>
     \<not> all_zero (ap_signature p) \<and>
     verify (ar_agent_key_id r) (registration_proof_signing_bytes r c p) (ap_signature p)"

definition identity_of ::
  "agent_register \<Rightarrow> agent_challenge \<Rightarrow> agent_registered \<Rightarrow> registered_agent_identity" where
  "identity_of r c p =
     \<lparr>ri_agent_instance_id = ar_agent_instance_id r, ri_process_id = ar_process_id r,
      ri_process_creation_time = ar_process_creation_time r,
      ri_logon_sid_hash = ar_logon_sid_hash r, ri_windows_session_id = ar_windows_session_id r,
      ri_agent_key_id = ar_agent_key_id r, ri_registration_id = ac_registration_id c,
      ri_registration_epoch = ac_registration_epoch c,
      ri_protocol_major = ap_accepted_protocol_major p,
      ri_protocol_minor = ap_accepted_protocol_minor p\<rparr>"

lemma accept_register_cases:
  "accept_register s r = (t, res) \<Longrightarrow>
     (t = s \<and> \<not> is_ok res) \<or>
     (res = Ok () \<and> aps_phase s = Empty \<and> register_shape r \<and> aps_phase t = AwaitingChallenge r)"
  by (auto simp: accept_register_def register_shape_def split: if_splits registration_phase.splits)

lemma lifetime_bound:
  "i < e \<Longrightarrow> \<not> saturating_sub e i > AGENT_REGISTRATION_CHALLENGE_MAX_LIFETIME_MS \<Longrightarrow>
   unat (e::u64) \<le> unat i + 30000"
  by (simp add: word_less_nat_alt not_less word_le_nat_alt unat_saturating_sub
      AGENT_REGISTRATION_CHALLENGE_MAX_LIFETIME_MS_def)

lemma issue_challenge_cases:
  "issue_challenge s c = (t, res) \<Longrightarrow>
     (t = s \<and> \<not> is_ok res) \<or>
     (res = Ok () \<and> (\<exists>r. aps_phase s = AwaitingChallenge r \<and> challenge_for r c \<and>
        aps_phase t = ChallengeIssued r c))"
  using lifetime_bound [of "ac_issued_at_ms c" "ac_expires_at_ms c"]
  by (auto simp: issue_challenge_def challenge_for_def not_le
      split: if_splits registration_phase.splits)

lemma complete_registration_cases:
  "complete_registration verify s p now = (t, res) \<Longrightarrow>
     (t = s \<and> \<not> is_ok res \<and> (\<forall>r c. aps_phase s \<noteq> ChallengeIssued r c)) \<or>
     (\<exists>r c. aps_phase s = ChallengeIssued r c \<and>
        (aps_phase t = ChallengeConsumed r \<and> \<not> is_ok res \<or>
         proof_answers verify r c p now \<and> res = Ok (identity_of r c p) \<and>
         aps_phase t = Registered (identity_of r c p)))"
  by (auto simp: complete_registration_def proof_answers_def identity_of_def Let_def not_less not_le
      AGENT_IPC_PROTOCOL_MAJOR_def AGENT_IPC_PROTOCOL_MINOR_def
      split: if_splits registration_phase.splits)

definition reg_inv :: "(bytes \<Rightarrow> bytes \<Rightarrow> bytes \<Rightarrow> bool) \<Rightarrow> agent_protocol_state \<Rightarrow> bool" where
  "reg_inv verify s \<longleftrightarrow>
     (case aps_phase s of
        Empty \<Rightarrow> True
      | AwaitingChallenge r \<Rightarrow> register_shape r
      | ChallengeIssued r c \<Rightarrow> register_shape r \<and> challenge_for r c
      | ChallengeConsumed r \<Rightarrow> register_shape r
      | Registered i \<Rightarrow> (\<exists>r c p now. register_shape r \<and> challenge_for r c \<and>
          proof_answers verify r c p now \<and> i = identity_of r c p))"

interpretation regi: state_invariant "\<lambda>s. s = aps_new" "reg_step verify" "reg_inv verify" for verify
proof unfold_locales
  show "reg_inv verify s" if "s = aps_new" for s
    using that by (simp add: reg_inv_def aps_new_def)
  show "reg_inv verify t" if "reg_step verify s t" "reg_inv verify s" for s t
    using that
    by (elim reg_stepE) (auto simp: reg_inv_def dest!: accept_register_cases issue_challenge_cases
        complete_registration_cases, blast)
qed

text \<open>Once a challenge has been used, successfully or not, the connection no longer changes.\<close>

lemma used_challenge_final:
  assumes "(reg_step verify)\<^sup>*\<^sup>* s t"
    and "(\<exists>r. aps_phase s = ChallengeConsumed r) \<or> (\<exists>i. aps_phase s = Registered i)"
  shows "t = s"
  using assms(1)
proof (induction rule: rtranclp_induct)
  case (step t u)
  with assms(2) show ?case
    by (elim reg_stepE)
      (auto dest!: accept_register_cases issue_challenge_cases complete_registration_cases)
qed simp

text \<open>Array sizes of the messages.\<close>

definition register_wf :: "agent_register \<Rightarrow> bool" where
  "register_wf r \<longleftrightarrow> length (ar_agent_instance_id r) = 16 \<and> length (ar_logon_sid_hash r) = 32 \<and>
     length (ar_agent_key_id r) = 32 \<and> length (ar_agent_nonce r) = 32"

definition challenge_wf :: "agent_challenge \<Rightarrow> bool" where
  "challenge_wf c \<longleftrightarrow> length (ac_registration_id c) = 16 \<and> length (ac_challenge_id c) = 16 \<and>
     length (ac_challenge_nonce c) = 32 \<and> length (ac_expected_agent_instance_id c) = 16 \<and>
     length (ac_expected_logon_sid_hash c) = 32"

definition proof_wf :: "agent_registered \<Rightarrow> bool" where
  "proof_wf p \<longleftrightarrow> length (ap_registration_id p) = 16 \<and> length (ap_challenge_id p) = 16 \<and>
     length (ap_agent_instance_id p) = 16 \<and> length (ap_signature p) = 64"

section \<open>Properties\<close>

text \<open>
  Only a proven agent is registered.  Whatever sequence of messages a connection
  processes, when it reports a registered identity there were a register message without
  zero sentinels, a challenge naming exactly that process, logon, Windows session and
  instance with a lifetime of at most 30 seconds, and a proof for that challenge, signed
  inside the challenge's interval and not after the time it was processed, at major version 1
  and a minor version up to 8, whose signature over the canonical transcript the verifier
  accepted under the registered key; and the identity consists of exactly those values.
\<close>

theorem registered_identity_authentic:
  assumes "(reg_step verify)\<^sup>*\<^sup>* aps_new s" and "registered_identity s = Some i"
  shows "\<exists>r c p now. register_shape r \<and> challenge_for r c \<and> proof_answers verify r c p now \<and>
    i = identity_of r c p"
  using regi.reachable_inv [OF refl assms(1)] assms(2)
  by (auto simp: reg_inv_def registered_identity_def split: registration_phase.splits)

text \<open>
  A handshake of process 9 in Windows session 2, whose proof is the key identifier repeated.
\<close>

definition demo_register :: agent_register where
  "demo_register = \<lparr>ar_agent_instance_id = replicate 16 1, ar_process_id = 9,
     ar_process_creation_time = 77, ar_logon_sid_hash = replicate 32 2, ar_windows_session_id = 2,
     ar_agent_key_id = replicate 32 3, ar_agent_nonce = replicate 32 4\<rparr>"

definition demo_challenge :: agent_challenge where
  "demo_challenge = \<lparr>ac_registration_id = replicate 16 5, ac_registration_epoch = 1,
     ac_challenge_id = replicate 16 6, ac_challenge_nonce = replicate 32 7,
     ac_expected_agent_instance_id = replicate 16 1, ac_expected_process_id = 9,
     ac_expected_process_creation_time = 77, ac_expected_logon_sid_hash = replicate 32 2,
     ac_expected_windows_session_id = 2, ac_issued_at_ms = 1000, ac_expires_at_ms = 11000\<rparr>"

definition demo_proof :: agent_registered where
  "demo_proof = \<lparr>ap_registration_id = replicate 16 5, ap_registration_epoch = 1,
     ap_challenge_id = replicate 16 6, ap_agent_instance_id = replicate 16 1,
     ap_accepted_protocol_major = 1, ap_accepted_protocol_minor = 8, ap_signed_at_ms = 1500,
     ap_signature = replicate 64 3\<rparr>"

definition demo_verify :: "bytes \<Rightarrow> bytes \<Rightarrow> bytes \<Rightarrow> bool" where
  "demo_verify key msg sig \<longleftrightarrow> sig = key @ key"

lemmas demo_handshake_defs = demo_register_def demo_challenge_def demo_proof_def demo_verify_def

lemma demo_handshake:
  "accept_register aps_new demo_register = (\<lparr>aps_phase = AwaitingChallenge demo_register\<rparr>, Ok ())"
  "issue_challenge \<lparr>aps_phase = AwaitingChallenge demo_register\<rparr> demo_challenge =
     (\<lparr>aps_phase = ChallengeIssued demo_register demo_challenge\<rparr>, Ok ())"
  "complete_registration demo_verify \<lparr>aps_phase = ChallengeIssued demo_register demo_challenge\<rparr>
     demo_proof 2000 =
     (\<lparr>aps_phase = Registered (identity_of demo_register demo_challenge demo_proof)\<rparr>,
      Ok (identity_of demo_register demo_challenge demo_proof))"
  by (simp_all add: accept_register_def issue_challenge_def complete_registration_def aps_new_def
      identity_of_def demo_handshake_defs saturating_sub_def Let_def replicate_add [symmetric]
      AGENT_REGISTRATION_CHALLENGE_MAX_LIFETIME_MS_def AGENT_IPC_PROTOCOL_MAJOR_def
      AGENT_IPC_PROTOCOL_MINOR_def)

lemma demo_handshake_reachable:
  "(reg_step demo_verify)\<^sup>*\<^sup>* aps_new
     \<lparr>aps_phase = Registered (identity_of demo_register demo_challenge demo_proof)\<rparr>"
  using reg_accept [OF demo_handshake(1)] reg_issue [OF demo_handshake(2)]
    reg_complete [OF demo_handshake(3)]
  by (meson converse_rtranclp_into_rtranclp rtranclp.rtrancl_refl)

theorem registered_identity_authentic_witness:
  "\<exists>r c p now. register_shape r \<and> challenge_for r c \<and> proof_answers demo_verify r c p now \<and>
    identity_of demo_register demo_challenge demo_proof = identity_of r c p"
  by (rule registered_identity_authentic [OF demo_handshake_reachable])
    (simp add: registered_identity_def)

text \<open>
  A registration challenge is one-shot.  Completing with an outstanding challenge uses it
  up: the connection is registered when the proof is accepted and otherwise remembers only
  that the challenge was consumed; from then on no message, however often and in whatever
  order, changes the connection, and every registration, challenge and further proof is
  refused.  Without an outstanding challenge a proof is refused and changes nothing.
\<close>

theorem registration_challenge_one_shot:
  assumes "complete_registration verify s p now = (t, res)"
  shows "case aps_phase s of
      ChallengeIssued r c \<Rightarrow>
        (if is_ok res then (\<exists>i. res = Ok i \<and> registered_identity t = Some i)
         else aps_phase t = ChallengeConsumed r) \<and>
        (\<forall>u. (reg_step verify)\<^sup>*\<^sup>* t u \<longrightarrow> u = t) \<and>
        (\<forall>r' c' p' now'. \<not> is_ok (snd (accept_register t r')) \<and> \<not> is_ok (snd (issue_challenge t c')) \<and>
           \<not> is_ok (snd (complete_registration verify t p' now')))
    | _ \<Rightarrow> t = s \<and> \<not> is_ok res"
proof (cases "\<exists>r c. aps_phase s = ChallengeIssued r c")
  case True
  then obtain r c where s: "aps_phase s = ChallengeIssued r c" by blast
  with complete_registration_cases [OF assms]
  have t: "aps_phase t = ChallengeConsumed r \<and> \<not> is_ok res \<or>
      (\<exists>i. res = Ok i \<and> aps_phase t = Registered i)"
    by auto
  then have final: "u = t" if "(reg_step verify)\<^sup>*\<^sup>* t u" for u
    using used_challenge_final [OF that] by blast
  have "\<not> is_ok (snd (accept_register t r'))" "\<not> is_ok (snd (issue_challenge t c'))"
    "\<not> is_ok (snd (complete_registration verify t p' now'))" for r' c' p' now'
    using t by (auto simp: accept_register_def issue_challenge_def complete_registration_def)
  with s t final show ?thesis by (auto simp: registered_identity_def)
next
  case False
  with complete_registration_cases [OF assms] show ?thesis
    by (auto split: registration_phase.split)
qed

theorem registration_challenge_one_shot_witness:
  "complete_registration demo_verify \<lparr>aps_phase = ChallengeIssued demo_register demo_challenge\<rparr>
     demo_proof 11000 = (\<lparr>aps_phase = ChallengeConsumed demo_register\<rparr>, Err ChallengeExpired) \<and>
   {u. (reg_step demo_verify)\<^sup>*\<^sup>* \<lparr>aps_phase = ChallengeConsumed demo_register\<rparr> u} =
     {\<lparr>aps_phase = ChallengeConsumed demo_register\<rparr>}"
proof -
  have "complete_registration demo_verify \<lparr>aps_phase = ChallengeIssued demo_register demo_challenge\<rparr>
     demo_proof 11000 = (\<lparr>aps_phase = ChallengeConsumed demo_register\<rparr>, Err ChallengeExpired)"
    by (simp add: complete_registration_def demo_challenge_def)
  with registration_challenge_one_shot [OF this] show ?thesis by auto
qed

text \<open>
  The signed transcript binds the whole handshake.  For messages with the protocol's
  array sizes, two transcripts with the same bytes come from the same register message, the
  same challenge and proofs that differ at most in their signatures: a proof signed for one
  challenge nonce, process or key cannot be presented for another.
\<close>

theorem registration_transcript_binding:
  assumes "register_wf r" "register_wf r'" "challenge_wf c" "challenge_wf c'" "proof_wf p" "proof_wf p'"
    and "registration_proof_signing_bytes r c p = registration_proof_signing_bytes r' c' p'"
  shows "r = r' \<and> c = c' \<and> p\<lparr>ap_signature := sig\<rparr> = p'\<lparr>ap_signature := sig\<rparr>"
  using assms
  by (simp add: registration_proof_signing_bytes_def register_wf_def challenge_wf_def proof_wf_def
      append_eq_append_conv agent_register.equality agent_challenge.equality
      agent_registered.equality)

theorem registration_transcript_binding_witness:
  "registration_proof_signing_bytes demo_register demo_challenge demo_proof \<noteq>
   registration_proof_signing_bytes demo_register (demo_challenge\<lparr>ac_challenge_nonce := replicate 32 8\<rparr>)
     demo_proof"
proof
  assume eq: "registration_proof_signing_bytes demo_register demo_challenge demo_proof =
    registration_proof_signing_bytes demo_register (demo_challenge\<lparr>ac_challenge_nonce := replicate 32 8\<rparr>)
      demo_proof"
  have "demo_challenge = demo_challenge\<lparr>ac_challenge_nonce := replicate 32 8\<rparr>"
    by (rule registration_transcript_binding [OF _ _ _ _ _ _ eq, THEN conjunct2, THEN conjunct1])
      (simp_all add: register_wf_def challenge_wf_def proof_wf_def demo_handshake_defs)
  then show False by (simp add: demo_challenge_def)
qed

end
