(* ===== verification/Agent_Grant.thy ===== *)
theory Agent_Grant
  imports Session_Grant
begin

text \<open>
  Commands of the machine service to the interactive-session agent, their digests and the
  signed execute grants that authorise them (\<open>crates/mrd-agent-ipc/src/protocol.rs\<close> and
  \<open>grant.rs\<close>), the input resources and input events derived from them, and the validation of
  attended-consent results.

  SHA-256, the signature verifier and \<open>serde_json\<close> are not part of the repository; they are
  the fields of the record \<open>grant_env\<close>, an argument of the definitions that use them.
  Fixed-size arrays are byte lists, with their sizes stated by \<open>command_wf\<close> where a property
  depends on them.
\<close>

section \<open>Data\<close>

definition AGENT_CONSENT_MAX_LIFETIME_MS :: u64 where
  "AGENT_CONSENT_MAX_LIFETIME_MS = 5 * 60 * 1000"
definition AGENT_IPC_MAX_IDENTIFIER_BYTES :: nat where "AGENT_IPC_MAX_IDENTIFIER_BYTES = 256"
definition AGENT_EXECUTE_GRANT_MAX_LIFETIME_MS :: u64 where
  "AGENT_EXECUTE_GRANT_MAX_LIFETIME_MS = 5 * 60 * 1000"
definition AGENT_EXECUTE_GRANT_SIGNATURE_CONTEXT :: bytes where
  "AGENT_EXECUTE_GRANT_SIGNATURE_CONTEXT =
     as_bytes (''mrd-agent-ipc/execute-grant/v1'' @ [CHR 0x00])"
definition AGENT_INPUT_EVENT_COMMITMENT_CONTEXT :: bytes where
  "AGENT_INPUT_EVENT_COMMITMENT_CONTEXT =
     as_bytes (''mrd-agent-ipc/input-event/v1'' @ [CHR 0x00])"

record peer_binding =
  pb_device_id :: device_id
  pb_key_id :: bytes

datatype desktop_kind = DkDefault | DkSecure | DkWinlogon | DkUnknown
datatype audio_direction = Listen | Talk | Duplex
datatype agent_file_direction = FdDownload | FdUpload | FdBidirectional

record render_surface_target =
  rst_surface_id :: string
  rst_window_handle :: u64

record agent_capture_profile =
  cp_width :: u32
  cp_height :: u32
  cp_fps :: u32
  cp_bitrate_bps :: u32

datatype agent_command =
    StartCapture bytes u32 "agent_capture_profile option"
  | StopCapture bytes
  | StartInput bytes permission_scopes
  | StopInput bytes
  | StartAudio bytes audio_direction
  | StopAudio bytes
  | StartClipboard bytes
  | StopClipboard bytes
  | StartFile bytes agent_file_direction
  | StopFile bytes
  | StartRender bytes u32 render_surface_target
  | StopRender bytes

datatype grant_audience = SessionAgent

record execute_grant_claims =
  gc_grant_id :: bytes
  gc_registration_id :: bytes
  gc_registration_epoch :: u64
  gc_session_id :: session_id
  gc_peer :: peer_binding
  gc_scopes :: permission_scopes
  gc_policy_revision :: u64
  gc_windows_session_id :: u32
  gc_desktop_epoch :: u64
  gc_desktop_kind :: desktop_kind
  gc_issued_at_ms :: u64
  gc_not_before_ms :: u64
  gc_expires_at_ms :: u64
  gc_command_digest :: bytes
  gc_audience :: grant_audience

record execute_grant =
  eg_claims :: execute_grant_claims
  eg_issuer_key_id :: bytes
  eg_signature :: bytes

record execute_command =
  ex_request_token :: u64
  ex_command_id :: bytes
  ex_grant :: execute_grant
  ex_command :: agent_command

datatype execution_purpose = PurposeStart | PurposeCleanup

record execution_context =
  xc_registration_id :: bytes
  xc_registration_epoch :: u64
  xc_session_id :: session_id
  xc_peer :: peer_binding
  xc_policy_revision :: u64
  xc_windows_session_id :: u32
  xc_desktop_epoch :: u64
  xc_desktop_kind :: desktop_kind
  xc_now_ms :: u64
  xc_expected_issuer_key_id :: bytes
  xc_authorization_scopes :: permission_scopes
  xc_authorization_expires_at_ms :: u64

datatype grant_validation_error =
    GvInvalidIssuerKeyId | GvIssuerMismatch | GvInvalidSignature | GvAudienceMismatch
  | GvInvalidGrantId | GvInvalidRegistrationId | GvInvalidRegistrationEpoch | GvInvalidSessionId
  | GvInvalidPeerDeviceId | GvInvalidPeerKeyId | GvInvalidPolicyRevision
  | GvInvalidWindowsSessionId | GvInvalidDesktopEpoch | GvInvalidCommandDigest
  | GvInvalidCommandId | GvInvalidRequestToken | GvInvalidResourceId | GvInvalidInputScopes
  | GvInvalidRenderSurface | GvInvalidCaptureProfile | GvRegistrationMismatch
  | GvRegistrationEpochMismatch | GvSessionMismatch | GvPeerDeviceMismatch | GvPeerKeyMismatch
  | GvPolicyRevisionMismatch | GvWindowsSessionMismatch | GvDesktopEpochMismatch
  | GvDesktopKindMismatch | GvUnsupportedDesktop | GvCommandMismatch | GvInsufficientScopes
  | GvAuthorizationScopeMismatch | GvAuthorizationExpiryMismatch | GvAuthorizationExpired
  | GvEmptyRequiredScopes | GvInvalidTimeWindow | GvLifetimeExceeded | GvNotYetValid | GvExpired

record authorized_grant =
  ag_claims :: execute_grant_claims
  ag_issuer_key_id :: bytes

record authorized_command =
  acm_command_id :: bytes
  acm_command :: agent_command
  acm_grant :: authorized_grant

datatype input_resource_authorization_error = NotStartInput

record authorized_input_resource =
  air_resource_id :: bytes
  air_start_grant_id :: bytes
  air_input_scopes :: permission_scopes
  air_grant :: authorized_grant

datatype input_button = BtnLeft | BtnRight | BtnMiddle | BtnX1 | BtnX2
datatype input_key = VirtualKey u16

datatype input_event_payload =
    IeMouseMove "32 word" "32 word"
  | IeMouseButton input_button bool
  | IeMouseWheel "32 word"
  | IeMouseHorizontalWheel "32 word"
  | IeKey input_key bool
  | IeReleaseAll

record input_event_envelope =
  iev_request_token :: u64
  iev_session_id :: session_id
  iev_resource_id :: bytes
  iev_start_grant_id :: bytes
  iev_sequence :: u64
  iev_expires_at_ms :: u64
  iev_event :: input_event_payload

datatype input_rejection =
    IrPolicy | IrGrant | IrUnsupported | IrStaleDesktop | IrReplay | IrInvalidEvent

record validated_input_event =
  vie_envelope :: input_event_envelope

record semantic_input_event =
  sie_session_id :: session_id
  sie_resource_id :: bytes
  sie_start_grant_id :: bytes
  sie_sequence :: u64
  sie_expires_at_ms :: u64
  sie_event :: input_event_payload

record grant_env =
  ge_sha256 :: "bytes \<Rightarrow> bytes"
  ge_scopes_to_vec :: "permission_scopes \<Rightarrow> bytes"
  ge_claims_to_vec :: "execute_grant_claims \<Rightarrow> bytes"
  ge_event_to_vec :: "semantic_input_event \<Rightarrow> bytes option"
  ge_verify :: "bytes \<Rightarrow> bytes \<Rightarrow> bytes \<Rightarrow> bool"

section \<open>Commands\<close>

definition capture_profile_valid :: "agent_capture_profile \<Rightarrow> bool" where
  "capture_profile_valid p \<longleftrightarrow>
     2 \<le> cp_width p \<and> cp_width p \<le> 7680 \<and> cp_width p mod 2 = 0 \<and>
     2 \<le> cp_height p \<and> cp_height p \<le> 4320 \<and> cp_height p mod 2 = 0 \<and>
     1 \<le> cp_fps p \<and> cp_fps p \<le> 120 \<and>
     64000 \<le> cp_bitrate_bps p \<and> cp_bitrate_bps p \<le> 100000000"

fun command_required_scopes :: "agent_command \<Rightarrow> permission_scopes" where
  "command_required_scopes (StartCapture _ _ _) = {ScreenView}"
| "command_required_scopes (StartRender _ _ _) = {ScreenView}"
| "command_required_scopes (StartInput _ input_scopes) = input_scopes"
| "command_required_scopes (StartAudio _ Listen) = {AudioListen}"
| "command_required_scopes (StartAudio _ Talk) = {AudioTalk}"
| "command_required_scopes (StartAudio _ Duplex) = {AudioListen, AudioTalk}"
| "command_required_scopes (StartClipboard _) = {ClipboardRead, ClipboardWrite}"
| "command_required_scopes (StartFile _ FdDownload) = {FileRead}"
| "command_required_scopes (StartFile _ FdUpload) = {FileWrite}"
| "command_required_scopes (StartFile _ FdBidirectional) = {FileRead, FileWrite}"
| "command_required_scopes _ = {}"

fun command_is_cleanup :: "agent_command \<Rightarrow> bool" where
  "command_is_cleanup (StopCapture _) = True"
| "command_is_cleanup (StopInput _) = True"
| "command_is_cleanup (StopAudio _) = True"
| "command_is_cleanup (StopClipboard _) = True"
| "command_is_cleanup (StopFile _) = True"
| "command_is_cleanup (StopRender _) = True"
| "command_is_cleanup _ = False"

fun command_resource_id :: "agent_command \<Rightarrow> bytes" where
  "command_resource_id (StartCapture r _ _) = r"
| "command_resource_id (StopCapture r) = r"
| "command_resource_id (StartInput r _) = r"
| "command_resource_id (StopInput r) = r"
| "command_resource_id (StartAudio r _) = r"
| "command_resource_id (StopAudio r) = r"
| "command_resource_id (StartClipboard r) = r"
| "command_resource_id (StopClipboard r) = r"
| "command_resource_id (StartFile r _) = r"
| "command_resource_id (StopFile r) = r"
| "command_resource_id (StartRender r _ _) = r"
| "command_resource_id (StopRender r) = r"

text \<open>The first match of \<open>AgentCommand::digest\<close>: kind, resource, display and direction.\<close>

fun digest_parts :: "agent_command \<Rightarrow> string \<times> bytes \<times> u32 option \<times> u8 option" where
  "digest_parts (StartCapture r d _) = (''start_capture'', r, Some d, None)"
| "digest_parts (StopCapture r) = (''stop_capture'', r, None, None)"
| "digest_parts (StartInput r _) = (''start_input'', r, None, None)"
| "digest_parts (StopInput r) = (''stop_input'', r, None, None)"
| "digest_parts (StartAudio r dir) =
     (''start_audio'', r, None, Some (case dir of Listen \<Rightarrow> 1 | Talk \<Rightarrow> 2 | Duplex \<Rightarrow> 3))"
| "digest_parts (StopAudio r) = (''stop_audio'', r, None, None)"
| "digest_parts (StartClipboard r) = (''start_clipboard'', r, None, None)"
| "digest_parts (StopClipboard r) = (''stop_clipboard'', r, None, None)"
| "digest_parts (StartFile r dir) =
     (''start_file'', r, None, Some (case dir of FdDownload \<Rightarrow> 1 | FdUpload \<Rightarrow> 2 | FdBidirectional \<Rightarrow> 3))"
| "digest_parts (StopFile r) = (''stop_file'', r, None, None)"
| "digest_parts (StartRender r d _) = (''start_render'', r, Some d, None)"
| "digest_parts (StopRender r) = (''stop_render'', r, None, None)"

text \<open>The bytes \<open>AgentCommand::digest\<close> feeds into the hash.\<close>

definition command_digest_input :: "grant_env \<Rightarrow> agent_command \<Rightarrow> bytes" where
  "command_digest_input env command =
     (case digest_parts command of (kind, resource_id, display_id, direction) \<Rightarrow>
        as_bytes (''mrd-agent-command-v1'' @ [CHR 0x00])
        @ u16_le (of_nat (length kind)) @ as_bytes kind @ resource_id
        @ (case display_id of Some d \<Rightarrow> u32_le d | None \<Rightarrow> [])
        @ (case direction of Some d \<Rightarrow> [d] | None \<Rightarrow> [])
        @ (case command of
             StartRender _ _ surface \<Rightarrow>
               u64_le (of_nat (length (rst_surface_id surface))) @ as_bytes (rst_surface_id surface)
               @ u64_le (rst_window_handle surface)
           | _ \<Rightarrow> [])
        @ (case command of
             StartCapture _ _ (Some profile) \<Rightarrow>
               as_bytes (''capture-profile-v1'' @ [CHR 0x00]) @ u32_le (cp_width profile)
               @ u32_le (cp_height profile) @ u32_le (cp_fps profile)
               @ u32_le (cp_bitrate_bps profile)
           | _ \<Rightarrow> [])
        @ (case command of
             StartInput _ input_scopes \<Rightarrow>
               (let encoded_scopes = ge_scopes_to_vec env input_scopes
                in u64_le (of_nat (length encoded_scopes)) @ encoded_scopes)
           | _ \<Rightarrow> []))"

definition command_digest :: "grant_env \<Rightarrow> agent_command \<Rightarrow> bytes" where
  "command_digest env command = ge_sha256 env (command_digest_input env command)"

definition execute_digest_input :: "grant_env \<Rightarrow> execute_command \<Rightarrow> bytes" where
  "execute_digest_input env self =
     as_bytes (''mrd-agent-execute-command-v1'' @ [CHR 0x00])
     @ ex_command_id self @ command_digest env (ex_command self)"

definition execute_command_digest :: "grant_env \<Rightarrow> execute_command \<Rightarrow> bytes" where
  "execute_command_digest env self = ge_sha256 env (execute_digest_input env self)"

section \<open>Execute grants\<close>

definition grant_signing_bytes :: "grant_env \<Rightarrow> execute_grant \<Rightarrow> bytes" where
  "grant_signing_bytes env self =
     (let claims = ge_claims_to_vec env (eg_claims self) in
      AGENT_EXECUTE_GRANT_SIGNATURE_CONTEXT @ eg_issuer_key_id self
      @ u64_le (of_nat (length claims)) @ claims)"

definition validate_execute_grant ::
  "grant_env \<Rightarrow> execute_grant \<Rightarrow> execution_context \<Rightarrow> bytes \<Rightarrow> permission_scopes \<Rightarrow> execution_purpose
   \<Rightarrow> (authorized_grant, grant_validation_error) result" where
  "validate_execute_grant env grant context digest required_scopes purpose =
     (if all_zero (eg_issuer_key_id grant) \<or> all_zero (xc_expected_issuer_key_id context)
      then Err GvInvalidIssuerKeyId
      else if eg_issuer_key_id grant \<noteq> xc_expected_issuer_key_id context then Err GvIssuerMismatch
      else if all_zero (eg_signature grant) then Err GvInvalidSignature
      else if \<not> ge_verify env (eg_issuer_key_id grant) (grant_signing_bytes env grant)
                  (eg_signature grant)
      then Err GvInvalidSignature
      else
      let claims = eg_claims grant in
      if gc_audience claims \<noteq> SessionAgent then Err GvAudienceMismatch
      else if all_zero (gc_grant_id claims) then Err GvInvalidGrantId
      else if all_zero (gc_registration_id claims) then Err GvInvalidRegistrationId
      else if gc_registration_epoch claims = 0 then Err GvInvalidRegistrationEpoch
      else if gc_session_id claims = [] \<or> length (gc_session_id claims) > AGENT_IPC_MAX_IDENTIFIER_BYTES
      then Err GvInvalidSessionId
      else if pb_device_id (gc_peer claims) = []
        \<or> length (pb_device_id (gc_peer claims)) > AGENT_IPC_MAX_IDENTIFIER_BYTES
      then Err GvInvalidPeerDeviceId
      else if all_zero (pb_key_id (gc_peer claims)) then Err GvInvalidPeerKeyId
      else if gc_policy_revision claims = 0 then Err GvInvalidPolicyRevision
      else if gc_windows_session_id claims = 0 then Err GvInvalidWindowsSessionId
      else if gc_desktop_epoch claims = 0 then Err GvInvalidDesktopEpoch
      else if all_zero (gc_command_digest claims) then Err GvInvalidCommandDigest
      else if gc_registration_id claims \<noteq> xc_registration_id context then Err GvRegistrationMismatch
      else if gc_registration_epoch claims \<noteq> xc_registration_epoch context
      then Err GvRegistrationEpochMismatch
      else if gc_session_id claims \<noteq> xc_session_id context then Err GvSessionMismatch
      else if pb_device_id (gc_peer claims) \<noteq> pb_device_id (xc_peer context)
      then Err GvPeerDeviceMismatch
      else if pb_key_id (gc_peer claims) \<noteq> pb_key_id (xc_peer context) then Err GvPeerKeyMismatch
      else if gc_policy_revision claims \<noteq> xc_policy_revision context
      then Err GvPolicyRevisionMismatch
      else if gc_windows_session_id claims \<noteq> xc_windows_session_id context
      then Err GvWindowsSessionMismatch
      else if gc_desktop_epoch claims \<noteq> xc_desktop_epoch context then Err GvDesktopEpochMismatch
      else if gc_desktop_kind claims \<noteq> xc_desktop_kind context then Err GvDesktopKindMismatch
      else if gc_command_digest claims \<noteq> digest then Err GvCommandMismatch
      else if purpose = PurposeStart \<and> required_scopes = {} then Err GvEmptyRequiredScopes
      else if \<not> required_scopes \<subseteq> gc_scopes claims then Err GvInsufficientScopes
      else if \<not> gc_scopes claims \<subseteq> xc_authorization_scopes context
      then Err GvAuthorizationScopeMismatch
      else if gc_not_before_ms claims \<ge> gc_expires_at_ms claims
        \<or> gc_issued_at_ms claims \<ge> gc_expires_at_ms claims
      then Err GvInvalidTimeWindow
      else
      and_then (ok_or GvInvalidTimeWindow (checked_sub (gc_expires_at_ms claims) (gc_issued_at_ms claims)))
        (\<lambda>issuance_lifetime_ms.
      and_then (ok_or GvInvalidTimeWindow (checked_sub (gc_expires_at_ms claims) (gc_not_before_ms claims)))
        (\<lambda>validity_lifetime_ms.
      if issuance_lifetime_ms > AGENT_EXECUTE_GRANT_MAX_LIFETIME_MS
        \<or> validity_lifetime_ms > AGENT_EXECUTE_GRANT_MAX_LIFETIME_MS
      then Err GvLifetimeExceeded
      else if gc_expires_at_ms claims > xc_authorization_expires_at_ms context
      then Err GvAuthorizationExpiryMismatch
      else if xc_now_ms context < gc_not_before_ms claims then Err GvNotYetValid
      else if purpose = PurposeStart \<and> xc_now_ms context \<ge> xc_authorization_expires_at_ms context
      then Err GvAuthorizationExpired
      else if purpose = PurposeStart \<and> xc_now_ms context \<ge> gc_expires_at_ms claims
      then Err GvExpired
      else Ok \<lparr>ag_claims = claims, ag_issuer_key_id = eg_issuer_key_id grant\<rparr>)))"

definition validate_execute_command ::
  "grant_env \<Rightarrow> execute_command \<Rightarrow> execution_context
   \<Rightarrow> (authorized_command, grant_validation_error) result" where
  "validate_execute_command env execute context =
     (if ex_request_token execute = 0 then Err GvInvalidRequestToken
      else if all_zero (ex_command_id execute) then Err GvInvalidCommandId
      else if all_zero (command_resource_id (ex_command execute)) then Err GvInvalidResourceId
      else if (case ex_command execute of
                 StartInput _ input_scopes \<Rightarrow>
                   input_scopes = {}
                   \<or> (\<exists>scope\<in>input_scopes. scope \<noteq> InputPointer \<and> scope \<noteq> InputKeyboard)
               | _ \<Rightarrow> False)
      then Err GvInvalidInputScopes
      else if (case ex_command execute of
                 StartRender _ _ surface \<Rightarrow>
                   rst_surface_id surface = []
                   \<or> length (rst_surface_id surface) > AGENT_IPC_MAX_IDENTIFIER_BYTES
                   \<or> rst_window_handle surface = 0
               | _ \<Rightarrow> False)
      then Err GvInvalidRenderSurface
      else if (case ex_command execute of
                 StartCapture _ _ (Some profile) \<Rightarrow> \<not> capture_profile_valid profile
               | _ \<Rightarrow> False)
      then Err GvInvalidCaptureProfile
      else
      let purpose = (if command_is_cleanup (ex_command execute) then PurposeCleanup else PurposeStart) in
      if purpose = PurposeStart \<and> xc_desktop_kind context \<noteq> DkDefault then Err GvUnsupportedDesktop
      else
      let required_scopes = command_required_scopes (ex_command execute) in
      and_then (validate_execute_grant env (ex_grant execute) context
                  (execute_command_digest env execute) required_scopes purpose) (\<lambda>grant.
      Ok \<lparr>acm_command_id = ex_command_id execute, acm_command = ex_command execute,
          acm_grant = grant\<rparr>))"

section \<open>Input resources and events\<close>

definition authorize_input_resource ::
  "authorized_command \<Rightarrow> (authorized_input_resource, input_resource_authorization_error) result" where
  "authorize_input_resource authorized =
     (case acm_command authorized of
        StartInput resource_id input_scopes \<Rightarrow>
          Ok \<lparr>air_resource_id = resource_id,
              air_start_grant_id = gc_grant_id (ag_claims (acm_grant authorized)),
              air_input_scopes = input_scopes, air_grant = acm_grant authorized\<rparr>
      | _ \<Rightarrow> Err NotStartInput)"

fun event_required_scope :: "input_event_payload \<Rightarrow> permission_scope option" where
  "event_required_scope (IeMouseMove _ _) = Some InputPointer"
| "event_required_scope (IeMouseButton _ _) = Some InputPointer"
| "event_required_scope (IeMouseWheel _) = Some InputPointer"
| "event_required_scope (IeMouseHorizontalWheel _) = Some InputPointer"
| "event_required_scope (IeKey _ _) = Some InputKeyboard"
| "event_required_scope IeReleaseAll = None"

fun has_valid_shape :: "input_event_payload \<Rightarrow> bool" where
  "has_valid_shape (IeKey (VirtualKey code) _) \<longleftrightarrow> code \<noteq> 0"
| "has_valid_shape _ \<longleftrightarrow> True"

definition input_validate_shape :: "input_event_envelope \<Rightarrow> (unit, input_rejection) result" where
  "input_validate_shape self =
     (if iev_request_token self = 0 \<or> trim (iev_session_id self) = []
        \<or> length (iev_session_id self) > AGENT_IPC_MAX_IDENTIFIER_BYTES
        \<or> CHR 0x00 \<in> set (iev_session_id self) \<or> all_zero (iev_resource_id self)
        \<or> all_zero (iev_start_grant_id self) \<or> iev_sequence self = 0 \<or> iev_sequence self = - 1
        \<or> iev_expires_at_ms self = 0 \<or> \<not> has_valid_shape (iev_event self)
      then Err IrInvalidEvent else Ok ())"

definition input_commitment :: "grant_env \<Rightarrow> input_event_envelope \<Rightarrow> (bytes, input_rejection) result" where
  "input_commitment env self =
     and_then (input_validate_shape self) (\<lambda>_.
     and_then (ok_or IrInvalidEvent (ge_event_to_vec env
       \<lparr>sie_session_id = iev_session_id self, sie_resource_id = iev_resource_id self,
        sie_start_grant_id = iev_start_grant_id self, sie_sequence = iev_sequence self,
        sie_expires_at_ms = iev_expires_at_ms self, sie_event = iev_event self\<rparr>)) (\<lambda>encoded.
     Ok (ge_sha256 env (AGENT_INPUT_EVENT_COMMITMENT_CONTEXT @ u64_le (of_nat (length encoded))
           @ encoded))))"

definition validate_input_event ::
  "input_event_envelope \<Rightarrow> authorized_input_resource \<Rightarrow> execution_context
   \<Rightarrow> (validated_input_event, input_rejection) result" where
  "validate_input_event envelope resource context =
     and_then (input_validate_shape envelope) (\<lambda>_.
       let claims = ag_claims (air_grant resource) in
       if iev_session_id envelope \<noteq> gc_session_id claims
         \<or> iev_resource_id envelope \<noteq> air_resource_id resource
         \<or> iev_start_grant_id envelope \<noteq> air_start_grant_id resource
         \<or> xc_registration_id context \<noteq> gc_registration_id claims
         \<or> xc_registration_epoch context \<noteq> gc_registration_epoch claims
         \<or> xc_session_id context \<noteq> gc_session_id claims
         \<or> xc_peer context \<noteq> gc_peer claims
         \<or> xc_windows_session_id context \<noteq> gc_windows_session_id claims
         \<or> xc_expected_issuer_key_id context \<noteq> ag_issuer_key_id (air_grant resource)
         \<or> \<not> gc_scopes claims \<subseteq> xc_authorization_scopes context
         \<or> gc_expires_at_ms claims > xc_authorization_expires_at_ms context
       then Err IrGrant
       else
       let required_scope = event_required_scope (iev_event envelope) in
       case required_scope of
         Some required_scope \<Rightarrow>
           if required_scope \<notin> air_input_scopes resource
             \<or> required_scope \<notin> xc_authorization_scopes context
             \<or> xc_now_ms context \<ge> gc_expires_at_ms claims
             \<or> xc_now_ms context \<ge> iev_expires_at_ms envelope
             \<or> iev_expires_at_ms envelope > gc_expires_at_ms claims
             \<or> xc_now_ms context \<ge> xc_authorization_expires_at_ms context
           then Err IrGrant
           else if xc_policy_revision context \<noteq> gc_policy_revision claims then Err IrPolicy
           else if xc_desktop_epoch context \<noteq> gc_desktop_epoch claims
             \<or> xc_desktop_kind context \<noteq> gc_desktop_kind claims
             \<or> xc_desktop_kind context \<noteq> DkDefault
           then Err IrStaleDesktop
           else Ok \<lparr>vie_envelope = envelope\<rparr>
       | None \<Rightarrow> Ok \<lparr>vie_envelope = envelope\<rparr>)"

section \<open>Acceptance of grants and commands\<close>

text \<open>The checks of a grant that do not depend on the clock.\<close>

definition grant_bound ::
  "grant_env \<Rightarrow> execute_grant \<Rightarrow> execution_context \<Rightarrow> bytes \<Rightarrow> permission_scopes \<Rightarrow> bool" where
  "grant_bound env g ctx digest required \<longleftrightarrow>
     (let claims = eg_claims g in
      \<not> all_zero (eg_issuer_key_id g) \<and> eg_issuer_key_id g = xc_expected_issuer_key_id ctx \<and>
      \<not> all_zero (eg_signature g) \<and>
      ge_verify env (eg_issuer_key_id g) (grant_signing_bytes env g) (eg_signature g) \<and>
      \<not> all_zero (gc_grant_id claims) \<and> \<not> all_zero (gc_registration_id claims) \<and>
      gc_registration_epoch claims \<noteq> 0 \<and> gc_session_id claims \<noteq> [] \<and>
      length (gc_session_id claims) \<le> 256 \<and> pb_device_id (gc_peer claims) \<noteq> [] \<and>
      length (pb_device_id (gc_peer claims)) \<le> 256 \<and> \<not> all_zero (pb_key_id (gc_peer claims)) \<and>
      gc_policy_revision claims \<noteq> 0 \<and> gc_windows_session_id claims \<noteq> 0 \<and>
      gc_desktop_epoch claims \<noteq> 0 \<and> \<not> all_zero (gc_command_digest claims) \<and>
      gc_registration_id claims = xc_registration_id ctx \<and>
      gc_registration_epoch claims = xc_registration_epoch ctx \<and>
      gc_session_id claims = xc_session_id ctx \<and> gc_peer claims = xc_peer ctx \<and>
      gc_policy_revision claims = xc_policy_revision ctx \<and>
      gc_windows_session_id claims = xc_windows_session_id ctx \<and>
      gc_desktop_epoch claims = xc_desktop_epoch ctx \<and>
      gc_desktop_kind claims = xc_desktop_kind ctx \<and> gc_command_digest claims = digest \<and>
      required \<subseteq> gc_scopes claims \<and> gc_scopes claims \<subseteq> xc_authorization_scopes ctx \<and>
      gc_not_before_ms claims < gc_expires_at_ms claims \<and>
      gc_issued_at_ms claims < gc_expires_at_ms claims \<and>
      unat (gc_expires_at_ms claims) \<le> unat (gc_issued_at_ms claims) + 300000 \<and>
      unat (gc_expires_at_ms claims) \<le> unat (gc_not_before_ms claims) + 300000 \<and>
      gc_expires_at_ms claims \<le> xc_authorization_expires_at_ms ctx)"

lemma peer_binding_eq:
  "p = q \<longleftrightarrow> pb_device_id p = pb_device_id q \<and> pb_key_id p = pb_key_id q" for p q :: peer_binding
  by auto

lemma lifetime_within:
  "i < e \<Longrightarrow> e - i \<le> AGENT_EXECUTE_GRANT_MAX_LIFETIME_MS \<longleftrightarrow> unat (e::u64) \<le> unat i + 300000"
proof -
  assume "i < e"
  then have "unat (e - i) = unat e - unat i" and "unat i \<le> unat e"
    by (simp_all add: unat_sub word_less_nat_alt word_le_nat_alt)
  then show ?thesis
    by (auto simp: word_le_nat_alt AGENT_EXECUTE_GRANT_MAX_LIFETIME_MS_def)
qed

lemma grant_audience_only [simp]: "x = SessionAgent"
  by (cases x) simp

lemma checked_sub_eq: "checked_sub a b = Some c \<longleftrightarrow> b \<le> a \<and> c = a - b" for a b :: "'a::len word"
  by (auto simp: checked_sub_def)

lemma validate_execute_grant_Ok:
  "validate_execute_grant env g ctx digest required purpose = Ok a \<longleftrightarrow>
     grant_bound env g ctx digest required \<and>
     gc_not_before_ms (eg_claims g) \<le> xc_now_ms ctx \<and>
     (purpose = PurposeStart \<longrightarrow> required \<noteq> {} \<and> xc_now_ms ctx < gc_expires_at_ms (eg_claims g)) \<and>
     a = \<lparr>ag_claims = eg_claims g, ag_issuer_key_id = eg_issuer_key_id g\<rparr>"
proof -
  define c where "c = eg_claims g"
  have life: "\<not> c1 > AGENT_EXECUTE_GRANT_MAX_LIFETIME_MS \<longleftrightarrow> unat (gc_expires_at_ms c) \<le> unat t + 300000"
    if "c1 = gc_expires_at_ms c - t" "\<not> t \<ge> gc_expires_at_ms c" for c1 t
    using that lifetime_within [of t "gc_expires_at_ms c"] by (simp add: not_less not_le)
  show ?thesis
    unfolding validate_execute_grant_def grant_bound_def Let_def guard_Ok and_then_eq_Ok ok_or_eq_Ok
      checked_sub_eq peer_binding_eq c_def [symmetric] AGENT_IPC_MAX_IDENTIFIER_BYTES_def
    using life by (auto simp: not_le not_less)
qed

text \<open>The checks of a command's own fields.\<close>

definition command_shape :: "agent_command \<Rightarrow> bool" where
  "command_shape c \<longleftrightarrow>
     \<not> all_zero (command_resource_id c) \<and>
     (case c of
        StartInput _ scopes \<Rightarrow> scopes \<noteq> {} \<and> scopes \<subseteq> {InputPointer, InputKeyboard}
      | StartRender _ _ surface \<Rightarrow>
          rst_surface_id surface \<noteq> [] \<and> length (rst_surface_id surface) \<le> 256 \<and>
          rst_window_handle surface \<noteq> 0
      | StartCapture _ _ (Some profile) \<Rightarrow> capture_profile_valid profile
      | _ \<Rightarrow> True)"

lemma command_shape_checks:
  "command_shape c \<longleftrightarrow>
     \<not> all_zero (command_resource_id c) \<and>
     \<not> (case c of
          StartInput _ input_scopes \<Rightarrow>
            input_scopes = {} \<or> (\<exists>scope\<in>input_scopes. scope \<noteq> InputPointer \<and> scope \<noteq> InputKeyboard)
        | _ \<Rightarrow> False) \<and>
     \<not> (case c of
          StartRender _ _ surface \<Rightarrow>
            rst_surface_id surface = []
            \<or> length (rst_surface_id surface) > AGENT_IPC_MAX_IDENTIFIER_BYTES
            \<or> rst_window_handle surface = 0
        | _ \<Rightarrow> False) \<and>
     \<not> (case c of StartCapture _ _ (Some profile) \<Rightarrow> \<not> capture_profile_valid profile | _ \<Rightarrow> False)"
  by (auto simp: command_shape_def AGENT_IPC_MAX_IDENTIFIER_BYTES_def
      split: agent_command.splits option.splits)

lemma required_scopes_start: "\<not> command_is_cleanup c \<Longrightarrow> command_shape c \<Longrightarrow> command_required_scopes c \<noteq> {}"
  by (cases c rule: command_required_scopes.cases) (auto simp: command_shape_def)

lemma validate_execute_command_Ok:
  "validate_execute_command env x ctx = Ok a \<longleftrightarrow>
     ex_request_token x \<noteq> 0 \<and> \<not> all_zero (ex_command_id x) \<and> command_shape (ex_command x) \<and>
     grant_bound env (ex_grant x) ctx (execute_command_digest env x)
       (command_required_scopes (ex_command x)) \<and>
     gc_not_before_ms (eg_claims (ex_grant x)) \<le> xc_now_ms ctx \<and>
     (\<not> command_is_cleanup (ex_command x) \<longrightarrow>
        xc_desktop_kind ctx = DkDefault \<and> xc_now_ms ctx < gc_expires_at_ms (eg_claims (ex_grant x))) \<and>
     a = \<lparr>acm_command_id = ex_command_id x, acm_command = ex_command x,
          acm_grant = \<lparr>ag_claims = eg_claims (ex_grant x),
                       ag_issuer_key_id = eg_issuer_key_id (ex_grant x)\<rparr>\<rparr>"
  unfolding validate_execute_command_def Let_def guard_Ok and_then_eq_Ok validate_execute_grant_Ok
    command_shape_checks
  using required_scopes_start [of "ex_command x"] unfolding command_shape_checks
  by (cases "command_is_cleanup (ex_command x)") auto

section \<open>Command digests\<close>

text \<open>Array sizes of a command.\<close>

definition command_wf :: "agent_command \<Rightarrow> bool" where
  "command_wf c \<longleftrightarrow> length (command_resource_id c) = 16"

interpretation kindc: prefix_code "\<lambda>s. u16_le (of_nat (length s)) @ as_bytes s" "\<lambda>s. length s < 65536"
  by (rule prefix_code_counted [where k = 2]) (auto dest: of_nat_word_inject [rotated 2])

lemma digest_parts_resource: "fst (snd (digest_parts c)) = command_resource_id c"
  by (cases c) simp_all

lemma digest_kind_short: "length (fst (digest_parts c)) < 65536"
  by (cases c) simp_all

text \<open>What follows the resource identifier.\<close>

fun digest_tail :: "grant_env \<Rightarrow> agent_command \<Rightarrow> bytes" where
  "digest_tail env (StartCapture _ d profile) =
     u32_le d @ (case profile of None \<Rightarrow> []
       | Some p \<Rightarrow> as_bytes (''capture-profile-v1'' @ [CHR 0x00]) @ u32_le (cp_width p) @
           u32_le (cp_height p) @ u32_le (cp_fps p) @ u32_le (cp_bitrate_bps p))"
| "digest_tail env (StartInput _ scopes) =
     u64_le (of_nat (length (ge_scopes_to_vec env scopes))) @ ge_scopes_to_vec env scopes"
| "digest_tail env (StartAudio _ dir) = [case dir of Listen \<Rightarrow> 1 | Talk \<Rightarrow> 2 | Duplex \<Rightarrow> 3]"
| "digest_tail env (StartFile _ dir) = [case dir of FdDownload \<Rightarrow> 1 | FdUpload \<Rightarrow> 2 | FdBidirectional \<Rightarrow> 3]"
| "digest_tail env (StartRender _ d surface) =
     u32_le d @ u64_le (of_nat (length (rst_surface_id surface))) @ as_bytes (rst_surface_id surface)
     @ u64_le (rst_window_handle surface)"
| "digest_tail env _ = []"

lemma command_digest_input_split:
  "command_digest_input env c =
     as_bytes (''mrd-agent-command-v1'' @ [CHR 0x00])
     @ (u16_le (of_nat (length (fst (digest_parts c)))) @ as_bytes (fst (digest_parts c)))
     @ command_resource_id c @ digest_tail env c"
  by (cases c) (simp_all add: command_digest_input_def Let_def split: option.split)

lemma profile_bytes_inject:
  "u32_le (cp_width p) @ u32_le (cp_height p) @ u32_le (cp_fps p) @ u32_le (cp_bitrate_bps p) =
   u32_le (cp_width q) @ u32_le (cp_height q) @ u32_le (cp_fps q) @ u32_le (cp_bitrate_bps q)
   \<longleftrightarrow> p = q" for p q :: agent_capture_profile
  by (cases p; cases q) simp

lemma surface_bytes_inject:
  "u64_le (of_nat (length (rst_surface_id p))) @ as_bytes (rst_surface_id p) @ u64_le (rst_window_handle p) =
   u64_le (of_nat (length (rst_surface_id q))) @ as_bytes (rst_surface_id q) @ u64_le (rst_window_handle q)
   \<longleftrightarrow> p = q" for p q :: render_surface_target
  by (cases p; cases q) (auto simp: append_eq_append_conv)

lemma display_only: "u32_le a @ x # r \<noteq> u32_le b" "u32_le b \<noteq> u32_le a @ x # r"
  by (auto dest: arg_cong [of _ _ length])

lemma digest_tail_inject:
  assumes "fst (digest_parts c) = fst (digest_parts c')"
    and "command_resource_id c = command_resource_id c'"
    and "\<And>r s r' s'. c = StartInput r s \<Longrightarrow> c' = StartInput r' s' \<Longrightarrow>
      ge_scopes_to_vec env s = ge_scopes_to_vec env s' \<Longrightarrow> s = s'"
    and "digest_tail env c = digest_tail env c'"
  shows "c = c'"
proof (cases c)
  case (StartCapture r d p)
  with assms(1,2) obtain d' p' where c': "c' = StartCapture r d' p'" by (cases c') simp_all
  with assms(4) StartCapture show ?thesis
    by (cases p; cases p') (simp_all add: append_eq_append_conv profile_bytes_inject as_bytes_def display_only)
next
  case (StartInput r s)
  with assms(1,2) obtain s' where c': "c' = StartInput r s'" by (cases c') simp_all
  with assms(3,4) StartInput show ?thesis by (simp add: append_eq_append_conv)
next
  case (StartAudio r dir)
  with assms(1,2) obtain dir' where c': "c' = StartAudio r dir'" by (cases c') simp_all
  with assms(4) StartAudio show ?thesis by (cases dir; cases dir') simp_all
next
  case (StartFile r dir)
  with assms(1,2) obtain dir' where c': "c' = StartFile r dir'" by (cases c') simp_all
  with assms(4) StartFile show ?thesis by (cases dir; cases dir') simp_all
next
  case (StartRender r d p)
  with assms(1,2) obtain d' p' where c': "c' = StartRender r d' p'" by (cases c') simp_all
  with assms(4) StartRender show ?thesis
    by (simp add: append_eq_append_conv [of "u32_le d" "u32_le d'"] surface_bytes_inject
        del: append_eq_append_conv)
qed (use assms(1,2) in \<open>cases c'; simp\<close>)+

lemma command_digest_input_inject:
  assumes wf: "command_wf c" "command_wf c'"
    and json: "\<And>r s r' s'. c = StartInput r s \<Longrightarrow> c' = StartInput r' s' \<Longrightarrow>
      ge_scopes_to_vec env s = ge_scopes_to_vec env s' \<Longrightarrow> s = s'"
    and eq: "command_digest_input env c = command_digest_input env c'"
  shows "c = c'"
proof -
  let ?k = "fst (digest_parts c)" and ?k' = "fst (digest_parts c')"
  from eq have "(u16_le (of_nat (length ?k)) @ as_bytes ?k) @ command_resource_id c @ digest_tail env c =
      (u16_le (of_nat (length ?k')) @ as_bytes ?k') @ command_resource_id c' @ digest_tail env c'"
    unfolding command_digest_input_split by simp
  then have kind: "?k = ?k'"
    and rest: "command_resource_id c @ digest_tail env c = command_resource_id c' @ digest_tail env c'"
    using kindc.enc_prefix [OF digest_kind_short digest_kind_short] by blast+
  from rest wf have "command_resource_id c = command_resource_id c'" "digest_tail env c = digest_tail env c'"
    by (simp_all add: command_wf_def append_eq_append_conv)
  with kind json show ?thesis by (intro digest_tail_inject)
qed

section \<open>A concrete exchange\<close>

text \<open>
  An environment with an injective hash and JSON and a verifier that accepts the key
  identifier written twice; a pointer-input command, its cleanup and an event for them.
\<close>

definition scope_list :: "permission_scope list" where
  "scope_list =
     [ScreenView, InputPointer, InputKeyboard, ClipboardRead, ClipboardWrite, FileRead, FileWrite,
      AudioListen, AudioTalk, DisplaySwitch, DisplayMultiView, PowerRestart, PowerShutdown,
      TerminalOpen, PrivacyBlockLocalInput, PrivacyBlankScreen, SecureDesktopView,
      SecureDesktopControl]"

definition demo_env :: grant_env where
  "demo_env = \<lparr>ge_sha256 = (\<lambda>b. 1 # b),
     ge_scopes_to_vec = (\<lambda>s. map (\<lambda>k. if k \<in> s then 1 else 0) scope_list),
     ge_claims_to_vec = (\<lambda>c. gc_grant_id c @ gc_command_digest c),
     ge_event_to_vec = (\<lambda>e. Some (sie_resource_id e)),
     ge_verify = (\<lambda>key msg sig. sig = key @ key)\<rparr>"

definition demo_context :: execution_context where
  "demo_context = \<lparr>xc_registration_id = replicate 16 5, xc_registration_epoch = 1,
     xc_session_id = ''s'', xc_peer = \<lparr>pb_device_id = ''d'', pb_key_id = replicate 32 6\<rparr>,
     xc_policy_revision = 4, xc_windows_session_id = 2, xc_desktop_epoch = 3,
     xc_desktop_kind = DkDefault, xc_now_ms = 2000, xc_expected_issuer_key_id = replicate 32 7,
     xc_authorization_scopes = {InputPointer, InputKeyboard}, xc_authorization_expires_at_ms = 100000\<rparr>"

definition demo_execute :: "u64 \<Rightarrow> agent_command \<Rightarrow> execute_command" where
  "demo_execute token command =
     \<lparr>ex_request_token = token, ex_command_id = replicate 16 2,
      ex_grant = \<lparr>eg_claims =
        \<lparr>gc_grant_id = replicate 32 8, gc_registration_id = replicate 16 5, gc_registration_epoch = 1,
         gc_session_id = ''s'', gc_peer = \<lparr>pb_device_id = ''d'', pb_key_id = replicate 32 6\<rparr>,
         gc_scopes = {InputPointer}, gc_policy_revision = 4, gc_windows_session_id = 2,
         gc_desktop_epoch = 3, gc_desktop_kind = DkDefault, gc_issued_at_ms = 900,
         gc_not_before_ms = 1000, gc_expires_at_ms = 61000,
         gc_command_digest = ge_sha256 demo_env
           (as_bytes (''mrd-agent-execute-command-v1'' @ [CHR 0x00]) @ replicate 16 2
            @ command_digest demo_env command),
         gc_audience = SessionAgent\<rparr>,
        eg_issuer_key_id = replicate 32 7, eg_signature = replicate 64 7\<rparr>,
      ex_command = command\<rparr>"

definition demo_start :: agent_command where
  "demo_start = StartInput (replicate 16 9) {InputPointer}"

definition demo_stop :: agent_command where
  "demo_stop = StopInput (replicate 16 9)"

definition demo_event :: "input_event_payload \<Rightarrow> input_event_envelope" where
  "demo_event ev = \<lparr>iev_request_token = 1, iev_session_id = ''s'', iev_resource_id = replicate 16 9,
     iev_start_grant_id = replicate 32 8, iev_sequence = 1, iev_expires_at_ms = 4000, iev_event = ev\<rparr>"

definition demo_authorized :: "agent_command \<Rightarrow> authorized_command" where
  "demo_authorized command =
     \<lparr>acm_command_id = replicate 16 2, acm_command = command,
      acm_grant = \<lparr>ag_claims = eg_claims (ex_grant (demo_execute 1 command)),
                   ag_issuer_key_id = replicate 32 7\<rparr>\<rparr>"

definition demo_resource :: authorized_input_resource where
  "demo_resource =
     \<lparr>air_resource_id = replicate 16 9, air_start_grant_id = replicate 32 8,
      air_input_scopes = {InputPointer}, air_grant = acm_grant (demo_authorized demo_start)\<rparr>"

lemma scope_list_all: "k \<in> set scope_list"
  by (cases k) (simp_all add: scope_list_def)

lemma demo_scopes_json: "ge_scopes_to_vec demo_env s = ge_scopes_to_vec demo_env s' \<Longrightarrow> s = s'"
proof (rule set_eqI)
  fix k assume "ge_scopes_to_vec demo_env s = ge_scopes_to_vec demo_env s'"
  then have "(if k \<in> s then 1 else 0 :: u8) = (if k \<in> s' then 1 else 0)"
    using scope_list_all [of k] by (simp add: demo_env_def)
  then show "k \<in> s \<longleftrightarrow> k \<in> s'" by (simp split: if_splits)
qed

lemma demo_execute_Ok:
  assumes "token \<noteq> 0" "command_shape command" "command_required_scopes command \<subseteq> {InputPointer}"
  shows "validate_execute_command demo_env (demo_execute token command) demo_context =
    Ok (demo_authorized command)"
  using assms
  by (simp add: validate_execute_command_Ok grant_bound_def demo_execute_def demo_authorized_def
      demo_context_def execute_command_digest_def execute_digest_input_def)
    (simp add: demo_env_def replicate_add [symmetric])

lemma demo_command_shapes [simp]:
  "command_shape demo_start" "command_required_scopes demo_start = {InputPointer}"
  "command_shape demo_stop" "command_required_scopes demo_stop = {}"
  "command_is_cleanup demo_stop" "\<not> command_is_cleanup demo_start"
  "command_wf demo_start" "command_wf demo_stop"
  by (simp_all add: command_shape_def demo_start_def demo_stop_def command_wf_def)

lemma demo_resource_Ok: "authorize_input_resource (demo_authorized demo_start) = Ok demo_resource"
  by (simp add: authorize_input_resource_def demo_authorized_def demo_start_def demo_resource_def
      demo_execute_def)

lemma demo_event_Ok:
  assumes "has_valid_shape ev" "event_required_scope ev \<noteq> Some InputKeyboard"
  shows "validate_input_event (demo_event ev) demo_resource demo_context =
    Ok \<lparr>vie_envelope = demo_event ev\<rparr>"
proof -
  have trim: "trim ''s'' = ''s''" by code_simp
  have "event_required_scope ev \<in> {None, Some InputPointer}" using assms(2) by (cases ev) simp_all
  with assms(1) trim show ?thesis
    by (auto simp: validate_input_event_def input_validate_shape_def demo_event_def demo_resource_def
        demo_authorized_def demo_execute_def demo_context_def Let_def AGENT_IPC_MAX_IDENTIFIER_BYTES_def)
qed

section \<open>Properties\<close>

text \<open>
  C17. What an accepted command was authorised by.  When a command is accepted, the returned
  capability carries exactly that command; the expected issuer's signature over the canonical
  bytes of the grant was verified; the grant names this registration and epoch, session, peer,
  policy revision, Windows session, desktop epoch and desktop kind, and the digest of exactly
  this command; the scopes the command requires are among the signed ones, which are among
  those the local consent approved; the grant lives at most five minutes from its issue and
  not beyond the consent; it has begun; and a command that starts work has a scope to require,
  is on the default desktop and inside the grant's interval.
\<close>

theorem execute_command_authority:
  assumes "validate_execute_command env x ctx = Ok a"
  shows "case eg_claims (ex_grant x) of claims \<Rightarrow>
    acm_command a = ex_command x \<and> acm_command_id a = ex_command_id x \<and>
    ag_claims (acm_grant a) = claims \<and>
    ge_verify env (xc_expected_issuer_key_id ctx) (grant_signing_bytes env (ex_grant x))
      (eg_signature (ex_grant x)) \<and>
    gc_command_digest claims = execute_command_digest env x \<and>
    gc_registration_id claims = xc_registration_id ctx \<and>
    gc_registration_epoch claims = xc_registration_epoch ctx \<and>
    gc_session_id claims = xc_session_id ctx \<and> gc_peer claims = xc_peer ctx \<and>
    gc_policy_revision claims = xc_policy_revision ctx \<and>
    gc_windows_session_id claims = xc_windows_session_id ctx \<and>
    gc_desktop_epoch claims = xc_desktop_epoch ctx \<and> gc_desktop_kind claims = xc_desktop_kind ctx \<and>
    command_required_scopes (ex_command x) \<subseteq> gc_scopes claims \<and>
    gc_scopes claims \<subseteq> xc_authorization_scopes ctx \<and>
    unat (gc_expires_at_ms claims) \<le> unat (gc_issued_at_ms claims) + 300000 \<and>
    gc_expires_at_ms claims \<le> xc_authorization_expires_at_ms ctx \<and>
    gc_not_before_ms claims \<le> xc_now_ms ctx \<and>
    (command_is_cleanup (ex_command x) \<or>
      command_required_scopes (ex_command x) \<noteq> {} \<and> xc_desktop_kind ctx = DkDefault \<and>
      xc_now_ms ctx < gc_expires_at_ms claims)"
  using assms required_scopes_start [of "ex_command x"]
  by (auto simp: validate_execute_command_Ok grant_bound_def Let_def)

theorem execute_command_authority_witness:
  "validate_execute_command demo_env (demo_execute 1 demo_start) demo_context =
     Ok (demo_authorized demo_start) \<and>
   gc_scopes (eg_claims (ex_grant (demo_execute 1 demo_start))) \<subseteq> xc_authorization_scopes demo_context"
proof -
  have ok: "validate_execute_command demo_env (demo_execute 1 demo_start) demo_context =
      Ok (demo_authorized demo_start)"
    by (rule demo_execute_Ok) simp_all
  with execute_command_authority [OF ok] show ?thesis by simp
qed

text \<open>
  The validity interval.  A command accepted at some time is accepted, in the same
  context, at exactly the times of the half-open interval of its grant when it starts work,
  and at every time from the interval's beginning on when it is cleanup: the end of the grant
  and of the consent never strands a resource that has to be released.
\<close>

theorem execute_validity_interval:
  assumes "validate_execute_command env x ctx = Ok a"
  shows "validate_execute_command env x (ctx\<lparr>xc_now_ms := t\<rparr>) = Ok a \<longleftrightarrow>
    gc_not_before_ms (eg_claims (ex_grant x)) \<le> t \<and>
    (command_is_cleanup (ex_command x) \<or> t < gc_expires_at_ms (eg_claims (ex_grant x)))"
proof -
  have "grant_bound env g (ctx\<lparr>xc_now_ms := t\<rparr>) d r = grant_bound env g ctx d r" for g d r
    by (simp add: grant_bound_def)
  with assms show ?thesis by (auto simp: validate_execute_command_Ok)
qed

theorem execute_validity_interval_witness:
  "validate_execute_command demo_env (demo_execute 1 demo_start) (demo_context\<lparr>xc_now_ms := 61000\<rparr>) \<noteq>
     Ok (demo_authorized demo_start) \<and>
   validate_execute_command demo_env (demo_execute 1 demo_stop) (demo_context\<lparr>xc_now_ms := 900000\<rparr>) =
     Ok (demo_authorized demo_stop)"
proof -
  have "validate_execute_command demo_env (demo_execute 1 demo_start) demo_context =
      Ok (demo_authorized demo_start)"
    "validate_execute_command demo_env (demo_execute 1 demo_stop) demo_context =
      Ok (demo_authorized demo_stop)"
    by (rule demo_execute_Ok; simp)+
  from this [THEN execute_validity_interval] show ?thesis
    by (simp add: demo_execute_def)
qed

text \<open>
  A grant is bound to one command.  Two accepted commands that carry the same claims are
  the same command with the same command identifier, whatever their request tokens, unless
  two different inputs of one of the two hashes that were computed for them collide.  Only the
  array sizes and the injectivity of the JSON of the two commands' input scopes are used.
\<close>

theorem execute_grant_binds_command:
  assumes "validate_execute_command env x ctx = Ok a" "validate_execute_command env y ctx' = Ok b"
    and "eg_claims (ex_grant x) = eg_claims (ex_grant y)"
    and "command_wf (ex_command x)" "command_wf (ex_command y)"
    and "length (ex_command_id x) = 16" "length (ex_command_id y) = 16"
    and json: "\<And>s s'. ge_scopes_to_vec env s = ge_scopes_to_vec env s' \<Longrightarrow> s = s'"
  shows "acm_command a = acm_command b \<and> acm_command_id a = acm_command_id b \<or>
    execute_digest_input env x \<noteq> execute_digest_input env y \<and>
      ge_sha256 env (execute_digest_input env x) = ge_sha256 env (execute_digest_input env y) \<or>
    command_digest_input env (ex_command x) \<noteq> command_digest_input env (ex_command y) \<and>
      ge_sha256 env (command_digest_input env (ex_command x)) =
      ge_sha256 env (command_digest_input env (ex_command y))"
proof -
  have same: "execute_command_digest env x = execute_command_digest env y"
    using assms(1-3) by (simp add: validate_execute_command_Ok grant_bound_def Let_def)
  show ?thesis
  proof (cases "execute_digest_input env x = execute_digest_input env y")
    case True
    with assms(6,7) have "ex_command_id x = ex_command_id y"
      "command_digest env (ex_command x) = command_digest env (ex_command y)"
      by (simp_all add: execute_digest_input_def append_eq_append_conv)
    moreover have "ex_command x = ex_command y"
      if "command_digest_input env (ex_command x) = command_digest_input env (ex_command y)"
      using command_digest_input_inject [OF assms(4,5) json that] by blast
    ultimately show ?thesis
      using assms(1,2) by (auto simp: validate_execute_command_Ok command_digest_def)
  next
    case False
    with same show ?thesis by (simp add: execute_command_digest_def)
  qed
qed

theorem execute_grant_binds_command_witness:
  "validate_execute_command demo_env (demo_execute 1 demo_start) demo_context =
     Ok (demo_authorized demo_start) \<and>
   \<not> is_ok (validate_execute_command demo_env ((demo_execute 2 demo_start)\<lparr>ex_command := demo_stop\<rparr>)
       demo_context)"
proof -
  let ?y = "(demo_execute 2 demo_start)\<lparr>ex_command := demo_stop\<rparr>"
  have ok: "validate_execute_command demo_env (demo_execute 1 demo_start) demo_context =
      Ok (demo_authorized demo_start)"
    by (rule demo_execute_Ok) simp_all
  have "False" if b: "validate_execute_command demo_env ?y demo_context = Ok b" for b
  proof -
    have "acm_command (demo_authorized demo_start) = acm_command b"
      using execute_grant_binds_command [OF ok b] demo_scopes_json
      by (simp add: demo_execute_def) (simp add: demo_env_def)
    with b show False
      by (auto simp: validate_execute_command_Ok demo_authorized_def demo_start_def demo_stop_def)
  qed
  with ok show ?thesis by (auto simp: is_ok_iff)
qed

text \<open>
  C18. The authority of an injected event.  When a command accepted in one context was turned
  into an input resource and an event that needs a permission is accepted for it in a later
  context, then the event is the one presented, its permission is pointer or keyboard input
  and was requested by the command, signed in the grant and approved by the local consent both
  then and now; registration, epoch, session, peer, Windows session, policy revision and
  desktop epoch are those of the start; the desktop is the default one; and the event arrives
  before its own deadline, which lies within the grant's, which ends at most five minutes
  after the grant was issued and not after the consent.
\<close>

theorem input_event_authority:
  assumes start: "validate_execute_command env x ctx0 = Ok a" "authorize_input_resource a = Ok res"
    and event: "validate_input_event e res ctx = Ok v"
    and scope: "event_required_scope (iev_event e) = Some sc"
  shows "case eg_claims (ex_grant x) of claims \<Rightarrow>
    vie_envelope v = e \<and> iev_start_grant_id e = gc_grant_id claims \<and>
    iev_resource_id e = command_resource_id (ex_command x) \<and>
    sc \<in> {InputPointer, InputKeyboard} \<and> sc \<in> command_required_scopes (ex_command x) \<and>
    sc \<in> gc_scopes claims \<and>
    sc \<in> xc_authorization_scopes ctx0 \<and> sc \<in> xc_authorization_scopes ctx \<and>
    xc_registration_id ctx = xc_registration_id ctx0 \<and>
    xc_registration_epoch ctx = xc_registration_epoch ctx0 \<and>
    xc_session_id ctx = xc_session_id ctx0 \<and> xc_peer ctx = xc_peer ctx0 \<and>
    xc_windows_session_id ctx = xc_windows_session_id ctx0 \<and>
    xc_policy_revision ctx = xc_policy_revision ctx0 \<and>
    xc_desktop_epoch ctx = xc_desktop_epoch ctx0 \<and> xc_desktop_kind ctx = DkDefault \<and>
    xc_now_ms ctx < iev_expires_at_ms e \<and> iev_expires_at_ms e \<le> gc_expires_at_ms claims \<and>
    unat (gc_expires_at_ms claims) \<le> unat (gc_issued_at_ms claims) + 300000 \<and>
    gc_expires_at_ms claims \<le> xc_authorization_expires_at_ms ctx0 \<and>
    gc_expires_at_ms claims \<le> xc_authorization_expires_at_ms ctx"
proof -
  obtain r scopes where cmd: "ex_command x = StartInput r scopes"
    and res: "air_resource_id res = r" "air_input_scopes res = scopes"
      "air_start_grant_id res = gc_grant_id (eg_claims (ex_grant x))"
      "ag_claims (air_grant res) = eg_claims (ex_grant x)"
    using start by (auto simp: validate_execute_command_Ok authorize_input_resource_def
        split: agent_command.splits)
  have shape: "scopes \<subseteq> {InputPointer, InputKeyboard}"
    and bound: "grant_bound env (ex_grant x) ctx0 (execute_command_digest env x) scopes"
    using start(1) by (simp_all add: validate_execute_command_Ok command_shape_def cmd)
  show ?thesis
    using event scope shape bound
    by (auto simp: validate_input_event_def Let_def cmd res grant_bound_def not_le not_less
        split: if_splits)
qed

theorem input_event_authority_witness:
  "validate_input_event (demo_event (IeMouseMove 3 4)) demo_resource demo_context =
     Ok \<lparr>vie_envelope = demo_event (IeMouseMove 3 4)\<rparr> \<and>
   InputPointer \<in> xc_authorization_scopes demo_context \<and>
   xc_now_ms demo_context < iev_expires_at_ms (demo_event (IeMouseMove 3 4))"
proof -
  have ok: "validate_execute_command demo_env (demo_execute 1 demo_start) demo_context =
      Ok (demo_authorized demo_start)"
    by (rule demo_execute_Ok) simp_all
  have ev: "validate_input_event (demo_event (IeMouseMove 3 4)) demo_resource demo_context =
     Ok \<lparr>vie_envelope = demo_event (IeMouseMove 3 4)\<rparr>"
    by (rule demo_event_Ok) simp_all
  have "event_required_scope (iev_event (demo_event (IeMouseMove 3 4))) = Some InputPointer"
    by (simp add: demo_event_def)
  from ev input_event_authority [OF ok demo_resource_Ok ev this] show ?thesis by simp
qed

text \<open>
  C34. Revocation and release.  An accepted event that needs a permission is refused with
  \<open>Policy\<close> as soon as the policy revision changes, with \<open>StaleDesktop\<close> as soon as the desktop
  epoch or kind changes, with \<open>Grant\<close> from its deadline on and with \<open>Grant\<close> when the consent no
  longer covers it; a \<open>ReleaseAll\<close> accepted once is accepted at every time, policy revision
  and desktop, so held keys and buttons can always be released.
\<close>

theorem input_event_revocation:
  assumes "validate_input_event e res ctx = Ok v"
  shows "case event_required_scope (iev_event e) of
      Some sc \<Rightarrow>
        (\<forall>r. r \<noteq> xc_policy_revision ctx \<longrightarrow>
           validate_input_event e res (ctx\<lparr>xc_policy_revision := r\<rparr>) = Err IrPolicy) \<and>
        (\<forall>d. d \<noteq> xc_desktop_epoch ctx \<longrightarrow>
           validate_input_event e res (ctx\<lparr>xc_desktop_epoch := d\<rparr>) = Err IrStaleDesktop) \<and>
        (\<forall>k. k \<noteq> DkDefault \<longrightarrow>
           validate_input_event e res (ctx\<lparr>xc_desktop_kind := k\<rparr>) = Err IrStaleDesktop) \<and>
        (\<forall>t. iev_expires_at_ms e \<le> t \<longrightarrow>
           validate_input_event e res (ctx\<lparr>xc_now_ms := t\<rparr>) = Err IrGrant) \<and>
        (\<forall>s. sc \<notin> s \<longrightarrow>
           validate_input_event e res (ctx\<lparr>xc_authorization_scopes := s\<rparr>) = Err IrGrant)
    | None \<Rightarrow>
        iev_event e = IeReleaseAll \<and>
        (\<forall>t r d k. validate_input_event e res
           (ctx\<lparr>xc_now_ms := t, xc_policy_revision := r, xc_desktop_epoch := d, xc_desktop_kind := k\<rparr>)
           = Ok v)"
proof (cases "event_required_scope (iev_event e)")
  case None
  then have "iev_event e = IeReleaseAll" by (cases "iev_event e") simp_all
  with None assms show ?thesis by (auto simp: validate_input_event_def Let_def split: if_splits)
next
  case (Some sc)
  have "input_validate_shape e = Ok ()" using assms by (auto simp: validate_input_event_def)
  with Some assms show ?thesis
    by (auto simp: validate_input_event_def Let_def split: if_splits)
qed

theorem input_event_revocation_witness:
  "validate_input_event (demo_event (IeMouseWheel 1)) demo_resource
     (demo_context\<lparr>xc_policy_revision := 5\<rparr>) = Err IrPolicy \<and>
   validate_input_event (demo_event IeReleaseAll) demo_resource
     (demo_context\<lparr>xc_now_ms := 999999, xc_policy_revision := 5, xc_desktop_epoch := 9,
        xc_desktop_kind := DkSecure\<rparr>) = Ok \<lparr>vie_envelope = demo_event IeReleaseAll\<rparr>"
proof -
  have "validate_input_event (demo_event (IeMouseWheel 1)) demo_resource demo_context =
      Ok \<lparr>vie_envelope = demo_event (IeMouseWheel 1)\<rparr>"
    "validate_input_event (demo_event IeReleaseAll) demo_resource demo_context =
      Ok \<lparr>vie_envelope = demo_event IeReleaseAll\<rparr>"
    by (rule demo_event_Ok; simp)+
  note this [THEN input_event_revocation]
  moreover have "event_required_scope (iev_event (demo_event (IeMouseWheel 1))) = Some InputPointer"
    "event_required_scope (iev_event (demo_event IeReleaseAll)) = None"
    "xc_policy_revision demo_context = 4"
    by (simp_all add: demo_event_def demo_context_def)
  ultimately show ?thesis by simp
qed

end
