(* ===== verification/Agent_Consent.thy ===== *)
theory Agent_Consent
  imports Agent_Grant
begin

text \<open>
  Attended consent (\<open>crates/mrd-agent-ipc/src/protocol.rs\<close>): the service's request, the
  agent's untrusted answer and the validation that correlates the two
  (\<open>validate_consent_result\<close>).  Its outcome supplies the scopes and the deadline against
  which execute grants are checked.
\<close>

section \<open>Data\<close>

record consent_request =
  cr_request_token :: u64
  cr_request_id :: bytes
  cr_session_id :: session_id
  cr_peer :: peer_binding
  cr_requested_scopes :: permission_scopes
  cr_policy_revision :: u64
  cr_windows_session_id :: u32
  cr_issued_at_ms :: u64
  cr_expires_at_ms :: u64
  cr_authorization_expires_at_ms :: u64

datatype consent_decision = CdApproved | CdDenied | CdExpired | CdDismissed

record consent_result =
  cn_request_token :: u64
  cn_request_id :: bytes
  cn_session_id :: session_id
  cn_peer :: peer_binding
  cn_policy_revision :: u64
  cn_windows_session_id :: u32
  cn_decision :: consent_decision
  cn_approved_scopes :: permission_scopes
  cn_decided_at_ms :: u64

datatype consent_validation_error =
    CvInvalidRequest | CvRequestMismatch | CvNotYetValid | CvExpired | CvInvalidDecisionTime
  | CvEmptyApproval | CvScopeEscalation | CvUnexpectedApprovedScopes

record validated_consent =
  vc_request_id :: bytes
  vc_session_id :: session_id
  vc_peer :: peer_binding
  vc_policy_revision :: u64
  vc_windows_session_id :: u32
  vc_decision :: consent_decision
  vc_approved_scopes :: permission_scopes
  vc_decided_at_ms :: u64
  vc_authorization_expires_at_ms :: u64

section \<open>Validation\<close>

definition validate_consent_result ::
  "consent_request \<Rightarrow> consent_result \<Rightarrow> u64
   \<Rightarrow> (validated_consent, consent_validation_error) result" where
  "validate_consent_result request result now_ms =
     (if cr_request_token request = 0 \<or> all_zero (cr_request_id request)
        \<or> cr_session_id request = []
        \<or> length (cr_session_id request) > AGENT_IPC_MAX_IDENTIFIER_BYTES
        \<or> pb_device_id (cr_peer request) = []
        \<or> length (pb_device_id (cr_peer request)) > AGENT_IPC_MAX_IDENTIFIER_BYTES
        \<or> all_zero (pb_key_id (cr_peer request)) \<or> cr_requested_scopes request = {}
        \<or> cr_policy_revision request = 0 \<or> cr_windows_session_id request = 0
        \<or> cr_issued_at_ms request = 0 \<or> cr_expires_at_ms request \<le> cr_issued_at_ms request
        \<or> cr_authorization_expires_at_ms request < cr_expires_at_ms request
        \<or> saturating_sub (cr_authorization_expires_at_ms request) (cr_issued_at_ms request)
            > AGENT_CONSENT_MAX_LIFETIME_MS
      then Err CvInvalidRequest
      else if cn_request_token result = 0 \<or> cn_request_token result \<noteq> cr_request_token request
        \<or> cn_request_id result \<noteq> cr_request_id request
        \<or> cn_session_id result \<noteq> cr_session_id request \<or> cn_peer result \<noteq> cr_peer request
        \<or> cn_policy_revision result \<noteq> cr_policy_revision request
        \<or> cn_windows_session_id result \<noteq> cr_windows_session_id request
      then Err CvRequestMismatch
      else if now_ms < cr_issued_at_ms request then Err CvNotYetValid
      else if now_ms \<ge> cr_expires_at_ms request then Err CvExpired
      else if cn_decided_at_ms result < cr_issued_at_ms request
        \<or> cn_decided_at_ms result \<ge> cr_expires_at_ms request \<or> cn_decided_at_ms result > now_ms
      then Err CvInvalidDecisionTime
      else
      and_then
        (case cn_decision result of
           CdApproved \<Rightarrow>
             if cn_approved_scopes result = {} then Err CvEmptyApproval
             else if \<not> cn_approved_scopes result \<subseteq> cr_requested_scopes request
             then Err CvScopeEscalation
             else Ok ()
         | _ \<Rightarrow>
             if cn_approved_scopes result \<noteq> {} then Err CvUnexpectedApprovedScopes else Ok ())
        (\<lambda>_. Ok \<lparr>vc_request_id = cr_request_id request, vc_session_id = cr_session_id request,
            vc_peer = cr_peer request, vc_policy_revision = cr_policy_revision request,
            vc_windows_session_id = cr_windows_session_id request,
            vc_decision = cn_decision result, vc_approved_scopes = cn_approved_scopes result,
            vc_decided_at_ms = cn_decided_at_ms result,
            vc_authorization_expires_at_ms = cr_authorization_expires_at_ms request\<rparr>))"

section \<open>Properties\<close>

lemma consent_lifetime:
  "\<not> saturating_sub e i > AGENT_CONSENT_MAX_LIFETIME_MS \<Longrightarrow> unat (e::u64) \<le> unat i + 300000"
  by (simp add: not_less word_le_nat_alt unat_saturating_sub
      AGENT_CONSENT_MAX_LIFETIME_MS_def)

lemma validated_consent_facts:
  assumes "validate_consent_result q r now = Ok v"
  shows "cr_requested_scopes q \<noteq> {} \<and> cr_issued_at_ms q < cr_expires_at_ms q \<and>
    cr_expires_at_ms q \<le> cr_authorization_expires_at_ms q \<and>
    \<not> saturating_sub (cr_authorization_expires_at_ms q) (cr_issued_at_ms q) > AGENT_CONSENT_MAX_LIFETIME_MS \<and>
    cn_request_token r = cr_request_token q \<and> cn_request_id r = cr_request_id q \<and>
    cn_session_id r = cr_session_id q \<and> cn_peer r = cr_peer q \<and>
    cn_policy_revision r = cr_policy_revision q \<and> cn_windows_session_id r = cr_windows_session_id q \<and>
    now < cr_expires_at_ms q \<and> cr_issued_at_ms q \<le> cn_decided_at_ms r \<and> cn_decided_at_ms r \<le> now \<and>
    (cn_decision r = CdApproved \<longleftrightarrow> cn_approved_scopes r \<noteq> {}) \<and>
    cn_approved_scopes r \<subseteq> cr_requested_scopes q \<and>
    v = \<lparr>vc_request_id = cr_request_id q, vc_session_id = cr_session_id q, vc_peer = cr_peer q,
         vc_policy_revision = cr_policy_revision q, vc_windows_session_id = cr_windows_session_id q,
         vc_decision = cn_decision r, vc_approved_scopes = cn_approved_scopes r,
         vc_decided_at_ms = cn_decided_at_ms r,
         vc_authorization_expires_at_ms = cr_authorization_expires_at_ms q\<rparr>"
  using assms unfolding validate_consent_result_def guard_Ok and_then_eq_Ok
  by (cases "cn_decision r") (auto simp: not_less not_le split: if_splits)

text \<open>
  Consent never exceeds the request.  A validated answer carries the token, identifier,
  session, peer, policy revision and Windows session of the request it answers; it approves a
  subset of the requested scopes, and at least one of them exactly when the decision is an
  approval; it was decided in the prompt's interval and not after the time it was validated;
  and the authorization it gives ends no later than five minutes after the request was issued.
\<close>

theorem consent_within_request:
  assumes "validate_consent_result q r now = Ok v"
  shows "vc_approved_scopes v \<subseteq> cr_requested_scopes q \<and>
    (vc_approved_scopes v \<noteq> {} \<longleftrightarrow> vc_decision v = CdApproved) \<and>
    cn_request_token r = cr_request_token q \<and>
    vc_request_id v = cn_request_id r \<and> cn_request_id r = cr_request_id q \<and>
    vc_session_id v = cn_session_id r \<and> cn_session_id r = cr_session_id q \<and>
    vc_peer v = cn_peer r \<and> cn_peer r = cr_peer q \<and>
    vc_policy_revision v = cn_policy_revision r \<and> cn_policy_revision r = cr_policy_revision q \<and>
    vc_windows_session_id v = cn_windows_session_id r \<and>
    cn_windows_session_id r = cr_windows_session_id q \<and>
    cr_issued_at_ms q \<le> vc_decided_at_ms v \<and> vc_decided_at_ms v \<le> now \<and> now < cr_expires_at_ms q \<and>
    cr_expires_at_ms q \<le> vc_authorization_expires_at_ms v \<and>
    unat (vc_authorization_expires_at_ms v) \<le> unat (cr_issued_at_ms q) + 300000"
  using validated_consent_facts [OF assms]
    consent_lifetime [of "cr_authorization_expires_at_ms q" "cr_issued_at_ms q"]
  by auto

definition demo_request :: consent_request where
  "demo_request = \<lparr>cr_request_token = 3, cr_request_id = replicate 16 1, cr_session_id = ''s'',
     cr_peer = \<lparr>pb_device_id = ''d'', pb_key_id = replicate 32 6\<rparr>,
     cr_requested_scopes = {ScreenView, InputPointer}, cr_policy_revision = 4,
     cr_windows_session_id = 2, cr_issued_at_ms = 1000, cr_expires_at_ms = 31000,
     cr_authorization_expires_at_ms = 301000\<rparr>"

definition demo_answer :: "permission_scopes \<Rightarrow> consent_result" where
  "demo_answer scopes = \<lparr>cn_request_token = 3, cn_request_id = replicate 16 1, cn_session_id = ''s'',
     cn_peer = \<lparr>pb_device_id = ''d'', pb_key_id = replicate 32 6\<rparr>, cn_policy_revision = 4,
     cn_windows_session_id = 2, cn_decision = CdApproved, cn_approved_scopes = scopes,
     cn_decided_at_ms = 5000\<rparr>"

lemmas demo_consent_defs =
  validate_consent_result_def demo_request_def demo_answer_def saturating_sub_def
  AGENT_CONSENT_MAX_LIFETIME_MS_def AGENT_IPC_MAX_IDENTIFIER_BYTES_def

theorem consent_within_request_witness:
  "\<exists>v. validate_consent_result demo_request (demo_answer {ScreenView}) 6000 = Ok v \<and>
     vc_approved_scopes v \<subseteq> cr_requested_scopes demo_request \<and> vc_decision v = CdApproved"
proof -
  have "is_ok (validate_consent_result demo_request (demo_answer {ScreenView}) 6000)"
    by (simp add: demo_consent_defs)
  then obtain v where v: "validate_consent_result demo_request (demo_answer {ScreenView}) 6000 = Ok v"
    by (auto simp: is_ok_iff)
  from validated_consent_facts [OF v] have "vc_decision v = CdApproved"
    by (simp add: demo_answer_def)
  with v consent_within_request [OF v] show ?thesis by blast
qed

end
