(* ===== verification/Control_Input.thy ===== *)
theory Control_Input
  imports Agent_Grant "HOL-Library.List_Lexorder" "HOL-Library.Char_ord"
begin

text \<open>
  Input injection for remote sessions: the injector interface and its repository
  implementations (\<open>crates/mrd-input/src/lib.rs\<close>) and the registry that shares one injector
  between sessions (\<open>apps/mrd-service/src/control_input.rs\<close>).

  An injector is a pair of operations on its own state, \<open>injector_ops\<close>; the platform injectors
  (\<open>windows.rs\<close> and \<open>macos.rs\<close> of \<open>crates/mrd-input\<close>), which call the operating system, are not
  modelled and enter as this parameter, with the contract \<open>injector\<close> assumed of them.  The contract
  takes different virtual keys for different keys of the device; \<open>macos.rs\<close> maps some pairs of them,
  such as the two codes of the shift key, to one native key, and for these pairs it does not hold.
  A \<open>HashSet\<close> that is iterated is a list without
  duplicates whose order no theorem uses.  The 64-bit message counters wrap.
\<close>

section \<open>Events\<close>

type_synonym i32 = "32 word"

datatype inj_button = IbLeft | IbRight | IbMiddle | IbOther u16
datatype inj_key = IkVirtualKey u16

datatype inj_event =
    EvMouseMove i32 i32
  | EvMouseButton inj_button bool
  | EvMouseWheel i32
  | EvMouseHorizontalWheel i32
  | EvKey inj_key bool

datatype input_error =
    InUnavailable string | InInvalidEvent string | InUipiDenied | InPlatform string

fun input_error_to_string :: "input_error \<Rightarrow> string" where
  "input_error_to_string (InUnavailable s) = ''input injector unavailable: '' @ s"
| "input_error_to_string (InInvalidEvent s) = ''invalid input event: '' @ s"
| "input_error_to_string InUipiDenied = ''input injection was blocked by Windows UIPI''"
| "input_error_to_string (InPlatform s) = ''platform input injection failed: '' @ s"

datatype control_input_button = CbLeft | CbRight | CbMiddle | CbX1 | CbX2
datatype control_input_key = CkVirtualKey u16

datatype control_input_event =
    CiMouseMove i32 i32
  | CiMouseButton control_input_button bool
  | CiMouseWheel i32
  | CiMouseHorizontalWheel i32
  | CiKey control_input_key bool
  | CiReleaseAll

datatype control_input_lane = LaneReliable | LaneRealtime | LaneCleanup

fun input_lane :: "control_input_event \<Rightarrow> control_input_lane" where
  "input_lane (CiMouseMove _ _) = LaneRealtime"
| "input_lane (CiMouseWheel _) = LaneRealtime"
| "input_lane (CiMouseHorizontalWheel _) = LaneRealtime"
| "input_lane (CiMouseButton _ _) = LaneReliable"
| "input_lane (CiKey _ _) = LaneReliable"
| "input_lane CiReleaseAll = LaneCleanup"

fun input_button_from_ipc :: "control_input_button \<Rightarrow> inj_button" where
  "input_button_from_ipc CbLeft = IbLeft"
| "input_button_from_ipc CbRight = IbRight"
| "input_button_from_ipc CbMiddle = IbMiddle"
| "input_button_from_ipc CbX1 = IbOther 1"
| "input_button_from_ipc CbX2 = IbOther 2"

fun input_key_from_ipc :: "control_input_key \<Rightarrow> inj_key" where
  "input_key_from_ipc (CkVirtualKey code) = IkVirtualKey code"

fun input_event_from_ipc :: "control_input_event \<Rightarrow> (inj_event, input_error) result" where
  "input_event_from_ipc (CiMouseMove x y) = Ok (EvMouseMove x y)"
| "input_event_from_ipc (CiMouseWheel delta) = Ok (EvMouseWheel delta)"
| "input_event_from_ipc (CiMouseHorizontalWheel delta) = Ok (EvMouseHorizontalWheel delta)"
| "input_event_from_ipc (CiMouseButton button pressed) =
     Ok (EvMouseButton (input_button_from_ipc button) pressed)"
| "input_event_from_ipc (CiKey key pressed) = Ok (EvKey (input_key_from_ipc key) pressed)"
| "input_event_from_ipc CiReleaseAll =
     Err (InInvalidEvent ''release_all is not a single input event'')"

text \<open>The event as the desktop agent's protocol carries it.\<close>

fun agent_button :: "control_input_button \<Rightarrow> input_button" where
  "agent_button CbLeft = BtnLeft"
| "agent_button CbRight = BtnRight"
| "agent_button CbMiddle = BtnMiddle"
| "agent_button CbX1 = BtnX1"
| "agent_button CbX2 = BtnX2"

fun agent_event :: "control_input_event \<Rightarrow> input_event_payload" where
  "agent_event (CiMouseMove x y) = IeMouseMove x y"
| "agent_event (CiMouseWheel delta) = IeMouseWheel delta"
| "agent_event (CiMouseHorizontalWheel delta) = IeMouseHorizontalWheel delta"
| "agent_event (CiMouseButton button pressed) = IeMouseButton (agent_button button) pressed"
| "agent_event (CiKey (CkVirtualKey code) pressed) = IeKey (VirtualKey code) pressed"
| "agent_event CiReleaseAll = IeReleaseAll"

section \<open>Injectors\<close>

record 'i injector_ops =
  io_inject :: "'i \<Rightarrow> inj_event \<Rightarrow> 'i \<times> (unit, input_error) result"
  io_reset_idle_state :: "'i \<Rightarrow> 'i"

text \<open>\<open>RecordingInputInjector\<close>.\<close>

record recording_injector =
  rec_available :: bool
  rec_unavailable_reason :: string
  rec_recorded :: "inj_event list"

definition recording_available :: recording_injector where
  "recording_available = \<lparr>rec_available = True, rec_unavailable_reason = [], rec_recorded = []\<rparr>"

definition recording_inject ::
  "recording_injector \<Rightarrow> inj_event \<Rightarrow> recording_injector \<times> (unit, input_error) result" where
  "recording_inject self event =
     (if \<not> rec_available self then (self, Err (InUnavailable (rec_unavailable_reason self)))
      else (self\<lparr>rec_recorded := rec_recorded self @ [event]\<rparr>, Ok ()))"

definition recording_ops :: "recording_injector injector_ops" where
  "recording_ops = \<lparr>io_inject = recording_inject, io_reset_idle_state = (\<lambda>i. i)\<rparr>"

text \<open>\<open>TrackedInputInjector\<close>: it keeps what it pressed so that it can release it.\<close>

record 'i tracked_injector =
  ti_inner :: 'i
  ti_active_buttons :: "inj_button list"
  ti_active_keys :: "inj_key list"

definition push_unique :: "'a list \<Rightarrow> 'a \<Rightarrow> 'a list" where
  "push_unique items value = (if value \<in> set items then items else items @ [value])"

definition update_pressed_state :: "'i tracked_injector \<Rightarrow> inj_event \<Rightarrow> 'i tracked_injector" where
  "update_pressed_state self event =
     (case event of
        EvMouseButton button pressed \<Rightarrow>
          if pressed then self\<lparr>ti_active_buttons := push_unique (ti_active_buttons self) button\<rparr>
          else self\<lparr>ti_active_buttons := filter (\<lambda>active. active \<noteq> button) (ti_active_buttons self)\<rparr>
      | EvKey key pressed \<Rightarrow>
          if pressed then self\<lparr>ti_active_keys := push_unique (ti_active_keys self) key\<rparr>
          else self\<lparr>ti_active_keys := filter (\<lambda>active. active \<noteq> key) (ti_active_keys self)\<rparr>
      | _ \<Rightarrow> self)"

definition tracked_inject ::
  "'i injector_ops \<Rightarrow> 'i tracked_injector \<Rightarrow> inj_event
   \<Rightarrow> 'i tracked_injector \<times> (unit, input_error) result" where
  "tracked_inject ops self event =
     (case io_inject ops (ti_inner self) event of
        (inner, Err e) \<Rightarrow> (self\<lparr>ti_inner := inner\<rparr>, Err e)
      | (inner, Ok _) \<Rightarrow> (update_pressed_state (self\<lparr>ti_inner := inner\<rparr>) event, Ok ()))"

definition tracked_reset_idle_state :: "'i injector_ops \<Rightarrow> 'i tracked_injector \<Rightarrow> 'i tracked_injector" where
  "tracked_reset_idle_state ops self =
     (if ti_active_buttons self = [] \<and> ti_active_keys self = []
      then self\<lparr>ti_inner := io_reset_idle_state ops (ti_inner self)\<rparr> else self)"

text \<open>The loops of \<open>release_all\<close>: inject every event, stop at the first failure.\<close>

fun inject_all ::
  "'i injector_ops \<Rightarrow> 'i \<Rightarrow> inj_event list \<Rightarrow> inj_event list
   \<Rightarrow> 'i \<times> (inj_event list, input_error) result" where
  "inject_all ops inner [] released = (inner, Ok released)"
| "inject_all ops inner (event # events) released =
     (case io_inject ops inner event of
        (inner', Err e) \<Rightarrow> (inner', Err e)
      | (inner', Ok _) \<Rightarrow> inject_all ops inner' events (released @ [event]))"

definition tracked_release_all ::
  "'i injector_ops \<Rightarrow> 'i tracked_injector
   \<Rightarrow> 'i tracked_injector \<times> (inj_event list, input_error) result" where
  "tracked_release_all ops self =
     (case inject_all ops (ti_inner self)
             (map (\<lambda>button. EvMouseButton button False) (ti_active_buttons self)) [] of
        (inner, Err e) \<Rightarrow> (self\<lparr>ti_inner := inner\<rparr>, Err e)
      | (inner, Ok released) \<Rightarrow>
          let self = self\<lparr>ti_inner := inner, ti_active_buttons := []\<rparr> in
          (case inject_all ops (ti_inner self)
                  (map (\<lambda>key. EvKey key False) (ti_active_keys self)) released of
             (inner, Err e) \<Rightarrow> (self\<lparr>ti_inner := inner\<rparr>, Err e)
           | (inner, Ok released) \<Rightarrow>
               (tracked_reset_idle_state ops (self\<lparr>ti_inner := inner, ti_active_keys := []\<rparr>),
                Ok released)))"

section \<open>The registry\<close>

record control_lane_counters =
  lc_accepted_messages :: u64
  lc_injected_messages :: u64
  lc_failed_messages :: u64
  lc_dropped_messages :: u64
  lc_coalesced_messages :: u64
  lc_last_error :: "string option"

definition lane_counters_default :: control_lane_counters where
  "lane_counters_default =
     \<lparr>lc_accepted_messages = 0, lc_injected_messages = 0, lc_failed_messages = 0,
      lc_dropped_messages = 0, lc_coalesced_messages = 0, lc_last_error = None\<rparr>"

datatype control_input_scope = ScopePointer | ScopeKeyboard

record session_pressed_input =
  sp_buttons :: "inj_button list"
  sp_keys :: "inj_key list"

definition pressed_default :: session_pressed_input where
  "pressed_default = \<lparr>sp_buttons = [], sp_keys = []\<rparr>"

record control_input_result =
  cir_lane :: control_input_lane
  cir_event_count :: u32

record 'i control_input_registry =
  ci_injector :: 'i
  ci_reliable :: control_lane_counters
  ci_realtime :: control_lane_counters
  ci_last_mouse_move :: "(session_id, i32 \<times> i32) hash_map"
  ci_pressed :: "(session_id, session_pressed_input) hash_map"
  ci_frozen :: "session_id set"
  ci_button_holders :: "(inj_button, nat) hash_map"
  ci_key_holders :: "(inj_key, nat) hash_map"

definition with_injector :: "'i \<Rightarrow> 'i control_input_registry" where
  "with_injector injector =
     \<lparr>ci_injector = injector, ci_reliable = lane_counters_default, ci_realtime = lane_counters_default,
      ci_last_mouse_move = [], ci_pressed = [], ci_frozen = {}, ci_button_holders = [],
      ci_key_holders = []\<rparr>"

text \<open>\<open>counter_for_lane_mut\<close>, as an update of the selected lane.\<close>

definition update_lane ::
  "control_input_lane \<Rightarrow> (control_lane_counters \<Rightarrow> control_lane_counters)
   \<Rightarrow> 'i control_input_registry \<Rightarrow> 'i control_input_registry" where
  "update_lane lane f self =
     (case lane of
        LaneRealtime \<Rightarrow> self\<lparr>ci_realtime := f (ci_realtime self)\<rparr>
      | _ \<Rightarrow> self\<lparr>ci_reliable := f (ci_reliable self)\<rparr>)"

definition remove_empty_session_state ::
  "'i control_input_registry \<Rightarrow> session_id \<Rightarrow> 'i control_input_registry" where
  "remove_empty_session_state self sid =
     (case map_of (ci_pressed self) sid of
        Some state \<Rightarrow>
          if sp_buttons state = [] \<and> sp_keys state = []
          then self\<lparr>ci_pressed := AList.delete sid (ci_pressed self)\<rparr> else self
      | None \<Rightarrow> self)"

text \<open>The two table updates of \<open>transition_session_button\<close>.\<close>

definition hold_button ::
  "'i control_input_registry \<Rightarrow> session_id \<Rightarrow> inj_button \<Rightarrow> nat \<Rightarrow> 'i control_input_registry" where
  "hold_button self sid button holders =
     (let state = (case map_of (ci_pressed self) sid of
            Some state \<Rightarrow> state | None \<Rightarrow> pressed_default)
      in self\<lparr>ci_pressed := AList.update sid (state\<lparr>sp_buttons := List.insert button (sp_buttons state)\<rparr>)
                (ci_pressed self),
              ci_button_holders := AList.update button (holders + 1) (ci_button_holders self)\<rparr>)"

definition drop_button ::
  "'i control_input_registry \<Rightarrow> session_id \<Rightarrow> inj_button \<Rightarrow> nat \<Rightarrow> 'i control_input_registry" where
  "drop_button self sid button holders =
     (let self = (case map_of (ci_pressed self) sid of
            Some state \<Rightarrow> self\<lparr>ci_pressed := AList.update sid
              (state\<lparr>sp_buttons := removeAll button (sp_buttons state)\<rparr>) (ci_pressed self)\<rparr>
          | None \<Rightarrow> self);
          self = (if holders \<le> 1
            then self\<lparr>ci_button_holders := AList.delete button (ci_button_holders self)\<rparr>
            else self\<lparr>ci_button_holders := AList.update button (holders - 1) (ci_button_holders self)\<rparr>)
      in remove_empty_session_state self sid)"

definition transition_session_button ::
  "'i injector_ops \<Rightarrow> 'i control_input_registry \<Rightarrow> session_id \<Rightarrow> inj_button \<Rightarrow> bool
   \<Rightarrow> 'i control_input_registry \<times> (u32, input_error) result" where
  "transition_session_button ops self sid button pressed =
     (let held_by_session = (case map_of (ci_pressed self) sid of
            Some state \<Rightarrow> button \<in> set (sp_buttons state) | None \<Rightarrow> False) in
      if pressed = held_by_session then (self, Ok 0)
      else
      let holders = (case map_of (ci_button_holders self) button of Some n \<Rightarrow> n | None \<Rightarrow> 0);
          physical_transition = (pressed \<and> holders = 0 \<or> \<not> pressed \<and> holders = 1)
      in case (if physical_transition then io_inject ops (ci_injector self) (EvMouseButton button pressed)
               else (ci_injector self, Ok ())) of
        (injector, Err e) \<Rightarrow> (self\<lparr>ci_injector := injector\<rparr>, Err e)
      | (injector, Ok _) \<Rightarrow>
          (if pressed then hold_button (self\<lparr>ci_injector := injector\<rparr>) sid button holders
           else drop_button (self\<lparr>ci_injector := injector\<rparr>) sid button holders,
           Ok (if physical_transition then 1 else 0)))"

text \<open>The two table updates of \<open>transition_session_key\<close>.\<close>

definition hold_key ::
  "'i control_input_registry \<Rightarrow> session_id \<Rightarrow> inj_key \<Rightarrow> nat \<Rightarrow> 'i control_input_registry" where
  "hold_key self sid key holders =
     (let state = (case map_of (ci_pressed self) sid of
            Some state \<Rightarrow> state | None \<Rightarrow> pressed_default)
      in self\<lparr>ci_pressed := AList.update sid (state\<lparr>sp_keys := List.insert key (sp_keys state)\<rparr>)
                (ci_pressed self),
              ci_key_holders := AList.update key (holders + 1) (ci_key_holders self)\<rparr>)"

definition drop_key ::
  "'i control_input_registry \<Rightarrow> session_id \<Rightarrow> inj_key \<Rightarrow> nat \<Rightarrow> 'i control_input_registry" where
  "drop_key self sid key holders =
     (let self = (case map_of (ci_pressed self) sid of
            Some state \<Rightarrow> self\<lparr>ci_pressed := AList.update sid
              (state\<lparr>sp_keys := removeAll key (sp_keys state)\<rparr>) (ci_pressed self)\<rparr>
          | None \<Rightarrow> self);
          self = (if holders \<le> 1
            then self\<lparr>ci_key_holders := AList.delete key (ci_key_holders self)\<rparr>
            else self\<lparr>ci_key_holders := AList.update key (holders - 1) (ci_key_holders self)\<rparr>)
      in remove_empty_session_state self sid)"

definition transition_session_key ::
  "'i injector_ops \<Rightarrow> 'i control_input_registry \<Rightarrow> session_id \<Rightarrow> inj_key \<Rightarrow> bool
   \<Rightarrow> 'i control_input_registry \<times> (u32, input_error) result" where
  "transition_session_key ops self sid key pressed =
     (let held_by_session = (case map_of (ci_pressed self) sid of
            Some state \<Rightarrow> key \<in> set (sp_keys state) | None \<Rightarrow> False) in
      if pressed = held_by_session then (self, Ok 0)
      else
      let holders = (case map_of (ci_key_holders self) key of Some n \<Rightarrow> n | None \<Rightarrow> 0);
          physical_transition = (pressed \<and> holders = 0 \<or> \<not> pressed \<and> holders = 1)
      in case (if physical_transition then io_inject ops (ci_injector self) (EvKey key pressed)
               else (ci_injector self, Ok ())) of
        (injector, Err e) \<Rightarrow> (self\<lparr>ci_injector := injector\<rparr>, Err e)
      | (injector, Ok _) \<Rightarrow>
          (if pressed then hold_key (self\<lparr>ci_injector := injector\<rparr>) sid key holders
           else drop_key (self\<lparr>ci_injector := injector\<rparr>) sid key holders,
           Ok (if physical_transition then 1 else 0)))"

definition inject_session_input ::
  "'i injector_ops \<Rightarrow> 'i control_input_registry \<Rightarrow> session_id \<Rightarrow> inj_event
   \<Rightarrow> 'i control_input_registry \<times> (u32, input_error) result" where
  "inject_session_input ops self sid event =
     (case event of
        EvMouseButton button pressed \<Rightarrow> transition_session_button ops self sid button pressed
      | EvKey key pressed \<Rightarrow> transition_session_key ops self sid key pressed
      | event \<Rightarrow>
          (case io_inject ops (ci_injector self) event of
             (injector, res) \<Rightarrow>
               (self\<lparr>ci_injector := injector\<rparr>, and_then res (\<lambda>_. Ok 1))))"

definition reset_input_if_idle :: "'i injector_ops \<Rightarrow> 'i control_input_registry \<Rightarrow> 'i control_input_registry" where
  "reset_input_if_idle ops self =
     (if ci_button_holders self = [] \<and> ci_key_holders self = []
      then self\<lparr>ci_injector := io_reset_idle_state ops (ci_injector self)\<rparr> else self)"

text \<open>The release loops: the first failure ends them.\<close>

fun release_buttons ::
  "'i injector_ops \<Rightarrow> 'i control_input_registry \<Rightarrow> session_id \<Rightarrow> inj_button list \<Rightarrow> u32
   \<Rightarrow> 'i control_input_registry \<times> (u32, input_error) result" where
  "release_buttons ops self sid [] released = (self, Ok released)"
| "release_buttons ops self sid (button # buttons) released =
     (case transition_session_button ops self sid button False of
        (self', Err e) \<Rightarrow> (self', Err e)
      | (self', Ok n) \<Rightarrow> release_buttons ops self' sid buttons (saturating_add released n))"

fun release_keys ::
  "'i injector_ops \<Rightarrow> 'i control_input_registry \<Rightarrow> session_id \<Rightarrow> inj_key list \<Rightarrow> u32
   \<Rightarrow> 'i control_input_registry \<times> (u32, input_error) result" where
  "release_keys ops self sid [] released = (self, Ok released)"
| "release_keys ops self sid (key # keys) released =
     (case transition_session_key ops self sid key False of
        (self', Err e) \<Rightarrow> (self', Err e)
      | (self', Ok n) \<Rightarrow> release_keys ops self' sid keys (saturating_add released n))"

definition release_session_scope ::
  "'i injector_ops \<Rightarrow> 'i control_input_registry \<Rightarrow> session_id \<Rightarrow> control_input_scope
   \<Rightarrow> 'i control_input_registry \<times> (u32, input_error) result" where
  "release_session_scope ops self sid scope =
     (let self = (if scope = ScopePointer
                  then self\<lparr>ci_last_mouse_move := AList.delete sid (ci_last_mouse_move self)\<rparr> else self)
      in case map_of (ci_pressed self) sid of
        None \<Rightarrow> (reset_input_if_idle ops self, Ok 0)
      | Some state \<Rightarrow>
          let buttons = (if scope = ScopePointer then sp_buttons state else []);
              keys = (if scope = ScopeKeyboard then sp_keys state else [])
          in (case release_buttons ops self sid buttons 0 of
                (self, Err e) \<Rightarrow> (self, Err e)
              | (self, Ok released) \<Rightarrow>
                  (case release_keys ops self sid keys released of
                     (self, Err e) \<Rightarrow> (self, Err e)
                   | (self, Ok released) \<Rightarrow> (reset_input_if_idle ops self, Ok released))))"

definition release_session_all ::
  "'i injector_ops \<Rightarrow> 'i control_input_registry \<Rightarrow> session_id
   \<Rightarrow> 'i control_input_registry \<times> (u32, input_error) result" where
  "release_session_all ops self sid =
     (case release_session_scope ops self sid ScopePointer of
        (self, Err e) \<Rightarrow> (self, Err e)
      | (self, Ok pointer) \<Rightarrow>
          (case release_session_scope ops self sid ScopeKeyboard of
             (self, Err e) \<Rightarrow> (self, Err e)
           | (self, Ok keyboard) \<Rightarrow> (self, Ok (saturating_add pointer keyboard))))"

text \<open>One round of \<open>release_all_sessions\<close>, then at most three of them.\<close>

fun release_round ::
  "'i injector_ops \<Rightarrow> 'i control_input_registry \<Rightarrow> session_id list \<Rightarrow> u32 \<Rightarrow> input_error option
   \<Rightarrow> session_id list \<Rightarrow> 'i control_input_registry \<times> u32 \<times> input_error option \<times> session_id list" where
  "release_round ops self [] released last_error retry = (self, released, last_error, retry)"
| "release_round ops self (sid # pending) released last_error retry =
     (case release_session_all ops self sid of
        (self', Ok n) \<Rightarrow> release_round ops self' pending (saturating_add released n) last_error retry
      | (self', Err e) \<Rightarrow> release_round ops self' pending released (Some e) (retry @ [sid]))"

fun release_rounds ::
  "nat \<Rightarrow> 'i injector_ops \<Rightarrow> 'i control_input_registry \<Rightarrow> session_id list \<Rightarrow> u32 \<Rightarrow> input_error option
   \<Rightarrow> 'i control_input_registry \<times> (u32, input_error) result" where
  "release_rounds 0 ops self pending released last_error =
     (self, case last_error of Some e \<Rightarrow> Err e | None \<Rightarrow> Ok released)"
| "release_rounds (Suc n) ops self pending released last_error =
     (case release_round ops self pending released last_error [] of
        (self', released', last_error', retry) \<Rightarrow>
          if retry = [] then (self', Ok released')
          else release_rounds n ops self' retry released' last_error')"

definition release_all_sessions ::
  "'i injector_ops \<Rightarrow> 'i control_input_registry \<Rightarrow> 'i control_input_registry \<times> (u32, input_error) result" where
  "release_all_sessions ops self =
     release_rounds 3 ops self
       (sort (remdups (map fst (ci_pressed self) @ map fst (ci_last_mouse_move self)))) 0 None"

definition freeze_session_for_migration ::
  "'i injector_ops \<Rightarrow> 'i control_input_registry \<Rightarrow> session_id
   \<Rightarrow> 'i control_input_registry \<times> (u32, input_error) result" where
  "freeze_session_for_migration ops self sid =
     (case release_session_all ops self sid of
        (self, released) \<Rightarrow> (self\<lparr>ci_frozen := insert sid (ci_frozen self)\<rparr>, released))"

definition thaw_session_after_migration ::
  "'i control_input_registry \<Rightarrow> session_id \<Rightarrow> 'i control_input_registry \<times> bool" where
  "thaw_session_after_migration self sid =
     (self\<lparr>ci_frozen := ci_frozen self - {sid}\<rparr>, sid \<in> ci_frozen self)"

definition session_is_migration_frozen :: "'i control_input_registry \<Rightarrow> session_id \<Rightarrow> bool" where
  "session_is_migration_frozen self sid \<longleftrightarrow> sid \<in> ci_frozen self"

definition should_coalesce_realtime_event ::
  "'i control_input_registry \<Rightarrow> session_id option \<Rightarrow> control_input_event \<Rightarrow> bool" where
  "should_coalesce_realtime_event self session event =
     (case session of
        None \<Rightarrow> False
      | Some sid \<Rightarrow>
          (case event of
             CiMouseMove x y \<Rightarrow> map_of (ci_last_mouse_move self) sid = Some (x, y)
           | _ \<Rightarrow> False))"

definition record_successful_realtime_event ::
  "'i control_input_registry \<Rightarrow> session_id option \<Rightarrow> control_input_event \<Rightarrow> control_input_scope option
   \<Rightarrow> 'i control_input_registry" where
  "record_successful_realtime_event self session event release_scope =
     (case session of
        None \<Rightarrow> self
      | Some sid \<Rightarrow>
          (case event of
             CiMouseMove x y \<Rightarrow>
               self\<lparr>ci_last_mouse_move := AList.update sid (x, y) (ci_last_mouse_move self)\<rparr>
           | CiReleaseAll \<Rightarrow>
               if release_scope = None \<or> release_scope = Some ScopePointer
               then self\<lparr>ci_last_mouse_move := AList.delete sid (ci_last_mouse_move self)\<rparr> else self
           | _ \<Rightarrow> self))"

abbreviation frozen_error :: input_error where
  "frozen_error \<equiv> InInvalidEvent ''control input is frozen during relay migration''"

text \<open>The two ends of an event: success and failure are counted in the event's lane.\<close>

definition finish_event ::
  "'i control_input_registry \<Rightarrow> session_id option \<Rightarrow> control_input_event \<Rightarrow> control_input_scope option
   \<Rightarrow> (u32, input_error) result
   \<Rightarrow> 'i control_input_registry \<times> (control_input_result, input_error) result" where
  "finish_event self session event release_scope result =
     (let lane = input_lane event in
      case result of
        Ok event_count \<Rightarrow>
          (update_lane lane (\<lambda>c. c\<lparr>lc_injected_messages := lc_injected_messages c + ucast event_count,
                                   lc_last_error := None\<rparr>)
             (record_successful_realtime_event self session event release_scope),
           Ok \<lparr>cir_lane = lane, cir_event_count = event_count\<rparr>)
      | Err e \<Rightarrow>
          (update_lane lane (\<lambda>c. c\<lparr>lc_failed_messages := lc_failed_messages c + 1,
                                   lc_last_error := Some (input_error_to_string e)\<rparr>) self,
           Err e))"

definition handle_event_inner ::
  "'i injector_ops \<Rightarrow> 'i control_input_registry \<Rightarrow> session_id option \<Rightarrow> control_input_event
   \<Rightarrow> control_input_scope option
   \<Rightarrow> 'i control_input_registry \<times> (control_input_result, input_error) result" where
  "handle_event_inner ops self session event release_scope =
     (let lane = input_lane event;
          self = update_lane lane (\<lambda>c. c\<lparr>lc_accepted_messages := lc_accepted_messages c + 1\<rparr>) self
      in
      if (case session of Some sid \<Rightarrow> sid \<in> ci_frozen self \<and> event \<noteq> CiReleaseAll | None \<Rightarrow> False)
      then (update_lane lane (\<lambda>c. c\<lparr>lc_dropped_messages := lc_dropped_messages c + 1\<rparr>) self,
            Err frozen_error)
      else if should_coalesce_realtime_event self session event
      then (update_lane lane (\<lambda>c. c\<lparr>lc_coalesced_messages := lc_coalesced_messages c + 1\<rparr>) self,
            Ok \<lparr>cir_lane = lane, cir_event_count = 0\<rparr>)
      else
      let (self, result) =
        (case (session, event) of
           (Some sid, CiReleaseAll) \<Rightarrow>
             (case release_scope of
                Some scope \<Rightarrow> release_session_scope ops self sid scope
              | None \<Rightarrow> release_session_all ops self sid)
         | (None, CiReleaseAll) \<Rightarrow> (self, Ok 0)
         | (Some sid, event) \<Rightarrow>
             (case input_event_from_ipc event of
                Ok input \<Rightarrow> inject_session_input ops self sid input
              | Err e \<Rightarrow> (self, Err e))
         | (None, event) \<Rightarrow>
             (case input_event_from_ipc event of
                Ok input \<Rightarrow>
                  (case io_inject ops (ci_injector self) input of
                     (injector, res) \<Rightarrow> (self\<lparr>ci_injector := injector\<rparr>, and_then res (\<lambda>_. Ok 1)))
              | Err e \<Rightarrow> (self, Err e)))
      in finish_event self session event release_scope result)"

definition handle_session_event ::
  "'i injector_ops \<Rightarrow> 'i control_input_registry \<Rightarrow> session_id \<Rightarrow> control_input_event
   \<Rightarrow> 'i control_input_registry \<times> (control_input_result, input_error) result" where
  "handle_session_event ops self sid event = handle_event_inner ops self (Some sid) event None"

definition handle_authenticated_session_event ::
  "'i injector_ops \<Rightarrow> 'i control_input_registry \<Rightarrow> session_id \<Rightarrow> control_input_scope \<Rightarrow> control_input_event
   \<Rightarrow> 'i control_input_registry \<times> (control_input_result, input_error) result" where
  "handle_authenticated_session_event ops self sid scope event =
     handle_event_inner ops self (Some sid) event (Some scope)"

definition begin_agent_event ::
  "'i control_input_registry \<Rightarrow> session_id \<Rightarrow> control_input_event
   \<Rightarrow> 'i control_input_registry \<times> (bool, input_error) result" where
  "begin_agent_event self sid event =
     (let lane = input_lane event;
          self = update_lane lane (\<lambda>c. c\<lparr>lc_accepted_messages := lc_accepted_messages c + 1\<rparr>) self
      in
      if sid \<in> ci_frozen self \<and> event \<noteq> CiReleaseAll
      then (update_lane lane (\<lambda>c. c\<lparr>lc_dropped_messages := lc_dropped_messages c + 1\<rparr>) self,
            Err frozen_error)
      else if should_coalesce_realtime_event self (Some sid) event
      then (update_lane lane (\<lambda>c. c\<lparr>lc_coalesced_messages := lc_coalesced_messages c + 1\<rparr>) self, Ok False)
      else (self, Ok True))"

definition finish_agent_event ::
  "'i control_input_registry \<Rightarrow> session_id \<Rightarrow> control_input_scope \<Rightarrow> control_input_event
   \<Rightarrow> (u32, input_error) result
   \<Rightarrow> 'i control_input_registry \<times> (control_input_result, input_error) result" where
  "finish_agent_event self sid scope event result =
     finish_event self (Some sid) event (Some scope) result"

text \<open>The clock gives no time when it stands before the epoch.\<close>

definition ensure_input_not_expired :: "nat option \<Rightarrow> u64 \<Rightarrow> (unit, input_error) result" where
  "ensure_input_not_expired clock remote_expires_at_ms =
     (case clock of
        None \<Rightarrow> Err (InUnavailable ''input clock unavailable'')
      | Some now_ms \<Rightarrow>
          if now_ms \<ge> unat remote_expires_at_ms
          then Err (InInvalidEvent ''signed input event expired before application'') else Ok ())"

text \<open>
  \<open>apply_authenticated_input\<close> on a platform without pointer mapping: the clock is read before
  and after waiting for the registry; with a desktop agent the event goes to it and the
  registry only keeps the books.
\<close>

definition apply_authenticated_input ::
  "'i injector_ops \<Rightarrow> (input_event_payload \<Rightarrow> (bool, unit) result) option
   \<Rightarrow> 'i control_input_registry \<Rightarrow> session_id \<Rightarrow> control_input_scope \<Rightarrow> nat option \<Rightarrow> nat option \<Rightarrow> u64
   \<Rightarrow> control_input_event
   \<Rightarrow> 'i control_input_registry \<times> (control_input_result, input_error) result" where
  "apply_authenticated_input ops agent registry sid scope clock clock' remote_expires_at_ms event =
     (case ensure_input_not_expired clock remote_expires_at_ms of
        Err e \<Rightarrow> (registry, Err e)
      | Ok _ \<Rightarrow>
     (case ensure_input_not_expired clock' remote_expires_at_ms of
        Err e \<Rightarrow> (registry, Err e)
      | Ok _ \<Rightarrow>
     (case agent of
        None \<Rightarrow> handle_authenticated_session_event ops registry sid scope event
      | Some apply_input \<Rightarrow>
          (case begin_agent_event registry sid event of
             (registry, Err e) \<Rightarrow> (registry, Err e)
           | (registry, Ok False) \<Rightarrow>
               (registry, Ok \<lparr>cir_lane = input_lane event, cir_event_count = 0\<rparr>)
           | (registry, Ok True) \<Rightarrow>
               finish_agent_event registry sid scope event
                 (case apply_input (agent_event event) of
                    Ok ack \<Rightarrow> Ok (if ack then 1 else 0)
                  | Err _ \<Rightarrow> Err (InUnavailable ''approved desktop Agent did not apply input''))))))"

section \<open>The injector contract\<close>

text \<open>
  What is physically pressed, and what an injector promises: a successful injection presses
  or releases what the event names, a failed one changes nothing, and the idle reset only
  clears bookkeeping.
\<close>

datatype pressable = PButton inj_button | PKey inj_key

fun press_effect :: "inj_event \<Rightarrow> pressable set \<Rightarrow> pressable set" where
  "press_effect (EvMouseButton b True) D = insert (PButton b) D"
| "press_effect (EvMouseButton b False) D = D - {PButton b}"
| "press_effect (EvKey k True) D = insert (PKey k) D"
| "press_effect (EvKey k False) D = D - {PKey k}"
| "press_effect _ D = D"

text \<open>What a session holds and how often a button or key is counted as held.\<close>

definition holds :: "'i control_input_registry \<Rightarrow> session_id \<Rightarrow> pressable set" where
  "holds r sid =
     (case map_of (ci_pressed r) sid of
        None \<Rightarrow> {}
      | Some st \<Rightarrow> PButton ` set (sp_buttons st) \<union> PKey ` set (sp_keys st))"

definition holder_count :: "'i control_input_registry \<Rightarrow> pressable \<Rightarrow> nat option" where
  "holder_count r p =
     (case p of PButton b \<Rightarrow> map_of (ci_button_holders r) b | PKey k \<Rightarrow> map_of (ci_key_holders r) k)"

fun transition ::
  "'i injector_ops \<Rightarrow> 'i control_input_registry \<Rightarrow> session_id \<Rightarrow> pressable \<Rightarrow> bool
   \<Rightarrow> 'i control_input_registry \<times> (u32, input_error) result" where
  "transition ops r sid (PButton b) pressed = transition_session_button ops r sid b pressed"
| "transition ops r sid (PKey k) pressed = transition_session_key ops r sid k pressed"

fun press_event :: "pressable \<Rightarrow> bool \<Rightarrow> inj_event" where
  "press_event (PButton b) pressed = EvMouseButton b pressed"
| "press_event (PKey k) pressed = EvKey k pressed"

definition tables_wf :: "'i control_input_registry \<Rightarrow> bool" where
  "tables_wf r \<longleftrightarrow> hm_wf (ci_pressed r) \<and> hm_wf (ci_button_holders r) \<and> hm_wf (ci_key_holders r) \<and>
     (\<forall>sid st. map_of (ci_pressed r) sid = Some st \<longrightarrow> \<not> (sp_buttons st = [] \<and> sp_keys st = []))"

definition same_books :: "'i control_input_registry \<Rightarrow> 'i control_input_registry \<Rightarrow> bool" where
  "same_books r r' \<longleftrightarrow> ci_frozen r' = ci_frozen r \<and> ci_last_mouse_move r' = ci_last_mouse_move r \<and>
     ci_reliable r' = ci_reliable r \<and> ci_realtime r' = ci_realtime r"

lemma tables_wf_simps:
  "tables_wf r \<Longrightarrow> hm_wf (ci_pressed r)" "tables_wf r \<Longrightarrow> hm_wf (ci_button_holders r)"
  "tables_wf r \<Longrightarrow> hm_wf (ci_key_holders r)"
  by (simp_all add: tables_wf_def)

text \<open>
  What a transition does to the tables, for buttons and keys alike: nothing when the session
  is already in the requested state; otherwise the device is asked exactly when the first
  holder presses or the last one releases, and when it accepts, the session's set and the
  count of holders change by one.
\<close>

lemma holds_update [simp]:
  "holds (r\<lparr>ci_pressed := AList.update sid st m\<rparr>) =
     (holds (r\<lparr>ci_pressed := m\<rparr>))(sid := PButton ` set (sp_buttons st) \<union> PKey ` set (sp_keys st))"
  by (simp add: holds_def fun_eq_iff update_conv')

lemma holds_delete [simp]:
  "holds (r\<lparr>ci_pressed := AList.delete sid m\<rparr>) = (holds (r\<lparr>ci_pressed := m\<rparr>))(sid := {})"
  by (simp add: holds_def fun_eq_iff delete_conv')

lemma holds_other [simp]:
  "holds (r\<lparr>ci_injector := i\<rparr>) = holds r" "holds (r\<lparr>ci_button_holders := bh\<rparr>) = holds r"
  "holds (r\<lparr>ci_key_holders := kh\<rparr>) = holds r" "holds (r\<lparr>ci_frozen := f\<rparr>) = holds r"
  "holds (r\<lparr>ci_last_mouse_move := l\<rparr>) = holds r"
  "holds (update_lane lane g r) = holds r"
  by (simp_all add: holds_def fun_eq_iff update_lane_def split: control_input_lane.split)

lemma held_button: "PButton b \<in> holds r sid \<longleftrightarrow>
    (case map_of (ci_pressed r) sid of Some st \<Rightarrow> b \<in> set (sp_buttons st) | None \<Rightarrow> False)"
  by (auto simp: holds_def split: option.split)

lemma held_key: "PKey k \<in> holds r sid \<longleftrightarrow>
    (case map_of (ci_pressed r) sid of Some st \<Rightarrow> k \<in> set (sp_keys st) | None \<Rightarrow> False)"
  by (auto simp: holds_def split: option.split)

lemma holder_count_simps [simp]:
  "holder_count r (PButton b) = map_of (ci_button_holders r) b"
  "holder_count r (PKey k) = map_of (ci_key_holders r) k"
  "holder_count (r\<lparr>ci_injector := i\<rparr>) = holder_count r"
  "holder_count (r\<lparr>ci_pressed := m\<rparr>) = holder_count r"
  "holder_count (r\<lparr>ci_frozen := f\<rparr>) = holder_count r"
  "holder_count (r\<lparr>ci_last_mouse_move := l\<rparr>) = holder_count r"
  "holder_count (update_lane lane g r) = holder_count r"
  by (simp_all add: holder_count_def fun_eq_iff update_lane_def split: pressable.split control_input_lane.split)

lemma holder_count_tables:
  "holder_count (r\<lparr>ci_button_holders := AList.update b n (ci_button_holders r)\<rparr>) =
     (holder_count r)(PButton b \<mapsto> n)"
  "holder_count (r\<lparr>ci_button_holders := AList.delete b (ci_button_holders r)\<rparr>) =
     (holder_count r)(PButton b := None)"
  "holder_count (r\<lparr>ci_key_holders := AList.update k n (ci_key_holders r)\<rparr>) =
     (holder_count r)(PKey k \<mapsto> n)"
  "holder_count (r\<lparr>ci_key_holders := AList.delete k (ci_key_holders r)\<rparr>) =
     (holder_count r)(PKey k := None)"
  by (simp_all add: holder_count_def fun_eq_iff update_conv' delete_conv' split: pressable.split)

lemma remove_empty_effect:
  "holds (remove_empty_session_state r sid) = holds r"
  "holder_count (remove_empty_session_state r sid) = holder_count r"
  "same_books r (remove_empty_session_state r sid)"
  "ci_injector (remove_empty_session_state r sid) = ci_injector r"
  by (simp_all add: remove_empty_session_state_def same_books_def split: option.split)
    (auto simp: holds_def fun_eq_iff)

lemma remove_empty_wf:
  assumes "hm_wf (ci_pressed r)" "hm_wf (ci_button_holders r)" "hm_wf (ci_key_holders r)"
    and ne: "\<forall>s st. s \<noteq> sid \<longrightarrow> map_of (ci_pressed r) s = Some st \<longrightarrow> \<not> (sp_buttons st = [] \<and> sp_keys st = [])"
  shows "tables_wf (remove_empty_session_state r sid)"
proof (cases "\<exists>st. map_of (ci_pressed r) sid = Some st \<and> sp_buttons st = [] \<and> sp_keys st = []")
  case True
  then show ?thesis
    using assms hm.wf_del [of "ci_pressed r" sid]
    by (auto simp: tables_wf_def remove_empty_session_state_def delete_conv' split: if_splits)
next
  case False
  then have "remove_empty_session_state r sid = r"
    by (auto simp: remove_empty_session_state_def split: option.split)
  moreover have "\<not> (sp_buttons st = [] \<and> sp_keys st = [])" if "map_of (ci_pressed r) s = Some st" for s st
    using that ne False by (cases "s = sid") auto
  ultimately show ?thesis using assms by (simp add: tables_wf_def)
qed

lemma hold_button_effect:
  assumes "tables_wf r"
  shows "same_books r (hold_button r sid x n) \<and> tables_wf (hold_button r sid x n) \<and>
    ci_injector (hold_button r sid x n) = ci_injector r \<and>
    holds (hold_button r sid x n) = (holds r)(sid := insert (PButton x) (holds r sid)) \<and>
    holder_count (hold_button r sid x n) = (holder_count r)(PButton x \<mapsto> n + 1)"
proof -
  let ?st = "case map_of (ci_pressed r) sid of Some state \<Rightarrow> state | None \<Rightarrow> pressed_default"
  have eq: "hold_button r sid x n = (r\<lparr>ci_pressed := AList.update sid (?st\<lparr>sp_buttons := List.insert x (sp_buttons ?st)\<rparr>) (ci_pressed r)\<rparr>)
      \<lparr>ci_button_holders := AList.update x (n + 1) (ci_button_holders (r\<lparr>ci_pressed := AList.update sid (?st\<lparr>sp_buttons := List.insert x (sp_buttons ?st)\<rparr>) (ci_pressed r)\<rparr>))\<rparr>"
    by (simp add: hold_button_def Let_def)
  have "PButton ` set (sp_buttons ?st) \<union> PKey ` set (sp_keys ?st) = holds r sid"
    by (simp add: holds_def pressed_default_def split: option.split)
  then have "holds (hold_button r sid x n) = (holds r)(sid := insert (PButton x) (holds r sid))"
    unfolding eq by (auto simp: fun_eq_iff)
  moreover have "tables_wf (hold_button r sid x n)"
    using assms hm.wf_ins [of "ci_pressed r"] hm.wf_ins [of "ci_button_holders r"]
    unfolding eq tables_wf_def by (auto simp: update_conv' List.insert_def split: if_splits)
  ultimately show ?thesis
    unfolding eq holder_count_tables by (simp add: same_books_def)
qed

lemma drop_button_effect:
  assumes "tables_wf r" "PButton x \<in> holds r sid"
  shows "same_books r (drop_button r sid x n) \<and> tables_wf (drop_button r sid x n) \<and>
    ci_injector (drop_button r sid x n) = ci_injector r \<and>
    holds (drop_button r sid x n) = (holds r)(sid := holds r sid - {PButton x}) \<and>
    holder_count (drop_button r sid x n) = (holder_count r)(PButton x := if n \<le> 1 then None else Some (n - 1))"
proof -
  obtain st where st: "map_of (ci_pressed r) sid = Some st"
    using assms(2) by (auto simp: held_button split: option.splits)
  define q where "q = r\<lparr>ci_pressed := AList.update sid (st\<lparr>sp_buttons := removeAll x (sp_buttons st)\<rparr>) (ci_pressed r)\<rparr>"
  define q' where "q' = (if n \<le> 1 then q\<lparr>ci_button_holders := AList.delete x (ci_button_holders q)\<rparr>
    else q\<lparr>ci_button_holders := AList.update x (n - 1) (ci_button_holders q)\<rparr>)"
  have eq: "drop_button r sid x n = remove_empty_session_state q' sid"
    by (simp add: drop_button_def Let_def st q_def q'_def)
  have "holds q' = (holds r)(sid := holds r sid - {PButton x})"
    by (auto simp: q'_def q_def fun_eq_iff holds_def st update_conv')
  moreover have "holder_count q' = (holder_count r)(PButton x := if n \<le> 1 then None else Some (n - 1))"
    by (simp add: q'_def holder_count_tables) (simp add: q_def)
  moreover have "tables_wf (remove_empty_session_state q' sid)"
    by (rule remove_empty_wf)
      (use assms(1) hm.wf_ins [of "ci_pressed r"] hm.wf_ins [of "ci_button_holders r"] hm.wf_del [of "ci_button_holders r"] in
        \<open>auto simp: q'_def q_def tables_wf_def update_conv' split: if_splits\<close>)
  moreover have "same_books r q'" "ci_injector q' = ci_injector r"
    by (simp_all add: same_books_def q'_def q_def)
  ultimately show ?thesis
    using remove_empty_effect [of q' sid] by (simp add: eq same_books_def)
qed

lemma hold_key_effect:
  assumes "tables_wf r"
  shows "same_books r (hold_key r sid x n) \<and> tables_wf (hold_key r sid x n) \<and>
    ci_injector (hold_key r sid x n) = ci_injector r \<and>
    holds (hold_key r sid x n) = (holds r)(sid := insert (PKey x) (holds r sid)) \<and>
    holder_count (hold_key r sid x n) = (holder_count r)(PKey x \<mapsto> n + 1)"
proof -
  let ?st = "case map_of (ci_pressed r) sid of Some state \<Rightarrow> state | None \<Rightarrow> pressed_default"
  have eq: "hold_key r sid x n = (r\<lparr>ci_pressed := AList.update sid (?st\<lparr>sp_keys := List.insert x (sp_keys ?st)\<rparr>) (ci_pressed r)\<rparr>)
      \<lparr>ci_key_holders := AList.update x (n + 1) (ci_key_holders (r\<lparr>ci_pressed := AList.update sid (?st\<lparr>sp_keys := List.insert x (sp_keys ?st)\<rparr>) (ci_pressed r)\<rparr>))\<rparr>"
    by (simp add: hold_key_def Let_def)
  have "PButton ` set (sp_buttons ?st) \<union> PKey ` set (sp_keys ?st) = holds r sid"
    by (simp add: holds_def pressed_default_def split: option.split)
  then have "holds (hold_key r sid x n) = (holds r)(sid := insert (PKey x) (holds r sid))"
    unfolding eq by (auto simp: fun_eq_iff)
  moreover have "tables_wf (hold_key r sid x n)"
    using assms hm.wf_ins [of "ci_pressed r"] hm.wf_ins [of "ci_key_holders r"]
    unfolding eq tables_wf_def by (auto simp: update_conv' List.insert_def split: if_splits)
  ultimately show ?thesis
    unfolding eq holder_count_tables by (simp add: same_books_def)
qed

lemma drop_key_effect:
  assumes "tables_wf r" "PKey x \<in> holds r sid"
  shows "same_books r (drop_key r sid x n) \<and> tables_wf (drop_key r sid x n) \<and>
    ci_injector (drop_key r sid x n) = ci_injector r \<and>
    holds (drop_key r sid x n) = (holds r)(sid := holds r sid - {PKey x}) \<and>
    holder_count (drop_key r sid x n) = (holder_count r)(PKey x := if n \<le> 1 then None else Some (n - 1))"
proof -
  obtain st where st: "map_of (ci_pressed r) sid = Some st"
    using assms(2) by (auto simp: held_key split: option.splits)
  define q where "q = r\<lparr>ci_pressed := AList.update sid (st\<lparr>sp_keys := removeAll x (sp_keys st)\<rparr>) (ci_pressed r)\<rparr>"
  define q' where "q' = (if n \<le> 1 then q\<lparr>ci_key_holders := AList.delete x (ci_key_holders q)\<rparr>
    else q\<lparr>ci_key_holders := AList.update x (n - 1) (ci_key_holders q)\<rparr>)"
  have eq: "drop_key r sid x n = remove_empty_session_state q' sid"
    by (simp add: drop_key_def Let_def st q_def q'_def)
  have "holds q' = (holds r)(sid := holds r sid - {PKey x})"
    by (auto simp: q'_def q_def fun_eq_iff holds_def st update_conv')
  moreover have "holder_count q' = (holder_count r)(PKey x := if n \<le> 1 then None else Some (n - 1))"
    by (simp add: q'_def holder_count_tables) (simp add: q_def)
  moreover have "tables_wf (remove_empty_session_state q' sid)"
    by (rule remove_empty_wf)
      (use assms(1) hm.wf_ins [of "ci_pressed r"] hm.wf_ins [of "ci_key_holders r"] hm.wf_del [of "ci_key_holders r"] in
        \<open>auto simp: q'_def q_def tables_wf_def update_conv' split: if_splits\<close>)
  moreover have "same_books r q'" "ci_injector q' = ci_injector r"
    by (simp_all add: same_books_def q'_def q_def)
  ultimately show ?thesis
    using remove_empty_effect [of q' sid] by (simp add: eq same_books_def)
qed

lemma transition_cases:
  assumes wf: "tables_wf r"
    and t: "transition ops r sid p pressed = (r', res)"
  defines "n \<equiv> case holder_count r p of Some n \<Rightarrow> n | None \<Rightarrow> 0"
  defines "phys \<equiv> pressed \<and> n = 0 \<or> \<not> pressed \<and> n = 1"
  shows "same_books r r' \<and> tables_wf r' \<and>
    (if pressed = (p \<in> holds r sid) then r' = r \<and> res = Ok 0
     else case (if phys then io_inject ops (ci_injector r) (press_event p pressed)
                else (ci_injector r, Ok ())) of
       (i, Err e) \<Rightarrow> res = Err e \<and> ci_injector r' = i \<and> holds r' = holds r \<and> holder_count r' = holder_count r
     | (i, Ok _) \<Rightarrow> res = Ok (if phys then 1 else 0) \<and> ci_injector r' = i \<and>
         holds r' = (holds r)(sid := if pressed then insert p (holds r sid) else holds r sid - {p}) \<and>
         holder_count r' = (holder_count r)(p :=
           if pressed then Some (n + 1) else if n \<le> 1 then None else Some (n - 1)))"
proof (cases "pressed = (p \<in> holds r sid)")
  case True
  with t wf show ?thesis
    by (cases p) (simp_all add: transition_session_button_def transition_session_key_def Let_def
        held_button held_key same_books_def)
next
  case False
  obtain i q where inj: "(if phys then io_inject ops (ci_injector r) (press_event p pressed)
      else (ci_injector r, Ok ())) = (i, q)"
    by (meson surj_pair)
  have wf': "tables_wf (r\<lparr>ci_injector := i\<rparr>)" using wf by (simp add: tables_wf_def)
  show ?thesis
  proof (cases p)
    case (PButton b)
    have eq: "transition ops r sid p pressed =
        (case (i, q) of
           (i, Err e) \<Rightarrow> (r\<lparr>ci_injector := i\<rparr>, Err e)
         | (i, Ok _) \<Rightarrow>
             (if pressed then hold_button (r\<lparr>ci_injector := i\<rparr>) sid b n
              else drop_button (r\<lparr>ci_injector := i\<rparr>) sid b n, Ok (if phys then 1 else 0)))"
      unfolding inj [symmetric] using False
      by (simp add: PButton transition_session_button_def held_button n_def phys_def)
    show ?thesis
    proof (cases q)
      case (Inl e)
      with t eq have "r' = r\<lparr>ci_injector := i\<rparr>" "res = Err e" by simp_all
      with Inl False inj wf' show ?thesis by (simp add: same_books_def)
    next
      case (Inr u)
      with t eq have r': "r' = (if pressed then hold_button (r\<lparr>ci_injector := i\<rparr>) sid b n
          else drop_button (r\<lparr>ci_injector := i\<rparr>) sid b n)" and res: "res = Ok (if phys then 1 else 0)"
        by simp_all
      show ?thesis
      proof (cases pressed)
        case True
        with Inr False inj r' res hold_button_effect [OF wf', of sid b n] show ?thesis
          by (simp add: PButton same_books_def)
      next
        case pressed: False
        with False have "PButton b \<in> holds (r\<lparr>ci_injector := i\<rparr>) sid" by (simp add: PButton)
        from drop_button_effect [OF wf' this, of n] pressed Inr False inj r' res show ?thesis
          by (simp add: PButton same_books_def)
      qed
    qed
  next
    case (PKey k)
    have eq: "transition ops r sid p pressed =
        (case (i, q) of
           (i, Err e) \<Rightarrow> (r\<lparr>ci_injector := i\<rparr>, Err e)
         | (i, Ok _) \<Rightarrow>
             (if pressed then hold_key (r\<lparr>ci_injector := i\<rparr>) sid k n
              else drop_key (r\<lparr>ci_injector := i\<rparr>) sid k n, Ok (if phys then 1 else 0)))"
      unfolding inj [symmetric] using False
      by (simp add: PKey transition_session_key_def held_key n_def phys_def)
    show ?thesis
    proof (cases q)
      case (Inl e)
      with t eq have "r' = r\<lparr>ci_injector := i\<rparr>" "res = Err e" by simp_all
      with Inl False inj wf' show ?thesis by (simp add: same_books_def)
    next
      case (Inr u)
      with t eq have r': "r' = (if pressed then hold_key (r\<lparr>ci_injector := i\<rparr>) sid k n
          else drop_key (r\<lparr>ci_injector := i\<rparr>) sid k n)" and res: "res = Ok (if phys then 1 else 0)"
        by simp_all
      show ?thesis
      proof (cases pressed)
        case True
        with Inr False inj r' res hold_key_effect [OF wf', of sid k n] show ?thesis
          by (simp add: PKey same_books_def)
      next
        case pressed: False
        with False have "PKey k \<in> holds (r\<lparr>ci_injector := i\<rparr>) sid" by (simp add: PKey)
        from drop_key_effect [OF wf' this, of n] pressed Inr False inj r' res show ?thesis
          by (simp add: PKey same_books_def)
      qed
    qed
  qed
qed

section \<open>The registry's invariant\<close>

definition holders :: "'i control_input_registry \<Rightarrow> pressable \<Rightarrow> session_id set" where
  "holders r p = {sid. p \<in> holds r sid}"

definition count_of :: "'a set \<Rightarrow> nat option" where
  "count_of H = (if H = {} then None else Some (card H))"

text \<open>
  Every count is the number of sessions that hold the button or key, and the device has
  pressed exactly what some session holds.
\<close>

definition reg_ok :: "('i \<Rightarrow> pressable set) \<Rightarrow> 'i control_input_registry \<Rightarrow> bool" where
  "reg_ok down r \<longleftrightarrow> tables_wf r \<and> (\<forall>p. holder_count r p = count_of (holders r p)) \<and>
     down (ci_injector r) = (\<Union>sid. holds r sid)"

lemma finite_holders: "finite (holders r p)"
proof -
  have "holders r p \<subseteq> fst ` set (ci_pressed r)"
    by (auto simp: holders_def holds_def image_iff split: option.splits dest!: map_of_SomeD) force+
  then show ?thesis by (rule finite_subset) simp
qed

lemma holders_update:
  assumes "holds r' = (holds r)(sid := if pressed then insert p (holds r sid) else holds r sid - {p})"
  shows "holders r' = (holders r)(p := if pressed then insert sid (holders r p) else holders r p - {sid})"
  by (auto simp: holders_def fun_eq_iff assms)

lemma count_of_changes:
  assumes "finite H" "s \<in> H = (\<not> pressed)"
  shows "(if pressed then Some ((case count_of H of Some n \<Rightarrow> n | None \<Rightarrow> 0) + 1)
          else if (case count_of H of Some n \<Rightarrow> n | None \<Rightarrow> 0) \<le> 1 then None
          else Some ((case count_of H of Some n \<Rightarrow> n | None \<Rightarrow> 0) - 1)) =
    count_of (if pressed then insert s H else H - {s})"
proof -
  have "card H \<le> 1 \<longleftrightarrow> H - {s} = {}" if "s \<in> H"
    using that assms(1) by (metis card_le_Suc0_iff_eq One_nat_def Diff_eq_empty_iff insertI1 insert_absorb
        singletonD subset_singletonD subsetI empty_iff)
  with assms show ?thesis by (auto simp: count_of_def)
qed

lemma union_update:
  fixes h :: "'a \<Rightarrow> 'b set"
  assumes "p \<in> h sid = (\<not> pressed)"
  shows "(\<Union>s. (h(sid := if pressed then insert p (h sid) else h sid - {p})) s) =
    (if pressed then insert p (\<Union>s. h s)
     else if {s. p \<in> h s} = {sid} then (\<Union>s. h s) - {p} else (\<Union>s. h s))"
  using assms by (cases pressed) (auto split: if_splits)

lemma press_effect_event: "press_effect (press_event p pressed) D = (if pressed then insert p D else D - {p})"
  by (cases p; cases pressed) simp_all

lemma singleton_card: "x \<in> H \<Longrightarrow> card H = 1 \<longleftrightarrow> H = {x}"
  by (auto simp: card_1_singleton_iff)

text \<open>One session gives up some of what it holds; the others keep theirs.\<close>

definition gives_up :: "session_id \<Rightarrow> 'i control_input_registry \<Rightarrow> 'i control_input_registry \<Rightarrow> bool" where
  "gives_up sid r r' \<longleftrightarrow> holds r' sid \<subseteq> holds r sid \<and> (\<forall>s. s \<noteq> sid \<longrightarrow> holds r' s = holds r s)"

definition in_scope :: "control_input_scope \<Rightarrow> pressable \<Rightarrow> bool" where
  "in_scope scope p = (case p of PButton _ \<Rightarrow> scope = ScopePointer | PKey _ \<Rightarrow> scope = ScopeKeyboard)"

text \<open>Everything but the tables of held input and the last pointer position is unchanged.\<close>

definition same_counters :: "'i control_input_registry \<Rightarrow> 'i control_input_registry \<Rightarrow> bool" where
  "same_counters r r' \<longleftrightarrow> ci_frozen r' = ci_frozen r \<and> ci_reliable r' = ci_reliable r \<and>
     ci_realtime r' = ci_realtime r"

lemma reg_ok_other [simp]:
  "reg_ok down (r\<lparr>ci_frozen := fz\<rparr>) = reg_ok down r"
  "reg_ok down (r\<lparr>ci_last_mouse_move := l\<rparr>) = reg_ok down r"
  "reg_ok down (update_lane lane g r) = reg_ok down r"
  by (simp_all add: reg_ok_def tables_wf_def holders_def)
    (simp_all add: update_lane_def split: control_input_lane.split)

lemma reg_ok_injector:
  "down i = down (ci_injector r) \<Longrightarrow> reg_ok down (r\<lparr>ci_injector := i\<rparr>) = reg_ok down r"
  by (simp add: reg_ok_def tables_wf_def holders_def)

lemma reg_ok_initial: "down i = {} \<Longrightarrow> reg_ok down (with_injector i)"
  by (simp add: reg_ok_def with_injector_def tables_wf_def holders_def holds_def count_of_def
      holder_count_def split: pressable.split)

lemma update_lane_other [simp]:
  "ci_frozen (update_lane lane g r) = ci_frozen r" "ci_injector (update_lane lane g r) = ci_injector r"
  "ci_pressed (update_lane lane g r) = ci_pressed r"
  "ci_last_mouse_move (update_lane lane g r) = ci_last_mouse_move r"
  by (simp_all add: update_lane_def split: control_input_lane.split)

lemma record_event_other:
  "holds (record_successful_realtime_event r ses ev sc) = holds r"
  "ci_frozen (record_successful_realtime_event r ses ev sc) = ci_frozen r"
  "ci_injector (record_successful_realtime_event r ses ev sc) = ci_injector r"
  "reg_ok down (record_successful_realtime_event r ses ev sc) = reg_ok down r"
  by (simp_all add: record_successful_realtime_event_def split: option.split control_input_event.split)

lemma finish_event_other:
  assumes "finish_event r ses ev sc q = (r', res)"
  shows "reg_ok down r' = reg_ok down r" "ci_frozen r' = ci_frozen r" "holds r' = holds r"
    "ci_injector r' = ci_injector r"
  using assms by (auto simp: finish_event_def Let_def record_event_other split: sum.splits)

text \<open>
  The four ways an event of a session is handled: dropped while frozen, coalesced, released
  or injected.
\<close>

lemma handle_event_cases:
  assumes "handle_event_inner ops r (Some sid) ev sc = (r', res)"
  obtains (frozen) "sid \<in> ci_frozen r" "ev \<noteq> CiReleaseAll" "res = Err frozen_error"
      "ci_injector r' = ci_injector r" "holds r' = holds r" "ci_frozen r' = ci_frozen r"
      "\<And>down. reg_ok down r' = reg_ok down r"
    | (coalesced) "ci_injector r' = ci_injector r" "holds r' = holds r" "ci_frozen r' = ci_frozen r"
      "\<And>down. reg_ok down r' = reg_ok down r"
    | (handled) r0 r1 q where "r0 = update_lane (input_lane ev)
          (\<lambda>c. c\<lparr>lc_accepted_messages := lc_accepted_messages c + 1\<rparr>) r"
      "finish_event r1 (Some sid) ev sc q = (r', res)"
      "(\<exists>scope. release_session_scope ops r0 sid scope = (r1, q)) \<or>
       release_session_all ops r0 sid = (r1, q) \<or>
       sid \<notin> ci_frozen r \<and> (\<exists>input. inject_session_input ops r0 sid input = (r1, q))"
proof -
  define r0 where "r0 = update_lane (input_lane ev)
    (\<lambda>c. c\<lparr>lc_accepted_messages := lc_accepted_messages c + 1\<rparr>) r"
  consider (f) "sid \<in> ci_frozen r" "ev \<noteq> CiReleaseAll"
    | (c) "\<not> (sid \<in> ci_frozen r \<and> ev \<noteq> CiReleaseAll)" "should_coalesce_realtime_event r0 (Some sid) ev"
    | (h) "\<not> (sid \<in> ci_frozen r \<and> ev \<noteq> CiReleaseAll)" "\<not> should_coalesce_realtime_event r0 (Some sid) ev"
    by blast
  then show thesis
  proof cases
    case f
    then show thesis
      using assms by (intro frozen) (auto simp: handle_event_inner_def Let_def)
  next
    case c
    then show thesis
      using assms by (intro coalesced) (auto simp: handle_event_inner_def Let_def r0_def)
  next
    case h
    let ?step = "(case (Some sid, ev) of
           (Some sid, CiReleaseAll) \<Rightarrow>
             (case sc of
                Some scope \<Rightarrow> release_session_scope ops r0 sid scope
              | None \<Rightarrow> release_session_all ops r0 sid)
         | (Some sid, event) \<Rightarrow>
             (case input_event_from_ipc event of
                Ok input \<Rightarrow> inject_session_input ops r0 sid input
              | Err e \<Rightarrow> (r0, Err e)))"
    obtain r1 q where step: "?step = (r1, q)" by (meson surj_pair)
    have "finish_event r1 (Some sid) ev sc q = (r', res)"
      using assms h step unfolding handle_event_inner_def Let_def r0_def [symmetric]
      by (cases ev; cases sc) (auto simp: r0_def)
    moreover have "(\<exists>scope. release_session_scope ops r0 sid scope = (r1, q)) \<or>
       release_session_all ops r0 sid = (r1, q) \<or>
       sid \<notin> ci_frozen r \<and> (\<exists>input. inject_session_input ops r0 sid input = (r1, q))"
      using h(1) step by (cases ev) (auto split: option.splits)
    ultimately show thesis using handled r0_def by blast
  qed
qed

locale injector =
  fixes ops :: "'i injector_ops" and down :: "'i \<Rightarrow> pressable set"
  assumes inject_down: "io_inject ops i e = (i', Ok u) \<Longrightarrow> down i' = press_effect e (down i)"
    and inject_failed: "io_inject ops i e = (i', Err x) \<Longrightarrow> down i' = down i"
    and reset_down: "down (io_reset_idle_state ops i) = down i"
begin

lemma maybe_injected:
  "(if b then io_inject ops i0 e else (i0, Ok ())) = (i, Ok u) \<Longrightarrow>
   down i = (if b then press_effect e (down i0) else down i0)"
  by (cases b) (auto dest: inject_down)

lemma maybe_refused:
  "(if b then io_inject ops i0 e else (i0, Ok ())) = (i, Err x) \<Longrightarrow> down i = down i0"
  by (cases b) (auto dest: inject_failed)

lemma transition_ok:
  assumes ok: "reg_ok down r" and t: "transition ops r sid p pressed = (r', res)"
  shows "same_books r r' \<and> reg_ok down r' \<and>
    holds r' = (case res of Err e \<Rightarrow> holds r
      | Ok n \<Rightarrow> (holds r)(sid := if pressed then insert p (holds r sid) else holds r sid - {p}))"
proof -
  let ?n = "case holder_count r p of Some n \<Rightarrow> n | None \<Rightarrow> 0"
  let ?phys = "pressed \<and> ?n = 0 \<or> \<not> pressed \<and> ?n = 1"
  have wf: "tables_wf r" and dn: "down (ci_injector r) = (\<Union>s. holds r s)"
    using ok by (simp_all add: reg_ok_def)
  have cnt: "holder_count r p = count_of (holders r p)" for p
    using ok by (simp add: reg_ok_def)
  note c = transition_cases [OF wf t]
  show ?thesis
  proof (cases "pressed = (p \<in> holds r sid)")
    case True
    with c ok show ?thesis by (auto simp: fun_eq_iff)
  next
    case False
    obtain i q where inj: "(if ?phys then io_inject ops (ci_injector r) (press_event p pressed)
        else (ci_injector r, Ok ())) = (i, q)"
      by (meson surj_pair)
    show ?thesis
    proof (cases q)
      case (Inl e)
      with c False inj have r': "same_books r r'" "tables_wf r'" "res = Err e" "ci_injector r' = i"
        "holds r' = holds r" "holder_count r' = holder_count r"
        by simp_all
      have "down i = down (ci_injector r)" using inj unfolding Inl by (rule maybe_refused)
      with r' ok show ?thesis by (simp add: reg_ok_def holders_def)
    next
      case (Inr u)
      have hold: "p \<in> holds r sid = (\<not> pressed)" using False by blast
      then have mem: "sid \<in> holders r p = (\<not> pressed)" by (simp add: holders_def)
      from Inr c False inj have r': "same_books r r'" "tables_wf r'" "ci_injector r' = i"
        "res = Ok (if ?phys then 1 else 0)"
        and h': "holds r' = (holds r)(sid := if pressed then insert p (holds r sid) else holds r sid - {p})"
        and k': "holder_count r' = (holder_count r)(p :=
           if pressed then Some (?n + 1) else if ?n \<le> 1 then None else Some (?n - 1))"
        by simp_all
      have "holder_count r' x = count_of (holders r' x)" for x
      proof (cases "x = p")
        case True
        then show ?thesis
          unfolding k' holders_update [OF h'] cnt
          using count_of_changes [OF finite_holders mem] by (simp only: fun_upd_same)
      next
        case False
        then show ?thesis by (simp add: k' holders_update [OF h'] cnt)
      qed
      moreover have "down i = (\<Union>s. holds r' s)"
      proof -
        have n: "?n = card (holders r p)" by (simp add: cnt count_of_def)
        have zero: "?n = 0 \<longleftrightarrow> p \<notin> (\<Union>s. holds r s)"
          unfolding n card_0_eq [OF finite_holders] by (auto simp: holders_def)
        have one: "?n = 1 \<longleftrightarrow> {s. p \<in> holds r s} = {sid}" if "\<not> pressed"
          unfolding n holders_def [symmetric] using singleton_card [of sid "holders r p"] that mem by blast
        have "down i = (if ?phys then press_effect (press_event p pressed) (down (ci_injector r))
            else down (ci_injector r))"
          using inj unfolding Inr by (rule maybe_injected)
        then show ?thesis
          unfolding h' union_update [of p "holds r" sid pressed, OF hold] dn press_effect_event
          using zero one by (cases pressed) auto
      qed
      ultimately show ?thesis using r' h' by (simp add: reg_ok_def)
    qed
  qed
qed

lemma release_buttons_ok:
  "reg_ok down r \<Longrightarrow> release_buttons ops r sid bs n = (r', res) \<Longrightarrow>
   same_books r r' \<and> reg_ok down r' \<and> gives_up sid r r' \<and>
   (is_ok res \<longrightarrow> holds r' = (holds r)(sid := holds r sid - PButton ` set bs))"
proof (induction bs arbitrary: r n)
  case Nil
  then show ?case by (auto simp: same_books_def gives_up_def fun_eq_iff)
next
  case (Cons b bs)
  obtain r1 q where t: "transition ops r sid (PButton b) False = (r1, q)" by (meson surj_pair)
  note ok = transition_ok [OF Cons.prems(1) t]
  show ?case
  proof (cases q)
    case (Inl e)
    with t ok Cons.prems(2) show ?thesis by (auto simp: gives_up_def)
  next
    case (Inr m)
    with t Cons.prems(2) have rest: "release_buttons ops r1 sid bs (saturating_add n m) = (r', res)" by simp
    from ok have "reg_ok down r1" by simp
    from Cons.IH [OF this rest] ok Inr show ?thesis
      by (auto simp: same_books_def gives_up_def fun_eq_iff)
  qed
qed

lemma release_keys_ok:
  "reg_ok down r \<Longrightarrow> release_keys ops r sid ks n = (r', res) \<Longrightarrow>
   same_books r r' \<and> reg_ok down r' \<and> gives_up sid r r' \<and>
   (is_ok res \<longrightarrow> holds r' = (holds r)(sid := holds r sid - PKey ` set ks))"
proof (induction ks arbitrary: r n)
  case Nil
  then show ?case by (auto simp: same_books_def gives_up_def fun_eq_iff)
next
  case (Cons k ks)
  obtain r1 q where t: "transition ops r sid (PKey k) False = (r1, q)" by (meson surj_pair)
  note ok = transition_ok [OF Cons.prems(1) t]
  show ?case
  proof (cases q)
    case (Inl e)
    with t ok Cons.prems(2) show ?thesis by (auto simp: gives_up_def)
  next
    case (Inr m)
    with t Cons.prems(2) have rest: "release_keys ops r1 sid ks (saturating_add n m) = (r', res)" by simp
    from ok have "reg_ok down r1" by simp
    from Cons.IH [OF this rest] ok Inr show ?thesis
      by (auto simp: same_books_def gives_up_def fun_eq_iff)
  qed
qed

lemma reset_ok:
  "reg_ok down (reset_input_if_idle ops r) = reg_ok down r"
  "holds (reset_input_if_idle ops r) = holds r"
  "same_books r (reset_input_if_idle ops r)"
  by (simp_all add: reset_input_if_idle_def reg_ok_injector reset_down same_books_def)

lemma release_session_scope_ok:
  assumes ok: "reg_ok down r" and rel: "release_session_scope ops r sid scope = (r', res)"
  shows "same_counters r r' \<and> reg_ok down r' \<and> gives_up sid r r' \<and>
    (is_ok res \<longrightarrow> holds r' = (holds r)(sid := {p \<in> holds r sid. \<not> in_scope scope p}))"
proof -
  define q where "q = (if scope = ScopePointer
      then r\<lparr>ci_last_mouse_move := AList.delete sid (ci_last_mouse_move r)\<rparr> else r)"
  have q: "reg_ok down q" "holds q = holds r" "same_counters r q" "map_of (ci_pressed q) = map_of (ci_pressed r)"
    using ok by (simp_all add: q_def same_counters_def)
  show ?thesis
  proof (cases "map_of (ci_pressed r) sid")
    case None
    then have "r' = reset_input_if_idle ops q" "res = Ok 0" "holds r sid = {}"
      using rel q(4) by (simp_all add: release_session_scope_def q_def [symmetric] Let_def holds_def)
    then show ?thesis
      using q reset_ok [of q] by (auto simp: gives_up_def same_counters_def same_books_def fun_eq_iff)
  next
    case (Some st)
    let ?bs = "if scope = ScopePointer then sp_buttons st else []"
    let ?ks = "if scope = ScopeKeyboard then sp_keys st else []"
    obtain r1 q1 where b: "release_buttons ops q sid ?bs 0 = (r1, q1)" by (meson surj_pair)
    note b_ok = release_buttons_ok [OF q(1) b]
    show ?thesis
    proof (cases q1)
      case (Inl e)
      with rel b Some q(4) have "r' = r1" "res = Err e"
        by (simp_all add: release_session_scope_def q_def [symmetric] Let_def)
      with b_ok q show ?thesis by (auto simp: same_counters_def same_books_def gives_up_def)
    next
      case (Inr n)
      obtain r2 q2 where k: "release_keys ops r1 sid ?ks n = (r2, q2)" by (meson surj_pair)
      from b_ok have "reg_ok down r1" by simp
      note k_ok = release_keys_ok [OF this k]
      show ?thesis
      proof (cases q2)
        case (Inl e)
        with rel b k Inr Some q(4) have "r' = r2" "res = Err e"
          by (simp_all add: release_session_scope_def q_def [symmetric] Let_def)
        with b_ok k_ok q Inr show ?thesis by (auto simp: same_counters_def same_books_def gives_up_def)
      next
        case ok2: (Inr m)
        with rel b k Inr Some q(4) have r': "r' = reset_input_if_idle ops r2" "res = Ok m"
          by (simp_all add: release_session_scope_def q_def [symmetric] Let_def)
        have "holds r sid - PButton ` set ?bs - PKey ` set ?ks = {p \<in> holds r sid. \<not> in_scope scope p}"
          using Some by (cases scope) (auto simp: holds_def in_scope_def)
        with b_ok k_ok q Inr ok2 r' reset_ok [of r2] show ?thesis
          by (auto simp: same_counters_def same_books_def gives_up_def fun_eq_iff)
      qed
    qed
  qed
qed

lemma release_session_all_ok:
  assumes "reg_ok down r" and rel: "release_session_all ops r sid = (r', res)"
  shows "same_counters r r' \<and> reg_ok down r' \<and> gives_up sid r r' \<and>
    (is_ok res \<longrightarrow> holds r' = (holds r)(sid := {}))"
proof -
  obtain r1 q1 where p: "release_session_scope ops r sid ScopePointer = (r1, q1)" by (meson surj_pair)
  note p_ok = release_session_scope_ok [OF assms(1) p]
  obtain r2 q2 where k: "release_session_scope ops r1 sid ScopeKeyboard = (r2, q2)" by (meson surj_pair)
  from p_ok have "reg_ok down r1" by simp
  note k_ok = release_session_scope_ok [OF this k]
  have scopes: "in_scope ScopePointer x \<or> in_scope ScopeKeyboard x" for x
    by (auto simp: in_scope_def split: pressable.split)
  show ?thesis
  proof (cases q1)
    case (Inl e)
    with rel p have "r' = r1" "res = Err e" by (simp_all add: release_session_all_def)
    with p_ok show ?thesis by simp
  next
    case (Inr n)
    with rel p k have r': "r' = r2" "is_ok res = is_ok q2"
      by (auto simp: release_session_all_def split: sum.splits)
    show ?thesis
      using p_ok k_ok Inr scopes by (auto simp: r' same_counters_def gives_up_def fun_eq_iff)
  qed
qed

lemma plain_event_down:
  "io_inject ops i e = (i', q) \<Longrightarrow> (\<And>D. press_effect e D = D) \<Longrightarrow> down i' = down i"
  using inject_down inject_failed by (cases q) auto

lemma inject_session_input_ok:
  assumes ok: "reg_ok down r" and inp: "inject_session_input ops r sid ev = (r', res)"
  shows "reg_ok down r' \<and> ci_frozen r' = ci_frozen r \<and> (\<forall>s. s \<noteq> sid \<longrightarrow> holds r' s = holds r s)"
proof -
  have press: ?thesis if "transition ops r sid p pressed = (r', res)" for p pressed
    using transition_ok [OF ok that] by (auto simp: same_books_def split: sum.splits)
  show ?thesis
  proof (cases ev)
    case (EvMouseButton b x)
    with inp show ?thesis by (intro press [of "PButton b" x]) (simp add: inject_session_input_def)
  next
    case (EvKey k x)
    with inp show ?thesis by (intro press [of "PKey k" x]) (simp add: inject_session_input_def)
  qed (use inp ok in \<open>auto simp: inject_session_input_def reg_ok_injector dest!: plain_event_down
      split: prod.splits\<close>)
qed

lemma handle_event_ok:
  assumes ok: "reg_ok down r" and ev: "handle_event_inner ops r (Some sid) ev sc = (r', res)"
  shows "reg_ok down r' \<and> ci_frozen r' = ci_frozen r \<and> (\<forall>s. s \<noteq> sid \<longrightarrow> holds r' s = holds r s)"
  using ev
proof (cases rule: handle_event_cases)
  case (handled r0 r1 q)
  have r0: "reg_ok down r0" "ci_frozen r0 = ci_frozen r" "holds r0 = holds r"
    using ok by (simp_all add: handled(1))
  from handled(3) have "reg_ok down r1 \<and> ci_frozen r1 = ci_frozen r0 \<and> (\<forall>s. s \<noteq> sid \<longrightarrow> holds r1 s = holds r0 s)"
    using release_session_scope_ok [OF r0(1)] release_session_all_ok [OF r0(1)]
      inject_session_input_ok [OF r0(1)]
    by (auto simp: same_counters_def gives_up_def)
  with r0 show ?thesis using finish_event_other [OF handled(2)] by simp
qed (use ok in simp_all)

lemma release_round_ok:
  "reg_ok down r \<Longrightarrow> release_round ops r pending n err retry = (r', n', err', retry') \<Longrightarrow>
   reg_ok down r' \<and> ci_frozen r' = ci_frozen r \<and> (\<forall>s. holds r' s \<subseteq> holds r s) \<and>
   (\<forall>s\<in>set pending. holds r' s \<noteq> {} \<longrightarrow> s \<in> set retry') \<and> set retry \<subseteq> set retry' \<and>
   (err \<noteq> None \<longrightarrow> err' \<noteq> None) \<and> (retry' \<noteq> retry \<longrightarrow> err' \<noteq> None)"
proof (induction pending arbitrary: r n err retry)
  case (Cons sid pending)
  obtain r1 q where a: "release_session_all ops r sid = (r1, q)" by (meson surj_pair)
  note ok = release_session_all_ok [OF Cons.prems(1) a]
  then have r1: "reg_ok down r1" "ci_frozen r1 = ci_frozen r" "\<And>s. holds r1 s \<subseteq> holds r s"
    by (auto simp: same_counters_def gives_up_def)
  show ?case
  proof (cases q)
    case (Inl e)
    with Cons.prems(2) a have "release_round ops r1 pending n (Some e) (retry @ [sid]) = (r', n', err', retry')"
      by simp
    from Cons.IH [OF r1(1) this] r1 show ?thesis by (auto, blast+)
  next
    case (Inr m)
    with Cons.prems(2) a
    have "release_round ops r1 pending (saturating_add n m) err retry = (r', n', err', retry')" by simp
    note ih = Cons.IH [OF r1(1) this]
    have "holds r1 sid = {}" using ok Inr by simp
    then have "holds r' sid = {}" using ih by blast
    moreover have "holds r' s \<subseteq> holds r s" for s using ih r1(3) [of s] by blast
    ultimately show ?thesis using ih r1(2) by simp
  qed
qed simp

lemma release_rounds_ok:
  "reg_ok down r \<Longrightarrow> release_rounds k ops r pending n err = (r', res) \<Longrightarrow>
   (\<And>s. holds r s \<noteq> {} \<Longrightarrow> s \<in> set pending) \<Longrightarrow> (k = 0 \<Longrightarrow> err \<noteq> None) \<Longrightarrow>
   reg_ok down r' \<and> ci_frozen r' = ci_frozen r \<and> (\<forall>s. holds r' s \<subseteq> holds r s) \<and>
    (is_ok res \<longrightarrow> (\<forall>s. holds r' s = {}))"
proof (induction k arbitrary: r pending n err)
  case 0
  then show ?case by auto
next
  case (Suc k)
  obtain r1 n1 err1 retry where a: "release_round ops r pending n err [] = (r1, n1, err1, retry)"
    by (cases "release_round ops r pending n err []")
  note ok = release_round_ok [OF Suc.prems(1) a]
  have left: "holds r1 s \<noteq> {} \<Longrightarrow> s \<in> set retry" for s using ok Suc.prems(3) [of s] by blast
  show ?case
  proof (cases "retry = []")
    case True
    with Suc.prems(2) a ok left show ?thesis by auto
  next
    case False
    with Suc.prems(2) a have "release_rounds k ops r1 retry n1 err1 = (r', res)" by simp
    from Suc.IH [OF _ this left] ok False
    have "reg_ok down r' \<and> ci_frozen r' = ci_frozen r1 \<and> (\<forall>s. holds r' s \<subseteq> holds r1 s) \<and>
      (is_ok res \<longrightarrow> (\<forall>s. holds r' s = {}))" by auto
    with ok show ?thesis by (auto 0 4)
  qed
qed

lemma release_all_sessions_ok:
  assumes "reg_ok down r" "release_all_sessions ops r = (r', res)"
  shows "reg_ok down r' \<and> ci_frozen r' = ci_frozen r \<and> (\<forall>s. holds r' s \<subseteq> holds r s) \<and>
    (is_ok res \<longrightarrow> (\<forall>s. holds r' s = {}))"
proof (rule release_rounds_ok [OF assms(1) assms(2) [unfolded release_all_sessions_def]])
  fix s assume "holds r s \<noteq> {}"
  then show "s \<in> set (sort (remdups (map fst (ci_pressed r) @ map fst (ci_last_mouse_move r))))"
    by (auto simp: holds_def image_iff split: option.splits dest!: map_of_SomeD) force+
qed simp

end

section \<open>Runs of the registry\<close>

text \<open>
  Every call that reaches the registry, by whichever session, in any order.
\<close>

inductive ci_step :: "'i injector_ops \<Rightarrow> 'i control_input_registry \<Rightarrow> 'i control_input_registry \<Rightarrow> bool"
  for ops where
  ci_event: "handle_event_inner ops r (Some sid) ev sc = (r', res) \<Longrightarrow> ci_step ops r r'"
| ci_agent_begin: "begin_agent_event r sid ev = (r', b) \<Longrightarrow> ci_step ops r r'"
| ci_agent_finish: "finish_agent_event r sid scope ev q = (r', res) \<Longrightarrow> ci_step ops r r'"
| ci_release_scope: "release_session_scope ops r sid scope = (r', q) \<Longrightarrow> ci_step ops r r'"
| ci_release: "release_session_all ops r sid = (r', q) \<Longrightarrow> ci_step ops r r'"
| ci_release_all: "release_all_sessions ops r = (r', q) \<Longrightarrow> ci_step ops r r'"
| ci_freeze: "freeze_session_for_migration ops r sid = (r', q) \<Longrightarrow> ci_step ops r r'"
| ci_thaw: "thaw_session_after_migration r sid = (r', b) \<Longrightarrow> ci_step ops r r'"

inductive_cases ci_stepE: "ci_step ops r r'"

lemma agent_bookkeeping:
  "begin_agent_event r sid ev = (r', b) \<Longrightarrow>
   reg_ok down r' = reg_ok down r \<and> ci_frozen r' = ci_frozen r \<and> holds r' = holds r \<and> ci_injector r' = ci_injector r"
  "finish_agent_event r sid scope ev q = (r', res) \<Longrightarrow>
   reg_ok down r' = reg_ok down r \<and> ci_frozen r' = ci_frozen r \<and> holds r' = holds r \<and> ci_injector r' = ci_injector r"
  by (auto simp: begin_agent_event_def finish_agent_event_def Let_def finish_event_other split: if_splits)

context injector
begin

lemma freeze_ok:
  assumes "reg_ok down r" "freeze_session_for_migration ops r sid = (r', res)"
  shows "reg_ok down r' \<and> ci_frozen r' = insert sid (ci_frozen r) \<and> gives_up sid r r' \<and>
    (is_ok res \<longrightarrow> holds r' = (holds r)(sid := {}))"
proof -
  obtain r1 q where a: "release_session_all ops r sid = (r1, q)" by (meson surj_pair)
  with assms(2) have r': "r' = r1\<lparr>ci_frozen := insert sid (ci_frozen r1)\<rparr>" "res = q"
    by (auto simp: freeze_session_for_migration_def)
  from release_session_all_ok [OF assms(1) a] show ?thesis
    by (auto simp: r' same_counters_def gives_up_def)
qed

lemma ci_step_ok:
  assumes "ci_step ops r r'" and ok: "reg_ok down r"
  shows "reg_ok down r'"
  using assms(1)
  by (cases rule: ci_step.cases)
    (use ok handle_event_ok [OF ok] agent_bookkeeping release_session_scope_ok [OF ok]
      release_session_all_ok [OF ok] release_all_sessions_ok [OF ok] freeze_ok [OF ok] in
      \<open>auto simp: thaw_session_after_migration_def, blast+\<close>)

end

sublocale injector \<subseteq> ri: state_invariant "\<lambda>r. \<exists>i. down i = {} \<and> r = with_injector i" "ci_step ops" "reg_ok down"
  by unfold_locales (auto simp: reg_ok_initial intro: ci_step_ok)

context injector
begin

lemma reachable_ok:
  assumes "down i = {}" "(ci_step ops)\<^sup>*\<^sup>* (with_injector i) r"
  shows "reg_ok down r"
  using assms by (blast intro: ri.reachable_inv)

text \<open>While a session is frozen no call adds to what it holds, and only its thaw ends the freeze.\<close>

lemma frozen_event:
  assumes ok: "reg_ok down r" and "sid \<in> ci_frozen r" "handle_event_inner ops r (Some s) ev sc = (r', res)"
  shows "holds r' sid \<subseteq> holds r sid"
  using assms(3)
proof (cases rule: handle_event_cases)
  case (handled r0 r1 q)
  show ?thesis
  proof (cases "s = sid")
    case True
    have "reg_ok down r0" "holds r0 = holds r" using ok by (simp_all add: handled(1))
    note r0 = this
    from handled(3) assms(2) True consider scope where "release_session_scope ops r0 sid scope = (r1, q)"
      | "release_session_all ops r0 sid = (r1, q)" by blast
    then have "gives_up sid r0 r1"
      by cases (use release_session_scope_ok [OF r0(1)] release_session_all_ok [OF r0(1)] in blast)+
    then have "holds r1 sid \<subseteq> holds r sid" by (simp add: gives_up_def r0(2))
    then show ?thesis using finish_event_other(3) [OF handled(2)] by simp
  qed (use handle_event_ok [OF assms(1,3)] in simp)
qed simp_all

lemma frozen_step:
  assumes "ci_step ops r r'" and ok: "reg_ok down r" and fz: "sid \<in> ci_frozen r"
  shows "holds r' sid \<subseteq> holds r sid \<and> (sid \<in> ci_frozen r' \<or> r' = fst (thaw_session_after_migration r sid))"
  using assms(1)
proof (cases rule: ci_step.cases)
  case (ci_event s ev sc res)
  with handle_event_ok [OF ok] frozen_event [OF ok fz] fz show ?thesis by blast
next
  case (ci_release_scope s scope q)
  from release_session_scope_ok [OF ok this] fz show ?thesis
    by (cases "s = sid") (auto simp: gives_up_def same_counters_def)
next
  case (ci_release s q)
  from release_session_all_ok [OF ok this] fz show ?thesis
    by (cases "s = sid") (auto simp: gives_up_def same_counters_def)
next
  case (ci_release_all q)
  from release_all_sessions_ok [OF ok this] fz show ?thesis by blast
next
  case (ci_freeze s q)
  from freeze_ok [OF ok this] fz show ?thesis by (cases "s = sid") (auto simp: gives_up_def)
next
  case (ci_agent_begin s ev b)
  from agent_bookkeeping(1) [OF this] fz show ?thesis by simp
next
  case (ci_agent_finish s scope ev q res)
  from agent_bookkeeping(2) [OF this] fz show ?thesis by simp
qed (use fz in \<open>auto simp: thaw_session_after_migration_def\<close>)

end

section \<open>The repository's injectors keep the contract\<close>

definition rec_down :: "recording_injector \<Rightarrow> pressable set" where
  "rec_down i = fold press_effect (rec_recorded i) {}"

interpretation recording: injector recording_ops rec_down
  by unfold_locales
    (auto simp: recording_ops_def recording_inject_def rec_down_def split: if_splits)

definition tracked_ops :: "'i injector_ops \<Rightarrow> 'i tracked_injector injector_ops" where
  "tracked_ops ops =
     \<lparr>io_inject = tracked_inject ops, io_reset_idle_state = tracked_reset_idle_state ops\<rparr>"

definition tracked_down :: "'i tracked_injector \<Rightarrow> pressable set" where
  "tracked_down t = PButton ` set (ti_active_buttons t) \<union> PKey ` set (ti_active_keys t)"

lemma update_pressed_down:
  "tracked_down (update_pressed_state t e) = press_effect e (tracked_down t)"
  "ti_inner (update_pressed_state t e) = ti_inner t"
  by (cases e; auto simp: update_pressed_state_def tracked_down_def push_unique_def split: if_splits
      elim!: press_effect.elims)+

context injector
begin

lemma tracked_inject_down:
  assumes "tracked_inject ops t e = (t', res)"
  shows "down (ti_inner t') = (case res of Ok _ \<Rightarrow> press_effect e (down (ti_inner t)) | Err _ \<Rightarrow> down (ti_inner t))"
    and "tracked_down t' = (case res of Ok _ \<Rightarrow> press_effect e (tracked_down t) | Err _ \<Rightarrow> tracked_down t)"
  using assms
  by (auto simp: tracked_inject_def update_pressed_down dest: inject_down inject_failed
      split: prod.splits sum.splits)
    (simp_all add: tracked_down_def)

lemma tracked_contract: "injector (tracked_ops ops) (\<lambda>t. down (ti_inner t))"
proof unfold_locales
  fix t t' e u x
  show "io_inject (tracked_ops ops) t e = (t', Ok u) \<Longrightarrow> down (ti_inner t') = press_effect e (down (ti_inner t))"
    "io_inject (tracked_ops ops) t e = (t', Err x) \<Longrightarrow> down (ti_inner t') = down (ti_inner t)"
    by (auto simp: tracked_ops_def dest: tracked_inject_down(1))
  show "down (ti_inner (io_reset_idle_state (tracked_ops ops) t)) = down (ti_inner t)"
    by (simp add: tracked_ops_def tracked_reset_idle_state_def reset_down)
qed

lemma inject_all_down:
  "inject_all ops i es rel = (i', Ok rel') \<Longrightarrow> down i' = fold press_effect es (down i) \<and> rel' = rel @ es"
  by (induction es arbitrary: i rel)
    (fastforce split: prod.splits sum.splits dest: inject_down)+

lemma fold_release_buttons:
  "fold press_effect (map (\<lambda>b. EvMouseButton b False) bs) D = D - PButton ` set bs"
  by (induction bs arbitrary: D) auto

lemma fold_release_keys:
  "fold press_effect (map (\<lambda>k. EvKey k False) ks) D = D - PKey ` set ks"
  by (induction ks arbitrary: D) auto

lemma tracked_release_all_down:
  assumes "tracked_down t = down (ti_inner t)" "tracked_release_all ops t = (t', Ok released)"
  shows "down (ti_inner t') = {} \<and> tracked_down t' = {} \<and>
    released = map (\<lambda>b. EvMouseButton b False) (ti_active_buttons t) @ map (\<lambda>k. EvKey k False) (ti_active_keys t)"
proof -
  from assms(2) obtain i r i' where
    b: "inject_all ops (ti_inner t) (map (\<lambda>b. EvMouseButton b False) (ti_active_buttons t)) [] = (i, Ok r)"
    and k: "inject_all ops i (map (\<lambda>k. EvKey k False) (ti_active_keys t)) r = (i', Ok released)"
    and t': "t' = tracked_reset_idle_state ops (t\<lparr>ti_active_buttons := [], ti_inner := i', ti_active_keys := []\<rparr>)"
    by (auto simp: tracked_release_all_def Let_def split: prod.splits sum.splits)
  from inject_all_down [OF b] inject_all_down [OF k] assms(1) show ?thesis
    by (auto simp: t' tracked_reset_idle_state_def reset_down fold_release_buttons fold_release_keys tracked_down_def)
qed

end

interpretation tracked: injector "tracked_ops recording_ops" "\<lambda>t. rec_down (ti_inner t)"
  by (rule recording.tracked_contract)

section \<open>Properties\<close>

text \<open>
  C19. The registry refines one set of held input per session.  For every injector that keeps
  the contract, started with nothing pressed, after any calls by any sessions, whether they
  succeeded or failed: a button or key is physically pressed exactly when some session holds
  it, and the holder count of each is the number of sessions that hold it.
\<close>

theorem control_input_device_exact:
  assumes "injector ops down" and "down i = {}" and "(ci_step ops)\<^sup>*\<^sup>* (with_injector i) r"
  shows "down (ci_injector r) = (\<Union>sid. holds r sid) \<and>
    holder_count r p = (if {sid. p \<in> holds r sid} = {} then None else Some (card {sid. p \<in> holds r sid}))"
  using injector.reachable_ok [OF assms] by (simp add: reg_ok_def holders_def count_of_def)

lemma reach_event:
  "(ci_step ops)\<^sup>*\<^sup>* r0 r \<Longrightarrow> (ci_step ops)\<^sup>*\<^sup>* r0 (fst (handle_event_inner ops r (Some sid) ev sc))"
  by (rule rtranclp.rtrancl_into_rtrancl) (auto intro: ci_event prod.collapse [symmetric])

text \<open>A recorded run: two sessions press the left button, one of them a key as well.\<close>

definition demo_input ::
  "string \<Rightarrow> control_input_event \<Rightarrow> recording_injector control_input_registry
   \<Rightarrow> recording_injector control_input_registry" where
  "demo_input sid ev r = fst (handle_event_inner recording_ops r (Some sid) ev None)"

definition demo_registry :: "recording_injector control_input_registry" where
  "demo_registry = demo_input ''a'' (CiKey (CkVirtualKey 65) True)
     (demo_input ''b'' (CiMouseButton CbLeft True)
       (demo_input ''a'' (CiMouseButton CbLeft True) (with_injector recording_available)))"

lemma demo_reachable:
  "(ci_step recording_ops)\<^sup>*\<^sup>* (with_injector recording_available) demo_registry"
  "rec_down recording_available = {}"
  by (simp_all add: demo_registry_def demo_input_def reach_event rec_down_def recording_available_def)

theorem control_input_device_exact_witness:
  "rec_down (ci_injector demo_registry) = (\<Union>sid. holds demo_registry sid) \<and>
   Some (2::nat) = (if {sid. PButton IbLeft \<in> holds demo_registry sid} = {} then None
     else Some (card {sid. PButton IbLeft \<in> holds demo_registry sid}))"
proof -
  have "holder_count demo_registry (PButton IbLeft) = Some 2" by code_simp
  with control_input_device_exact [OF recording.injector_axioms demo_reachable(2,1), of "PButton IbLeft"]
  show ?thesis by simp
qed

text \<open>
  Releasing a session's input.  In every reachable registry, releasing everything a
  session holds never changes what another session holds and leaves the device with exactly
  the union of the remaining holdings, even when the injector fails half way; when it
  succeeds the session holds nothing and only what the other sessions hold is still pressed.
  Releasing all sessions, when it succeeds, leaves nothing pressed.
\<close>

theorem control_input_release:
  assumes inj: "injector ops down" and "down i = {}" and "(ci_step ops)\<^sup>*\<^sup>* (with_injector i) r"
    and one: "release_session_all ops r sid = (r1, q1)" and every: "release_all_sessions ops r = (r2, q2)"
  shows "(\<forall>s. s \<noteq> sid \<longrightarrow> holds r1 s = holds r s) \<and> holds r1 sid \<subseteq> holds r sid \<and>
    down (ci_injector r1) = (\<Union>s. holds r1 s) \<and>
    (is_ok q1 \<longrightarrow> down (ci_injector r1) = (\<Union>s \<in> - {sid}. holds r s)) \<and>
    (\<forall>s. holds r2 s \<subseteq> holds r s) \<and> down (ci_injector r2) = (\<Union>s. holds r2 s) \<and>
    (is_ok q2 \<longrightarrow> down (ci_injector r2) = {})"
proof -
  note ok = injector.reachable_ok [OF assms(1-3)]
  from injector.release_session_all_ok [OF inj ok one]
  have r1: "gives_up sid r r1" "down (ci_injector r1) = (\<Union>s. holds r1 s)"
    "is_ok q1 \<longrightarrow> holds r1 = (holds r)(sid := {})" by (simp_all add: reg_ok_def)
  from injector.release_all_sessions_ok [OF inj ok every]
  have r2: "\<forall>s. holds r2 s \<subseteq> holds r s" "down (ci_injector r2) = (\<Union>s. holds r2 s)"
    "is_ok q2 \<longrightarrow> (\<forall>s. holds r2 s = {})" by (simp_all add: reg_ok_def)
  have "(\<Union>s. ((holds r)(sid := {})) s) = (\<Union>s \<in> - {sid}. holds r s)" by auto
  with r1 r2 show ?thesis by (simp add: gives_up_def)
qed

theorem control_input_release_witness:
  "rec_down (ci_injector (fst (release_session_all recording_ops demo_registry ''a''))) = {PButton IbLeft} \<and>
   rec_down (ci_injector (fst (release_all_sessions recording_ops demo_registry))) = {}"
proof -
  obtain r1 q1 where one: "release_session_all recording_ops demo_registry ''a'' = (r1, q1)" by fastforce
  obtain r2 q2 where every: "release_all_sessions recording_ops demo_registry = (r2, q2)" by fastforce
  have ok: "is_ok (snd (release_session_all recording_ops demo_registry ''a''))"
    "is_ok (snd (release_all_sessions recording_ops demo_registry))"
    "ci_pressed (fst (release_session_all recording_ops demo_registry ''a'')) =
       [(''b'', \<lparr>sp_buttons = [IbLeft], sp_keys = []\<rparr>)]" by code_simp+
  from control_input_release [OF recording.injector_axioms demo_reachable(2,1) one every]
  have "rec_down (ci_injector r1) = (\<Union>s. holds r1 s)" "rec_down (ci_injector r2) = {}"
    using ok one every by auto
  moreover have "(\<Union>s. holds r1 s) = {PButton IbLeft}" using ok(3) one by (auto simp: holds_def split: if_splits)
  ultimately show ?thesis using one every by simp
qed

text \<open>
  Input is frozen while a session's relay path migrates.  Freezing a session marks it
  frozen even when the release of its held input fails.  From then on, in every state the
  registry reaches in which the session is still marked, each of its events except the
  release is refused with the frozen error and touches neither the device nor the holdings,
  on the local and on the agent path; no call by any session adds to what it holds; and the
  mark is removed by nothing but the thaw of that session.
\<close>

theorem migration_freeze_blocks_input:
  assumes inj: "injector ops down" and "down i = {}" and "(ci_step ops)\<^sup>*\<^sup>* (with_injector i) r"
    and fz: "freeze_session_for_migration ops r sid = (r1, q)" and run: "(ci_step ops)\<^sup>*\<^sup>* r1 r2"
    and still: "session_is_migration_frozen r2 sid" and ev: "ev \<noteq> CiReleaseAll" and "ci_step ops r2 r3"
  shows "session_is_migration_frozen r1 sid \<and>
    (\<exists>r'. handle_event_inner ops r2 (Some sid) ev sc = (r', Err frozen_error) \<and>
       ci_injector r' = ci_injector r2 \<and> holds r' = holds r2) \<and>
    (\<exists>r'. begin_agent_event r2 sid ev = (r', Err frozen_error)) \<and>
    holds r3 sid \<subseteq> holds r2 sid \<and>
    (session_is_migration_frozen r3 sid \<or> r3 = fst (thaw_session_after_migration r2 sid))"
proof -
  note ok = injector.reachable_ok [OF assms(1-3)]
  from assms(3) have "(ci_step ops)\<^sup>*\<^sup>* (with_injector i) r1" by (rule rtranclp.rtrancl_into_rtrancl) (rule ci_freeze [OF fz])
  with run have "(ci_step ops)\<^sup>*\<^sup>* (with_injector i) r2" by simp
  from injector.frozen_step [OF inj assms(8) injector.reachable_ok [OF assms(1,2) this]] still
  have step: "holds r3 sid \<subseteq> holds r2 sid \<and> (sid \<in> ci_frozen r3 \<or> r3 = fst (thaw_session_after_migration r2 sid))"
    by (simp add: session_is_migration_frozen_def)
  have "session_is_migration_frozen r1 sid"
    using injector.freeze_ok [OF inj ok fz] by (simp add: session_is_migration_frozen_def)
  moreover have "\<exists>r'. handle_event_inner ops r2 (Some sid) ev sc = (r', Err frozen_error) \<and>
       ci_injector r' = ci_injector r2 \<and> holds r' = holds r2"
    using still ev by (simp add: handle_event_inner_def session_is_migration_frozen_def Let_def holds_def)
  moreover have "\<exists>r'. begin_agent_event r2 sid ev = (r', Err frozen_error)"
    using still ev by (simp add: begin_agent_event_def session_is_migration_frozen_def Let_def)
  ultimately show ?thesis using step by (simp add: session_is_migration_frozen_def)
qed

definition demo_frozen :: "recording_injector control_input_registry" where
  "demo_frozen = fst (freeze_session_for_migration recording_ops demo_registry ''a'')"

theorem migration_freeze_blocks_input_witness:
  "(\<exists>r'. handle_event_inner recording_ops demo_frozen (Some ''a'') (CiKey (CkVirtualKey 66) True) None
     = (r', Err frozen_error) \<and> ci_injector r' = ci_injector demo_frozen \<and> holds r' = holds demo_frozen) \<and>
   session_is_migration_frozen (demo_input ''b'' (CiKey (CkVirtualKey 66) True) demo_frozen) ''a''"
proof -
  have step: "ci_step recording_ops demo_frozen (demo_input ''b'' (CiKey (CkVirtualKey 66) True) demo_frozen)"
    unfolding demo_input_def by (rule ci_event [OF prod.collapse [symmetric]])
  have fz: "freeze_session_for_migration recording_ops demo_registry ''a'' =
      (demo_frozen, snd (freeze_session_for_migration recording_ops demo_registry ''a''))"
    by (simp add: demo_frozen_def)
  have still: "session_is_migration_frozen demo_frozen ''a''"
    "session_is_migration_frozen (demo_input ''b'' (CiKey (CkVirtualKey 66) True) demo_frozen) ''a''"
    by code_simp+
  from migration_freeze_blocks_input [OF recording.injector_axioms demo_reachable(2,1) fz
      rtranclp.rtrancl_refl still(1) _ step, of "CiKey (CkVirtualKey 66) True" None] still(2)
  show ?thesis by simp
qed

end
