(* ===== verification/Relay_Access.thy ===== *)
theory Relay_Access
  imports Relay_Directory
begin

text \<open>
  The relay client of the service (\<open>mrd-service/src/relay/client.rs\<close> and \<open>cache.rs\<close>): request
  contexts, verification of a relay-access response against the signed directory, and the
  least-recently-used cache of verified responses.  The HTTP exchange is a parameter (what
  \<open>fetch\<close> returned), as are \<open>serde_json\<close> and SHA-256.  Each branch of \<open>refresh\<close> takes the
  cache's lock once, so a call is one atomic step on the cache; \<open>access\<close> is a lookup step
  followed, on a miss, by a refresh step, and other calls may run in between.
\<close>

section \<open>Contexts\<close>

definition MAX_RELAY_ACCESS_JSON_BYTES :: nat where
  "MAX_RELAY_ACCESS_JSON_BYTES = MAX_RELAY_DIRECTORY_JSON_BYTES + 65536"
definition MAX_CREDENTIALS :: nat where "MAX_CREDENTIALS = 8"
definition MAX_URLS_PER_CREDENTIAL :: nat where "MAX_URLS_PER_CREDENTIAL = 4"

datatype relay_client_error =
    InvalidContext | BackendUnavailable | Unauthorized | InvalidResponse | CredentialBinding
  | Directory relay_directory_error

definition is_terminal_security :: "relay_client_error \<Rightarrow> bool" where
  "is_terminal_security e \<longleftrightarrow> e \<noteq> BackendUnavailable"

datatype relay_backend_error = BeUnavailable | BeUnauthorized | BeInvalidResponse

text \<open>The response as \<open>serde_json\<close> fills it; the directory is kept as an opaque JSON value.\<close>

record raw_relay_credential =
  rrc_node_id :: string
  rrc_urls :: "string list"
  rrc_username :: string
  rrc_credential :: string
  rrc_expires_at_unix_seconds :: u64

record 'v raw_relay_access_response =
  rra_generation :: "u64 option"
  rra_directory_id :: string
  rra_relay_url_digest :: "string option"
  rra_directory :: 'v
  rra_credentials :: "raw_relay_credential list"

text \<open>The external functions: SHA-256, \<open>serde_json\<close> on the response and on the directory value.\<close>

record 'v access_env =
  ax_sha256 :: "bytes \<Rightarrow> bytes"
  ax_from_slice :: "bytes \<Rightarrow> 'v raw_relay_access_response option"
  ax_to_vec :: "'v \<Rightarrow> bytes option"
  ax_directory :: directory_env

definition ascii_alphanumeric :: "char \<Rightarrow> bool" where
  "ascii_alphanumeric c \<longleftrightarrow>
     char_between (CHR ''0'') c (CHR ''9'') \<or> char_between (CHR ''A'') c (CHR ''Z'') \<or>
     char_between (CHR ''a'') c (CHR ''z'')"

definition validate_context_identifier :: "string \<Rightarrow> (unit, relay_client_error) result" where
  "validate_context_identifier value =
     (if value = [] \<or> length value > 128 \<or> \<not> ascii_alphanumeric (hd value)
        \<or> \<not> list_all (\<lambda>c. ascii_alphanumeric c \<or> c \<in> set ''._-'') value
      then Err InvalidContext else Ok ())"

record relay_access_context =
  rx_session_id :: string
  rx_policy_revision :: u64
  rx_intended_peer_id :: string
  rx_generation :: "u64 option"
  rx_refresh :: "bool option"
  rx_peer_digest :: string

abbreviation i64_max :: u64 where "i64_max \<equiv> 9223372036854775807"

definition relay_peer_digest :: "(bytes \<Rightarrow> bytes) \<Rightarrow> string \<Rightarrow> (string, relay_client_error) result" where
  "relay_peer_digest sha256 peer_id =
     and_then (validate_context_identifier peer_id) (\<lambda>_.
       Ok (''peer-sha256-'' @
           concat (map hex_byte (sha256 (as_bytes ''MRD_RELAY_PEER_V1'' @ [0] @ as_bytes peer_id)))))"

definition context_new ::
  "(bytes \<Rightarrow> bytes) \<Rightarrow> string \<Rightarrow> u64 \<Rightarrow> string \<Rightarrow> (relay_access_context, relay_client_error) result" where
  "context_new sha256 session_id policy_revision intended_peer_id =
     and_then (validate_context_identifier session_id) (\<lambda>_.
     and_then (validate_context_identifier intended_peer_id) (\<lambda>_.
       if policy_revision = 0 \<or> policy_revision > i64_max then Err InvalidContext
       else and_then (relay_peer_digest sha256 intended_peer_id) (\<lambda>peer_digest.
         Ok \<lparr>rx_session_id = session_id, rx_policy_revision = policy_revision,
             rx_intended_peer_id = intended_peer_id, rx_generation = None, rx_refresh = None,
             rx_peer_digest = peer_digest\<rparr>)))"

definition with_generation ::
  "(bytes \<Rightarrow> bytes) \<Rightarrow> string \<Rightarrow> u64 \<Rightarrow> string \<Rightarrow> u64 \<Rightarrow> bool option
   \<Rightarrow> (relay_access_context, relay_client_error) result" where
  "with_generation sha256 session_id policy_revision intended_peer_id generation refresh =
     (if generation > i64_max then Err InvalidContext
      else and_then (context_new sha256 session_id policy_revision intended_peer_id) (\<lambda>context.
        Ok (context\<lparr>rx_generation := Some generation, rx_refresh := refresh\<rparr>)))"

definition for_generation ::
  "(bytes \<Rightarrow> bytes) \<Rightarrow> string \<Rightarrow> u64 \<Rightarrow> string \<Rightarrow> u64 \<Rightarrow> (relay_access_context, relay_client_error) result" where
  "for_generation sha256 session_id policy_revision intended_peer_id generation =
     with_generation sha256 session_id policy_revision intended_peer_id generation None"

definition for_refresh ::
  "(bytes \<Rightarrow> bytes) \<Rightarrow> string \<Rightarrow> u64 \<Rightarrow> string \<Rightarrow> u64 \<Rightarrow> (relay_access_context, relay_client_error) result" where
  "for_refresh sha256 session_id policy_revision intended_peer_id generation =
     with_generation sha256 session_id policy_revision intended_peer_id generation (Some True)"

definition is_refresh :: "relay_access_context \<Rightarrow> bool" where
  "is_refresh context = (case rx_refresh context of Some b \<Rightarrow> b | None \<Rightarrow> False)"

section \<open>Verification of a response\<close>

record turn_relay_credentials =
  tc_urls :: "string list"
  tc_username :: string
  tc_credential :: string
  tc_expires_at_unix_seconds :: u64

record verified_relay_access =
  va_directory :: context_verified_relay_directory
  va_credentials :: "(string, turn_relay_credentials) btree_map"
  va_generation :: "u64 option"
  va_relay_url_digest :: "bytes option"

abbreviation va_payload :: "verified_relay_access \<Rightarrow> relay_directory_payload" where
  "va_payload a \<equiv> vd_payload (cv_verified (va_directory a))"

record relay_route_evidence =
  re_session_id :: string
  re_directory_id :: string
  re_node_id :: string
  re_region :: string
  re_failure_domain :: string
  re_generation :: u64
  re_urls_digest :: bytes

fun turn_scheme :: "relay_directory_transport \<Rightarrow> string \<times> string" where
  "turn_scheme DirUdp = (''turn'', ''udp'')"
| "turn_scheme DirTcp = (''turn'', ''tcp'')"
| "turn_scheme DirTls = (''turns'', ''tcp'')"

definition turn_url :: "relay_directory_endpoint \<Rightarrow> (string, relay_client_error) result" where
  "turn_url endpoint =
     (if de_port endpoint = 0 \<or> de_host endpoint = [] \<or> length (de_host endpoint) > 253
        \<or> has_control (de_host endpoint)
        \<or> list_ex (\<lambda>c. c \<in> set [CHR ''@'', CHR ''/'', CHR ''?'', CHR ''#'', CHR 0x5C]) (de_host endpoint)
      then Err CredentialBinding
      else
        let host = (if CHR '':'' \<in> set (de_host endpoint) then ''['' @ de_host endpoint @ '']'' else de_host endpoint);
            (scheme, transport) = turn_scheme (de_transport endpoint)
        in Ok (scheme @ '':'' @ host @ '':'' @ decimal_string (unat (de_port endpoint)) @ ''?transport='' @ transport))"

definition url_code :: "string \<Rightarrow> bytes" where
  "url_code url = u32_be (of_nat (length url)) @ as_bytes url"

definition urls_digest_input :: "string list \<Rightarrow> bytes" where
  "urls_digest_input urls = as_bytes ''MRD_RELAY_URLS_V1'' @ [0] @ concat (map url_code (sort urls))"

definition urls_digest :: "(bytes \<Rightarrow> bytes) \<Rightarrow> string list \<Rightarrow> bytes" where
  "urls_digest sha256 urls = sha256 (urls_digest_input urls)"

definition digest_hex :: "bytes \<Rightarrow> string" where
  "digest_hex value = concat (map hex_byte value)"

fun check_endpoint_urls :: "string set \<Rightarrow> relay_directory_endpoint list \<Rightarrow> (unit, relay_client_error) result" where
  "check_endpoint_urls actual [] = Ok ()"
| "check_endpoint_urls actual (endpoint # endpoints) =
     and_then (turn_url endpoint) (\<lambda>expected.
       if expected \<notin> actual then Err CredentialBinding else check_endpoint_urls actual endpoints)"

fun collect_credentials ::
  "relay_directory_candidate list \<Rightarrow> u64 \<Rightarrow> (string, turn_relay_credentials) btree_map
   \<Rightarrow> raw_relay_credential list
   \<Rightarrow> ((string, turn_relay_credentials) btree_map, relay_client_error) result" where
  "collect_credentials candidates now_ms credentials [] = Ok credentials"
| "collect_credentials candidates now_ms credentials (raw # raws) =
     and_then (validate_context_identifier (rrc_node_id raw)) (\<lambda>_.
       if rrc_node_id raw \<in> fst ` set credentials
         \<or> rrc_urls raw = [] \<or> length (rrc_urls raw) > MAX_URLS_PER_CREDENTIAL
         \<or> rrc_username raw = [] \<or> length (rrc_username raw) > 512 \<or> has_control (rrc_username raw)
         \<or> rrc_credential raw = [] \<or> length (rrc_credential raw) > 512 \<or> has_control (rrc_credential raw)
         \<or> rrc_expires_at_unix_seconds raw \<le> now_ms div 1000
       then Err CredentialBinding
       else and_then (ok_or CredentialBinding (find (\<lambda>c. dc_node_id c = rrc_node_id raw) candidates)) (\<lambda>candidate.
         if \<not> distinct (rrc_urls raw) \<or> card (set (rrc_urls raw)) \<noteq> length (dc_endpoints candidate)
         then Err CredentialBinding
         else and_then (check_endpoint_urls (set (rrc_urls raw)) (dc_endpoints candidate)) (\<lambda>_.
           collect_credentials candidates now_ms
             (bt_insert (rrc_node_id raw)
               \<lparr>tc_urls = rrc_urls raw, tc_username = rrc_username raw, tc_credential = rrc_credential raw,
                tc_expires_at_unix_seconds = rrc_expires_at_unix_seconds raw\<rparr> credentials) raws)))"

definition verify_credentials ::
  "relay_directory_candidate list \<Rightarrow> raw_relay_credential list \<Rightarrow> u64
   \<Rightarrow> ((string, turn_relay_credentials) btree_map, relay_client_error) result" where
  "verify_credentials candidates raw_credentials now_ms =
     and_then (collect_credentials candidates now_ms [] raw_credentials) (\<lambda>credentials.
       if length credentials \<noteq> card (set (map dc_node_id candidates))
         \<or> \<not> list_all (\<lambda>node_id. node_id \<in> set (map dc_node_id candidates)) (map fst credentials)
       then Err CredentialBinding else Ok credentials)"

definition expected_generation :: "relay_access_context \<Rightarrow> u64 option" where
  "expected_generation context =
     (case rx_generation context of
        Some generation \<Rightarrow> if is_refresh context then checked_add generation 1 else Some generation
      | None \<Rightarrow> None)"

definition check_url_digest ::
  "(bytes \<Rightarrow> bytes) \<Rightarrow> relay_directory_payload \<Rightarrow> (string, turn_relay_credentials) btree_map
   \<Rightarrow> u64 option \<Rightarrow> string option \<Rightarrow> (bytes option, relay_client_error) result" where
  "check_url_digest sha256 payload credentials generation digest =
     (case (generation, digest) of
        (None, None) \<Rightarrow> Ok None
      | (Some _, Some expected) \<Rightarrow>
          and_then (ok_or CredentialBinding
              (find (\<lambda>c. dc_selection_reason c = ''preferred-region'') (dp_candidates payload))) (\<lambda>primary.
          and_then (ok_or CredentialBinding (map_of credentials (dc_node_id primary))) (\<lambda>credential.
            let actual = urls_digest sha256 (tc_urls credential)
            in if expected \<noteq> digest_hex actual then Err CredentialBinding else Ok (Some actual)))
      | _ \<Rightarrow> Err CredentialBinding)"

definition verify_relay_access_response ::
  "'v access_env \<Rightarrow> relay_access_context \<Rightarrow> (string, bytes) btree_map \<Rightarrow> bytes \<Rightarrow> u64
   \<Rightarrow> (verified_relay_access, relay_client_error) result" where
  "verify_relay_access_response env context trusted_keys body now_ms =
     (if length body > MAX_RELAY_ACCESS_JSON_BYTES then Err InvalidResponse
      else and_then (ok_or InvalidResponse (ax_from_slice env body)) (\<lambda>raw.
        if rra_generation raw \<noteq> expected_generation context then Err CredentialBinding
        else if rra_credentials raw = [] \<or> length (rra_credentials raw) > MAX_CREDENTIALS
        then Err CredentialBinding
        else and_then (ok_or InvalidResponse (ax_to_vec env (rra_directory raw))) (\<lambda>directory_json.
        and_then (map_err Directory (directory_from_json (ax_directory env) directory_json)) (\<lambda>signed.
        and_then (map_err Directory (verify_for_context (ax_directory env) signed trusted_keys
            (rx_session_id context) (rx_policy_revision context) (rx_peer_digest context) now_ms)) (\<lambda>directory.
          let payload = vd_payload (cv_verified directory) in
          if rra_directory_id raw \<noteq> dp_directory_id payload then Err CredentialBinding
          else and_then (verify_credentials (dp_candidates payload) (rra_credentials raw) now_ms) (\<lambda>credentials.
            and_then (check_url_digest (ax_sha256 env) payload credentials (expected_generation context)
                (rra_relay_url_digest raw)) (\<lambda>relay_url_digest.
              Ok \<lparr>va_directory = directory, va_credentials = credentials,
                  va_generation = rra_generation raw, va_relay_url_digest = relay_url_digest\<rparr>)))))))"

definition route_evidence ::
  "(bytes \<Rightarrow> bytes) \<Rightarrow> verified_relay_access \<Rightarrow> string \<Rightarrow> u64 \<Rightarrow> (relay_route_evidence, relay_client_error) result" where
  "route_evidence sha256 self node_id generation =
     and_then (ok_or CredentialBinding (find (\<lambda>c. dc_node_id c = node_id) (dp_candidates (va_payload self)))) (\<lambda>candidate.
     and_then (ok_or CredentialBinding (map_of (va_credentials self) node_id)) (\<lambda>credential.
       Ok \<lparr>re_session_id = dp_session_id (va_payload self),
           re_directory_id = dp_directory_id (va_payload self), re_node_id = node_id,
           re_region = dc_region candidate, re_failure_domain = dc_failure_domain candidate,
           re_generation = generation, re_urls_digest = urls_digest sha256 (tc_urls credential)\<rparr>))"

definition is_fresh :: "verified_relay_access \<Rightarrow> u64 \<Rightarrow> bool" where
  "is_fresh self now_ms \<longleftrightarrow>
     now_ms < dp_expires_at_ms (va_payload self) \<and>
     list_all (\<lambda>c. now_ms < rr_expires_at_ms (dc_reservation c)) (dp_candidates (va_payload self)) \<and>
     list_all (\<lambda>(node, c). now_ms div 1000 < tc_expires_at_unix_seconds c) (va_credentials self)"

section \<open>The cache\<close>

record relay_directory_cache =
  lc_capacity :: nat
  lc_entries :: "(relay_access_context, verified_relay_access) hash_map"
  lc_order :: "relay_access_context list"

definition cache_new :: "nat \<Rightarrow> relay_directory_cache" where
  "cache_new capacity = \<lparr>lc_capacity = max capacity 1, lc_entries = [], lc_order = []\<rparr>"

definition cache_touch :: "relay_directory_cache \<Rightarrow> relay_access_context \<Rightarrow> relay_directory_cache" where
  "cache_touch self context =
     self\<lparr>lc_order := filter (\<lambda>candidate. candidate \<noteq> context) (lc_order self) @ [context]\<rparr>"

definition cache_remove :: "relay_directory_cache \<Rightarrow> relay_access_context \<Rightarrow> relay_directory_cache" where
  "cache_remove self context =
     self\<lparr>lc_entries := AList.delete context (lc_entries self),
          lc_order := filter (\<lambda>candidate. candidate \<noteq> context) (lc_order self)\<rparr>"

definition cache_get ::
  "relay_directory_cache \<Rightarrow> relay_access_context \<Rightarrow> u64
   \<Rightarrow> relay_directory_cache \<times> verified_relay_access option" where
  "cache_get self context now_ms =
     (case map_of (lc_entries self) context of
        Some access \<Rightarrow>
          if is_fresh access now_ms then (cache_touch self context, Some access)
          else (cache_remove self context, None)
      | None \<Rightarrow> (self, None))"

text \<open>
  The eviction loop.  It pops the oldest context while the cache is over its capacity; with
  nothing left to pop it would run forever, which is the value \<open>None\<close>.
\<close>

partial_function (option) cache_evict :: "relay_directory_cache \<Rightarrow> relay_directory_cache option" where
  "cache_evict self =
     (if length (lc_entries self) > lc_capacity self
      then (case lc_order self of
              oldest # order \<Rightarrow>
                cache_evict (self\<lparr>lc_order := order, lc_entries := AList.delete oldest (lc_entries self)\<rparr>)
            | [] \<Rightarrow> cache_evict self)
      else Some self)"

definition cache_insert ::
  "relay_directory_cache \<Rightarrow> relay_access_context \<Rightarrow> verified_relay_access \<Rightarrow> relay_directory_cache option" where
  "cache_insert self context access =
     cache_evict (cache_touch (self\<lparr>lc_entries := AList.update context access (lc_entries self)\<rparr>) context)"

section \<open>The client\<close>

text \<open>
  \<open>refresh\<close> with what the backend answered and the clock it reads afterwards; the cache is
  the one it finds under the lock.  \<open>None\<close> is a call that does not return.
\<close>

definition cache_context_of ::
  "'v access_env \<Rightarrow> relay_access_context \<Rightarrow> verified_relay_access \<Rightarrow> (relay_access_context, relay_client_error) result" where
  "cache_context_of env context access =
     (if is_refresh context
      then and_then (ok_or InvalidResponse (va_generation access)) (\<lambda>generation.
        for_generation (ax_sha256 env) (rx_session_id context) (rx_policy_revision context)
          (rx_intended_peer_id context) generation)
      else Ok context)"

definition client_refresh ::
  "'v access_env \<Rightarrow> (string, bytes) btree_map \<Rightarrow> relay_access_context
   \<Rightarrow> (bytes, relay_backend_error) result \<Rightarrow> u64 \<Rightarrow> relay_directory_cache
   \<Rightarrow> (relay_directory_cache \<times> (verified_relay_access, relay_client_error) result) option" where
  "client_refresh env trusted_keys context fetched now_ms cache =
     (case fetched of
        Ok body \<Rightarrow>
          (case verify_relay_access_response env context trusted_keys body now_ms of
             Ok access \<Rightarrow>
               (case cache_context_of env context access of
                  Err e \<Rightarrow> Some (cache, Err e)
                | Ok cache_context \<Rightarrow>
                    map_option (\<lambda>cache. (cache, Ok access))
                      (cache_insert (cache_remove cache context) cache_context access))
           | Err e \<Rightarrow> Some (cache_remove cache context, Err e))
      | Err BeUnavailable \<Rightarrow>
          (case cache_get cache context now_ms of
             (cache, access) \<Rightarrow> Some (cache, ok_or BackendUnavailable access))
      | Err BeUnauthorized \<Rightarrow> Some (cache_remove cache context, Err Unauthorized)
      | Err BeInvalidResponse \<Rightarrow> Some (cache_remove cache context, Err InvalidResponse))"

text \<open>
  \<open>access\<close>: the lookup, and on a miss the refresh.  \<open>meanwhile\<close> is what other calls make of the
  cache while the request is under way.
\<close>

definition client_access ::
  "'v access_env \<Rightarrow> (string, bytes) btree_map \<Rightarrow> relay_access_context \<Rightarrow> u64
   \<Rightarrow> (relay_directory_cache \<Rightarrow> relay_directory_cache)
   \<Rightarrow> (bytes, relay_backend_error) result \<Rightarrow> u64 \<Rightarrow> relay_directory_cache
   \<Rightarrow> (relay_directory_cache \<times> (verified_relay_access, relay_client_error) result) option" where
  "client_access env trusted_keys context now_ms meanwhile fetched now_ms' cache =
     (case cache_get cache context now_ms of
        (cache, Some access) \<Rightarrow> Some (cache, Ok access)
      | (cache, None) \<Rightarrow> client_refresh env trusted_keys context fetched now_ms' (meanwhile cache))"

section \<open>Relay URLs\<close>

lemma split_first:
  "c \<notin> set xs \<Longrightarrow> c \<notin> set ys \<Longrightarrow> xs @ c # r = ys @ c # s \<longleftrightarrow> xs = ys \<and> r = s"
  by (induction xs arbitrary: ys) (case_tac ys; auto)+

lemma split_last:
  "c \<notin> set r \<Longrightarrow> c \<notin> set s \<Longrightarrow> xs @ c # r = ys @ c # s \<longleftrightarrow> xs = ys \<and> r = s"
  using split_first [of c "rev r" "rev s" "rev xs" "rev ys"]
  by (metis append.assoc append_Cons append_Nil rev.simps(2) rev_append rev_rev_ident set_rev)

definition url_host :: "string \<Rightarrow> string" where
  "url_host host = (if CHR '':'' \<in> set host then ''['' @ host @ '']'' else host)"

lemma url_host_inject: "url_host h = url_host g \<longleftrightarrow> h = g"
  by (auto simp: url_host_def split: if_splits)

lemma decimal_string_plain: "CHR '':'' \<notin> set (decimal_string n)" "CHR ''?'' \<notin> set (decimal_string n)"
  using decimal_string_chars [of "CHR '':''" n] decimal_string_chars [of "CHR ''?''" n] by auto

lemma turn_url_Ok:
  "turn_url e = Ok u \<longleftrightarrow>
     de_port e \<noteq> 0 \<and> de_host e \<noteq> [] \<and> length (de_host e) \<le> 253 \<and> \<not> has_control (de_host e) \<and>
     set (de_host e) \<inter> set [CHR ''@'', CHR ''/'', CHR ''?'', CHR ''#'', CHR 0x5C] = {} \<and>
     u = (fst (turn_scheme (de_transport e)) @ CHR '':'' # url_host (de_host e)) @ CHR '':'' #
       decimal_string (unat (de_port e)) @ CHR ''?'' # ''transport='' @ snd (turn_scheme (de_transport e))"
  unfolding turn_url_def url_host_def guard_Ok
  by (auto simp: Let_def list_ex_iff not_less split: prod.splits)

lemma turn_scheme_facts:
  "CHR '':'' \<notin> set (fst (turn_scheme t))" "CHR ''?'' \<notin> set (fst (turn_scheme t))"
  "turn_scheme t = turn_scheme t' \<longleftrightarrow> t = t'"
  by (cases t; cases t'; simp)+

lemma turn_url_inject:
  assumes "turn_url e = Ok u" "turn_url f = Ok u"
  shows "e = f"
proof -
  let ?front = "\<lambda>e. (fst (turn_scheme (de_transport e)) @ CHR '':'' # url_host (de_host e))"
  let ?port = "\<lambda>e. decimal_string (unat (de_port e))"
  have noq: "CHR ''?'' \<notin> set (?front x @ CHR '':'' # ?port x)" if "turn_url x = Ok u" for x
    using that turn_scheme_facts decimal_string_plain by (auto simp: turn_url_Ok url_host_def)
  have "(?front e @ CHR '':'' # ?port e) @ CHR ''?'' # ''transport='' @ snd (turn_scheme (de_transport e)) =
        (?front f @ CHR '':'' # ?port f) @ CHR ''?'' # ''transport='' @ snd (turn_scheme (de_transport f))"
    using assms by (simp add: turn_url_Ok)
  from this [unfolded split_first [OF noq [OF assms(1)] noq [OF assms(2)]]]
  have "?front e @ CHR '':'' # ?port e = ?front f @ CHR '':'' # ?port f"
    and transport: "snd (turn_scheme (de_transport e)) = snd (turn_scheme (de_transport f))" by simp_all
  then have "?front e = ?front f" "?port e = ?port f"
    using split_last [OF decimal_string_plain(1) decimal_string_plain(1)] by metis+
  then have "turn_scheme (de_transport e) = turn_scheme (de_transport f)" "de_host e = de_host f"
    "de_port e = de_port f"
    using transport
    by (simp_all add: split_first turn_scheme_facts(1) url_host_inject prod_eq_iff word_unat_eq_iff)
  then show ?thesis by (cases e; cases f) (simp add: turn_scheme_facts(3))
qed

section \<open>Credentials match the directory\<close>

definition endpoint_urls :: "relay_directory_candidate \<Rightarrow> string set" where
  "endpoint_urls c = {u. \<exists>e\<in>set (dc_endpoints c). turn_url e = Ok u}"

lemma check_endpoint_urls_Ok:
  "check_endpoint_urls actual es = Ok () \<longleftrightarrow> (\<forall>e\<in>set es. \<exists>u\<in>actual. turn_url e = Ok u)"
  by (induction es) (auto simp: guard_Ok)

lemma urls_exact:
  assumes "check_endpoint_urls (set urls) (dc_endpoints c) = Ok ()" "distinct (dc_endpoints c)"
    and "card (set urls) = length (dc_endpoints c)"
  shows "set urls = endpoint_urls c"
proof -
  let ?url = "\<lambda>e. projr (turn_url e)"
  have ok: "turn_url e = Ok (?url e) \<and> ?url e \<in> set urls" if "e \<in> set (dc_endpoints c)" for e
    using assms(1) that by (auto simp: check_endpoint_urls_Ok)
  have "inj_on ?url (set (dc_endpoints c))"
    by (rule inj_onI) (metis ok turn_url_inject)
  then have "card (?url ` set (dc_endpoints c)) = card (set urls)"
    using assms(2,3) by (simp add: card_image distinct_card)
  then have "?url ` set (dc_endpoints c) = set urls"
    using ok by (intro card_subset_eq) auto
  moreover have "endpoint_urls c = ?url ` set (dc_endpoints c)"
    using ok by (force simp: endpoint_urls_def)
  ultimately show ?thesis by simp
qed

definition credential_ok ::
  "relay_directory_candidate list \<Rightarrow> u64 \<Rightarrow> string \<Rightarrow> turn_relay_credentials \<Rightarrow> bool" where
  "credential_ok candidates now node cred \<longleftrightarrow>
     (\<exists>c\<in>set candidates. dc_node_id c = node \<and> distinct (tc_urls cred) \<and> set (tc_urls cred) = endpoint_urls c) \<and>
     now div 1000 < tc_expires_at_unix_seconds cred"

lemma collect_credentials_ok:
  assumes "list_all (\<lambda>c. distinct (dc_endpoints c)) candidates"
  shows "collect_credentials candidates now m raws = Ok m' \<Longrightarrow> bt_wf m \<Longrightarrow>
    (\<forall>(node, cred)\<in>set m. credential_ok candidates now node cred) \<Longrightarrow>
    bt_wf m' \<and> (\<forall>(node, cred)\<in>set m'. credential_ok candidates now node cred)"
proof (induction raws arbitrary: m)
  case (Cons raw raws)
  let ?cred = "\<lparr>tc_urls = rrc_urls raw, tc_username = rrc_username raw, tc_credential = rrc_credential raw,
    tc_expires_at_unix_seconds = rrc_expires_at_unix_seconds raw\<rparr>"
  let ?m = "bt_insert (rrc_node_id raw) ?cred m"
  from Cons.prems(1) obtain c where rest: "collect_credentials candidates now ?m raws = Ok m'"
    and c: "find (\<lambda>c. dc_node_id c = rrc_node_id raw) candidates = Some c"
    and urls: "distinct (rrc_urls raw)" "card (set (rrc_urls raw)) = length (dc_endpoints c)"
      "check_endpoint_urls (set (rrc_urls raw)) (dc_endpoints c) = Ok ()"
    and fresh: "now div 1000 < rrc_expires_at_unix_seconds raw"
    by (auto simp: guard_Ok not_le)
  from c have c': "c \<in> set candidates" "dc_node_id c = rrc_node_id raw"
    by (auto simp: find_Some_iff in_set_conv_nth)
  with assms have "distinct (dc_endpoints c)" by (simp add: list_all_iff)
  with urls_exact [of "rrc_urls raw" c] urls c' fresh have "credential_ok candidates now (rrc_node_id raw) ?cred"
    by (auto simp: credential_ok_def)
  moreover have "set ?m \<subseteq> insert (rrc_node_id raw, ?cred) (set m)"
    by (induction "rrc_node_id raw" ?cred m rule: bt_insert.induct) auto
  ultimately have "\<forall>(node, cred)\<in>set ?m. credential_ok candidates now node cred"
    using Cons.prems(3) by blast
  with Cons.IH [OF rest bt_wf_insert [OF Cons.prems(2)]] show ?case by blast
qed simp

lemma verify_credentials_ok:
  assumes "verify_credentials candidates raws now = Ok m" "sorted_wrt (<) (map dc_node_id candidates)"
    and "list_all (\<lambda>c. distinct (dc_endpoints c)) candidates"
  shows "map fst m = map dc_node_id candidates \<and> (\<forall>(node, cred)\<in>set m. credential_ok candidates now node cred)"
proof -
  from assms(1) have collect: "collect_credentials candidates now [] raws = Ok m"
    and len: "length m = card (set (map dc_node_id candidates))"
    and sub: "set (map fst m) \<subseteq> set (map dc_node_id candidates)"
    by (auto simp: verify_credentials_def guard_Ok list_all_iff)
  from collect_credentials_ok [OF assms(3) collect] have m: "bt_wf m"
    "\<forall>(node, cred)\<in>set m. credential_ok candidates now node cred" by auto
  have "card (set (map fst m)) = length m" using bt_wf_distinct [OF m(1)] by (metis distinct_card length_map)
  with len sub have "set (map fst m) = set (map dc_node_id candidates)" by (intro card_subset_eq) auto
  with m(1) assms(2) have "map fst m = map dc_node_id candidates"
    by (simp add: bt_wf_def strict_sorted_equal)
  with m(2) show ?thesis by simp
qed

text \<open>What a context-verified directory says, in the form the client's checks use it.\<close>

lemma directory_bound:
  assumes "verify_for_context env d keys sid revn digest now = Ok c"
  shows "payload_ok (vd_payload (cv_verified c))"
    "dp_session_id (vd_payload (cv_verified c)) = sid" "dp_policy_revision (vd_payload (cv_verified c)) = revn"
    "dp_intended_peer_digest (vd_payload (cv_verified c)) = digest"
    "now < dp_expires_at_ms (vd_payload (cv_verified c))"
    "\<forall>x\<in>set (dp_candidates (vd_payload (cv_verified c))). now < rr_expires_at_ms (dc_reservation x)"
    "sd_payload d = vd_payload (cv_verified c)"
proof -
  from assms obtain v where v: "directory_verify env d keys sid now = Ok v" "c = \<lparr>cv_verified = v\<rparr>"
    and ctx: "dp_policy_revision (vd_payload v) = revn" "dp_intended_peer_digest (vd_payload v) = digest"
    by (auto simp: verify_for_context_def split: if_splits)
  show "payload_ok (vd_payload (cv_verified c))"
    using v(1) by (rule directory_verify_Ok) (use v(2) in \<open>auto simp: canonical_signing_bytes_Ok\<close>)
  show "dp_session_id (vd_payload (cv_verified c)) = sid" "now < dp_expires_at_ms (vd_payload (cv_verified c))"
    "\<forall>x\<in>set (dp_candidates (vd_payload (cv_verified c))). now < rr_expires_at_ms (dc_reservation x)"
    "sd_payload d = vd_payload (cv_verified c)"
    using v(1) by (rule directory_verify_Ok, use v(2) in simp)+
  show "dp_policy_revision (vd_payload (cv_verified c)) = revn"
    "dp_intended_peer_digest (vd_payload (cv_verified c)) = digest"
    using v(2) ctx by simp_all
qed

lemma payload_ok_endpoints:
  assumes "payload_ok p"
  shows "list_all (\<lambda>c. distinct (dc_endpoints c)) (dp_candidates p)"
proof -
  have "distinct (dc_endpoints c)" if "c \<in> set (dp_candidates p)" for c
  proof -
    have "sorted_wrt (<) (map endpoint_key (dc_endpoints c))"
      using assms that by (simp add: payload_ok_def list_all_iff candidate_ok_def)
    then have "distinct (map endpoint_key (dc_endpoints c))" by (simp add: strict_sorted_iff)
    then show ?thesis by (simp add: distinct_map)
  qed
  then show ?thesis by (simp add: list_all_iff)
qed

text \<open>The binding of an access to the context it was requested for.\<close>

definition access_bound :: "relay_access_context \<Rightarrow> verified_relay_access \<Rightarrow> bool" where
  "access_bound ctx a \<longleftrightarrow>
     dp_session_id (va_payload a) = rx_session_id ctx \<and>
     dp_policy_revision (va_payload a) = rx_policy_revision ctx \<and>
     dp_intended_peer_digest (va_payload a) = rx_peer_digest ctx"

lemma verify_response_obtain:
  assumes "verify_relay_access_response env ctx keys body now = Ok a"
  obtains raw json d where "ax_from_slice env body = Some raw" "length body \<le> 196608"
    "ax_to_vec env (rra_directory raw) = Some json"
    "directory_from_json (ax_directory env) json = Ok d"
    "verify_for_context (ax_directory env) d keys (rx_session_id ctx) (rx_policy_revision ctx)
       (rx_peer_digest ctx) now = Ok (va_directory a)"
    "rra_directory_id raw = dp_directory_id (va_payload a)"
    "verify_credentials (dp_candidates (va_payload a)) (rra_credentials raw) now = Ok (va_credentials a)"
    "check_url_digest (ax_sha256 env) (va_payload a) (va_credentials a) (expected_generation ctx)
       (rra_relay_url_digest raw) = Ok (va_relay_url_digest a)"
    "va_generation a = expected_generation ctx"
  using assms unfolding verify_relay_access_response_def guard_Ok and_then_eq_Ok ok_or_eq_Ok map_err_eq_Ok Let_def
  by (elim exE conjE)
    (rule that, auto simp: MAX_RELAY_ACCESS_JSON_BYTES_def MAX_RELAY_DIRECTORY_JSON_BYTES_def not_less)

lemma check_url_digest_Ok:
  assumes "check_url_digest sha p creds g d = Ok r"
  shows "case g of None \<Rightarrow> r = None
    | Some _ \<Rightarrow> \<exists>c\<in>set (dp_candidates p). \<exists>cred. dc_selection_reason c = ''preferred-region'' \<and>
        map_of creds (dc_node_id c) = Some cred \<and> r = Some (urls_digest sha (tc_urls cred))"
  using assms
  by (auto simp: check_url_digest_def guard_Ok Let_def find_Some_iff split: option.splits)

lemma verified_access_facts:
  fixes env :: "'v access_env"
  assumes "verify_relay_access_response env ctx keys body now = Ok a"
  shows "access_bound ctx a" "va_generation a = expected_generation ctx" "is_fresh a now"
    "map fst (va_credentials a) = map dc_node_id (dp_candidates (va_payload a))"
    "\<forall>(node, cred)\<in>set (va_credentials a). credential_ok (dp_candidates (va_payload a)) now node cred"
proof -
  from assms obtain raw :: "'v raw_relay_access_response" and d where
    dir: "verify_for_context (ax_directory env) d keys (rx_session_id ctx) (rx_policy_revision ctx)
       (rx_peer_digest ctx) now = Ok (va_directory a)"
    and cred: "verify_credentials (dp_candidates (va_payload a)) (rra_credentials raw) now = Ok (va_credentials a)"
    and gen: "va_generation a = expected_generation ctx"
    by (elim verify_response_obtain) blast
  note db = directory_bound [OF dir]
  from db(1) have "sorted_wrt (<) (map dc_node_id (dp_candidates (va_payload a)))" by (simp add: payload_ok_def)
  note creds = verify_credentials_ok [OF cred this payload_ok_endpoints [OF db(1)]]
  then show c: "map fst (va_credentials a) = map dc_node_id (dp_candidates (va_payload a))"
    "\<forall>(node, cred)\<in>set (va_credentials a). credential_ok (dp_candidates (va_payload a)) now node cred" by blast+
  show "access_bound ctx a" "va_generation a = expected_generation ctx"
    using db gen by (simp_all add: access_bound_def)
  show "is_fresh a now"
    using db c(2) by (auto simp: is_fresh_def list_all_iff credential_ok_def)
qed

section \<open>The cache is a least-recently-used list\<close>

definition cache_ok :: "relay_directory_cache \<Rightarrow> bool" where
  "cache_ok c \<longleftrightarrow> hm_wf (lc_entries c) \<and> distinct (lc_order c) \<and>
     set (lc_order c) = fst ` set (lc_entries c) \<and> length (lc_entries c) \<le> lc_capacity c \<and> 0 < lc_capacity c"

text \<open>The specification: the held pairs from least to most recently used.\<close>

definition cache_abs :: "relay_directory_cache \<Rightarrow> (relay_access_context \<times> verified_relay_access) list" where
  "cache_abs c = map (\<lambda>ctx. (ctx, the (map_of (lc_entries c) ctx))) (lc_order c)"

definition lru_remove :: "'k \<Rightarrow> ('k \<times> 'v) list \<Rightarrow> ('k \<times> 'v) list" where
  "lru_remove k xs = filter (\<lambda>e. fst e \<noteq> k) xs"

definition lru_insert :: "nat \<Rightarrow> 'k \<Rightarrow> 'v \<Rightarrow> ('k \<times> 'v) list \<Rightarrow> ('k \<times> 'v) list" where
  "lru_insert n k v xs = (let ys = lru_remove k xs @ [(k, v)] in drop (length ys - n) ys)"

definition lru_get :: "('v \<Rightarrow> bool) \<Rightarrow> 'k \<Rightarrow> ('k \<times> 'v) list \<Rightarrow> ('k \<times> 'v) list \<times> 'v option" where
  "lru_get fresh k xs =
     (case map_of xs k of
        None \<Rightarrow> (xs, None)
      | Some v \<Rightarrow> if fresh v then (lru_remove k xs @ [(k, v)], Some v) else (lru_remove k xs, None))"

text \<open>Invariant of the eviction loop: the order lists the entries, the capacity aside.\<close>

definition cache_listed :: "relay_directory_cache \<Rightarrow> bool" where
  "cache_listed c \<longleftrightarrow> hm_wf (lc_entries c) \<and> distinct (lc_order c) \<and> set (lc_order c) = fst ` set (lc_entries c)"

lemma cache_listed_length: "cache_listed c \<Longrightarrow> length (lc_entries c) = length (lc_order c)"
  unfolding cache_listed_def hm_wf_def by (metis distinct_card length_map set_map)

lemma length_cache_abs [simp]: "length (cache_abs c) = length (lc_order c)"
  by (simp add: cache_abs_def)

lemma map_of_cache_abs:
  assumes "cache_listed c"
  shows "map_of (cache_abs c) = map_of (lc_entries c)"
proof
  fix k
  show "map_of (cache_abs c) k = map_of (lc_entries c) k"
  proof (cases "k \<in> set (lc_order c)")
    case True
    then obtain v where "map_of (lc_entries c) k = Some v"
      using assms by (force simp: cache_listed_def hm_wf_def)
    with True show ?thesis by (simp add: cache_abs_def map_of_map_restrict)
  next
    case False
    then have "map_of (lc_entries c) k = None" using assms by (simp add: cache_listed_def map_of_eq_None_iff)
    with False show ?thesis by (simp add: cache_abs_def map_of_map_restrict)
  qed
qed

lemma keys_delete: "fst ` set (AList.delete k m) = fst ` set m - {k}"
  by (metis delete_keys set_map set_removeAll)

lemma cache_evict_listed:
  assumes "cache_listed c"
  shows "\<exists>c'. cache_evict c = Some c' \<and> cache_listed c' \<and> lc_capacity c' = lc_capacity c \<and>
    cache_abs c' = drop (length (cache_abs c) - lc_capacity c) (cache_abs c)"
  using assms
proof (induction "length (lc_order c)" arbitrary: c)
  case 0
  then have "length (lc_entries c) \<le> lc_capacity c" using cache_listed_length by fastforce
  with 0 show ?case by (simp add: cache_evict.simps)
next
  case (Suc n)
  show ?case
  proof (cases "length (lc_entries c) > lc_capacity c")
    case False
    with Suc cache_listed_length [OF Suc.prems] show ?thesis by (simp add: cache_evict.simps)
  next
    case True
    from Suc(2) obtain k ks where order: "lc_order c = k # ks" by (cases "lc_order c") auto
    let ?c = "c\<lparr>lc_order := ks, lc_entries := AList.delete k (lc_entries c)\<rparr>"
    have listed: "cache_listed ?c"
      using Suc.prems order by (auto simp: cache_listed_def hm.wf_del keys_delete)
    have abs: "cache_abs c = (k, the (map_of (lc_entries c) k)) # cache_abs ?c"
      using Suc.prems order by (auto simp: cache_abs_def cache_listed_def delete_conv')
    have "cache_evict c = cache_evict ?c" using True order by (simp add: cache_evict.simps [of c])
    moreover have "n = length (lc_order ?c)" using Suc(2) order by simp
    ultimately show ?thesis
      using Suc.hyps(1) [OF _ listed] True cache_listed_length [OF Suc.prems] abs order
      by (simp add: Suc_diff_le)
  qed
qed

lemma cache_ok_listed: "cache_ok c \<longleftrightarrow> cache_listed c \<and> length (lc_order c) \<le> lc_capacity c \<and> 0 < lc_capacity c"
  using cache_listed_length by (auto simp: cache_ok_def cache_listed_def)

lemma cache_new_ok: "cache_ok (cache_new n)" "cache_abs (cache_new n) = []"
  by (simp_all add: cache_ok_def cache_new_def cache_abs_def)

lemma cache_remove_ok:
  assumes "cache_ok c"
  shows "cache_ok (cache_remove c ctx)" "cache_abs (cache_remove c ctx) = lru_remove ctx (cache_abs c)"
    "lc_capacity (cache_remove c ctx) = lc_capacity c"
proof -
  have "cache_listed (cache_remove c ctx)"
    using assms by (auto simp: cache_ok_listed cache_listed_def cache_remove_def hm.wf_del keys_delete)
  moreover have "length (lc_order (cache_remove c ctx)) \<le> length (lc_order c)"
    "lc_capacity (cache_remove c ctx) = lc_capacity c"
    by (simp_all add: cache_remove_def)
  ultimately show "cache_ok (cache_remove c ctx)"
    using assms by (simp add: cache_ok_listed)
  show "cache_abs (cache_remove c ctx) = lru_remove ctx (cache_abs c)"
    by (auto simp: cache_abs_def cache_remove_def lru_remove_def filter_map o_def delete_conv')
  show "lc_capacity (cache_remove c ctx) = lc_capacity c" by (simp add: cache_remove_def)
qed

lemma cache_insert_ok:
  assumes "cache_ok c"
  shows "\<exists>c'. cache_insert c ctx a = Some c' \<and> cache_ok c' \<and> lc_capacity c' = lc_capacity c \<and>
    cache_abs c' = lru_insert (lc_capacity c) ctx a (cache_abs c)"
proof -
  let ?c = "cache_touch (c\<lparr>lc_entries := AList.update ctx a (lc_entries c)\<rparr>) ctx"
  have listed: "cache_listed ?c"
    using assms by (auto simp: cache_ok_listed cache_listed_def cache_touch_def hm.wf_ins dom_update)
  have abs: "cache_abs ?c = lru_remove ctx (cache_abs c) @ [(ctx, a)]"
    by (auto simp: cache_abs_def cache_touch_def lru_remove_def filter_map o_def update_conv')
  have cap: "lc_capacity ?c = lc_capacity c" by (simp add: cache_touch_def)
  from cache_evict_listed [OF listed] obtain c' where c': "cache_evict ?c = Some c'" "cache_listed c'"
    "lc_capacity c' = lc_capacity c" "cache_abs c' = lru_insert (lc_capacity c) ctx a (cache_abs c)"
    unfolding abs cap by (auto simp: lru_insert_def Let_def)
  have "length (lc_order c') = length (cache_abs c')" by simp
  also have "\<dots> \<le> lc_capacity c" unfolding c'(4) by (simp add: lru_insert_def Let_def)
  finally have "cache_ok c'" using c' assms by (simp add: cache_ok_listed)
  with c' show ?thesis by (auto simp: cache_insert_def)
qed

lemma cache_get_ok:
  assumes ok: "cache_ok c" and get: "cache_get c ctx now = (c', res)"
  shows "cache_ok c' \<and> lc_capacity c' = lc_capacity c \<and>
    lru_get (\<lambda>a. is_fresh a now) ctx (cache_abs c) = (cache_abs c', res)"
proof (cases "map_of (lc_entries c) ctx")
  case None
  with assms show ?thesis
    by (simp add: cache_get_def lru_get_def map_of_cache_abs cache_ok_listed)
next
  case (Some a)
  then have "ctx \<in> fst ` set (lc_entries c)" by (force dest: map_of_SomeD)
  with ok have "ctx \<in> set (lc_order c)" by (simp add: cache_ok_def)
  then have "cache_ok (cache_touch c ctx)" "cache_abs (cache_touch c ctx) = lru_remove ctx (cache_abs c) @ [(ctx, a)]"
    using ok Some length_filter_less [of ctx "lc_order c" "\<lambda>x. x \<noteq> ctx"]
    by (auto simp: cache_ok_listed cache_listed_def cache_touch_def cache_abs_def lru_remove_def filter_map o_def)
  moreover have "map_of (cache_abs c) ctx = Some a" using Some ok by (simp add: map_of_cache_abs cache_ok_listed)
  moreover have "lc_capacity (cache_touch c ctx) = lc_capacity c" by (simp add: cache_touch_def)
  ultimately show ?thesis
    using get Some cache_remove_ok [OF ok, of ctx]
    by (auto simp: cache_get_def lru_get_def split: if_splits)
qed

section \<open>Runs of the client\<close>

text \<open>
  Contexts come from the three constructors.  Their generation, refresh flag and digest are private;
  the session, policy revision and peer are public, but nothing in the service assigns them.
\<close>

definition context_ok :: "(bytes \<Rightarrow> bytes) \<Rightarrow> relay_access_context \<Rightarrow> bool" where
  "context_ok sha256 ctx \<longleftrightarrow>
     (\<exists>s r p. context_new sha256 s r p = Ok ctx) \<or>
     (\<exists>s r p g. for_generation sha256 s r p g = Ok ctx) \<or> (\<exists>s r p g. for_refresh sha256 s r p g = Ok ctx)"

inductive rc_step ::
  "'v access_env \<Rightarrow> (string, bytes) btree_map \<Rightarrow> relay_directory_cache \<Rightarrow> relay_directory_cache \<Rightarrow> bool"
  for env keys where
  rc_lookup: "context_ok (ax_sha256 env) ctx \<Longrightarrow> cache_get c ctx now = (c', res) \<Longrightarrow> rc_step env keys c c'"
| rc_refresh: "context_ok (ax_sha256 env) ctx \<Longrightarrow>
    client_refresh env keys ctx fetched now c = Some (c', res) \<Longrightarrow> rc_step env keys c c'"

lemma with_generation_Ok:
  "with_generation sha s r p g f = Ok ctx \<longleftrightarrow>
     g \<le> i64_max \<and> (\<exists>c. context_new sha s r p = Ok c \<and> ctx = c\<lparr>rx_generation := Some g, rx_refresh := f\<rparr>)"
  by (auto simp: with_generation_def not_less)

lemma context_new_fields:
  "context_new sha s r p = Ok ctx \<Longrightarrow> rx_session_id ctx = s \<and> rx_policy_revision ctx = r \<and>
     rx_intended_peer_id ctx = p \<and> relay_peer_digest sha p = Ok (rx_peer_digest ctx) \<and>
     rx_generation ctx = None \<and> rx_refresh ctx = None"
  by (auto simp: context_new_def guard_Ok)

lemma for_generation_fields:
  "for_generation sha s r p g = Ok ctx \<Longrightarrow> rx_session_id ctx = s \<and> rx_policy_revision ctx = r \<and>
     rx_intended_peer_id ctx = p \<and> relay_peer_digest sha p = Ok (rx_peer_digest ctx) \<and>
     rx_generation ctx = Some g \<and> rx_refresh ctx = None"
  by (auto simp: for_generation_def with_generation_Ok dest: context_new_fields)

lemma context_ok_digest:
  "context_ok sha ctx \<Longrightarrow> relay_peer_digest sha (rx_intended_peer_id ctx) = Ok (rx_peer_digest ctx)"
  by (auto simp: context_ok_def for_generation_def for_refresh_def with_generation_Ok dest: context_new_fields)

text \<open>What every entry of the cache is, and what a caller may be handed.\<close>

definition entry_ok ::
  "'v access_env \<Rightarrow> (string, bytes) btree_map \<Rightarrow> relay_access_context \<times> verified_relay_access \<Rightarrow> bool" where
  "entry_ok env keys = (\<lambda>(ctx, a). \<not> is_refresh ctx \<and> access_bound ctx a \<and> va_generation a = rx_generation ctx \<and>
     (\<exists>ctx' body t. verify_relay_access_response env ctx' keys body t = Ok a))"

definition client_ok :: "'v access_env \<Rightarrow> (string, bytes) btree_map \<Rightarrow> nat \<Rightarrow> relay_directory_cache \<Rightarrow> bool" where
  "client_ok env keys n c \<longleftrightarrow> cache_ok c \<and> lc_capacity c = n \<and> list_all (entry_ok env keys) (cache_abs c)"

lemma lru_subset:
  "set (lru_remove k xs) \<subseteq> set xs" "set (lru_insert n k v xs) \<subseteq> insert (k, v) (set xs)"
  by (auto simp: lru_remove_def lru_insert_def Let_def dest: in_set_dropD)

lemma lru_get_facts:
  assumes "lru_get fresh k xs = (ys, res)"
  shows "set ys \<subseteq> set xs" and "res = Some v \<Longrightarrow> (k, v) \<in> set xs \<and> fresh v"
proof -
  have "set ys \<subseteq> set xs \<and> (\<forall>v. res = Some v \<longrightarrow> (k, v) \<in> set xs \<and> fresh v)"
  proof (cases "map_of xs k")
    case (Some w)
    from map_of_SomeD [OF this] lru_subset(1) [of k xs] Some assms show ?thesis
      by (cases "fresh w") (auto simp: lru_get_def)
  qed (use assms in \<open>auto simp: lru_get_def\<close>)
  then show "set ys \<subseteq> set xs" and "res = Some v \<Longrightarrow> (k, v) \<in> set xs \<and> fresh v" by blast+
qed

lemma client_get:
  assumes "client_ok env keys n c" "cache_get c ctx now = (c', res)"
  shows "client_ok env keys n c'" and "res = Some a \<Longrightarrow> entry_ok env keys (ctx, a) \<and> is_fresh a now"
proof -
  from assms have ok: "cache_ok c" by (simp add: client_ok_def)
  note get = cache_get_ok [OF ok assms(2)]
  note lru = lru_get_facts [OF conjunct2 [OF conjunct2 [OF get]]]
  show "client_ok env keys n c'"
    using get lru(1) assms(1) by (auto simp: client_ok_def list_all_iff)
  show "res = Some a \<Longrightarrow> entry_ok env keys (ctx, a) \<and> is_fresh a now"
    using lru(2) assms(1) by (auto simp: client_ok_def list_all_iff)
qed

lemma client_remove: "client_ok env keys n c \<Longrightarrow> client_ok env keys n (cache_remove c ctx)"
  using cache_remove_ok [of c ctx] lru_subset(1) [of ctx "cache_abs c"]
  by (auto simp: client_ok_def list_all_iff)

lemma client_insert:
  assumes "client_ok env keys n c" "entry_ok env keys (ctx, a)"
  shows "\<exists>c'. cache_insert c ctx a = Some c' \<and> client_ok env keys n c'"
proof -
  from assms obtain c' where c': "cache_insert c ctx a = Some c'" "cache_ok c'" "lc_capacity c' = n"
    "cache_abs c' = lru_insert n ctx a (cache_abs c)"
    using cache_insert_ok [of c ctx a] by (auto simp: client_ok_def)
  have "entry_ok env keys x" if "x \<in> set (cache_abs c')" for x
    using that lru_subset(2) [of n ctx a "cache_abs c"] assms by (auto simp: c'(4) client_ok_def list_all_iff)
  with c' show ?thesis by (simp add: client_ok_def list_all_iff)
qed

lemma cache_context_entry:
  assumes "verify_relay_access_response env ctx keys body now = Ok a" "context_ok (ax_sha256 env) ctx"
    and "cache_context_of env ctx a = Ok cc"
  shows "entry_ok env keys (cc, a)"
proof (cases "is_refresh ctx")
  case True
  with assms(3) obtain g where g: "va_generation a = Some g"
    "for_generation (ax_sha256 env) (rx_session_id ctx) (rx_policy_revision ctx) (rx_intended_peer_id ctx) g = Ok cc"
    by (auto simp: cache_context_of_def)
  from for_generation_fields [OF g(2)] context_ok_digest [OF assms(2)] g(1)
    verified_access_facts(1) [OF assms(1)] assms(1)
  show ?thesis by (auto simp: entry_ok_def access_bound_def is_refresh_def)
next
  case False
  with assms(3) have cc: "cc = ctx" by (simp add: cache_context_of_def)
  have "expected_generation ctx = rx_generation ctx"
    using False by (simp add: expected_generation_def split: option.split)
  with verified_access_facts(1,2) [OF assms(1)] assms(1) False show ?thesis
    by (auto simp: entry_ok_def cc)
qed

definition served_ok ::
  "'v access_env \<Rightarrow> (string, bytes) btree_map \<Rightarrow> relay_access_context \<Rightarrow> u64 \<Rightarrow> verified_relay_access \<Rightarrow> bool" where
  "served_ok env keys ctx now a \<longleftrightarrow> access_bound ctx a \<and> va_generation a = expected_generation ctx \<and> is_fresh a now \<and>
     (\<exists>ctx' body t. verify_relay_access_response env ctx' keys body t = Ok a)"

lemma entry_served: "entry_ok env keys (ctx, a) \<Longrightarrow> is_fresh a now \<Longrightarrow> served_ok env keys ctx now a"
  by (auto simp: entry_ok_def served_ok_def expected_generation_def split: option.split)

lemma client_refresh_ok:
  assumes ok: "client_ok env keys n c" and ctx: "context_ok (ax_sha256 env) ctx"
  shows "\<exists>c' res. client_refresh env keys ctx fetched now c = Some (c', res) \<and> client_ok env keys n c' \<and>
    (\<forall>a. res = Ok a \<longrightarrow> served_ok env keys ctx now a)"
proof (cases fetched)
  case (Inl e)
  obtain c1 r1 where get: "cache_get c ctx now = (c1, r1)" by (meson surj_pair)
  show ?thesis
    using client_get [OF ok get] client_remove [OF ok] get entry_served Inl
    by (cases e) (auto simp: client_refresh_def)
next
  case (Inr body)
  show ?thesis
  proof (cases "verify_relay_access_response env ctx keys body now")
    case (Inl e)
    with Inr client_remove [OF ok] show ?thesis by (simp add: client_refresh_def)
  next
    case v: (Inr a)
    have served: "served_ok env keys ctx now a"
      using verified_access_facts(1,2,3) [OF v] v by (auto simp: served_ok_def)
    show ?thesis
    proof (cases "cache_context_of env ctx a")
      case (Inl e)
      with Inr v ok show ?thesis by (simp add: client_refresh_def)
    next
      case cc: (Inr cc)
      from client_insert [OF client_remove [OF ok] cache_context_entry [OF v ctx cc]]
      show ?thesis using Inr v cc served by (force simp: client_refresh_def)
    qed
  qed
qed

interpretation rc: state_invariant "\<lambda>c. c = cache_new n" "rc_step env keys" "client_ok env keys (max n 1)"
  for n and env :: "'v access_env" and keys
proof unfold_locales
  fix c c' :: relay_directory_cache
  show "client_ok env keys (max n 1) c" if "c = cache_new n"
    using cache_new_ok [of n] by (simp add: that client_ok_def) (simp add: cache_new_def)
  show "client_ok env keys (max n 1) c'" if "rc_step env keys c c'" "client_ok env keys (max n 1) c"
    using that
  proof (cases rule: rc_step.cases)
    case (rc_refresh ctx fetched now res)
    with client_refresh_ok [OF that(2) rc_refresh(1), of fetched now] show ?thesis by auto
  qed (auto dest: client_get(1))
qed

section \<open>Properties\<close>

text \<open>
  C20. What an accepted relay-access response guarantees.  Its directory is signed by a trusted
  key and bound to the session, the policy revision and the peer of the request; the
  generation is the requested one, or the next one for a refresh; there are credentials for
  exactly the directory's relays, in the same order, and the URLs of each are exactly the
  TURN URLs of the signed endpoints of that relay, so no unsigned server can be smuggled in;
  nothing in it has expired; and with a generation the primary relay's URLs have the announced
  digest.
\<close>

theorem relay_access_response_sound:
  assumes "verify_relay_access_response env ctx keys body now = Ok a"
  shows "(\<exists>d. verify_for_context (ax_directory env) d keys (rx_session_id ctx) (rx_policy_revision ctx)
        (rx_peer_digest ctx) now = Ok (va_directory a) \<and> sd_payload d = va_payload a) \<and>
    va_generation a = expected_generation ctx \<and>
    map fst (va_credentials a) = map dc_node_id (dp_candidates (va_payload a)) \<and>
    (\<forall>(node, cred)\<in>set (va_credentials a). \<exists>c\<in>set (dp_candidates (va_payload a)). dc_node_id c = node \<and>
       distinct (tc_urls cred) \<and> set (tc_urls cred) = {u. \<exists>e\<in>set (dc_endpoints c). turn_url e = Ok u}) \<and>
    is_fresh a now \<and>
    (case va_generation a of
       None \<Rightarrow> va_relay_url_digest a = None
     | Some _ \<Rightarrow> \<exists>c\<in>set (dp_candidates (va_payload a)). \<exists>cred. dc_selection_reason c = ''preferred-region'' \<and>
         map_of (va_credentials a) (dc_node_id c) = Some cred \<and>
         va_relay_url_digest a = Some (urls_digest (ax_sha256 env) (tc_urls cred)))"
proof -
  note facts = verified_access_facts [OF assms]
  have dir: "\<exists>d. verify_for_context (ax_directory env) d keys (rx_session_id ctx) (rx_policy_revision ctx)
        (rx_peer_digest ctx) now = Ok (va_directory a) \<and> sd_payload d = va_payload a"
    using assms by (elim verify_response_obtain) (blast dest: directory_bound(7))
  have digest: "case va_generation a of None \<Rightarrow> va_relay_url_digest a = None
     | Some _ \<Rightarrow> \<exists>c\<in>set (dp_candidates (va_payload a)). \<exists>cred. dc_selection_reason c = ''preferred-region'' \<and>
         map_of (va_credentials a) (dc_node_id c) = Some cred \<and>
         va_relay_url_digest a = Some (urls_digest (ax_sha256 env) (tc_urls cred))"
    using assms by (elim verify_response_obtain) (use check_url_digest_Ok in simp)
  from dir digest facts(2-5) show ?thesis
    by (auto simp: credential_ok_def endpoint_urls_def split: prod.splits)
qed

text \<open>A response for one relay, with stand-ins for the decoder and the cryptography.\<close>

definition demo_access_payload :: raw_payload where
  "demo_access_payload = \<lparr>raw_format_version = 1, raw_policy_revision = 5, raw_directory_id = ''d'',
     raw_issued_at_ms = 10, raw_expires_at_ms = 9000, raw_session_id = ''s'',
     raw_intended_peer_digest = ''peer-sha256-'',
     raw_candidates = [\<lparr>raw_node_id = ''n'', raw_region = ''r'', raw_failure_domain = ''f'',
       raw_endpoints = [\<lparr>raw_transport = RawUdp, raw_host = ''h'', raw_port = 3478\<rparr>],
       raw_capabilities = 0, raw_load_class = 1, raw_selection_reason = ''preferred-region'',
       raw_reservation = \<lparr>raw_reservation_id = ''x'', raw_reservation_expires_at_ms = 8000\<rparr>\<rparr>]\<rparr>"

definition demo_access_env :: "bytes access_env" where
  "demo_access_env = \<lparr>ax_sha256 = (\<lambda>_. []),
     ax_from_slice = (\<lambda>body. Some \<lparr>rra_generation = None, rra_directory_id = ''d'', rra_relay_url_digest = None,
       rra_directory = body, rra_credentials = [\<lparr>rrc_node_id = ''n'', rrc_urls = [''turn:h:3478?transport=udp''],
         rrc_username = ''u'', rrc_credential = ''c'', rrc_expires_at_unix_seconds = 7\<rparr>]\<rparr>),
     ax_to_vec = Some,
     ax_directory = sample_env\<lparr>env_from_slice := (\<lambda>_. Some \<lparr>raw_payload = demo_access_payload,
       raw_signing_key_id = ''k'', raw_signature_b64 = ''AA''\<rparr>)\<rparr>\<rparr>"

definition demo_access_context :: relay_access_context where
  "demo_access_context = \<lparr>rx_session_id = ''s'', rx_policy_revision = 5, rx_intended_peer_id = ''p'',
     rx_generation = None, rx_refresh = None, rx_peer_digest = ''peer-sha256-''\<rparr>"

abbreviation demo_keys :: "(string, bytes) btree_map" where
  "demo_keys \<equiv> [(''k'', replicate 32 0)]"

lemmas demo_raw_defs = demo_access_payload_def from_raw_payload_def from_raw_candidate_def
  from_raw_endpoint_def from_raw_reservation_def

definition demo_credentials :: "(string, turn_relay_credentials) btree_map" where
  "demo_credentials = [(''n'', \<lparr>tc_urls = [''turn:h:3478?transport=udp''], tc_username = ''u'', tc_credential = ''c'',
     tc_expires_at_unix_seconds = 7\<rparr>)]"

lemma demo_access_value:
  "\<exists>b. verify_relay_access_response demo_access_env demo_access_context demo_keys [] 1000 =
     Ok \<lparr>va_directory = \<lparr>cv_verified = \<lparr>vd_payload = from_raw_payload demo_access_payload,
           vd_canonical_signing_bytes = b\<rparr>\<rparr>,
         va_credentials = demo_credentials, va_generation = None, va_relay_url_digest = None\<rparr>"
proof -
  let ?p = "from_raw_payload demo_access_payload"
  let ?env = "ax_directory demo_access_env"
  have "payload_ok ?p"
    by (simp add: payload_ok_def candidate_ok_def endpoint_ok_def string_ok_def demo_raw_defs word_le_nat_alt
        word_less_nat_alt)
  moreover have "length (RELAY_DIRECTORY_CONTEXT @ payload_code ?p) \<le> 16384"
    by (simp add: payload_code_def candidate_code_def endpoint_code_def RELAY_DIRECTORY_CONTEXT_def demo_raw_defs)
  ultimately obtain b where b: "canonical_signing_bytes ?p = Ok b" by (auto simp: canonical_signing_bytes_Ok)
  have sig: "decode_signature ?env ''AA'' = Ok []" "env_key_ok ?env k" "env_verify_strict ?env k m []" for k m
    by (simp_all add: decode_signature_def demo_access_env_def sample_env_def)
  let ?d = "\<lparr>sd_payload = ?p, sd_signing_key_id = ''k'', sd_signature_b64 = ''AA''\<rparr>"
  let ?v = "\<lparr>cv_verified = \<lparr>vd_payload = ?p, vd_canonical_signing_bytes = b\<rparr>\<rparr>"
  have d: "directory_from_json ?env [] = Ok ?d"
    using b sig by (simp add: directory_from_json_def string_ok_def Let_def)
      (simp add: demo_access_env_def from_raw_signed_def)
  have v: "verify_for_context ?env ?d demo_keys ''s'' 5 ''peer-sha256-'' 1000 = Ok ?v"
    using b sig by (simp add: verify_for_context_def directory_verify_def string_ok_def)
      (simp add: demo_raw_defs word_less_nat_alt)
  have c: "verify_credentials (dp_candidates ?p) [\<lparr>rrc_node_id = ''n'', rrc_urls = [''turn:h:3478?transport=udp''],
      rrc_username = ''u'', rrc_credential = ''c'', rrc_expires_at_unix_seconds = 7\<rparr>] 1000 = Ok demo_credentials"
    by code_simp
  have id: "dp_directory_id ?p = ''d''" by (simp add: demo_raw_defs)
  from d v c id show ?thesis
    by (simp add: verify_relay_access_response_def demo_access_env_def demo_access_context_def
        expected_generation_def check_url_digest_def MAX_CREDENTIALS_def Let_def)
qed

lemma demo_access_verified:
  "is_ok (verify_relay_access_response demo_access_env demo_access_context demo_keys [] 1000)"
  "context_ok (ax_sha256 demo_access_env) demo_access_context"
proof -
  show "is_ok (verify_relay_access_response demo_access_env demo_access_context demo_keys [] 1000)"
    using demo_access_value by auto
  have "context_new (ax_sha256 demo_access_env) ''s'' 5 ''p'' = Ok demo_access_context" by code_simp
  then show "context_ok (ax_sha256 demo_access_env) demo_access_context" by (auto simp: context_ok_def)
qed

theorem relay_access_response_sound_witness:
  "\<exists>a. verify_relay_access_response demo_access_env demo_access_context demo_keys [] 1000 = Ok a \<and>
     is_fresh a 1000 \<and> map fst (va_credentials a) = map dc_node_id (dp_candidates (va_payload a))"
proof -
  obtain a where a: "verify_relay_access_response demo_access_env demo_access_context demo_keys [] 1000 = Ok a"
    using demo_access_verified(1) by (auto simp: is_ok_iff)
  from relay_access_response_sound [OF a] a show ?thesis by blast
qed

text \<open>
  C23. The cache refines a least-recently-used list.  In every state the client reaches, by any
  lookups and refreshes of any callers, the eviction loop of an insertion ends, the result
  holds the new entry as the most recent one followed backwards by the others in order of
  use, cut to the capacity; a lookup returns a fresh entry and makes it the most recent one,
  and drops a stale one; the cache never holds more than its capacity.
\<close>

theorem relay_cache_refines_lru:
  assumes "(rc_step env keys)\<^sup>*\<^sup>* (cache_new n) c"
  shows "(\<exists>c'. cache_insert c ctx a = Some c' \<and>
      cache_abs c' = lru_insert (max n 1) ctx a (cache_abs c) \<and> map_of (lc_entries c') ctx = Some a) \<and>
    (case cache_get c ctx now of (c', res) \<Rightarrow>
      lru_get (\<lambda>a. is_fresh a now) ctx (cache_abs c) = (cache_abs c', res)) \<and>
    cache_abs (cache_remove c ctx) = lru_remove ctx (cache_abs c) \<and>
    length (lc_entries c) \<le> max n 1"
proof -
  from rc.reachable_inv [OF refl assms] have ok: "cache_ok c" "lc_capacity c = max n 1"
    by (simp_all add: client_ok_def)
  from cache_insert_ok [OF ok(1), of ctx a] obtain c' where c': "cache_insert c ctx a = Some c'" "cache_ok c'"
    "cache_abs c' = lru_insert (max n 1) ctx a (cache_abs c)" unfolding ok(2) by blast
  have "(ctx, a) \<in> set (cache_abs c')"
    by (cases "n = 0") (simp_all add: c'(3) lru_insert_def Let_def drop_append max_def Suc_diff_le)
  moreover have "distinct (map fst (cache_abs c'))"
    using c'(2) by (simp add: cache_ok_def cache_abs_def o_def)
  ultimately have "map_of (lc_entries c') ctx = Some a"
    using map_of_cache_abs [of c'] c'(2) by (metis cache_ok_listed map_of_eq_Some_iff)
  with c' ok cache_remove_ok(2) [OF ok(1)] cache_get_ok [OF ok(1), of ctx now] show ?thesis
    by (auto simp: cache_ok_def split: prod.split)
qed

definition demo_cache :: relay_directory_cache where
  "demo_cache = fst (the (client_refresh demo_access_env demo_keys demo_access_context (Ok []) 1000 (cache_new 2)))"

lemma demo_cache_reachable: "(rc_step demo_access_env demo_keys)\<^sup>*\<^sup>* (cache_new 2) demo_cache"
proof -
  note rc.start_inv [OF refl, of demo_access_env demo_keys 2]
  from client_refresh_ok [OF this demo_access_verified(2), of "Ok []" 1000]
  obtain c' res where "client_refresh demo_access_env demo_keys demo_access_context (Ok []) 1000 (cache_new 2) = Some (c', res)"
    by blast
  with rc_refresh [OF demo_access_verified(2) this] show ?thesis by (simp add: demo_cache_def)
qed

theorem relay_cache_refines_lru_witness:
  "let ctx = demo_access_context\<lparr>rx_generation := Some 1\<rparr>;
       a = projr (verify_relay_access_response demo_access_env demo_access_context demo_keys [] 1000)
   in \<exists>c'. cache_insert demo_cache ctx a = Some c' \<and> map_of (lc_entries c') ctx = Some a"
  using relay_cache_refines_lru [OF demo_cache_reachable, of "demo_access_context\<lparr>rx_generation := Some 1\<rparr>"]
  by (auto simp: Let_def)

text \<open>
  C29. What the client hands out.  In every state it reaches, a refresh returns (the eviction
  loop cannot spin) and keeps the cache within its capacity; whatever a lookup or a refresh
  returns, from the backend or from the cache when the backend is unavailable, was accepted
  by the verification, is bound to the session, policy revision, peer and generation of the
  caller's context, and was fresh at the time the client read.
\<close>

theorem relay_client_serves_verified:
  assumes reach: "(rc_step env keys)\<^sup>*\<^sup>* (cache_new n) c" and ctx: "context_ok (ax_sha256 env) ctx"
    and others: "\<And>c. (rc_step env keys)\<^sup>*\<^sup>* c (meanwhile c)"
  shows "\<exists>c' res. client_access env keys ctx now meanwhile fetched now' c = Some (c', res) \<and>
    length (lc_entries c') \<le> max n 1 \<and>
    (\<forall>a. res = Ok a \<longrightarrow> access_bound ctx a \<and> va_generation a = expected_generation ctx \<and>
       (is_fresh a now \<or> is_fresh a now') \<and>
       (\<exists>ctx' body t. verify_relay_access_response env ctx' keys body t = Ok a))"
proof -
  note ok = rc.reachable_inv [OF refl reach]
  obtain c1 r1 where get: "cache_get c ctx now = (c1, r1)" by (meson surj_pair)
  note g = client_get [OF ok get]
  show ?thesis
  proof (cases r1)
    case (Some a)
    from g(2) [OF this] have "served_ok env keys ctx now a" by (auto intro: entry_served)
    with Some get g(1) show ?thesis
      by (auto simp: client_access_def served_ok_def client_ok_def cache_ok_def)
  next
    case None
    from rc.steps_inv [OF others g(1)] have "client_ok env keys (max n 1) (meanwhile c1)" .
    from client_refresh_ok [OF this ctx, of fetched now'] None get show ?thesis
      by (auto simp: client_access_def served_ok_def client_ok_def cache_ok_def)
  qed
qed

theorem relay_client_serves_verified_witness:
  "\<exists>c' res. client_access demo_access_env demo_keys demo_access_context 1000 (\<lambda>c. c)
     (Err BeUnavailable) 1000 demo_cache = Some (c', res) \<and> length (lc_entries c') \<le> 2"
  using relay_client_serves_verified [OF demo_cache_reachable demo_access_verified(2), of "\<lambda>c. c" 1000 "Err BeUnavailable" 1000]
  by auto

end
