(* ===== verification/Relay_Failover.thy ===== *)
theory Relay_Failover
  imports Relay_Access Session_Grant
begin

text \<open>
  The relay failover coordinator (\<open>mrd-service/src/relay/migration.rs\<close>).  Its table of sessions
  is guarded by one lock that is never held across an await, so every locked block is a
  function of the table, and a call is a task that goes through its stages one at a time
  while other calls, cancellation guards and spawned thaw and cleanup tasks run in between.
  What the coordinator only calls, the relay client, the migration executor and the transport
  multiplexer, answers arbitrarily; the executor calls that were answered are recorded.  The input barrier
  is the set of frozen sessions: a freeze marks the session even when it fails
  (\<open>Control_Input\<close> shows this of the registry behind it).  The peer configuration handed to the
  executor, the value a call finally hands back to its caller and the panic of a spawned task
  are left out.
\<close>

section \<open>Data\<close>

datatype relay_connection_health = HConnected | HDisconnected | HFailed

datatype relay_terminal_security_reason =
    GrantExpired | PolicyChanged | RelayRevoked | SignatureInvalid | IdentityMismatch
  | RouteEvidenceMismatch | InputSafetyFailure

datatype relay_migration_failure_code =
    FcBackendUnavailable | FcSignalingUnavailable | FcTransportUnavailable
  | FcNoDifferentFailureDomain | FcInputSafetyFailure | FcSecurityViolation

record relay_migration_failure =
  mf_code :: relay_migration_failure_code
  mf_terminal_security :: bool

record relay_migration_attempt =
  ma_session_id :: session_id
  ma_generation :: u64
  ma_route_evidence :: relay_route_evidence

record relay_migration_offer =
  mo_peer_device_id :: string
  mo_peer_key_id :: string
  mo_session_id :: session_id
  mo_generation :: u64
  mo_directory_id :: string
  mo_node_id :: string
  mo_sdp :: string
  mo_restart_route_token :: string
  mo_candidate_fingerprints :: "string list"

record 'm relay_migration_commit =
  mc_generation :: u64
  mc_route_evidence :: relay_route_evidence
  mc_mux :: 'm

text \<open>What \<open>route_snapshot\<close> of a multiplexer tells.\<close>

record mux_route =
  mx_session_id :: session_id
  mx_closed :: bool

datatype relay_recovery_outcome =
    OcHealthy | OcGrace u64 | OcInProgress u64 | OcSuppressedStaleHealth u64 u64
  | OcMigrated relay_route_evidence | OcRetryable relay_migration_failure_code
  | OcSuppressedLate u64 | OcTerminal relay_terminal_security_reason

datatype relay_migration_phase = PhIdle | PhPlanning u64 | PhInFlight u64 | PhTerminal

datatype relay_failover_config_error =
    FeInvalidGrace | FeContextMismatch | FeActiveNodeMissing | FeMuxMismatch
  | FeActiveRelayEvidenceMismatch | FeAccessExpired | FeDuplicateSession | FeSessionMissing
  | FeGenerationExhausted | FeTerminalCleanupFailed

text \<open>\<open>terminal_cleanup\<close> is the receiver of the cleanup's completion, with the value last sent.\<close>

record 'm relay_session_state =
  fs_context :: relay_access_context
  fs_latest_access :: verified_relay_access
  fs_active_directory_id :: string
  fs_active_node_id :: string
  fs_active_failure_domain :: string
  fs_generation :: u64
  fs_highest_attempted_generation :: u64
  fs_health :: relay_connection_health
  fs_disconnected_at_ms :: "u64 option"
  fs_phase :: relay_migration_phase
  fs_terminal_reason :: "relay_terminal_security_reason option"
  fs_terminal_cleanup :: "bool option"
  fs_active_mux :: 'm

type_synonym 'm sessions = "session_id \<rightharpoonup> 'm relay_session_state"

definition terminal_reason_for_client_error :: "relay_client_error \<Rightarrow> relay_terminal_security_reason" where
  "terminal_reason_for_client_error error =
     (case error of
        Unauthorized \<Rightarrow> GrantExpired
      | InvalidContext \<Rightarrow> IdentityMismatch
      | InvalidResponse \<Rightarrow> RouteEvidenceMismatch
      | CredentialBinding \<Rightarrow> RouteEvidenceMismatch
      | Directory e \<Rightarrow>
          (case e of
             InvalidPolicyRevision \<Rightarrow> PolicyChanged
           | PolicyRevisionMismatch _ _ \<Rightarrow> PolicyChanged
           | DirPeerBindingMismatch \<Rightarrow> IdentityMismatch
           | SessionMismatch \<Rightarrow> IdentityMismatch
           | DirExpired \<Rightarrow> GrantExpired
           | ReservationExpired \<Rightarrow> GrantExpired
           | UntrustedSigningKey \<Rightarrow> SignatureInvalid
           | InvalidPublicKey \<Rightarrow> SignatureInvalid
           | InvalidSignatureEncoding \<Rightarrow> SignatureInvalid
           | DirInvalidSignature \<Rightarrow> SignatureInvalid
           | _ \<Rightarrow> RouteEvidenceMismatch)
      | BackendUnavailable \<Rightarrow> RouteEvidenceMismatch)"

section \<open>Locked blocks\<close>

definition coordinator_new :: "nat \<Rightarrow> (u64, relay_failover_config_error) result" where
  "coordinator_new grace_ms =
     (if grace_ms < 100 \<or> grace_ms > 60000 then Err FeInvalidGrace else Ok (of_nat grace_ms))"

definition initial_session ::
  "relay_access_context \<Rightarrow> verified_relay_access \<Rightarrow> relay_directory_candidate \<Rightarrow> 'm \<Rightarrow> bool
   \<Rightarrow> 'm relay_session_state" where
  "initial_session ctx access active active_mux initial_direct =
     \<lparr>fs_context = ctx, fs_latest_access = access,
      fs_active_directory_id = dp_directory_id (va_payload access),
      fs_active_node_id = (if initial_direct then [] else dc_node_id active),
      fs_active_failure_domain = (if initial_direct then [] else dc_failure_domain active),
      fs_generation = 0, fs_highest_attempted_generation = 0, fs_health = HConnected,
      fs_disconnected_at_ms = None, fs_phase = PhIdle, fs_terminal_reason = None,
      fs_terminal_cleanup = None, fs_active_mux = active_mux\<rparr>"

definition install_session_inner ::
  "relay_access_context \<Rightarrow> verified_relay_access \<Rightarrow> string \<Rightarrow> 'm \<Rightarrow> mux_route \<Rightarrow> u64 \<Rightarrow> bool
   \<Rightarrow> 'm sessions \<Rightarrow> 'm sessions \<times> (unit, relay_failover_config_error) result" where
  "install_session_inner ctx access active_node_id active_mux route now_ms initial_direct sessions =
     (let payload = va_payload access in
      if dp_session_id payload \<noteq> rx_session_id ctx \<or> dp_policy_revision payload \<noteq> rx_policy_revision ctx
        \<or> dp_intended_peer_digest payload \<noteq> rx_peer_digest ctx
      then (sessions, Err FeContextMismatch)
      else case find (\<lambda>c. dc_node_id c = active_node_id) (dp_candidates payload) of
        None \<Rightarrow> (sessions, Err FeActiveNodeMissing)
      | Some active \<Rightarrow>
          if map_of (va_credentials access) active_node_id = None then (sessions, Err FeActiveNodeMissing)
          else if mx_session_id route \<noteq> rx_session_id ctx \<or> mx_closed route then (sessions, Err FeMuxMismatch)
          else if \<not> is_fresh access now_ms then (sessions, Err FeAccessExpired)
          else if sessions (rx_session_id ctx) \<noteq> None then (sessions, Err FeDuplicateSession)
          else (sessions(rx_session_id ctx \<mapsto> initial_session ctx access active active_mux initial_direct), Ok ()))"

definition install_verified_session ::
  "(bytes \<Rightarrow> bytes) \<Rightarrow> relay_access_context \<Rightarrow> verified_relay_access \<Rightarrow> string
   \<Rightarrow> relay_route_evidence \<times> bool \<Rightarrow> 'm \<Rightarrow> mux_route \<Rightarrow> u64
   \<Rightarrow> 'm sessions \<Rightarrow> 'm sessions \<times> (unit, relay_failover_config_error) result" where
  "install_verified_session sha256 ctx access active_node_id evidence active_mux route now_ms sessions =
     (case route_evidence sha256 access active_node_id 0 of
        Err _ \<Rightarrow> (sessions, Err FeActiveRelayEvidenceMismatch)
      | Ok expected \<Rightarrow>
          if fst evidence \<noteq> expected then (sessions, Err FeActiveRelayEvidenceMismatch)
          else install_session_inner ctx access active_node_id active_mux route now_ms
                 (\<not> snd evidence) sessions)"

text \<open>What a call carries away from its first locked block.\<close>

record recovery_plan =
  rp_session_id :: session_id
  rp_generation :: u64
  rp_context :: relay_access_context
  rp_cached_access :: verified_relay_access
  rp_active_node_id :: string
  rp_active_failure_domain :: string

datatype first_block = Answered "(relay_recovery_outcome, relay_failover_config_error) result" | Planned recovery_plan

definition plan_of :: "session_id \<Rightarrow> u64 \<Rightarrow> 'm relay_session_state \<Rightarrow> recovery_plan" where
  "plan_of sid generation state =
     \<lparr>rp_session_id = sid, rp_generation = generation, rp_context = fs_context state,
      rp_cached_access = fs_latest_access state, rp_active_node_id = fs_active_node_id state,
      rp_active_failure_domain = fs_active_failure_domain state\<rparr>"

definition observe_health_begin ::
  "u64 \<Rightarrow> u64 \<Rightarrow> session_id \<Rightarrow> u64 \<Rightarrow> relay_connection_health \<Rightarrow> 'm sessions \<Rightarrow> 'm sessions \<times> first_block" where
  "observe_health_begin grace_ms now_ms sid observed_generation health sessions =
     (case sessions sid of
        None \<Rightarrow> (sessions, Answered (Err FeSessionMissing))
      | Some state \<Rightarrow>
     (case fs_terminal_reason state of
        Some reason \<Rightarrow> (sessions, Answered (Ok (OcTerminal reason)))
      | None \<Rightarrow>
      if observed_generation \<noteq> fs_generation state
      then (sessions, Answered (Ok (OcSuppressedStaleHealth observed_generation (fs_generation state))))
      else
      let state = state\<lparr>fs_health := health\<rparr> in
      if health = HConnected
      then (sessions(sid \<mapsto> state\<lparr>fs_disconnected_at_ms := None\<rparr>), Answered (Ok OcHealthy))
      else case fs_phase state of
        PhPlanning generation \<Rightarrow> (sessions(sid \<mapsto> state), Answered (Ok (OcInProgress generation)))
      | PhInFlight generation \<Rightarrow> (sessions(sid \<mapsto> state), Answered (Ok (OcInProgress generation)))
      | _ \<Rightarrow>
      let disconnected_at = (case fs_disconnected_at_ms state of Some t \<Rightarrow> t | None \<Rightarrow> now_ms);
          retry_at_ms = saturating_add disconnected_at grace_ms;
          state = state\<lparr>fs_disconnected_at_ms := if health = HDisconnected then Some disconnected_at else None\<rparr>
      in
      if health = HDisconnected \<and> now_ms < retry_at_ms
      then (sessions(sid \<mapsto> state), Answered (Ok (OcGrace retry_at_ms)))
      else case checked_add (fs_highest_attempted_generation state) 1 of
        None \<Rightarrow> (sessions(sid \<mapsto> state), Answered (Err FeGenerationExhausted))
      | Some generation \<Rightarrow>
          (sessions(sid \<mapsto> state\<lparr>fs_phase := PhPlanning generation\<rparr>),
           Planned (plan_of sid generation state))))"

definition accept_offer_begin ::
  "relay_migration_offer \<Rightarrow> 'm sessions \<Rightarrow> 'm sessions \<times> first_block" where
  "accept_offer_begin offer sessions =
     (case sessions (mo_session_id offer) of
        None \<Rightarrow> (sessions, Answered (Err FeSessionMissing))
      | Some state \<Rightarrow>
     (case fs_terminal_reason state of
        Some reason \<Rightarrow> (sessions, Answered (Ok (OcTerminal reason)))
      | None \<Rightarrow>
     (case fs_phase state of
        PhPlanning generation \<Rightarrow> (sessions, Answered (Ok (OcInProgress generation)))
      | PhInFlight generation \<Rightarrow> (sessions, Answered (Ok (OcInProgress generation)))
      | PhTerminal \<Rightarrow> (sessions, Answered (Ok (OcInProgress (fs_highest_attempted_generation state))))
      | PhIdle \<Rightarrow>
     (case checked_add (fs_highest_attempted_generation state) 1 of
        None \<Rightarrow> (sessions, Answered (Err FeGenerationExhausted))
      | Some expected \<Rightarrow>
          if mo_generation offer \<noteq> expected
          then (sessions, Answered (Ok (OcSuppressedLate (mo_generation offer))))
          else (sessions(mo_session_id offer \<mapsto> state\<lparr>fs_phase := PhPlanning (mo_generation offer)\<rparr>),
                Planned (plan_of (mo_session_id offer) (mo_generation offer) state))))))"

text \<open>The part between the first and the second locked block: which relay to try.\<close>

datatype decision =
    DcError relay_failover_config_error | DcTerminal relay_terminal_security_reason
  | DcRetry relay_migration_failure_code | DcAttempt verified_relay_access relay_migration_attempt

definition refresh_context_of ::
  "(bytes \<Rightarrow> bytes) \<Rightarrow> recovery_plan \<Rightarrow> (relay_access_context, relay_failover_config_error) result" where
  "refresh_context_of sha256 plan =
     and_then (ok_or FeContextMismatch (checked_sub (rp_generation plan) 1)) (\<lambda>previous.
       map_err (\<lambda>_. FeContextMismatch)
         (for_refresh sha256 (rx_session_id (rp_context plan)) (rx_policy_revision (rp_context plan))
           (rx_intended_peer_id (rp_context plan)) previous))"

definition choose_access ::
  "recovery_plan \<Rightarrow> (verified_relay_access, relay_client_error) result \<Rightarrow> u64
   \<Rightarrow> (verified_relay_access, decision) result" where
  "choose_access plan refreshed now_ms =
     (case refreshed of
        Ok access \<Rightarrow> Ok access
      | Err error \<Rightarrow>
          if error = BackendUnavailable \<and> is_fresh (rp_cached_access plan) now_ms
          then Ok (rp_cached_access plan)
          else if is_terminal_security error
          then Err (DcTerminal (terminal_reason_for_client_error error))
          else Err (DcRetry FcBackendUnavailable))"

definition attempt_of :: "recovery_plan \<Rightarrow> relay_route_evidence \<Rightarrow> relay_migration_attempt" where
  "attempt_of plan evidence =
     \<lparr>ma_session_id = rp_session_id plan, ma_generation = rp_generation plan, ma_route_evidence = evidence\<rparr>"

definition recover_choose ::
  "(bytes \<Rightarrow> bytes) \<Rightarrow> recovery_plan \<Rightarrow> (verified_relay_access, relay_client_error) result \<Rightarrow> u64 \<Rightarrow> decision" where
  "recover_choose sha256 plan refreshed now_ms =
     (case refresh_context_of sha256 plan of
        Err e \<Rightarrow> DcError e
      | Ok _ \<Rightarrow>
     (case choose_access plan refreshed now_ms of
        Err d \<Rightarrow> d
      | Ok access \<Rightarrow>
     (case find (\<lambda>c. dc_node_id c \<noteq> rp_active_node_id plan \<and>
              dc_failure_domain c \<noteq> rp_active_failure_domain plan \<and>
              map_of (va_credentials access) (dc_node_id c) \<noteq> None) (dp_candidates (va_payload access)) of
        None \<Rightarrow> DcRetry FcNoDifferentFailureDomain
      | Some candidate \<Rightarrow>
          if map_of (va_credentials access) (dc_node_id candidate) = None then DcError FeActiveNodeMissing
          else case route_evidence sha256 access (dc_node_id candidate) (rp_generation plan) of
            Err _ \<Rightarrow> DcError FeContextMismatch
          | Ok evidence \<Rightarrow> DcAttempt access (attempt_of plan evidence))))"

definition offer_choose ::
  "(bytes \<Rightarrow> bytes) \<Rightarrow> relay_migration_offer \<Rightarrow> recovery_plan \<Rightarrow> (verified_relay_access, relay_client_error) result
   \<Rightarrow> u64 \<Rightarrow> decision" where
  "offer_choose sha256 offer plan refreshed now_ms =
     (case refresh_context_of sha256 plan of
        Err e \<Rightarrow> DcError e
      | Ok _ \<Rightarrow>
     (case choose_access plan refreshed now_ms of
        Err d \<Rightarrow> d
      | Ok access \<Rightarrow>
          if dp_directory_id (va_payload access) \<noteq> mo_directory_id offer then DcTerminal RouteEvidenceMismatch
          else case find (\<lambda>c. dc_node_id c = mo_node_id offer) (dp_candidates (va_payload access)) of
            None \<Rightarrow> DcTerminal RouteEvidenceMismatch
          | Some candidate \<Rightarrow>
              if dc_failure_domain candidate = rp_active_failure_domain plan
              then DcTerminal RouteEvidenceMismatch
              else if map_of (va_credentials access) (mo_node_id offer) = None
              then DcTerminal RouteEvidenceMismatch
              else case route_evidence sha256 access (mo_node_id offer) (rp_generation plan) of
                Err _ \<Rightarrow> DcTerminal RouteEvidenceMismatch
              | Ok evidence \<Rightarrow> DcAttempt access (attempt_of plan evidence)))"

text \<open>
  The second locked block: the attempt goes in flight.  The value says whether it did;
  \<open>None\<close> is a missing session.
\<close>

definition begin_flight :: "session_id \<Rightarrow> u64 \<Rightarrow> 'm sessions \<Rightarrow> 'm sessions \<times> bool option" where
  "begin_flight sid generation sessions =
     (case sessions sid of
        None \<Rightarrow> (sessions, None)
      | Some state \<Rightarrow>
          if fs_terminal_reason state \<noteq> None \<or> fs_phase state \<noteq> PhPlanning generation
          then (sessions, Some False)
          else (sessions(sid \<mapsto> state\<lparr>fs_phase := PhInFlight generation,
                  fs_highest_attempted_generation := generation\<rparr>), Some True))"

definition still_in_flight :: "session_id \<Rightarrow> u64 \<Rightarrow> 'm sessions \<Rightarrow> bool option" where
  "still_in_flight sid generation sessions =
     (case sessions sid of
        None \<Rightarrow> None
      | Some state \<Rightarrow> Some (fs_terminal_reason state = None \<and> fs_phase state = PhInFlight generation))"

definition commit_matches :: "relay_migration_attempt \<Rightarrow> 'm relay_migration_commit \<Rightarrow> mux_route \<Rightarrow> bool" where
  "commit_matches attempt commit commit_route \<longleftrightarrow>
     mc_generation commit = ma_generation attempt \<and> mc_route_evidence commit = ma_route_evidence attempt \<and>
     mx_session_id commit_route = ma_session_id attempt \<and> \<not> mx_closed commit_route"

definition commit_flight ::
  "session_id \<Rightarrow> u64 \<Rightarrow> verified_relay_access \<Rightarrow> 'm relay_migration_commit \<Rightarrow> 'm sessions \<Rightarrow> 'm sessions \<times> bool option" where
  "commit_flight sid generation access commit sessions =
     (case sessions sid of
        None \<Rightarrow> (sessions, None)
      | Some state \<Rightarrow>
          if fs_terminal_reason state \<noteq> None \<or> fs_phase state \<noteq> PhInFlight generation
          then (sessions, Some False)
          else
            let evidence = mc_route_evidence commit in
            (sessions(sid \<mapsto> state\<lparr>fs_latest_access := access,
               fs_active_directory_id := re_directory_id evidence, fs_active_node_id := re_node_id evidence,
               fs_active_failure_domain := re_failure_domain evidence, fs_generation := generation,
               fs_health := HConnected, fs_disconnected_at_ms := None, fs_phase := PhIdle,
               fs_active_mux := mc_mux commit\<rparr>), Some True))"

definition clear_phase :: "session_id \<Rightarrow> u64 \<Rightarrow> 'm sessions \<Rightarrow> 'm sessions \<times> bool" where
  "clear_phase sid generation sessions =
     (case sessions sid of
        None \<Rightarrow> (sessions, False)
      | Some state \<Rightarrow>
          if (fs_phase state = PhPlanning generation \<or> fs_phase state = PhInFlight generation)
             \<and> fs_terminal_reason state = None
          then (sessions(sid \<mapsto> state\<lparr>fs_phase := PhIdle\<rparr>), True)
          else (sessions, False))"

text \<open>\<open>terminalize\<close>: the reason that stands, and whether this call starts the cleanup.\<close>

definition terminalize_begin ::
  "session_id \<Rightarrow> relay_terminal_security_reason \<Rightarrow> 'm sessions
   \<Rightarrow> 'm sessions \<times> (relay_terminal_security_reason \<times> bool) option" where
  "terminalize_begin sid reason sessions =
     (case sessions sid of
        None \<Rightarrow> (sessions, None)
      | Some state \<Rightarrow>
          (case fs_terminal_reason state of
             Some existing \<Rightarrow> (sessions, Some (existing, False))
           | None \<Rightarrow>
               (sessions(sid \<mapsto> state\<lparr>fs_phase := PhTerminal, fs_terminal_reason := Some reason,
                  fs_terminal_cleanup := Some False\<rparr>), Some (reason, True))))"

text \<open>The two locked blocks of a dropped cancellation guard.\<close>

definition guard_inspect :: "session_id \<Rightarrow> u64 \<Rightarrow> 'm sessions \<Rightarrow> 'm sessions \<times> bool" where
  "guard_inspect sid generation sessions =
     (case sessions sid of
        None \<Rightarrow> (sessions, False)
      | Some state \<Rightarrow>
          if fs_phase state = PhPlanning generation \<and> fs_terminal_reason state = None
          then (sessions(sid \<mapsto> state\<lparr>fs_phase := PhIdle\<rparr>), False)
          else (sessions, fs_phase state = PhInFlight generation \<and> fs_terminal_reason state = None))"

definition guard_release :: "session_id \<Rightarrow> u64 \<Rightarrow> 'm sessions \<Rightarrow> 'm sessions \<times> bool" where
  "guard_release sid generation sessions =
     (case sessions sid of
        None \<Rightarrow> (sessions, False)
      | Some state \<Rightarrow>
          if fs_phase state = PhInFlight generation \<and> fs_terminal_reason state = None
          then (sessions(sid \<mapsto> state\<lparr>fs_phase := PhIdle\<rparr>), True)
          else (sessions, False))"

section \<open>Calls as tasks\<close>

text \<open>
  A task is a call, a dropped guard or a spawned job at one of its await points.  \<open>offer\<close> is
  \<open>None\<close> in \<open>recover\<close> and the peer's offer in \<open>accept_remote_offer\<close>.  A call that ends, by
  returning or by being cancelled, drops its guard, which becomes a task of its own.
\<close>

datatype 'm task =
    TRefresh "relay_migration_offer option" recovery_plan
  | TBegin "relay_migration_offer option" verified_relay_access relay_migration_attempt
  | TFreeze "relay_migration_offer option" verified_relay_access relay_migration_attempt
  | TCheck verified_relay_access relay_migration_attempt
  | TExecute "relay_migration_offer option" verified_relay_access relay_migration_attempt
  | TRoute verified_relay_access relay_migration_attempt "'m relay_migration_commit"
  | TDiscardBad session_id u64
  | TCommit verified_relay_access relay_migration_attempt "'m relay_migration_commit"
  | TDiscardLate session_id u64
  | TGiveUp session_id u64
  | TRetry session_id u64
  | TAwaitThaw session_id u64
  | TTerminalize session_id relay_terminal_security_reason "u64 option"
  | TAwaitCleanup session_id "u64 option"
  | TThaw session_id
  | TCleanupFreeze session_id
  | TCleanupClose session_id
  | TGuardInspect session_id u64
  | TGuardDiscard session_id u64
  | TGuardRelease session_id u64

datatype executor_call =
    CallMigrate relay_migration_attempt | CallRespond relay_migration_attempt relay_migration_offer
  | CallDiscardLoser session_id u64 | CallCloseAll session_id

record 'm coordinator =
  fc_sessions :: "'m sessions"
  fc_frozen :: "session_id set"
  fc_calls :: "executor_call list"

text \<open>What the world answers to one step.\<close>

record 'm answers =
  an_refreshed :: "(verified_relay_access, relay_client_error) result"
  an_now_ms :: u64
  an_froze :: bool
  an_executed :: "('m relay_migration_commit, relay_migration_failure) result"
  an_route :: mux_route

definition on_sessions :: "'m coordinator \<Rightarrow> 'm sessions \<Rightarrow> 'm coordinator" where
  "on_sessions c sessions = c\<lparr>fc_sessions := sessions\<rparr>"

definition freeze :: "session_id \<Rightarrow> 'm coordinator \<Rightarrow> 'm coordinator" where
  "freeze sid c = c\<lparr>fc_frozen := insert sid (fc_frozen c)\<rparr>"

definition thaw :: "session_id \<Rightarrow> 'm coordinator \<Rightarrow> 'm coordinator" where
  "thaw sid c = c\<lparr>fc_frozen := fc_frozen c - {sid}\<rparr>"

definition log_call :: "executor_call \<Rightarrow> 'm coordinator \<Rightarrow> 'm coordinator" where
  "log_call x c = c\<lparr>fc_calls := fc_calls c @ [x]\<rparr>"

abbreviation drop_guard :: "session_id \<Rightarrow> u64 option \<Rightarrow> 'm task list" where
  "drop_guard sid g \<equiv> (case g of Some generation \<Rightarrow> [TGuardInspect sid generation] | None \<Rightarrow> [])"

text \<open>
  \<open>TAwaitThaw\<close> and \<open>TAwaitCleanup\<close> wait for a spawned job; here they may also go on before the job
  has ended, so the relation has every run of the program and some more.
\<close>

fun task_run :: "(bytes \<Rightarrow> bytes) \<Rightarrow> 'm answers \<Rightarrow> 'm task \<Rightarrow> 'm coordinator \<Rightarrow> 'm coordinator \<times> 'm task list" where
  "task_run sha256 an (TRefresh offer plan) c =
     (let sid = rp_session_id plan; g = rp_generation plan in
      case (case offer of
              None \<Rightarrow> recover_choose sha256 plan (an_refreshed an) (an_now_ms an)
            | Some offer \<Rightarrow> offer_choose sha256 offer plan (an_refreshed an) (an_now_ms an)) of
        DcError e \<Rightarrow> (c, [TGuardInspect sid g])
      | DcTerminal reason \<Rightarrow> (c, [TTerminalize sid reason (Some g)])
      | DcRetry code \<Rightarrow> (c, [TGiveUp sid g])
      | DcAttempt access attempt \<Rightarrow> (c, [TBegin offer access attempt]))"
| "task_run sha256 an (TBegin offer access attempt) c =
     (case begin_flight (ma_session_id attempt) (ma_generation attempt) (fc_sessions c) of
        (sessions, Some True) \<Rightarrow> (on_sessions c sessions, [TFreeze offer access attempt])
      | _ \<Rightarrow> (c, [TGuardInspect (ma_session_id attempt) (ma_generation attempt)]))"
| "task_run sha256 an (TFreeze offer access attempt) c =
     (let sid = ma_session_id attempt; c = freeze sid c in
      if \<not> an_froze an then (c, [TTerminalize sid InputSafetyFailure (Some (ma_generation attempt))])
      else if offer = None then (c, [TCheck access attempt])
      else (c, [TExecute offer access attempt]))"
| "task_run sha256 an (TCheck access attempt) c =
     (if still_in_flight (ma_session_id attempt) (ma_generation attempt) (fc_sessions c) = Some True
      then (c, [TExecute None access attempt])
      else (c, [TGuardInspect (ma_session_id attempt) (ma_generation attempt)]))"
| "task_run sha256 an (TExecute offer access attempt) c =
     (let sid = ma_session_id attempt; g = ma_generation attempt;
          c = log_call (case offer of None \<Rightarrow> CallMigrate attempt | Some offer \<Rightarrow> CallRespond attempt offer) c in
      case an_executed an of
        Ok commit \<Rightarrow> (c, [TRoute access attempt commit])
      | Err failure \<Rightarrow>
          if mf_terminal_security failure then (c, [TTerminalize sid RouteEvidenceMismatch (Some g)])
          else (c, [TRetry sid g]))"
| "task_run sha256 an (TRoute access attempt commit) c =
     (if commit_matches attempt commit (an_route an) then (c, [TCommit access attempt commit])
      else (c, [TDiscardBad (ma_session_id attempt) (ma_generation attempt)]))"
| "task_run sha256 an (TDiscardBad sid g) c =
     (log_call (CallDiscardLoser sid g) c, [TTerminalize sid RouteEvidenceMismatch (Some g)])"
| "task_run sha256 an (TCommit access attempt commit) c =
     (let sid = ma_session_id attempt; g = ma_generation attempt in
      case commit_flight sid g access commit (fc_sessions c) of
        (sessions, None) \<Rightarrow> (c, [TGuardInspect sid g])
      | (sessions, Some False) \<Rightarrow> (c, [TDiscardLate sid g])
      | (sessions, Some True) \<Rightarrow> (on_sessions c sessions, [TAwaitThaw sid g, TThaw sid]))"
| "task_run sha256 an (TDiscardLate sid g) c =
     (log_call (CallDiscardLoser sid g) c, [TGuardInspect sid g])"
| "task_run sha256 an (TGiveUp sid g) c =
     (case clear_phase sid g (fc_sessions c) of
        (sessions, _) \<Rightarrow> (on_sessions c sessions, [TGuardInspect sid g]))"
| "task_run sha256 an (TRetry sid g) c =
     (case clear_phase sid g (fc_sessions c) of
        (sessions, owns_freeze) \<Rightarrow>
          (on_sessions c sessions,
           if owns_freeze then [TAwaitThaw sid g, TThaw sid] else [TGuardInspect sid g]))"
| "task_run sha256 an (TAwaitThaw sid g) c = (c, [TGuardInspect sid g])"
| "task_run sha256 an (TTerminalize sid reason g) c =
     (case terminalize_begin sid reason (fc_sessions c) of
        (sessions, None) \<Rightarrow> (c, drop_guard sid g)
      | (sessions, Some (_, starts)) \<Rightarrow>
          (on_sessions c sessions, TAwaitCleanup sid g # (if starts then [TCleanupFreeze sid] else [])))"
| "task_run sha256 an (TAwaitCleanup sid g) c = (c, drop_guard sid g)"
| "task_run sha256 an (TThaw sid) c = (thaw sid c, [])"
| "task_run sha256 an (TCleanupFreeze sid) c = (freeze sid c, [TCleanupClose sid])"
| "task_run sha256 an (TCleanupClose sid) c =
     (log_call (CallCloseAll sid)
        (on_sessions c ((fc_sessions c)(sid :=
           map_option (\<lambda>state. state\<lparr>fs_terminal_cleanup := Some True\<rparr>) (fc_sessions c sid)))), [])"
| "task_run sha256 an (TGuardInspect sid g) c =
     (case guard_inspect sid g (fc_sessions c) of
        (sessions, was_in_flight) \<Rightarrow>
          (on_sessions c sessions, if was_in_flight then [TGuardDiscard sid g] else []))"
| "task_run sha256 an (TGuardDiscard sid g) c =
     (log_call (CallDiscardLoser sid g) c, [TGuardRelease sid g])"
| "task_run sha256 an (TGuardRelease sid g) c =
     (case guard_release sid g (fc_sessions c) of
        (sessions, owns_freeze) \<Rightarrow> (on_sessions c sessions, if owns_freeze then [TThaw sid] else []))"

text \<open>The call a task belongs to; guards and spawned jobs cannot be cancelled.\<close>

fun task_call :: "'m task \<Rightarrow> (session_id \<times> u64 option) option" where
  "task_call (TRefresh _ plan) = Some (rp_session_id plan, Some (rp_generation plan))"
| "task_call (TBegin _ _ attempt) = Some (ma_session_id attempt, Some (ma_generation attempt))"
| "task_call (TFreeze _ _ attempt) = Some (ma_session_id attempt, Some (ma_generation attempt))"
| "task_call (TCheck _ attempt) = Some (ma_session_id attempt, Some (ma_generation attempt))"
| "task_call (TExecute _ _ attempt) = Some (ma_session_id attempt, Some (ma_generation attempt))"
| "task_call (TRoute _ attempt _) = Some (ma_session_id attempt, Some (ma_generation attempt))"
| "task_call (TDiscardBad sid g) = Some (sid, Some g)"
| "task_call (TCommit _ attempt _) = Some (ma_session_id attempt, Some (ma_generation attempt))"
| "task_call (TDiscardLate sid g) = Some (sid, Some g)"
| "task_call (TGiveUp sid g) = Some (sid, Some g)"
| "task_call (TRetry sid g) = Some (sid, Some g)"
| "task_call (TAwaitThaw sid g) = Some (sid, Some g)"
| "task_call (TTerminalize sid _ g) = Some (sid, g)"
| "task_call (TAwaitCleanup sid g) = Some (sid, g)"
| "task_call _ = None"

definition first_tasks :: "relay_migration_offer option \<Rightarrow> first_block \<Rightarrow> 'm task list" where
  "first_tasks offer r = (case r of Planned plan \<Rightarrow> [TRefresh offer plan] | Answered _ \<Rightarrow> [])"

definition verified_access :: "'v access_env \<Rightarrow> (string, bytes) btree_map \<Rightarrow> verified_relay_access \<Rightarrow> bool" where
  "verified_access env keys a \<longleftrightarrow> (\<exists>ctx body t. verify_relay_access_response env ctx keys body t = Ok a)"

text \<open>
  Any interleaving: a task goes on or is cancelled, a session is installed, a call comes in.
  A \<open>VerifiedRelayAccess\<close> has private fields and comes from the verification only.
\<close>

inductive fo_step ::
  "'v access_env \<Rightarrow> (string, bytes) btree_map \<Rightarrow> u64 \<Rightarrow> 'm coordinator \<times> 'm task list
   \<Rightarrow> 'm coordinator \<times> 'm task list \<Rightarrow> bool" for env keys grace where
  fo_run: "task_run (ax_sha256 env) an t c = (c', new) \<Longrightarrow>
    (\<And>a. an_refreshed an = Ok a \<Longrightarrow> verified_access env keys a) \<Longrightarrow>
    fo_step env keys grace (c, xs @ t # ys) (c', xs @ new @ ys)"
| fo_cancel: "task_call t = Some (sid, g) \<Longrightarrow>
    fo_step env keys grace (c, xs @ t # ys) (c, xs @ drop_guard sid g @ ys)"
| fo_install: "install_verified_session (ax_sha256 env) ctx a node evidence mux route now (fc_sessions c) = (ss, r) \<Longrightarrow>
    verified_access env keys a \<Longrightarrow> fo_step env keys grace (c, ts) (on_sessions c ss, ts)"
| fo_observe: "observe_health_begin grace now sid observed health (fc_sessions c) = (ss, r) \<Longrightarrow>
    fo_step env keys grace (c, ts) (on_sessions c ss, ts @ first_tasks None r)"
| fo_offer: "accept_offer_begin offer (fc_sessions c) = (ss, r) \<Longrightarrow>
    fo_step env keys grace (c, ts) (on_sessions c ss, ts @ first_tasks (Some offer) r)"
| fo_terminate: "fo_step env keys grace (c, ts) (c, ts @ [TTerminalize sid reason None])"

definition fo_start :: "'m coordinator \<times> 'm task list" where
  "fo_start = (\<lparr>fc_sessions = Map.empty, fc_frozen = {}, fc_calls = []\<rparr>, [])"

section \<open>What the locked blocks do to a session\<close>

definition busy :: "relay_migration_phase \<Rightarrow> u64 \<Rightarrow> bool" where
  "busy phase g \<longleftrightarrow> phase = PhPlanning g \<or> phase = PhInFlight g"

text \<open>What the verification of a directory gives: each relay is listed once.\<close>

definition access_wf :: "verified_relay_access \<Rightarrow> bool" where
  "access_wf a \<longleftrightarrow> distinct (map dc_node_id (dp_candidates (va_payload a)))"

inductive session_move :: "'m relay_session_state \<Rightarrow> 'm relay_session_state \<Rightarrow> bool" where
  mv_health: "fs_terminal_reason st = None \<Longrightarrow>
    session_move st (st\<lparr>fs_health := h, fs_disconnected_at_ms := d\<rparr>)"
| mv_plan: "fs_terminal_reason st = None \<Longrightarrow> (\<And>g. \<not> busy (fs_phase st) g) \<Longrightarrow>
    unat g = unat (fs_highest_attempted_generation st) + 1 \<Longrightarrow>
    session_move st (st\<lparr>fs_health := h, fs_disconnected_at_ms := d, fs_phase := PhPlanning g\<rparr>)"
| mv_begin: "fs_terminal_reason st = None \<Longrightarrow> fs_phase st = PhPlanning g \<Longrightarrow>
    session_move st (st\<lparr>fs_phase := PhInFlight g, fs_highest_attempted_generation := g\<rparr>)"
| mv_commit: "fs_terminal_reason st = None \<Longrightarrow> fs_phase st = PhInFlight g \<Longrightarrow> access_wf a \<Longrightarrow>
    session_move st (st\<lparr>fs_latest_access := a, fs_active_directory_id := d, fs_active_node_id := n,
      fs_active_failure_domain := f, fs_generation := g, fs_health := HConnected,
      fs_disconnected_at_ms := None, fs_phase := PhIdle, fs_active_mux := m\<rparr>)"
| mv_clear: "fs_terminal_reason st = None \<Longrightarrow> busy (fs_phase st) g \<Longrightarrow>
    session_move st (st\<lparr>fs_phase := PhIdle\<rparr>)"
| mv_terminal: "fs_terminal_reason st = None \<Longrightarrow>
    session_move st (st\<lparr>fs_phase := PhTerminal, fs_terminal_reason := Some r, fs_terminal_cleanup := Some False\<rparr>)"
| mv_cleanup: "session_move st (st\<lparr>fs_terminal_cleanup := Some True\<rparr>)"

definition moves :: "'m sessions \<Rightarrow> 'm sessions \<Rightarrow> bool" where
  "moves ss ss' \<longleftrightarrow> ss' = ss \<or> (\<exists>sid st st'. ss sid = Some st \<and> session_move st st' \<and> ss' = ss(sid \<mapsto> st'))"

lemma moves_refl [simp]: "moves ss ss"
  by (simp add: moves_def)

lemma movesI: "ss sid = Some st \<Longrightarrow> session_move st st' \<Longrightarrow> ss' = ss(sid \<mapsto> st') \<Longrightarrow> moves ss ss'"
  by (auto simp: moves_def)

lemma busy_intros: "ph = PhPlanning g \<Longrightarrow> busy ph g" "ph = PhInFlight g \<Longrightarrow> busy ph g"
  by (simp_all add: busy_def)

lemma begin_flight_moves: "begin_flight sid g ss = (ss', r) \<Longrightarrow> moves ss ss'"
  by (auto simp: begin_flight_def intro: movesI mv_begin split: option.splits if_splits)

lemma commit_flight_moves: "commit_flight sid g a cm ss = (ss', r) \<Longrightarrow> access_wf a \<Longrightarrow> moves ss ss'"
  by (auto simp: commit_flight_def Let_def intro: movesI mv_commit split: option.splits if_splits)

lemma clear_phase_moves: "clear_phase sid g ss = (ss', r) \<Longrightarrow> moves ss ss'"
  by (auto simp: clear_phase_def intro: movesI mv_clear busy_intros split: option.splits if_splits)

lemma terminalize_moves: "terminalize_begin sid reason ss = (ss', r) \<Longrightarrow> moves ss ss'"
  by (auto simp: terminalize_begin_def intro: movesI mv_terminal split: option.splits)

lemma guard_inspect_moves: "guard_inspect sid g ss = (ss', r) \<Longrightarrow> moves ss ss'"
  by (auto simp: guard_inspect_def intro: movesI mv_clear busy_intros split: option.splits if_splits)

lemma guard_release_moves: "guard_release sid g ss = (ss', r) \<Longrightarrow> moves ss ss'"
  by (auto simp: guard_release_def intro: movesI mv_clear busy_intros split: option.splits if_splits)

lemma next_generation: "checked_add h 1 = Some g \<Longrightarrow> unat g = unat h + 1"
  using checked_add_Some [of h 1 g] by simp

text \<open>
  The first block of a call either plans, and then its plan is of the session's current
  route, or leaves at most the health changed.
\<close>

definition plans :: "'m sessions \<Rightarrow> 'm sessions \<Rightarrow> recovery_plan \<Rightarrow> bool" where
  "plans ss ss' plan \<longleftrightarrow> (\<exists>st st'. ss (rp_session_id plan) = Some st \<and> session_move st st' \<and>
     fs_phase st' = PhPlanning (rp_generation plan) \<and>
     unat (rp_generation plan) = unat (fs_highest_attempted_generation st') + 1 \<and>
     fs_active_failure_domain st' = rp_active_failure_domain plan \<and>
     fs_latest_access st' = rp_cached_access plan \<and> ss' = ss(rp_session_id plan \<mapsto> st'))"

lemma health_move:
  "fs_terminal_reason st = None \<Longrightarrow> session_move st (st\<lparr>fs_health := h\<rparr>)"
  using mv_health [of st "fs_disconnected_at_ms st" h] by simp

lemma observe_begin_plans:
  assumes "observe_health_begin grace now sid og h ss = (ss', r)"
  shows "case r of Planned plan \<Rightarrow> plans ss ss' plan | Answered _ \<Rightarrow> moves ss ss'"
proof (cases "ss sid")
  case None
  with assms show ?thesis by (auto simp: observe_health_begin_def)
next
  case (Some st)
  show ?thesis
  proof (cases "fs_terminal_reason st")
    case None
    have move: "moves ss (ss(sid \<mapsto> st\<lparr>fs_health := h\<rparr>))"
      "moves ss (ss(sid \<mapsto> st\<lparr>fs_health := h, fs_disconnected_at_ms := d\<rparr>))" for d
      using Some None by (auto intro: movesI health_move mv_health)
    have planned: "plans ss (ss(sid \<mapsto> st\<lparr>fs_health := h, fs_disconnected_at_ms := d, fs_phase := PhPlanning g\<rparr>))
        (plan_of sid g (st\<lparr>fs_health := h, fs_disconnected_at_ms := d\<rparr>))"
      if "\<And>g. \<not> busy (fs_phase st) g" "checked_add (fs_highest_attempted_generation st) 1 = Some g" for d g
      using mv_plan [OF None that(1) next_generation [OF that(2)], of d h] Some next_generation [OF that(2)]
      by (auto simp: plans_def plan_of_def)
    have idle: "fs_phase st = PhIdle \<Longrightarrow> \<not> busy (fs_phase st) g" "fs_phase st = PhTerminal \<Longrightarrow> \<not> busy (fs_phase st) g"
      for g by (simp_all add: busy_def)
    show ?thesis
      using assms Some None planned idle move
      by (auto simp: observe_health_begin_def Let_def split: if_splits relay_migration_phase.splits option.splits)
  qed (use assms Some in \<open>auto simp: observe_health_begin_def\<close>)
qed

lemma offer_begin_plans:
  assumes "accept_offer_begin offer ss = (ss', r)"
  shows "case r of Planned plan \<Rightarrow> plans ss ss' plan | Answered _ \<Rightarrow> ss' = ss"
proof (cases "ss (mo_session_id offer)")
  case None
  with assms show ?thesis by (auto simp: accept_offer_begin_def)
next
  case (Some st)
  have planned: "plans ss (ss(mo_session_id offer \<mapsto> st\<lparr>fs_phase := PhPlanning g\<rparr>)) (plan_of (mo_session_id offer) g st)"
    if "fs_terminal_reason st = None" "fs_phase st = PhIdle" "checked_add (fs_highest_attempted_generation st) 1 = Some g" for g
    using mv_plan [OF that(1) _ next_generation [OF that(3)], of "fs_disconnected_at_ms st" "fs_health st"]
      Some next_generation [OF that(3)] that(2)
    by (auto simp: plans_def plan_of_def busy_def)
  then show ?thesis
    using assms Some
    by (auto simp: accept_offer_begin_def split: if_splits relay_migration_phase.splits option.splits)
qed

lemma plans_moves: "plans ss ss' plan \<Longrightarrow> moves ss ss'"
  by (auto simp: plans_def intro: movesI)

section \<open>Invariants\<close>

definition session_ok :: "'m relay_session_state \<Rightarrow> bool" where
  "session_ok st \<longleftrightarrow>
     unat (fs_generation st) \<le> unat (fs_highest_attempted_generation st) \<and>
     (case fs_phase st of
        PhPlanning g \<Rightarrow> unat g = unat (fs_highest_attempted_generation st) + 1
      | PhInFlight g \<Rightarrow> g = fs_highest_attempted_generation st \<and> unat (fs_generation st) < unat g
      | _ \<Rightarrow> True) \<and>
     (fs_phase st = PhTerminal \<longleftrightarrow> fs_terminal_reason st \<noteq> None) \<and> access_wf (fs_latest_access st)"

lemma session_move_ok: "session_move st st' \<Longrightarrow> session_ok st \<Longrightarrow> session_ok st'"
  by (induction rule: session_move.induct) (auto simp: session_ok_def busy_def split: relay_migration_phase.splits)

text \<open>What every move leaves alone or only lets grow.\<close>

lemma session_move_mono:
  assumes "session_move st st'" "session_ok st"
  shows "fs_highest_attempted_generation st \<le> fs_highest_attempted_generation st' \<and>
    fs_generation st \<le> fs_generation st' \<and>
    (\<forall>r. fs_terminal_reason st = Some r \<longrightarrow> st' = st\<lparr>fs_terminal_cleanup := fs_terminal_cleanup st'\<rparr>) \<and>
    (fs_generation st' \<noteq> fs_generation st \<or> fs_active_failure_domain st' \<noteq> fs_active_failure_domain st \<or>
       fs_active_node_id st' \<noteq> fs_active_node_id st \<or> fs_active_mux st' \<noteq> fs_active_mux st \<longrightarrow>
     fs_phase st = PhInFlight (fs_generation st') \<and> fs_generation st < fs_generation st' \<and>
     fs_generation st' = fs_highest_attempted_generation st \<and> fs_terminal_reason st = None \<and> fs_phase st' = PhIdle)"
  using assms by (cases rule: session_move.cases) (auto simp: session_ok_def word_le_nat_alt word_less_nat_alt)

text \<open>The generation of the attempt a task works for.\<close>

fun task_key :: "'m task \<Rightarrow> (session_id \<times> u64) option" where
  "task_key (TGuardInspect sid g) = Some (sid, g)"
| "task_key (TGuardDiscard sid g) = Some (sid, g)"
| "task_key (TGuardRelease sid g) = Some (sid, g)"
| "task_key t = (case task_call t of Some (sid, Some g) \<Rightarrow> Some (sid, g) | _ \<Rightarrow> None)"

text \<open>A plan is of the route it leaves, an attempt goes to another failure domain.\<close>

fun leaves_domain :: "string \<Rightarrow> 'm task \<Rightarrow> bool" where
  "leaves_domain f (TRefresh _ plan) \<longleftrightarrow> rp_active_failure_domain plan = f"
| "leaves_domain f (TBegin _ _ attempt) \<longleftrightarrow> re_failure_domain (ma_route_evidence attempt) \<noteq> f"
| "leaves_domain f (TFreeze _ _ attempt) \<longleftrightarrow> re_failure_domain (ma_route_evidence attempt) \<noteq> f"
| "leaves_domain f (TCheck _ attempt) \<longleftrightarrow> re_failure_domain (ma_route_evidence attempt) \<noteq> f"
| "leaves_domain f (TExecute _ _ attempt) \<longleftrightarrow> re_failure_domain (ma_route_evidence attempt) \<noteq> f"
| "leaves_domain f (TRoute _ attempt _) \<longleftrightarrow> re_failure_domain (ma_route_evidence attempt) \<noteq> f"
| "leaves_domain f (TCommit _ attempt commit) \<longleftrightarrow> re_failure_domain (mc_route_evidence commit) \<noteq> f"
| "leaves_domain f t \<longleftrightarrow> True"

definition task_fits :: "'m task \<Rightarrow> u64 \<Rightarrow> 'm relay_session_state \<Rightarrow> bool" where
  "task_fits t g st \<longleftrightarrow>
     unat g \<le> unat (fs_highest_attempted_generation st) + 1 \<and>
     (\<forall>h. fs_phase st = PhInFlight h \<longrightarrow> g \<le> fs_highest_attempted_generation st) \<and>
     (fs_highest_attempted_generation st < g \<or> fs_phase st = PhInFlight g \<longrightarrow>
        leaves_domain (fs_active_failure_domain st) t)"

lemma task_fits_move:
  "session_move st st' \<Longrightarrow> session_ok st \<Longrightarrow> task_fits t g st \<Longrightarrow> task_fits t g st'"
  by (induction rule: session_move.induct)
    (auto simp: task_fits_def session_ok_def busy_def word_le_nat_alt word_less_nat_alt)

fun task_access :: "'m task \<Rightarrow> verified_relay_access option" where
  "task_access (TRefresh _ plan) = Some (rp_cached_access plan)"
| "task_access (TBegin _ a _) = Some a"
| "task_access (TFreeze _ a _) = Some a"
| "task_access (TCheck a _) = Some a"
| "task_access (TExecute _ a _) = Some a"
| "task_access (TRoute a _ _) = Some a"
| "task_access (TCommit a _ _) = Some a"
| "task_access _ = None"

definition task_ok :: "'m sessions \<Rightarrow> 'm task \<Rightarrow> bool" where
  "task_ok ss t \<longleftrightarrow>
     (\<forall>sid g. task_key t = Some (sid, g) \<longrightarrow> (\<exists>st. ss sid = Some st \<and> task_fits t g st)) \<and>
     (\<forall>a. task_access t = Some a \<longrightarrow> access_wf a)"

definition sessions_ok :: "'m sessions \<Rightarrow> bool" where
  "sessions_ok ss \<longleftrightarrow> (\<forall>sid st. ss sid = Some st \<longrightarrow> session_ok st)"

lemma task_ok_moves:
  assumes "moves ss ss'" "sessions_ok ss" "task_ok ss t"
  shows "task_ok ss' t"
  using assms unfolding moves_def task_ok_def sessions_ok_def
  by (auto 0 4 intro: task_fits_move)

lemma task_ok_next:
  assumes "task_ok ss t" "task_key t' = task_key t" "\<And>f. leaves_domain f t \<Longrightarrow> leaves_domain f t'"
    and "\<And>a. task_access t' = Some a \<Longrightarrow> access_wf a"
  shows "task_ok ss t'"
proof -
  have "task_fits t' g st" if "task_fits t g st" for g st
    using that assms(3) by (auto simp: task_fits_def)
  with assms(1,2,4) show ?thesis unfolding task_ok_def by metis
qed

text \<open>For a task that carries no relay only the generation matters.\<close>

definition key_ok :: "'m sessions \<Rightarrow> session_id \<Rightarrow> u64 \<Rightarrow> bool" where
  "key_ok ss sid g \<longleftrightarrow> (\<exists>st. ss sid = Some st \<and> unat g \<le> unat (fs_highest_attempted_generation st) + 1 \<and>
     (\<forall>h. fs_phase st = PhInFlight h \<longrightarrow> g \<le> fs_highest_attempted_generation st))"

lemma task_ok_key: "task_ok ss t \<Longrightarrow> task_key t = Some (sid, g) \<Longrightarrow> key_ok ss sid g"
  by (auto simp: task_ok_def task_fits_def key_ok_def)

lemma task_ok_plain [simp]:
  "task_ok ss (TThaw sid)" "task_ok ss (TCleanupFreeze sid)" "task_ok ss (TCleanupClose sid)"
  "task_ok ss (TAwaitThaw sid g) = key_ok ss sid g" "task_ok ss (TGuardInspect sid g) = key_ok ss sid g"
  "task_ok ss (TGuardDiscard sid g) = key_ok ss sid g" "task_ok ss (TGuardRelease sid g) = key_ok ss sid g"
  "task_ok ss (TGiveUp sid g) = key_ok ss sid g" "task_ok ss (TRetry sid g) = key_ok ss sid g"
  "task_ok ss (TDiscardBad sid g) = key_ok ss sid g" "task_ok ss (TDiscardLate sid g) = key_ok ss sid g"
  "task_ok ss (TTerminalize sid r g') = (\<forall>g. g' = Some g \<longrightarrow> key_ok ss sid g)"
  "task_ok ss (TAwaitCleanup sid g') = (\<forall>g. g' = Some g \<longrightarrow> key_ok ss sid g)"
  by (auto simp: task_ok_def task_fits_def key_ok_def split: option.splits)

text \<open>The failure domain of the evidence is that of the chosen relay, so it is another one.\<close>

lemma route_evidence_domain:
  assumes "access_wf a" "c \<in> set (dp_candidates (va_payload a))"
    and "route_evidence sha a (dc_node_id c) g = Ok ev"
  shows "re_failure_domain ev = dc_failure_domain c"
proof -
  from assms(3) obtain c' where c': "find (\<lambda>x. dc_node_id x = dc_node_id c) (dp_candidates (va_payload a)) = Some c'"
    "re_failure_domain ev = dc_failure_domain c'"
    by (auto simp: route_evidence_def)
  then have "c' \<in> set (dp_candidates (va_payload a))" "dc_node_id c' = dc_node_id c"
    by (auto simp: find_Some_iff)
  with assms(1,2) have "c' = c" by (auto simp: access_wf_def distinct_map inj_on_def)
  with c' show ?thesis by simp
qed

lemma choose_access_wf:
  assumes "choose_access plan refreshed now = Ok a" "access_wf (rp_cached_access plan)"
    and "\<And>a. refreshed = Ok a \<Longrightarrow> access_wf a"
  shows "access_wf a"
  using assms by (auto simp: choose_access_def split: sum.splits if_splits)

lemma choose_access_Err: "choose_access plan refreshed now = Err (DcAttempt a attempt) \<Longrightarrow> False"
  by (auto simp: choose_access_def split: sum.splits if_splits)

lemma recover_choose_attempt:
  assumes "recover_choose sha plan refreshed now = DcAttempt a attempt" "access_wf (rp_cached_access plan)"
    and "\<And>a. refreshed = Ok a \<Longrightarrow> access_wf a"
  shows "access_wf a" "ma_session_id attempt = rp_session_id plan" "ma_generation attempt = rp_generation plan"
    "re_failure_domain (ma_route_evidence attempt) \<noteq> rp_active_failure_domain plan"
proof -
  let ?P = "\<lambda>a c. dc_node_id c \<noteq> rp_active_node_id plan \<and> dc_failure_domain c \<noteq> rp_active_failure_domain plan \<and>
    map_of (va_credentials a) (dc_node_id c) \<noteq> None"
  from assms(1) obtain c ev where c: "choose_access plan refreshed now = Ok a"
    "find (?P a) (dp_candidates (va_payload a)) = Some c"
    "route_evidence sha a (dc_node_id c) (rp_generation plan) = Ok ev" "attempt = attempt_of plan ev"
    by (auto simp: recover_choose_def split: sum.splits option.splits if_splits dest: choose_access_Err)
  show wf: "access_wf a" by (rule choose_access_wf [OF c(1) assms(2,3)])
  from c(2) have "c \<in> set (dp_candidates (va_payload a))" "dc_failure_domain c \<noteq> rp_active_failure_domain plan"
    by (auto simp: find_Some_iff)
  with route_evidence_domain [OF wf _ c(3)] c(4)
  show "re_failure_domain (ma_route_evidence attempt) \<noteq> rp_active_failure_domain plan"
    by (simp add: attempt_of_def)
  show "ma_session_id attempt = rp_session_id plan" "ma_generation attempt = rp_generation plan"
    using c(4) by (simp_all add: attempt_of_def)
qed

lemma offer_choose_attempt:
  assumes "offer_choose sha offer plan refreshed now = DcAttempt a attempt" "access_wf (rp_cached_access plan)"
    and "\<And>a. refreshed = Ok a \<Longrightarrow> access_wf a"
  shows "access_wf a" "ma_session_id attempt = rp_session_id plan" "ma_generation attempt = rp_generation plan"
    "re_failure_domain (ma_route_evidence attempt) \<noteq> rp_active_failure_domain plan"
proof -
  from assms(1) obtain c ev where c: "choose_access plan refreshed now = Ok a"
    "find (\<lambda>c. dc_node_id c = mo_node_id offer) (dp_candidates (va_payload a)) = Some c"
    "dc_failure_domain c \<noteq> rp_active_failure_domain plan"
    "route_evidence sha a (mo_node_id offer) (rp_generation plan) = Ok ev" "attempt = attempt_of plan ev"
    by (auto simp: offer_choose_def split: sum.splits option.splits if_splits dest: choose_access_Err)
  show wf: "access_wf a" by (rule choose_access_wf [OF c(1) assms(2,3)])
  from c(2) have "c \<in> set (dp_candidates (va_payload a))" "mo_node_id offer = dc_node_id c"
    by (auto simp: find_Some_iff)
  with route_evidence_domain [OF wf, of c] c(3-5)
  show "re_failure_domain (ma_route_evidence attempt) \<noteq> rp_active_failure_domain plan"
    by (simp add: attempt_of_def)
  show "ma_session_id attempt = rp_session_id plan" "ma_generation attempt = rp_generation plan"
    using c(5) by (simp_all add: attempt_of_def)
qed

lemma on_sessions_simps [simp]:
  "fc_sessions (on_sessions c ss) = ss" "fc_frozen (on_sessions c ss) = fc_frozen c"
  "fc_sessions (freeze sid c) = fc_sessions c" "fc_sessions (thaw sid c) = fc_sessions c"
  "fc_sessions (log_call x c) = fc_sessions c" "fc_frozen (log_call x c) = fc_frozen c"
  by (simp_all add: on_sessions_def freeze_def thaw_def log_call_def)

lemma moves_sessions_ok: "moves ss ss' \<Longrightarrow> sessions_ok ss \<Longrightarrow> sessions_ok ss'"
  unfolding moves_def sessions_ok_def by (auto split: if_splits) (blast intro: session_move_ok)

lemma cleanup_moves:
  "moves ss (ss(sid := map_option (\<lambda>st. st\<lparr>fs_terminal_cleanup := Some True\<rparr>) (ss sid)))"
  by (cases "ss sid") (auto intro: movesI mv_cleanup simp: moves_def)

lemma task_run_moves:
  assumes "task_run sha an t c = (c', new)" "task_ok (fc_sessions c) t"
  shows "moves (fc_sessions c) (fc_sessions c')"
proof (cases t)
  case (TCommit a attempt commit)
  with assms(2) have "access_wf a" by (simp add: task_ok_def)
  with assms(1) TCommit show ?thesis
    by (auto simp: Let_def split: prod.splits option.splits bool.splits dest: commit_flight_moves)
qed (use assms(1) in \<open>auto simp: Let_def cleanup_moves split: prod.splits option.splits bool.splits if_splits
      sum.splits decision.splits dest: begin_flight_moves clear_phase_moves terminalize_moves guard_inspect_moves
      guard_release_moves\<close>)

lemma refresh_attempt:
  assumes ok: "task_ok ss (TRefresh offer plan)" and wf: "\<And>a. an_refreshed an = Ok a \<Longrightarrow> access_wf a"
    and d: "(case offer of None \<Rightarrow> recover_choose sha plan (an_refreshed an) (an_now_ms an)
      | Some offer \<Rightarrow> offer_choose sha offer plan (an_refreshed an) (an_now_ms an)) = DcAttempt a attempt"
  shows "task_ok ss (TBegin offer a attempt)"
proof -
  from ok have cached: "access_wf (rp_cached_access plan)" by (simp add: task_ok_def)
  have "access_wf a" "ma_session_id attempt = rp_session_id plan" "ma_generation attempt = rp_generation plan"
    "re_failure_domain (ma_route_evidence attempt) \<noteq> rp_active_failure_domain plan"
    using d recover_choose_attempt [OF _ cached wf] offer_choose_attempt [OF _ cached wf]
    by (cases offer; simp)+
  then show ?thesis by (intro task_ok_next [OF ok]) auto
qed

lemma task_run_tasks:
  assumes run: "task_run sha an t c = (c', new)" and ok: "task_ok (fc_sessions c) t"
    and wf: "\<And>a. an_refreshed an = Ok a \<Longrightarrow> access_wf a" and t': "t' \<in> set new"
  shows "task_ok (fc_sessions c) t'"
proof -
  have key: "task_key t = Some (sid, g) \<Longrightarrow> key_ok (fc_sessions c) sid g" for sid g using task_ok_key [OF ok] .
  note attempt = task_ok_next [OF ok]
  have access: "task_access t = Some a \<Longrightarrow> access_wf a" for a using ok by (simp add: task_ok_def)
  show ?thesis
  proof (cases t)
    case (TRefresh offer plan)
    let ?d = "case offer of None \<Rightarrow> recover_choose sha plan (an_refreshed an) (an_now_ms an)
      | Some offer \<Rightarrow> offer_choose sha offer plan (an_refreshed an) (an_now_ms an)"
    note begins = refresh_attempt [where an = an and sha = sha, OF ok [unfolded TRefresh] wf]
    show ?thesis
    proof (cases ?d)
      case (DcAttempt a attempt)
      with run t' TRefresh begins [OF _ DcAttempt] show ?thesis by (auto simp: Let_def)
    qed (use run t' TRefresh key in \<open>auto simp: Let_def\<close>)
  next
    case (TBegin offer a at)
    with access attempt [of "TFreeze offer a at"] have "task_ok (fc_sessions c) (TFreeze offer a at)" by simp
    with TBegin run t' key show ?thesis by (auto split: prod.splits option.splits bool.splits)
  next
    case (TFreeze offer a at)
    with access attempt [of "TCheck a at"] attempt [of "TExecute offer a at"]
    have "task_ok (fc_sessions c) (TCheck a at)" "task_ok (fc_sessions c) (TExecute offer a at)" by simp_all
    with TFreeze run t' key show ?thesis by (auto simp: Let_def split: if_splits)
  next
    case (TCheck a at)
    with access attempt [of "TExecute None a at"] have "task_ok (fc_sessions c) (TExecute None a at)" by simp
    with TCheck run t' key show ?thesis by (auto split: if_splits)
  next
    case (TExecute offer a at)
    with access attempt [of "TRoute a at commit" for commit]
    have "task_ok (fc_sessions c) (TRoute a at commit)" for commit by simp
    with TExecute run t' key show ?thesis by (auto simp: Let_def split: if_splits sum.splits)
  next
    case (TRoute a at commit)
    with access attempt [of "TCommit a at commit"]
    have "commit_matches at commit (an_route an) \<Longrightarrow> task_ok (fc_sessions c) (TCommit a at commit)"
      by (simp add: commit_matches_def)
    with TRoute run t' key show ?thesis by (auto split: if_splits)
  qed (use run t' key in \<open>auto simp: Let_def split: prod.splits option.splits bool.splits if_splits\<close>)
qed

text \<open>The tasks that will bring a busy session back to rest.\<close>

definition holds_phase :: "'m task \<Rightarrow> session_id \<Rightarrow> relay_migration_phase \<Rightarrow> bool" where
  "holds_phase t sid phase \<longleftrightarrow>
     (\<exists>g. task_key t = Some (sid, g) \<and>
        (phase = PhInFlight g \<or> phase = PhPlanning g \<and> t \<noteq> TGuardDiscard sid g \<and> t \<noteq> TGuardRelease sid g))"

lemma holds_busy: "holds_phase t sid phase \<Longrightarrow> \<exists>g. busy phase g"
  by (auto simp: holds_phase_def busy_def)

definition hands_over :: "'m task \<Rightarrow> 'm sessions \<Rightarrow> 'm task list \<Rightarrow> 'm sessions \<Rightarrow> bool" where
  "hands_over t ss new ss' \<longleftrightarrow>
     (\<forall>sid st' g. ss' sid = Some st' \<longrightarrow> busy (fs_phase st') g \<longrightarrow>
        (\<exists>t'\<in>set new. holds_phase t' sid (fs_phase st')) \<or>
        \<not> holds_phase t sid (fs_phase st') \<and> (\<exists>st. ss sid = Some st \<and> fs_phase st = fs_phase st'))"

lemma hands_over_same_key:
  "t' \<in> set new \<Longrightarrow> task_key t' = task_key t \<Longrightarrow> (\<And>sid g. t' \<noteq> TGuardDiscard sid g \<and> t' \<noteq> TGuardRelease sid g) \<Longrightarrow>
   hands_over t ss new ss"
  unfolding hands_over_def holds_phase_def by (metis (full_types))

lemma choose_attempt_ids:
  "recover_choose sha plan refreshed now = DcAttempt a attempt \<Longrightarrow>
   ma_session_id attempt = rp_session_id plan \<and> ma_generation attempt = rp_generation plan"
  "offer_choose sha offer plan refreshed now = DcAttempt a attempt \<Longrightarrow>
   ma_session_id attempt = rp_session_id plan \<and> ma_generation attempt = rp_generation plan"
  by (auto simp: recover_choose_def offer_choose_def attempt_of_def dest: choose_access_Err
      split: sum.splits option.splits if_splits)

lemma task_run_hands_over:
  assumes run: "task_run sha an t c = (c', new)" and ok: "sessions_ok (fc_sessions c)"
  shows "hands_over t (fc_sessions c) new (fc_sessions c')"
proof -
  have terminal: "fs_phase st = PhTerminal" if "fc_sessions c sid = Some st" "fs_terminal_reason st = Some r" for sid st r
    using ok that by (auto simp: sessions_ok_def session_ok_def)
  show ?thesis
    using run terminal
    by (cases t)
      (auto dest: choose_attempt_ids simp: hands_over_def holds_phase_def busy_def Let_def begin_flight_def commit_flight_def clear_phase_def
        terminalize_begin_def guard_inspect_def guard_release_def
        split: prod.splits option.splits bool.splits if_splits sum.splits decision.splits)
qed

definition fo_inv :: "'m coordinator \<times> 'm task list \<Rightarrow> bool" where
  "fo_inv = (\<lambda>(c, ts). sessions_ok (fc_sessions c) \<and> list_all (task_ok (fc_sessions c)) ts \<and>
     (\<forall>sid st g. fc_sessions c sid = Some st \<longrightarrow> busy (fs_phase st) g \<longrightarrow>
        (\<exists>t\<in>set ts. holds_phase t sid (fs_phase st))))"

text \<open>One task is replaced by its successors.\<close>

lemma fo_inv_replace:
  assumes "fo_inv (c, xs @ t # ys)" "moves (fc_sessions c) (fc_sessions c')"
    and "\<And>t'. t' \<in> set new \<Longrightarrow> task_ok (fc_sessions c) t'"
    and "hands_over t (fc_sessions c) new (fc_sessions c')"
  shows "fo_inv (c', xs @ new @ ys)"
proof -
  from assms(1) have ok: "sessions_ok (fc_sessions c)" by (simp add: fo_inv_def)
  have "list_all (task_ok (fc_sessions c')) (xs @ new @ ys)"
    using assms(1,3) task_ok_moves [OF assms(2) ok] by (auto simp: fo_inv_def list_all_iff)
  moreover have "\<exists>t\<in>set (xs @ new @ ys). holds_phase t sid (fs_phase st')"
    if "fc_sessions c' sid = Some st'" "busy (fs_phase st') g" for sid st' g
    using assms(4) [unfolded hands_over_def, rule_format, OF that]
  proof
    assume "\<not> holds_phase t sid (fs_phase st') \<and> (\<exists>st. fc_sessions c sid = Some st \<and> fs_phase st = fs_phase st')"
    then obtain st where st: "\<not> holds_phase t sid (fs_phase st)" "fc_sessions c sid = Some st" "fs_phase st = fs_phase st'"
      by auto
    with assms(1) that(2) obtain u where "u \<in> set (xs @ t # ys)" "holds_phase u sid (fs_phase st)"
      unfolding fo_inv_def by fastforce
    with st show ?thesis by auto
  qed auto
  ultimately show ?thesis using moves_sessions_ok [OF assms(2) ok] by (auto simp: fo_inv_def)
qed

text \<open>A call begins: at most one task more.\<close>

lemma fo_inv_begin:
  assumes "fo_inv (c, ts)" "case r of Planned plan \<Rightarrow> plans (fc_sessions c) ss plan | Answered _ \<Rightarrow> moves (fc_sessions c) ss"
    and same: "\<And>a sid st st'. r = Answered a \<Longrightarrow> fc_sessions c sid = Some st \<Longrightarrow> ss sid = Some st' \<Longrightarrow> fs_phase st' = fs_phase st"
  shows "fo_inv (on_sessions c ss, ts @ first_tasks offer r)"
proof -
  have moves: "moves (fc_sessions c) ss" using assms(2) by (auto split: first_block.splits intro: plans_moves)
  from assms(1) have ok: "sessions_ok (fc_sessions c)" by (simp add: fo_inv_def)
  have old: "list_all (task_ok ss) ts"
    using assms(1) task_ok_moves [OF moves ok] by (auto simp: fo_inv_def list_all_iff)
  show ?thesis
  proof (cases r)
    case (Answered a)
    have "\<exists>t\<in>set ts. holds_phase t sid (fs_phase st')" if st': "ss sid = Some st'" "busy (fs_phase st') g" for sid st' g
    proof -
      from moves st'(1) obtain st where "fc_sessions c sid = Some st"
        by (auto simp: moves_def split: if_splits)
      with same [OF Answered this st'(1)] assms(1) st'(2) show ?thesis unfolding fo_inv_def by fastforce
    qed
    with old moves_sessions_ok [OF moves ok] Answered show ?thesis by (auto simp: fo_inv_def first_tasks_def)
  next
    case (Planned plan)
    with assms(2) obtain st st' where p: "fc_sessions c (rp_session_id plan) = Some st" "session_move st st'"
      "fs_phase st' = PhPlanning (rp_generation plan)"
      "unat (rp_generation plan) = unat (fs_highest_attempted_generation st') + 1"
      "fs_active_failure_domain st' = rp_active_failure_domain plan" "fs_latest_access st' = rp_cached_access plan"
      "ss = (fc_sessions c)(rp_session_id plan \<mapsto> st')"
      by (auto simp: plans_def)
    have "session_ok st'" using moves_sessions_ok [OF moves ok] p(7) by (metis fun_upd_same sessions_ok_def)
    then have "task_ok ss (TRefresh offer plan)"
      using p by (auto simp: task_ok_def task_fits_def session_ok_def)
    moreover have "\<exists>t\<in>set (ts @ [TRefresh offer plan]). holds_phase t sid (fs_phase x)"
      if "ss sid = Some x" "busy (fs_phase x) g" for sid x g
    proof (cases "sid = rp_session_id plan")
      case True
      with that p show ?thesis by (auto simp: holds_phase_def)
    next
      case False
      with that p(7) assms(1) show ?thesis unfolding fo_inv_def by fastforce
    qed
    ultimately show ?thesis
      using old moves_sessions_ok [OF moves ok] Planned by (auto simp: fo_inv_def first_tasks_def)
  qed
qed

lemma verified_access_wf: "verified_access env keys a \<Longrightarrow> access_wf a"
  unfolding verified_access_def
  by (elim exE verify_response_obtain)
    (drule directory_bound(1), simp add: access_wf_def payload_ok_def strict_sorted_iff)

lemma observe_same_phase:
  assumes "observe_health_begin grace now sid og h ss = (ss', Answered a)" "ss x = Some st" "ss' x = Some st'"
  shows "fs_phase st' = fs_phase st"
  using assms
  by (auto simp: observe_health_begin_def Let_def split: option.splits if_splits relay_migration_phase.splits)

lemma initial_session_facts [simp]:
  "fs_phase (initial_session ctx a c mux d) = PhIdle" "fs_terminal_reason (initial_session ctx a c mux d) = None"
  "fs_generation (initial_session ctx a c mux d) = 0" "fs_highest_attempted_generation (initial_session ctx a c mux d) = 0"
  "fs_latest_access (initial_session ctx a c mux d) = a"
  by (simp_all add: initial_session_def)

lemma install_cases:
  assumes "install_verified_session sha ctx a node evidence mux route now ss = (ss', r)"
  shows "ss' = ss \<or> (\<exists>sid c d. ss sid = None \<and> ss' = ss(sid \<mapsto> initial_session ctx a c mux d))"
proof (cases "route_evidence sha a node 0")
  case (Inr ev)
  show ?thesis
  proof (cases "fst evidence = ev")
    case True
    with assms Inr have "install_session_inner ctx a node mux route now (\<not> snd evidence) ss = (ss', r)"
      by (simp add: install_verified_session_def)
    then show ?thesis
      by (cases "find (\<lambda>c. dc_node_id c = node) (dp_candidates (va_payload a))")
        (simp_all add: install_session_inner_def Let_def split: if_splits, blast)
  qed (use assms Inr in \<open>simp add: install_verified_session_def\<close>)
qed (use assms in \<open>simp add: install_verified_session_def\<close>)

lemma task_call_key:
  "task_call t = Some (sid, Some g) \<Longrightarrow> task_key t = Some (sid, g)" "task_call t = Some (sid, None) \<Longrightarrow> task_key t = None"
  by (cases t; simp)+

lemma fo_inv_install:
  assumes inv: "fo_inv (c, ts)" and "ss = (fc_sessions c)(sid \<mapsto> st)" "fc_sessions c sid = None"
    and "session_ok st" "fs_phase st = PhIdle"
  shows "fo_inv (on_sessions c ss, ts)"
proof -
  have "task_ok ss t" if "task_ok (fc_sessions c) t" for t
    using that assms(2,3) by (fastforce simp: task_ok_def)
  then show ?thesis
    using assms by (auto simp: fo_inv_def sessions_ok_def list_all_iff busy_def)
qed

lemma fo_step_inv:
  assumes "fo_step env keys grace s s'" "fo_inv s"
  shows "fo_inv s'"
  using assms(1)
proof (cases rule: fo_step.cases)
  case (fo_run an t c c' new xs ys)
  with assms(2) have inv: "fo_inv (c, xs @ t # ys)" by simp
  then have ok: "sessions_ok (fc_sessions c)" "task_ok (fc_sessions c) t" by (simp_all add: fo_inv_def)
  have wf: "access_wf a" if "an_refreshed an = Ok a" for a
    using fo_run(4) [OF that] by (rule verified_access_wf)
  show ?thesis
    unfolding fo_run(2)
    by (rule fo_inv_replace [OF inv task_run_moves [OF fo_run(3) ok(2)] task_run_tasks [OF fo_run(3) ok(2) wf]
          task_run_hands_over [OF fo_run(3) ok(1)]])
next
  case (fo_cancel t sid g c xs ys)
  with assms(2) have inv: "fo_inv (c, xs @ t # ys)" by simp
  then have ok: "task_ok (fc_sessions c) t" by (simp add: fo_inv_def)
  show ?thesis
    unfolding fo_cancel(2)
  proof (rule fo_inv_replace [OF inv])
    show "task_ok (fc_sessions c) t'" if "t' \<in> set (drop_guard sid g)" for t'
      using that task_ok_key [OF ok task_call_key(1)] fo_cancel(3) by (auto split: option.splits)
    have "task_key t = map_option (Pair sid) g"
      using task_call_key [of t sid] fo_cancel(3) by (cases g) auto
    then show "hands_over t (fc_sessions c) (drop_guard sid g) (fc_sessions c)"
      by (cases g) (auto simp: hands_over_def holds_phase_def)
  qed simp
next
  case (fo_install ctx a node evidence mux route now c ss r ts)
  with assms(2) have inv: "fo_inv (c, ts)" by simp
  have new: "session_ok (initial_session ctx a x mux d)" for x d
    using verified_access_wf [OF fo_install(4)] by (simp add: session_ok_def)
  have "on_sessions c (fc_sessions c) = c" by (simp add: on_sessions_def)
  with install_cases [OF fo_install(3)] inv new fo_inv_install [OF inv _ _ new] show ?thesis
    unfolding fo_install(2) by (elim disjE exE conjE) simp_all
next
  case (fo_observe now sid observed health c ss r ts)
  with assms(2) have inv: "fo_inv (c, ts)" by simp
  show ?thesis
    unfolding fo_observe(2)
    by (rule fo_inv_begin [OF inv observe_begin_plans [OF fo_observe(3)]])
      (use fo_observe(3) in \<open>auto dest: observe_same_phase\<close>)
next
  case (fo_offer offer c ss r ts)
  with assms(2) have inv: "fo_inv (c, ts)" by simp
  have "case r of Planned plan \<Rightarrow> plans (fc_sessions c) ss plan | Answered _ \<Rightarrow> moves (fc_sessions c) ss"
    "r = Answered a \<Longrightarrow> ss = fc_sessions c" for a
    using offer_begin_plans [OF fo_offer(3)] by (auto split: first_block.splits)
  then show ?thesis unfolding fo_offer(2) by (intro fo_inv_begin [OF inv]) auto
next
  case (fo_terminate c ts sid reason)
  with assms(2) show ?thesis by (auto simp: fo_inv_def)
qed

interpretation fo: state_invariant "\<lambda>s. s = fo_start" "fo_step env keys grace" fo_inv
  for env :: "'v access_env" and keys grace
proof unfold_locales
  fix s s' :: "'b coordinator \<times> 'b task list"
  show "s = fo_start \<Longrightarrow> fo_inv s" by (simp add: fo_start_def fo_inv_def sessions_ok_def)
  show "fo_step env keys grace s s' \<Longrightarrow> fo_inv s \<Longrightarrow> fo_inv s'" by (rule fo_step_inv)
qed

section \<open>Progress\<close>

text \<open>An upper bound on the steps a task and what it spawns can still take.\<close>

fun task_weight :: "'m task \<Rightarrow> nat" where
  "task_weight (TRefresh _ _) = 15"
| "task_weight (TBegin _ _ _) = 14"
| "task_weight (TFreeze _ _ _) = 13"
| "task_weight (TCheck _ _) = 12"
| "task_weight (TExecute _ _ _) = 11"
| "task_weight (TRoute _ _ _) = 10"
| "task_weight (TDiscardBad _ _) = 9"
| "task_weight (TTerminalize _ _ _) = 8"
| "task_weight (TCommit _ _ _) = 7"
| "task_weight (TRetry _ _) = 7"
| "task_weight (TDiscardLate _ _) = 5"
| "task_weight (TGiveUp _ _) = 5"
| "task_weight (TAwaitThaw _ _) = 5"
| "task_weight (TAwaitCleanup _ _) = 5"
| "task_weight (TGuardInspect _ _) = 4"
| "task_weight (TGuardDiscard _ _) = 3"
| "task_weight (TGuardRelease _ _) = 2"
| "task_weight (TCleanupFreeze _) = 2"
| "task_weight (TCleanupClose _) = 1"
| "task_weight (TThaw _) = 1"

definition total_weight :: "'m task list \<Rightarrow> nat" where
  "total_weight ts = sum_list (map task_weight ts)"

lemma total_weight_simps [simp]:
  "total_weight [] = 0" "total_weight (t # ts) = task_weight t + total_weight ts"
  "total_weight (xs @ ys) = total_weight xs + total_weight ys"
  by (simp_all add: total_weight_def)

lemma task_run_weight: "task_run sha an t c = (c', new) \<Longrightarrow> total_weight new < task_weight t"
  by (cases t) (auto simp: Let_def split: prod.splits option.splits bool.splits if_splits sum.splits decision.splits)

lemma cancel_weight: "task_call t = Some (sid, g) \<Longrightarrow> total_weight (drop_guard sid g) < task_weight t"
  by (cases t) (auto split: option.splits)

text \<open>The steps of the tasks under way, without new calls.\<close>

inductive fo_internal ::
  "'v access_env \<Rightarrow> (string, bytes) btree_map \<Rightarrow> 'm coordinator \<times> 'm task list
   \<Rightarrow> 'm coordinator \<times> 'm task list \<Rightarrow> bool" for env keys where
  in_run: "task_run (ax_sha256 env) an t c = (c', new) \<Longrightarrow>
    (\<And>a. an_refreshed an = Ok a \<Longrightarrow> verified_access env keys a) \<Longrightarrow>
    fo_internal env keys (c, xs @ t # ys) (c', xs @ new @ ys)"
| in_cancel: "task_call t = Some (sid, g) \<Longrightarrow>
    fo_internal env keys (c, xs @ t # ys) (c, xs @ drop_guard sid g @ ys)"

lemma internal_step: "fo_internal env keys s s' \<Longrightarrow> fo_step env keys grace s s'"
  by (cases rule: fo_internal.cases) (auto intro: fo_step.intros)

lemma internal_weight: "fo_internal env keys s s' \<Longrightarrow> total_weight (snd s') < total_weight (snd s)"
  by (cases rule: fo_internal.cases) (auto dest: task_run_weight cancel_weight)

lemma internal_run_bound: "(fo_internal env keys ^^ k) s s' \<Longrightarrow> k + total_weight (snd s') \<le> total_weight (snd s)"
proof (induction k arbitrary: s')
  case (Suc k)
  then obtain u where "(fo_internal env keys ^^ k) s u" "fo_internal env keys u s'" by auto
  with Suc.IH internal_weight [of env keys u s'] show ?case by fastforce
qed simp

lemma internal_enabled:
  fixes s :: "'m coordinator \<times> 'm task list"
  assumes "snd s \<noteq> []"
  shows "\<exists>s'. fo_internal env keys s s'"
proof -
  from assms obtain c t ts where s: "s = (c, [] @ t # ts)" by (cases s; cases "snd s") auto
  define an :: "'m answers" where
    "an = \<lparr>an_refreshed = Err BackendUnavailable, an_now_ms = 0, an_froze = False,
       an_executed = Err \<lparr>mf_code = FcTransportUnavailable, mf_terminal_security = False\<rparr>,
       an_route = \<lparr>mx_session_id = [], mx_closed = True\<rparr>\<rparr>"
  obtain c' new where "task_run (ax_sha256 env) an t c = (c', new)" by (meson surj_pair)
  then have "fo_internal env keys s (c', [] @ new @ ts)" unfolding s by (rule in_run) (simp add: an_def)
  then show ?thesis by blast
qed

section \<open>Properties\<close>

lemma moves_session:
  "moves ss ss' \<Longrightarrow> ss sid = Some st \<Longrightarrow> \<exists>st'. ss' sid = Some st' \<and> (st' = st \<or> session_move st st')"
  by (auto simp: moves_def)

lemma fo_step_session:
  assumes "fo_step env keys grace s s'" "fo_inv s" "fc_sessions (fst s) sid = Some st"
  shows "\<exists>st'. fc_sessions (fst s') sid = Some st' \<and> (st' = st \<or> session_move st st')"
  using assms(1)
proof (cases rule: fo_step.cases)
  case (fo_run an t c c' new xs ys)
  with assms(2) have "task_ok (fc_sessions c) t" by (simp add: fo_inv_def)
  from moves_session [OF task_run_moves [OF fo_run(3) this]] fo_run assms(3) show ?thesis by simp
next
  case (fo_install ctx a node evidence mux route now c ss r ts)
  with install_cases [OF fo_install(3)] assms(3) show ?thesis by auto
next
  case (fo_observe now sid' observed health c ss r ts)
  from observe_begin_plans [OF fo_observe(3)] have "moves (fc_sessions c) ss"
    by (auto split: first_block.splits intro: plans_moves)
  from moves_session [OF this] fo_observe assms(3) show ?thesis by simp
next
  case (fo_offer offer c ss r ts)
  from offer_begin_plans [OF fo_offer(3)] have "moves (fc_sessions c) ss"
    by (auto split: first_block.splits intro: plans_moves)
  from moves_session [OF this] fo_offer assms(3) show ?thesis by simp
qed (use assms(3) in simp_all)

lemma task_run_commits:
  assumes "task_run sha an t c = (c', new)" "fc_sessions c sid = Some st" "fc_sessions c' sid = Some st'"
    and "fs_generation st' \<noteq> fs_generation st"
  shows "\<exists>a at cm. t = TCommit a at cm \<and> ma_session_id at = sid \<and> fs_phase st = PhInFlight (ma_generation at) \<and>
    fs_active_failure_domain st' = re_failure_domain (mc_route_evidence cm)"
  using assms
  by (cases t) (auto simp: Let_def begin_flight_def commit_flight_def clear_phase_def
        terminalize_begin_def guard_inspect_def guard_release_def
        split: prod.splits option.splits bool.splits if_splits sum.splits decision.splits)

lemma fo_step_domain:
  assumes step: "fo_step env keys grace s s'" and inv: "fo_inv s"
    and st: "fc_sessions (fst s) sid = Some st" "fc_sessions (fst s') sid = Some st'"
    and gen: "fs_generation st' \<noteq> fs_generation st"
  shows "fs_active_failure_domain st' \<noteq> fs_active_failure_domain st"
  using step
proof (cases rule: fo_step.cases)
  case (fo_run an t c c' new xs ys)
  with st gen task_run_commits [OF fo_run(3)] obtain a at cm where
    t: "t = TCommit a at cm" "ma_session_id at = sid" "fs_phase st = PhInFlight (ma_generation at)"
      "fs_active_failure_domain st' = re_failure_domain (mc_route_evidence cm)" by fastforce
  from inv fo_run(1) have "task_ok (fc_sessions c) t" by (simp add: fo_inv_def)
  with t st(1) fo_run(1) show ?thesis by (auto simp: task_ok_def task_fits_def)
next
  case (fo_install ctx a node evidence mux route now c ss r ts)
  with install_cases [OF fo_install(3)] st gen show ?thesis by (auto split: if_splits)
next
  case (fo_observe now sid' observed health c ss r ts)
  with st gen show ?thesis
    by (auto simp: observe_health_begin_def Let_def split: option.splits if_splits relay_migration_phase.splits)
next
  case (fo_offer offer c ss r ts)
  with st gen show ?thesis
    by (auto simp: accept_offer_begin_def split: option.splits if_splits relay_migration_phase.splits)
qed (use st gen in simp_all)

text \<open>
  The generations of a session.  In every state the coordinator reaches, under any
  interleaving of calls, cancellations, guards and spawned jobs: the active generation never
  exceeds the highest one attempted, a migration being planned has the next generation, one in
  flight has the highest, above the active one, so a generation is put in flight at most once;
  and the session is in the terminal phase exactly when it has a terminal reason.
\<close>

theorem failover_generations:
  assumes "(fo_step env keys grace)\<^sup>*\<^sup>* fo_start (c, ts)" and "fc_sessions c sid = Some st"
  shows "fs_generation st \<le> fs_highest_attempted_generation st \<and>
    (\<forall>g. fs_phase st = PhPlanning g \<longrightarrow> unat g = unat (fs_highest_attempted_generation st) + 1) \<and>
    (\<forall>g. fs_phase st = PhInFlight g \<longrightarrow> g = fs_highest_attempted_generation st \<and> fs_generation st < g) \<and>
    (fs_phase st = PhTerminal \<longleftrightarrow> fs_terminal_reason st \<noteq> None)"
proof -
  from fo.reachable_inv [OF refl assms(1)] assms(2) have "session_ok st"
    by (auto simp: fo_inv_def sessions_ok_def)
  then show ?thesis
    by (cases "fs_phase st") (simp_all add: session_ok_def word_le_nat_alt word_less_nat_alt)
qed

text \<open>
  C21. How a session changes.  Whatever step is taken, a session is never removed, its active
  and its highest attempted generation never decrease, and once terminal it keeps its reason
  and its route for ever.  The route changes only when the migration in flight commits: then
  the generation becomes the larger one in flight, the session was not terminal, and the new
  relay lies in another failure domain than the one it replaces.
\<close>

theorem failover_route_change:
  assumes reach: "(fo_step env keys grace)\<^sup>*\<^sup>* fo_start s" and step: "fo_step env keys grace s s'"
    and st: "fc_sessions (fst s) sid = Some st"
  shows "\<exists>st'. fc_sessions (fst s') sid = Some st' \<and>
    fs_generation st \<le> fs_generation st' \<and>
    fs_highest_attempted_generation st \<le> fs_highest_attempted_generation st' \<and>
    (\<forall>r. fs_terminal_reason st = Some r \<longrightarrow> st' = st\<lparr>fs_terminal_cleanup := fs_terminal_cleanup st'\<rparr>) \<and>
    (fs_generation st' \<noteq> fs_generation st \<or> fs_active_failure_domain st' \<noteq> fs_active_failure_domain st \<or>
       fs_active_node_id st' \<noteq> fs_active_node_id st \<or> fs_active_mux st' \<noteq> fs_active_mux st \<longrightarrow>
     fs_phase st = PhInFlight (fs_generation st') \<and> fs_generation st < fs_generation st' \<and>
     fs_terminal_reason st = None \<and> fs_active_failure_domain st' \<noteq> fs_active_failure_domain st)"
proof -
  note inv = fo.reachable_inv [OF refl reach]
  then have "session_ok st" using st by (cases s) (auto simp: fo_inv_def sessions_ok_def)
  from fo_step_session [OF step inv st] obtain st' where st': "fc_sessions (fst s') sid = Some st'"
    "st' = st \<or> session_move st st'" by blast
  from st'(2) show ?thesis
  proof
    assume "session_move st st'"
    note mono = session_move_mono [OF this \<open>session_ok st\<close>]
    have "fs_active_failure_domain st' \<noteq> fs_active_failure_domain st" if "fs_generation st < fs_generation st'"
      using fo_step_domain [OF step inv st st'(1)] that by auto
    with mono st'(1) show ?thesis by (intro exI [of _ st']) blast
  qed (use st'(1) in auto)
qed

text \<open>
  C22. No session is left behind busy.  Without new calls the tasks under way take only
  boundedly many steps, whatever the world answers and whichever calls are cancelled; while
  a task is left a step is possible; and when none is left every session is idle or terminal,
  never still planning or in flight.
\<close>

theorem failover_quiesces:
  assumes reach: "(fo_step env keys grace)\<^sup>*\<^sup>* fo_start s" and run: "(fo_internal env keys ^^ k) s s'"
  shows "k \<le> total_weight (snd s) \<and> (snd s' \<noteq> [] \<longrightarrow> (\<exists>u. fo_internal env keys s' u)) \<and>
    (snd s' = [] \<longrightarrow> (\<forall>sid st. fc_sessions (fst s') sid = Some st \<longrightarrow> fs_phase st \<in> {PhIdle, PhTerminal}))"
proof -
  have "(fo_step env keys grace)\<^sup>*\<^sup>* s s'"
    using run by (induction k arbitrary: s') (auto intro: rtranclp.rtrancl_into_rtrancl internal_step)
  with reach have "fo_inv s'" using fo.reachable_inv [OF refl] by (meson rtranclp_trans)
  then have "fs_phase st \<in> {PhIdle, PhTerminal}" if "snd s' = []" "fc_sessions (fst s') sid = Some st" for sid st
    using that by (cases s'; cases "fs_phase st") (auto simp: fo_inv_def busy_def)
  with internal_run_bound [OF run] internal_enabled [of s' env keys] show ?thesis by auto
qed

section \<open>A concrete run\<close>

definition demo_access :: verified_relay_access where
  "demo_access = projr (verify_relay_access_response demo_access_env demo_access_context demo_keys [] 1000)"

lemma demo_access_facts [simp]:
  "va_payload demo_access = from_raw_payload demo_access_payload" "va_credentials demo_access = demo_credentials"
  "verified_access demo_access_env demo_keys demo_access" "is_fresh demo_access 1000"
proof -
  obtain b where b: "verify_relay_access_response demo_access_env demo_access_context demo_keys [] 1000 =
     Ok \<lparr>va_directory = \<lparr>cv_verified = \<lparr>vd_payload = from_raw_payload demo_access_payload,
           vd_canonical_signing_bytes = b\<rparr>\<rparr>,
         va_credentials = demo_credentials, va_generation = None, va_relay_url_digest = None\<rparr>"
    using demo_access_value by blast
  then show "va_payload demo_access = from_raw_payload demo_access_payload" "va_credentials demo_access = demo_credentials"
    by (simp_all add: demo_access_def)
  show "verified_access demo_access_env demo_keys demo_access"
    unfolding verified_access_def demo_access_def using b by auto
  show "is_fresh demo_access 1000" using verified_access_facts(3) [OF b] b by (simp add: demo_access_def)
qed

definition demo_answers :: "unit answers" where
  "demo_answers = \<lparr>an_refreshed = Ok demo_access, an_now_ms = 1000, an_froze = True,
     an_executed = Err \<lparr>mf_code = FcTransportUnavailable, mf_terminal_security = False\<rparr>,
     an_route = \<lparr>mx_session_id = ''s'', mx_closed = False\<rparr>\<rparr>"

text \<open>The states of a session of this access that started directly and was seen failing.\<close>

definition demo_session :: "u64 \<Rightarrow> relay_connection_health \<Rightarrow> relay_migration_phase \<Rightarrow> unit relay_session_state" where
  "demo_session highest h ph =
     (initial_session demo_access_context demo_access (hd (dp_candidates (va_payload demo_access))) () True)
       \<lparr>fs_highest_attempted_generation := highest, fs_health := h, fs_phase := ph\<rparr>"

definition demo_state :: "unit relay_session_state \<Rightarrow> session_id set \<Rightarrow> executor_call list \<Rightarrow> unit coordinator" where
  "demo_state st fz calls = \<lparr>fc_sessions = [''s'' \<mapsto> st], fc_frozen = fz, fc_calls = calls\<rparr>"

definition demo_plan :: "u64 \<Rightarrow> recovery_plan" where
  "demo_plan g = \<lparr>rp_session_id = ''s'', rp_generation = g, rp_context = demo_access_context,
     rp_cached_access = demo_access, rp_active_node_id = [], rp_active_failure_domain = []\<rparr>"

definition demo_attempt :: "u64 \<Rightarrow> relay_migration_attempt" where
  "demo_attempt g = attempt_of (demo_plan g) (projr (route_evidence (\<lambda>_. []) demo_access ''n'' g))"

abbreviation demo_reach :: "unit coordinator \<Rightarrow> unit task list \<Rightarrow> bool" where
  "demo_reach c ts \<equiv> (fo_step demo_access_env demo_keys 5000)\<^sup>*\<^sup>* fo_start (c, ts)"

lemma demo_evidence: "\<exists>ev. route_evidence sha demo_access ''n'' g = Ok ev \<and> re_generation ev = g \<and> re_failure_domain ev = ''f''"
  by (simp add: route_evidence_def demo_credentials_def demo_raw_defs)

lemma demo_install: "demo_reach (demo_state (demo_session 0 HConnected PhIdle) {} []) []"
proof -
  obtain ev where ev: "route_evidence (ax_sha256 demo_access_env) demo_access ''n'' 0 = Ok ev" using demo_evidence by blast
  have "install_verified_session (ax_sha256 demo_access_env) demo_access_context demo_access ''n'' (ev, False) ()
      \<lparr>mx_session_id = ''s'', mx_closed = False\<rparr> 1000 Map.empty = ([''s'' \<mapsto> demo_session 0 HConnected PhIdle], Ok ())"
    using ev by (simp add: install_verified_session_def install_session_inner_def demo_session_def)
      (simp add: demo_access_context_def demo_credentials_def demo_raw_defs initial_session_def)
  then have "fo_step demo_access_env demo_keys 5000 fo_start
      (on_sessions \<lparr>fc_sessions = Map.empty, fc_frozen = {}, fc_calls = []\<rparr> [''s'' \<mapsto> demo_session 0 HConnected PhIdle], [])"
    unfolding fo_start_def by (intro fo_install [OF _ demo_access_facts(3)]) simp
  then show ?thesis by (simp add: demo_state_def on_sessions_def)
qed

lemma demo_observe:
  assumes "demo_reach (demo_state (demo_session k h PhIdle) fz calls) ts" "k = 0 \<or> k = 1"
  shows "demo_reach (demo_state (demo_session k HFailed (PhPlanning (k + 1))) fz calls) (ts @ [TRefresh None (demo_plan (k + 1))])"
proof -
  have "observe_health_begin 5000 1000 ''s'' 0 HFailed [''s'' \<mapsto> demo_session k h PhIdle] =
      ([''s'' \<mapsto> demo_session k HFailed (PhPlanning (k + 1))], Planned (demo_plan (k + 1)))"
    using assms(2)
    by (auto simp: observe_health_begin_def demo_session_def initial_session_def plan_of_def demo_plan_def checked_add_def)
  then have "fo_step demo_access_env demo_keys 5000 (demo_state (demo_session k h PhIdle) fz calls, ts)
      (on_sessions (demo_state (demo_session k h PhIdle) fz calls) [''s'' \<mapsto> demo_session k HFailed (PhPlanning (k + 1))],
       ts @ first_tasks None (Planned (demo_plan (k + 1))))"
    by (intro fo_observe) (simp add: demo_state_def)
  with assms(1) show ?thesis
    by (auto simp: on_sessions_def first_tasks_def demo_state_def intro: rtranclp.rtrancl_into_rtrancl)
qed

lemma demo_refresh_context: "k = 1 \<or> k = 2 \<Longrightarrow> is_ok (refresh_context_of (\<lambda>_. []) (demo_plan k))"
proof -
  assume k: "k = 1 \<or> k = 2"
  have "is_ok (for_refresh (\<lambda>_. []) ''s'' 5 ''p'' 0)" "is_ok (for_refresh (\<lambda>_. []) ''s'' 5 ''p'' 1)" by code_simp+
  with k show ?thesis
    by (auto simp: refresh_context_of_def demo_plan_def checked_sub_def is_ok_iff demo_access_context_def)
qed

lemma demo_refresh: "k = 1 \<or> k = 2 \<Longrightarrow> task_run (ax_sha256 demo_access_env) demo_answers (TRefresh None (demo_plan k)) c =
    (c, [TBegin None demo_access (demo_attempt k)])"
  using demo_evidence [of "\<lambda>_. []" k] demo_refresh_context [of k]
  by (auto simp: is_ok_iff recover_choose_def choose_access_def demo_answers_def demo_access_env_def demo_attempt_def)
     (simp_all add: demo_plan_def demo_credentials_def demo_raw_defs)

lemma demo_go_any:
  assumes "demo_reach c (xs @ t # ys)" "task_run (ax_sha256 demo_access_env) an t c = (c', new)"
    and "an_refreshed an \<in> {Ok demo_access, Err BackendUnavailable}"
  shows "demo_reach c' (xs @ new @ ys)"
  using assms(1) by (rule rtranclp.rtrancl_into_rtrancl)
    (rule fo_run [OF assms(2)], use assms(3) demo_access_facts(3) in auto)

lemma demo_go:
  assumes "demo_reach c (xs @ t # ys)" "task_run (ax_sha256 demo_access_env) demo_answers t c = (c', new)"
  shows "demo_reach c' (xs @ new @ ys)"
  using assms by (rule demo_go_any) (simp add: demo_answers_def)

lemma demo_attempt_ids [simp]: "ma_session_id (demo_attempt g) = ''s''" "ma_generation (demo_attempt g) = g"
  by (simp_all add: demo_attempt_def attempt_of_def demo_plan_def)

lemma demo_session_fields [simp]:
  "fs_phase (demo_session k h ph) = ph" "fs_terminal_reason (demo_session k h ph) = None"
  "(demo_session k h ph)\<lparr>fs_phase := ph'\<rparr> = demo_session k h ph'"
  "(demo_session k h ph)\<lparr>fs_highest_attempted_generation := k'\<rparr> = demo_session k' h ph"
  by (simp_all add: demo_session_def initial_session_def)

lemma demo_state_simps [simp]:
  "fc_sessions (demo_state st fz calls) = [''s'' \<mapsto> st]" "fc_frozen (demo_state st fz calls) = fz"
  "fc_calls (demo_state st fz calls) = calls"
  "on_sessions (demo_state st fz calls) [''s'' \<mapsto> st'] = demo_state st' fz calls"
  "freeze ''s'' (demo_state st fz calls) = demo_state st (insert ''s'' fz) calls"
  "thaw ''s'' (demo_state st fz calls) = demo_state st (fz - {''s''}) calls"
  "log_call x (demo_state st fz calls) = demo_state st fz (calls @ [x])"
  by (simp_all add: demo_state_def on_sessions_def freeze_def thaw_def log_call_def)

lemma demo_flight:
  assumes "demo_reach (demo_state (demo_session k HFailed (PhPlanning g)) fz calls) (xs @ TRefresh None (demo_plan g) # ys)"
    and "g = 1 \<or> g = 2"
  shows "demo_reach (demo_state (demo_session g HFailed (PhInFlight g)) (insert ''s'' fz) calls)
    (xs @ TExecute None demo_access (demo_attempt g) # ys)"
proof -
  note 1 = demo_go [OF assms(1) demo_refresh [OF assms(2)]]
  note 2 = demo_go [OF 1 [simplified], of "demo_state (demo_session g HFailed (PhInFlight g)) fz calls"
      "[TFreeze None demo_access (demo_attempt g)]", simplified begin_flight_def]
  note 3 = demo_go [OF 2 [simplified], of "demo_state (demo_session g HFailed (PhInFlight g)) (insert ''s'' fz) calls"
      "[TCheck demo_access (demo_attempt g)]"]
  note 4 = demo_go [OF 3 [simplified], of "demo_state (demo_session g HFailed (PhInFlight g)) (insert ''s'' fz) calls"
      "[TExecute None demo_access (demo_attempt g)]"]
  show ?thesis using 4 by (simp add: still_in_flight_def begin_flight_def demo_answers_def)
qed

lemma demo_retry:
  assumes "demo_reach (demo_state (demo_session g HFailed (PhInFlight g)) fz calls)
    (xs @ TExecute None demo_access (demo_attempt g) # ys)"
  shows "demo_reach (demo_state (demo_session g HFailed PhIdle) fz (calls @ [CallMigrate (demo_attempt g)]))
    (xs @ [TAwaitThaw ''s'' g, TThaw ''s''] @ ys)"
proof -
  note 1 = demo_go [OF assms, of "demo_state (demo_session g HFailed (PhInFlight g)) fz (calls @ [CallMigrate (demo_attempt g)])"
      "[TRetry ''s'' g]"]
  note 2 = demo_go [OF 1 [simplified], of "demo_state (demo_session g HFailed PhIdle) fz (calls @ [CallMigrate (demo_attempt g)])"
      "[TAwaitThaw ''s'' g, TThaw ''s'']"]
  show ?thesis using 2 by (simp add: demo_answers_def clear_phase_def)
qed

lemma demo_first_retry:
  "demo_reach (demo_state (demo_session 1 HFailed PhIdle) {''s''} [CallMigrate (demo_attempt 1)])
    [TAwaitThaw ''s'' 1, TThaw ''s'']"
proof -
  from demo_observe [OF demo_install]
  have "demo_reach (demo_state (demo_session 0 HFailed (PhPlanning 1)) {} []) ([] @ TRefresh None (demo_plan 1) # [])" by simp
  from demo_retry [OF demo_flight [OF this]] show ?thesis by simp
qed

lemma demo_second_flight:
  "demo_reach (demo_state (demo_session 2 HFailed (PhInFlight 2)) {''s''} [CallMigrate (demo_attempt 1)])
    [TAwaitThaw ''s'' 1, TThaw ''s'', TExecute None demo_access (demo_attempt 2)]"
proof -
  from demo_observe [OF demo_first_retry]
  have "demo_reach (demo_state (demo_session 1 HFailed (PhPlanning 2)) {''s''} [CallMigrate (demo_attempt 1)])
    ([TAwaitThaw ''s'' 1, TThaw ''s''] @ TRefresh None (demo_plan 2) # [])" by simp
  from demo_flight [OF this] show ?thesis by simp
qed

lemma demo_late_thaw:
  "demo_reach (demo_state (demo_session 2 HFailed (PhInFlight 2)) {} [CallMigrate (demo_attempt 1)])
    [TAwaitThaw ''s'' 1, TExecute None demo_access (demo_attempt 2)]"
  using demo_go [of _ "[TAwaitThaw ''s'' 1]" "TThaw ''s''" "[TExecute None demo_access (demo_attempt 2)]"] demo_second_flight
  by simp

abbreviation demo_closed :: "bool \<Rightarrow> unit relay_session_state" where
  "demo_closed cleaned \<equiv> (demo_session 1 HFailed PhTerminal)
     \<lparr>fs_terminal_reason := Some RelayRevoked, fs_terminal_cleanup := Some cleaned\<rparr>"

lemma demo_terminal_thaw:
  "demo_reach (demo_state (demo_closed True) {} [CallMigrate (demo_attempt 1), CallCloseAll ''s''])
    [TAwaitThaw ''s'' 1, TAwaitCleanup ''s'' None]"
proof -
  let ?c = "demo_state (demo_session 1 HFailed PhIdle) {''s''} [CallMigrate (demo_attempt 1)]"
  have "demo_reach ?c ([TAwaitThaw ''s'' 1, TThaw ''s''] @ TTerminalize ''s'' RelayRevoked None # [])"
    using rtranclp.rtrancl_into_rtrancl [OF demo_first_retry fo_terminate] by simp
  note 1 = demo_go [OF this, of "demo_state (demo_closed False) {''s''} [CallMigrate (demo_attempt 1)]"
      "[TAwaitCleanup ''s'' None, TCleanupFreeze ''s'']"]
  have 2: "demo_reach (demo_state (demo_closed False) {''s''} [CallMigrate (demo_attempt 1)])
      ([TAwaitThaw ''s'' 1, TThaw ''s'', TAwaitCleanup ''s'' None] @ TCleanupFreeze ''s'' # [])"
    using 1 by (simp add: terminalize_begin_def)
  note 3 = demo_go [OF 2, of "demo_state (demo_closed False) {''s''} [CallMigrate (demo_attempt 1)]" "[TCleanupClose ''s'']"]
  have 4: "demo_reach (demo_state (demo_closed False) {''s''} [CallMigrate (demo_attempt 1)])
      ([TAwaitThaw ''s'' 1, TThaw ''s'', TAwaitCleanup ''s'' None] @ TCleanupClose ''s'' # [])"
    using 3 by simp
  note 5 = demo_go [OF 4, of "demo_state (demo_closed True) {''s''} [CallMigrate (demo_attempt 1), CallCloseAll ''s'']" "[]"]
  have 6: "demo_reach (demo_state (demo_closed True) {''s''} [CallMigrate (demo_attempt 1), CallCloseAll ''s''])
      ([TAwaitThaw ''s'' 1] @ TThaw ''s'' # [TAwaitCleanup ''s'' None])"
    using 5 by simp
  note 7 = demo_go [OF 6, of "demo_state (demo_closed True) {} [CallMigrate (demo_attempt 1), CallCloseAll ''s'']" "[]"]
  show ?thesis using 7 by simp
qed

text \<open>The same session with a backend that is down, after the cached access has run out.\<close>

definition demo_outage :: "unit answers" where
  "demo_outage = demo_answers\<lparr>an_refreshed := Err BackendUnavailable, an_now_ms := 9000\<rparr>"

lemma demo_stale_guard:
  "demo_reach (demo_state (demo_session 1 HFailed (PhInFlight 1)) {''s''} [])
    [TGuardInspect ''s'' 1, TExecute None demo_access (demo_attempt 1)]"
proof -
  from demo_observe [OF demo_install]
  have 1: "demo_reach (demo_state (demo_session 0 HFailed (PhPlanning 1)) {} []) ([] @ TRefresh None (demo_plan 1) # [])" by simp
  have ctx: "is_ok (refresh_context_of (\<lambda>_. []) (demo_plan 1))" by (rule demo_refresh_context) simp
  have giveup: "task_run (ax_sha256 demo_access_env) demo_outage (TRefresh None (demo_plan 1)) c = (c, [TGiveUp ''s'' 1])" for c :: "unit coordinator"
    using ctx by (auto simp: is_ok_iff recover_choose_def choose_access_def demo_outage_def demo_access_env_def)
      (simp_all add: demo_plan_def is_fresh_def is_terminal_security_def demo_raw_defs)
  from demo_go_any [OF 1 giveup]
  have "demo_reach (demo_state (demo_session 0 HFailed (PhPlanning 1)) {} []) ([] @ TGiveUp ''s'' 1 # [])" by (simp add: demo_outage_def)
  from demo_go [OF this, of "demo_state (demo_session 0 HFailed PhIdle) {} []" "[TGuardInspect ''s'' 1]"]
  have "demo_reach (demo_state (demo_session 0 HFailed PhIdle) {} []) [TGuardInspect ''s'' 1]"
    by (simp add: clear_phase_def demo_outage_def)
  from demo_observe [OF this]
  have "demo_reach (demo_state (demo_session 0 HFailed (PhPlanning 1)) {} []) ([TGuardInspect ''s'' 1] @ TRefresh None (demo_plan 1) # [])"
    by simp
  from demo_flight [OF this] show ?thesis by simp
qed

lemma demo_stale_thaw:
  "demo_reach (demo_state (demo_session 1 HFailed PhIdle) {} [CallDiscardLoser ''s'' 1])
    [TExecute None demo_access (demo_attempt 1)]"
proof -
  let ?x = "[TExecute None demo_access (demo_attempt 1)]"
  let ?c = "demo_state (demo_session 1 HFailed (PhInFlight 1)) {''s''}"
  have "demo_reach (?c []) ([] @ TGuardInspect ''s'' 1 # ?x)" using demo_stale_guard by simp
  from demo_go [OF this, of "?c []" "[TGuardDiscard ''s'' 1]"]
  have "demo_reach (?c []) ([] @ TGuardDiscard ''s'' 1 # ?x)" by (simp add: guard_inspect_def)
  from demo_go [OF this, of "?c [CallDiscardLoser ''s'' 1]" "[TGuardRelease ''s'' 1]"]
  have "demo_reach (?c [CallDiscardLoser ''s'' 1]) ([] @ TGuardRelease ''s'' 1 # ?x)" by simp
  from demo_go [OF this, of "demo_state (demo_session 1 HFailed PhIdle) {''s''} [CallDiscardLoser ''s'' 1]" "[TThaw ''s'']"]
  have "demo_reach (demo_state (demo_session 1 HFailed PhIdle) {''s''} [CallDiscardLoser ''s'' 1]) ([] @ TThaw ''s'' # ?x)"
    by (simp add: guard_release_def)
  from demo_go [OF this, of "demo_state (demo_session 1 HFailed PhIdle) {} [CallDiscardLoser ''s'' 1]" "[]"]
  show ?thesis by simp
qed

text \<open>
  C30. The input barrier can be lifted by a job that no longer owns it.  A thaw is spawned
  after the phase has gone back to idle, so one left over from the first attempt can run after
  the second attempt went in flight and froze the session, and the second migration executes
  while input is accepted; and it can run after the session was terminated and the cleanup that
  freezes it for good has completed.  An attempt that gives up before going in flight leaves
  its generation to the next one, so its dropped guard can take that attempt for its own: it
  has the attempt discarded and thaws the session while the migration is still executing.
\<close>

theorem failover_thaw_race:
  "(\<exists>(c :: unit coordinator) ts st a attempt. (fo_step demo_access_env demo_keys 5000)\<^sup>*\<^sup>* fo_start (c, ts) \<and>
      fc_sessions c ''s'' = Some st \<and> fs_phase st = PhInFlight (ma_generation attempt) \<and>
      TExecute None a attempt \<in> set ts \<and> ma_session_id attempt = ''s'' \<and> ''s'' \<notin> fc_frozen c) \<and>
   (\<exists>(c :: unit coordinator) ts st. (fo_step demo_access_env demo_keys 5000)\<^sup>*\<^sup>* fo_start (c, ts) \<and>
      fc_sessions c ''s'' = Some st \<and> fs_phase st = PhTerminal \<and> fs_terminal_cleanup st = Some True \<and> ''s'' \<notin> fc_frozen c) \<and>
   (\<exists>(c :: unit coordinator) ts st a attempt. (fo_step demo_access_env demo_keys 5000)\<^sup>*\<^sup>* fo_start (c, ts) \<and>
      fc_sessions c ''s'' = Some st \<and> fs_phase st = PhIdle \<and> TExecute None a attempt \<in> set ts \<and>
      ma_session_id attempt = ''s'' \<and> ''s'' \<notin> fc_frozen c \<and>
      fc_calls c = [CallDiscardLoser ''s'' (ma_generation attempt)])"
proof (intro conjI exI)
  show "demo_reach (demo_state (demo_session 2 HFailed (PhInFlight 2)) {} [CallMigrate (demo_attempt 1)])
    [TAwaitThaw ''s'' 1, TExecute None demo_access (demo_attempt 2)]" by (rule demo_late_thaw)
  show "demo_reach (demo_state (demo_closed True) {} [CallMigrate (demo_attempt 1), CallCloseAll ''s''])
    [TAwaitThaw ''s'' 1, TAwaitCleanup ''s'' None]" by (rule demo_terminal_thaw)
  show "demo_reach (demo_state (demo_session 1 HFailed PhIdle) {} [CallDiscardLoser ''s'' 1])
    [TExecute None demo_access (demo_attempt 1)]" by (rule demo_stale_thaw)
qed (simp_all, simp_all)

theorem failover_generations_witness:
  "\<exists>(c :: unit coordinator) ts st. (fo_step demo_access_env demo_keys 5000)\<^sup>*\<^sup>* fo_start (c, ts) \<and> fc_sessions c ''s'' = Some st \<and>
     fs_phase st = PhInFlight 2 \<and> fs_highest_attempted_generation st = 2 \<and> fs_generation st < 2 \<and> fs_terminal_reason st = None"
  using failover_generations [OF demo_second_flight, of "''s''"] demo_second_flight
  by (intro exI conjI) (rule demo_second_flight, simp_all, simp_all)

text \<open>The first attempt succeeds.\<close>

definition demo_commit :: "unit relay_migration_commit" where
  "demo_commit = \<lparr>mc_generation = 1, mc_route_evidence = ma_route_evidence (demo_attempt 1), mc_mux = ()\<rparr>"

definition demo_committed :: "unit coordinator" where
  "demo_committed = on_sessions (demo_state (demo_session 1 HFailed (PhInFlight 1)) {''s''} [CallMigrate (demo_attempt 1)])
     (fst (commit_flight ''s'' 1 demo_access demo_commit [''s'' \<mapsto> demo_session 1 HFailed (PhInFlight 1)]))"

lemma demo_executed:
  "demo_reach (demo_state (demo_session 1 HFailed (PhInFlight 1)) {''s''} [CallMigrate (demo_attempt 1)])
    [TCommit demo_access (demo_attempt 1) demo_commit]"
proof -
  let ?an = "demo_answers\<lparr>an_executed := Ok demo_commit\<rparr>"
  let ?c = "demo_state (demo_session 1 HFailed (PhInFlight 1)) {''s''}"
  from demo_observe [OF demo_install]
  have "demo_reach (demo_state (demo_session 0 HFailed (PhPlanning 1)) {} []) ([] @ TRefresh None (demo_plan 1) # [])" by simp
  from demo_flight [OF this] have "demo_reach (?c []) ([] @ TExecute None demo_access (demo_attempt 1) # [])" by simp
  from demo_go_any [OF this, of ?an "?c [CallMigrate (demo_attempt 1)]" "[TRoute demo_access (demo_attempt 1) demo_commit]"]
  have "demo_reach (?c [CallMigrate (demo_attempt 1)]) ([] @ TRoute demo_access (demo_attempt 1) demo_commit # [])"
    by (simp add: demo_answers_def)
  from demo_go [OF this, of "?c [CallMigrate (demo_attempt 1)]" "[TCommit demo_access (demo_attempt 1) demo_commit]"]
  show ?thesis by (simp add: demo_answers_def commit_matches_def demo_commit_def)
qed

lemma demo_commit_step:
  "fo_step demo_access_env demo_keys 5000
     (demo_state (demo_session 1 HFailed (PhInFlight 1)) {''s''} [CallMigrate (demo_attempt 1)],
      [] @ TCommit demo_access (demo_attempt 1) demo_commit # [])
     (demo_committed, [] @ [TAwaitThaw ''s'' 1, TThaw ''s''] @ [])"
  by (rule fo_run [of _ demo_answers])
    (use demo_access_facts(3) in \<open>auto simp: demo_answers_def demo_committed_def commit_flight_def Let_def\<close>)

theorem failover_route_change_witness:
  "\<exists>(s :: unit coordinator \<times> unit task list) s' st st'. (fo_step demo_access_env demo_keys 5000)\<^sup>*\<^sup>* fo_start s \<and>
     fo_step demo_access_env demo_keys 5000 s s' \<and> fc_sessions (fst s) ''s'' = Some st \<and> fc_sessions (fst s') ''s'' = Some st' \<and>
     fs_generation st' = 1 \<and> fs_generation st < fs_generation st' \<and>
     fs_active_failure_domain st' \<noteq> fs_active_failure_domain st"
proof -
  let ?s = "(demo_state (demo_session 1 HFailed (PhInFlight 1)) {''s''} [CallMigrate (demo_attempt 1)],
      [TCommit demo_access (demo_attempt 1) demo_commit])"
  have st: "fc_sessions (fst ?s) ''s'' = Some (demo_session 1 HFailed (PhInFlight 1))"
    and g: "fs_generation (demo_session 1 HFailed (PhInFlight 1)) = 0" by (simp_all add: demo_session_def initial_session_def)
  note step = demo_commit_step [simplified append_Nil append_Nil2]
  have g': "fs_generation x = 1" if "fc_sessions demo_committed ''s'' = Some x" for x
    using that by (auto simp: demo_committed_def commit_flight_def Let_def)
  from failover_route_change [OF demo_executed step st, unfolded fst_conv] obtain st' where
    "fc_sessions demo_committed ''s'' = Some st'"
    "fs_generation st' \<noteq> fs_generation (demo_session 1 HFailed (PhInFlight 1)) \<longrightarrow>
       fs_generation (demo_session 1 HFailed (PhInFlight 1)) < fs_generation st' \<and>
       fs_active_failure_domain st' \<noteq> fs_active_failure_domain (demo_session 1 HFailed (PhInFlight 1))" by blast
  with g g' have "fs_generation st' = 1" "fs_generation (demo_session 1 HFailed (PhInFlight 1)) < fs_generation st'"
    "fs_active_failure_domain st' \<noteq> fs_active_failure_domain (demo_session 1 HFailed (PhInFlight 1))" by auto
  with demo_executed step st \<open>fc_sessions _ _ = Some st'\<close> show ?thesis by (metis fst_conv)
qed

theorem failover_quiesces_witness:
  "(fo_step demo_access_env demo_keys 5000)\<^sup>*\<^sup>* fo_start
     (demo_state (demo_session 2 HFailed (PhInFlight 2)) {} [CallMigrate (demo_attempt 1)],
      [TAwaitThaw ''s'' 1, TExecute None demo_access (demo_attempt 2)]) \<and>
   (\<exists>u. fo_internal demo_access_env demo_keys
     (demo_state (demo_session 2 HFailed (PhInFlight 2)) {} [CallMigrate (demo_attempt 1)],
      [TAwaitThaw ''s'' 1, TExecute None demo_access (demo_attempt 2)]) u)"
  using failover_quiesces [OF demo_late_thaw, of 0, OF relpowp_0_I] demo_late_thaw by (intro conjI) (assumption, simp)

end
