(* ===== verification/Session_Authorization.thy ===== *)
theory Session_Authorization
  imports Device_Identity
begin

text \<open>
  The service's authorization registry (\<open>mrd-service/src/session_authorization.rs\<close>, with the
  types it takes from \<open>crates/mrd-ipc\<close>): requests of remote peers, the local user's consent,
  unattended access, installed grants, their expiry and revocation, and the bounded history of
  events.  Every method locks the registry once, so it is a function of the registry; methods
  that wait are their reading step, repeated after each change, and the expiry they call.
  The texts of failure messages and the wake-up of waiting readers are left out; the parts
  compiled for Windows (receipts of outgoing sessions) are included.  The clock, the generated
  credential and the audit callback are arguments.
\<close>

section \<open>Data\<close>

type_synonym remote_permission_scope = permission_scope

datatype remote_reason_code =
    RcIdentityMismatch | RcCertificateBindingMismatch | RcTrustRequired | RcConsentDenied
  | RcCredentialInvalid | RcCredentialLocked | RcAuthorizationTimeout | RcGrantExpired
  | RcGrantRevoked | RcPolicyChanged | RcReplayDetected | RcScopeDenied
  | RcProtocolDowngradeBlocked | RcLanUnreachable | RcIceDirectFailed | RcTurnAllocationFailed
  | RcRouteLost | RcRouteMigrationTimeout | RcEncoderUnavailable | RcDecoderUnavailable
  | RcCaptureSourceLost | RcProfileDowngraded | RcCongestionDownshift | RcRenderBudgetExceeded

record remote_failure =
  rf_code :: remote_reason_code

datatype remote_access_mode = Attended | Unattended

datatype remote_session_role = RoleController | RoleAgent

datatype remote_authorization_state =
    AuDiscovered | AuAuthenticating | AuAuthorizing | AuAwaitingLocalConsent
  | AuVerifyingUnattendedCredential | AuGranted | AuDenied | AuExpired | AuRevoked
  | AuLockedOut | AuPolicyChanged

datatype remote_route_kind = RkLanQuic | RkWebRtcDirect | RkWebRtcRelay

datatype remote_route_state =
    RtIdle | RtGathering | RtConnecting | RtConnected | RtMigrating | RtReconnecting | RtFailed | RtClosed

datatype remote_media_state = MdIdle | MdStarting | MdStreaming | MdDegraded | MdPaused | MdStopped | MdFailed

datatype remote_presentation_state =
    PsIncomingApprovalRequired | PsAuthenticating | PsConnecting | PsConnectedWithoutMedia
  | PsStreaming | PsDegraded | PsReconnecting | PsDenied | PsFailed | PsClosed

record remote_session_snapshot =
  sn_session_id :: session_id
  sn_role :: remote_session_role
  sn_peer_device_id :: device_id
  sn_peer_key_id :: string
  sn_access_mode :: remote_access_mode
  sn_authorization_state :: remote_authorization_state
  sn_route_state :: remote_route_state
  sn_route_kind :: "remote_route_kind option"
  sn_media_state :: remote_media_state
  sn_presentation_state :: remote_presentation_state
  sn_requested_scopes :: "remote_permission_scope list"
  sn_granted_scopes :: "remote_permission_scope list"
  sn_policy_revision :: u64
  sn_failure :: "remote_failure option"
  sn_created_at_ms :: u64
  sn_updated_at_ms :: u64
  sn_authorization_expires_at_ms :: "u64 option"

datatype local_consent_decision = Approve | Deny

record consent_response =
  cp_session_id :: session_id
  cp_decision :: local_consent_decision
  cp_approved_scopes :: "remote_permission_scope list"
  cp_expected_policy_revision :: u64

record unattended_access_policy =
  up_trusted_devices_only :: bool
  up_allowed_peer_key_ids :: "string list"
  up_permission_ceiling :: "remote_permission_scope list"
  up_expires_at_ms :: "u64 option"

record unattended_access_snapshot =
  us_enabled :: bool
  us_policy_revision :: u64
  us_access_epoch :: u64
  us_policy :: unattended_access_policy
  us_locked_until_ms :: "u64 option"
  us_updated_at_ms :: u64

text \<open>The events this registry emits.\<close>

datatype remote_session_event =
    EvConsentRequested "remote_permission_scope list"
  | EvConsentResolved local_consent_decision "remote_permission_scope list"
  | EvAuthorizationChanged remote_authorization_state "remote_failure option"
  | EvRouteChanged remote_route_state "remote_route_kind option" "remote_failure option"
  | EvMediaChanged remote_media_state "remote_failure option"
  | EvSessionClosed "remote_failure option"

record remote_session_event_envelope =
  ee_sequence :: u64
  ee_timestamp_ms :: u64
  ee_session_id :: session_id
  ee_event :: remote_session_event

datatype consent_resolution_error = CrRejected remote_failure | CrAuditUnavailable

record verified_incoming_authorization_request =
  vq_session_id :: session_id
  vq_peer_device_id :: device_id
  vq_peer_key_id :: string
  vq_peer_key_epoch :: u64
  vq_access_mode :: remote_access_mode
  vq_requested_scopes :: "remote_permission_scope list"
  vq_peer_permission_ceiling :: "remote_permission_scope list"
  vq_machine_permission_ceiling :: "remote_permission_scope list"
  vq_runtime_capabilities :: "remote_permission_scope list"
  vq_transport_kind :: string
  vq_request_nonce :: bytes
  vq_created_at_ms :: u64
  vq_expires_at_ms :: u64

record verified_session_grant =
  vg_grant_id :: string
  vg_session_id :: session_id
  vg_granted_scopes :: "remote_permission_scope list"
  vg_issued_at_ms :: u64
  vg_expires_at_ms :: u64
  vg_policy_revision :: u64
  vg_route_constraint :: string
  vg_transport_fingerprint_sha256 :: bytes

text \<open>\<open>az_cancellation\<close> is the value last sent on the record's watch channel.\<close>

record authorization_record =
  az_instance_id :: u64
  az_request :: verified_incoming_authorization_request
  az_snapshot :: remote_session_snapshot
  az_grant :: "verified_session_grant option"
  az_peer_public_key :: "bytes option"
  az_cancellation :: bool

record active_control_authorization_t =
  ca_session_id :: session_id
  ca_role :: remote_session_role
  ca_peer_device_id :: device_id
  ca_peer_key_id :: string
  ca_peer_public_key :: bytes
  ca_grant_id :: bytes
  ca_granted_scopes :: "remote_permission_scope list"
  ca_expires_at_ms :: u64
  ca_policy_revision :: u64

text \<open>
  A lease holds a receiver of its record's channel, named by the record's instance.
  \<open>ai_receipts\<close> are the receipts of outgoing sessions that are still held somewhere, with
  their values; observers refer to them weakly.
\<close>

record session_authorization_lease =
  le_session_id :: session_id
  le_instance_id :: u64
  le_expires_at_ms :: u64

record authorization_registry_inner =
  ai_records :: "(session_id, authorization_record) hash_map"
  ai_events :: "remote_session_event_envelope list"
  ai_next_sequence :: u64
  ai_next_instance_id :: u64
  ai_outgoing_birth_observers :: "(session_id, nat list) hash_map"
  ai_receipts :: "(nat, u64) hash_map"
  ai_next_receipt :: nat

record unattended_authorization_state =
  ua_credential :: "unattended_credential option"
  ua_access_epoch :: u64
  ua_policy_revision :: u64
  ua_policy :: unattended_access_policy

record session_authorization_registry =
  rg_inner :: authorization_registry_inner
  rg_unattended :: unattended_authorization_state

definition registry_default :: session_authorization_registry where
  "registry_default =
     \<lparr>rg_inner = \<lparr>ai_records = [], ai_events = [], ai_next_sequence = 0, ai_next_instance_id = 0,
        ai_outgoing_birth_observers = [], ai_receipts = [], ai_next_receipt = 0\<rparr>,
      rg_unattended = \<lparr>ua_credential = None, ua_access_epoch = 0, ua_policy_revision = 1,
        ua_policy = \<lparr>up_trusted_devices_only = True, up_allowed_peer_key_ids = [],
          up_permission_ceiling = [], up_expires_at_ms = None\<rparr>\<rparr>\<rparr>"

definition EVENT_HISTORY_LIMIT :: nat where "EVENT_HISTORY_LIMIT = 1024"
definition AUTHORIZATION_RECORD_LIMIT :: nat where "AUTHORIZATION_RECORD_LIMIT = 2048"
definition TERMINAL_RECORD_RETENTION_MS :: u64 where "TERMINAL_RECORD_RETENTION_MS = 600000"
definition MAX_PENDING_INCOMING_AUTHORIZATIONS :: nat where "MAX_PENDING_INCOMING_AUTHORIZATIONS = 64"
definition MAX_PENDING_INCOMING_PER_PEER :: nat where "MAX_PENDING_INCOMING_PER_PEER = 4"
definition MAX_OUTGOING_BIRTH_OBSERVERS :: nat where "MAX_OUTGOING_BIRTH_OBSERVERS = 128"
definition MAX_OUTGOING_BIRTH_OBSERVERS_PER_SESSION :: nat where "MAX_OUTGOING_BIRTH_OBSERVERS_PER_SESSION = 8"

lemmas authorization_limits = EVENT_HISTORY_LIMIT_def AUTHORIZATION_RECORD_LIMIT_def
  TERMINAL_RECORD_RETENTION_MS_def MAX_PENDING_INCOMING_AUTHORIZATIONS_def
  MAX_PENDING_INCOMING_PER_PEER_def MAX_OUTGOING_BIRTH_OBSERVERS_def
  MAX_OUTGOING_BIRTH_OBSERVERS_PER_SESSION_def

definition pending_outgoing_peer_key_id :: "device_id \<Rightarrow> string" where
  "pending_outgoing_peer_key_id peer_device_id = ''pending_authenticated_peer:'' @ peer_device_id"

section \<open>Helpers\<close>

unbundle bit_operations_syntax

definition failure :: "remote_reason_code \<Rightarrow> remote_failure" where
  "failure code = \<lparr>rf_code = code\<rparr>"

definition normalize_scopes :: "remote_permission_scope list \<Rightarrow> remote_permission_scope list" where
  "normalize_scopes scopes = remdups_adj (sort scopes)"

definition effective_scopes ::
  "remote_permission_scope list \<Rightarrow> remote_permission_scope list \<Rightarrow> remote_permission_scope list
   \<Rightarrow> remote_permission_scope list \<Rightarrow> remote_permission_scope list \<Rightarrow> remote_permission_scope list" where
  "effective_scopes requested peer_ceiling machine_ceiling local_approval runtime_capabilities =
     filter (\<lambda>scope. scope \<in> set peer_ceiling \<and> scope \<in> set machine_ceiling \<and>
       scope \<in> set local_approval \<and> scope \<in> set runtime_capabilities) requested"

definition is_terminal_authorization_state :: "remote_authorization_state \<Rightarrow> bool" where
  "is_terminal_authorization_state state \<longleftrightarrow>
     state \<in> {AuDenied, AuExpired, AuRevoked, AuLockedOut, AuPolicyChanged}"

definition is_pending_incoming_record :: "authorization_record \<Rightarrow> bool" where
  "is_pending_incoming_record record \<longleftrightarrow>
     sn_role (az_snapshot record) = RoleAgent \<and>
     sn_authorization_state (az_snapshot record) \<in>
       {AuAwaitingLocalConsent, AuVerifyingUnattendedCredential, AuAuthorizing}"

definition remote_route_kind_of :: "string \<Rightarrow> remote_route_kind option" where
  "remote_route_kind_of transport_kind =
     (if transport_kind = ''quic'' \<or> transport_kind = ''lan_quic'' then Some RkLanQuic
      else if transport_kind = ''webrtc'' \<or> transport_kind = ''webrtc_direct'' then Some RkWebRtcDirect
      else if transport_kind = ''webrtc_relay'' then Some RkWebRtcRelay
      else None)"

definition hex_nibble :: "char \<Rightarrow> u8 option" where
  "hex_nibble c =
     (if char_between CHR ''0'' c CHR ''9'' then Some (of_char c - 48)
      else if char_between CHR ''a'' c CHR ''f'' then Some (of_char c - 97 + 10)
      else if char_between CHR ''A'' c CHR ''F'' then Some (of_char c - 65 + 10)
      else None)"

fun hex_pairs :: "string \<Rightarrow> bytes option" where
  "hex_pairs (a # b # cs) =
     (case (hex_nibble a, hex_nibble b) of
        (Some high, Some low) \<Rightarrow> map_option (\<lambda>bs. (push_bit 4 high OR low) # bs) (hex_pairs cs)
      | _ \<Rightarrow> None)"
| "hex_pairs _ = Some []"

definition parse_sha256_identifier :: "string \<Rightarrow> bytes option" where
  "parse_sha256_identifier value =
     (if take 7 value \<noteq> ''sha256:'' then None
      else let digest = drop 7 value in
        if length digest \<noteq> 64 \<or> \<not> list_all (\<lambda>c. byte_at c < 128) digest then None
        else hex_pairs digest)"

definition validate_verified_request ::
  "verified_incoming_authorization_request \<Rightarrow> (unit, remote_failure) result" where
  "validate_verified_request request =
     (if trim (vq_session_id request) = [] \<or> trim (vq_peer_device_id request) = []
        \<or> trim (vq_peer_key_id request) = [] \<or> trim (vq_transport_kind request) = []
        \<or> vq_peer_key_epoch request = 0
      then Err (failure RcIdentityMismatch)
      else if all_zero (vq_request_nonce request) then Err (failure RcReplayDetected)
      else if vq_created_at_ms request \<ge> vq_expires_at_ms request then Err (failure RcAuthorizationTimeout)
      else if vq_requested_scopes request = [] then Err (failure RcScopeDenied)
      else Ok ())"

definition validate_unattended_policy :: "unattended_access_policy \<Rightarrow> u64 \<Rightarrow> (unit, remote_failure) result" where
  "validate_unattended_policy policy now_ms =
     (if \<not> up_trusted_devices_only policy \<or> up_permission_ceiling policy = []
        \<or> (case up_expires_at_ms policy of Some expires_at_ms \<Rightarrow> expires_at_ms \<le> now_ms | None \<Rightarrow> False)
      then Err (failure RcScopeDenied) else Ok ())"

definition unattended_snapshot :: "unattended_authorization_state \<Rightarrow> u64 \<Rightarrow> unattended_access_snapshot" where
  "unattended_snapshot unattended updated_at_ms =
     \<lparr>us_enabled = ua_credential unattended \<noteq> None, us_policy_revision = ua_policy_revision unattended,
      us_access_epoch = ua_access_epoch unattended, us_policy = ua_policy unattended,
      us_locked_until_ms = None, us_updated_at_ms = updated_at_ms\<rparr>"

definition push_event ::
  "u64 \<Rightarrow> session_id \<Rightarrow> remote_session_event \<Rightarrow> authorization_registry_inner \<Rightarrow> authorization_registry_inner" where
  "push_event timestamp_ms sid event inner =
     (let sequence = max (saturating_add (ai_next_sequence inner) 1) 1;
          events = ai_events inner @ [\<lparr>ee_sequence = sequence, ee_timestamp_ms = timestamp_ms,
                     ee_session_id = sid, ee_event = event\<rparr>] in
      inner\<lparr>ai_next_sequence := sequence, ai_events := drop (length events - EVENT_HISTORY_LIMIT) events\<rparr>)"

definition set_record ::
  "session_id \<Rightarrow> authorization_record \<Rightarrow> authorization_registry_inner \<Rightarrow> authorization_registry_inner" where
  "set_record sid record inner = inner\<lparr>ai_records := AList.update sid record (ai_records inner)\<rparr>"

definition next_authorization_instance ::
  "authorization_registry_inner \<Rightarrow> (authorization_registry_inner \<times> u64, remote_failure) result" where
  "next_authorization_instance inner =
     (case checked_add (ai_next_instance_id inner) 1 of
        None \<Rightarrow> Err (failure RcCredentialLocked)
      | Some instance \<Rightarrow> Ok (inner\<lparr>ai_next_instance_id := instance\<rparr>, instance))"

definition new_authorization_record ::
  "verified_incoming_authorization_request \<Rightarrow> remote_session_snapshot \<Rightarrow> u64 \<Rightarrow> authorization_record" where
  "new_authorization_record request snapshot instance_id =
     \<lparr>az_instance_id = instance_id, az_request = request, az_snapshot = snapshot, az_grant = None,
      az_peer_public_key = None, az_cancellation = False\<rparr>"

subsection \<open>Pruning\<close>

definition terminal_record :: "authorization_record \<Rightarrow> bool" where
  "terminal_record record \<longleftrightarrow> is_terminal_authorization_state (sn_authorization_state (az_snapshot record))"

definition oldest_terminal :: "(session_id, authorization_record) hash_map \<Rightarrow> session_id option" where
  "oldest_terminal records =
     (case filter (\<lambda>e. terminal_record (snd e)) records of
        [] \<Rightarrow> None
      | e # es \<Rightarrow> Some (fst (fold (\<lambda>x best.
          if sn_updated_at_ms (az_snapshot (snd x)) < sn_updated_at_ms (az_snapshot (snd best)) then x else best) es e)))"

lemma fold_choice: "fold (\<lambda>x best. if P x best then x else best) es e \<in> set (e # es)"
  by (induction es arbitrary: e) auto

lemma oldest_terminal_mem: "oldest_terminal records = Some sid \<Longrightarrow> \<exists>r. (sid, r) \<in> set records \<and> terminal_record r"
proof -
  assume old: "oldest_terminal records = Some sid"
  then obtain e es where f: "filter (\<lambda>e. terminal_record (snd e)) records = e # es"
    by (auto simp: oldest_terminal_def split: list.splits)
  let ?P = "\<lambda>x best. sn_updated_at_ms (az_snapshot (snd x)) < sn_updated_at_ms (az_snapshot (snd best))"
  let ?x = "fold (\<lambda>x best. if ?P x best then x else best) es e"
  from old f have "sid = fst ?x" by (simp add: oldest_terminal_def)
  moreover have "?x \<in> set (filter (\<lambda>e. terminal_record (snd e)) records)"
    unfolding f by (rule fold_choice)
  ultimately show ?thesis by (cases ?x) auto
qed

function evict_terminal :: "(session_id, authorization_record) hash_map \<Rightarrow> (session_id, authorization_record) hash_map" where
  "evict_terminal records =
     (if length records < AUTHORIZATION_RECORD_LIMIT then records
      else case oldest_terminal records of
        None \<Rightarrow> records
      | Some sid \<Rightarrow> evict_terminal (AList.delete sid records))"
  by pat_completeness auto
termination
proof (relation "measure length")
  fix records :: "(session_id, authorization_record) hash_map" and sid
  assume "oldest_terminal records = Some sid"
  then obtain r where "(sid, r) \<in> set records" using oldest_terminal_mem by blast
  then show "(AList.delete sid records, records) \<in> measure length"
    by (auto simp: AList.delete_eq intro: length_filter_less)
qed simp

declare evict_terminal.simps [simp del]

definition prune_authorization_records :: "u64 \<Rightarrow> authorization_registry_inner \<Rightarrow> authorization_registry_inner" where
  "prune_authorization_records now_ms inner =
     inner\<lparr>ai_records := evict_terminal (filter (\<lambda>(_, record). \<not> terminal_record record \<or>
       saturating_sub now_ms (sn_updated_at_ms (az_snapshot record)) \<le> TERMINAL_RECORD_RETENTION_MS) (ai_records inner))\<rparr>"

definition prune_outgoing_birth_observers :: "authorization_registry_inner \<Rightarrow> authorization_registry_inner" where
  "prune_outgoing_birth_observers inner =
     inner\<lparr>ai_outgoing_birth_observers := filter (\<lambda>(_, group). group \<noteq> [])
       (map (\<lambda>(sid, group). (sid, filter (\<lambda>r. map_of (ai_receipts inner) r \<noteq> None) group))
         (ai_outgoing_birth_observers inner))\<rparr>"

section \<open>Failures and expiry\<close>

definition is_clean_shutdown :: "remote_reason_code \<Rightarrow> bool" where
  "is_clean_shutdown code \<longleftrightarrow> code \<in> {RcGrantExpired, RcGrantRevoked, RcTrustRequired, RcPolicyChanged}"

definition is_authorization_denial :: "remote_reason_code \<Rightarrow> bool" where
  "is_authorization_denial code \<longleftrightarrow> code \<in> {RcIdentityMismatch, RcTrustRequired, RcConsentDenied, RcCredentialInvalid,
     RcCredentialLocked, RcAuthorizationTimeout, RcGrantExpired, RcGrantRevoked, RcPolicyChanged, RcReplayDetected,
     RcScopeDenied, RcProtocolDowngradeBlocked}"

definition is_route_failure :: "remote_reason_code \<Rightarrow> bool" where
  "is_route_failure code \<longleftrightarrow> code \<in> {RcLanUnreachable, RcIceDirectFailed, RcTurnAllocationFailed, RcRouteLost,
     RcRouteMigrationTimeout}"

definition is_media_failure :: "remote_reason_code \<Rightarrow> bool" where
  "is_media_failure code \<longleftrightarrow> code \<in> {RcEncoderUnavailable, RcDecoderUnavailable, RcCaptureSourceLost,
     RcProfileDowngraded, RcCongestionDownshift, RcRenderBudgetExceeded}"

definition had_active_route :: "authorization_record \<Rightarrow> bool" where
  "had_active_route record \<longleftrightarrow> az_grant record \<noteq> None \<or> sn_route_state (az_snapshot record) \<notin> {RtIdle, RtClosed}"

definition had_active_media :: "authorization_record \<Rightarrow> bool" where
  "had_active_media record \<longleftrightarrow> sn_media_state (az_snapshot record) \<notin> {MdIdle, MdStopped}"

definition failed_record ::
  "remote_authorization_state \<Rightarrow> remote_failure \<Rightarrow> u64 \<Rightarrow> authorization_record \<Rightarrow> authorization_record" where
  "failed_record state fail failed_at_ms record =
     (let code = rf_code fail; snapshot = az_snapshot record in
      record\<lparr>az_cancellation := True, az_grant := None,
        az_snapshot := snapshot\<lparr>sn_authorization_state := state,
          sn_presentation_state :=
            (if had_active_route record \<or> had_active_media record
             then if is_clean_shutdown code then PsClosed else PsFailed
             else if \<not> is_authorization_denial code then PsFailed else PsDenied),
          sn_failure := Some fail, sn_granted_scopes := [], sn_updated_at_ms := failed_at_ms,
          sn_route_state :=
            (if had_active_route record \<or> is_route_failure code
             then if is_clean_shutdown code then RtClosed else RtFailed else sn_route_state snapshot),
          sn_media_state :=
            (if had_active_media record \<or> is_media_failure code
             then if is_clean_shutdown code then MdStopped else MdFailed else sn_media_state snapshot)\<rparr>\<rparr>)"

definition failure_events :: "remote_failure \<Rightarrow> authorization_record \<Rightarrow> remote_session_snapshot \<Rightarrow> remote_session_event list" where
  "failure_events fail record snapshot =
     (let route = had_active_route record \<or> is_route_failure (rf_code fail);
          media = had_active_media record \<or> is_media_failure (rf_code fail) in
      [EvAuthorizationChanged (sn_authorization_state snapshot) (Some fail)]
      @ (if route then [EvRouteChanged (sn_route_state snapshot) (sn_route_kind snapshot) (Some fail)] else [])
      @ (if media then [EvMediaChanged (sn_media_state snapshot) (Some fail)] else [])
      @ (if route \<or> media \<or> sn_presentation_state snapshot = PsFailed then [EvSessionClosed (Some fail)] else []))"

definition push_events ::
  "u64 \<Rightarrow> session_id \<Rightarrow> remote_session_event list \<Rightarrow> authorization_registry_inner \<Rightarrow> authorization_registry_inner" where
  "push_events timestamp_ms sid events inner = fold (push_event timestamp_ms sid) events inner"

definition transition_failure_locked ::
  "session_id \<Rightarrow> remote_authorization_state \<Rightarrow> remote_failure \<Rightarrow> u64 \<Rightarrow> authorization_registry_inner
   \<Rightarrow> authorization_registry_inner \<times> remote_session_snapshot option" where
  "transition_failure_locked sid state fail failed_at_ms inner =
     (case map_of (ai_records inner) sid of
        None \<Rightarrow> (inner, None)
      | Some record \<Rightarrow>
          let snapshot = az_snapshot record in
          if sn_authorization_state snapshot = state \<and> map_option rf_code (sn_failure snapshot) = Some (rf_code fail)
          then (inner, Some snapshot)
          else if terminal_record record then (inner, None)
          else
            let failed = failed_record state fail failed_at_ms record in
            (push_events failed_at_ms sid (failure_events fail record (az_snapshot failed)) (set_record sid failed inner),
             Some (az_snapshot failed)))"

definition expire_grant_locked ::
  "session_id \<Rightarrow> u64 \<Rightarrow> authorization_registry_inner \<Rightarrow> authorization_registry_inner \<times> bool" where
  "expire_grant_locked sid now_ms inner =
     (case map_of (ai_records inner) sid of
        None \<Rightarrow> (inner, False)
      | Some record \<Rightarrow>
          (case az_grant record of
             Some grant \<Rightarrow>
               if sn_authorization_state (az_snapshot record) = AuGranted \<and> now_ms > vg_expires_at_ms grant
               then case transition_failure_locked sid AuExpired (failure RcGrantExpired) now_ms inner of
                 (inner, r) \<Rightarrow> (inner, r \<noteq> None)
               else (inner, False)
           | None \<Rightarrow> (inner, False)))"

definition record_failure ::
  "session_id \<Rightarrow> remote_authorization_state \<Rightarrow> remote_failure \<Rightarrow> u64 \<Rightarrow> authorization_registry_inner
   \<Rightarrow> authorization_registry_inner \<times> remote_session_snapshot option" where
  "record_failure sid state fail failed_at_ms inner = transition_failure_locked sid state fail failed_at_ms inner"

definition expire_pending ::
  "session_id \<Rightarrow> u64 \<Rightarrow> authorization_registry_inner \<Rightarrow> authorization_registry_inner \<times> remote_session_snapshot option" where
  "expire_pending sid expired_at_ms inner =
     (case map_of (ai_records inner) sid of
        None \<Rightarrow> (inner, None)
      | Some record \<Rightarrow>
          if sn_authorization_state (az_snapshot record) \<noteq> AuAwaitingLocalConsent
            \<or> expired_at_ms \<le> vq_expires_at_ms (az_request record)
          then (inner, None)
          else
            let expired = failure RcAuthorizationTimeout;
                snapshot = (az_snapshot record)\<lparr>sn_authorization_state := AuExpired,
                  sn_presentation_state := PsDenied, sn_failure := Some expired, sn_granted_scopes := [],
                  sn_updated_at_ms := expired_at_ms\<rparr> in
            (push_event expired_at_ms sid (EvAuthorizationChanged AuExpired (Some expired))
               (set_record sid (record\<lparr>az_snapshot := snapshot\<rparr>) inner),
             Some snapshot))"

fun revoke_each ::
  "remote_authorization_state \<Rightarrow> remote_failure \<Rightarrow> u64 \<Rightarrow> session_id list \<Rightarrow> authorization_registry_inner
   \<Rightarrow> authorization_registry_inner \<times> session_id list" where
  "revoke_each state fail revoked_at_ms [] inner = (inner, [])"
| "revoke_each state fail revoked_at_ms (sid # sids) inner =
     (case transition_failure_locked sid state fail revoked_at_ms inner of
        (inner, r) \<Rightarrow>
          (case revoke_each state fail revoked_at_ms sids inner of
             (inner, revoked) \<Rightarrow> (inner, if r \<noteq> None then sid # revoked else revoked)))"

definition proven_peer_devices :: "string \<Rightarrow> authorization_registry_inner \<Rightarrow> device_id set" where
  "proven_peer_devices peer_key_id inner =
     set (map (\<lambda>e. vq_peer_device_id (az_request (snd e)))
       (filter (\<lambda>e. vq_peer_key_id (az_request (snd e)) = peer_key_id \<and> \<not> terminal_record (snd e)) (ai_records inner)))"

definition revoked_by_peer :: "string \<Rightarrow> authorization_registry_inner \<Rightarrow> authorization_record \<Rightarrow> bool" where
  "revoked_by_peer peer_key_id inner record \<longleftrightarrow>
     (vq_peer_key_id (az_request record) = peer_key_id \<or>
       (vq_peer_key_id (az_request record) = pending_outgoing_peer_key_id (vq_peer_device_id (az_request record)) \<and>
        vq_peer_device_id (az_request record) \<in> proven_peer_devices peer_key_id inner)) \<and>
     \<not> terminal_record record"

definition revoke_peer_authorizations ::
  "string \<Rightarrow> u64 \<Rightarrow> authorization_registry_inner \<Rightarrow> authorization_registry_inner \<times> session_id list" where
  "revoke_peer_authorizations peer_key_id revoked_at_ms inner =
     revoke_each AuRevoked (failure RcGrantRevoked) revoked_at_ms
       (map fst (filter (\<lambda>e. revoked_by_peer peer_key_id inner (snd e)) (ai_records inner))) inner"

definition revoke_unattended_authorizations ::
  "u64 \<Rightarrow> authorization_registry_inner \<Rightarrow> authorization_registry_inner \<times> session_id list" where
  "revoke_unattended_authorizations revoked_at_ms inner =
     revoke_each AuPolicyChanged (failure RcGrantRevoked) revoked_at_ms
       (map fst (filter (\<lambda>e. vq_access_mode (az_request (snd e)) = Unattended \<and> \<not> terminal_record (snd e))
         (ai_records inner))) inner"

section \<open>Unattended access\<close>

abbreviation bump :: "u64 \<Rightarrow> u64" where
  "bump n \<equiv> max (saturating_add n 1) 1"

definition enable_unattended ::
  "unattended_credential option \<Rightarrow> unattended_access_policy \<Rightarrow> u64 \<Rightarrow> unattended_authorization_state
   \<Rightarrow> unattended_authorization_state \<times> (unattended_access_snapshot, remote_failure) result" where
  "enable_unattended generated policy updated_at_ms unattended =
     (let policy = policy\<lparr>up_permission_ceiling := normalize_scopes (up_permission_ceiling policy)\<rparr> in
      case validate_unattended_policy policy updated_at_ms of
        Err e \<Rightarrow> (unattended, Err e)
      | Ok _ \<Rightarrow>
     (case generated of
        None \<Rightarrow> (unattended, Err (failure RcCredentialInvalid))
      | Some credential \<Rightarrow>
          let unattended = \<lparr>ua_credential = Some credential, ua_access_epoch = bump (ua_access_epoch unattended),
                ua_policy_revision = bump (ua_policy_revision unattended), ua_policy = policy\<rparr> in
          (unattended, Ok (unattended_snapshot unattended updated_at_ms))))"

definition disable_unattended ::
  "u64 \<Rightarrow> u64 \<Rightarrow> unattended_authorization_state
   \<Rightarrow> unattended_authorization_state \<times> (unattended_access_snapshot, remote_failure) result" where
  "disable_unattended expected_policy_revision updated_at_ms unattended =
     (if ua_policy_revision unattended \<noteq> expected_policy_revision then (unattended, Err (failure RcPolicyChanged))
      else
        let unattended = unattended\<lparr>ua_credential := None, ua_access_epoch := bump (ua_access_epoch unattended),
              ua_policy_revision := bump (ua_policy_revision unattended)\<rparr> in
        (unattended, Ok (unattended_snapshot unattended updated_at_ms)))"

definition rotate_unattended ::
  "unattended_credential option \<Rightarrow> u64 \<Rightarrow> u64 \<Rightarrow> unattended_authorization_state
   \<Rightarrow> unattended_authorization_state \<times> (unattended_access_snapshot, remote_failure) result" where
  "rotate_unattended generated expected_policy_revision updated_at_ms unattended =
     (case generated of
        None \<Rightarrow> (unattended, Err (failure RcCredentialInvalid))
      | Some credential \<Rightarrow>
          if ua_policy_revision unattended \<noteq> expected_policy_revision then (unattended, Err (failure RcPolicyChanged))
          else if ua_credential unattended = None then (unattended, Err (failure RcCredentialInvalid))
          else
            let unattended = unattended\<lparr>ua_credential := Some credential,
                  ua_access_epoch := bump (ua_access_epoch unattended),
                  ua_policy_revision := bump (ua_policy_revision unattended)\<rparr> in
            (unattended, Ok (unattended_snapshot unattended updated_at_ms)))"

section \<open>Requests\<close>

definition normalize_request ::
  "verified_incoming_authorization_request \<Rightarrow> verified_incoming_authorization_request" where
  "normalize_request request =
     request\<lparr>vq_requested_scopes := normalize_scopes (vq_requested_scopes request),
       vq_peer_permission_ceiling := normalize_scopes (vq_peer_permission_ceiling request),
       vq_machine_permission_ceiling := normalize_scopes (vq_machine_permission_ceiling request),
       vq_runtime_capabilities := normalize_scopes (vq_runtime_capabilities request)\<rparr>"

definition first_snapshot ::
  "verified_incoming_authorization_request \<Rightarrow> remote_session_role \<Rightarrow> remote_authorization_state
   \<Rightarrow> remote_presentation_state \<Rightarrow> remote_session_snapshot" where
  "first_snapshot request role state presentation =
     \<lparr>sn_session_id = vq_session_id request, sn_role = role, sn_peer_device_id = vq_peer_device_id request,
      sn_peer_key_id = vq_peer_key_id request, sn_access_mode = vq_access_mode request,
      sn_authorization_state = state, sn_route_state = RtIdle, sn_route_kind = None, sn_media_state = MdIdle,
      sn_presentation_state = presentation, sn_requested_scopes = vq_requested_scopes request,
      sn_granted_scopes = [], sn_policy_revision = 1, sn_failure = None,
      sn_created_at_ms = vq_created_at_ms request, sn_updated_at_ms = vq_created_at_ms request,
      sn_authorization_expires_at_ms = Some (vq_expires_at_ms request)\<rparr>"

definition count_pending :: "(authorization_record \<Rightarrow> bool) \<Rightarrow> authorization_registry_inner \<Rightarrow> nat" where
  "count_pending P inner = length (filter (\<lambda>e. is_pending_incoming_record (snd e) \<and> P (snd e)) (ai_records inner))"

definition begin_verified_incoming ::
  "verified_incoming_authorization_request \<Rightarrow> authorization_registry_inner
   \<Rightarrow> authorization_registry_inner \<times> (remote_session_snapshot, remote_failure) result" where
  "begin_verified_incoming request inner =
     (let request = normalize_request request; sid = vq_session_id request in
      case validate_verified_request request of
        Err e \<Rightarrow> (inner, Err e)
      | Ok _ \<Rightarrow>
      let inner = prune_authorization_records (vq_created_at_ms request) inner in
      if map_of (ai_records inner) sid \<noteq> None then (inner, Err (failure RcReplayDetected))
      else if length (ai_records inner) \<ge> AUTHORIZATION_RECORD_LIMIT then (inner, Err (failure RcCredentialLocked))
      else if count_pending (\<lambda>_. True) inner \<ge> MAX_PENDING_INCOMING_AUTHORIZATIONS
        \<or> count_pending (\<lambda>r. vq_peer_key_id (az_request r) = vq_peer_key_id request) inner
            \<ge> MAX_PENDING_INCOMING_PER_PEER
      then (inner, Err (failure RcCredentialLocked))
      else
        let snapshot = (case vq_access_mode request of
              Attended \<Rightarrow> first_snapshot request RoleAgent AuAwaitingLocalConsent PsIncomingApprovalRequired
            | Unattended \<Rightarrow> first_snapshot request RoleAgent AuVerifyingUnattendedCredential PsAuthenticating) in
        case next_authorization_instance inner of
          Err e \<Rightarrow> (inner, Err e)
        | Ok (inner, instance_id) \<Rightarrow>
            let inner = prune_outgoing_birth_observers inner;
                inner = inner\<lparr>ai_outgoing_birth_observers := AList.delete sid (ai_outgoing_birth_observers inner)\<rparr>;
                inner = set_record sid (new_authorization_record request snapshot instance_id) inner in
            (if vq_access_mode request = Attended
             then push_event (vq_created_at_ms request) sid (EvConsentRequested (vq_requested_scopes request)) inner
             else inner,
             Ok snapshot))"

definition fill_receipts :: "u64 \<Rightarrow> nat list \<Rightarrow> (nat, u64) hash_map \<Rightarrow> (nat, u64) hash_map" where
  "fill_receipts instance_id observers receipts =
     map (\<lambda>(r, v). (r, if r \<in> set observers \<and> v = 0 then instance_id else v)) receipts"

definition begin_outgoing ::
  "verified_incoming_authorization_request \<Rightarrow> authorization_registry_inner
   \<Rightarrow> authorization_registry_inner \<times> (remote_session_snapshot, remote_failure) result" where
  "begin_outgoing request inner =
     (let request = normalize_request request; sid = vq_session_id request in
      case validate_verified_request request of
        Err e \<Rightarrow> (inner, Err e)
      | Ok _ \<Rightarrow>
      let inner = prune_authorization_records (vq_created_at_ms request) inner in
      if map_of (ai_records inner) sid \<noteq> None then (inner, Err (failure RcReplayDetected))
      else if length (ai_records inner) \<ge> AUTHORIZATION_RECORD_LIMIT then (inner, Err (failure RcCredentialLocked))
      else
        let snapshot = first_snapshot request RoleController AuAuthorizing PsAuthenticating in
        case next_authorization_instance inner of
          Err e \<Rightarrow> (inner, Err e)
        | Ok (inner, instance_id) \<Rightarrow>
            let inner = set_record sid (new_authorization_record request snapshot instance_id) inner;
                inner = prune_outgoing_birth_observers inner;
                observers = (case map_of (ai_outgoing_birth_observers inner) sid of Some g \<Rightarrow> g | None \<Rightarrow> []) in
            (inner\<lparr>ai_outgoing_birth_observers := AList.delete sid (ai_outgoing_birth_observers inner),
               ai_receipts := fill_receipts instance_id observers (ai_receipts inner)\<rparr>,
             Ok snapshot))"

definition observe_outgoing_birth ::
  "session_id \<Rightarrow> authorization_registry_inner \<Rightarrow> authorization_registry_inner \<times> nat option" where
  "observe_outgoing_birth sid inner =
     (let inner = prune_outgoing_birth_observers inner;
          observers = ai_outgoing_birth_observers inner;
          group = (case map_of observers sid of Some g \<Rightarrow> g | None \<Rightarrow> []) in
      if map_of (ai_records inner) sid \<noteq> None
        \<or> sum_list (map (\<lambda>e. length (snd e)) observers) \<ge> MAX_OUTGOING_BIRTH_OBSERVERS
        \<or> length group \<ge> MAX_OUTGOING_BIRTH_OBSERVERS_PER_SESSION
      then (inner, None)
      else
        let r = ai_next_receipt inner in
        (inner\<lparr>ai_outgoing_birth_observers := AList.update sid (group @ [r]) observers,
           ai_receipts := AList.update r 0 (ai_receipts inner), ai_next_receipt := Suc r\<rparr>, Some r))"

text \<open>The holder of a receipt drops it, and reads it.\<close>

definition drop_receipt :: "nat \<Rightarrow> authorization_registry_inner \<Rightarrow> authorization_registry_inner" where
  "drop_receipt r inner = inner\<lparr>ai_receipts := AList.delete r (ai_receipts inner)\<rparr>"

definition receipt_instance_id :: "nat \<Rightarrow> authorization_registry_inner \<Rightarrow> u64 option" where
  "receipt_instance_id r inner =
     (case map_of (ai_receipts inner) r of Some v \<Rightarrow> if v \<noteq> 0 then Some v else None | None \<Rightarrow> None)"

section \<open>Peer keys\<close>

definition bind_authenticated_peer_key ::
  "'kp crypto_suite \<Rightarrow> session_id \<Rightarrow> bytes \<Rightarrow> u64 \<Rightarrow> authorization_registry_inner
   \<Rightarrow> authorization_registry_inner \<times> (remote_session_snapshot, remote_failure) result" where
  "bind_authenticated_peer_key cr sid peer_public_key bound_at_ms inner =
     (if length peer_public_key \<noteq> 32 then (inner, Err (failure RcIdentityMismatch))
      else case map_of (ai_records inner) sid of
        None \<Rightarrow> (inner, Err (failure RcIdentityMismatch))
      | Some record \<Rightarrow>
          let snapshot = az_snapshot record in
          if terminal_record record
          then (inner, Err (case sn_failure snapshot of Some f \<Rightarrow> f | None \<Rightarrow> failure RcPolicyChanged))
          else if public_key_id cr peer_public_key \<noteq> vq_peer_key_id (az_request record)
          then (inner, Err (failure RcIdentityMismatch))
          else if \<exists>existing\<in>set_option (az_peer_public_key record). existing \<noteq> peer_public_key
          then (inner, Err (failure RcIdentityMismatch))
          else
            let snapshot = snapshot\<lparr>sn_updated_at_ms := max (sn_updated_at_ms snapshot) bound_at_ms\<rparr> in
            (set_record sid (record\<lparr>az_peer_public_key := Some peer_public_key, az_snapshot := snapshot\<rparr>) inner,
             Ok snapshot))"

definition bind_outgoing_authenticated_peer ::
  "'kp crypto_suite \<Rightarrow> session_id \<Rightarrow> device_id \<Rightarrow> string \<Rightarrow> bytes \<Rightarrow> u64 \<Rightarrow> authorization_registry_inner
   \<Rightarrow> authorization_registry_inner \<times> (remote_session_snapshot, remote_failure) result" where
  "bind_outgoing_authenticated_peer cr sid peer_device_id peer_key_id peer_public_key bound_at_ms inner =
     (if length peer_public_key \<noteq> 32 then (inner, Err (failure RcIdentityMismatch))
      else if public_key_id cr peer_public_key \<noteq> peer_key_id then (inner, Err (failure RcIdentityMismatch))
      else case map_of (ai_records inner) sid of
        None \<Rightarrow> (inner, Err (failure RcIdentityMismatch))
      | Some record \<Rightarrow>
          let snapshot = az_snapshot record; request = az_request record in
          if sn_role snapshot \<noteq> RoleController \<or> sn_authorization_state snapshot \<noteq> AuAuthorizing
            \<or> vq_peer_device_id request \<noteq> peer_device_id
            \<or> (vq_peer_key_id request \<noteq> pending_outgoing_peer_key_id peer_device_id
               \<and> vq_peer_key_id request \<noteq> peer_key_id)
            \<or> (\<exists>existing\<in>set_option (az_peer_public_key record). existing \<noteq> peer_public_key)
          then (inner, Err (failure RcIdentityMismatch))
          else
            let snapshot = snapshot\<lparr>sn_peer_key_id := peer_key_id,
                  sn_updated_at_ms := max (sn_updated_at_ms snapshot) bound_at_ms\<rparr> in
            (set_record sid (record\<lparr>az_request := request\<lparr>vq_peer_key_id := peer_key_id\<rparr>,
               az_peer_public_key := Some peer_public_key, az_snapshot := snapshot\<rparr>) inner,
             Ok snapshot))"

section \<open>Decisions\<close>

definition respond_to_consent_with_audit ::
  "(remote_session_snapshot \<Rightarrow> consent_response \<Rightarrow> bool) \<Rightarrow> consent_response \<Rightarrow> u64 \<Rightarrow> authorization_registry_inner
   \<Rightarrow> authorization_registry_inner \<times> (remote_session_snapshot, consent_resolution_error) result" where
  "respond_to_consent_with_audit audit response decided_at_ms inner =
     (let response = response\<lparr>cp_approved_scopes := normalize_scopes (cp_approved_scopes response)\<rparr>;
          sid = cp_session_id response in
      case map_of (ai_records inner) sid of
        None \<Rightarrow> (inner, Err (CrRejected (failure RcConsentDenied)))
      | Some record \<Rightarrow>
      let snapshot = az_snapshot record; request = az_request record in
      if sn_authorization_state snapshot \<noteq> AuAwaitingLocalConsent
      then (inner, Err (CrRejected (case sn_failure snapshot of Some f \<Rightarrow> f | None \<Rightarrow> failure RcPolicyChanged)))
      else if cp_expected_policy_revision response \<noteq> sn_policy_revision snapshot
      then (inner, Err (CrRejected (failure RcPolicyChanged)))
      else if decided_at_ms > vq_expires_at_ms request
      then
        let expired = failure RcAuthorizationTimeout;
            snapshot = snapshot\<lparr>sn_authorization_state := AuExpired, sn_presentation_state := PsDenied,
              sn_failure := Some expired, sn_updated_at_ms := decided_at_ms\<rparr> in
        (push_event decided_at_ms sid (EvAuthorizationChanged AuExpired (Some expired))
           (set_record sid (record\<lparr>az_snapshot := snapshot\<rparr>) inner),
         Err (CrRejected expired))
      else
      let effective = (case cp_decision response of
            Deny \<Rightarrow> if cp_approved_scopes response \<noteq> [] then Err (failure RcScopeDenied) else Ok []
          | Approve \<Rightarrow>
              if list_ex (\<lambda>scope. scope \<notin> set (vq_requested_scopes request)) (cp_approved_scopes response)
              then Err (failure RcScopeDenied)
              else
                let effective = effective_scopes (vq_requested_scopes request) (vq_peer_permission_ceiling request)
                      (vq_machine_permission_ceiling request) (cp_approved_scopes response)
                      (vq_runtime_capabilities request) in
                if effective = [] then Err (failure RcScopeDenied) else Ok effective) in
      case effective of
        Err e \<Rightarrow> (inner, Err (CrRejected e))
      | Ok effective \<Rightarrow>
      if \<not> audit snapshot response then (inner, Err CrAuditUnavailable)
      else
        let snapshot = (case cp_decision response of
              Deny \<Rightarrow> snapshot\<lparr>sn_authorization_state := AuDenied, sn_presentation_state := PsDenied,
                sn_failure := Some (failure RcConsentDenied), sn_updated_at_ms := decided_at_ms\<rparr>
            | Approve \<Rightarrow> snapshot\<lparr>sn_authorization_state := AuAuthorizing, sn_presentation_state := PsAuthenticating,
                sn_granted_scopes := effective, sn_failure := None, sn_updated_at_ms := decided_at_ms\<rparr>) in
        (push_event decided_at_ms sid (EvConsentResolved (cp_decision response) (cp_approved_scopes response))
           (set_record sid (record\<lparr>az_snapshot := snapshot\<rparr>) inner),
         Ok snapshot))"

definition respond_to_consent ::
  "consent_response \<Rightarrow> u64 \<Rightarrow> authorization_registry_inner
   \<Rightarrow> authorization_registry_inner \<times> (remote_session_snapshot, remote_failure) result" where
  "respond_to_consent response decided_at_ms inner =
     (case respond_to_consent_with_audit (\<lambda>_ _. True) response decided_at_ms inner of
        (inner, Ok snapshot) \<Rightarrow> (inner, Ok snapshot)
      | (inner, Err (CrRejected e)) \<Rightarrow> (inner, Err e)
      | (inner, Err CrAuditUnavailable) \<Rightarrow> (inner, Err (failure RcPolicyChanged)))"

definition verify_unattended ::
  "'kp crypto_suite \<Rightarrow> session_id \<Rightarrow> bytes \<Rightarrow> bytes \<Rightarrow> u64 \<Rightarrow> bytes \<Rightarrow> u64 \<Rightarrow> unattended_authorization_state
   \<Rightarrow> authorization_registry_inner \<Rightarrow> authorization_registry_inner \<times> (remote_session_snapshot, remote_failure) result" where
  "verify_unattended cr sid transcript nonce access_epoch proof_bytes verified_at_ms unattended inner =
     (case ua_credential unattended of
        None \<Rightarrow> (inner, Err (failure RcCredentialInvalid))
      | Some credential \<Rightarrow>
      if access_epoch = 0 \<or> access_epoch \<noteq> ua_access_epoch unattended then (inner, Err (failure RcCredentialInvalid))
      else
      let policy = ua_policy unattended in
      case map_of (ai_records inner) sid of
        None \<Rightarrow> (inner, Err (failure RcIdentityMismatch))
      | Some record \<Rightarrow>
      let snapshot = az_snapshot record; request = az_request record in
      if sn_authorization_state snapshot \<noteq> AuVerifyingUnattendedCredential \<or> vq_access_mode request \<noteq> Unattended
      then (inner, Err (failure RcPolicyChanged))
      else if verified_at_ms > vq_expires_at_ms request
        \<or> (case up_expires_at_ms policy of Some expires_at_ms \<Rightarrow> verified_at_ms > expires_at_ms | None \<Rightarrow> False)
      then (inner, Err (failure RcAuthorizationTimeout))
      else if nonce \<noteq> vq_request_nonce request
        \<or> (up_trusted_devices_only policy \<and> up_allowed_peer_key_ids policy \<noteq> []
           \<and> vq_peer_key_id request \<notin> set (up_allowed_peer_key_ids policy))
      then (inner, Err (failure RcCredentialInvalid))
      else if \<not> unattended_verify cr credential transcript nonce proof_bytes
      then (inner, Err (failure RcCredentialInvalid))
      else
      let effective = effective_scopes (vq_requested_scopes request) (vq_peer_permission_ceiling request)
            (vq_machine_permission_ceiling request) (up_permission_ceiling policy) (vq_runtime_capabilities request) in
      if effective = [] then (inner, Err (failure RcScopeDenied))
      else
        let snapshot = snapshot\<lparr>sn_authorization_state := AuAuthorizing, sn_presentation_state := PsAuthenticating,
              sn_granted_scopes := effective, sn_policy_revision := ua_policy_revision unattended,
              sn_failure := None, sn_updated_at_ms := verified_at_ms\<rparr> in
        (push_event verified_at_ms sid (EvAuthorizationChanged AuAuthorizing None)
           (set_record sid (record\<lparr>az_snapshot := snapshot\<rparr>) inner),
         Ok snapshot))"

text \<open>
  One round of \<open>wait_for_authorization_decision\<close>: \<open>None\<close> waits for a change or the request's
  deadline, after which \<open>expire_pending\<close> runs and \<open>timed_out\<close> is the answer.
\<close>

definition authorization_decision ::
  "session_id \<Rightarrow> authorization_registry_inner \<Rightarrow> (remote_session_snapshot, remote_failure) result option" where
  "authorization_decision sid inner =
     (case map_of (ai_records inner) sid of
        None \<Rightarrow> Some (Err (failure RcIdentityMismatch))
      | Some record \<Rightarrow>
          let snapshot = az_snapshot record in
          if sn_authorization_state snapshot \<in> {AuAuthorizing, AuGranted} then Some (Ok snapshot)
          else if sn_authorization_state snapshot \<in> {AuDenied, AuExpired, AuRevoked, AuLockedOut, AuPolicyChanged}
          then Some (Err (case sn_failure snapshot of Some f \<Rightarrow> f | None \<Rightarrow> failure RcPolicyChanged))
          else None)"

definition timed_out :: "remote_session_snapshot option \<Rightarrow> remote_failure" where
  "timed_out expired =
     (case Option.bind expired sn_failure of Some f \<Rightarrow> f | None \<Rightarrow> failure RcAuthorizationTimeout)"

section \<open>Grants\<close>

definition install_verified_grant_inner ::
  "'kp crypto_suite \<Rightarrow> verified_session_grant \<Rightarrow> u64 \<Rightarrow> u64 option \<Rightarrow> authorization_registry_inner
   \<Rightarrow> authorization_registry_inner \<times> (remote_session_snapshot, remote_failure) result" where
  "install_verified_grant_inner cr grant installed_at_ms wan_local_policy_revision inner =
     (let grant = grant\<lparr>vg_granted_scopes := normalize_scopes (vg_granted_scopes grant)\<rparr>;
          sid = vg_session_id grant in
      case map_of (ai_records inner) sid of
        None \<Rightarrow> (inner, Err (failure RcIdentityMismatch))
      | Some record \<Rightarrow>
      let snapshot = az_snapshot record; request = az_request record in
      if sn_authorization_state snapshot \<noteq> AuAuthorizing then (inner, Err (failure RcPolicyChanged))
      else
      let scope_binding_is_valid =
            (if sn_role snapshot = RoleController
             then vg_granted_scopes grant \<noteq> [] \<and>
               list_all (\<lambda>scope. scope \<in> set (sn_requested_scopes snapshot) \<and>
                 scope \<in> set (vq_peer_permission_ceiling request) \<and>
                 scope \<in> set (vq_machine_permission_ceiling request) \<and>
                 scope \<in> set (vq_runtime_capabilities request)) (vg_granted_scopes grant)
             else vg_granted_scopes grant = sn_granted_scopes snapshot);
          policy_binding_is_valid =
            (case wan_local_policy_revision of
               Some expected_revision \<Rightarrow>
                 sn_role snapshot = RoleAgent \<and> vq_access_mode request = Attended \<and>
                 vq_transport_kind request = ''webrtc_relay'' \<and> sn_policy_revision snapshot = expected_revision \<and>
                 (\<exists>key\<in>set_option (az_peer_public_key record). public_key_id cr key = vq_peer_key_id request) \<and>
                 installed_at_ms < vq_expires_at_ms request \<and> vg_expires_at_ms grant \<le> vq_expires_at_ms request \<and>
                 vg_policy_revision grant > 0
             | None \<Rightarrow>
                 sn_role snapshot = RoleController \<or> vg_policy_revision grant = sn_policy_revision snapshot) in
      case remote_route_kind_of (vq_transport_kind request) of
        None \<Rightarrow> (inner, Err (failure RcPolicyChanged))
      | Some route_kind \<Rightarrow>
      if trim (vg_grant_id grant) = [] \<or> \<not> scope_binding_is_valid \<or> \<not> policy_binding_is_valid
        \<or> vg_issued_at_ms grant > installed_at_ms \<or> installed_at_ms > vg_expires_at_ms grant
        \<or> vg_route_constraint grant \<noteq> vq_transport_kind request
        \<or> all_zero (vg_transport_fingerprint_sha256 grant)
      then (inner, Err (failure RcPolicyChanged))
      else
        let snapshot = snapshot\<lparr>sn_granted_scopes := vg_granted_scopes grant,
              sn_policy_revision := vg_policy_revision grant, sn_authorization_state := AuGranted,
              sn_route_state := RtConnecting, sn_route_kind := Some route_kind,
              sn_presentation_state := PsConnecting, sn_updated_at_ms := installed_at_ms,
              sn_authorization_expires_at_ms := Some (vg_expires_at_ms grant)\<rparr> in
        (push_events installed_at_ms sid
           [EvAuthorizationChanged AuGranted None, EvRouteChanged RtConnecting (Some route_kind) None]
           (set_record sid (record\<lparr>az_grant := Some grant, az_snapshot := snapshot\<rparr>) inner),
         Ok snapshot))"

definition install_verified_grant ::
  "'kp crypto_suite \<Rightarrow> verified_session_grant \<Rightarrow> u64 \<Rightarrow> authorization_registry_inner
   \<Rightarrow> authorization_registry_inner \<times> (remote_session_snapshot, remote_failure) result" where
  "install_verified_grant cr grant installed_at_ms inner =
     install_verified_grant_inner cr grant installed_at_ms None inner"

definition install_verified_wan_target_grant ::
  "'kp crypto_suite \<Rightarrow> verified_session_grant \<Rightarrow> u64 \<Rightarrow> u64 \<Rightarrow> authorization_registry_inner
   \<Rightarrow> authorization_registry_inner \<times> (remote_session_snapshot, remote_failure) result" where
  "install_verified_wan_target_grant cr grant expected_local_policy_revision installed_at_ms inner =
     install_verified_grant_inner cr grant installed_at_ms (Some expected_local_policy_revision) inner"

definition session_mark_streaming ::
  "session_id \<Rightarrow> u64 \<Rightarrow> authorization_registry_inner \<Rightarrow> authorization_registry_inner \<times> remote_session_snapshot option" where
  "session_mark_streaming sid changed_at_ms inner =
     (case expire_grant_locked sid changed_at_ms inner of
        (inner, True) \<Rightarrow> (inner, map_option az_snapshot (map_of (ai_records inner) sid))
      | (inner, False) \<Rightarrow>
     (case map_of (ai_records inner) sid of
        None \<Rightarrow> (inner, None)
      | Some record \<Rightarrow>
      let snapshot = az_snapshot record in
      if sn_authorization_state snapshot \<noteq> AuGranted then (inner, None)
      else case remote_route_kind_of (vq_transport_kind (az_request record)) of
        None \<Rightarrow> (inner, None)
      | Some route_kind \<Rightarrow>
      if sn_route_state snapshot = RtConnected \<and> sn_route_kind snapshot = Some route_kind
        \<and> sn_media_state snapshot = MdStreaming \<and> sn_presentation_state snapshot = PsStreaming
      then (inner, Some snapshot)
      else
        let snapshot = snapshot\<lparr>sn_route_state := RtConnected, sn_route_kind := Some route_kind,
              sn_media_state := MdStreaming, sn_presentation_state := PsStreaming,
              sn_updated_at_ms := changed_at_ms\<rparr> in
        (push_events changed_at_ms sid
           [EvRouteChanged RtConnected (Some route_kind) None, EvMediaChanged MdStreaming None]
           (set_record sid (record\<lparr>az_snapshot := snapshot\<rparr>) inner),
         Some snapshot)))"

section \<open>Using a grant\<close>

definition snapshot_at ::
  "session_id \<Rightarrow> u64 \<Rightarrow> authorization_registry_inner \<Rightarrow> authorization_registry_inner \<times> remote_session_snapshot option" where
  "snapshot_at sid now_ms inner =
     (case expire_grant_locked sid now_ms inner of
        (inner, _) \<Rightarrow> (inner, map_option az_snapshot (map_of (ai_records inner) sid)))"

definition grant_in_force :: "authorization_record \<Rightarrow> remote_permission_scope \<Rightarrow> u64 \<Rightarrow> verified_session_grant \<Rightarrow> bool" where
  "grant_in_force record scope now_ms grant \<longleftrightarrow>
     az_grant record = Some grant \<and> sn_authorization_state (az_snapshot record) = AuGranted \<and>
     vg_issued_at_ms grant \<le> now_ms \<and> now_ms \<le> vg_expires_at_ms grant \<and> scope \<in> set (vg_granted_scopes grant)"

definition allows_scope ::
  "session_id \<Rightarrow> remote_permission_scope \<Rightarrow> u64 \<Rightarrow> authorization_registry_inner \<Rightarrow> authorization_registry_inner \<times> bool" where
  "allows_scope sid scope now_ms inner =
     (case expire_grant_locked sid now_ms inner of
        (inner, _) \<Rightarrow>
          (inner, case map_of (ai_records inner) sid of
             None \<Rightarrow> False
           | Some record \<Rightarrow>
               (case az_grant record of None \<Rightarrow> False | Some grant \<Rightarrow> grant_in_force record scope now_ms grant)))"

definition acquire_scope_lease ::
  "session_id \<Rightarrow> remote_permission_scope \<Rightarrow> u64 \<Rightarrow> authorization_registry_inner
   \<Rightarrow> authorization_registry_inner \<times> session_authorization_lease option" where
  "acquire_scope_lease sid scope now_ms inner =
     (case expire_grant_locked sid now_ms inner of
        (inner, _) \<Rightarrow>
          (inner, case map_of (ai_records inner) sid of
             None \<Rightarrow> None
           | Some record \<Rightarrow>
               (case az_grant record of
                  None \<Rightarrow> None
                | Some grant \<Rightarrow>
                    if grant_in_force record scope now_ms grant
                    then Some \<lparr>le_session_id = sid, le_instance_id = az_instance_id record,
                           le_expires_at_ms = vg_expires_at_ms grant\<rparr>
                    else None)))"

text \<open>
  When \<open>wait_until_invalid\<close> returns: the deadline has passed, the record's channel has the value
  true, or the record and with it the sender of the channel is gone.
\<close>

definition lease_invalid :: "session_authorization_lease \<Rightarrow> u64 \<Rightarrow> authorization_registry_inner \<Rightarrow> bool" where
  "lease_invalid lease now_ms inner \<longleftrightarrow>
     now_ms > le_expires_at_ms lease \<or>
     (case map_of (ai_records inner) (le_session_id lease) of
        None \<Rightarrow> True
      | Some record \<Rightarrow> az_instance_id record \<noteq> le_instance_id lease \<or> az_cancellation record)"

definition control_authorization ::
  "'kp crypto_suite \<Rightarrow> session_id \<Rightarrow> u64 \<Rightarrow> authorization_registry_inner
   \<Rightarrow> (active_control_authorization_t, remote_failure) result" where
  "control_authorization cr sid now_ms inner =
     (case map_of (ai_records inner) sid of
        None \<Rightarrow> Err (failure RcIdentityMismatch)
      | Some record \<Rightarrow>
      let snapshot = az_snapshot record; request = az_request record in
      if sn_authorization_state snapshot \<noteq> AuGranted
      then Err (case sn_failure snapshot of Some f \<Rightarrow> f | None \<Rightarrow> failure RcPolicyChanged)
      else if sn_route_state snapshot \<noteq> RtConnected \<or> sn_media_state snapshot \<noteq> MdStreaming
      then Err (failure RcPolicyChanged)
      else case az_grant record of
        None \<Rightarrow> Err (failure RcPolicyChanged)
      | Some grant \<Rightarrow>
      if vg_session_id grant \<noteq> sid \<or> vg_issued_at_ms grant > now_ms \<or> now_ms > vg_expires_at_ms grant
        \<or> vg_policy_revision grant \<noteq> sn_policy_revision snapshot
        \<or> vg_granted_scopes grant \<noteq> sn_granted_scopes snapshot
      then Err (failure RcPolicyChanged)
      else case az_peer_public_key record of
        None \<Rightarrow> Err (failure RcIdentityMismatch)
      | Some peer_public_key \<Rightarrow>
      if public_key_id cr peer_public_key \<noteq> vq_peer_key_id request then Err (failure RcIdentityMismatch)
      else case parse_sha256_identifier (vg_grant_id grant) of
        None \<Rightarrow> Err (failure RcPolicyChanged)
      | Some grant_id \<Rightarrow>
          Ok \<lparr>ca_session_id = sid, ca_role = sn_role snapshot, ca_peer_device_id = vq_peer_device_id request,
             ca_peer_key_id = vq_peer_key_id request, ca_peer_public_key = peer_public_key,
             ca_grant_id = grant_id, ca_granted_scopes = vg_granted_scopes grant,
             ca_expires_at_ms = vg_expires_at_ms grant, ca_policy_revision = vg_policy_revision grant\<rparr>)"

definition active_control_authorization ::
  "'kp crypto_suite \<Rightarrow> session_id \<Rightarrow> u64 \<Rightarrow> authorization_registry_inner
   \<Rightarrow> authorization_registry_inner \<times> (active_control_authorization_t, remote_failure) result" where
  "active_control_authorization cr sid now_ms inner =
     (case expire_grant_locked sid now_ms inner of
        (inner, _) \<Rightarrow> (inner, control_authorization cr sid now_ms inner))"

subsection \<open>Route evidence\<close>

datatype route_candidate_state = RcsNotTried | RcsConnecting | RcsConnected | RcsFailed

record route_candidate_evidence =
  rce_route :: remote_route_kind
  rce_state :: route_candidate_state
  rce_started_at_ms :: "u64 option"
  rce_completed_at_ms :: "u64 option"
  rce_round_trip_ms :: "u32 option"
  rce_failure :: "remote_failure option"

record session_route_evidence =
  rv_session_id :: session_id
  rv_route_state :: remote_route_state
  rv_selected_route :: "remote_route_kind option"
  rv_policy_revision :: u64
  rv_transport_fingerprint_sha256 :: "string option"
  rv_candidates :: "route_candidate_evidence list"
  rv_observed_at_ms :: u64

definition candidate_state_of :: "remote_route_state \<Rightarrow> route_candidate_state" where
  "candidate_state_of state =
     (case state of
        RtIdle \<Rightarrow> RcsNotTried
      | RtGathering \<Rightarrow> RcsConnecting | RtConnecting \<Rightarrow> RcsConnecting
      | RtMigrating \<Rightarrow> RcsConnecting | RtReconnecting \<Rightarrow> RcsConnecting
      | RtConnected \<Rightarrow> RcsConnected
      | RtFailed \<Rightarrow> RcsFailed | RtClosed \<Rightarrow> RcsFailed)"

definition project_verified_route_evidence ::
  "'kp crypto_suite \<Rightarrow> authorization_record \<Rightarrow> u64 \<Rightarrow> (session_route_evidence, remote_failure) result" where
  "project_verified_route_evidence cr record observed_at_ms =
     (let snapshot = az_snapshot record; request = az_request record in
      if sn_authorization_state snapshot \<noteq> AuGranted
      then Err (case sn_failure snapshot of Some f \<Rightarrow> f | None \<Rightarrow> failure RcPolicyChanged)
      else case az_grant record of
        None \<Rightarrow> Err (failure RcPolicyChanged)
      | Some grant \<Rightarrow>
      if vq_session_id request \<noteq> sn_session_id snapshot \<or> vq_peer_device_id request \<noteq> sn_peer_device_id snapshot
        \<or> vq_peer_key_id request \<noteq> sn_peer_key_id snapshot \<or> vg_session_id grant \<noteq> sn_session_id snapshot
        \<or> vg_issued_at_ms grant > observed_at_ms \<or> observed_at_ms > vg_expires_at_ms grant
        \<or> vg_policy_revision grant \<noteq> sn_policy_revision snapshot
        \<or> vg_granted_scopes grant \<noteq> sn_granted_scopes snapshot
        \<or> vg_route_constraint grant \<noteq> vq_transport_kind request \<or> vg_route_constraint grant \<noteq> ''quic''
        \<or> all_zero (vg_transport_fingerprint_sha256 grant)
      then Err (failure RcPolicyChanged)
      else case az_peer_public_key record of
        None \<Rightarrow> Err (failure RcIdentityMismatch)
      | Some peer_public_key \<Rightarrow>
      if public_key_id cr peer_public_key \<noteq> vq_peer_key_id request then Err (failure RcIdentityMismatch)
      else if sn_route_kind snapshot \<noteq> Some RkLanQuic then Err (failure RcPolicyChanged)
      else
        let state = candidate_state_of (sn_route_state snapshot) in
        Ok \<lparr>rv_session_id = sn_session_id snapshot, rv_route_state = sn_route_state snapshot,
           rv_selected_route = sn_route_kind snapshot, rv_policy_revision = sn_policy_revision snapshot,
           rv_transport_fingerprint_sha256 =
             Some (''sha256:'' @ concat (map hex_byte (vg_transport_fingerprint_sha256 grant))),
           rv_candidates = [\<lparr>rce_route = RkLanQuic, rce_state = state,
             rce_started_at_ms = (if state \<noteq> RcsNotTried then Some (vg_issued_at_ms grant) else None),
             rce_completed_at_ms = (if state \<in> {RcsConnected, RcsFailed}
               then Some (max (sn_updated_at_ms snapshot) (vg_issued_at_ms grant)) else None),
             rce_round_trip_ms = None,
             rce_failure = (if state = RcsFailed then sn_failure snapshot else None)\<rparr>],
           rv_observed_at_ms = observed_at_ms\<rparr>)"

definition verified_route_evidence_at ::
  "'kp crypto_suite \<Rightarrow> session_id \<Rightarrow> u64 \<Rightarrow> authorization_registry_inner
   \<Rightarrow> authorization_registry_inner \<times> (session_route_evidence option, remote_failure) result" where
  "verified_route_evidence_at cr sid observed_at_ms inner =
     (case expire_grant_locked sid observed_at_ms inner of
        (inner, _) \<Rightarrow>
          (inner, case map_of (ai_records inner) sid of
             None \<Rightarrow> Ok None
           | Some record \<Rightarrow> and_then (project_verified_route_evidence cr record observed_at_ms) (\<lambda>e. Ok (Some e))))"

section \<open>Subscriptions\<close>

datatype remote_cursor_state = CursorCurrent | CursorResetRequired

record session_event_subscription_query =
  sq_session_id :: "session_id option"
  sq_after_sequence :: "u64 option"
  sq_limit :: u32
  sq_wait_timeout_ms :: u32

record session_event_subscription =
  sp_events :: "remote_session_event_envelope list"
  sp_pending_sessions :: "remote_session_snapshot list"
  sp_next_after_sequence :: "u64 option"
  sp_cursor_state :: remote_cursor_state
  sp_has_more :: bool
  sp_poll_after_ms :: u32

definition about_session :: "session_event_subscription_query \<Rightarrow> session_id \<Rightarrow> bool" where
  "about_session query sid \<longleftrightarrow> (case sq_session_id query of None \<Rightarrow> True | Some wanted \<Rightarrow> wanted = sid)"

text \<open>The pairs \<open>(created_at_ms, session_id)\<close> are compared by the bytes of the strings.\<close>

definition pending_key :: "remote_session_snapshot \<Rightarrow> u64 \<times> bytes" where
  "pending_key snapshot = (sn_created_at_ms snapshot, as_bytes (sn_session_id snapshot))"

fun bytes_less :: "bytes \<Rightarrow> bytes \<Rightarrow> bool" where
  "bytes_less _ [] = False"
| "bytes_less [] (_ # _) = True"
| "bytes_less (a # as) (b # bs) \<longleftrightarrow> a < b \<or> (a = b \<and> bytes_less as bs)"

definition key_less :: "u64 \<times> bytes \<Rightarrow> u64 \<times> bytes \<Rightarrow> bool" where
  "key_less k l \<longleftrightarrow> fst k < fst l \<or> (fst k = fst l \<and> bytes_less (snd k) (snd l))"

fun insert_pending :: "remote_session_snapshot \<Rightarrow> remote_session_snapshot list \<Rightarrow> remote_session_snapshot list" where
  "insert_pending x [] = [x]"
| "insert_pending x (y # ys) =
     (if key_less (pending_key y) (pending_key x) then y # insert_pending x ys else x # y # ys)"

definition pending_sessions ::
  "session_event_subscription_query \<Rightarrow> authorization_registry_inner \<Rightarrow> remote_session_snapshot list" where
  "pending_sessions query inner =
     foldr insert_pending (filter (\<lambda>snapshot. sn_role snapshot = RoleAgent \<and> sn_access_mode snapshot = Attended \<and>
         sn_authorization_state snapshot = AuAwaitingLocalConsent \<and> about_session query (sn_session_id snapshot))
       (map (\<lambda>e. az_snapshot (snd e)) (ai_records inner))) []"

definition after_of :: "session_event_subscription_query \<Rightarrow> u64" where
  "after_of query = (case sq_after_sequence query of Some s \<Rightarrow> s | None \<Rightarrow> 0)"

definition matching_events ::
  "session_event_subscription_query \<Rightarrow> authorization_registry_inner \<Rightarrow> remote_session_event_envelope list" where
  "matching_events query inner =
     filter (\<lambda>event. ee_sequence event > after_of query \<and> about_session query (ee_session_id event)) (ai_events inner)"

definition build_subscription ::
  "authorization_registry_inner \<Rightarrow> session_event_subscription_query \<Rightarrow> session_event_subscription" where
  "build_subscription inner query =
     (if (case ai_events inner of
            [] \<Rightarrow> False
          | oldest # _ \<Rightarrow> sq_after_sequence query \<noteq> None \<and>
              saturating_add (after_of query) 1 < ee_sequence oldest)
      then \<lparr>sp_events = [], sp_pending_sessions = pending_sessions query inner,
             sp_next_after_sequence = Some (ai_next_sequence inner), sp_cursor_state = CursorResetRequired,
             sp_has_more = False, sp_poll_after_ms = 0\<rparr>
      else
        let matching = matching_events query inner;
            events = take (unat (sq_limit query)) matching;
            has_more = length matching > length events in
        \<lparr>sp_events = events,
         sp_pending_sessions = (if sq_after_sequence query = None then pending_sessions query inner else []),
         sp_next_after_sequence =
           (if events \<noteq> [] then Some (ee_sequence (last events))
            else if ai_next_sequence inner > 0 then Some (ai_next_sequence inner)
            else sq_after_sequence query),
         sp_cursor_state = CursorCurrent, sp_has_more = has_more,
         sp_poll_after_ms = (if has_more then 0 else 250)\<rparr>)"

text \<open>One round of \<open>subscribe\<close>: \<open>None\<close> waits for a change or the deadline, which returns the page.\<close>

definition subscribe_round ::
  "session_event_subscription_query \<Rightarrow> authorization_registry_inner
   \<Rightarrow> (session_event_subscription option, remote_failure) result" where
  "subscribe_round query inner =
     (if sq_limit query = 0 \<or> sq_limit query > 256 \<or> sq_wait_timeout_ms query > 30000
      then Err (failure RcPolicyChanged)
      else
        let page = build_subscription inner query in
        if sp_events page \<noteq> [] \<or> sp_pending_sessions page \<noteq> [] \<or> sp_cursor_state page = CursorResetRequired
          \<or> sq_wait_timeout_ms query = 0
        then Ok (Some page) else Ok None)"

end
