(* ===== verification/Session_Authority.thy ===== *)
theory Session_Authority
  imports Session_Authorization
begin

text \<open>
  The authorization registry under any sequence of calls.  The step relation \<open>au_step\<close> has one
  rule per method and keeps, beside the registry, the history of what the local user approved
  and which unattended proofs were verified.  What a method does to the table of records is
  broken down into moves; the invariant of a record (\<open>record_ok\<close>) and of the registry are
  shown for the moves, and every method is a sequence of moves.
\<close>

section \<open>Steps\<close>

datatype authority =
    ConsentGiven u64 "remote_permission_scope list" u64
  | CredentialProven u64 unattended_credential bytes bytes bytes unattended_access_policy u64

definition consent_entry :: "authorization_registry_inner \<Rightarrow> consent_response \<Rightarrow> u64 \<Rightarrow> authority list" where
  "consent_entry inner response t =
     (case map_of (ai_records inner) (cp_session_id response) of
        Some r \<Rightarrow> if cp_decision response = Approve
          then [ConsentGiven (az_instance_id r) (cp_approved_scopes response) t] else []
      | None \<Rightarrow> [])"

definition proof_entry ::
  "authorization_registry_inner \<Rightarrow> unattended_authorization_state \<Rightarrow> session_id \<Rightarrow> bytes \<Rightarrow> bytes \<Rightarrow> bytes \<Rightarrow> u64
   \<Rightarrow> authority list" where
  "proof_entry inner unattended sid transcript nonce proof_bytes t =
     (case (map_of (ai_records inner) sid, ua_credential unattended) of
        (Some r, Some credential) \<Rightarrow>
          [CredentialProven (az_instance_id r) credential transcript nonce proof_bytes (ua_policy unattended) t]
      | _ \<Rightarrow> [])"

type_synonym au_state = "session_authorization_registry \<times> authority list"

text \<open>
  The effect of each reading method on the registry is that of \<open>expire_grant_locked\<close>.  Every caller of \<open>record_failure\<close>
  passes one of the terminal states.
\<close>

inductive au_step :: "'kp crypto_suite \<Rightarrow> au_state \<Rightarrow> au_state \<Rightarrow> bool" for cr where
  au_incoming: "begin_verified_incoming request (rg_inner g) = (i, r) \<Longrightarrow>
    au_step cr (g, h) (g\<lparr>rg_inner := i\<rparr>, h)"
| au_outgoing: "begin_outgoing request (rg_inner g) = (i, r) \<Longrightarrow> au_step cr (g, h) (g\<lparr>rg_inner := i\<rparr>, h)"
| au_observe: "observe_outgoing_birth sid (rg_inner g) = (i, rc) \<Longrightarrow> au_step cr (g, h) (g\<lparr>rg_inner := i\<rparr>, h)"
| au_drop_receipt: "au_step cr (g, h) (g\<lparr>rg_inner := drop_receipt n (rg_inner g)\<rparr>, h)"
| au_bind: "bind_authenticated_peer_key cr sid key t (rg_inner g) = (i, r) \<Longrightarrow>
    au_step cr (g, h) (g\<lparr>rg_inner := i\<rparr>, h)"
| au_bind_outgoing: "bind_outgoing_authenticated_peer cr sid device key_id key t (rg_inner g) = (i, r) \<Longrightarrow>
    au_step cr (g, h) (g\<lparr>rg_inner := i\<rparr>, h)"
| au_respond: "respond_to_consent_with_audit audit response t (rg_inner g) = (i, r) \<Longrightarrow>
    au_step cr (g, h) (g\<lparr>rg_inner := i\<rparr>, if is_ok r then h @ consent_entry (rg_inner g) response t else h)"
| au_expire_pending: "expire_pending sid t (rg_inner g) = (i, s) \<Longrightarrow> au_step cr (g, h) (g\<lparr>rg_inner := i\<rparr>, h)"
| au_verify: "verify_unattended cr sid transcript nonce epoch proof_bytes t (rg_unattended g) (rg_inner g) = (i, r) \<Longrightarrow>
    au_step cr (g, h) (g\<lparr>rg_inner := i\<rparr>,
      if is_ok r then h @ proof_entry (rg_inner g) (rg_unattended g) sid transcript nonce proof_bytes t else h)"
| au_install: "install_verified_grant_inner cr grant t wan (rg_inner g) = (i, r) \<Longrightarrow>
    au_step cr (g, h) (g\<lparr>rg_inner := i\<rparr>, h)"
| au_failure: "record_failure sid state fail t (rg_inner g) = (i, s) \<Longrightarrow> is_terminal_authorization_state state \<Longrightarrow>
    au_step cr (g, h) (g\<lparr>rg_inner := i\<rparr>, h)"
| au_stream: "session_mark_streaming sid t (rg_inner g) = (i, s) \<Longrightarrow> au_step cr (g, h) (g\<lparr>rg_inner := i\<rparr>, h)"
| au_read: "expire_grant_locked sid t (rg_inner g) = (i, b) \<Longrightarrow> au_step cr (g, h) (g\<lparr>rg_inner := i\<rparr>, h)"
| au_revoke_peer: "revoke_peer_authorizations key_id t (rg_inner g) = (i, sids) \<Longrightarrow>
    au_step cr (g, h) (g\<lparr>rg_inner := i\<rparr>, h)"
| au_revoke_unattended: "revoke_unattended_authorizations t (rg_inner g) = (i, sids) \<Longrightarrow>
    au_step cr (g, h) (g\<lparr>rg_inner := i\<rparr>, h)"
| au_enable: "enable_unattended generated policy t (rg_unattended g) = (u, e) \<Longrightarrow>
    au_step cr (g, h) (g\<lparr>rg_unattended := u\<rparr>, h)"
| au_disable: "disable_unattended revision t (rg_unattended g) = (u, e) \<Longrightarrow>
    au_step cr (g, h) (g\<lparr>rg_unattended := u\<rparr>, h)"
| au_rotate: "rotate_unattended generated revision t (rg_unattended g) = (u, e) \<Longrightarrow>
    au_step cr (g, h) (g\<lparr>rg_unattended := u\<rparr>, h)"

lemma reading_methods:
  "fst (snapshot_at sid t i) = fst (expire_grant_locked sid t i)"
  "fst (allows_scope sid scope t i) = fst (expire_grant_locked sid t i)"
  "fst (acquire_scope_lease sid scope t i) = fst (expire_grant_locked sid t i)"
  "fst (active_control_authorization cr sid t i) = fst (expire_grant_locked sid t i)"
  "fst (verified_route_evidence_at cr sid t i) = fst (expire_grant_locked sid t i)"
  by (simp_all add: snapshot_at_def allows_scope_def acquire_scope_lease_def active_control_authorization_def
      verified_route_evidence_at_def split: prod.splits)

definition au_start :: au_state where
  "au_start = (registry_default, [])"

section \<open>Moves\<close>

definition scopes_within :: "authorization_record \<Rightarrow> remote_permission_scope list \<Rightarrow> bool" where
  "scopes_within r scopes \<longleftrightarrow>
     set scopes \<subseteq> set (vq_requested_scopes (az_request r)) \<inter> set (vq_peer_permission_ceiling (az_request r)) \<inter>
       set (vq_machine_permission_ceiling (az_request r)) \<inter> set (vq_runtime_capabilities (az_request r))"

text \<open>Who answers for the scopes of a session this machine serves.\<close>

definition justified :: "'kp crypto_suite \<Rightarrow> authority list \<Rightarrow> authorization_record \<Rightarrow> remote_permission_scope list \<Rightarrow> bool" where
  "justified cr h r scopes \<longleftrightarrow>
     (case vq_access_mode (az_request r) of
        Attended \<Rightarrow> \<exists>approved t. ConsentGiven (az_instance_id r) approved t \<in> set h \<and>
          set scopes \<subseteq> set approved \<and> t \<le> vq_expires_at_ms (az_request r)
      | Unattended \<Rightarrow> \<exists>credential transcript pf policy t.
          CredentialProven (az_instance_id r) credential transcript (vq_request_nonce (az_request r)) pf policy t \<in> set h \<and>
          unattended_verify cr credential transcript (vq_request_nonce (az_request r)) pf \<and>
          set scopes \<subseteq> set (up_permission_ceiling policy) \<and> t \<le> vq_expires_at_ms (az_request r) \<and>
          (up_trusted_devices_only policy \<longrightarrow> up_allowed_peer_key_ids policy \<noteq> [] \<longrightarrow>
             vq_peer_key_id (az_request r) \<in> set (up_allowed_peer_key_ids policy)))"

abbreviation au_of :: "authorization_record \<Rightarrow> remote_authorization_state" where
  "au_of r \<equiv> sn_authorization_state (az_snapshot r)"

inductive record_step :: "'kp crypto_suite \<Rightarrow> authority list \<Rightarrow> authorization_record \<Rightarrow> authorization_record \<Rightarrow> bool" for cr h where
  rs_fail: "\<not> terminal_record r \<Longrightarrow> is_terminal_authorization_state state \<Longrightarrow>
    record_step cr h r (failed_record state f t r)"
| rs_decline: "au_of r = AuAwaitingLocalConsent \<Longrightarrow> is_terminal_authorization_state state \<Longrightarrow>
    scopes \<in> {[], sn_granted_scopes (az_snapshot r)} \<Longrightarrow>
    record_step cr h r (r\<lparr>az_snapshot := (az_snapshot r)\<lparr>sn_authorization_state := state, sn_presentation_state := ps,
      sn_failure := f, sn_granted_scopes := scopes, sn_updated_at_ms := t\<rparr>\<rparr>)"
| rs_approve: "au_of r \<in> {AuAwaitingLocalConsent, AuVerifyingUnattendedCredential} \<Longrightarrow>
    scopes_within r scopes \<Longrightarrow> justified cr h r scopes \<Longrightarrow>
    record_step cr h r (r\<lparr>az_snapshot := (az_snapshot r)\<lparr>sn_authorization_state := AuAuthorizing,
      sn_presentation_state := ps, sn_granted_scopes := scopes, sn_policy_revision := p, sn_failure := f,
      sn_updated_at_ms := t\<rparr>\<rparr>)"
| rs_bind: "\<not> terminal_record r \<Longrightarrow> length key = 32 \<Longrightarrow> public_key_id cr key = vq_peer_key_id (az_request r) \<Longrightarrow>
    record_step cr h r (r\<lparr>az_peer_public_key := Some key, az_snapshot := (az_snapshot r)\<lparr>sn_updated_at_ms := t\<rparr>\<rparr>)"
| rs_bind_outgoing: "sn_role (az_snapshot r) = RoleController \<Longrightarrow> au_of r = AuAuthorizing \<Longrightarrow> length key = 32 \<Longrightarrow>
    public_key_id cr key = key_id \<Longrightarrow>
    record_step cr h r (r\<lparr>az_request := (az_request r)\<lparr>vq_peer_key_id := key_id\<rparr>, az_peer_public_key := Some key,
      az_snapshot := (az_snapshot r)\<lparr>sn_peer_key_id := key_id, sn_updated_at_ms := t\<rparr>\<rparr>)"
| rs_grant: "au_of r = AuAuthorizing \<Longrightarrow> vg_session_id grant = vq_session_id (az_request r) \<Longrightarrow>
    (if sn_role (az_snapshot r) = RoleController then scopes_within r (vg_granted_scopes grant)
     else vg_granted_scopes grant = sn_granted_scopes (az_snapshot r)) \<Longrightarrow>
    vg_route_constraint grant = vq_transport_kind (az_request r) \<Longrightarrow>
    remote_route_kind_of (vq_transport_kind (az_request r)) = Some kind \<Longrightarrow>
    record_step cr h r (r\<lparr>az_grant := Some grant, az_snapshot := (az_snapshot r)\<lparr>
      sn_granted_scopes := vg_granted_scopes grant, sn_policy_revision := vg_policy_revision grant,
      sn_authorization_state := AuGranted, sn_route_state := RtConnecting, sn_route_kind := Some kind,
      sn_presentation_state := PsConnecting, sn_updated_at_ms := t, sn_authorization_expires_at_ms := e\<rparr>\<rparr>)"
| rs_stream: "au_of r = AuGranted \<Longrightarrow> remote_route_kind_of (vq_transport_kind (az_request r)) = Some kind \<Longrightarrow>
    record_step cr h r (r\<lparr>az_snapshot := (az_snapshot r)\<lparr>sn_route_state := RtConnected, sn_route_kind := Some kind,
      sn_media_state := MdStreaming, sn_presentation_state := PsStreaming, sn_updated_at_ms := t\<rparr>\<rparr>)"

definition birth_allowed ::
  "verified_incoming_authorization_request \<Rightarrow> remote_session_snapshot \<Rightarrow> authorization_registry_inner \<Rightarrow> bool" where
  "birth_allowed request snapshot i \<longleftrightarrow>
     map_of (ai_records i) (vq_session_id request) = None \<and> length (ai_records i) < AUTHORIZATION_RECORD_LIMIT \<and>
     ((\<exists>ps. snapshot = first_snapshot request RoleController AuAuthorizing ps) \<or>
      (\<exists>ps. snapshot = first_snapshot request RoleAgent
           (if vq_access_mode request = Attended then AuAwaitingLocalConsent else AuVerifyingUnattendedCredential) ps) \<and>
        count_pending (\<lambda>_. True) i < MAX_PENDING_INCOMING_AUTHORIZATIONS \<and>
        count_pending (\<lambda>r. vq_peer_key_id (az_request r) = vq_peer_key_id request) i < MAX_PENDING_INCOMING_PER_PEER)"

inductive inner_move ::
  "'kp crypto_suite \<Rightarrow> authority list \<Rightarrow> authorization_registry_inner \<Rightarrow> authorization_registry_inner \<Rightarrow> bool" for cr h where
  im_push: "inner_move cr h i (push_event t sid e i)"
| im_update: "map_of (ai_records i) sid = Some r \<Longrightarrow> record_step cr h r r' \<Longrightarrow> inner_move cr h i (set_record sid r' i)"
| im_prune: "(\<And>e. e \<in> set (ai_records i) \<Longrightarrow> \<not> P e \<Longrightarrow> terminal_record (snd e)) \<Longrightarrow>
    inner_move cr h i (i\<lparr>ai_records := filter P (ai_records i)\<rparr>)"
| im_birth: "birth_allowed request snapshot i \<Longrightarrow> checked_add (ai_next_instance_id i) 1 = Some n \<Longrightarrow>
    inner_move cr h i (set_record (vq_session_id request) (new_authorization_record request snapshot n)
      (i\<lparr>ai_next_instance_id := n\<rparr>))"
| im_books: "inner_move cr h i (i\<lparr>ai_outgoing_birth_observers := b, ai_receipts := rc, ai_next_receipt := n\<rparr>)"


section \<open>Invariants\<close>

text \<open>
  What holds of every record: request and snapshot agree, a grant is there exactly in the
  granted state and agrees with the snapshot, scopes stay within every ceiling and are
  answered for, a terminal record has lost everything, only a granted session streams, and a
  bound key has the identifier the session was made for.
\<close>

definition request_agrees :: "session_id \<Rightarrow> authorization_record \<Rightarrow> bool" where
  "request_agrees sid r \<longleftrightarrow>
     vq_session_id (az_request r) = sid \<and> sn_session_id (az_snapshot r) = sid \<and>
     sn_peer_device_id (az_snapshot r) = vq_peer_device_id (az_request r) \<and>
     sn_peer_key_id (az_snapshot r) = vq_peer_key_id (az_request r) \<and>
     sn_access_mode (az_snapshot r) = vq_access_mode (az_request r) \<and>
     sn_requested_scopes (az_snapshot r) = vq_requested_scopes (az_request r)"

definition grant_agrees :: "session_id \<Rightarrow> authorization_record \<Rightarrow> bool" where
  "grant_agrees sid r \<longleftrightarrow>
     (case az_grant r of
        None \<Rightarrow> au_of r \<noteq> AuGranted
      | Some g \<Rightarrow> au_of r = AuGranted \<and> vg_session_id g = sid \<and>
          vg_granted_scopes g = sn_granted_scopes (az_snapshot r) \<and>
          vg_policy_revision g = sn_policy_revision (az_snapshot r) \<and>
          vg_route_constraint g = vq_transport_kind (az_request r) \<and>
          sn_route_kind (az_snapshot r) = remote_route_kind_of (vq_transport_kind (az_request r)))"

definition scopes_agree :: "'kp crypto_suite \<Rightarrow> authority list \<Rightarrow> authorization_record \<Rightarrow> bool" where
  "scopes_agree cr h r \<longleftrightarrow>
     scopes_within r (sn_granted_scopes (az_snapshot r)) \<and>
     (sn_granted_scopes (az_snapshot r) \<noteq> [] \<longrightarrow> au_of r \<in> {AuAuthorizing, AuGranted}) \<and>
     (sn_role (az_snapshot r) = RoleAgent \<and> au_of r \<in> {AuAuthorizing, AuGranted} \<longrightarrow>
        justified cr h r (sn_granted_scopes (az_snapshot r)))"

definition state_agrees :: "authorization_record \<Rightarrow> bool" where
  "state_agrees r \<longleftrightarrow>
     au_of r \<notin> {AuDiscovered, AuAuthenticating} \<and>
     (sn_role (az_snapshot r) = RoleController \<longrightarrow> au_of r \<notin> {AuAwaitingLocalConsent, AuVerifyingUnattendedCredential}) \<and>
     (au_of r = AuAwaitingLocalConsent \<longrightarrow> vq_access_mode (az_request r) = Attended) \<and>
     (au_of r = AuVerifyingUnattendedCredential \<longrightarrow> vq_access_mode (az_request r) = Unattended) \<and>
     (au_of r \<noteq> AuGranted \<and> \<not> terminal_record r \<longrightarrow>
        sn_route_state (az_snapshot r) = RtIdle \<and> sn_media_state (az_snapshot r) = MdIdle) \<and>
     (terminal_record r \<longrightarrow> sn_media_state (az_snapshot r) \<noteq> MdStreaming \<and> sn_route_state (az_snapshot r) \<noteq> RtConnected) \<and>
     (az_cancellation r \<longrightarrow> terminal_record r)"

definition key_agrees :: "'kp crypto_suite \<Rightarrow> authorization_record \<Rightarrow> bool" where
  "key_agrees cr r \<longleftrightarrow> (\<forall>key. az_peer_public_key r = Some key \<longrightarrow>
     length key = 32 \<and> public_key_id cr key = vq_peer_key_id (az_request r))"

definition record_ok :: "'kp crypto_suite \<Rightarrow> authority list \<Rightarrow> session_id \<Rightarrow> authorization_record \<Rightarrow> bool" where
  "record_ok cr h sid r \<longleftrightarrow> request_agrees sid r \<and> grant_agrees sid r \<and> scopes_agree cr h r \<and> state_agrees r \<and> key_agrees cr r"

lemmas record_ok_defs = request_agrees_def grant_agrees_def scopes_agree_def state_agrees_def key_agrees_def

lemma justified_mono: "justified cr h r s \<Longrightarrow> set h \<subseteq> set h' \<Longrightarrow> set s' \<subseteq> set s \<Longrightarrow> justified cr h' r s'"
  unfolding justified_def by (auto split: remote_access_mode.splits) blast+

lemma justified_cong [simp]:
  "justified cr h (r\<lparr>az_snapshot := s\<rparr>) = justified cr h r" "justified cr h (r\<lparr>az_grant := g\<rparr>) = justified cr h r"
  "justified cr h (r\<lparr>az_peer_public_key := k\<rparr>) = justified cr h r"
  by (simp_all add: justified_def fun_eq_iff cong: remote_access_mode.case_cong)

lemma scopes_within_cong [simp]:
  "scopes_within (r\<lparr>az_snapshot := s\<rparr>) = scopes_within r" "scopes_within (r\<lparr>az_grant := g\<rparr>) = scopes_within r"
  "scopes_within (r\<lparr>az_peer_public_key := k\<rparr>) = scopes_within r"
  "scopes_within (r\<lparr>az_request := (az_request r)\<lparr>vq_peer_key_id := key_id\<rparr>\<rparr>) = scopes_within r"
  "scopes_within r []"
  by (simp_all add: scopes_within_def fun_eq_iff)

lemma record_ok_mono: "record_ok cr h sid r \<Longrightarrow> set h \<subseteq> set h' \<Longrightarrow> record_ok cr h' sid r"
  by (auto simp: record_ok_def scopes_agree_def intro: justified_mono)

lemma failed_record_fields:
  "az_instance_id (failed_record st f t r) = az_instance_id r" "az_request (failed_record st f t r) = az_request r"
  "az_grant (failed_record st f t r) = None" "az_peer_public_key (failed_record st f t r) = az_peer_public_key r"
  "az_cancellation (failed_record st f t r)" "au_of (failed_record st f t r) = st"
  "sn_granted_scopes (az_snapshot (failed_record st f t r)) = []"
  "sn_role (az_snapshot (failed_record st f t r)) = sn_role (az_snapshot r)"
  "sn_media_state (az_snapshot (failed_record st f t r)) = MdStreaming \<longleftrightarrow> False"
  "sn_route_state (az_snapshot (failed_record st f t r)) = RtConnected \<longleftrightarrow> False"
  "request_agrees sid (failed_record st f t r) = request_agrees sid r"
  by (auto simp: failed_record_def Let_def request_agrees_def had_active_media_def had_active_route_def)

lemma terminal_states:
  "is_terminal_authorization_state AuDenied" "is_terminal_authorization_state AuExpired"
  "is_terminal_authorization_state AuRevoked" "is_terminal_authorization_state AuLockedOut"
  "is_terminal_authorization_state AuPolicyChanged" "\<not> is_terminal_authorization_state AuGranted"
  "\<not> is_terminal_authorization_state AuAuthorizing" "\<not> is_terminal_authorization_state AuAwaitingLocalConsent"
  "\<not> is_terminal_authorization_state AuVerifyingUnattendedCredential"
  by (simp_all add: is_terminal_authorization_state_def)

lemma terminal_not:
  "is_terminal_authorization_state st \<Longrightarrow> st \<notin> {AuDiscovered, AuAuthenticating, AuAuthorizing, AuGranted,
     AuAwaitingLocalConsent, AuVerifyingUnattendedCredential}"
  by (auto simp: is_terminal_authorization_state_def)

lemma record_step_ok:
  assumes "record_step cr h r r'" "record_ok cr h sid r"
  shows "record_ok cr h sid r'"
  using assms(1)
proof cases
  case (rs_fail state f t)
  with assms(2) terminal_not [OF rs_fail(3)] show ?thesis
    by (auto simp: record_ok_def scopes_within_def grant_agrees_def scopes_agree_def state_agrees_def key_agrees_def
        terminal_record_def failed_record_fields)
next
  case (rs_decline state scopes ps f t)
  with assms(2) terminal_not [OF rs_decline(3)] show ?thesis
    by (auto simp: record_ok_def record_ok_defs terminal_record_def terminal_states split: option.splits)
next
  case (rs_approve scopes ps p f t)
  with assms(2) show ?thesis
    by (auto simp: record_ok_def record_ok_defs terminal_record_def terminal_states split: option.splits)
next
  case (rs_bind key t)
  with assms(2) show ?thesis
    by (auto simp: record_ok_def record_ok_defs terminal_record_def terminal_states split: option.splits)
next
  case (rs_bind_outgoing key key_id t)
  with assms(2) show ?thesis
    by (auto simp: record_ok_def record_ok_defs terminal_record_def terminal_states split: option.splits)
next
  case (rs_grant grant kind t e)
  with assms(2) show ?thesis
    by (auto simp: record_ok_def record_ok_defs terminal_record_def terminal_states split: option.splits if_splits)
next
  case (rs_stream kind t)
  with assms(2) show ?thesis
    by (auto simp: record_ok_def record_ok_defs terminal_record_def terminal_states split: option.splits)
qed

text \<open>What a move of a record keeps.\<close>

lemma record_step_keeps:
  assumes "record_step cr h r r'"
  shows "az_instance_id r' = az_instance_id r" "\<not> terminal_record r"
    and "is_pending_incoming_record r' \<Longrightarrow>
      is_pending_incoming_record r \<and> vq_peer_key_id (az_request r') = vq_peer_key_id (az_request r)"
  using assms
  by (cases; auto simp: is_pending_incoming_record_def terminal_record_def terminal_states failed_record_fields
      dest: terminal_not)+

definition events_ok :: "authorization_registry_inner \<Rightarrow> bool" where
  "events_ok i \<longleftrightarrow> length (ai_events i) \<le> EVENT_HISTORY_LIMIT \<and>
     (unat (ai_next_sequence i) + 1 < 2 ^ 64 \<longrightarrow>
        length (ai_events i) = min EVENT_HISTORY_LIMIT (unat (ai_next_sequence i)) \<and>
        map (\<lambda>e. unat (ee_sequence e)) (ai_events i) =
          [Suc (unat (ai_next_sequence i)) - length (ai_events i) ..< Suc (unat (ai_next_sequence i))])"

definition records_ok :: "'kp crypto_suite \<Rightarrow> authority list \<Rightarrow> authorization_registry_inner \<Rightarrow> bool" where
  "records_ok cr h i \<longleftrightarrow>
     hm_wf (ai_records i) \<and> (\<forall>(sid, r) \<in> set (ai_records i). record_ok cr h sid r) \<and>
     distinct (map (\<lambda>e. az_instance_id (snd e)) (ai_records i)) \<and>
     (\<forall>(sid, r) \<in> set (ai_records i). az_instance_id r \<le> ai_next_instance_id i)"

definition capacity_ok :: "authorization_registry_inner \<Rightarrow> bool" where
  "capacity_ok i \<longleftrightarrow> length (ai_records i) \<le> AUTHORIZATION_RECORD_LIMIT \<and>
     count_pending (\<lambda>_. True) i \<le> MAX_PENDING_INCOMING_AUTHORIZATIONS \<and>
     (\<forall>k. count_pending (\<lambda>r. vq_peer_key_id (az_request r) = k) i \<le> MAX_PENDING_INCOMING_PER_PEER)"

definition inner_ok :: "'kp crypto_suite \<Rightarrow> authority list \<Rightarrow> authorization_registry_inner \<Rightarrow> bool" where
  "inner_ok cr h i \<longleftrightarrow> records_ok cr h i \<and> capacity_ok i \<and> events_ok i"

subsection \<open>Association lists\<close>

lemma update_absent: "map_of m k = None \<Longrightarrow> AList.update k v m = m @ [(k, v)]"
  by (induction m) (auto split: if_splits)

lemma length_update_present: "map_of m k = Some v0 \<Longrightarrow> length (AList.update k v m) = length m"
  by (induction m) (auto split: if_splits)

lemma length_filter_update:
  "map_of m k = Some v0 \<Longrightarrow> (Q (k, v) \<Longrightarrow> Q (k, v0)) \<Longrightarrow> length (filter Q (AList.update k v m)) \<le> length (filter Q m)"
  by (induction m) (auto split: if_splits)

lemma map_update_same: "map_of m k = Some v0 \<Longrightarrow> g v = g v0 \<Longrightarrow> map (\<lambda>e. g (snd e)) (AList.update k v m) = map (\<lambda>e. g (snd e)) m"
  by (induction m) (auto split: if_splits)

lemma set_update_cases: "hm_wf m \<Longrightarrow> (j, w) \<in> set (AList.update k v m) \<Longrightarrow> (j = k \<and> w = v) \<or> (j \<noteq> k \<and> (j, w) \<in> set m)"
  using hm.get_entries [of "AList.update k v m" j w] hm.get_ins [of m k v] hm.wf_ins [of m k v] hm.get_entries [of m j w]
  by (auto split: if_splits)

lemma hm_wf_filter: "hm_wf m \<Longrightarrow> hm_wf (filter P m)"
  by (simp add: hm_wf_def distinct_map_filter)

lemma map_of_filter_hm: "hm_wf m \<Longrightarrow> map_of (filter P m) k = (case map_of m k of Some v \<Rightarrow> if P (k, v) then Some v else None | None \<Rightarrow> None)"
  by (induction m) (auto simp: hm_wf_def split: option.splits dest: map_of_SomeD, force dest: map_of_SomeD)

subsection \<open>Moves keep the invariant\<close>

lemma push_event_fields [simp]:
  "ai_records (push_event t sid e i) = ai_records i" "ai_next_instance_id (push_event t sid e i) = ai_next_instance_id i"
  "ai_outgoing_birth_observers (push_event t sid e i) = ai_outgoing_birth_observers i"
  "ai_receipts (push_event t sid e i) = ai_receipts i" "ai_next_receipt (push_event t sid e i) = ai_next_receipt i"
  by (simp_all add: push_event_def Let_def)

lemma set_record_fields [simp]:
  "ai_records (set_record sid r i) = AList.update sid r (ai_records i)" "ai_events (set_record sid r i) = ai_events i"
  "ai_next_sequence (set_record sid r i) = ai_next_sequence i"
  "ai_next_instance_id (set_record sid r i) = ai_next_instance_id i"
  by (simp_all add: set_record_def)

lemma bump_small: "unat (bump n) + 1 < 2 ^ 64 \<Longrightarrow> unat (bump n) = Suc (unat n)"
proof -
  assume small: "unat (bump n) + 1 < 2 ^ 64"
  have "unat (saturating_add n 1) = min (unat n + 1) (2 ^ 64 - 1)" by (simp add: unat_saturating_add)
  moreover from this have "1 \<le> saturating_add n 1" by (simp add: word_le_nat_alt)
  then have "bump n = saturating_add n 1" by (simp add: max_def)
  ultimately show ?thesis using small by simp
qed

lemma push_event_ok: "events_ok i \<Longrightarrow> events_ok (push_event t sid e i)"
proof -
  assume ok: "events_ok i"
  let ?n = "unat (ai_next_sequence i)" and ?l = "length (ai_events i)"
  show ?thesis
  proof (cases "unat (bump (ai_next_sequence i)) + 1 < 2 ^ 64")
    case True
    note n = bump_small [OF True]
    with True have "?n + 1 < 2 ^ 64" by simp
    with ok have seqs: "map (\<lambda>e. unat (ee_sequence e)) (ai_events i) = [Suc ?n - ?l ..< Suc ?n]" and l: "?l = min 1024 ?n"
      by (simp_all add: events_ok_def authorization_limits del: upt_Suc)
    let ?es = "ai_events i @ [\<lparr>ee_sequence = bump (ai_next_sequence i), ee_timestamp_ms = t, ee_session_id = sid, ee_event = e\<rparr>]"
    define d where "d = Suc ?l - 1024"
    have "map (\<lambda>e. unat (ee_sequence e)) ?es = [Suc ?n - ?l ..< Suc (Suc ?n)]"
      using seqs n l by (simp add: upt_Suc_append del: upt_Suc)
    then have "map (\<lambda>e. unat (ee_sequence e)) (drop d ?es) = [Suc ?n - ?l + d ..< Suc (Suc ?n)]"
      by (simp only: drop_map [symmetric] drop_upt)
    moreover have "length (drop d ?es) = min 1024 (Suc ?n)" "Suc ?n - ?l + d = Suc (Suc ?n) - length (drop d ?es)"
      using l by (auto simp: d_def min_def)
    ultimately have "map (\<lambda>e. unat (ee_sequence e)) (drop d ?es) = [Suc (Suc ?n) - length (drop d ?es) ..< Suc (Suc ?n)]"
      "length (drop d ?es) = min 1024 (Suc ?n)" by simp_all
    moreover have "ai_events (push_event t sid e i) = drop d ?es" "ai_next_sequence (push_event t sid e i) = bump (ai_next_sequence i)"
      by (simp_all add: push_event_def Let_def d_def EVENT_HISTORY_LIMIT_def)
    ultimately show ?thesis unfolding events_ok_def n EVENT_HISTORY_LIMIT_def by (simp only: n) simp
  next
    case False
    with ok show ?thesis by (simp add: events_ok_def push_event_def Let_def)
  qed
qed

lemma events_ok_cong: "ai_events i' = ai_events i \<Longrightarrow> ai_next_sequence i' = ai_next_sequence i \<Longrightarrow> events_ok i \<Longrightarrow> events_ok i'"
  by (simp add: events_ok_def)

lemma records_ok_cong:
  "ai_records i' = ai_records i \<Longrightarrow> ai_next_instance_id i' = ai_next_instance_id i \<Longrightarrow> records_ok cr h i \<Longrightarrow> records_ok cr h i'"
  by (simp add: records_ok_def)

lemma capacity_ok_cong: "ai_records i' = ai_records i \<Longrightarrow> capacity_ok i \<Longrightarrow> capacity_ok i'"
  by (simp add: capacity_ok_def count_pending_def)

lemma records_ok_get: "records_ok cr h i \<Longrightarrow> map_of (ai_records i) sid = Some r \<Longrightarrow>
    record_ok cr h sid r \<and> az_instance_id r \<le> ai_next_instance_id i"
  by (auto simp: records_ok_def hm.get_entries)

lemma update_records_ok:
  assumes ok: "records_ok cr h i" and get: "map_of (ai_records i) sid = Some r" and step: "record_step cr h r r'"
  shows "records_ok cr h (set_record sid r' i)"
proof -
  note r = records_ok_get [OF ok get]
  have "record_ok cr h sid r'" using record_step_ok [OF step] r by blast
  moreover have inst: "az_instance_id r' = az_instance_id r" using record_step_keeps(1) [OF step] .
  moreover have wf: "hm_wf (ai_records i)" using ok by (simp add: records_ok_def)
  ultimately show ?thesis
    using ok r map_update_same [OF get, where g = az_instance_id, OF inst] hm.wf_ins [OF wf]
    by (auto simp: records_ok_def dest!: set_update_cases [OF wf])
qed

lemma count_pending_update:
  assumes "map_of (ai_records i) sid = Some r" "is_pending_incoming_record r' \<and> P r' \<Longrightarrow> is_pending_incoming_record r \<and> P r"
  shows "count_pending P (set_record sid r' i) \<le> count_pending P i"
  using length_filter_update [OF assms(1), where Q = "\<lambda>e. is_pending_incoming_record (snd e) \<and> P (snd e)"] assms(2)
  by (simp add: count_pending_def)

lemma update_capacity_ok:
  assumes ok: "capacity_ok i" and get: "map_of (ai_records i) sid = Some r" and step: "record_step cr h r r'"
  shows "capacity_ok (set_record sid r' i)"
proof -
  have "count_pending P (set_record sid r' i) \<le> count_pending P i"
    if "\<And>a b. vq_peer_key_id (az_request a) = vq_peer_key_id (az_request b) \<Longrightarrow> P a = P b" for P
    using record_step_keeps(3) [OF step] that by (intro count_pending_update [OF get]) blast
  then have "count_pending (\<lambda>_. True) (set_record sid r' i) \<le> count_pending (\<lambda>_. True) i"
    "count_pending (\<lambda>r. vq_peer_key_id (az_request r) = k) (set_record sid r' i)
       \<le> count_pending (\<lambda>r. vq_peer_key_id (az_request r) = k) i" for k by simp_all
  with ok length_update_present [OF get] show ?thesis
    unfolding capacity_ok_def by (metis le_trans set_record_fields(1))
qed

lemma count_pending_filter: "count_pending P (i\<lparr>ai_records := filter Q (ai_records i)\<rparr>) \<le> count_pending P i"
proof -
  have "length (filter S (filter Q xs)) \<le> length (filter S xs)" for S :: "'b \<Rightarrow> bool" and Q xs by (induction xs) auto
  then show ?thesis by (simp add: count_pending_def)
qed

lemma prune_ok:
  "records_ok cr h i \<Longrightarrow> records_ok cr h (i\<lparr>ai_records := filter P (ai_records i)\<rparr>)"
  "capacity_ok i \<Longrightarrow> capacity_ok (i\<lparr>ai_records := filter P (ai_records i)\<rparr>)"
  using count_pending_filter [of _ P i]
  by (auto simp: records_ok_def capacity_ok_def hm_wf_filter distinct_map_filter
      intro: order_trans [OF length_filter_le] order_trans)

lemma new_record_ok:
  "birth_allowed request snapshot i \<Longrightarrow> record_ok cr h (vq_session_id request) (new_authorization_record request snapshot n)"
  by (cases "vq_access_mode request") (auto simp: birth_allowed_def record_ok_def record_ok_defs
      new_authorization_record_def first_snapshot_def terminal_record_def terminal_states scopes_within_def)

lemma birth_records_ok:
  assumes ok: "records_ok cr h i" and birth: "birth_allowed request snapshot i"
    and n: "checked_add (ai_next_instance_id i) 1 = Some n"
  shows "records_ok cr h (set_record (vq_session_id request) (new_authorization_record request snapshot n)
      (i\<lparr>ai_next_instance_id := n\<rparr>))"
proof -
  have none: "map_of (ai_records i) (vq_session_id request) = None" using birth by (simp add: birth_allowed_def)
  have "unat n = unat (ai_next_instance_id i) + 1" using checked_add_Some [OF n] by simp
  then have fresh: "ai_next_instance_id i < n" by (simp add: word_less_nat_alt)
  have old: "az_instance_id r < n" if "(sid, r) \<in> set (ai_records i)" for sid r
    using ok that fresh by (fastforce simp: records_ok_def)
  have "az_instance_id (new_authorization_record request snapshot n) = n" by (simp add: new_authorization_record_def)
  moreover from old have "n \<notin> (\<lambda>e. az_instance_id (snd e)) ` set (ai_records i)" by fastforce
  moreover have "\<forall>(sid, r) \<in> set (ai_records i). az_instance_id r \<le> n" using old by fastforce
  moreover have "hm_wf (ai_records i)" using ok by (simp add: records_ok_def)
  then have "hm_wf (ai_records i @ [(vq_session_id request, v)])" for v
    using hm.wf_ins [of "ai_records i" "vq_session_id request" v] none by (simp add: update_absent)
  ultimately show ?thesis
    using ok new_record_ok [OF birth, of cr h n] none by (simp add: records_ok_def update_absent)
qed

lemma birth_capacity_ok:
  assumes ok: "capacity_ok i" and birth: "birth_allowed request snapshot i"
  shows "capacity_ok (set_record (vq_session_id request) (new_authorization_record request snapshot n)
      (i\<lparr>ai_next_instance_id := n\<rparr>))"
proof -
  have none: "map_of (ai_records i) (vq_session_id request) = None" using birth by (simp add: birth_allowed_def)
  with ok birth show ?thesis
    by (auto simp: capacity_ok_def birth_allowed_def count_pending_def update_absent new_authorization_record_def
        first_snapshot_def is_pending_incoming_record_def Suc_le_eq)
qed

lemma inner_move_ok: "inner_move cr h i i' \<Longrightarrow> inner_ok cr h i \<Longrightarrow> inner_ok cr h i'"
proof (induction rule: inner_move.induct)
  case (im_push i t sid e)
  then show ?case by (auto simp: inner_ok_def push_event_ok intro: records_ok_cong capacity_ok_cong)
next
  case (im_update i sid r r')
  then show ?case
    by (auto simp: inner_ok_def intro: update_records_ok update_capacity_ok events_ok_cong)
next
  case (im_prune i P)
  then show ?case by (auto simp: inner_ok_def intro: prune_ok events_ok_cong)
next
  case (im_birth request snapshot i n)
  then show ?case by (auto simp: inner_ok_def intro: birth_records_ok birth_capacity_ok events_ok_cong)
next
  case (im_books i b rc n)
  then show ?case by (auto simp: inner_ok_def intro: records_ok_cong capacity_ok_cong events_ok_cong)
qed

lemma inner_moves_ok: "(inner_move cr h)\<^sup>*\<^sup>* i i' \<Longrightarrow> inner_ok cr h i \<Longrightarrow> inner_ok cr h i'"
  by (induction rule: rtranclp_induct) (auto intro: inner_move_ok)

lemma inner_ok_mono: "inner_ok cr h i \<Longrightarrow> set h \<subseteq> set h' \<Longrightarrow> inner_ok cr h' i"
  by (fastforce simp: inner_ok_def records_ok_def intro: record_ok_mono)

section \<open>Every method is a sequence of moves\<close>

abbreviation moves_to where
  "moves_to cr h \<equiv> (inner_move cr h)\<^sup>*\<^sup>*"

lemma one_move: "inner_move cr h i i' \<Longrightarrow> moves_to cr h i i'"
  by (rule r_into_rtranclp)

lemma more_moves: "moves_to cr h i i' \<Longrightarrow> inner_move cr h i' i'' \<Longrightarrow> moves_to cr h i i''"
  by (rule rtranclp.rtrancl_into_rtrancl)

lemma push_events_moves: "moves_to cr h i i' \<Longrightarrow> moves_to cr h i (push_events t sid es i')"
  unfolding push_events_def by (induction es arbitrary: i') (auto intro: more_moves im_push)

lemma set_record_moves:
  "map_of (ai_records i) sid = Some r \<Longrightarrow> record_step cr h r r' \<Longrightarrow> moves_to cr h i (set_record sid r' i)"
  by (intro one_move im_update)

lemma push_event_moves: "moves_to cr h i i' \<Longrightarrow> moves_to cr h i (push_event t sid e i')"
  by (erule more_moves) (rule im_push)

lemma filter_moves:
  "(\<And>e. e \<in> set (ai_records i) \<Longrightarrow> \<not> P e \<Longrightarrow> terminal_record (snd e)) \<Longrightarrow>
   moves_to cr h i (i\<lparr>ai_records := filter P (ai_records i)\<rparr>)"
  by (intro one_move im_prune)

lemma evict_is_filter:
  assumes "hm_wf m"
  shows "\<exists>P. evict_terminal m = filter P m \<and> (\<forall>e \<in> set m. \<not> P e \<longrightarrow> terminal_record (snd e))"
  using assms
proof (induction m rule: evict_terminal.induct)
  case (1 m)
  show ?case
  proof (cases "length m < AUTHORIZATION_RECORD_LIMIT \<or> oldest_terminal m = None")
    case True
    then show ?thesis by (intro exI [of _ "\<lambda>_. True"]) (auto simp: evict_terminal.simps [of m])
  next
    case False
    then obtain sid where sid: "oldest_terminal m = Some sid" and long: "\<not> length m < AUTHORIZATION_RECORD_LIMIT" by auto
    then obtain r where r: "(sid, r) \<in> set m" "terminal_record r" using oldest_terminal_mem by blast
    from "1.IH" [OF long sid] "1.prems" obtain P where
      P: "evict_terminal (AList.delete sid m) = filter P (AList.delete sid m)"
         "\<forall>e \<in> set (AList.delete sid m). \<not> P e \<longrightarrow> terminal_record (snd e)" by (auto simp: hm.wf_del)
    have unique: "w = r" if "(sid, w) \<in> set m" for w
      using that r(1) hm.get_entries [OF "1.prems", of sid] by (metis option.inject)
    have "evict_terminal m = filter (\<lambda>e. fst e \<noteq> sid \<and> P e) m"
      using P(1) sid long
      by (auto simp: evict_terminal.simps [of m] AList.delete_eq case_prod_beta' intro!: filter_cong)
    moreover have "\<forall>e \<in> set m. \<not> (fst e \<noteq> sid \<and> P e) \<longrightarrow> terminal_record (snd e)"
      using P(2) r(2) unique by (fastforce simp: AList.delete_eq)
    ultimately show ?thesis by blast
  qed
qed

lemma prune_moves:
  assumes "hm_wf (ai_records i)"
  shows "moves_to cr h i (prune_authorization_records t i)"
proof -
  let ?K = "\<lambda>(_ :: session_id, r). \<not> terminal_record r \<or>
      saturating_sub t (sn_updated_at_ms (az_snapshot r)) \<le> TERMINAL_RECORD_RETENTION_MS"
  obtain P where P: "evict_terminal (filter ?K (ai_records i)) = filter P (filter ?K (ai_records i))"
    "\<forall>e \<in> set (filter ?K (ai_records i)). \<not> P e \<longrightarrow> terminal_record (snd e)"
    using evict_is_filter [OF hm_wf_filter [OF assms]] by blast
  have "prune_authorization_records t i = i\<lparr>ai_records := filter (\<lambda>e. ?K e \<and> P e) (ai_records i)\<rparr>"
    unfolding prune_authorization_records_def P(1) by (simp add: conj_commute case_prod_beta')
  then show ?thesis using filter_moves [of i "\<lambda>e. ?K e \<and> P e" cr h] P(2) by force
qed

lemma transition_moves:
  assumes "transition_failure_locked sid state f t i = (i', s)" "is_terminal_authorization_state state"
  shows "moves_to cr h i i'"
  using assms
  by (auto simp: transition_failure_locked_def Let_def split: option.splits if_splits
      intro!: push_events_moves set_record_moves rs_fail)

lemma expire_moves: "expire_grant_locked sid t i = (i', b) \<Longrightarrow> moves_to cr h i i'"
  by (auto simp: expire_grant_locked_def terminal_states split: option.splits if_splits prod.splits
      intro: transition_moves)

lemma revoke_each_moves:
  "revoke_each state f t sids i = (i', revoked) \<Longrightarrow> is_terminal_authorization_state state \<Longrightarrow> moves_to cr h i i'"
proof (induction sids arbitrary: i i' revoked)
  case (Cons sid sids)
  from Cons.prems(1) obtain i1 s rest where 1: "transition_failure_locked sid state f t i = (i1, s)"
    "revoke_each state f t sids i1 = (i', rest)" by (auto split: prod.splits)
  from transition_moves [OF 1(1) Cons.prems(2)] Cons.IH [OF 1(2) Cons.prems(2)] show ?case
    by (rule rtranclp_trans)
qed simp

lemma bind_moves: "bind_authenticated_peer_key cr sid key t i = (i', r) \<Longrightarrow> moves_to cr h i i'"
  by (auto simp: bind_authenticated_peer_key_def Let_def split: option.splits if_splits
      intro!: set_record_moves rs_bind)

lemma bind_outgoing_moves: "bind_outgoing_authenticated_peer cr sid device key_id key t i = (i', r) \<Longrightarrow> moves_to cr h i i'"
  by (auto simp: bind_outgoing_authenticated_peer_def Let_def split: option.splits if_splits
      intro!: set_record_moves rs_bind_outgoing)

lemma stream_moves: "session_mark_streaming sid t i = (i', s) \<Longrightarrow> moves_to cr h i i'"
  by (auto simp: session_mark_streaming_def Let_def split: option.splits if_splits prod.splits bool.splits
      dest: expire_moves intro!: push_events_moves intro: rtranclp_trans [OF expire_moves] set_record_moves rs_stream)

lemma expire_pending_moves: "expire_pending sid t i = (i', s) \<Longrightarrow> moves_to cr h i i'"
  by (auto simp: expire_pending_def Let_def terminal_states split: option.splits if_splits
      intro!: push_event_moves set_record_moves rs_decline)

lemma normalize_scopes_set [simp]: "set (normalize_scopes scopes) = set scopes"
  by (simp add: normalize_scopes_def)

lemma effective_within:
  "scopes_within r (effective_scopes (vq_requested_scopes (az_request r)) (vq_peer_permission_ceiling (az_request r))
     (vq_machine_permission_ceiling (az_request r)) approved (vq_runtime_capabilities (az_request r)))"
  "set (effective_scopes a b c approved d) \<subseteq> set approved"
  by (auto simp: scopes_within_def effective_scopes_def)

lemma install_moves:
  assumes ok: "records_ok cr h i" and inst: "install_verified_grant_inner cr grant t wan i = (i', r)"
  shows "moves_to cr h i i'"
proof (cases "i' = i")
  case False
  let ?g = "grant\<lparr>vg_granted_scopes := normalize_scopes (vg_granted_scopes grant)\<rparr>"
  from inst False obtain rec kind where
    get: "map_of (ai_records i) (vg_session_id grant) = Some rec" and au: "au_of rec = AuAuthorizing"
    and scopes: "if sn_role (az_snapshot rec) = RoleController then list_all (\<lambda>scope.
          scope \<in> set (sn_requested_scopes (az_snapshot rec)) \<and> scope \<in> set (vq_peer_permission_ceiling (az_request rec)) \<and>
          scope \<in> set (vq_machine_permission_ceiling (az_request rec)) \<and>
          scope \<in> set (vq_runtime_capabilities (az_request rec))) (vg_granted_scopes ?g)
        else vg_granted_scopes ?g = sn_granted_scopes (az_snapshot rec)"
    and route: "vg_route_constraint grant = vq_transport_kind (az_request rec)"
      "remote_route_kind_of (vq_transport_kind (az_request rec)) = Some kind"
    and i': "i' = push_events t (vg_session_id grant)
         [EvAuthorizationChanged AuGranted None, EvRouteChanged RtConnecting (Some kind) None]
         (set_record (vg_session_id grant) (rec\<lparr>az_grant := Some ?g, az_snapshot := (az_snapshot rec)
           \<lparr>sn_granted_scopes := vg_granted_scopes ?g, sn_policy_revision := vg_policy_revision ?g,
            sn_authorization_state := AuGranted, sn_route_state := RtConnecting, sn_route_kind := Some kind,
            sn_presentation_state := PsConnecting, sn_updated_at_ms := t,
            sn_authorization_expires_at_ms := Some (vg_expires_at_ms ?g)\<rparr>\<rparr>) i)"
    unfolding install_verified_grant_inner_def Let_def
    by (auto split: option.splits if_splits)
  have agrees: "request_agrees (vg_session_id grant) rec" using records_ok_get [OF ok get] by (simp add: record_ok_def)
  have "record_step cr h rec (rec\<lparr>az_grant := Some ?g, az_snapshot := (az_snapshot rec)
           \<lparr>sn_granted_scopes := vg_granted_scopes ?g, sn_policy_revision := vg_policy_revision ?g,
            sn_authorization_state := AuGranted, sn_route_state := RtConnecting, sn_route_kind := Some kind,
            sn_presentation_state := PsConnecting, sn_updated_at_ms := t,
            sn_authorization_expires_at_ms := Some (vg_expires_at_ms ?g)\<rparr>\<rparr>)"
    using agrees scopes route
    by (intro rs_grant [OF au]) (auto simp: request_agrees_def scopes_within_def list_all_iff split: if_splits)
  from set_record_moves [OF get this] show ?thesis unfolding i' by (rule push_events_moves)
qed simp

lemma rs_approve_consent:
  assumes "au_of r = AuAwaitingLocalConsent" "scopes_within r scopes" "justified cr h r scopes"
  shows "record_step cr h r (r\<lparr>az_snapshot := (az_snapshot r)\<lparr>sn_authorization_state := AuAuthorizing,
      sn_presentation_state := ps, sn_granted_scopes := scopes, sn_failure := f, sn_updated_at_ms := t\<rparr>\<rparr>)"
  using rs_approve [where p = "sn_policy_revision (az_snapshot r)" and ps = ps and f = f and t = t, OF _ assms(2, 3)] assms(1) by (cases "az_snapshot r") simp

lemma rs_decline_consent:
  assumes "au_of r = AuAwaitingLocalConsent" "is_terminal_authorization_state state"
  shows "record_step cr h r (r\<lparr>az_snapshot := (az_snapshot r)\<lparr>sn_authorization_state := state,
      sn_presentation_state := ps, sn_failure := f, sn_updated_at_ms := t\<rparr>\<rparr>)"
  using rs_decline [where scopes = "sn_granted_scopes (az_snapshot r)" and ps = ps and f = f and t = t, OF assms] by (cases "az_snapshot r") simp

lemma respond_moves:
  assumes ok: "records_ok cr h i" and resp: "respond_to_consent_with_audit audit response t i = (i', r)"
    and h': "h' = (if is_ok r then h @ consent_entry i response t else h)"
  shows "moves_to cr h' i i'"
proof (cases "map_of (ai_records i) (cp_session_id response)")
  case None
  with resp show ?thesis by (simp add: respond_to_consent_with_audit_def Let_def)
next
  case (Some rec)
  note resp = resp [unfolded respond_to_consent_with_audit_def Let_def, simplified, unfolded Some, simplified]
  show ?thesis
  proof (cases "au_of rec = AuAwaitingLocalConsent")
    case True
    have attended: "vq_access_mode (az_request rec) = Attended"
      using records_ok_get [OF ok Some] True by (simp add: record_ok_def state_agrees_def)
    show ?thesis
    proof (cases "is_ok r \<and> cp_decision response = Approve")
      case approved: True
      let ?e = "effective_scopes (vq_requested_scopes (az_request rec)) (vq_peer_permission_ceiling (az_request rec))
          (vq_machine_permission_ceiling (az_request rec)) (normalize_scopes (cp_approved_scopes response))
          (vq_runtime_capabilities (az_request rec))"
      from approved resp have t: "t \<le> vq_expires_at_ms (az_request rec)"
        by (auto simp: is_ok_iff not_less split: if_splits)
      have "ConsentGiven (az_instance_id rec) (cp_approved_scopes response) t \<in> set h'"
        using h' approved Some by (simp add: consent_entry_def)
      then have just: "justified cr h' rec ?e"
        using attended t effective_within(2) [of _ _ _ "normalize_scopes (cp_approved_scopes response)"]
        by (fastforce simp: justified_def)
      from approved resp True show ?thesis
        by (auto simp: is_ok_iff split: if_splits sum.splits
            intro!: push_event_moves set_record_moves [OF Some] rs_approve_consent effective_within(1) just)
    next
      case False
      with resp True show ?thesis
        by (cases "cp_decision response") (auto simp: is_ok_iff terminal_states split: if_splits sum.splits
            intro!: push_event_moves set_record_moves [OF Some] rs_decline_consent)
    qed
  qed (use resp in simp)
qed

lemma verify_moves:
  assumes ver: "verify_unattended cr sid transcript nonce epoch pf t u i = (i', r)"
    and h': "h' = (if is_ok r then h @ proof_entry i u sid transcript nonce pf t else h)"
  shows "moves_to cr h' i i'"
proof (cases "i' = i")
  case False
  let ?e = "\<lambda>rec. effective_scopes (vq_requested_scopes (az_request rec)) (vq_peer_permission_ceiling (az_request rec))
      (vq_machine_permission_ceiling (az_request rec)) (up_permission_ceiling (ua_policy u))
      (vq_runtime_capabilities (az_request rec))"
  from ver False obtain credential rec where
    c: "ua_credential u = Some credential" "map_of (ai_records i) sid = Some rec"
      "au_of rec = AuVerifyingUnattendedCredential" "vq_access_mode (az_request rec) = Unattended"
      "t \<le> vq_expires_at_ms (az_request rec)" "nonce = vq_request_nonce (az_request rec)"
      "up_trusted_devices_only (ua_policy u) \<longrightarrow> up_allowed_peer_key_ids (ua_policy u) \<noteq> [] \<longrightarrow>
         vq_peer_key_id (az_request rec) \<in> set (up_allowed_peer_key_ids (ua_policy u))"
      "unattended_verify cr credential transcript nonce pf" "is_ok r"
    and i': "i' = push_event t sid (EvAuthorizationChanged AuAuthorizing None)
       (set_record sid (rec\<lparr>az_snapshot := (az_snapshot rec)\<lparr>sn_authorization_state := AuAuthorizing,
          sn_presentation_state := PsAuthenticating, sn_granted_scopes := ?e rec,
          sn_policy_revision := ua_policy_revision u, sn_failure := None, sn_updated_at_ms := t\<rparr>\<rparr>) i)"
    unfolding verify_unattended_def Let_def by (auto simp: not_less split: option.splits if_splits)
  have entry: "CredentialProven (az_instance_id rec) credential transcript nonce pf (ua_policy u) t \<in> set h'"
    using h' c by (simp add: proof_entry_def)
  have "justified cr h' rec (?e rec)"
    unfolding justified_def c(4) remote_access_mode.case
    by (intro exI [of _ credential] exI [of _ transcript] exI [of _ pf] exI [of _ "ua_policy u"] exI [of _ t] conjI
        effective_within(2)) (use entry c in simp_all)
  then show ?thesis unfolding i' using c(3)
    by (intro push_event_moves set_record_moves [OF c(2)] rs_approve effective_within(1)) simp_all
qed simp

lemma books_moves:
  "moves_to cr h i i' \<Longrightarrow> moves_to cr h i (i'\<lparr>ai_outgoing_birth_observers := b, ai_receipts := rc, ai_next_receipt := n\<rparr>)"
  by (erule more_moves) (rule im_books)

lemma books_only:
  assumes "ai_records i'' = ai_records i'" "ai_events i'' = ai_events i'" "ai_next_sequence i'' = ai_next_sequence i'"
    "ai_next_instance_id i'' = ai_next_instance_id i'" and "moves_to cr h i i'"
  shows "moves_to cr h i i''"
proof -
  have "i'' = i'\<lparr>ai_outgoing_birth_observers := ai_outgoing_birth_observers i'', ai_receipts := ai_receipts i'',
      ai_next_receipt := ai_next_receipt i''\<rparr>"
    using assms(1-4) by simp
  with books_moves [OF assms(5)] show ?thesis by metis
qed

lemma observe_moves: "observe_outgoing_birth sid i = (i', rc) \<Longrightarrow> moves_to cr h i i'"
  by (rule books_only [where i' = i])
    (auto simp: observe_outgoing_birth_def prune_outgoing_birth_observers_def Let_def split: if_splits)

lemma drop_receipt_moves: "moves_to cr h i (drop_receipt n i)"
  by (rule books_only [where i' = i]) (simp_all add: drop_receipt_def)

lemma birth_moves:
  assumes "moves_to cr h i i1" "birth_allowed request snapshot i1" "checked_add (ai_next_instance_id i1) 1 = Some n"
    and "ai_records i' = AList.update (vq_session_id request) (new_authorization_record request snapshot n) (ai_records i1)"
    and "ai_events i' = ai_events i1" "ai_next_sequence i' = ai_next_sequence i1" "ai_next_instance_id i' = n"
  shows "moves_to cr h i i'"
  by (rule books_only [where i' = "set_record (vq_session_id request) (new_authorization_record request snapshot n)
      (i1\<lparr>ai_next_instance_id := n\<rparr>)", OF _ _ _ _ more_moves [OF assms(1) im_birth [OF assms(2, 3)]]])
    (use assms(4-7) in simp_all)

lemma normalize_request_id [simp]: "vq_session_id (normalize_request request) = vq_session_id request"
  by (simp add: normalize_request_def)

lemma controller_birth:
  "map_of (ai_records i) (vq_session_id q) = None \<Longrightarrow> length (ai_records i) < AUTHORIZATION_RECORD_LIMIT \<Longrightarrow>
   birth_allowed q (first_snapshot q RoleController AuAuthorizing ps) i"
  by (auto simp: birth_allowed_def)

lemma agent_birth:
  "map_of (ai_records i) (vq_session_id q) = None \<Longrightarrow> length (ai_records i) < AUTHORIZATION_RECORD_LIMIT \<Longrightarrow>
   count_pending (\<lambda>_. True) i < MAX_PENDING_INCOMING_AUTHORIZATIONS \<Longrightarrow>
   count_pending (\<lambda>r. vq_peer_key_id (az_request r) = vq_peer_key_id q) i < MAX_PENDING_INCOMING_PER_PEER \<Longrightarrow>
   birth_allowed q (case vq_access_mode q of
       Attended \<Rightarrow> first_snapshot q RoleAgent AuAwaitingLocalConsent ps
     | Unattended \<Rightarrow> first_snapshot q RoleAgent AuVerifyingUnattendedCredential ps') i"
  by (cases "vq_access_mode q") (auto simp: birth_allowed_def)

lemma prune_observers_fields [simp]:
  "ai_records (prune_outgoing_birth_observers i) = ai_records i" "ai_events (prune_outgoing_birth_observers i) = ai_events i"
  "ai_next_sequence (prune_outgoing_birth_observers i) = ai_next_sequence i"
  "ai_next_instance_id (prune_outgoing_birth_observers i) = ai_next_instance_id i"
  by (simp_all add: prune_outgoing_birth_observers_def)

lemma outgoing_cases:
  assumes "begin_outgoing request i = (i', r)"
  shows "i' = i \<or> i' = prune_authorization_records (vq_created_at_ms request) i \<or>
    (let q = normalize_request request; i1 = prune_authorization_records (vq_created_at_ms request) i;
       s = first_snapshot q RoleController AuAuthorizing PsAuthenticating in
     \<exists>n. birth_allowed q s i1 \<and> checked_add (ai_next_instance_id i1) 1 = Some n \<and>
      ai_records i' = AList.update (vq_session_id q) (new_authorization_record q s n) (ai_records i1) \<and>
      ai_events i' = ai_events i1 \<and> ai_next_sequence i' = ai_next_sequence i1 \<and> ai_next_instance_id i' = n)"
proof -
  have [simp]: "vq_created_at_ms (normalize_request request) = vq_created_at_ms request" by (simp add: normalize_request_def)
  show ?thesis
    using assms unfolding begin_outgoing_def Let_def
    by (simp add: next_authorization_instance_def not_le split: sum.splits if_splits option.splits)
      (auto intro!: controller_birth)
qed

lemma incoming_cases:
  assumes "begin_verified_incoming request i = (i', r)"
  shows "i' = i \<or> i' = prune_authorization_records (vq_created_at_ms request) i \<or>
    (let q = normalize_request request; i1 = prune_authorization_records (vq_created_at_ms request) i;
       s = (case vq_access_mode q of
            Attended \<Rightarrow> first_snapshot q RoleAgent AuAwaitingLocalConsent PsIncomingApprovalRequired
          | Unattended \<Rightarrow> first_snapshot q RoleAgent AuVerifyingUnattendedCredential PsAuthenticating) in
     \<exists>n j. birth_allowed q s i1 \<and> checked_add (ai_next_instance_id i1) 1 = Some n \<and>
      ai_records j = AList.update (vq_session_id q) (new_authorization_record q s n) (ai_records i1) \<and>
      ai_events j = ai_events i1 \<and> ai_next_sequence j = ai_next_sequence i1 \<and> ai_next_instance_id j = n \<and>
      (i' = j \<or> (\<exists>t sid e. i' = push_event t sid e j)))"
proof -
  have [simp]: "vq_created_at_ms (normalize_request request) = vq_created_at_ms request" by (simp add: normalize_request_def)
  let ?q = "normalize_request request" and ?i = "prune_authorization_records (vq_created_at_ms request) i"
  let ?s = "case vq_access_mode ?q of
            Attended \<Rightarrow> first_snapshot ?q RoleAgent AuAwaitingLocalConsent PsIncomingApprovalRequired
          | Unattended \<Rightarrow> first_snapshot ?q RoleAgent AuVerifyingUnattendedCredential PsAuthenticating"
  define j where "j n = (let p = prune_outgoing_birth_observers (?i\<lparr>ai_next_instance_id := n\<rparr>) in
      set_record (vq_session_id ?q) (new_authorization_record ?q ?s n)
       (p\<lparr>ai_outgoing_birth_observers := AList.delete (vq_session_id ?q) (ai_outgoing_birth_observers p)\<rparr>))" for n
  have born: "i' = i \<or> i' = ?i \<or> (\<exists>n. birth_allowed ?q ?s ?i \<and> checked_add (ai_next_instance_id ?i) 1 = Some n \<and>
      i' = (if vq_access_mode ?q = Attended then push_event (vq_created_at_ms ?q) (vq_session_id ?q)
              (EvConsentRequested (vq_requested_scopes ?q)) (j n) else j n))"
  proof (cases "is_ok r")
    case False
    with assms show ?thesis unfolding begin_verified_incoming_def Let_def by (auto split: sum.splits if_splits)
  next
    case True
    have "birth_allowed ?q ?s ?i" using assms True unfolding begin_verified_incoming_def Let_def
      by (intro agent_birth) (auto simp: not_le split: sum.splits if_splits)
    with assms True show ?thesis unfolding begin_verified_incoming_def Let_def j_def
      by (auto simp: next_authorization_instance_def simp del: normalize_request_id
          split: sum.splits if_split_asm option.splits)
  qed
  have "ai_records (j n) = AList.update (vq_session_id ?q) (new_authorization_record ?q ?s n) (ai_records ?i)"
    "ai_events (j n) = ai_events ?i" "ai_next_sequence (j n) = ai_next_sequence ?i" "ai_next_instance_id (j n) = n" for n
    by (simp_all add: j_def Let_def)
  with born show ?thesis unfolding Let_def by (metis (no_types, lifting))
qed

lemma outgoing_moves:
  assumes "hm_wf (ai_records i)" "begin_outgoing request i = (i', r)"
  shows "moves_to cr h i i'"
  using outgoing_cases [OF assms(2)] prune_moves [OF assms(1), of cr h "vq_created_at_ms request"]
  unfolding Let_def by (auto intro: birth_moves)

lemma incoming_moves:
  assumes "hm_wf (ai_records i)" "begin_verified_incoming request i = (i', r)"
  shows "moves_to cr h i i'"
  using incoming_cases [OF assms(2)] prune_moves [OF assms(1), of cr h "vq_created_at_ms request"]
  unfolding Let_def by (auto intro: birth_moves push_event_moves [OF birth_moves])

lemma au_step_moves:
  assumes "au_step cr (g, h) (g', h')" "inner_ok cr h (rg_inner g)"
  shows "moves_to cr h' (rg_inner g) (rg_inner g')" "set h \<subseteq> set h'"
proof -
  have ok: "records_ok cr h (rg_inner g)" "hm_wf (ai_records (rg_inner g))"
    using assms(2) by (simp_all add: inner_ok_def records_ok_def)
  show "moves_to cr h' (rg_inner g) (rg_inner g')"
    using assms(1)
    by cases (use ok in \<open>auto simp: terminal_states record_failure_def revoke_peer_authorizations_def
        revoke_unattended_authorizations_def dest: incoming_moves outgoing_moves observe_moves bind_moves
        bind_outgoing_moves respond_moves [OF _ _ refl] expire_pending_moves verify_moves [OF _ refl] install_moves
        transition_moves stream_moves expire_moves revoke_each_moves intro: drop_receipt_moves\<close>)
  show "set h \<subseteq> set h'" using assms(1) by cases auto
qed

definition au_ok :: "'kp crypto_suite \<Rightarrow> au_state \<Rightarrow> bool" where
  "au_ok cr s \<longleftrightarrow> inner_ok cr (snd s) (rg_inner (fst s))"

interpretation au: state_invariant "\<lambda>s. s = au_start" "au_step cr" "au_ok cr"
  for cr :: "'kp crypto_suite"
proof unfold_locales
  fix s s' :: au_state
  show "s = au_start \<Longrightarrow> au_ok cr s"
    by (simp add: au_ok_def au_start_def registry_default_def inner_ok_def records_ok_def capacity_ok_def events_ok_def
        count_pending_def)
  assume "au_step cr s s'" "au_ok cr s"
  then show "au_ok cr s'"
    using au_step_moves [of cr "fst s" "snd s" "fst s'" "snd s'"] inner_ok_mono inner_moves_ok
    unfolding au_ok_def by (metis prod.collapse)
qed

section \<open>Histories of a record\<close>

definition evolves :: "'kp crypto_suite \<Rightarrow> authorization_record \<Rightarrow> authorization_record \<Rightarrow> bool" where
  "evolves cr r r' \<longleftrightarrow> (\<exists>h. record_step cr h r r')"

lemma evolves_instance: "(evolves cr)\<^sup>*\<^sup>* r r' \<Longrightarrow> az_instance_id r' = az_instance_id r"
  by (induction rule: rtranclp_induct) (auto simp: evolves_def record_step_keeps(1))

lemma evolves_terminal: "(evolves cr)\<^sup>*\<^sup>* r r' \<Longrightarrow> terminal_record r \<Longrightarrow> r' = r"
  by (erule converse_rtranclpE) (auto simp: evolves_def dest: record_step_keeps(2))

lemma record_step_grant:
  "record_step cr h r r' \<Longrightarrow> au_of r = AuGranted \<Longrightarrow> az_grant r = Some g \<Longrightarrow>
   (au_of r' = AuGranted \<and> az_grant r' = Some g) \<or> (az_cancellation r' \<and> terminal_record r')"
  by (cases rule: record_step.cases) (auto simp: failed_record_fields terminal_record_def)

lemma evolves_grant:
  assumes "(evolves cr)\<^sup>*\<^sup>* r r'" "au_of r = AuGranted" "az_grant r = Some g"
  shows "(au_of r' = AuGranted \<and> az_grant r' = Some g) \<or> (az_cancellation r' \<and> terminal_record r')"
  using assms(1)
proof (induction rule: rtranclp_induct)
  case (step x y)
  then show ?case by (auto simp: evolves_def dest: record_step_grant record_step_keeps(2))
qed (use assms in simp)

text \<open>Where a record comes from: it is new, or evolved from the record of the same instance.\<close>

definition comes_from ::
  "'kp crypto_suite \<Rightarrow> authorization_registry_inner \<Rightarrow> authorization_registry_inner \<Rightarrow> bool" where
  "comes_from cr i i' \<longleftrightarrow> ai_next_instance_id i \<le> ai_next_instance_id i' \<and>
     (\<forall>sid r'. map_of (ai_records i') sid = Some r' \<longrightarrow> ai_next_instance_id i < az_instance_id r' \<or>
        (\<exists>r. map_of (ai_records i) sid = Some r \<and> (evolves cr)\<^sup>*\<^sup>* r r'))"

lemma comes_from_refl: "comes_from cr i i"
  by (auto simp: comes_from_def)

lemma comes_from_trans:
  assumes "comes_from cr i i'" "comes_from cr i' i''"
  shows "comes_from cr i i''"
proof -
  have "ai_next_instance_id i < az_instance_id r'' \<or> (\<exists>r. map_of (ai_records i) sid = Some r \<and> (evolves cr)\<^sup>*\<^sup>* r r'')"
    if get: "map_of (ai_records i'') sid = Some r''" for sid r''
  proof (cases "ai_next_instance_id i' < az_instance_id r''")
    case True
    with assms(1) show ?thesis by (auto simp: comes_from_def)
  next
    case False
    with assms(2) get obtain r' where r': "map_of (ai_records i') sid = Some r'" "(evolves cr)\<^sup>*\<^sup>* r' r''"
      unfolding comes_from_def by blast
    from assms(1) r'(1) consider "ai_next_instance_id i < az_instance_id r'"
      | r where "map_of (ai_records i) sid = Some r" "(evolves cr)\<^sup>*\<^sup>* r r'"
      unfolding comes_from_def by blast
    then show ?thesis
    proof cases
      case 1
      with evolves_instance [OF r'(2)] show ?thesis by simp
    next
      case 2
      from 2(2) r'(2) have "(evolves cr)\<^sup>*\<^sup>* r r''" by (rule rtranclp_trans)
      with 2(1) show ?thesis by blast
    qed
  qed
  with assms show ?thesis by (auto simp: comes_from_def)
qed

lemma inner_move_comes_from: "inner_move cr h i i' \<Longrightarrow> records_ok cr h i \<Longrightarrow> comes_from cr i i'"
proof (induction rule: inner_move.induct)
  case (im_update i sid r r')
  have "evolves cr r r'" using im_update(2) by (auto simp: evolves_def)
  with im_update show ?case
    by (auto simp: comes_from_def update_conv' split: if_splits)
next
  case (im_prune i P)
  then have "hm_wf (ai_records i)" by (simp add: records_ok_def)
  then show ?case by (auto simp: comes_from_def map_of_filter_hm split: option.splits if_splits)
next
  case (im_birth request snapshot i n)
  have "ai_next_instance_id i < n" using checked_add_Some [OF im_birth(2)] by (simp add: word_less_nat_alt)
  then show ?case by (auto simp: comes_from_def update_conv' new_authorization_record_def split: if_splits)
qed (auto simp: comes_from_def)

lemma inner_moves_comes_from: "moves_to cr h i i' \<Longrightarrow> inner_ok cr h i \<Longrightarrow> comes_from cr i i'"
proof (induction rule: rtranclp_induct)
  case (step i' i'')
  with inner_moves_ok [OF step.hyps(1)] have "records_ok cr h i'" by (simp add: inner_ok_def)
  with step comes_from_trans inner_move_comes_from show ?case by blast
qed (rule comes_from_refl)

lemma au_steps_come_from:
  assumes "(au_step cr)\<^sup>*\<^sup>* s s'" "au_ok cr s"
  shows "comes_from cr (rg_inner (fst s)) (rg_inner (fst s'))"
  using assms(1)
proof (induction rule: rtranclp_induct)
  case (step s' s'')
  note ok = au.steps_inv [OF step.hyps(1) assms(2)]
  then have ok': "inner_ok cr (snd s') (rg_inner (fst s'))" by (simp add: au_ok_def)
  have st: "au_step cr (fst s', snd s') (fst s'', snd s'')" using step.hyps(2) by simp
  from inner_moves_comes_from [OF au_step_moves(1) [OF st ok'] inner_ok_mono [OF ok' au_step_moves(2) [OF st ok']]] step.IH
  show ?case by (meson comes_from_trans)
qed (rule comes_from_refl)

section \<open>Using a grant\<close>

lemma expire_grant_cases:
  assumes "expire_grant_locked sid t i = (i', b)"
  shows "(i' = i \<and> (\<forall>r g. map_of (ai_records i) sid = Some r \<longrightarrow> az_grant r = Some g \<longrightarrow> au_of r = AuGranted \<longrightarrow> t \<le> vg_expires_at_ms g)) \<or>
    (\<exists>r. map_of (ai_records i') sid = Some r \<and> terminal_record r)"
proof -
  have push: "ai_records (push_events t sid es j) = ai_records j" for es j
    unfolding push_events_def by (induction es arbitrary: j) simp_all
  show ?thesis using assms
    by (auto simp: expire_grant_locked_def transition_failure_locked_def Let_def push update_conv' terminal_record_def
        failed_record_fields terminal_states not_less split: option.splits if_splits prod.splits)
qed

lemma allows_scope_iff:
  "snd (allows_scope sid scope t i) \<longleftrightarrow> (\<exists>r grant. map_of (ai_records i) sid = Some r \<and> grant_in_force r scope t grant)"
proof -
  obtain i' b where e: "expire_grant_locked sid t i = (i', b)" by fastforce
  from expire_grant_cases [OF e] show ?thesis
  proof
    assume "\<exists>r. map_of (ai_records i') sid = Some r \<and> terminal_record r"
    with e show ?thesis
      by (auto simp: allows_scope_def grant_in_force_def terminal_record_def terminal_states expire_grant_locked_def
          split: option.splits if_splits)
  qed (use e in \<open>auto simp: allows_scope_def grant_in_force_def split: option.splits\<close>)
qed


section \<open>Properties\<close>

lemma reachable_record:
  assumes "(au_step cr)\<^sup>*\<^sup>* au_start (g, h)" "map_of (ai_records (rg_inner g)) sid = Some r"
  shows "record_ok cr h sid r" "inner_ok cr h (rg_inner g)"
proof -
  from au.reachable_inv [OF refl assms(1)] show ok: "inner_ok cr h (rg_inner g)" by (simp add: au_ok_def)
  then show "record_ok cr h sid r" using records_ok_get [OF _ assms(2), of cr h] by (simp add: inner_ok_def)
qed

lemma in_force_authority:
  assumes "record_ok cr h sid r" "grant_in_force r scope t grant"
  shows "\<not> az_cancellation r" "\<not> terminal_record r" "vg_session_id grant = sid"
    "scopes_within r [scope]" "sn_role (az_snapshot r) = RoleAgent \<Longrightarrow> justified cr h r [scope]"
proof -
  show terminal: "\<not> terminal_record r" using assms(2) by (simp add: grant_in_force_def terminal_record_def terminal_states)
  with assms(1) show "\<not> az_cancellation r" by (auto simp: record_ok_def state_agrees_def)
  show "vg_session_id grant = sid" using assms by (auto simp: record_ok_def grant_agrees_def grant_in_force_def)
  have "scope \<in> set (sn_granted_scopes (az_snapshot r))" "au_of r = AuGranted"
    using assms by (auto simp: record_ok_def grant_agrees_def grant_in_force_def)
  then show "scopes_within r [scope]" "sn_role (az_snapshot r) = RoleAgent \<Longrightarrow> justified cr h r [scope]"
    using assms(1) justified_mono [of cr h r "sn_granted_scopes (az_snapshot r)" h "[scope]"]
    by (auto simp: record_ok_def scopes_agree_def scopes_within_def)
qed

text \<open>
  C2. Authority of a scope.  Whenever the registry allows a scope at a time, after any calls in any
  order, the session is granted and not cancelled, its grant is for this session and the time
  lies in its interval, and the scope was requested and is within the peer's ceiling, the
  machine's ceiling and the runtime's capabilities.  On the machine that is controlled there is
  moreover someone who answers for it (\<open>justified\<close>): for an attended session the local user
  approved the scope before the request ran out, for an unattended one a proof over the
  request's nonce was verified with a credential whose policy allows the scope and the peer.
\<close>

theorem authorization_scope_authority:
  assumes "(au_step cr)\<^sup>*\<^sup>* au_start (g, h)" and "snd (allows_scope sid scope t (rg_inner g))"
  shows "\<exists>r grant. map_of (ai_records (rg_inner g)) sid = Some r \<and> grant_in_force r scope t grant \<and>
    \<not> az_cancellation r \<and> vg_session_id grant = sid \<and>
    scope \<in> set (vq_requested_scopes (az_request r)) \<inter> set (vq_peer_permission_ceiling (az_request r)) \<inter>
      set (vq_machine_permission_ceiling (az_request r)) \<inter> set (vq_runtime_capabilities (az_request r)) \<and>
    (sn_role (az_snapshot r) = RoleAgent \<longrightarrow> justified cr h r [scope])"
proof -
  from assms(2) obtain r grant where r: "map_of (ai_records (rg_inner g)) sid = Some r" "grant_in_force r scope t grant"
    unfolding allows_scope_iff by blast
  from in_force_authority [OF reachable_record(1) [OF assms(1) r(1)] r(2)] r show ?thesis
    by (intro exI [of _ r] exI [of _ grant]) (auto simp: scopes_within_def)
qed

text \<open>
  C9. A terminal authorization is final.  Once a session's record is denied, expired, revoked,
  locked out or closed by a policy change, no later call changes it in any way: as long as a
  record of that instance is kept it is exactly the same, without grant and scopes, and allows
  nothing.  A later record under the same identifier is a new instance with a larger number.
\<close>

theorem authorization_terminal_final:
  assumes reach: "(au_step cr)\<^sup>*\<^sup>* au_start (g, h)" and run: "(au_step cr)\<^sup>*\<^sup>* (g, h) (g', h')"
    and r: "map_of (ai_records (rg_inner g)) sid = Some r" "terminal_record r"
    and r': "map_of (ai_records (rg_inner g')) sid = Some r'"
  shows "az_grant r = None \<and> sn_granted_scopes (az_snapshot r) = [] \<and>
    (r' = r \<and> \<not> snd (allows_scope sid scope t (rg_inner g')) \<or> az_instance_id r < az_instance_id r')"
proof -
  note ok = reachable_record [OF reach r(1)]
  have "comes_from cr (rg_inner g) (rg_inner g')"
    using au_steps_come_from [OF run] ok(2) by (simp add: au_ok_def)
  with r r' have "r' = r \<or> ai_next_instance_id (rg_inner g) < az_instance_id r'"
    unfolding comes_from_def by (metis evolves_terminal option.inject)
  moreover have "az_instance_id r \<le> ai_next_instance_id (rg_inner g)"
    using records_ok_get [OF _ r(1)] ok(2) by (auto simp: inner_ok_def)
  moreover have "\<not> snd (allows_scope sid scope t (rg_inner g'))" if "r' = r"
    using that r(2) r' by (auto simp: allows_scope_iff grant_in_force_def terminal_record_def terminal_states)
  moreover have "az_grant r = None" "sn_granted_scopes (az_snapshot r) = []"
    using ok(1) r(2) by (auto simp: record_ok_def grant_agrees_def scopes_agree_def terminal_record_def terminal_states
        split: option.splits)
  ultimately show ?thesis by auto
qed

text \<open>
  C8. Leases follow grants.  As long as a lease taken for a scope is not invalid, that is before
  its deadline, its channel not cancelled and its record not removed, the registry still allows
  the scope, whatever calls were made since.  So every expiry, revocation, failure or removal
  that ends a grant also ends the leases taken under it.
\<close>

theorem authorization_lease_follows_grant:
  assumes reach: "(au_step cr)\<^sup>*\<^sup>* au_start (g, h)"
    and lease: "acquire_scope_lease sid scope t (rg_inner g) = (i, Some lease)"
    and run: "(au_step cr)\<^sup>*\<^sup>* (g, h) (g', h')" and valid: "\<not> lease_invalid lease now (rg_inner g')" and time: "t \<le> now"
  shows "snd (allows_scope sid scope now (rg_inner g'))"
proof -
  obtain e where "expire_grant_locked sid t (rg_inner g) = (i, e)"
    using lease by (auto simp: acquire_scope_lease_def split: prod.splits)
  from expire_grant_cases [OF this] lease obtain r grant where
    r: "map_of (ai_records (rg_inner g)) sid = Some r" "grant_in_force r scope t grant"
    and l: "le_session_id lease = sid" "le_instance_id lease = az_instance_id r" "le_expires_at_ms lease = vg_expires_at_ms grant"
    by (auto simp: acquire_scope_lease_def grant_in_force_def terminal_record_def terminal_states
        split: prod.splits option.splits if_splits)
  note ok = reachable_record [OF reach r(1)]
  from valid l obtain r' where r': "map_of (ai_records (rg_inner g')) sid = Some r'"
    "az_instance_id r' = az_instance_id r" "\<not> az_cancellation r'" "now \<le> vg_expires_at_ms grant"
    by (auto simp: lease_invalid_def not_less split: option.splits)
  have "az_instance_id r \<le> ai_next_instance_id (rg_inner g)"
    using records_ok_get [OF _ r(1)] ok(2) by (auto simp: inner_ok_def)
  moreover have "comes_from cr (rg_inner g) (rg_inner g')"
    using au_steps_come_from [OF run] ok(2) by (simp add: au_ok_def)
  ultimately have "(evolves cr)\<^sup>*\<^sup>* r r'" using r(1) r'(1, 2) unfolding comes_from_def by fastforce
  from evolves_grant [OF this] r(2) r'(3) have "au_of r' = AuGranted" "az_grant r' = Some grant"
    by (auto simp: grant_in_force_def)
  with r(2) r' time show ?thesis by (auto simp: allows_scope_iff grant_in_force_def)
qed


text \<open>
  C31. Bounds.  After any calls the registry has at most 2048 records, at most 64 incoming requests
  are pending, at most 4 of one peer key, and at most 1024 events are kept; until the sequence
  counter reaches its maximum the kept events are the last ones emitted, numbered without gaps.
\<close>

theorem authorization_bounds:
  assumes "(au_step cr)\<^sup>*\<^sup>* au_start (g, h)"
  shows "length (ai_records (rg_inner g)) \<le> 2048 \<and>
    length (filter (\<lambda>(_, r). is_pending_incoming_record r) (ai_records (rg_inner g))) \<le> 64 \<and>
    (\<forall>key. length (filter (\<lambda>(_, r). is_pending_incoming_record r \<and> vq_peer_key_id (az_request r) = key)
       (ai_records (rg_inner g))) \<le> 4) \<and>
    length (ai_events (rg_inner g)) \<le> 1024 \<and>
    (unat (ai_next_sequence (rg_inner g)) + 1 < 2 ^ 64 \<longrightarrow>
       map (\<lambda>e. unat (ee_sequence e)) (ai_events (rg_inner g)) =
       [Suc (unat (ai_next_sequence (rg_inner g))) - length (ai_events (rg_inner g)) ..< Suc (unat (ai_next_sequence (rg_inner g)))])"
  using au.reachable_inv [OF refl assms]
  by (simp add: au_ok_def inner_ok_def capacity_ok_def events_ok_def authorization_limits count_pending_def case_prod_beta' del: upt_Suc)

subsection \<open>Subscriptions\<close>

lemma set_insert_pending [simp]: "set (insert_pending x ys) = insert x (set ys)"
  by (induction ys) auto

lemma set_pending_sessions:
  "set (pending_sessions query i) = {s. (\<exists>sid r. (sid, r) \<in> set (ai_records i) \<and> s = az_snapshot r) \<and> sn_role s = RoleAgent \<and>
     sn_access_mode s = Attended \<and> sn_authorization_state s = AuAwaitingLocalConsent \<and> about_session query (sn_session_id s)}"
proof -
  have "set (foldr insert_pending xs []) = set xs" for xs by (induction xs) auto
  then show ?thesis by (force simp: pending_sessions_def)
qed

text \<open>In a list with ascending sequence numbers a page is a prefix of what matches.\<close>

lemma take_ascending:
  fixes f :: "'a \<Rightarrow> 'b::linorder"
  assumes "sorted_wrt (<) (map f ys)" "k < length ys"
  shows "x \<in> set (take (Suc k) ys) \<longleftrightarrow> x \<in> set ys \<and> f x \<le> f (ys ! k)"
proof -
  have less: "f (ys ! j) < f (ys ! l)" if "j < l" "l < length ys" for j l
    using assms(1) that by (simp add: sorted_wrt_iff_nth_less)
  show ?thesis
  proof
    assume "x \<in> set (take (Suc k) ys)"
    then obtain j where j: "j \<le> k" "x = ys ! j" using assms(2) by (auto simp: in_set_conv_nth less_Suc_eq_le)
    then show "x \<in> set ys \<and> f x \<le> f (ys ! k)"
      using assms(2) less [of j k] by (cases "j = k") auto
  next
    assume x: "x \<in> set ys \<and> f x \<le> f (ys ! k)"
    then obtain j where j: "j < length ys" "x = ys ! j" by (auto simp: in_set_conv_nth)
    then have "j \<le> k" using x less [of k j] by (cases "k < j") auto
    with j assms(2) show "x \<in> set (take (Suc k) ys)" by (auto simp: in_set_conv_nth intro!: exI [of _ j])
  qed
qed

lemma events_ascending:
  assumes "events_ok i" "unat (ai_next_sequence i) + 1 < 2 ^ 64"
  shows "sorted_wrt (<) (map ee_sequence (ai_events i))"
    "unat ` ee_sequence ` set (ai_events i) = {Suc (unat (ai_next_sequence i)) - length (ai_events i) .. unat (ai_next_sequence i)}"
proof -
  from assms have seqs: "map (\<lambda>e. unat (ee_sequence e)) (ai_events i) =
      [Suc (unat (ai_next_sequence i)) - length (ai_events i) ..< Suc (unat (ai_next_sequence i))]"
    by (simp add: events_ok_def)
  have "sorted_wrt (<) (map (\<lambda>e. unat (ee_sequence e)) (ai_events i))" unfolding seqs by (rule sorted_wrt_upt)
  then show "sorted_wrt (<) (map ee_sequence (ai_events i))"
    by (simp add: sorted_wrt_map word_less_nat_alt)
  have "unat ` ee_sequence ` set (ai_events i) = set (map (\<lambda>e. unat (ee_sequence e)) (ai_events i))" by (simp add: image_image)
  then show "unat ` ee_sequence ` set (ai_events i) = {Suc (unat (ai_next_sequence i)) - length (ai_events i) .. unat (ai_next_sequence i)}"
    unfolding seqs by (auto simp: less_Suc_eq_le)
qed

lemma subscription_keeps:
  assumes ev: "events_ok i" and small: "unat (ai_next_sequence i) + 1 < 2 ^ 64"
    and cursor: "sq_after_sequence query = Some a" "a \<le> ai_next_sequence i"
    and current: "\<not> (case ai_events i of [] \<Rightarrow> False | oldest # _ \<Rightarrow> sq_after_sequence query \<noteq> None \<and>
              saturating_add (after_of query) 1 < ee_sequence oldest)"
  shows "{unat a<..unat (ai_next_sequence i)} \<subseteq> unat ` ee_sequence ` set (ai_events i)"
proof (cases "ai_events i")
  case Nil
  with ev small have "unat (ai_next_sequence i) = 0" by (simp add: events_ok_def authorization_limits)
  then show ?thesis by simp
next
  case (Cons oldest rest)
  from ev small have seqs: "map (\<lambda>e. unat (ee_sequence e)) (ai_events i) =
      [Suc (unat (ai_next_sequence i)) - length (ai_events i) ..< Suc (unat (ai_next_sequence i))]"
    by (simp add: events_ok_def)
  have "unat (ee_sequence oldest) = Suc (unat (ai_next_sequence i)) - length (ai_events i)"
    using arg_cong [OF seqs, of hd] Cons by (simp add: hd_upt del: upt_Suc)
  moreover have "unat (saturating_add a 1) = unat a + 1"
    using small cursor(2) by (simp add: unat_saturating_add word_le_nat_alt)
  ultimately show ?thesis
    unfolding events_ascending(2) [OF ev small] using current Cons cursor(1) by (auto simp: after_of_def word_less_nat_alt)
qed

lemma subscription_page:
  assumes ev: "events_ok i" and small: "unat (ai_next_sequence i) + 1 < 2 ^ 64"
    and cursor: "sq_after_sequence query = Some a" "a \<le> ai_next_sequence i" and limit: "sq_limit query \<noteq> 0"
  shows "\<exists>b. (if take (unat (sq_limit query)) (matching_events query i) \<noteq> []
       then Some (ee_sequence (last (take (unat (sq_limit query)) (matching_events query i))))
       else if ai_next_sequence i > 0 then Some (ai_next_sequence i) else Some a) = Some b \<and> a \<le> b \<and>
      (\<forall>e \<in> set (ai_events i). about_session query (ee_session_id e) \<longrightarrow>
         (e \<in> set (take (unat (sq_limit query)) (matching_events query i)) \<longleftrightarrow> a < ee_sequence e \<and> ee_sequence e \<le> b))"
proof -
  let ?m = "matching_events query i" and ?l = "unat (sq_limit query)"
  note asc = events_ascending [OF ev small]
  have m: "e \<in> set ?m \<longleftrightarrow> e \<in> set (ai_events i) \<and> a < ee_sequence e \<and> about_session query (ee_session_id e)" for e
    by (auto simp: matching_events_def after_of_def cursor(1))
  have le: "ee_sequence e \<le> ai_next_sequence i" if "e \<in> set (ai_events i)" for e
    using that asc(2) by (auto simp: word_le_nat_alt)
  have l: "0 < ?l" using limit by (simp add: unat_gt_0)
  show ?thesis
  proof (cases "?m = []")
    case True
    then have none: "\<not> (e \<in> set (ai_events i) \<and> a < ee_sequence e \<and> about_session query (ee_session_id e))" for e
      using m [of e] by simp
    have "(if ai_next_sequence i > 0 then Some (ai_next_sequence i) else Some a) = Some (ai_next_sequence i)"
      using cursor(2) by (auto simp: word_gt_0)
    with True none cursor(2) show ?thesis by auto
  next
    case False
    define k where "k = min ?l (length ?m) - 1"
    have k: "k < length ?m" "take ?l ?m = take (Suc k) ?m" using False l by (auto simp: k_def min_def)
    have last: "last (take ?l ?m) = ?m ! k" unfolding k(2) using k(1) by (simp add: take_Suc_conv_app_nth)
    have "sorted_wrt (<) (map ee_sequence ?m)"
      using asc(1) by (simp add: matching_events_def sorted_wrt_map sorted_wrt_filter)
    from take_ascending [OF this k(1)] have "e \<in> set (take ?l ?m) \<longleftrightarrow> e \<in> set ?m \<and> ee_sequence e \<le> ee_sequence (?m ! k)" for e
      unfolding k(2) .
    moreover have "a < ee_sequence (?m ! k)" using m [of "?m ! k"] k(1) by auto
    ultimately show ?thesis using False l m by (intro exI [of _ "ee_sequence (?m ! k)"]) (auto simp: last)
  qed
qed

lemma current_page:
  assumes "sp_cursor_state (build_subscription i query) = CursorCurrent"
  shows "\<not> (case ai_events i of [] \<Rightarrow> False | oldest # _ \<Rightarrow> sq_after_sequence query \<noteq> None \<and>
              saturating_add (after_of query) 1 < ee_sequence oldest)"
    "sp_events (build_subscription i query) = take (unat (sq_limit query)) (matching_events query i)"
    "sp_next_after_sequence (build_subscription i query) =
       (if take (unat (sq_limit query)) (matching_events query i) \<noteq> []
        then Some (ee_sequence (last (take (unat (sq_limit query)) (matching_events query i))))
        else if ai_next_sequence i > 0 then Some (ai_next_sequence i) else sq_after_sequence query)"
  using assms unfolding build_subscription_def Let_def by (simp_all split: if_split_asm)

text \<open>
  C39. No event is skipped.  Take a cursor the registry has given out (at most its sequence
  counter, which has not reached its maximum) and a page that \<open>subscribe\<close> returns for it.
  Either the cursor is too old, the page says so, has no events and lists every request that
  awaits consent; or every event emitted after the cursor is still kept, and the page together
  with its new cursor is exact: an event about the session asked for is on the page if and only
  if its number lies above the old and not above the new cursor.
\<close>

theorem subscription_no_gap:
  assumes reach: "(au_step cr)\<^sup>*\<^sup>* au_start (g, h)" and page: "subscribe_round query (rg_inner g) = Ok (Some page)"
    and cursor: "sq_after_sequence query = Some a" "a \<le> ai_next_sequence (rg_inner g)"
    and small: "unat (ai_next_sequence (rg_inner g)) + 1 < 2 ^ 64"
  shows "(sp_cursor_state page = CursorResetRequired \<longrightarrow> sp_events page = [] \<and>
      (\<forall>sid r. map_of (ai_records (rg_inner g)) sid = Some r \<and> au_of r = AuAwaitingLocalConsent \<and>
         about_session query sid \<longrightarrow> az_snapshot r \<in> set (sp_pending_sessions page))) \<and>
    (sp_cursor_state page = CursorCurrent \<longrightarrow>
      {unat a<..unat (ai_next_sequence (rg_inner g))} \<subseteq> unat ` ee_sequence ` set (ai_events (rg_inner g)) \<and>
      (\<exists>b. sp_next_after_sequence page = Some b \<and> a \<le> b \<and>
        (\<forall>e \<in> set (ai_events (rg_inner g)). about_session query (ee_session_id e) \<longrightarrow>
           (e \<in> set (sp_events page) \<longleftrightarrow> a < ee_sequence e \<and> ee_sequence e \<le> b))))"
proof -
  let ?i = "rg_inner g"
  have ok: "inner_ok cr h ?i" using au.reachable_inv [OF refl reach] by (simp add: au_ok_def)
  then have ev: "events_ok ?i" and recs: "records_ok cr h ?i" by (simp_all add: inner_ok_def)
  note asc = events_ascending [OF ev small]
  have page: "page = build_subscription ?i query" "sq_limit query \<noteq> 0"
    using page by (auto simp: subscribe_round_def Let_def split: if_splits)
  have after: "after_of query = a" by (simp add: after_of_def cursor(1))
  have "az_snapshot r \<in> set (pending_sessions query ?i)"
    if r: "map_of (ai_records ?i) sid = Some r" "au_of r = AuAwaitingLocalConsent" "about_session query sid" for sid r
  proof -
    have "record_ok cr h sid r" using records_ok_get [OF recs r(1)] by simp
    moreover have "sn_role (az_snapshot r) = RoleController \<or> sn_role (az_snapshot r) = RoleAgent" by (cases "sn_role (az_snapshot r)") auto
    ultimately show ?thesis using r map_of_SomeD [OF r(1)]
      by (auto simp: set_pending_sessions record_ok_def request_agrees_def state_agrees_def)
  qed
  moreover have "{unat a<..unat (ai_next_sequence ?i)} \<subseteq> unat ` ee_sequence ` set (ai_events ?i)"
    if "sp_cursor_state page = CursorCurrent"
    using that current_page(1) unfolding page(1) by (blast intro: subscription_keeps [OF ev small cursor, THEN subsetD])
  moreover have "\<exists>b. sp_next_after_sequence page = Some b \<and> a \<le> b \<and>
        (\<forall>e \<in> set (ai_events ?i). about_session query (ee_session_id e) \<longrightarrow>
           (e \<in> set (sp_events page) \<longleftrightarrow> a < ee_sequence e \<and> ee_sequence e \<le> b))"
    if "sp_cursor_state page = CursorCurrent"
    unfolding page(1) current_page(2, 3) [OF that [unfolded page(1)]] cursor(1)
    by (rule subscription_page [OF ev small cursor page(2)])
  moreover have "sp_events page = []" "sp_pending_sessions page = pending_sessions query ?i"
    if "sp_cursor_state page = CursorResetRequired"
    using that unfolding page(1) build_subscription_def Let_def by (simp_all split: if_split_asm)
  ultimately show ?thesis by auto
qed

subsection \<open>Revocation\<close>

lemma push_events_records [simp]: "ai_records (push_events t sid es j) = ai_records j"
  unfolding push_events_def by (induction es arbitrary: j) simp_all

lemma revoke_each_records:
  assumes "revoke_each state f t sids i = (i', revoked)" "distinct sids" "is_terminal_authorization_state state"
    and "\<And>sid. sid \<in> set sids \<Longrightarrow> \<exists>r. map_of (ai_records i) sid = Some r \<and> \<not> terminal_record r"
  shows "revoked = sids \<and> map_of (ai_records i') = (\<lambda>sid. if sid \<in> set sids
      then map_option (failed_record state f t) (map_of (ai_records i) sid) else map_of (ai_records i) sid)"
  using assms
proof (induction sids arbitrary: i i' revoked)
  case (Cons sid sids)
  from Cons.prems(4) [of sid] obtain r where r: "map_of (ai_records i) sid = Some r" "\<not> terminal_record r" by auto
  from Cons.prems(1) obtain i1 s rest where 1: "transition_failure_locked sid state f t i = (i1, s)"
    "revoke_each state f t sids i1 = (i', rest)" "revoked = (if s \<noteq> None then sid # rest else rest)"
    by (auto split: prod.splits)
  have "au_of r \<noteq> state" using r(2) Cons.prems(3) by (auto simp: terminal_record_def)
  with 1(1) r have i1: "map_of (ai_records i1) = (map_of (ai_records i))(sid \<mapsto> failed_record state f t r)" and s: "s \<noteq> None"
    by (auto simp: transition_failure_locked_def Let_def update_conv')
  have "\<exists>r. map_of (ai_records i1) x = Some r \<and> \<not> terminal_record r" if "x \<in> set sids" for x
    using that Cons.prems(2) Cons.prems(4) [of x] i1 by auto
  with Cons.IH [OF 1(2)] Cons.prems(2, 3) have IH: "rest = sids" "map_of (ai_records i') = (\<lambda>x. if x \<in> set sids
      then map_option (failed_record state f t) (map_of (ai_records i1) x) else map_of (ai_records i1) x)" by simp_all
  have "map_of (ai_records i') x = (if x \<in> set (sid # sids)
      then map_option (failed_record state f t) (map_of (ai_records i) x) else map_of (ai_records i) x)" for x
    using Cons.prems(2) r(1) by (auto simp: IH(2) i1)
  with 1(3) s IH(1) show ?case by auto
qed auto

text \<open>
  Revoking a peer is complete and exact.  The call returns exactly the live sessions of the
  peer key, and of pending outgoing sessions to a device that a live session of that key has
  proven; each of them becomes revoked, loses grant and scopes, is cancelled and allows nothing;
  no live session of the key is left; and every other record is untouched.
\<close>

theorem revoke_peer_exact:
  assumes reach: "(au_step cr)\<^sup>*\<^sup>* au_start (g, h)"
    and revoke: "revoke_peer_authorizations key_id t (rg_inner g) = (i, sids)"
  shows "(\<forall>sid. sid \<in> set sids \<longleftrightarrow> (\<exists>r. map_of (ai_records (rg_inner g)) sid = Some r \<and> revoked_by_peer key_id (rg_inner g) r)) \<and>
    (\<forall>sid \<in> set sids. \<exists>r. map_of (ai_records i) sid = Some r \<and> au_of r = AuRevoked \<and> az_grant r = None \<and>
       sn_granted_scopes (az_snapshot r) = [] \<and> az_cancellation r \<and> \<not> snd (allows_scope sid scope now i)) \<and>
    (\<forall>sid r. map_of (ai_records i) sid = Some r \<and> vq_peer_key_id (az_request r) = key_id \<longrightarrow> terminal_record r) \<and>
    (\<forall>sid. sid \<notin> set sids \<longrightarrow> map_of (ai_records i) sid = map_of (ai_records (rg_inner g)) sid)"
proof -
  let ?i = "rg_inner g"
  let ?sids = "map fst (filter (\<lambda>e. revoked_by_peer key_id ?i (snd e)) (ai_records ?i))"
  have "records_ok cr h ?i" using au.reachable_inv [OF refl reach] by (simp add: au_ok_def inner_ok_def)
  then have wf: "hm_wf (ai_records ?i)" by (simp add: records_ok_def)
  have sids: "sid \<in> set ?sids \<longleftrightarrow> (\<exists>r. map_of (ai_records ?i) sid = Some r \<and> revoked_by_peer key_id ?i r)" for sid
    by (force simp: hm.get_entries [OF wf])
  have d: "distinct ?sids" using wf by (simp add: hm_wf_def distinct_map_filter)
  have each: "\<exists>r. map_of (ai_records ?i) sid = Some r \<and> \<not> terminal_record r" if "sid \<in> set ?sids" for sid
    using that [unfolded sids] by (auto simp: revoked_by_peer_def)
  have r: "sids = ?sids" "map_of (ai_records i) = (\<lambda>sid. if sid \<in> set ?sids
      then map_option (failed_record AuRevoked (failure RcGrantRevoked) t) (map_of (ai_records ?i) sid)
      else map_of (ai_records ?i) sid)"
    using revoke_each_records [OF revoke [unfolded revoke_peer_authorizations_def] d terminal_states(3) each] by blast+
  define S where "S = set sids"
  have S: "sid \<in> S \<longleftrightarrow> (\<exists>r. map_of (ai_records ?i) sid = Some r \<and> revoked_by_peer key_id ?i r)" for sid
    unfolding S_def r(1) by (rule sids)
  have i: "map_of (ai_records i) sid = (if sid \<in> S
      then map_option (failed_record AuRevoked (failure RcGrantRevoked) t) (map_of (ai_records ?i) sid)
      else map_of (ai_records ?i) sid)" for sid
    unfolding S_def r(1) by (simp only: r(2))
  have "terminal_record r'" if "map_of (ai_records i) sid = Some r'" "vq_peer_key_id (az_request r') = key_id" for sid r'
  proof (cases "sid \<in> S")
    case True
    with that(1) i [of sid] show ?thesis by (auto simp: terminal_record_def failed_record_fields terminal_states)
  next
    case False
    with that i [of sid] have "map_of (ai_records ?i) sid = Some r'" by simp
    with that(2) False S [of sid] show ?thesis by (simp add: revoked_by_peer_def)
  qed
  moreover have "\<exists>r'. map_of (ai_records i) sid = Some r' \<and> au_of r' = AuRevoked \<and> az_grant r' = None \<and>
       sn_granted_scopes (az_snapshot r') = [] \<and> az_cancellation r' \<and> \<not> snd (allows_scope sid scope now i)"
    if "sid \<in> S" for sid
    using that S [of sid] i [of sid] by (auto simp: failed_record_fields allows_scope_iff grant_in_force_def)
  moreover have "map_of (ai_records i) sid = map_of (ai_records ?i) sid" if "sid \<notin> S" for sid
    using that by (simp only: i if_False)
  ultimately show ?thesis unfolding S_def [symmetric] using S by (intro conjI) blast+
qed

text \<open>
  C32. Control input.  When the registry hands out an authorization for control input, the session
  is granted, connected and streaming, the time lies in the interval of its grant, the scopes
  handed out are those of the grant, all of them within every ceiling and, on the controlled
  machine, answered for; and the public key handed out has the identifier of the session's peer.
\<close>

theorem control_authorization_sound:
  assumes reach: "(au_step cr)\<^sup>*\<^sup>* au_start (g, h)"
    and active: "active_control_authorization cr sid t (rg_inner g) = (i, Ok ca)"
  shows "\<exists>r grant. map_of (ai_records (rg_inner g)) sid = Some r \<and> az_grant r = Some grant \<and> au_of r = AuGranted \<and>
    sn_route_state (az_snapshot r) = RtConnected \<and> sn_media_state (az_snapshot r) = MdStreaming \<and> \<not> az_cancellation r \<and>
    vg_issued_at_ms grant \<le> t \<and> t \<le> vg_expires_at_ms grant \<and> ca_expires_at_ms ca = vg_expires_at_ms grant \<and>
    ca_granted_scopes ca = vg_granted_scopes grant \<and> scopes_within r (ca_granted_scopes ca) \<and>
    (ca_role ca = RoleAgent \<longrightarrow> justified cr h r (ca_granted_scopes ca)) \<and>
    ca_peer_key_id ca = vq_peer_key_id (az_request r) \<and> public_key_id cr (ca_peer_public_key ca) = ca_peer_key_id ca \<and>
    length (ca_peer_public_key ca) = 32 \<and> Some (ca_grant_id ca) = parse_sha256_identifier (vg_grant_id grant)"
proof -
  obtain e where e: "expire_grant_locked sid t (rg_inner g) = (i, e)"
    and ca: "control_authorization cr sid t i = Ok ca"
    using active by (auto simp: active_control_authorization_def split: prod.splits)
  from ca have "\<not> (\<exists>r. map_of (ai_records i) sid = Some r \<and> terminal_record r)"
    by (auto simp: control_authorization_def Let_def terminal_record_def terminal_states split: option.splits if_splits)
  with expire_grant_cases [OF e] have i: "i = rg_inner g" by blast
  from ca i obtain r where r: "map_of (ai_records (rg_inner g)) sid = Some r"
    by (auto simp: control_authorization_def split: option.splits)
  note ok = reachable_record(1) [OF reach r]
  then have "\<not> az_cancellation r \<or> terminal_record r" "key_agrees cr r" by (auto simp: record_ok_def state_agrees_def)
  with ca i r ok show ?thesis
    unfolding control_authorization_def Let_def
    by (auto simp: not_less terminal_record_def terminal_states key_agrees_def record_ok_def scopes_agree_def
        grant_agrees_def split: option.splits if_splits)
qed

section \<open>A concrete session\<close>

definition demo_request :: verified_incoming_authorization_request where
  "demo_request = \<lparr>vq_session_id = ''s'', vq_peer_device_id = ''d'', vq_peer_key_id = public_key_id sample_suite (replicate 32 1),
     vq_peer_key_epoch = 1, vq_access_mode = Attended, vq_requested_scopes = [InputPointer, ScreenView],
     vq_peer_permission_ceiling = [ScreenView, InputPointer], vq_machine_permission_ceiling = [ScreenView, InputPointer],
     vq_runtime_capabilities = [ScreenView, InputPointer, AudioTalk], vq_transport_kind = ''quic'',
     vq_request_nonce = [1], vq_created_at_ms = 1000, vq_expires_at_ms = 61000\<rparr>"

definition demo_response :: consent_response where
  "demo_response = \<lparr>cp_session_id = ''s'', cp_decision = Approve, cp_approved_scopes = [ScreenView],
     cp_expected_policy_revision = 1\<rparr>"

definition demo_grant :: verified_session_grant where
  "demo_grant = \<lparr>vg_grant_id = ''sha256:'' @ replicate 64 CHR ''a'', vg_session_id = ''s'', vg_granted_scopes = [ScreenView],
     vg_issued_at_ms = 2500, vg_expires_at_ms = 50000, vg_policy_revision = 1, vg_route_constraint = ''quic'',
     vg_transport_fingerprint_sha256 = [7]\<rparr>"

text \<open>Requested, approved, key bound, grant installed, streaming, revoked.\<close>

fun demo_at :: "nat \<Rightarrow> authorization_registry_inner" where
  "demo_at 0 = rg_inner registry_default"
| "demo_at (Suc n) =
     (if n = 0 then fst (begin_verified_incoming demo_request (demo_at n))
      else if n = 1 then fst (respond_to_consent_with_audit (\<lambda>_ _. True) demo_response 2000 (demo_at n))
      else if n = 2 then fst (bind_authenticated_peer_key sample_suite ''s'' (replicate 32 1) 2200 (demo_at n))
      else if n = 3 then fst (install_verified_grant_inner sample_suite demo_grant 3000 None (demo_at n))
      else if n = 4 then fst (session_mark_streaming ''s'' 3500 (demo_at n))
      else fst (record_failure ''s'' AuRevoked (failure RcGrantRevoked) 4000 (demo_at n)))"

lemmas demo_next = demo_at.simps(2) [of 2, simplified] demo_at.simps(2) [of 3, simplified] demo_at.simps(2) [of 4, simplified]

definition demo_registry :: "nat \<Rightarrow> session_authorization_registry" where
  "demo_registry n = registry_default\<lparr>rg_inner := demo_at n\<rparr>"

definition demo_history :: "nat \<Rightarrow> authority list" where
  "demo_history n = (if n < 2 then [] else [ConsentGiven 1 [ScreenView] 2000])"

lemma demo_registry_inner [simp]: "rg_inner (demo_registry n) = demo_at n"
  by (simp add: demo_registry_def)

lemma demo_consent:
  "is_ok (snd (respond_to_consent_with_audit (\<lambda>_ _. True) demo_response 2000 (demo_at 1)))"
  "consent_entry (demo_at 1) demo_response 2000 = [ConsentGiven 1 [ScreenView] 2000]"
  by code_simp+

lemma demo_step: "au_step sample_suite (demo_registry n, demo_history n) (demo_registry (Suc n), demo_history (Suc n))"
proof -
  consider "n = 0" | "n = 1" | "n = 2" | "n = 3" | "n = 4" | "n \<ge> 5" by linarith
  then show ?thesis
  proof cases
    case 1
    with au_incoming [of demo_request "demo_registry n" _ _ sample_suite "demo_history n", OF surjective_pairing]
    show ?thesis by (simp add: demo_registry_def demo_history_def demo_next)
  next
    case 2
    with au_respond [of "\<lambda>_ _. True" demo_response 2000 "demo_registry n" _ _ sample_suite "demo_history n", OF surjective_pairing]
      demo_consent
    show ?thesis by (simp add: demo_registry_def demo_history_def)
  next
    case 3
    with au_bind [of sample_suite "''s''" "replicate 32 1" 2200 "demo_registry n" _ _ "demo_history n", OF surjective_pairing]
    show ?thesis by (simp add: demo_registry_def demo_history_def demo_next)
  next
    case 4
    with au_install [of sample_suite demo_grant 3000 None "demo_registry n" _ _ "demo_history n", OF surjective_pairing]
    show ?thesis by (simp add: demo_registry_def demo_history_def demo_next)
  next
    case 5
    with au_stream [of "''s''" 3500 "demo_registry n" _ _ sample_suite "demo_history n", OF surjective_pairing]
    show ?thesis by (simp add: demo_registry_def demo_history_def demo_next)
  next
    case 6
    with au_failure [of "''s''" AuRevoked "failure RcGrantRevoked" 4000 "demo_registry n" _ _ sample_suite "demo_history n",
        OF surjective_pairing terminal_states(3)]
    show ?thesis by (simp add: demo_registry_def demo_history_def)
  qed
qed

lemma demo_run: "(au_step sample_suite)\<^sup>*\<^sup>* (demo_registry m, demo_history m) (demo_registry (m + k), demo_history (m + k))"
  by (induction k) (auto intro: rtranclp.rtrancl_into_rtrancl demo_step)

lemma demo_reaches: "(au_step sample_suite)\<^sup>*\<^sup>* au_start (demo_registry n, demo_history n)"
proof -
  have "au_start = (demo_registry 0, demo_history 0)" by (simp add: au_start_def demo_registry_def demo_history_def)
  with demo_run [of 0 n] show ?thesis by simp
qed

lemma demo_allowed: "snd (allows_scope ''s'' ScreenView 4000 (demo_at 5))" by code_simp

theorem authorization_scope_authority_witness:
  "\<exists>r. map_of (ai_records (demo_at 5)) ''s'' = Some r \<and> justified sample_suite [ConsentGiven 1 [ScreenView] 2000] r [ScreenView]"
proof -
  have "sn_role (az_snapshot r) = RoleAgent" if "map_of (ai_records (demo_at 5)) ''s'' = Some r" for r
  proof -
    have "map_option (\<lambda>r. sn_role (az_snapshot r)) (map_of (ai_records (demo_at 5)) ''s'') = Some RoleAgent" by code_simp
    with that show ?thesis by simp
  qed
  moreover have "demo_history 5 = [ConsentGiven 1 [ScreenView] 2000]" by (simp add: demo_history_def)
  ultimately show ?thesis
    using authorization_scope_authority [OF demo_reaches [of 5], of "''s''" ScreenView 4000] demo_allowed by auto
qed

theorem authorization_terminal_final_witness:
  "\<exists>r. map_of (ai_records (demo_at 6)) ''s'' = Some r \<and> terminal_record r \<and> az_grant r = None \<and>
     map_of (ai_records (demo_at 7)) ''s'' = Some r \<and> \<not> snd (allows_scope ''s'' ScreenView 5000 (demo_at 7))"
proof -
  have "map_option (\<lambda>r. (terminal_record r, az_instance_id r)) (map_of (ai_records (demo_at 6)) ''s'') = Some (True, 1)"
    "map_option az_instance_id (map_of (ai_records (demo_at 7)) ''s'') = Some 1" by code_simp+
  then obtain r r' where r: "map_of (ai_records (demo_at 6)) ''s'' = Some r" "terminal_record r"
    and r': "map_of (ai_records (demo_at 7)) ''s'' = Some r'" and "az_instance_id r' = az_instance_id r" by auto
  with authorization_terminal_final [OF demo_reaches [of 6] demo_run [of 6 1], of "''s''" r r' ScreenView 5000] show ?thesis
    by auto
qed

theorem authorization_lease_follows_grant_witness:
  "\<exists>i lease. acquire_scope_lease ''s'' ScreenView 4000 (demo_at 4) = (i, Some lease) \<and>
     \<not> lease_invalid lease 5000 (demo_at 5) \<and> snd (allows_scope ''s'' ScreenView 5000 (demo_at 5))"
proof -
  let ?l = "\<lparr>le_session_id = ''s'', le_instance_id = 1, le_expires_at_ms = 50000\<rparr>"
  have "snd (acquire_scope_lease ''s'' ScreenView 4000 (demo_at 4)) = Some ?l" by code_simp
  then obtain i where lease: "acquire_scope_lease ''s'' ScreenView 4000 (demo_at 4) = (i, Some ?l)" by (metis prod.collapse)
  have valid: "\<not> lease_invalid ?l 5000 (demo_at 5)" by code_simp
  from authorization_lease_follows_grant [OF demo_reaches [of 4], of "''s''" ScreenView 4000 i ?l, OF _ demo_run [of 4 1]] lease valid
  show ?thesis by auto
qed

theorem authorization_bounds_witness:
  "length (ai_records (demo_at 5)) \<le> 2048 \<and> length (ai_events (demo_at 5)) \<le> 1024 \<and> length (ai_events (demo_at 5)) = 6"
proof -
  have "length (ai_events (demo_at 5)) = 6" by code_simp
  with authorization_bounds [OF demo_reaches [of 5]] show ?thesis by simp
qed

definition demo_query :: session_event_subscription_query where
  "demo_query = \<lparr>sq_session_id = Some ''s'', sq_after_sequence = Some 2, sq_limit = 3, sq_wait_timeout_ms = 0\<rparr>"

theorem subscription_no_gap_witness:
  "\<exists>page. subscribe_round demo_query (demo_at 5) = Ok (Some page) \<and> sp_next_after_sequence page = Some 5 \<and>
     (\<forall>e. e \<in> set (ai_events (demo_at 5)) \<and> ee_session_id e = ''s'' \<and> 2 < ee_sequence e \<and> ee_sequence e \<le> 5 \<longleftrightarrow>
        e \<in> set (ai_events (demo_at 5)) \<and> ee_session_id e = ''s'' \<and> e \<in> set (sp_events page))"
proof -
  let ?p = "build_subscription (demo_at 5) demo_query"
  have "case subscribe_round demo_query (demo_at 5) of Ok (Some p) \<Rightarrow> True | _ \<Rightarrow> False" by code_simp
  then have round: "subscribe_round demo_query (demo_at 5) = Ok (Some ?p)"
    by (auto simp: subscribe_round_def Let_def split: if_splits)
  have facts: "ai_next_sequence (demo_at 5) = 6" "sp_cursor_state ?p = CursorCurrent" "sp_next_after_sequence ?p = Some 5"
    by code_simp+
  have q: "sq_after_sequence demo_query = Some 2" "about_session demo_query sid \<longleftrightarrow> sid = ''s''" for sid
    by (auto simp: demo_query_def about_session_def)
  from subscription_no_gap [OF demo_reaches [of 5], of demo_query ?p 2] round facts q show ?thesis
    by (intro exI [of _ ?p]) auto
qed

theorem revoke_peer_exact_witness:
  "\<exists>i sids. revoke_peer_authorizations (public_key_id sample_suite (replicate 32 1)) 4000 (demo_at 5) = (i, sids) \<and>
     sids = [''s''] \<and> \<not> snd (allows_scope ''s'' ScreenView 4000 i)"
proof -
  have sids: "snd (revoke_peer_authorizations (public_key_id sample_suite (replicate 32 1)) 4000 (demo_at 5)) = [''s'']"
    by code_simp
  then obtain i where i: "revoke_peer_authorizations (public_key_id sample_suite (replicate 32 1)) 4000 (demo_at 5) = (i, [''s''])"
    by (metis prod.collapse)
  from revoke_peer_exact [OF demo_reaches [of 5], of _ 4000 i "[''s'']" ScreenView 4000] i show ?thesis by auto
qed

theorem control_authorization_sound_witness:
  "\<exists>i ca. active_control_authorization sample_suite ''s'' 4000 (demo_at 5) = (i, Ok ca) \<and>
     public_key_id sample_suite (ca_peer_public_key ca) = ca_peer_key_id ca \<and> length (ca_peer_public_key ca) = 32"
proof -
  have "is_ok (snd (active_control_authorization sample_suite ''s'' 4000 (demo_at 5)))" by code_simp
  then obtain i ca where ca: "active_control_authorization sample_suite ''s'' 4000 (demo_at 5) = (i, Ok ca)"
    by (metis is_ok_iff prod.collapse)
  from control_authorization_sound [OF demo_reaches [of 5], of "''s''" 4000 i ca] ca show ?thesis by auto
qed

end
