(* ===== verification/Temporary_Access.thy ===== *)
theory Temporary_Access
  imports Device_Identity "HOL-Library.List_Lexorder" "HOL-Library.Char_ord"
begin

text \<open>
  Custody of the temporary password (\<open>mrd-service/src/temporary_access.rs\<close>): the epoch that orders
  the user's enable and disable intents, the password with its publication lease, the guests
  admitted under it and the signed publication.

  The intent sits behind a mutex shared by the state and by the request handlers; a poisoned
  mutex is \<open>None\<close>, so that the error branch of every \<open>lock()\<close> is a branch of the model.  A method
  call is one atomic step on the intent and on the state.  Parameters: the bytes of the system
  random source (\<open>None\<close> when it fails), PBKDF2, \<open>serde_json\<close>, base64 and the cryptography of the
  device identity.
\<close>

section \<open>The operation epoch\<close>

record temporary_operation_intent =
  ti_current :: u64
  ti_enabled :: bool
  ti_disabled_at :: "u64 option"

type_synonym temporary_operation_epoch = "temporary_operation_intent option"

definition epoch_default :: temporary_operation_epoch where
  "epoch_default = Some \<lparr>ti_current = 0, ti_enabled = True, ti_disabled_at = None\<rparr>"

definition epoch_begin ::
  "bool \<Rightarrow> temporary_operation_epoch \<Rightarrow> temporary_operation_epoch \<times> (u64, string) result" where
  "epoch_begin disable lk =
     (case lk of
        None \<Rightarrow> (None, Err ''temporary_operation_unavailable'')
      | Some intent \<Rightarrow>
          (case checked_add (ti_current intent) 1 of
             None \<Rightarrow> (Some intent, Err ''temporary_operation_exhausted'')
           | Some epoch \<Rightarrow>
               (Some (intent\<lparr>ti_current := epoch, ti_enabled := \<not> disable,
                  ti_disabled_at := (if disable then Some epoch else ti_disabled_at intent)\<rparr>),
                Ok epoch)))"

definition epoch_current :: "temporary_operation_epoch \<Rightarrow> (u64, string) result" where
  "epoch_current lk =
     (case lk of None \<Rightarrow> Err ''temporary_operation_unavailable'' | Some intent \<Rightarrow> Ok (ti_current intent))"

definition is_current :: "u64 \<Rightarrow> temporary_operation_epoch \<Rightarrow> bool" where
  "is_current epoch lk \<longleftrightarrow> epoch_current lk = Ok epoch"

definition epoch_snapshot :: "temporary_operation_epoch \<Rightarrow> temporary_operation_intent option" where
  "epoch_snapshot lk = lk"

definition permits_enabled :: "temporary_operation_epoch \<Rightarrow> bool" where
  "permits_enabled lk = (case lk of None \<Rightarrow> False | Some intent \<Rightarrow> ti_enabled intent)"

definition permits_existing_guest :: "u64 \<Rightarrow> temporary_operation_epoch \<Rightarrow> bool" where
  "permits_existing_guest admitted_at lk =
     (case lk of
        None \<Rightarrow> False
      | Some intent \<Rightarrow> ti_enabled intent \<and>
          (case ti_disabled_at intent of None \<Rightarrow> True | Some disabled \<Rightarrow> admitted_at > disabled))"

section \<open>State\<close>

definition TEMPORARY_PASSWORD_TTL_MS :: u64 where "TEMPORARY_PASSWORD_TTL_MS = 600000"
definition PUBLICATION_RENEWAL_MARGIN_MS :: u64 where "PUBLICATION_RENEWAL_MARGIN_MS = 60000"
definition PASSWORD_ALPHABET :: string where
  "PASSWORD_ALPHABET = ''ABCDEFGHJKLMNPQRSTUVWXYZ23456789''"
definition PASSWORD_ITERATIONS :: u32 where "PASSWORD_ITERATIONS = 600000"

text \<open>\<open>i64::MAX as u64\<close>.\<close>

definition i64_max :: u64 where "i64_max = 0x7FFFFFFFFFFFFFFF"

record temporary_guest_authority =
  tga_generation :: u64
  tga_target_auth_version :: u64

text \<open>A guest's entry: the authority, the commitment it is bound to, whether it was approved and the
  epoch it was admitted at.\<close>

type_synonym guest_entry = "temporary_guest_authority \<times> string \<times> bool \<times> u64"

record temporary_access_state =
  ta_enabled :: bool
  ta_operation_epoch :: temporary_operation_epoch
  ta_applied_epoch :: u64
  ta_rotation_requested :: bool
  ta_generation :: u64
  ta_published_generation :: "u64 option"
  ta_published_expires_at_ms :: "u64 option"
  ta_expires_at_ms :: "u64 option"
  ta_password :: "string option"
  ta_salt :: "bytes option"
  ta_verifier :: "bytes option"
  ta_guest_sessions :: "(string, guest_entry) btree_map"

definition temporary_access_default :: temporary_access_state where
  "temporary_access_default =
     \<lparr>ta_enabled = True, ta_operation_epoch = epoch_default, ta_applied_epoch = 0,
      ta_rotation_requested = False, ta_generation = 0, ta_published_generation = None,
      ta_published_expires_at_ms = None, ta_expires_at_ms = None, ta_password = None,
      ta_salt = None, ta_verifier = None, ta_guest_sessions = []\<rparr>"

definition with_operation_epoch ::
  "temporary_operation_epoch \<Rightarrow> temporary_access_state \<Rightarrow> temporary_access_state" where
  "with_operation_epoch epoch self = self\<lparr>ta_operation_epoch := epoch\<rparr>"

definition apply_operation_epoch ::
  "u64 \<Rightarrow> temporary_access_state \<Rightarrow> temporary_access_state \<times> (unit, string) result" where
  "apply_operation_epoch epoch self =
     (if \<not> is_current epoch (ta_operation_epoch self)
      then (self, Err ''temporary_publication_superseded'')
      else (self\<lparr>ta_applied_epoch := epoch\<rparr>, Ok ()))"

definition publication_epoch_current :: "temporary_access_state \<Rightarrow> bool" where
  "publication_epoch_current self = is_current (ta_applied_epoch self) (ta_operation_epoch self)"

definition check_generation :: "u64 \<Rightarrow> temporary_access_state \<Rightarrow> (unit, string) result" where
  "check_generation generation self =
     (if generation \<le> ta_generation self \<or> generation > i64_max
      then Err ''temporary_generation_invalid'' else Ok ())"

text \<open>The key derivation takes the iteration count, the salt and the password.\<close>

type_synonym key_derivation = "u32 \<Rightarrow> bytes \<Rightarrow> bytes \<Rightarrow> bytes"

definition password_verifier :: "key_derivation \<Rightarrow> bytes \<Rightarrow> bytes \<Rightarrow> bytes" where
  "password_verifier kdf password salt = kdf PASSWORD_ITERATIONS salt password"

definition password_char :: "u8 \<Rightarrow> char" where
  "password_char byte = PASSWORD_ALPHABET ! unat (and byte 31)"

definition temporary_rotate ::
  "key_derivation \<Rightarrow> bytes option \<Rightarrow> u64 \<Rightarrow> u64 \<Rightarrow> temporary_access_state
   \<Rightarrow> temporary_access_state \<times> (unit, string) result" where
  "temporary_rotate kdf random generation now self =
     (case check_generation generation self of
        Err e \<Rightarrow> (self, Err e)
      | Ok _ \<Rightarrow>
          (case checked_add now TEMPORARY_PASSWORD_TTL_MS of
             None \<Rightarrow> (self, Err ''temporary_expiry_invalid'')
           | Some expiry \<Rightarrow>
               (case random of
                  None \<Rightarrow> (self, Err ''temporary_entropy_unavailable'')
                | Some entropy \<Rightarrow>
                    let password = map password_char (take 8 entropy);
                        salt = drop 8 entropy;
                        verifier = password_verifier kdf (as_bytes password) salt
                    in (self\<lparr>ta_password := Some password, ta_salt := Some salt, ta_verifier := Some verifier,
                          ta_enabled := True, ta_rotation_requested := False, ta_generation := generation,
                          ta_published_generation := None, ta_published_expires_at_ms := None,
                          ta_expires_at_ms := Some expiry\<rparr>, Ok ()))))"

definition temporary_freeze :: "temporary_access_state \<Rightarrow> temporary_access_state" where
  "temporary_freeze self = self\<lparr>ta_enabled := False, ta_rotation_requested := False, ta_published_generation := None,
     ta_published_expires_at_ms := None, ta_expires_at_ms := None, ta_password := None,
     ta_salt := None, ta_verifier := None\<rparr>"

definition temporary_disable ::
  "u64 \<Rightarrow> temporary_access_state \<Rightarrow> temporary_access_state \<times> (unit, string) result" where
  "temporary_disable generation self =
     (case check_generation generation self of
        Err e \<Rightarrow> (self, Err e)
      | Ok _ \<Rightarrow> ((temporary_freeze self)\<lparr>ta_generation := generation\<rparr>, Ok ()))"

definition invalidate_publication :: "temporary_access_state \<Rightarrow> temporary_access_state" where
  "invalidate_publication self = self\<lparr>ta_rotation_requested := True, ta_published_generation := None,
     ta_published_expires_at_ms := None\<rparr>"

definition mark_published ::
  "u64 \<Rightarrow> u64 option \<Rightarrow> temporary_access_state \<Rightarrow> temporary_access_state \<times> bool" where
  "mark_published generation expires_at_ms self =
     (if generation \<noteq> ta_generation self \<or> expires_at_ms \<noteq> ta_expires_at_ms self
         \<or> ta_rotation_requested self \<or> \<not> publication_epoch_current self
      then (self, False)
      else (self\<lparr>ta_published_generation := Some generation,
              ta_published_expires_at_ms := expires_at_ms\<rparr>, True))"

definition temporary_enabled :: "temporary_access_state \<Rightarrow> bool" where
  "temporary_enabled self \<longleftrightarrow> ta_enabled self \<and> permits_enabled (ta_operation_epoch self)"

definition needs_rotation :: "u64 \<Rightarrow> temporary_access_state \<Rightarrow> bool" where
  "needs_rotation now self \<longleftrightarrow> ta_enabled self \<and> (ta_rotation_requested self \<or> ta_password self = None)"

definition needs_publication :: "temporary_access_state \<Rightarrow> bool" where
  "needs_publication self \<longleftrightarrow> ta_generation self > 0 \<and>
     (ta_published_generation self \<noteq> Some (ta_generation self)
      \<or> ta_published_expires_at_ms self \<noteq> ta_expires_at_ms self)"

definition renew_publication ::
  "u64 \<Rightarrow> temporary_access_state \<Rightarrow> temporary_access_state \<times> (bool, string) result" where
  "renew_publication now self =
     (if \<not> temporary_enabled self \<or> needs_rotation now self then (self, Ok False)
      else if \<not> publication_epoch_current self then (self, Err ''temporary_publication_superseded'')
      else if (case ta_expires_at_ms self of None \<Rightarrow> False
               | Some expiry \<Rightarrow> saturating_sub expiry now > PUBLICATION_RENEWAL_MARGIN_MS)
      then (self, Ok False)
      else (case checked_add now TEMPORARY_PASSWORD_TTL_MS of
              None \<Rightarrow> (self, Err ''temporary_expiry_invalid'')
            | Some expiry \<Rightarrow>
                if (case ta_expires_at_ms self of None \<Rightarrow> False | Some previous \<Rightarrow> expiry \<le> previous)
                then (self, Err ''temporary_expiry_invalid'')
                else (self\<lparr>ta_expires_at_ms := Some expiry\<rparr>, Ok True)))"

section \<open>Status and secret\<close>

datatype temporary_access_refresh_mode = RefreshManual | RefreshAutomatic

record temporary_access_status =
  ts_enabled :: bool
  ts_ready :: bool
  ts_generation :: u64
  ts_expires_at_ms :: "u64 option"
  ts_reason :: "string option"
  ts_refresh_mode :: "temporary_access_refresh_mode option"

definition temporary_status :: "u64 \<Rightarrow> bool \<Rightarrow> temporary_access_state \<Rightarrow> temporary_access_status" where
  "temporary_status now online self =
     (let intent = epoch_snapshot (ta_operation_epoch self);
          en = (ta_enabled self \<and> (case intent of None \<Rightarrow> False | Some i \<Rightarrow> ti_enabled i));
          epoch_is_current = (case intent of None \<Rightarrow> False | Some i \<Rightarrow> ti_current i = ta_applied_epoch self);
          expires = (if ta_published_generation self = Some (ta_generation self)
                     then ta_published_expires_at_ms self else ta_expires_at_ms self);
          expired = (case expires of None \<Rightarrow> False | Some t \<Rightarrow> now \<ge> t);
          ready = (en \<and> epoch_is_current \<and> \<not> ta_rotation_requested self \<and> ta_password self \<noteq> None
                   \<and> ta_published_generation self = Some (ta_generation self) \<and> online \<and> \<not> expired);
          reason = (if \<not> en then Some ''disabled''
                    else if expired then Some ''expired''
                    else if ta_generation self = 0 then Some ''device_unregistered''
                    else if \<not> online then Some ''signaling_offline''
                    else if \<not> epoch_is_current \<or> ta_published_generation self \<noteq> Some (ta_generation self)
                    then Some ''publication_pending''
                    else None)
      in \<lparr>ts_enabled = en, ts_ready = ready, ts_generation = ta_generation self,
          ts_expires_at_ms = expires, ts_reason = reason, ts_refresh_mode = Some RefreshManual\<rparr>)"

definition temporary_secret ::
  "u64 \<Rightarrow> bool \<Rightarrow> temporary_access_state \<Rightarrow> temporary_access_status \<times> string option" where
  "temporary_secret now online self =
     (let status = temporary_status now online self
      in (status, if ts_ready status then ta_password self else None))"

section \<open>Publication\<close>

definition hex_string :: "bytes \<Rightarrow> string" where
  "hex_string bs = concat (map hex_byte bs)"

record temporary_access_document =
  td_device_id :: string
  td_auth_version :: u64
  td_generation :: u64
  td_enabled :: bool
  td_expires_at_ms :: "u64 option"
  td_salt :: "string option"
  td_verifier :: "string option"
  td_allowed_scopes :: "string list"

definition access_document ::
  "string \<Rightarrow> u64 \<Rightarrow> temporary_access_state \<Rightarrow> (temporary_access_document, string) result" where
  "access_document device auth self =
     (if device = [] \<or> length device > 64 \<or> auth = 0 \<or> auth > i64_max \<or> ta_generation self = 0
      then Err ''temporary_identity_invalid''
      else if ta_enabled self \<and> (ta_password self = None \<or> ta_salt self = None \<or> ta_verifier self = None)
      then Err ''temporary_password_unavailable''
      else Ok \<lparr>td_device_id = device, td_auth_version = auth, td_generation = ta_generation self,
               td_enabled = ta_enabled self, td_expires_at_ms = ta_expires_at_ms self,
               td_salt = map_option hex_string (ta_salt self),
               td_verifier = map_option hex_string (ta_verifier self),
               td_allowed_scopes = (if ta_enabled self
                 then [''input.keyboard'', ''input.pointer'', ''screen.view''] else [])\<rparr>)"

record temporary_publication_proof =
  tpp_key_id :: string
  tpp_public_key :: string
  tpp_access_json :: string
  tpp_signature :: string

definition signed_publication ::
  "'kp crypto_suite \<Rightarrow> (temporary_access_document \<Rightarrow> string option) \<Rightarrow> device_identity \<Rightarrow> string
   \<Rightarrow> temporary_access_document \<Rightarrow> (temporary_publication_proof, string) result" where
  "signed_publication cr to_json identity endpoint doc =
     (case to_json doc of
        None \<Rightarrow> Err ''temporary_document_invalid''
      | Some access_json \<Rightarrow>
          let hash = hex_string (cr_sha256 cr (as_bytes access_json));
              canonical = ''POST'' @ [CHR 0x0A] @ endpoint @ [CHR 0x0A] @ di_key_id identity @ [CHR 0x0A] @ hash
          in (case sign_context_bytes cr identity ''MRD_DEVICE_TEMPORARY_ACCESS_V1'' (as_bytes canonical) of
                Err _ \<Rightarrow> Err ''temporary_proof_unavailable''
              | Ok signature \<Rightarrow>
                  Ok \<lparr>tpp_key_id = di_key_id identity, tpp_public_key = hex_string (di_public_key identity),
                      tpp_access_json = access_json, tpp_signature = hex_string signature\<rparr>))"

section \<open>Guests\<close>

definition authority_from_wire ::
  "string option \<Rightarrow> u64 option \<Rightarrow> u64 option \<Rightarrow> (temporary_guest_authority option, string) result" where
  "authority_from_wire kind generation auth =
     (case (kind, generation, auth) of
        (None, None, None) \<Rightarrow> Ok None
      | (Some k, Some g, Some a) \<Rightarrow>
          if k = ''temporary_password'' \<and> g > 0 \<and> g \<le> i64_max \<and> a > 0 \<and> a \<le> i64_max
          then Ok (Some \<lparr>tga_generation = g, tga_target_auth_version = a\<rparr>)
          else Err ''temporary_authority_invalid''
      | _ \<Rightarrow> Err ''temporary_authority_invalid'')"

definition authorize_guest ::
  "string \<Rightarrow> temporary_guest_authority \<Rightarrow> string \<Rightarrow> bool \<Rightarrow> u64 \<Rightarrow> bool \<Rightarrow> u64 \<Rightarrow> temporary_access_state
   \<Rightarrow> temporary_access_state \<times> bool" where
  "authorize_guest session authority commitment approved now online auth self =
     (if \<not> temporary_enabled self \<or> auth = 0 \<or> tga_target_auth_version authority \<noteq> auth then (self, False)
      else if approved then
        (case map_of (ta_guest_sessions self) session of
           None \<Rightarrow> (self, False)
         | Some (saved, bound, already_approved, admitted_at) \<Rightarrow>
             if saved \<noteq> authority \<or> bound \<noteq> commitment
                \<or> \<not> permits_existing_guest admitted_at (ta_operation_epoch self) then (self, False)
             else if \<not> already_approved \<and>
               (tga_generation authority \<noteq> ta_generation self \<or> \<not> ts_ready (temporary_status now online self))
             then (self, False)
             else (self\<lparr>ta_guest_sessions :=
                     bt_insert session (authority, commitment, True, admitted_at) (ta_guest_sessions self)\<rparr>, True))
      else if tga_generation authority \<noteq> ta_generation self \<or> \<not> ts_ready (temporary_status now online self)
      then (self, False)
      else
        (case map_of (ta_guest_sessions self) session of
           Some (saved, bound, _, admitted_at) \<Rightarrow>
             (self, saved = authority \<and> bound = commitment
                      \<and> permits_existing_guest admitted_at (ta_operation_epoch self))
         | None \<Rightarrow>
             if length (ta_guest_sessions self) \<ge> 128 then (self, False)
             else (self\<lparr>ta_guest_sessions := bt_insert session
                     (authority, commitment, False, ta_applied_epoch self) (ta_guest_sessions self)\<rparr>, True)))"

definition guest_session_ids_before_epoch :: "u64 \<Rightarrow> temporary_access_state \<Rightarrow> string list" where
  "guest_session_ids_before_epoch epoch self =
     map fst (filter (\<lambda>(_, _, _, _, admitted). admitted < epoch) (ta_guest_sessions self))"

definition guest_session_ids :: "temporary_access_state \<Rightarrow> string list" where
  "guest_session_ids self = map fst (ta_guest_sessions self)"

definition has_guest_session :: "string \<Rightarrow> temporary_access_state \<Rightarrow> bool" where
  "has_guest_session session self \<longleftrightarrow> map_of (ta_guest_sessions self) session \<noteq> None"

definition forget_guest_session :: "string \<Rightarrow> temporary_access_state \<Rightarrow> temporary_access_state" where
  "forget_guest_session session self =
     self\<lparr>ta_guest_sessions := bt_remove session (ta_guest_sessions self)\<rparr>"

section \<open>The authentication version of a device token\<close>

text \<open>
  \<open>split('.')\<close>, the visitor that refuses a repeated claim, and the checks on the claims.  Base64
  decoding and the parsing of the JSON object into its entries in order (with nothing after it)
  are parameters; of a claim's value the code reads strings and unsigned integers.
\<close>

datatype claim_value = ClaimString string | ClaimU64 u64 | ClaimOther

fun split_dots :: "string \<Rightarrow> string list" where
  "split_dots [] = [[]]"
| "split_dots (c # cs) =
     (if c = CHR ''.'' then [] # split_dots cs
      else (case split_dots cs of p # ps \<Rightarrow> (c # p) # ps | [] \<Rightarrow> [[c]]))"

fun unique_claims ::
  "(string \<times> claim_value) list \<Rightarrow> (string, claim_value) btree_map \<Rightarrow> (string, claim_value) btree_map option" where
  "unique_claims [] values = Some values"
| "unique_claims ((key, value) # entries) values =
     (if map_of values key \<noteq> None then None else unique_claims entries (bt_insert key value values))"

definition claim_str :: "string \<Rightarrow> (string, claim_value) btree_map \<Rightarrow> string option" where
  "claim_str key claims = (case map_of claims key of Some (ClaimString s) \<Rightarrow> Some s | _ \<Rightarrow> None)"

definition claim_u64 :: "string \<Rightarrow> (string, claim_value) btree_map \<Rightarrow> u64 option" where
  "claim_u64 key claims = (case map_of claims key of Some (ClaimU64 n) \<Rightarrow> Some n | _ \<Rightarrow> None)"

definition decoded_auth_version ::
  "(string \<Rightarrow> bytes option) \<Rightarrow> (bytes \<Rightarrow> (string \<times> claim_value) list option) \<Rightarrow> string \<Rightarrow> u64 option" where
  "decoded_auth_version base64 parse_object token =
     (if length token > 4096 then None
      else (case split_dots token of
        [_, encoded, _] \<Rightarrow>
          (case Option.bind (base64 encoded) (\<lambda>payload.
                Option.bind (parse_object payload) (\<lambda>entries. unique_claims entries [])) of
             None \<Rightarrow> None
           | Some claims \<Rightarrow>
               if claim_str ''token_type'' claims \<noteq> Some ''device''
                  \<or> claim_str ''role'' claims \<noteq> Some ''device'' then None
               else (case claim_u64 ''auth_version'' claims of
                  None \<Rightarrow> None
                | Some version \<Rightarrow> if version > 0 \<and> version \<le> i64_max then Some version else None))
      | _ \<Rightarrow> None))"

section \<open>Steps\<close>

text \<open>
  Any sequence of method calls, by any number of tasks: one rule per method that changes the
  intent or the state, with arbitrary arguments, and one for a panic that poisons the mutex.  The
  random source fills an array of 24 bytes.
\<close>

inductive ta_step :: "key_derivation \<Rightarrow> temporary_access_state \<Rightarrow> temporary_access_state \<Rightarrow> bool" for kdf where
  ta_begin: "epoch_begin d (ta_operation_epoch s) = (lk, r) \<Longrightarrow> ta_step kdf s (with_operation_epoch lk s)"
| ta_poison: "ta_step kdf s (with_operation_epoch None s)"
| ta_apply: "apply_operation_epoch e s = (t, r) \<Longrightarrow> ta_step kdf s t"
| ta_rotate: "list_all (\<lambda>entropy. length entropy = 24) (case random of None \<Rightarrow> [] | Some entropy \<Rightarrow> [entropy]) \<Longrightarrow>
    temporary_rotate kdf random g now s = (t, q) \<Longrightarrow> ta_step kdf s t"
| ta_disable: "temporary_disable g s = (t, q) \<Longrightarrow> ta_step kdf s t"
| ta_freeze: "ta_step kdf s (temporary_freeze s)"
| ta_invalidate: "ta_step kdf s (invalidate_publication s)"
| ta_mark: "mark_published g x s = (t, b) \<Longrightarrow> ta_step kdf s t"
| ta_renew: "renew_publication now s = (t, p) \<Longrightarrow> ta_step kdf s t"
| ta_authorize: "authorize_guest sid a c ap now online auth s = (t, b) \<Longrightarrow> ta_step kdf s t"
| ta_forget: "ta_step kdf s (forget_guest_session sid s)"

section \<open>Invariant\<close>

definition intent_ok :: "temporary_operation_intent \<Rightarrow> bool" where
  "intent_ok i \<longleftrightarrow> (\<forall>d. ti_disabled_at i = Some d \<longrightarrow> d \<le> ti_current i) \<and>
     (if ti_enabled i then ti_disabled_at i \<noteq> Some (ti_current i) else ti_disabled_at i = Some (ti_current i))"

definition epochs_ok :: "temporary_access_state \<Rightarrow> bool" where
  "epochs_ok s \<longleftrightarrow> (\<forall>i. ta_operation_epoch s = Some i \<longrightarrow>
     intent_ok i \<and> ta_applied_epoch s \<le> ti_current i \<and>
     (\<forall>(sid, a, c, ap, e) \<in> set (ta_guest_sessions s). e \<le> ti_current i))"

definition credentials_ok :: "key_derivation \<Rightarrow> temporary_access_state \<Rightarrow> bool" where
  "credentials_ok kdf s \<longleftrightarrow>
     (case ta_password s of
        None \<Rightarrow> ta_salt s = None \<and> ta_verifier s = None
      | Some p \<Rightarrow> length p = 8 \<and> set p \<subseteq> set PASSWORD_ALPHABET \<and> ta_enabled s \<and> ta_expires_at_ms s \<noteq> None \<and>
          (\<exists>salt. ta_salt s = Some salt \<and> length salt = 16 \<and>
             ta_verifier s = Some (kdf PASSWORD_ITERATIONS salt (as_bytes p))))"

definition lease_ok :: "temporary_access_state \<Rightarrow> bool" where
  "lease_ok s \<longleftrightarrow> ta_generation s \<le> i64_max \<and>
     (ta_published_generation s = None \<and> ta_published_expires_at_ms s = None \<or>
      ta_published_generation s = Some (ta_generation s))"

definition guests_ok :: "temporary_access_state \<Rightarrow> bool" where
  "guests_ok s \<longleftrightarrow> bt_wf (ta_guest_sessions s) \<and> length (ta_guest_sessions s) \<le> 128"

definition ta_inv :: "key_derivation \<Rightarrow> temporary_access_state \<Rightarrow> bool" where
  "ta_inv kdf s \<longleftrightarrow> epochs_ok s \<and> credentials_ok kdf s \<and> lease_ok s \<and> guests_ok s"

lemmas ta_method_defs =
  apply_operation_epoch_def temporary_rotate_def temporary_disable_def temporary_freeze_def invalidate_publication_def
  mark_published_def renew_publication_def authorize_guest_def forget_guest_session_def with_operation_epoch_def

lemmas ta_method_splits = if_splits option.splits sum.splits prod.splits

lemma password_char_alphabet: "password_char b \<in> set PASSWORD_ALPHABET"
proof -
  have "and b 31 = take_bit 5 b" by (simp add: take_bit_eq_mask mask_eq_exp_minus_1)
  then have "unat (and b 31) < 32"
    using take_bit_nat_less_exp [of 5 "unat b"] by (simp add: unsigned_take_bit_eq)
  moreover have "length PASSWORD_ALPHABET = 32" by (simp add: PASSWORD_ALPHABET_def)
  ultimately show ?thesis by (simp add: password_char_def)
qed

lemma ready_iff:
  "ts_ready (temporary_status now online s) \<longleftrightarrow>
     (\<exists>i p. ta_operation_epoch s = Some i \<and> ti_enabled i \<and> ta_enabled s \<and> ti_current i = ta_applied_epoch s \<and>
        \<not> ta_rotation_requested s \<and> ta_password s = Some p \<and>
        ta_published_generation s = Some (ta_generation s) \<and> online \<and>
        (\<forall>x. ta_published_expires_at_ms s = Some x \<longrightarrow> now < x))"
  by (auto simp: temporary_status_def epoch_snapshot_def Let_def not_le split: option.splits)

lemma length_bt_insert:
  assumes "bt_wf m"
  shows "length (bt_insert k v m) = (if map_of m k = None then Suc (length m) else length m)"
proof -
  have card: "length l = card (fst ` set l)" if "bt_wf l" for l :: "('a::linorder \<times> 'b) list"
    using distinct_card [OF bt_wf_distinct [OF that]] by simp
  show ?thesis
    using card [OF assms] card [OF bt_wf_insert [OF assms]]
    by (auto simp: keys_bt_insert card_insert_if map_of_eq_None_iff)
qed

text \<open>What an authorization that changes the state or succeeds rests on.\<close>

lemma authorize_guest_cases:
  assumes "authorize_guest sid a c ap now online auth s = (t, b)"
  obtains (refused) "t = s" "\<not> b"
  | (seen) ap' e where "t = s" "b" "\<not> ap" "map_of (ta_guest_sessions s) sid = Some (a, c, ap', e)"
      "permits_existing_guest e (ta_operation_epoch s)" "ts_ready (temporary_status now online s)"
      "tga_generation a = ta_generation s"
  | (approved) ap' e where "b" "ap" "map_of (ta_guest_sessions s) sid = Some (a, c, ap', e)"
      "permits_existing_guest e (ta_operation_epoch s)"
      "ap' \<or> ts_ready (temporary_status now online s) \<and> tga_generation a = ta_generation s"
      "t = s\<lparr>ta_guest_sessions := bt_insert sid (a, c, True, e) (ta_guest_sessions s)\<rparr>"
  | (admitted) "b" "\<not> ap" "map_of (ta_guest_sessions s) sid = None" "length (ta_guest_sessions s) < 128"
      "ts_ready (temporary_status now online s)" "tga_generation a = ta_generation s"
      "t = s\<lparr>ta_guest_sessions :=
         bt_insert sid (a, c, False, ta_applied_epoch s) (ta_guest_sessions s)\<rparr>"
proof (cases b)
  case False
  with assms have "t = s" unfolding authorize_guest_def by (auto split: if_splits option.splits)
  with False show ?thesis by (rule refused [rotated])
next
  case True
  show ?thesis
  proof (cases "map_of (ta_guest_sessions s) sid")
    case None
    with assms True show ?thesis
      unfolding authorize_guest_def by (intro admitted) (auto split: if_splits)
  next
    case (Some g)
    obtain a' c' ap' e where g: "g = (a', c', ap', e)" by (cases g)
    show ?thesis
    proof (cases ap)
      case True
      with assms Some g \<open>b\<close> show ?thesis
        unfolding authorize_guest_def by (intro approved [of ap' e]) (auto split: if_splits)
    next
      case False
      with assms Some g \<open>b\<close> show ?thesis
        unfolding authorize_guest_def by (intro seen [of ap' e]) (auto split: if_splits)
    qed
  qed
qed

lemma guests_insert_ok:
  assumes "guests_ok s" "map_of (ta_guest_sessions s) sid \<noteq> None \<or> length (ta_guest_sessions s) < 128"
  shows "guests_ok (s\<lparr>ta_guest_sessions := bt_insert sid v (ta_guest_sessions s)\<rparr>)"
  using assms by (auto simp: guests_ok_def bt_wf_insert length_bt_insert)

lemma guests_ok_step: "ta_step kdf s t \<Longrightarrow> guests_ok s \<Longrightarrow> guests_ok t"
proof (induction rule: ta_step.induct)
  case (ta_authorize sid a c ap now online auth s t b)
  from ta_authorize(1) show ?case
    by (cases rule: authorize_guest_cases) (use ta_authorize(2) in \<open>auto intro: guests_insert_ok\<close>)
next
  case (ta_forget s sid)
  then have "length (bt_remove sid (ta_guest_sessions s)) \<le> 128"
    unfolding bt_remove_def guests_ok_def by (meson length_filter_le order.trans)
  with ta_forget show ?case
    by (simp add: guests_ok_def forget_guest_session_def bt.wf_del)
qed (auto simp: guests_ok_def ta_method_defs Let_def split: ta_method_splits)

lemma lease_ok_step: "ta_step kdf s t \<Longrightarrow> lease_ok s \<Longrightarrow> lease_ok t"
proof (induction rule: ta_step.induct)
  case (ta_authorize sid a c ap now online auth s t b)
  from ta_authorize(1) show ?case
    by (cases rule: authorize_guest_cases) (use ta_authorize(2) in \<open>auto simp: lease_ok_def\<close>)
qed (auto simp: lease_ok_def ta_method_defs check_generation_def not_less Let_def split: ta_method_splits)

lemma credentials_ok_step: "ta_step kdf s t \<Longrightarrow> credentials_ok kdf s \<Longrightarrow> credentials_ok kdf t"
proof (induction rule: ta_step.induct)
  case (ta_authorize sid a c ap now online auth s t b)
  from ta_authorize(1) show ?case
    by (cases rule: authorize_guest_cases) (use ta_authorize(2) in \<open>auto simp: credentials_ok_def split: option.splits\<close>)
next
  case (ta_rotate random g now s t q)
  then show ?case
    by (auto simp: temporary_rotate_def credentials_ok_def Let_def password_verifier_def password_char_alphabet
        split: ta_method_splits)
qed (auto simp: credentials_ok_def ta_method_defs Let_def split: ta_method_splits)

lemma epochs_ok_begin:
  assumes "epochs_ok s" "epoch_begin d (ta_operation_epoch s) = (lk, r)"
  shows "epochs_ok (with_operation_epoch lk s)"
proof (cases "ta_operation_epoch s")
  case (Some i)
  show ?thesis
  proof (cases "checked_add (ti_current i) 1")
    case None
    then show ?thesis using assms Some by (auto simp: epoch_begin_def with_operation_epoch_def epochs_ok_def)
  next
    case next_epoch: (Some e)
    then have "ti_current i < e" using checked_add_Some [of "ti_current i" 1 e] by (simp add: word_less_nat_alt)
    then show ?thesis using assms Some next_epoch
      by (fastforce simp: epoch_begin_def with_operation_epoch_def epochs_ok_def intent_ok_def)
  qed
qed (use assms in \<open>simp add: epoch_begin_def with_operation_epoch_def epochs_ok_def\<close>)

lemma set_bt_insert: "bt_wf m \<Longrightarrow> e \<in> set (bt_insert k v m) \<Longrightarrow> e = (k, v) \<or> e \<in> set m"
  by (induction k v m rule: bt_insert.induct) (auto split: if_splits)

lemma epochs_ok_step: "ta_step kdf s t \<Longrightarrow> epochs_ok s \<and> guests_ok s \<Longrightarrow> epochs_ok t"
proof (induction rule: ta_step.induct)
  case (ta_begin d s lk r)
  then show ?case by (simp add: epochs_ok_begin)
next
  case (ta_authorize sid a c ap now online auth s t b)
  then have wf: "bt_wf (ta_guest_sessions s)" by (simp add: guests_ok_def)
  from ta_authorize(1) show ?case
  proof (cases rule: authorize_guest_cases)
    case (approved ap' e)
    then have "(sid, a, c, ap', e) \<in> set (ta_guest_sessions s)" by (simp add: map_of_SomeD)
    with approved ta_authorize(2) show ?thesis
      by (fastforce simp: epochs_ok_def dest!: set_bt_insert [OF wf])
  next
    case admitted
    then show ?thesis using ta_authorize(2)
      by (fastforce simp: epochs_ok_def dest!: set_bt_insert [OF wf])
  qed (use ta_authorize(2) in simp_all)
next
  case (ta_forget s sid)
  then show ?case by (auto simp: epochs_ok_def forget_guest_session_def bt_remove_def)
qed (auto simp: epochs_ok_def ta_method_defs is_current_def epoch_current_def Let_def split: ta_method_splits)

interpretation ta: state_invariant "\<lambda>s. s = temporary_access_default" "ta_step kdf" "ta_inv kdf"
  for kdf :: key_derivation
proof unfold_locales
  fix s t
  show "s = temporary_access_default \<Longrightarrow> ta_inv kdf s"
    by (simp add: ta_inv_def temporary_access_default_def epochs_ok_def epoch_default_def intent_ok_def
        credentials_ok_def lease_ok_def guests_ok_def)
  assume "ta_step kdf s t" "ta_inv kdf s"
  then show "ta_inv kdf t"
    unfolding ta_inv_def using guests_ok_step lease_ok_step credentials_ok_step epochs_ok_step by blast
qed

section \<open>The fence a disable intent leaves\<close>

definition admitted_at :: "string \<times> guest_entry \<Rightarrow> u64" where
  "admitted_at entry = snd (snd (snd (snd entry)))"

lemma admitted_at_simp [simp]: "admitted_at (sid, a, c, ap, x) = x"
  by (simp add: admitted_at_def)

definition fence :: "u64 \<Rightarrow> temporary_access_state \<Rightarrow> bool" where
  "fence e s \<longleftrightarrow> guests_ok s \<and>
     (\<forall>i. ta_operation_epoch s = Some i \<longrightarrow>
        (\<exists>d. ti_disabled_at i = Some d \<and> e \<le> d \<and> d \<le> ti_current i \<and> (ti_enabled i \<longrightarrow> d < ti_current i))) \<and>
     (\<forall>entry \<in> set (ta_guest_sessions s). admitted_at entry \<noteq> e)"

lemma fence_raised:
  assumes "ta_inv kdf s" "epoch_begin True (ta_operation_epoch s) = (lk, Ok e)"
  shows "fence e (with_operation_epoch lk s)"
proof -
  obtain i where i: "ta_operation_epoch s = Some i" and e: "checked_add (ti_current i) 1 = Some e"
    and lk: "lk = Some (i\<lparr>ti_current := e, ti_enabled := False, ti_disabled_at := Some e\<rparr>)"
    using assms(2) by (auto simp: epoch_begin_def split: option.splits)
  have "ti_current i < e" using checked_add_Some [OF e] by (simp add: word_less_nat_alt)
  with assms(1) i have "admitted_at entry \<noteq> e" if "entry \<in> set (ta_guest_sessions s)" for entry
    using that by (fastforce simp: ta_inv_def epochs_ok_def admitted_at_def)
  with lk assms(1) show ?thesis
    by (fastforce simp: fence_def with_operation_epoch_def ta_inv_def guests_ok_def)
qed

lemma permitted_beyond_fence: "fence e s \<Longrightarrow> permits_existing_guest x (ta_operation_epoch s) \<Longrightarrow> e < x"
  by (fastforce simp: fence_def permits_existing_guest_def split: option.splits)

lemma ready_beyond_fence: "fence e s \<Longrightarrow> ts_ready (temporary_status now online s) \<Longrightarrow> e < ta_applied_epoch s"
  by (fastforce simp: fence_def ready_iff)

lemma fence_begin:
  assumes "fence e s" "epoch_begin d (ta_operation_epoch s) = (lk, r)"
  shows "fence e (with_operation_epoch lk s)"
proof (cases "ta_operation_epoch s")
  case (Some i)
  show ?thesis
  proof (cases "checked_add (ti_current i) 1")
    case None
    with assms Some show ?thesis by (auto simp: epoch_begin_def with_operation_epoch_def fence_def guests_ok_def)
  next
    case next_epoch: (Some n)
    then have "ti_current i < n" using checked_add_Some [of "ti_current i" 1 n] by (simp add: word_less_nat_alt)
    with assms Some next_epoch show ?thesis
      by (fastforce simp: epoch_begin_def with_operation_epoch_def fence_def guests_ok_def)
  qed
qed (use assms in \<open>simp add: epoch_begin_def with_operation_epoch_def fence_def guests_ok_def\<close>)

lemma fence_insert:
  assumes "fence e s" "x \<noteq> e" "map_of (ta_guest_sessions s) sid \<noteq> None \<or> length (ta_guest_sessions s) < 128"
  shows "fence e (s\<lparr>ta_guest_sessions := bt_insert sid (a, c, ap, x) (ta_guest_sessions s)\<rparr>)"
proof -
  have wf: "bt_wf (ta_guest_sessions s)" using assms(1) by (simp add: fence_def guests_ok_def)
  show ?thesis
    using assms guests_insert_ok [of s sid] by (auto simp: fence_def dest!: set_bt_insert [OF wf])
qed

lemma fence_step: "ta_step kdf s t \<Longrightarrow> fence e s \<Longrightarrow> fence e t"
proof (induction rule: ta_step.induct)
  case (ta_begin d s lk r)
  then show ?case by (simp add: fence_begin)
next
  case (ta_authorize sid a c ap now online auth s t b)
  from ta_authorize(1) show ?case
  proof (cases rule: authorize_guest_cases)
    case (approved ap' x)
    with permitted_beyond_fence [OF ta_authorize(2), of x] fence_insert [OF ta_authorize(2), of x sid]
    show ?thesis by auto
  next
    case admitted
    with ready_beyond_fence [OF ta_authorize(2), of now online]
      fence_insert [OF ta_authorize(2), of "ta_applied_epoch s" sid]
    show ?thesis by auto
  qed (use ta_authorize(2) in simp_all)
next
  case (ta_forget s sid)
  then show ?case
    using guests_ok_step [OF ta_step.ta_forget [of kdf s sid]]
    by (auto simp: fence_def forget_guest_session_def bt_remove_def)
qed (auto simp: fence_def guests_ok_def ta_method_defs Let_def split: ta_method_splits)

interpretation fenced: state_invariant "\<lambda>s. fence e s" "ta_step kdf" "fence e"
  for kdf :: key_derivation and e :: u64
  by unfold_locales (auto intro: fence_step)

text \<open>An authorized guest is in the table, bound to what it presented, and was admitted beyond the fence.\<close>

lemma authorized_beyond_fence:
  assumes "fence e s" "authorize_guest sid a c ap now online auth s = (t, True)"
  shows "temporary_enabled s \<and> (\<exists>ap' x. map_of (ta_guest_sessions t) sid = Some (a, c, ap', x) \<and> e < x)"
proof
  show "temporary_enabled s" using assms(2) by (auto simp: authorize_guest_def split: if_splits)
  have wf: "bt_wf (ta_guest_sessions s)" using assms(1) by (simp add: fence_def guests_ok_def)
  from assms(2) show "\<exists>ap' x. map_of (ta_guest_sessions t) sid = Some (a, c, ap', x) \<and> e < x"
    by (cases rule: authorize_guest_cases)
      (use permitted_beyond_fence [OF assms(1)] ready_beyond_fence [OF assms(1)] in
        \<open>auto simp: map_of_bt_insert [OF wf]\<close>)
qed

section \<open>Generations\<close>

text \<open>
  \<open>same_secret s t\<close>: the generation of \<open>t\<close> is at least that of \<open>s\<close>, and if it is the same then \<open>t\<close> has
  the password and salt of \<open>s\<close> or none.
\<close>

definition same_secret :: "temporary_access_state \<Rightarrow> temporary_access_state \<Rightarrow> bool" where
  "same_secret s t \<longleftrightarrow> ta_generation s \<le> ta_generation t \<and>
     (ta_generation s = ta_generation t \<longrightarrow>
        (ta_password t, ta_salt t, ta_verifier t) = (ta_password s, ta_salt s, ta_verifier s) \<or> ta_password t = None)"

lemma same_secret_step: "ta_step kdf s t \<Longrightarrow> same_secret s t"
proof (induction rule: ta_step.induct)
  case (ta_authorize sid a c ap now online auth s t b)
  from ta_authorize show ?case by (cases rule: authorize_guest_cases) (auto simp: same_secret_def)
qed (auto simp: same_secret_def ta_method_defs check_generation_def Let_def split: ta_method_splits)

lemma same_secret_steps: "(ta_step kdf)\<^sup>*\<^sup>* s t \<Longrightarrow> same_secret s t"
proof (induction rule: rtranclp_induct)
  case (step t u)
  from same_secret_step [OF step.hyps(2)] step.IH show ?case by (auto simp: same_secret_def)
qed (simp add: same_secret_def)

lemma generation_mono: "(ta_step kdf)\<^sup>*\<^sup>* s t \<Longrightarrow> ta_generation s \<le> ta_generation t"
  using same_secret_steps by (auto simp: same_secret_def)

text \<open>While the generation stays, a requested rotation keeps the password hidden, and no password comes back.\<close>

definition withheld :: "u64 \<Rightarrow> temporary_access_state \<Rightarrow> bool" where
  "withheld g s \<longleftrightarrow> ta_generation s = g \<longrightarrow> ta_rotation_requested s \<or> ta_password s = None"

lemma withheld_step: "ta_step kdf s t \<Longrightarrow> g \<le> ta_generation s \<and> withheld g s \<Longrightarrow> withheld g t"
proof (induction rule: ta_step.induct)
  case (ta_authorize sid a c ap now online auth s t b)
  from ta_authorize(1) show ?case
    by (cases rule: authorize_guest_cases) (use ta_authorize(2) in \<open>auto simp: withheld_def\<close>)
qed (auto simp: withheld_def ta_method_defs check_generation_def Let_def split: ta_method_splits)

lemma withheld_steps:
  "(ta_step kdf)\<^sup>*\<^sup>* s t \<Longrightarrow> ta_generation s = g \<Longrightarrow> withheld g s \<Longrightarrow> withheld g t"
proof (induction rule: rtranclp_induct)
  case (step t u)
  then show ?case using generation_mono [OF step.hyps(1)] withheld_step [OF step.hyps(2)] by blast
qed simp

lemma withheld_hidden: "withheld g s \<Longrightarrow> temporary_secret now online s = (st, Some p) \<Longrightarrow> ta_generation s \<noteq> g"
  by (auto simp: withheld_def temporary_secret_def Let_def ready_iff split: if_splits)

section \<open>Tokens\<close>

lemma unique_claims_eq:
  "bt_wf m \<Longrightarrow> unique_claims entries m =
     (if distinct (map fst entries) \<and> set (map fst entries) \<inter> fst ` set m = {}
      then Some (fold (\<lambda>(k, v). bt_insert k v) entries m) else None)"
proof (induction entries m rule: unique_claims.induct)
  case (2 key v entries m)
  then show ?case by (auto simp: map_of_eq_None_iff bt_wf_insert keys_bt_insert)
qed simp

lemma map_of_claims:
  "bt_wf m \<Longrightarrow> distinct (map fst entries) \<Longrightarrow>
   map_of (fold (\<lambda>(k, v). bt_insert k v) entries m) = map_of m ++ map_of entries"
proof (induction entries arbitrary: m)
  case (Cons e entries)
  obtain k v where e: "e = (k, v)" by (cases e)
  from Cons.prems e have "map_of entries k = None" by (simp add: map_of_eq_None_iff)
  then have "(map_of m)(k \<mapsto> v) ++ map_of entries = map_of m ++ (map_of entries)(k \<mapsto> v)"
    by (auto simp: fun_eq_iff map_add_def split: option.splits)
  with Cons.IH [OF bt_wf_insert [OF Cons.prems(1)], of k v] Cons.prems e show ?case
    by (simp only: fold.simps o_apply prod.case map_of_bt_insert map_of.simps fst_conv snd_conv list.map distinct.simps)
qed simp

section \<open>A run\<close>

text \<open>
  A password is rotated, published and a guest admitted; the user disables temporary access, enables it
  again and rotates; the second password is published.
\<close>

definition sample_kdf :: key_derivation where
  "sample_kdf iterations salt password = salt @ take 16 (password @ salt)"

definition sample_entropy :: bytes where
  "sample_entropy = map of_nat [0..<24]"

definition sample_authority :: "u64 \<Rightarrow> temporary_guest_authority" where
  "sample_authority g = \<lparr>tga_generation = g, tga_target_auth_version = 7\<rparr>"

definition demo_rotated :: temporary_access_state where
  "demo_rotated = fst (temporary_rotate sample_kdf (Some sample_entropy) 1 1000 temporary_access_default)"

definition demo_published :: temporary_access_state where
  "demo_published = fst (mark_published 1 (Some 601000) demo_rotated)"

definition demo_guest :: temporary_access_state where
  "demo_guest = fst (authorize_guest ''old'' (sample_authority 1) ''c'' False 2000 True 7 demo_published)"

definition demo_off :: temporary_access_state where
  "demo_off = with_operation_epoch (fst (epoch_begin True (ta_operation_epoch demo_guest))) demo_guest"

definition demo_on :: temporary_access_state where
  "demo_on = fst (apply_operation_epoch 2
     (with_operation_epoch (fst (epoch_begin False (ta_operation_epoch demo_off))) demo_off))"

definition demo_requested :: temporary_access_state where
  "demo_requested = invalidate_publication demo_on"

definition demo_again :: temporary_access_state where
  "demo_again = fst (mark_published 2 (Some 603000)
     (fst (temporary_rotate sample_kdf (Some sample_entropy) 2 3000 demo_requested)))"

lemma ta_step_fst:
  "ta_step kdf s (with_operation_epoch (fst (epoch_begin d (ta_operation_epoch s))) s)"
  "ta_step kdf s (fst (apply_operation_epoch e s))"
  "ta_step kdf s (fst (mark_published g x s))"
  "ta_step kdf s (fst (authorize_guest sid a c ap now online auth s))"
  "length entropy = 24 \<Longrightarrow> ta_step kdf s (fst (temporary_rotate kdf (Some entropy) g now s))"
  by (rule ta_step.ta_begin ta_step.ta_apply ta_step.ta_mark ta_step.ta_authorize, rule prod.collapse [symmetric])+
    (rule ta_step.ta_rotate [where random = "Some entropy"], simp, rule prod.collapse [symmetric])

lemma demo_steps:
  "(ta_step sample_kdf)\<^sup>*\<^sup>* temporary_access_default demo_guest"
  "(ta_step sample_kdf)\<^sup>*\<^sup>* demo_off demo_on"
  "(ta_step sample_kdf)\<^sup>*\<^sup>* demo_on demo_requested"
  "(ta_step sample_kdf)\<^sup>*\<^sup>* demo_requested demo_again"
proof -
  have len: "length sample_entropy = 24" by (simp add: sample_entropy_def)
  show "(ta_step sample_kdf)\<^sup>*\<^sup>* temporary_access_default demo_guest"
    unfolding demo_guest_def demo_published_def demo_rotated_def
    by (rule rtranclp.rtrancl_into_rtrancl, rule rtranclp.rtrancl_into_rtrancl,
        rule r_into_rtranclp, rule ta_step_fst(5) [OF len], rule ta_step_fst(3), rule ta_step_fst(4))
  show "(ta_step sample_kdf)\<^sup>*\<^sup>* demo_off demo_on"
    unfolding demo_on_def
    by (rule rtranclp.rtrancl_into_rtrancl, rule r_into_rtranclp, rule ta_step_fst(1), rule ta_step_fst(2))
  show "(ta_step sample_kdf)\<^sup>*\<^sup>* demo_on demo_requested"
    unfolding demo_requested_def by (intro r_into_rtranclp ta_step.ta_invalidate)
  show "(ta_step sample_kdf)\<^sup>*\<^sup>* demo_requested demo_again"
    unfolding demo_again_def
    by (rule rtranclp.rtrancl_into_rtrancl, rule r_into_rtranclp, rule ta_step_fst(5) [OF len], rule ta_step_fst(3))
qed

lemma demo_values:
  "ta_password demo_guest = Some ''ABCDEFGH''"
  "epoch_begin True (ta_operation_epoch demo_guest) = (ta_operation_epoch demo_off, Ok 1)"
  "has_guest_session ''old'' demo_again"
  "snd (authorize_guest ''new'' (sample_authority 2) ''d'' False 4000 True 7 demo_again)"
  "snd (temporary_secret 4000 True demo_again) = Some ''ABCDEFGH''"
  "ta_generation demo_on = 1" "ta_generation demo_again = 2"
  by code_simp+

section \<open>Properties\<close>

text \<open>
  C33. Custody of the password, in every state any sequence of calls can reach: it is either absent
  together with its salt and verifier, or it is eight characters of the alphabet, its salt has 16
  bytes, the verifier is PBKDF2 of the password and that salt with 600000 iterations, temporary
  access is enabled and a lease is set.  A published generation is the current one, and there are
  never more than 128 guests.
\<close>

theorem temporary_credentials_typed:
  assumes "(ta_step kdf)\<^sup>*\<^sup>* temporary_access_default s"
  shows "(case ta_password s of
      None \<Rightarrow> ta_salt s = None \<and> ta_verifier s = None
    | Some p \<Rightarrow> length p = 8 \<and> set p \<subseteq> set ''ABCDEFGHJKLMNPQRSTUVWXYZ23456789'' \<and> ta_enabled s \<and>
        ta_expires_at_ms s \<noteq> None \<and>
        (\<exists>salt. ta_salt s = Some salt \<and> length salt = 16 \<and> ta_verifier s = Some (kdf 600000 salt (as_bytes p)))) \<and>
    ta_published_generation s \<in> {None, Some (ta_generation s)} \<and>
    distinct (guest_session_ids s) \<and> length (guest_session_ids s) \<le> 128"
proof -
  have inv: "ta_inv kdf s" by (rule ta.reachable_inv [OF refl assms])
  then have cred: "credentials_ok kdf s" and rest: "lease_ok s" "guests_ok s" by (simp_all add: ta_inv_def)
  from rest have "ta_published_generation s \<in> {None, Some (ta_generation s)}"
    "distinct (guest_session_ids s) \<and> length (guest_session_ids s) \<le> 128"
    by (auto simp: lease_ok_def guests_ok_def guest_session_ids_def bt_wf_distinct)
  with cred show ?thesis
    unfolding credentials_ok_def PASSWORD_ALPHABET_def PASSWORD_ITERATIONS_def by simp
qed

theorem temporary_credentials_typed_witness:
  "(ta_step sample_kdf)\<^sup>*\<^sup>* temporary_access_default demo_guest \<and> ta_password demo_guest = Some ''ABCDEFGH'' \<and>
   (\<exists>salt. ta_salt demo_guest = Some salt \<and> length salt = 16 \<and>
      ta_verifier demo_guest = Some (sample_kdf 600000 salt (as_bytes ''ABCDEFGH'')))"
  using temporary_credentials_typed [OF demo_steps(1)] demo_steps(1) by (simp add: demo_values(1))

text \<open>
  C4. A disable intent fences every guest, under all later interleavings.  Take any reachable state and
  a disable intent with epoch \<open>e\<close>, and any state reached from there: if a guest is authorized then
  temporary access has been enabled again, and the guest is bound to the authority and commitment it
  presented and was admitted after \<open>e\<close>; and the sessions that the disable handler revokes, those
  admitted before \<open>e\<close>, are exactly the guests in the table that were not admitted after it.
\<close>

theorem temporary_disable_fences_guests:
  assumes "(ta_step kdf)\<^sup>*\<^sup>* temporary_access_default s"
    and "epoch_begin True (ta_operation_epoch s) = (lk, Ok e)"
    and "(ta_step kdf)\<^sup>*\<^sup>* (with_operation_epoch lk s) t"
  shows "(\<forall>sid a c ap now online auth u.
      authorize_guest sid a c ap now online auth t = (u, True) \<longrightarrow>
      temporary_enabled t \<and> (\<exists>ap' x. map_of (ta_guest_sessions u) sid = Some (a, c, ap', x) \<and> e < x)) \<and>
    set (guest_session_ids_before_epoch e t) =
      {sid. \<exists>a c ap x. map_of (ta_guest_sessions t) sid = Some (a, c, ap, x) \<and> \<not> e < x}"
proof -
  have "ta_inv kdf s" by (rule ta.reachable_inv [OF refl assms(1)])
  from fenced.steps_inv [OF assms(3) fence_raised [OF this assms(2)]] have f: "fence e t" .
  then have wf: "bt_wf (ta_guest_sessions t)" 
    and ne: "\<And>sid a c ap x. (sid, a, c, ap, x) \<in> set (ta_guest_sessions t) \<Longrightarrow> x \<noteq> e"
    by (fastforce simp: fence_def guests_ok_def)+
  have "sid \<in> set (guest_session_ids_before_epoch e t) \<longleftrightarrow>
      (\<exists>a c ap x. map_of (ta_guest_sessions t) sid = Some (a, c, ap, x) \<and> \<not> e < x)" for sid
    unfolding bt.get_entries [OF wf] guest_session_ids_before_epoch_def
    using ne by (force simp: not_less order.order_iff_strict)
  with authorized_beyond_fence [OF f] show ?thesis by blast
qed

theorem temporary_disable_fences_guests_witness:
  "(ta_step sample_kdf)\<^sup>*\<^sup>* temporary_access_default demo_guest \<and>
   epoch_begin True (ta_operation_epoch demo_guest) = (ta_operation_epoch demo_off, Ok 1) \<and>
   (ta_step sample_kdf)\<^sup>*\<^sup>* demo_off demo_again \<and>
   guest_session_ids_before_epoch 1 demo_again = [''old''] \<and>
   (\<exists>u ap x. authorize_guest ''new'' (sample_authority 2) ''d'' False 4000 True 7 demo_again = (u, True) \<and>
      map_of (ta_guest_sessions u) ''new'' = Some (sample_authority 2, ''d'', ap, x) \<and> 1 < x)"
proof -
  have off: "with_operation_epoch (ta_operation_epoch demo_off) demo_guest = demo_off"
    by (simp add: demo_off_def with_operation_epoch_def)
  have run: "(ta_step sample_kdf)\<^sup>*\<^sup>* demo_off demo_again"
    using demo_steps(2-4) by (meson rtranclp_trans)
  then have run': "(ta_step sample_kdf)\<^sup>*\<^sup>* (with_operation_epoch (ta_operation_epoch demo_off) demo_guest) demo_again"
    by (simp only: off)
  obtain u where u: "authorize_guest ''new'' (sample_authority 2) ''d'' False 4000 True 7 demo_again = (u, True)"
    using demo_values(4) by (metis prod.collapse)
  have ids: "guest_session_ids_before_epoch 1 demo_again = [''old'']" by code_simp
  from temporary_disable_fences_guests [OF demo_steps(1) demo_values(2) run'] u
  have "\<exists>ap x. map_of (ta_guest_sessions u) ''new'' = Some (sample_authority 2, ''d'', ap, x) \<and> 1 < x" by blast
  with u ids run demo_steps(1) demo_values(2) show ?thesis by blast
qed

text \<open>
  C34. One generation has one secret, and a requested rotation hides it at once.  Along any sequence of
  calls the generation never decreases; two states of the same generation that both hold a password
  hold the same password, salt and verifier; and after a rotation was requested the password is
  shown only once the generation has moved on.
\<close>

theorem temporary_generation_secret:
  assumes "(ta_step kdf)\<^sup>*\<^sup>* s t"
  shows "ta_generation s \<le> ta_generation t \<and>
    (\<forall>u. (ta_step kdf)\<^sup>*\<^sup>* t u \<and> ta_generation u = ta_generation t \<and> ta_password u \<noteq> None \<longrightarrow>
      ta_password u = ta_password t \<and> ta_salt u = ta_salt t \<and> ta_verifier u = ta_verifier t) \<and>
    (s = invalidate_publication r \<and> snd (temporary_secret now online t) \<noteq> None \<longrightarrow>
      ta_generation r < ta_generation t)"
proof -
  have "ta_password u = ta_password t \<and> ta_salt u = ta_salt t \<and> ta_verifier u = ta_verifier t"
    if "(ta_step kdf)\<^sup>*\<^sup>* t u" "ta_generation u = ta_generation t" "ta_password u \<noteq> None" for u
    using same_secret_steps [OF that(1)] that(2,3) by (simp add: same_secret_def)
  moreover have "ta_generation r < ta_generation t"
    if "s = invalidate_publication r" "snd (temporary_secret now online t) \<noteq> None"
  proof -
    have "withheld (ta_generation r) s" "ta_generation s = ta_generation r"
      using that by (simp_all add: withheld_def invalidate_publication_def)
    with withheld_steps [OF assms] generation_mono [OF assms] that(2) show ?thesis
      using withheld_hidden [of "ta_generation r" t now online "fst (temporary_secret now online t)"]
      by (cases "temporary_secret now online t") force
  qed
  ultimately show ?thesis using generation_mono [OF assms] by blast
qed

theorem temporary_generation_secret_witness:
  "(ta_step sample_kdf)\<^sup>*\<^sup>* demo_requested demo_again \<and> demo_requested = invalidate_publication demo_on \<and>
   snd (temporary_secret 4000 True demo_again) \<noteq> None \<and> ta_generation demo_on < ta_generation demo_again"
  using temporary_generation_secret [OF demo_steps(4), of demo_on 4000 True] demo_steps(4) demo_values(5)
  by (simp add: demo_requested_def)

text \<open>
  C35. The authentication version of a device token is read exactly when the token has at most 4096
  bytes and three dot-separated parts, the middle part decodes to a JSON object in which no key
  occurs twice, the token type and the role are \<open>device\<close>, and the version is a positive 63-bit number;
  a repeated claim is refused whatever its value.
\<close>

theorem decoded_auth_version_exact:
  "decoded_auth_version base64 parse_object token = Some version \<longleftrightarrow>
     length token \<le> 4096 \<and>
     (\<exists>a b c payload entries. split_dots token = [a, b, c] \<and> base64 b = Some payload \<and>
        parse_object payload = Some entries \<and> distinct (map fst entries) \<and>
        (''token_type'', ClaimString ''device'') \<in> set entries \<and> (''role'', ClaimString ''device'') \<in> set entries \<and>
        (''auth_version'', ClaimU64 version) \<in> set entries \<and> 0 < version \<and> version \<le> i64_max)"
proof -
  have get: "map_of (fold (\<lambda>(k, v). bt_insert k v) entries []) k = Some v \<longleftrightarrow> (k, v) \<in> set entries"
    if "distinct (map fst entries)" for k v and entries :: "(string \<times> claim_value) list"
    using that by (simp add: map_of_claims)
  have str: "claim_str k m = Some w \<longleftrightarrow> map_of m k = Some (ClaimString w)"
    and num: "claim_u64 k m = Some n \<longleftrightarrow> map_of m k = Some (ClaimU64 n)" for k m w n
    by (auto simp: claim_str_def claim_u64_def split: option.splits claim_value.splits)
  have opt: "(case c of None \<Rightarrow> None | Some x \<Rightarrow> f x) = Some w \<longleftrightarrow> (\<exists>x. c = Some x \<and> f x = Some w)"
    for c :: "'a option" and f and w :: 'b
    by (cases c) simp_all
  have grd: "(if b then None else x) = Some w \<longleftrightarrow> \<not> b \<and> x = Some w" "(if b then x else None) = Some w \<longleftrightarrow> b \<and> x = Some w"
    for b and x :: "'c option" and w by simp_all
  show ?thesis
    unfolding decoded_auth_version_def
    by (auto simp: opt grd unique_claims_eq str num get not_less bind_eq_Some_conv word_gt_0 split: list.splits)
qed

end
