(* ===== verification/Temporary_Publication.thy ===== *)
theory Temporary_Publication
  imports Temporary_Access
begin

text \<open>
  Publication of the temporary password (\<open>mrd-service/src/public_connection/temporary.rs\<close> and
  \<open>temporary_access_http.rs\<close>): the HTTP response checks, the \<open>update\<close> routine and the \<open>rotate\<close> and
  \<open>disable\<close> handlers and the background task that call it.

  \<open>update\<close> waits at seven places (the password's lock five times, the metadata request and the
  publication request), and other tasks run in between.  Each stretch between two waits is one
  definition, from the \<open>update_point\<close> it resumes at to the next; the operation lock admits one
  \<open>update\<close> at a time.  A stretch is atomic.  Parameters: the HTTP exchange, \<open>serde_json\<close>, the URL
  parser, the clock and what \<open>Temporary_Access\<close> takes.
\<close>

section \<open>HTTP responses\<close>

definition RESPONSE_LIMIT :: nat where "RESPONSE_LIMIT = 16 * 1024"

record http_response =
  hr_success :: bool
  hr_content_length :: "u64 option"
  hr_chunks :: "bytes option list"

text \<open>A chunk that is \<open>None\<close> is a transport error; after the last chunk the body is complete.\<close>

fun read_body :: "bytes option list \<Rightarrow> bytes \<Rightarrow> (bytes, string) result" where
  "read_body [] body = Ok body"
| "read_body (None # chunks) body = Err ''temporary_response_interrupted''"
| "read_body (Some chunk # chunks) body =
     (if length chunk > RESPONSE_LIMIT - length body then Err ''temporary_response_invalid''
      else read_body chunks (body @ chunk))"

definition http_status ::
  "(bytes \<Rightarrow> temporary_access_status option) \<Rightarrow> http_response \<Rightarrow> (temporary_access_status, string) result" where
  "http_status from_json response =
     (if \<not> hr_success response then Err ''temporary_publication_rejected''
      else if (case hr_content_length response of None \<Rightarrow> False | Some n \<Rightarrow> n > of_nat RESPONSE_LIMIT)
      then Err ''temporary_response_invalid''
      else and_then (read_body (hr_chunks response) []) (\<lambda>body.
        (case from_json body of
           None \<Rightarrow> Err ''temporary_response_invalid''
         | Some status \<Rightarrow>
             if ts_generation status > i64_max
                \<or> ts_ready status \<and> (\<not> ts_enabled status \<or> ts_expires_at_ms status = None)
                \<or> (case ts_reason status of None \<Rightarrow> False | Some reason \<Rightarrow> length reason > 128)
             then Err ''temporary_response_invalid''
             else Ok status)))"

section \<open>Configuration\<close>

record registration =
  reg_device_id :: string
  reg_device_name :: string
  reg_access_token :: string
  reg_refresh_token :: "string option"
  reg_api_url :: string
  reg_machine_serial :: string

record parsed_url =
  pu_scheme :: string
  pu_host :: "string option"
  pu_username :: string
  pu_password :: "string option"
  pu_query :: "string option"
  pu_fragment :: "string option"

record 'kp publication_env =
  pe_kdf :: key_derivation
  pe_crypto :: "'kp crypto_suite"
  pe_identity :: device_identity
  pe_to_json :: "temporary_access_document \<Rightarrow> string option"
  pe_base64 :: "string \<Rightarrow> bytes option"
  pe_parse_object :: "bytes \<Rightarrow> (string \<times> claim_value) list option"
  pe_parse_url :: "string \<Rightarrow> parsed_url option"
  pe_client :: bool

text \<open>The part of \<open>PublicConnectionState\<close> these handlers use; a poisoned \<open>api_url\<close> lock is \<open>None\<close>.\<close>

record public_connection =
  pc_temporary :: temporary_access_state
  pc_temporary_auth_version :: u64
  pc_registration :: "registration option"
  pc_api_url :: "string option"

definition DEFAULT_PUBLIC_API_URL :: string where
  "DEFAULT_PUBLIC_API_URL = ''https://175.178.16.90/rdesk/api/v1''"

definition public_connection_default :: public_connection where
  "public_connection_default =
     \<lparr>pc_temporary = with_operation_epoch epoch_default temporary_access_default,
      pc_temporary_auth_version = 0, pc_registration = None, pc_api_url = Some DEFAULT_PUBLIC_API_URL\<rparr>"

definition validate_api_url :: "(string \<Rightarrow> parsed_url option) \<Rightarrow> string \<Rightarrow> parsed_url option" where
  "validate_api_url parse url =
     (case parse url of
        None \<Rightarrow> None
      | Some u \<Rightarrow>
          if pu_scheme u = ''https'' \<and> pu_host u \<noteq> None \<and> pu_username u = [] \<and> pu_password u = None
             \<and> pu_query u = None \<and> pu_fragment u = None \<and> length url \<le> 2048
          then Some u else None)"

definition trim_end_slashes :: "string \<Rightarrow> string" where
  "trim_end_slashes s = rev (dropWhile (\<lambda>c. c = CHR ''/'') (rev s))"

definition endpoint ::
  "'kp publication_env \<Rightarrow> public_connection \<Rightarrow> registration \<Rightarrow> (string, string) result" where
  "endpoint env public saved =
     (case pc_api_url public of
        None \<Rightarrow> Err ''temporary_configuration_unavailable''
      | Some configured \<Rightarrow>
          if validate_api_url (pe_parse_url env) configured = None then Err ''temporary_origin_invalid''
          else if trim_end_slashes configured \<noteq> trim_end_slashes (reg_api_url saved)
          then Err ''temporary_origin_mismatch''
          else Ok (trim_end_slashes configured @ ''/devices/temporary-access''))"

definition device_auth_version :: "'kp publication_env \<Rightarrow> public_connection \<Rightarrow> u64 option" where
  "device_auth_version env public =
     (case pc_registration public of
        None \<Rightarrow> None
      | Some saved \<Rightarrow> decoded_auth_version (pe_base64 env) (pe_parse_object env) (reg_access_token saved))"

definition check_epoch :: "u64 \<Rightarrow> public_connection \<Rightarrow> (unit, string) result" where
  "check_epoch epoch public =
     (if is_current epoch (ta_operation_epoch (pc_temporary public)) then Ok ()
      else Err ''temporary_publication_superseded'')"

section \<open>The update routine\<close>

record update_context =
  uc_force_rotate :: bool
  uc_disable :: bool
  uc_epoch :: u64
  uc_saved :: registration
  uc_auth :: u64
  uc_url :: string
  uc_now :: u64

datatype update_point =
    UFirst update_context
  | USecond update_context bool
  | UMetadata update_context bool
  | UApply update_context bool temporary_access_status
  | UDocument update_context
  | UPublish update_context temporary_access_document temporary_publication_proof
  | UMark update_context temporary_access_document temporary_access_status
  | UDone "(unit, string) result"

definition with_temporary :: "temporary_access_state \<Rightarrow> public_connection \<Rightarrow> public_connection" where
  "with_temporary local public = public\<lparr>pc_temporary := local\<rparr>"

text \<open>From the operation lock to the first wait for the password's lock.\<close>

definition update_begin ::
  "'kp publication_env \<Rightarrow> bool \<Rightarrow> bool \<Rightarrow> u64 \<Rightarrow> u64 \<Rightarrow> public_connection \<Rightarrow> update_point" where
  "update_begin env force_rotate disable epoch now public =
     (case check_epoch epoch public of
        Err e \<Rightarrow> UDone (Err e)
      | Ok _ \<Rightarrow>
          (case pc_registration public of
             None \<Rightarrow> UDone (Err ''temporary_device_unregistered'')
           | Some saved \<Rightarrow>
               (case decoded_auth_version (pe_base64 env) (pe_parse_object env) (reg_access_token saved) of
                  None \<Rightarrow> UDone (Err ''temporary_device_credential_invalid'')
                | Some auth \<Rightarrow>
                    (case endpoint env public saved of
                       Err e \<Rightarrow> UDone (Err e)
                     | Ok url \<Rightarrow>
                         if \<not> pe_client env then UDone (Err ''temporary_http_unavailable'')
                         else UFirst \<lparr>uc_force_rotate = force_rotate, uc_disable = disable, uc_epoch = epoch,
                                uc_saved = saved, uc_auth = auth, uc_url = url, uc_now = now\<rparr>))))"

definition update_first :: "update_context \<Rightarrow> public_connection \<Rightarrow> update_point" where
  "update_first ctx public =
     (let local = pc_temporary public in
      case check_epoch (uc_epoch ctx) public of
        Err e \<Rightarrow> UDone (Err e)
      | Ok _ \<Rightarrow>
          if \<not> uc_force_rotate ctx \<and> \<not> uc_disable ctx \<and> \<not> temporary_enabled local
             \<and> \<not> needs_publication local \<and> publication_epoch_current local
          then UDone (Ok ())
          else USecond ctx (uc_disable ctx \<or> (\<not> uc_force_rotate ctx \<and> \<not> temporary_enabled local)))"

definition update_second :: "update_context \<Rightarrow> bool \<Rightarrow> public_connection \<Rightarrow> update_point" where
  "update_second ctx needs_disable public =
     (let local = pc_temporary public in
      case check_epoch (uc_epoch ctx) public of
        Err e \<Rightarrow> UDone (Err e)
      | Ok _ \<Rightarrow>
          if (uc_force_rotate ctx \<or> needs_rotation (uc_now ctx) local \<or> \<not> publication_epoch_current local
              \<or> pc_temporary_auth_version public \<noteq> uc_auth ctx) \<or> needs_disable
          then UMetadata ctx needs_disable else UDocument ctx)"

text \<open>The answer to the metadata request, then the generation under the lock.\<close>

definition update_metadata ::
  "update_context \<Rightarrow> bool \<Rightarrow> (temporary_access_status, string) result \<Rightarrow> public_connection \<Rightarrow> update_point" where
  "update_metadata ctx needs_disable answer public =
     (case answer of
        Err e \<Rightarrow> UDone (Err e)
      | Ok remote \<Rightarrow>
          (case check_epoch (uc_epoch ctx) public of
             Err e \<Rightarrow> UDone (Err e)
           | Ok _ \<Rightarrow>
               if ts_generation remote > i64_max then UDone (Err ''temporary_generation_invalid'')
               else UApply ctx needs_disable remote))"

definition next_generation :: "u64 \<Rightarrow> u64 \<Rightarrow> (u64, string) result" where
  "next_generation mine remote = ok_or ''temporary_generation_invalid'' (checked_add (max mine remote) 1)"

definition update_apply ::
  "'kp publication_env \<Rightarrow> bytes option \<Rightarrow> update_context \<Rightarrow> bool \<Rightarrow> temporary_access_status \<Rightarrow> public_connection
   \<Rightarrow> public_connection \<times> update_point" where
  "update_apply env random ctx needs_disable remote public =
     (case check_epoch (uc_epoch ctx) public of
        Err e \<Rightarrow> (public, UDone (Err e))
      | Ok _ \<Rightarrow>
          (case apply_operation_epoch (uc_epoch ctx) (pc_temporary public) of
             (local, Err e) \<Rightarrow> (with_temporary local public, UDone (Err e))
           | (local, Ok _) \<Rightarrow>
               if \<not> uc_force_rotate ctx \<and> \<not> uc_disable ctx \<and> ta_generation local = 0
                  \<and> ts_generation remote > 0 \<and> \<not> ts_enabled remote
               then (case temporary_disable (ts_generation remote) local of
                       (local, Err e) \<Rightarrow> (with_temporary local public, UDone (Err e))
                     | (local, Ok _) \<Rightarrow>
                         ((with_temporary (fst (mark_published (ts_generation remote) (ts_expires_at_ms remote) local)) public)
                            \<lparr>pc_temporary_auth_version := uc_auth ctx\<rparr>, UDone (Ok ())))
               else (case next_generation (ta_generation local) (ts_generation remote) of
                       Err e \<Rightarrow> (with_temporary local public, UDone (Err e))
                     | Ok generation \<Rightarrow>
                         (case (if needs_disable then temporary_disable generation local
                                else temporary_rotate (pe_kdf env) random generation (uc_now ctx) local) of
                            (local, Err e) \<Rightarrow> (with_temporary local public, UDone (Err e))
                          | (local, Ok _) \<Rightarrow> (with_temporary local public, UDocument ctx)))))"

text \<open>The document under the lock, then its proof.\<close>

definition update_document ::
  "'kp publication_env \<Rightarrow> update_context \<Rightarrow> public_connection \<Rightarrow> public_connection \<times> update_point" where
  "update_document env ctx public =
     (case check_epoch (uc_epoch ctx) public of
        Err e \<Rightarrow> (public, UDone (Err e))
      | Ok _ \<Rightarrow>
          (case apply_operation_epoch (uc_epoch ctx) (pc_temporary public) of
             (local, Err e) \<Rightarrow> (with_temporary local public, UDone (Err e))
           | (local, Ok _) \<Rightarrow>
               (case renew_publication (uc_now ctx) local of
                  (local, Err e) \<Rightarrow> (with_temporary local public, UDone (Err e))
                | (local, Ok _) \<Rightarrow>
                    if \<not> needs_publication local then (with_temporary local public, UDone (Ok ()))
                    else (case access_document (reg_device_id (uc_saved ctx)) (uc_auth ctx) local of
                       Err e \<Rightarrow> (with_temporary local public, UDone (Err e))
                     | Ok doc \<Rightarrow>
                         (case signed_publication (pe_crypto env) (pe_to_json env) (pe_identity env) (uc_url ctx) doc of
                            Err e \<Rightarrow> (with_temporary local public, UDone (Err e))
                          | Ok pf \<Rightarrow> (with_temporary local public, UPublish ctx doc pf))))))"

definition ack_matches :: "temporary_access_document \<Rightarrow> temporary_access_status \<Rightarrow> bool" where
  "ack_matches doc ack \<longleftrightarrow>
     \<not> (ts_enabled ack \<noteq> td_enabled doc \<or> ts_generation ack \<noteq> td_generation doc
        \<or> ts_expires_at_ms ack \<noteq> td_expires_at_ms doc \<or> (td_enabled doc \<and> \<not> ts_ready ack))"

definition update_publish ::
  "update_context \<Rightarrow> temporary_access_document \<Rightarrow> (temporary_access_status, string) result \<Rightarrow> public_connection
   \<Rightarrow> update_point" where
  "update_publish ctx doc answer public =
     (case answer of
        Err e \<Rightarrow> UDone (Err e)
      | Ok ack \<Rightarrow>
          (case check_epoch (uc_epoch ctx) public of
             Err e \<Rightarrow> UDone (Err e)
           | Ok _ \<Rightarrow>
               if \<not> ack_matches doc ack then UDone (Err ''temporary_publication_binding_mismatch'')
               else UMark ctx doc ack))"

definition update_mark ::
  "update_context \<Rightarrow> temporary_access_document \<Rightarrow> public_connection \<Rightarrow> public_connection \<times> update_point" where
  "update_mark ctx doc public =
     (case check_epoch (uc_epoch ctx) public of
        Err e \<Rightarrow> (public, UDone (Err e))
      | Ok _ \<Rightarrow>
          if temporary_enabled (pc_temporary public) \<noteq> td_enabled doc
          then (public, UDone (Err ''temporary_publication_superseded''))
          else (case mark_published (td_generation doc) (td_expires_at_ms doc) (pc_temporary public) of
                  (local, False) \<Rightarrow>
                    (with_temporary local public, UDone (Err ''temporary_publication_superseded''))
                | (local, True) \<Rightarrow>
                    ((with_temporary local public)\<lparr>pc_temporary_auth_version := uc_auth ctx\<rparr>, UDone (Ok ()))))"

section \<open>The handlers\<close>

definition begin_operation :: "bool \<Rightarrow> public_connection \<Rightarrow> public_connection \<times> (u64, string) result" where
  "begin_operation disable public =
     (case epoch_begin disable (ta_operation_epoch (pc_temporary public)) of
        (lk, r) \<Rightarrow> (with_temporary (with_operation_epoch lk (pc_temporary public)) public, r))"

definition rotate_prologue :: "u64 \<Rightarrow> public_connection \<Rightarrow> public_connection \<times> (unit, string) result" where
  "rotate_prologue epoch public =
     (case apply_operation_epoch epoch (pc_temporary public) of
        (local, Err e) \<Rightarrow> (with_temporary local public, Err e)
      | (local, Ok _) \<Rightarrow> (with_temporary (invalidate_publication local) public, Ok ()))"

definition disable_prologue ::
  "u64 \<Rightarrow> public_connection \<Rightarrow> public_connection \<times> (string list, string) result" where
  "disable_prologue epoch public =
     (if is_current epoch (ta_operation_epoch (pc_temporary public))
      then (case apply_operation_epoch epoch (pc_temporary public) of
              (local, Err e) \<Rightarrow> (with_temporary local public, Err e)
            | (local, Ok _) \<Rightarrow>
                (with_temporary (temporary_freeze local) public,
                 Ok (guest_session_ids_before_epoch epoch (temporary_freeze local))))
      else (public, Ok (guest_session_ids_before_epoch epoch (pc_temporary public))))"

text \<open>When the background task stops it disables temporary access.\<close>

definition shutdown_epilogue :: "u64 \<Rightarrow> public_connection \<Rightarrow> public_connection" where
  "shutdown_epilogue epoch public =
     (case apply_operation_epoch epoch (pc_temporary public) of
        (local, Ok _) \<Rightarrow> with_temporary (temporary_freeze local) public
      | (local, Err _) \<Rightarrow> with_temporary local public)"

section \<open>An uninterrupted run\<close>

text \<open>
  The routine with nothing in between: \<open>update_next\<close> resumes it once, with the given random bytes,
  metadata answer and server, and the clock standing still.  It waits at most seven times, so seven
  resumptions finish it.
\<close>

type_synonym publish_server =
  "temporary_access_document \<Rightarrow> temporary_publication_proof \<Rightarrow> (temporary_access_status, string) result"

fun update_next ::
  "'kp publication_env \<Rightarrow> bytes option \<Rightarrow> (temporary_access_status, string) result \<Rightarrow> publish_server
   \<Rightarrow> update_point \<times> public_connection \<Rightarrow> update_point \<times> public_connection" where
  "update_next env random answer server (UFirst x, c) = (update_first x c, c)"
| "update_next env random answer server (USecond x nd, c) = (update_second x nd c, c)"
| "update_next env random answer server (UMetadata x nd, c) = (update_metadata x nd answer c, c)"
| "update_next env random answer server (UApply x nd remote, c) = prod.swap (update_apply env random x nd remote c)"
| "update_next env random answer server (UDocument x, c) = prod.swap (update_document env x c)"
| "update_next env random answer server (UPublish x doc pf, c) = (update_publish x doc (server doc pf) c, c)"
| "update_next env random answer server (UMark x doc ack, c) = prod.swap (update_mark x doc c)"
| "update_next env random answer server (UDone r, c) = (UDone r, c)"

definition rotate_handler ::
  "'kp publication_env \<Rightarrow> bytes option \<Rightarrow> (temporary_access_status, string) result \<Rightarrow> publish_server \<Rightarrow> u64 \<Rightarrow> bool
   \<Rightarrow> public_connection \<Rightarrow> public_connection \<times> (temporary_access_status, string) result" where
  "rotate_handler env random answer server now online c =
     (case begin_operation False c of
        (c, Err e) \<Rightarrow> (c, Err e)
      | (c, Ok epoch) \<Rightarrow>
          (case rotate_prologue epoch c of
             (c, Err e) \<Rightarrow> (c, Err e)
           | (c, Ok _) \<Rightarrow>
               (case (update_next env random answer server ^^ 7) (update_begin env True False epoch now c, c) of
                  (UDone (Inl e), c) \<Rightarrow> (c, Err e)
                | (_, c) \<Rightarrow>
                    (case check_epoch epoch c of
                       Err e \<Rightarrow> (c, Err e)
                     | Ok _ \<Rightarrow> (c, Ok (temporary_status now online (pc_temporary c)))))))"

section \<open>Steps\<close>

text \<open>
  Any interleaving of the handlers, the background task and the guests' requests.  The state keeps the
  public connection, the point the running \<open>update\<close> waits at, and the history of the documents whose
  acknowledgement the server returned.  A handler's epoch is a parameter of every rule, so that a
  handler may have been started long before.  A stopped task drops its \<open>update\<close> at any wait.
\<close>

type_synonym tp_state =
  "public_connection \<times> update_point option \<times> (temporary_access_document \<times> temporary_access_status) list"

definition drawn :: "bytes option \<Rightarrow> bool" where
  "drawn random = (case random of None \<Rightarrow> True | Some entropy \<Rightarrow> length entropy = 24)"

inductive tp_step :: "'kp publication_env \<Rightarrow> tp_state \<Rightarrow> tp_state \<Rightarrow> bool" for env where
  tp_begin: "begin_operation d c = (c', r) \<Longrightarrow> tp_step env (c, u, h) (c', u, h)"
| tp_rotate: "rotate_prologue e c = (c', q) \<Longrightarrow> tp_step env (c, u, h) (c', u, h)"
| tp_disable: "disable_prologue e c = (c', p) \<Longrightarrow> tp_step env (c, u, h) (c', u, h)"
| tp_shutdown: "tp_step env (c, u, h) (shutdown_epilogue e c, u, h)"
| tp_update: "tp_step env (c, None, h) (c, Some (update_begin env force dis e now c), h)"
| tp_first: "tp_step env (c, Some (UFirst x), h) (c, Some (update_first x c), h)"
| tp_second: "tp_step env (c, Some (USecond x nd), h) (c, Some (update_second x nd c), h)"
| tp_metadata: "tp_step env (c, Some (UMetadata x nd), h) (c, Some (update_metadata x nd answer c), h)"
| tp_apply: "drawn random \<Longrightarrow> update_apply env random x nd remote c = (c', pt) \<Longrightarrow>
    tp_step env (c, Some (UApply x nd remote), h) (c', Some pt, h)"
| tp_document: "update_document env x c = (c', pt) \<Longrightarrow>
    tp_step env (c, Some (UDocument x), h) (c', Some pt, h)"
| tp_publish: "tp_step env (c, Some (UPublish x doc pf), h)
    (c, Some (update_publish x doc answer c), h @ (case answer of Inl _ \<Rightarrow> [] | Inr ack \<Rightarrow> [(doc, ack)]))"
| tp_mark: "update_mark x doc c = (c', pt) \<Longrightarrow>
    tp_step env (c, Some (UMark x doc ack), h) (c', Some pt, h)"
| tp_release: "tp_step env (c, Some pt, h) (c, None, h)"
| tp_guest: "authorize_guest sid a b ap now online auth (pc_temporary c) = (l, ok) \<Longrightarrow>
    tp_step env (c, u, h) (with_temporary l c, u, h)"
| tp_forget: "tp_step env (c, u, h) (with_temporary (forget_guest_session sid (pc_temporary c)) c, u, h)"
| tp_configure: "tp_step env (c, u, h) (c\<lparr>pc_registration := reg, pc_api_url := url\<rparr>, u, h)"

section \<open>Published documents fit the state\<close>

text \<open>
  A document fits a state when it is of an earlier generation, or of the same one and then is enabled
  and carries the state's salt and verifier unless the password is gone.
\<close>

definition doc_fits :: "temporary_access_state \<Rightarrow> temporary_access_document \<Rightarrow> bool" where
  "doc_fits s doc \<longleftrightarrow> td_generation doc \<le> ta_generation s \<and>
     (td_generation doc = ta_generation s \<and> ta_password s \<noteq> None \<longrightarrow> td_enabled doc \<and>
        td_salt doc = map_option hex_string (ta_salt s) \<and> td_verifier doc = map_option hex_string (ta_verifier s))"

definition pending_docs :: "update_point option \<Rightarrow> temporary_access_document list" where
  "pending_docs u =
     (case u of Some (UPublish _ doc _) \<Rightarrow> [doc] | Some (UMark _ doc _) \<Rightarrow> [doc] | _ \<Rightarrow> [])"

definition acknowledged ::
  "(temporary_access_document \<times> temporary_access_status) list \<Rightarrow> u64 \<Rightarrow> u64 option \<Rightarrow> bool" where
  "acknowledged h g x \<longleftrightarrow> (\<exists>(doc, ack) \<in> set h. ack_matches doc ack \<and> td_enabled doc \<and>
     td_generation doc = g \<and> td_expires_at_ms doc = x)"

definition lease_acknowledged ::
  "temporary_access_state \<Rightarrow> (temporary_access_document \<times> temporary_access_status) list \<Rightarrow> bool" where
  "lease_acknowledged s h \<longleftrightarrow> (\<forall>g. ta_published_generation s = Some g \<and> ta_password s \<noteq> None \<longrightarrow>
     ta_published_expires_at_ms s \<noteq> None \<and> acknowledged h g (ta_published_expires_at_ms s))"

definition mark_ready :: "update_point option \<Rightarrow> (temporary_access_document \<times> temporary_access_status) list \<Rightarrow> bool" where
  "mark_ready u h \<longleftrightarrow> (\<forall>x doc ack. u = Some (UMark x doc ack) \<longrightarrow> (doc, ack) \<in> set h \<and> ack_matches doc ack)"

definition tp_inv :: "'kp publication_env \<Rightarrow> tp_state \<Rightarrow> bool" where
  "tp_inv env w \<longleftrightarrow> (case w of (c, u, h) \<Rightarrow>
     ta_inv (pe_kdf env) (pc_temporary c) \<and> lease_acknowledged (pc_temporary c) h \<and> mark_ready u h \<and>
     list_all (doc_fits (pc_temporary c)) (pending_docs u @ map fst h))"

text \<open>
  The steps on the password state other than \<open>mark_published\<close> either keep the published lease and the
  password or drop one of them.
\<close>

definition lease_kept :: "temporary_access_state \<Rightarrow> temporary_access_state \<Rightarrow> bool" where
  "lease_kept s t \<longleftrightarrow> ta_published_generation t = None \<or> ta_password t = None \<or>
     (ta_published_generation t, ta_published_expires_at_ms t, ta_password t)
       = (ta_published_generation s, ta_published_expires_at_ms s, ta_password s)"

definition quiet :: "key_derivation \<Rightarrow> temporary_access_state \<Rightarrow> temporary_access_state \<Rightarrow> bool" where
  "quiet kdf s t \<longleftrightarrow> (ta_step kdf)\<^sup>*\<^sup>* s t \<and> lease_kept s t"

lemma quiet_refl [simp]: "quiet kdf s s"
  by (simp add: quiet_def lease_kept_def)

lemma quiet_trans: "quiet kdf s t \<Longrightarrow> quiet kdf t u \<Longrightarrow> quiet kdf s u"
  unfolding quiet_def lease_kept_def by (auto intro: rtranclp_trans)

lemma quiet_steps:
  "quiet kdf s (with_operation_epoch (fst (epoch_begin d (ta_operation_epoch s))) s)"
  "quiet kdf s (fst (apply_operation_epoch e s))"
  "quiet kdf s (fst (temporary_disable g s))"
  "quiet kdf s (temporary_freeze s)"
  "quiet kdf s (invalidate_publication s)"
  "quiet kdf s (fst (renew_publication now s))"
  "quiet kdf s (forget_guest_session sid s)"
  "quiet kdf s (fst (authorize_guest sid a c ap now online auth s))"
  "drawn random \<Longrightarrow> quiet kdf s (fst (temporary_rotate kdf random g now s))"
proof -
  note st = r_into_rtranclp [of "ta_step kdf"]
  show "quiet kdf s (with_operation_epoch (fst (epoch_begin d (ta_operation_epoch s))) s)"
    unfolding quiet_def by (intro conjI st ta_step_fst) (simp add: lease_kept_def with_operation_epoch_def)
  show "quiet kdf s (fst (apply_operation_epoch e s))"
    unfolding quiet_def by (intro conjI st ta_step_fst) (simp add: lease_kept_def apply_operation_epoch_def)
  show "quiet kdf s (fst (temporary_disable g s))"
    unfolding quiet_def by (intro conjI st ta_step.ta_disable [OF prod.collapse [symmetric]])
      (simp add: lease_kept_def temporary_disable_def temporary_freeze_def split: sum.splits)
  show "quiet kdf s (temporary_freeze s)"
    unfolding quiet_def by (intro conjI st ta_step.ta_freeze) (simp add: lease_kept_def temporary_freeze_def)
  show "quiet kdf s (invalidate_publication s)"
    unfolding quiet_def by (intro conjI st ta_step.ta_invalidate) (simp add: lease_kept_def invalidate_publication_def)
  show "quiet kdf s (fst (renew_publication now s))"
    unfolding quiet_def by (intro conjI st ta_step.ta_renew [OF prod.collapse [symmetric]])
      (simp add: lease_kept_def renew_publication_def split: option.splits)
  show "quiet kdf s (forget_guest_session sid s)"
    unfolding quiet_def by (intro conjI st ta_step.ta_forget) (simp add: lease_kept_def forget_guest_session_def)
  obtain t b where au: "authorize_guest sid a c ap now online auth s = (t, b)" by (rule prod.exhaust)
  then have "lease_kept s t" by (cases rule: authorize_guest_cases) (simp_all add: lease_kept_def)
  with au st [OF ta_step.ta_authorize [OF au]] show "quiet kdf s (fst (authorize_guest sid a c ap now online auth s))"
    unfolding quiet_def by simp
  show "quiet kdf s (fst (temporary_rotate kdf random g now s))" if "drawn random"
    unfolding quiet_def
    by (intro conjI st ta_step.ta_rotate [OF _ prod.collapse [symmetric]])
      (use that in \<open>simp_all add: drawn_def lease_kept_def temporary_rotate_def Let_def split: option.splits sum.splits\<close>)
qed

text \<open>Every stretch of a handler moves the password state quietly, except the two that mark a publication.\<close>

lemma quiet_handlers:
  "begin_operation d c = (c', r) \<Longrightarrow> quiet kdf (pc_temporary c) (pc_temporary c')"
  "rotate_prologue e c = (c', q) \<Longrightarrow> quiet kdf (pc_temporary c) (pc_temporary c')"
  "disable_prologue e c = (c', p) \<Longrightarrow> quiet kdf (pc_temporary c) (pc_temporary c')"
  "quiet kdf (pc_temporary c) (pc_temporary (shutdown_epilogue e c))"
proof -
  note ap = quiet_steps(2) [of kdf "pc_temporary c" e]
  show "begin_operation d c = (c', r) \<Longrightarrow> quiet kdf (pc_temporary c) (pc_temporary c')"
    using quiet_steps(1) [of kdf "pc_temporary c" d]
    by (auto simp: begin_operation_def with_temporary_def split: prod.splits)
  show "rotate_prologue e c = (c', q) \<Longrightarrow> quiet kdf (pc_temporary c) (pc_temporary c')"
    using ap quiet_trans [OF ap quiet_steps(5)]
    by (auto simp: rotate_prologue_def with_temporary_def split: prod.splits sum.splits)
  show "disable_prologue e c = (c', p) \<Longrightarrow> quiet kdf (pc_temporary c) (pc_temporary c')"
    using ap quiet_trans [OF ap quiet_steps(4)]
    by (auto simp: disable_prologue_def with_temporary_def split: prod.splits sum.splits if_splits)
  show "quiet kdf (pc_temporary c) (pc_temporary (shutdown_epilogue e c))"
    using ap quiet_trans [OF ap quiet_steps(4)]
    by (auto simp: shutdown_epilogue_def with_temporary_def split: prod.splits sum.splits)
qed

lemma quiet_apply:
  assumes "update_apply env random x nd remote c = (c', pt)" "drawn random"
  shows "quiet (pe_kdf env) (pc_temporary c) (pc_temporary c')" "pending_docs (Some pt) = []"
    "mark_ready (Some pt) h"
proof -
  let ?kdf = "pe_kdf env" and ?s = "pc_temporary c"
  obtain l r where l: "apply_operation_epoch (uc_epoch x) ?s = (l, r)" by (rule prod.exhaust)
  have q: "quiet ?kdf ?s l" using quiet_steps(2) [of ?kdf ?s "uc_epoch x"] l by simp
  have dis: "quiet ?kdf ?s (fst (temporary_disable g l))" for g by (rule quiet_trans [OF q quiet_steps(3)])
  have rot: "quiet ?kdf ?s (fst (temporary_rotate ?kdf random g now l))" for g now
    by (rule quiet_trans [OF q quiet_steps(9) [OF assms(2)]])
  have mark: "quiet ?kdf ?s (fst (mark_published g y t))" if "temporary_disable g l = (t, Ok ())" for g y t
  proof -
    have "quiet ?kdf ?s t" using dis [of g] that by simp
    moreover have "ta_password (fst (mark_published g y t)) = None"
      using that by (auto simp: temporary_disable_def temporary_freeze_def mark_published_def split: sum.splits)
    moreover have "(ta_step ?kdf)\<^sup>*\<^sup>* t (fst (mark_published g y t))" by (intro r_into_rtranclp ta_step_fst)
    ultimately show ?thesis by (auto simp: quiet_def lease_kept_def)
  qed
  show "quiet ?kdf ?s (pc_temporary c')"
    using assms(1) q dis rot l unfolding update_apply_def
    by (auto simp: with_temporary_def split: if_splits sum.splits prod.splits dest: mark)
      (metis fst_conv)+
  show "pending_docs (Some pt) = []" "mark_ready (Some pt) h"
    using assms(1) l unfolding update_apply_def
    by (auto simp: pending_docs_def mark_ready_def split: if_splits sum.splits prod.splits)
qed

lemma access_document_fits: "access_document device auth s = Ok doc \<Longrightarrow> credentials_ok kdf s \<Longrightarrow> doc_fits s doc"
  by (auto simp: access_document_def doc_fits_def credentials_ok_def split: if_splits)

lemma quiet_document:
  assumes "update_document env x c = (c', pt)" "ta_inv kdf (pc_temporary c)"
  shows "quiet kdf (pc_temporary c) (pc_temporary c')" "list_all (doc_fits (pc_temporary c')) (pending_docs (Some pt))"
    "mark_ready (Some pt) h"
proof -
  let ?s = "pc_temporary c"
  obtain l r where l: "apply_operation_epoch (uc_epoch x) ?s = (l, r)" by (rule prod.exhaust)
  obtain m q where m: "renew_publication (uc_now x) l = (m, q)" by (rule prod.exhaust)
  have "quiet kdf ?s l" using quiet_steps(2) [of kdf ?s "uc_epoch x"] l by simp
  moreover from this have "quiet kdf ?s m" using quiet_trans quiet_steps(6) [of kdf l "uc_now x"] m by fastforce
  ultimately show q: "quiet kdf ?s (pc_temporary c')"
    using assms(1) l m unfolding update_document_def
    by (auto simp: with_temporary_def split: if_splits sum.splits)
  then have "credentials_ok kdf (pc_temporary c')"
    using ta.steps_inv [OF _ assms(2)] by (simp add: quiet_def ta_inv_def)
  then show "list_all (doc_fits (pc_temporary c')) (pending_docs (Some pt))"
    using assms(1) l m unfolding update_document_def
    by (auto simp: with_temporary_def pending_docs_def access_document_fits split: if_splits sum.splits)
  show "mark_ready (Some pt) h"
    using assms(1) l m unfolding update_document_def
    by (auto simp: mark_ready_def split: if_splits sum.splits)
qed

lemma no_docs:
  "pending_docs (Some (update_begin env f d e now c)) = []" "mark_ready (Some (update_begin env f d e now c)) h"
  "pending_docs (Some (update_first x c)) = []" "mark_ready (Some (update_first x c)) h"
  "pending_docs (Some (update_second x nd c)) = []" "mark_ready (Some (update_second x nd c)) h"
  "pending_docs (Some (update_metadata x nd answer c)) = []" "mark_ready (Some (update_metadata x nd answer c)) h"
  "pending_docs None = []" "mark_ready None h"
  by (auto simp: pending_docs_def mark_ready_def update_begin_def update_first_def update_second_def
      update_metadata_def Let_def split: sum.splits option.splits)

lemma publish_docs:
  "set (pending_docs (Some (update_publish x doc answer c))) \<subseteq> {doc}"
  "mark_ready (Some (update_publish x doc answer c)) (h @ (case answer of Inl _ \<Rightarrow> [] | Inr ack \<Rightarrow> [(doc, ack)]))"
  by (auto simp: pending_docs_def mark_ready_def update_publish_def split: sum.splits)

lemma mark_docs: "update_mark x doc c = (c', pt) \<Longrightarrow> pending_docs (Some pt) = [] \<and> mark_ready (Some pt) h"
  by (auto simp: pending_docs_def mark_ready_def update_mark_def split: sum.splits if_splits prod.splits bool.splits)

lemma doc_fits_steps: "(ta_step kdf)\<^sup>*\<^sup>* s t \<Longrightarrow> doc_fits s doc \<Longrightarrow> doc_fits t doc"
  using same_secret_steps [of kdf s t] by (auto simp: doc_fits_def same_secret_def)

lemma lease_acknowledged_mono: "lease_acknowledged s h \<Longrightarrow> lease_acknowledged s (h @ h')"
  by (fastforce simp: lease_acknowledged_def acknowledged_def)

lemma quiet_inv:
  assumes "tp_inv env (c, u, h)" "quiet (pe_kdf env) (pc_temporary c) (pc_temporary c')"
    and "list_all (doc_fits (pc_temporary c')) (pending_docs u')" "mark_ready u' h"
  shows "tp_inv env (c', u', h)"
proof -
  let ?s = "pc_temporary c" and ?t = "pc_temporary c'"
  from assms(2) have st: "(ta_step (pe_kdf env))\<^sup>*\<^sup>* ?s ?t" and k: "lease_kept ?s ?t" by (simp_all add: quiet_def)
  from assms(1) have inv: "ta_inv (pe_kdf env) ?s" and la: "lease_acknowledged ?s h" and "list_all (doc_fits ?s) (map fst h)"
    by (simp_all add: tp_inv_def)
  then have "list_all (doc_fits ?t) (map fst h)" using doc_fits_steps [OF st] by (simp add: list_all_iff)
  moreover have "lease_acknowledged ?t h" using la k by (auto simp: lease_acknowledged_def lease_kept_def)
  ultimately show ?thesis using ta.steps_inv [OF st inv] assms(3,4) by (simp add: tp_inv_def)
qed

lemma quiet_inv_same:
  assumes "tp_inv env (c, u, h)" "quiet (pe_kdf env) (pc_temporary c) (pc_temporary c')"
  shows "tp_inv env (c', u, h)"
proof (rule quiet_inv [OF assms])
  from assms(2) have "(ta_step (pe_kdf env))\<^sup>*\<^sup>* (pc_temporary c) (pc_temporary c')" by (simp add: quiet_def)
  then show "list_all (doc_fits (pc_temporary c')) (pending_docs u)"
    using assms(1) doc_fits_steps by (fastforce simp: tp_inv_def list_all_iff)
  show "mark_ready u h" using assms(1) by (simp add: tp_inv_def)
qed

lemma mark_inv:
  assumes inv: "tp_inv env (c, Some (UMark x doc ack), h)" and mark: "update_mark x doc c = (c', pt)"
  shows "tp_inv env (c', Some pt, h)"
proof -
  let ?kdf = "pe_kdf env" and ?s = "pc_temporary c" and ?t = "pc_temporary c'"
  have ack: "(doc, ack) \<in> set h" "ack_matches doc ack" using inv by (auto simp: tp_inv_def mark_ready_def)
  consider "?t = ?s" | "mark_published (td_generation doc) (td_expires_at_ms doc) ?s = (?t, True)"
    using mark by (auto simp: update_mark_def with_temporary_def mark_published_def split: sum.splits if_splits prod.splits bool.splits)
  then show ?thesis
  proof cases
    case 1
    then show ?thesis using quiet_inv [OF inv, of c' "Some pt"] mark_docs [OF mark] by simp
  next
    case 2
    have st: "(ta_step ?kdf)\<^sup>*\<^sup>* ?s ?t" by (intro r_into_rtranclp ta_step.ta_mark [OF 2])
    have i: "ta_inv ?kdf ?t" by (rule ta.steps_inv [OF st]) (use inv in \<open>simp add: tp_inv_def\<close>)
    then have cred: "credentials_ok ?kdf ?t" by (simp add: ta_inv_def)
    from 2 have "?t = ?s\<lparr>ta_published_generation := Some (td_generation doc),
        ta_published_expires_at_ms := td_expires_at_ms doc\<rparr>"
      and same: "ta_generation ?s = td_generation doc" "ta_expires_at_ms ?s = td_expires_at_ms doc"
      by (auto simp: mark_published_def split: if_splits)
    then have t: "ta_generation ?t = td_generation doc" "ta_expires_at_ms ?t = td_expires_at_ms doc"
        "ta_published_generation ?t = Some (td_generation doc)" "ta_published_expires_at_ms ?t = td_expires_at_ms doc"
      by simp_all
    have fits: "doc_fits ?t doc"
      using inv doc_fits_steps [OF st] by (simp add: tp_inv_def pending_docs_def)
    have "td_enabled doc \<and> td_expires_at_ms doc \<noteq> None" if "ta_password ?t \<noteq> None"
      using fits t cred that by (auto simp: doc_fits_def credentials_ok_def)
    then have "lease_acknowledged ?t h" using t ack by (auto simp: lease_acknowledged_def acknowledged_def)
    moreover have "list_all (doc_fits ?t) (map fst h)"
      using inv doc_fits_steps [OF st] by (simp add: tp_inv_def list_all_iff)
    ultimately show ?thesis using i mark_docs [OF mark] by (simp add: tp_inv_def)
  qed
qed

lemma tp_step_inv: "tp_step env w w' \<Longrightarrow> tp_inv env w \<Longrightarrow> tp_inv env w'"
proof (induction rule: tp_step.induct)
  case (tp_apply random x nd remote c c' pt h)
  then show ?case using quiet_inv [OF tp_apply(3)] quiet_apply [OF tp_apply(2,1)] by simp
next
  case (tp_document x c c' pt h)
  then have "ta_inv (pe_kdf env) (pc_temporary c)" by (simp add: tp_inv_def)
  from quiet_document [OF tp_document(1) this] quiet_inv [OF tp_document(2)] show ?case by simp
next
  case (tp_publish c x doc pf h answer)
  then have "doc_fits (pc_temporary c) doc" by (simp add: tp_inv_def pending_docs_def)
  with tp_publish publish_docs [of x doc answer c] show ?case
    by (auto simp: tp_inv_def lease_acknowledged_mono list_all_iff split: sum.splits)
next
  case (tp_mark x doc c c' pt ack h)
  then show ?case using mark_inv by blast
next
  case (tp_guest sid a b ap now online auth c l ok u h)
  then show ?case
    using quiet_inv_same [OF tp_guest(2), of "with_temporary l c"]
      quiet_steps(8) [of "pe_kdf env" "pc_temporary c" sid a b ap now online auth]
    by (simp add: with_temporary_def)
next
  case (tp_forget c u h sid)
  then show ?case using quiet_inv_same [OF tp_forget] quiet_steps(7) by (simp add: with_temporary_def)
next
  case (tp_configure c u h reg url)
  then show ?case by (simp add: tp_inv_def)
qed (auto intro: quiet_inv_same quiet_handlers quiet_inv simp: no_docs)

definition tp_start :: tp_state where
  "tp_start = (public_connection_default, None, [])"

interpretation tp: state_invariant "\<lambda>w. w = tp_start" "tp_step env" "tp_inv env"
  for env :: "'kp publication_env"
proof unfold_locales
  fix w w'
  have "with_operation_epoch epoch_default temporary_access_default = temporary_access_default"
    by (simp add: with_operation_epoch_def temporary_access_default_def)
  then have "ta_inv (pe_kdf env) (pc_temporary public_connection_default)"
    by (simp add: public_connection_default_def ta.start_inv)
  moreover have "ta_published_generation (pc_temporary public_connection_default) = None"
    by (simp add: public_connection_default_def temporary_access_default_def with_operation_epoch_def)
  ultimately show "w = tp_start \<Longrightarrow> tp_inv env w"
    by (simp add: tp_start_def tp_inv_def lease_acknowledged_def no_docs)
  show "tp_step env w w' \<Longrightarrow> tp_inv env w \<Longrightarrow> tp_inv env w'" by (rule tp_step_inv)
qed

section \<open>Progress\<close>

fun update_rank :: "update_point \<Rightarrow> nat" where
  "update_rank (UFirst _) = 7"
| "update_rank (USecond _ _) = 6"
| "update_rank (UMetadata _ _) = 5"
| "update_rank (UApply _ _ _) = 4"
| "update_rank (UDocument _) = 3"
| "update_rank (UPublish _ _ _) = 2"
| "update_rank (UMark _ _ _) = 1"
| "update_rank (UDone _) = 0"

lemma update_next_rank: "update_rank (fst (update_next env random answer server (pt, c))) \<le> update_rank pt - 1"
  by (cases pt) (auto simp: update_first_def update_second_def update_metadata_def update_apply_def update_document_def
      update_publish_def update_mark_def Let_def prod.swap_def split: sum.splits prod.splits bool.splits)

lemma update_run_rank:
  "update_rank (fst ((update_next env random answer server ^^ n) w)) \<le> update_rank (fst w) - n"
proof (induction n)
  case (Suc n)
  obtain pt c where w: "(update_next env random answer server ^^ n) w = (pt, c)" by (rule prod.exhaust)
  from update_next_rank [of env random answer server pt c] Suc w show ?case by simp
qed simp

text \<open>What a rotation needs of the device and of the exchange with the server.\<close>

definition rotation_possible ::
  "'kp publication_env \<Rightarrow> bytes \<Rightarrow> (temporary_access_status, string) result \<Rightarrow> publish_server \<Rightarrow> u64
   \<Rightarrow> public_connection \<Rightarrow> bool" where
  "rotation_possible env entropy answer server now c \<longleftrightarrow>
     (\<exists>saved auth url intent remote.
        pc_registration c = Some saved \<and> reg_device_id saved \<noteq> [] \<and> length (reg_device_id saved) \<le> 64 \<and>
        decoded_auth_version (pe_base64 env) (pe_parse_object env) (reg_access_token saved) = Some auth \<and>
        endpoint env c saved = Ok url \<and> pe_client env \<and>
        ta_operation_epoch (pc_temporary c) = Some intent \<and> ti_current intent \<noteq> - 1 \<and>
        answer = Ok remote \<and> ts_generation remote < i64_max \<and> ta_generation (pc_temporary c) < i64_max \<and>
        length entropy = 24 \<and> checked_add now TEMPORARY_PASSWORD_TTL_MS \<noteq> None \<and>
        (\<forall>doc. \<exists>pf ack. signed_publication (pe_crypto env) (pe_to_json env) (pe_identity env) url doc = Ok pf \<and>
           server doc pf = Ok ack \<and> ack_matches doc ack))"

lemma next_generation_ok:
  assumes "mine < i64_max" "remote < i64_max"
  obtains g where "next_generation mine remote = Ok g" "mine < g" "remote < g" "g \<le> i64_max"
proof -
  have "unat (max mine remote) < unat i64_max" using assms by (simp add: word_less_nat_alt max_def)
  then have lt: "unat (max mine remote) + 1 < 2 ^ 64" by (simp add: i64_max_def)
  then obtain g where g: "checked_add (max mine remote) 1 = Some g" by (simp add: checked_add_def)
  have "unat g = unat (max mine remote) + 1" using checked_add_Some [OF g] by simp
  then have "max mine remote < g" "g \<le> i64_max"
    using \<open>unat (max mine remote) < unat i64_max\<close> by (simp_all add: word_less_nat_alt word_le_nat_alt)
  with g that show ?thesis by (auto simp: next_generation_def max_def split: if_splits)
qed

lemma decoded_auth_version_bounds:
  "decoded_auth_version base64 parse token = Some auth \<Longrightarrow> auth \<noteq> 0 \<and> auth \<le> i64_max"
  by (auto simp: decoded_auth_version_def split: if_splits option.splits list.splits)

text \<open>The first four resumptions of a forced rotation leave a fresh password, the last three publish it.\<close>

lemma rotate_reaches_document:
  assumes saved: "pc_registration c = Some saved"
    and auth: "decoded_auth_version (pe_base64 env) (pe_parse_object env) (reg_access_token saved) = Some auth"
    and "endpoint env c saved = Ok url" "pe_client env"
    and intent: "ta_operation_epoch (pc_temporary c) = Some intent" "ti_current intent = e"
    and remote: "ts_generation remote < i64_max" "ta_generation (pc_temporary c) < i64_max"
    and exp: "checked_add now TEMPORARY_PASSWORD_TTL_MS = Some expires"
    and x: "x = \<lparr>uc_force_rotate = True, uc_disable = False, uc_epoch = e, uc_saved = saved, uc_auth = auth,
      uc_url = url, uc_now = now\<rparr>"
  obtains t where
    "(update_next env (Some entropy) (Ok remote) server ^^ 4) (update_begin env True False e now c, c)
       = (UDocument x, with_temporary t c)"
    "ta_operation_epoch t = Some intent" "ta_applied_epoch t = e" "ta_enabled t" "\<not> ta_rotation_requested t"
    "ta_password t = Some (map password_char (take 8 entropy))" "ta_salt t \<noteq> None" "ta_verifier t \<noteq> None"
    "ta_published_generation t = None" "ta_expires_at_ms t = Some expires"
    "ta_generation (pc_temporary c) < ta_generation t" "ts_generation remote < ta_generation t"
    "ta_guest_sessions t = ta_guest_sessions (pc_temporary c)"
proof -
  let ?s = "pc_temporary c" and ?n = "update_next env (Some entropy) (Ok remote) server"
  obtain g where g: "next_generation (ta_generation ?s) (ts_generation remote) = Ok g"
      "ta_generation ?s < g" "ts_generation remote < g" "g \<le> i64_max"
    by (rule next_generation_ok [OF remote(2,1)])
  have cur: "is_current e (Some intent)" using intent(2) by (simp add: is_current_def epoch_current_def)
  obtain t where t: "temporary_rotate (pe_kdf env) (Some entropy) g now (?s\<lparr>ta_applied_epoch := e\<rparr>) = (t, Ok ())"
    and fields: "ta_operation_epoch t = Some intent" "ta_applied_epoch t = e" "ta_enabled t" "\<not> ta_rotation_requested t"
      "ta_password t = Some (map password_char (take 8 entropy))" "ta_salt t \<noteq> None" "ta_verifier t \<noteq> None"
      "ta_published_generation t = None" "ta_expires_at_ms t = Some expires" "ta_generation t = g"
      "ta_guest_sessions t = ta_guest_sessions (pc_temporary c)"
    using g exp intent(1) by (simp add: temporary_rotate_def check_generation_def not_less not_le Let_def)
  have s1: "update_begin env True False e now c = UFirst x"
    using assms(3,4) saved auth intent cur by (simp add: update_begin_def check_epoch_def x)
  have s2: "?n (UFirst x, c) = (USecond x False, c)"
    using intent cur by (simp add: update_first_def check_epoch_def x)
  have s3: "?n (USecond x False, c) = (UMetadata x False, c)"
    using intent cur by (simp add: update_second_def check_epoch_def x)
  have s4: "?n (UMetadata x False, c) = (UApply x False remote, c)"
    using intent cur remote(1) by (simp add: update_metadata_def check_epoch_def not_less x)
  have s5: "?n (UApply x False remote, c) = (UDocument x, with_temporary t c)"
    using intent cur t g(1) by (simp add: update_apply_def check_epoch_def apply_operation_epoch_def x)
  have "(?n ^^ 4) (update_begin env True False e now c, c) = (UDocument x, with_temporary t c)"
    by (simp only: numeral_eq_Suc pred_numeral_simps BitM.simps funpow.simps o_apply id_apply s1 s2 s3 s4 s5)
  with fields g that show ?thesis by blast
qed

lemma document_publishes:
  assumes t: "ta_operation_epoch t = Some intent" "ti_current intent = ta_applied_epoch t" "ti_enabled intent"
      "ta_enabled t" "\<not> ta_rotation_requested t" "ta_password t = Some p" "ta_salt t \<noteq> None" "ta_verifier t \<noteq> None"
      "ta_published_generation t = None" "ta_expires_at_ms t = Some expires" "0 < ta_generation t"
    and x: "uc_epoch x = ta_applied_epoch t" "uc_now x = now" "reg_device_id (uc_saved x) \<noteq> []"
      "length (reg_device_id (uc_saved x)) \<le> 64" "uc_auth x \<noteq> 0" "uc_auth x \<le> i64_max"
    and far: "PUBLICATION_RENEWAL_MARGIN_MS < saturating_sub expires now"
    and server: "\<And>doc. \<exists>pf ack. signed_publication (pe_crypto env) (pe_to_json env) (pe_identity env) (uc_url x) doc = Ok pf \<and>
           server doc pf = Ok ack \<and> ack_matches doc ack"
  shows "(update_next env random answer server ^^ 3) (UDocument x, with_temporary t c) =
    (UDone (Ok ()), (with_temporary (t\<lparr>ta_published_generation := Some (ta_generation t),
       ta_published_expires_at_ms := Some expires\<rparr>) c)\<lparr>pc_temporary_auth_version := uc_auth x\<rparr>)"
proof -
  let ?n = "update_next env random answer server" and ?c = "with_temporary t c"
  have cur: "is_current (ta_applied_epoch t) (Some intent)" using t(2) by (simp add: is_current_def epoch_current_def)
  have "t\<lparr>ta_applied_epoch := ta_applied_epoch t\<rparr> = t" by simp
  moreover have "renew_publication now t = (t, Ok False)"
    using t cur far
    by (simp add: renew_publication_def temporary_enabled_def permits_enabled_def needs_rotation_def publication_epoch_current_def)
  moreover have "needs_publication t" using t by (simp add: needs_publication_def)
  moreover obtain doc where doc: "access_document (reg_device_id (uc_saved x)) (uc_auth x) t = Ok doc"
      "td_generation doc = ta_generation t" "td_expires_at_ms doc = Some expires" "td_enabled doc"
    using t x(3-6) by (simp add: access_document_def not_less word_gt_0)
  moreover obtain pf ack where pf: "signed_publication (pe_crypto env) (pe_to_json env) (pe_identity env) (uc_url x) doc = Ok pf"
      "server doc pf = Ok ack" "ack_matches doc ack"
    using server [of doc] by blast
  ultimately have s1: "?n (UDocument x, ?c) = (UPublish x doc pf, ?c)"
    using t(1) x cur by (simp add: update_document_def check_epoch_def apply_operation_epoch_def with_temporary_def)
  have s2: "?n (UPublish x doc pf, ?c) = (UMark x doc ack, ?c)"
    using t(1) x cur pf by (simp add: update_publish_def check_epoch_def with_temporary_def)
  have s3: "?n (UMark x doc ack, ?c) = (UDone (Ok ()), (with_temporary (t\<lparr>ta_published_generation := Some (ta_generation t),
       ta_published_expires_at_ms := Some expires\<rparr>) c)\<lparr>pc_temporary_auth_version := uc_auth x\<rparr>)"
    using t x cur doc
    by (simp add: update_mark_def check_epoch_def with_temporary_def temporary_enabled_def permits_enabled_def
        mark_published_def publication_epoch_current_def)
  show ?thesis by (simp only: numeral_eq_Suc pred_numeral_simps BitM.simps funpow.simps o_apply id_apply s1 s2 s3)
qed

lemma forced_update_completes:
  assumes reg: "pc_registration c = Some saved" "reg_device_id saved \<noteq> []" "length (reg_device_id saved) \<le> 64"
    and auth: "decoded_auth_version (pe_base64 env) (pe_parse_object env) (reg_access_token saved) = Some auth"
    and url: "endpoint env c saved = Ok url" "pe_client env"
    and i: "ta_operation_epoch (pc_temporary c) = Some i" "ti_current i = e" "ti_enabled i"
    and remote: "ts_generation remote < i64_max" "ta_generation (pc_temporary c) < i64_max"
    and exp: "checked_add now TEMPORARY_PASSWORD_TTL_MS = Some expires"
    and server: "\<And>doc. \<exists>pf ack. signed_publication (pe_crypto env) (pe_to_json env) (pe_identity env) url doc = Ok pf \<and>
           server doc pf = Ok ack \<and> ack_matches doc ack"
  obtains m where "(update_next env (Some entropy) (Ok remote) server ^^ 7) (update_begin env True False e now c, c)
      = (UDone (Ok ()), (with_temporary m c)\<lparr>pc_temporary_auth_version := auth\<rparr>)"
    "ta_operation_epoch m = Some i" "ta_password m = Some (map password_char (take 8 entropy))"
    "ts_ready (temporary_status now True m)"
    "ta_generation (pc_temporary c) < ta_generation m" "ts_generation remote < ta_generation m"
    "ta_guest_sessions m = ta_guest_sessions (pc_temporary c)"
proof -
  let ?n = "update_next env (Some entropy) (Ok remote) server"
  let ?x = "\<lparr>uc_force_rotate = True, uc_disable = False, uc_epoch = e, uc_saved = saved, uc_auth = auth,
      uc_url = url, uc_now = now\<rparr>"
  obtain t where run: "(?n ^^ 4) (update_begin env True False e now c, c) = (UDocument ?x, with_temporary t c)"
    and t: "ta_operation_epoch t = Some i" "ta_applied_epoch t = e" "ta_enabled t" "\<not> ta_rotation_requested t"
      "ta_password t = Some (map password_char (take 8 entropy))" "ta_salt t \<noteq> None" "ta_verifier t \<noteq> None"
      "ta_published_generation t = None" "ta_expires_at_ms t = Some expires"
      "ta_generation (pc_temporary c) < ta_generation t" "ts_generation remote < ta_generation t"
      "ta_guest_sessions t = ta_guest_sessions (pc_temporary c)"
    by (rule rotate_reaches_document [OF reg(1) auth url i(1,2) remote exp refl, of entropy server])
  have pos: "0 < ta_generation t" using t(10) by (rule le_less_trans [OF word_zero_le])
  have ttl: "unat expires = unat now + 600000" "now < expires"
    using checked_add_Some [OF exp] by (simp_all add: TEMPORARY_PASSWORD_TTL_MS_def word_less_nat_alt)
  then have far: "PUBLICATION_RENEWAL_MARGIN_MS < saturating_sub expires now"
    by (simp add: word_less_nat_alt unat_saturating_sub PUBLICATION_RENEWAL_MARGIN_MS_def)
  let ?m = "t\<lparr>ta_published_generation := Some (ta_generation t), ta_published_expires_at_ms := Some expires\<rparr>"
  have fin: "(?n ^^ 3) (UDocument ?x, with_temporary t c)
      = (UDone (Ok ()), (with_temporary ?m c)\<lparr>pc_temporary_auth_version := auth\<rparr>)"
    using document_publishes [OF t(1) _ i(3) t(3-9) pos, of ?x now env server "Some entropy" "Ok remote" c]
      i t(2) reg(2,3) far server decoded_auth_version_bounds [OF auth] by simp
  have "(?n ^^ (3 + 4)) (update_begin env True False e now c, c)
      = (UDone (Ok ()), (with_temporary ?m c)\<lparr>pc_temporary_auth_version := auth\<rparr>)"
    unfolding funpow_add o_apply run fin ..
  then have "(?n ^^ 7) (update_begin env True False e now c, c)
      = (UDone (Ok ()), (with_temporary ?m c)\<lparr>pc_temporary_auth_version := auth\<rparr>)" by simp
  moreover have "ts_ready (temporary_status now True ?m)" using t i ttl(2) by (simp add: ready_iff)
  ultimately show ?thesis using t(1,5,10,11,12) that by simp
qed

lemma begin_enabled:
  assumes "ta_operation_epoch (pc_temporary c) = Some intent" "ti_current intent \<noteq> - 1"
  shows "begin_operation False c =
    (with_temporary ((pc_temporary c)\<lparr>ta_operation_epoch :=
       Some (intent\<lparr>ti_current := ti_current intent + 1, ti_enabled := True\<rparr>)\<rparr>) c, Ok (ti_current intent + 1))"
proof -
  have "unat (ti_current intent) \<noteq> unat (- 1 :: u64)"
    using assms(2) by (metis word_unat_eq_iff)
  moreover have "unat (- 1 :: u64) = 18446744073709551615" using unat_word_max [where 'a = 64] by simp
  ultimately have "unat (ti_current intent) < 18446744073709551615"
    using unat_u64_lt [of "ti_current intent"] by presburger
  then have "unat (ti_current intent) + 1 < 2 ^ 64" by simp
  then have "checked_add (ti_current intent) 1 = Some (ti_current intent + 1)" by (simp add: checked_add_def)
  with assms(1) show ?thesis by (simp add: begin_operation_def epoch_begin_def with_operation_epoch_def)
qed

text \<open>The uninterrupted run is one of the interleavings.\<close>

lemma update_next_step:
  assumes "drawn random"
  shows "\<exists>h'. (tp_step env)\<^sup>*\<^sup>* (c, Some pt, h)
    (snd (update_next env random answer server (pt, c)), Some (fst (update_next env random answer server (pt, c))), h')"
proof (cases pt)
  case (UApply x nd remote)
  then show ?thesis using tp_step.tp_apply [OF assms prod.collapse [symmetric]]
    by (simp only: update_next.simps fst_swap snd_swap) (blast intro: r_into_rtranclp)
next
  case (UDocument x)
  then show ?thesis using tp_step.tp_document [OF prod.collapse [symmetric]]
    by (simp only: update_next.simps fst_swap snd_swap) (blast intro: r_into_rtranclp)
next
  case (UMark x doc ack)
  then show ?thesis using tp_step.tp_mark [OF prod.collapse [symmetric]]
    by (simp only: update_next.simps fst_swap snd_swap) (blast intro: r_into_rtranclp)
qed (simp_all, (blast intro: r_into_rtranclp tp_step.intros)+)

lemma update_run_steps:
  assumes "drawn random"
  shows "\<exists>h'. (tp_step env)\<^sup>*\<^sup>* (c, Some pt, h)
    (snd ((update_next env random answer server ^^ n) (pt, c)),
     Some (fst ((update_next env random answer server ^^ n) (pt, c))), h')"
proof (induction n)
  case (Suc n)
  obtain pt' c' where w: "(update_next env random answer server ^^ n) (pt, c) = (pt', c')" by (rule prod.exhaust)
  from Suc w obtain h' where "(tp_step env)\<^sup>*\<^sup>* (c, Some pt, h) (c', Some pt', h')" by auto
  moreover obtain h'' where "(tp_step env)\<^sup>*\<^sup>* (c', Some pt', h') (snd (update_next env random answer server (pt', c')),
      Some (fst (update_next env random answer server (pt', c'))), h'')"
    using update_next_step [OF assms] by blast
  ultimately show ?case using w by (auto intro: rtranclp_trans)
qed auto

lemma rotate_handler_steps:
  assumes "drawn random" "rotate_handler env random answer server now online c = (c', r)"
  shows "\<exists>u h'. (tp_step env)\<^sup>*\<^sup>* (c, None, h) (c', u, h')"
proof -
  obtain d b where d: "begin_operation False c = (d, b)" by (rule prod.exhaust)
  have sd: "(tp_step env)\<^sup>*\<^sup>* (c, None, h) (d, None, h)" by (intro r_into_rtranclp tp_step.tp_begin [OF d])
  show ?thesis
  proof (cases b)
    case (Inl a)
    with assms(2) d sd show ?thesis by (auto simp: rotate_handler_def)
  next
    case (Inr e)
    obtain k q where k: "rotate_prologue e d = (k, q)" by (rule prod.exhaust)
    have sk: "(tp_step env)\<^sup>*\<^sup>* (c, None, h) (k, None, h)"
      by (rule rtranclp.rtrancl_into_rtrancl [OF sd tp_step.tp_rotate [OF k]])
    have su: "(tp_step env)\<^sup>*\<^sup>* (c, None, h) (k, Some (update_begin env True False e now k), h)"
      by (rule rtranclp.rtrancl_into_rtrancl [OF sk tp_step.tp_update])
    let ?w = "(update_next env random answer server ^^ 7) (update_begin env True False e now k, k)"
    obtain h' where run: "(tp_step env)\<^sup>*\<^sup>* (k, Some (update_begin env True False e now k), h) (snd ?w, Some (fst ?w), h')"
      using update_run_steps [OF assms(1)] by blast
    have "c' = (case q of Inl _ \<Rightarrow> k | Inr _ \<Rightarrow> snd ?w)"
      using assms(2) d k Inr by (auto simp: rotate_handler_def split: sum.splits prod.splits update_point.splits)
    then show ?thesis using sk rtranclp_trans [OF su run] by (cases q) auto
  qed
qed

lemma rotation_run:
  assumes "rotation_possible env entropy (Ok remote) server now c"
  shows "\<exists>c' status. rotate_handler env (Some entropy) (Ok remote) server now True c = (c', Ok status) \<and>
    temporary_secret now True (pc_temporary c') = (status, Some (map password_char (take 8 entropy))) \<and>
    ts_ready status \<and> ta_generation (pc_temporary c) < ts_generation status \<and>
    ts_generation remote < ts_generation status \<and>
    ta_guest_sessions (pc_temporary c') = ta_guest_sessions (pc_temporary c) \<and>
    status = temporary_status now True (pc_temporary c') \<and>
    map_option ti_current (ta_operation_epoch (pc_temporary c')) =
      map_option (\<lambda>i. ti_current i + 1) (ta_operation_epoch (pc_temporary c))"
proof -
  from assms obtain saved auth url i expires where
      reg: "pc_registration c = Some saved" "reg_device_id saved \<noteq> []" "length (reg_device_id saved) \<le> 64"
    and auth: "decoded_auth_version (pe_base64 env) (pe_parse_object env) (reg_access_token saved) = Some auth"
    and url: "endpoint env c saved = Ok url" "pe_client env"
    and i: "ta_operation_epoch (pc_temporary c) = Some i" "ti_current i \<noteq> - 1"
    and remote: "ts_generation remote < i64_max" "ta_generation (pc_temporary c) < i64_max"
    and exp: "checked_add now TEMPORARY_PASSWORD_TTL_MS = Some expires"
    and server: "\<And>doc. \<exists>pf ack. signed_publication (pe_crypto env) (pe_to_json env) (pe_identity env) url doc = Ok pf \<and>
           server doc pf = Ok ack \<and> ack_matches doc ack"
    unfolding rotation_possible_def by auto
  define e where "e = ti_current i + 1"
  define i' where "i' = i\<lparr>ti_current := e, ti_enabled := True\<rparr>"
  define d where "d = with_temporary (invalidate_publication ((pc_temporary c)\<lparr>ta_operation_epoch := Some i',
    ta_applied_epoch := e\<rparr>)) c"
  have pro: "begin_operation False c = (with_temporary ((pc_temporary c)\<lparr>ta_operation_epoch := Some i'\<rparr>) c, Ok e)"
      "rotate_prologue e (with_temporary ((pc_temporary c)\<lparr>ta_operation_epoch := Some i'\<rparr>) c) = (d, Ok ())"
    using begin_enabled [OF i]
    by (simp_all add: rotate_prologue_def apply_operation_epoch_def is_current_def epoch_current_def
        with_temporary_def d_def i'_def e_def)
  have d: "pc_registration d = Some saved" "endpoint env d saved = Ok url" "ta_operation_epoch (pc_temporary d) = Some i'"
      "ta_generation (pc_temporary d) = ta_generation (pc_temporary c)"
      "ta_guest_sessions (pc_temporary d) = ta_guest_sessions (pc_temporary c)"
    using reg(1) url(1) by (simp_all add: d_def with_temporary_def invalidate_publication_def endpoint_def)
  have i'e: "ti_current i' = e" "ti_enabled i'" by (simp_all add: i'_def)
  obtain m where run: "(update_next env (Some entropy) (Ok remote) server ^^ 7) (update_begin env True False e now d, d)
      = (UDone (Ok ()), (with_temporary m d)\<lparr>pc_temporary_auth_version := auth\<rparr>)"
    and m: "ta_operation_epoch m = Some i'" "ta_password m = Some (map password_char (take 8 entropy))"
      "ts_ready (temporary_status now True m)"
      "ta_generation (pc_temporary c) < ta_generation m" "ts_generation remote < ta_generation m"
      "ta_guest_sessions m = ta_guest_sessions (pc_temporary c)"
    using forced_update_completes [OF d(1) reg(2,3) auth d(2) url(2) d(3) i'e remote(1) _ exp server, of entropy] remote(2) d(4,5)
    by metis
  let ?c = "(with_temporary m d)\<lparr>pc_temporary_auth_version := auth\<rparr>"
  have "rotate_handler env (Some entropy) (Ok remote) server now True c = (?c, Ok (temporary_status now True m))"
    unfolding rotate_handler_def pro prod.case sum.case run
    using m(1) i'e by (simp add: check_epoch_def is_current_def epoch_current_def with_temporary_def)
  moreover have "ts_generation (temporary_status now True m) = ta_generation m" by (simp add: temporary_status_def Let_def)
  ultimately show ?thesis
    using m i i'e e_def by (intro exI [of _ ?c] exI [of _ "temporary_status now True m"])
      (simp add: with_temporary_def temporary_secret_def)
qed

section \<open>A sample device\<close>

definition sample_env :: "bytes publication_env" where
  "sample_env =
     \<lparr>pe_kdf = sample_kdf, pe_crypto = sample_suite,
      pe_identity = \<lparr>di_private_pkcs8 = [1], di_public_key = [1], di_key_id = ''k''\<rparr>,
      pe_to_json = (\<lambda>_. Some ''{}''), pe_base64 = (\<lambda>_. Some []),
      pe_parse_object = (\<lambda>_. Some [(''token_type'', ClaimString ''device''), (''role'', ClaimString ''device''),
        (''auth_version'', ClaimU64 7)]),
      pe_parse_url = (\<lambda>_. Some \<lparr>pu_scheme = ''https'', pu_host = Some ''h'', pu_username = [], pu_password = None,
        pu_query = None, pu_fragment = None\<rparr>),
      pe_client = True\<rparr>"

definition sample_registration :: registration where
  "sample_registration =
     \<lparr>reg_device_id = ''device'', reg_device_name = ''d'', reg_access_token = ''a.b.c'', reg_refresh_token = None,
      reg_api_url = DEFAULT_PUBLIC_API_URL, reg_machine_serial = ''s''\<rparr>"

definition sample_connection :: public_connection where
  "sample_connection = public_connection_default\<lparr>pc_registration := Some sample_registration,
     pc_api_url := Some DEFAULT_PUBLIC_API_URL\<rparr>"

definition sample_server :: publish_server where
  "sample_server doc pf = Ok \<lparr>ts_enabled = td_enabled doc, ts_ready = td_enabled doc, ts_generation = td_generation doc,
     ts_expires_at_ms = td_expires_at_ms doc, ts_reason = None, ts_refresh_mode = None\<rparr>"

definition sample_remote :: temporary_access_status where
  "sample_remote = \<lparr>ts_enabled = True, ts_ready = False, ts_generation = 4, ts_expires_at_ms = None,
     ts_reason = None, ts_refresh_mode = None\<rparr>"

lemma sample_rotation: "rotation_possible sample_env sample_entropy (Ok sample_remote) sample_server 1000 sample_connection"
proof -
  have z: "length (concat (replicate n (hex_byte 0))) = 2 * n" for n by (induction n) (simp_all add: hex_byte_def)
  have sign: "\<exists>pf. signed_publication (pe_crypto sample_env) (pe_to_json sample_env) (pe_identity sample_env) url doc = Ok pf"
    if "length url < 1000" for url doc
    using that by (simp add: signed_publication_def sample_env_def sample_suite_def sign_context_bytes_def contextual_bytes_def
        sign_domain_bytes_def Let_def hex_string_def length_hex z)
  have url: "endpoint sample_env sample_connection sample_registration
      = Ok (DEFAULT_PUBLIC_API_URL @ ''/devices/temporary-access'')"
    by code_simp
  have auth: "decoded_auth_version (pe_base64 sample_env) (pe_parse_object sample_env) (reg_access_token sample_registration) = Some 7"
    by code_simp
  have ack: "ack_matches doc ack" if "sample_server doc pf = Ok ack" for doc pf ack
    using that by (auto simp: sample_server_def ack_matches_def)
  have "length (DEFAULT_PUBLIC_API_URL @ ''/devices/temporary-access'') < 1000" by (simp add: DEFAULT_PUBLIC_API_URL_def)
  then have "\<forall>doc. \<exists>pf ack. signed_publication (pe_crypto sample_env) (pe_to_json sample_env) (pe_identity sample_env)
      (DEFAULT_PUBLIC_API_URL @ ''/devices/temporary-access'') doc = Ok pf \<and> sample_server doc pf = Ok ack \<and> ack_matches doc ack"
    using sign ack by (metis sample_server_def)
  with url auth show ?thesis
    unfolding rotation_possible_def
    by (intro exI [of _ sample_registration] exI [of _ 7] exI [of _ "DEFAULT_PUBLIC_API_URL @ ''/devices/temporary-access''"]
        exI [of _ "the epoch_default"] exI [of _ sample_remote])
      (simp add: sample_connection_def sample_registration_def public_connection_default_def with_operation_epoch_def
        epoch_default_def temporary_access_default_def sample_remote_def i64_max_def sample_entropy_def sample_env_def
        checked_add_code TEMPORARY_PASSWORD_TTL_MS_def)
qed

section \<open>Properties\<close>

text \<open>
  C3. A password is shown only when the server can verify it.  In every state that any interleaving of the
  handlers reaches: if a read of the secret returns a password then temporary access is enabled under
  the current intent, the client is online, and the server has acknowledged, as ready, an enabled
  document with the shown generation, with a lease that has not expired, and with the salt and
  verifier the state holds for exactly this password.
\<close>

theorem temporary_secret_acknowledged:
  assumes "(tp_step env)\<^sup>*\<^sup>* tp_start (c, u, h)"
    and "temporary_secret now online (pc_temporary c) = (status, Some p)"
  shows "temporary_enabled (pc_temporary c) \<and> publication_epoch_current (pc_temporary c) \<and> online \<and>
    (\<exists>doc ack salt expires. (doc, ack) \<in> set h \<and> ts_ready ack \<and> td_enabled doc \<and>
       td_generation doc = ts_generation status \<and> ts_generation ack = ts_generation status \<and>
       td_expires_at_ms doc = Some expires \<and> ts_expires_at_ms ack = Some expires \<and> now < expires \<and>
       td_salt doc = Some (hex_string salt) \<and>
       td_verifier doc = Some (hex_string (pe_kdf env 600000 salt (as_bytes p))))"
proof -
  let ?s = "pc_temporary c"
  have inv: "tp_inv env (c, u, h)" by (rule tp.reachable_inv [OF refl assms(1)])
  have ready: "ts_ready (temporary_status now online ?s)" and p: "ta_password ?s = Some p"
    and status: "ts_generation status = ta_generation ?s"
    using assms(2) by (auto simp: temporary_secret_def temporary_status_def Let_def split: if_splits)
  from inv ready p have x: "ta_published_expires_at_ms ?s \<noteq> None"
    and "acknowledged h (ta_generation ?s) (ta_published_expires_at_ms ?s)"
    by (auto simp: tp_inv_def lease_acknowledged_def ready_iff)
  then obtain doc ack where doc: "(doc, ack) \<in> set h" "ack_matches doc ack" "td_enabled doc"
      "td_generation doc = ta_generation ?s" "td_expires_at_ms doc = ta_published_expires_at_ms ?s"
    by (auto simp: acknowledged_def)
  have "doc_fits ?s doc" using inv doc(1) by (force simp: tp_inv_def list_all_iff)
  moreover have "credentials_ok (pe_kdf env) ?s" using inv by (simp add: tp_inv_def ta_inv_def)
  ultimately obtain salt where "td_salt doc = Some (hex_string salt)"
      "td_verifier doc = Some (hex_string (pe_kdf env 600000 salt (as_bytes p)))"
    using p doc(4) by (auto simp: doc_fits_def credentials_ok_def PASSWORD_ITERATIONS_def)
  with doc x ready status show ?thesis
    by (auto simp: ready_iff temporary_enabled_def permits_enabled_def publication_epoch_current_def is_current_def
        epoch_current_def ack_matches_def intro!: exI [of _ doc] exI [of _ ack] exI [of _ salt])
qed

theorem temporary_secret_acknowledged_witness:
  "\<exists>c u h status p expires doc ack. (tp_step sample_env)\<^sup>*\<^sup>* tp_start (c, u, h) \<and>
     temporary_secret 1000 True (pc_temporary c) = (status, Some p) \<and>
     (doc, ack) \<in> set h \<and> td_generation doc = ts_generation status \<and> td_expires_at_ms doc = Some expires \<and> 1000 < expires"
proof -
  have "sample_connection = public_connection_default\<lparr>pc_registration := Some sample_registration,
      pc_api_url := Some DEFAULT_PUBLIC_API_URL\<rparr>" by (simp add: sample_connection_def)
  then have "(tp_step sample_env)\<^sup>*\<^sup>* tp_start (sample_connection, None, [])"
    unfolding tp_start_def by (metis r_into_rtranclp tp_step.tp_configure)
  moreover obtain c status where c: "rotate_handler sample_env (Some sample_entropy) (Ok sample_remote) sample_server 1000 True
      sample_connection = (c, Ok status)"
    and s: "temporary_secret 1000 True (pc_temporary c) = (status, Some (map password_char (take 8 sample_entropy)))"
    using rotation_run [OF sample_rotation] by blast
  moreover obtain u h where "(tp_step sample_env)\<^sup>*\<^sup>* (sample_connection, None, []) (c, u, h)"
    using rotate_handler_steps [OF _ c, of "[]"] by (auto simp: drawn_def sample_entropy_def)
  ultimately have reach: "(tp_step sample_env)\<^sup>*\<^sup>* tp_start (c, u, h)" by (meson rtranclp_trans)
  from temporary_secret_acknowledged [OF reach s] reach s show ?thesis by blast
qed

text \<open>
  C35. A rotation that nothing interrupts completes.  If the device is registered with a valid token for the
  configured origin, the epoch and generation are not exhausted, randomness and the clock are usable,
  the document can be signed and the server acknowledges it, then the handler returns a ready status,
  the secret it leaves is the password drawn from the random bytes, and its generation is above both
  the previous local one and the server's.
\<close>

theorem rotate_completes:
  assumes "rotation_possible env entropy (Ok remote) server now c"
  shows "\<exists>c' status. rotate_handler env (Some entropy) (Ok remote) server now True c = (c', Ok status) \<and>
    temporary_secret now True (pc_temporary c') = (status, Some (map password_char (take 8 entropy))) \<and>
    ts_ready status \<and> ta_generation (pc_temporary c) < ts_generation status \<and>
    ts_generation remote < ts_generation status"
  using rotation_run [OF assms] by blast

theorem rotate_completes_witness:
  "\<exists>c' status. rotate_handler sample_env (Some sample_entropy) (Ok sample_remote) sample_server 1000 True sample_connection
     = (c', Ok status) \<and> snd (temporary_secret 1000 True (pc_temporary c')) = Some (map password_char (take 8 sample_entropy)) \<and>
     4 < ts_generation status"
  using rotate_completes [OF sample_rotation] by (force simp: sample_remote_def)

end
