(* ===== verification/Temporary_Revocation.thy ===== *)
theory Temporary_Revocation
  imports Temporary_Publication Session_Authority
begin

text \<open>
  The disable handler of \<open>public_connection/temporary.rs\<close> across two components: it begins a disable
  intent, freezes the password, reads which guests were admitted before the intent, and revokes their
  authorizations in the registry of \<open>session_authorization.rs\<close>, one locked call each.  Other tasks may
  act on both components between any two of these calls.
\<close>

text \<open>Of a failure the registry's model keeps the code; the message is text for the user.\<close>

definition guest_revoked_failure :: remote_failure where
  "guest_revoked_failure = \<lparr>rf_code = RcGrantRevoked\<rparr>"

inductive revoking ::
  "'kp crypto_suite \<Rightarrow> session_id list \<Rightarrow> au_state \<Rightarrow> au_state \<Rightarrow> bool" for cr where
  rv_done: "(au_step cr)\<^sup>*\<^sup>* s s' \<Longrightarrow> revoking cr [] s s'"
| rv_next: "(au_step cr)\<^sup>*\<^sup>* s (g, h) \<Longrightarrow>
    record_failure sid AuRevoked guest_revoked_failure t (rg_inner g) = (i, r) \<Longrightarrow>
    revoking cr sids (g\<lparr>rg_inner := i\<rparr>, h) s' \<Longrightarrow> revoking cr (sid # sids) s s'"

lemma revoking_step:
  "record_failure sid AuRevoked guest_revoked_failure t (rg_inner g) = (i, r) \<Longrightarrow>
   au_step cr (g, h) (g\<lparr>rg_inner := i\<rparr>, h)"
  by (rule au_failure [OF _ terminal_states(3)])

lemma revoking_steps: "revoking cr sids s s' \<Longrightarrow> (au_step cr)\<^sup>*\<^sup>* s s'"
proof (induction rule: revoking.induct)
  case (rv_next s g h sid t i r sids s')
  then show ?case using revoking_step [OF rv_next(2), of cr h] by (meson rtranclp.rtrancl_into_rtrancl rtranclp_trans)
qed

lemma record_failure_terminal:
  assumes "record_failure sid AuRevoked f t i = (i', s)" "map_of (ai_records i') sid = Some r"
  shows "terminal_record r"
proof -
  have push: "ai_records (push_events t sid es j) = ai_records j" for es j
    unfolding push_events_def by (induction es arbitrary: j) simp_all
  show ?thesis using assms
    by (auto simp: record_failure_def transition_failure_locked_def Let_def push update_conv' terminal_record_def
        failed_record_fields terminal_states split: option.splits if_splits)
qed

text \<open>
  Whatever interleaves, a record of a revoked session that is still the one from before the
  revocation is terminal.
\<close>

lemma revoking_terminal:
  assumes "revoking cr sids s s'" "au_ok cr s" "sid \<in> set sids"
    and "map_of (ai_records (rg_inner (fst s'))) sid = Some r"
    and "az_instance_id r \<le> ai_next_instance_id (rg_inner (fst s))"
  shows "terminal_record r"
  using assms
proof (induction rule: revoking.induct)
  case (rv_next s g h sid' t i q sids s')
  let ?m = "(g\<lparr>rg_inner := i\<rparr>, h)"
  have "(au_step cr)\<^sup>*\<^sup>* s ?m" by (rule rtranclp.rtrancl_into_rtrancl [OF rv_next(1) revoking_step [OF rv_next(2)]])
  then have ok: "au_ok cr ?m" and "comes_from cr (rg_inner (fst s)) i"
    using au.steps_inv [OF _ rv_next.prems(1)] au_steps_come_from [OF _ rv_next.prems(1)] by force+
  then have old: "az_instance_id r \<le> ai_next_instance_id i"
    using rv_next.prems(4) by (auto simp: comes_from_def)
  show ?case
  proof (cases "sid \<in> set sids")
    case True
    with rv_next.IH ok old rv_next.prems(3) show ?thesis by simp
  next
    case False
    with rv_next.prems(2) have sid: "sid' = sid" by simp
    have "comes_from cr i (rg_inner (fst s'))"
      using au_steps_come_from [OF revoking_steps [OF rv_next(3)] ok] by simp
    with old rv_next.prems(3) obtain q' where "map_of (ai_records i) sid = Some q'" "(evolves cr)\<^sup>*\<^sup>* q' r"
      by (force simp: comes_from_def)
    with record_failure_terminal [OF rv_next(2)] evolves_terminal sid show ?thesis by blast
  qed
qed simp

lemma tp_step_ta:
  "tp_step env w w' \<Longrightarrow> tp_inv env w \<Longrightarrow> (ta_step (pe_kdf env))\<^sup>*\<^sup>* (pc_temporary (fst w)) (pc_temporary (fst w'))"
proof (induction rule: tp_step.induct)
  case (tp_apply random x nd remote c c' pt h)
  then show ?case using quiet_apply(1) by (fastforce simp: quiet_def)
next
  case (tp_document x c c' pt h)
  then have "ta_inv (pe_kdf env) (pc_temporary c)" by (simp add: tp_inv_def)
  with tp_document quiet_document(1) show ?case by (fastforce simp: quiet_def)
next
  case (tp_mark x doc c c' pt ack h)
  then show ?case
    by (auto simp: update_mark_def with_temporary_def split: sum.splits if_splits prod.splits bool.splits
        intro!: r_into_rtranclp ta_step.ta_mark)
next
  case (tp_guest sid a b ap now online auth c l ok u h)
  then show ?case by (auto simp: with_temporary_def intro: ta_step.ta_authorize)
next
  case (tp_forget c u h sid)
  then show ?case by (auto simp: with_temporary_def intro: ta_step.ta_forget)
qed (use quiet_handlers [where kdf = "pe_kdf env"] in \<open>auto simp: quiet_def\<close>)

lemma tp_steps_ta:
  assumes "(tp_step env)\<^sup>*\<^sup>* w w'" "tp_inv env w"
  shows "(ta_step (pe_kdf env))\<^sup>*\<^sup>* (pc_temporary (fst w)) (pc_temporary (fst w'))"
  using assms(1)
proof (induction rule: rtranclp_induct)
  case (step v w')
  from tp_step_ta [OF step.hyps(2) tp.steps_inv [OF step.hyps(1) assms(2)]] step.IH show ?case by simp
qed simp

text \<open>What the handler's list contains, whenever the handler comes to read it.\<close>

lemma disabled_guests_listed:
  assumes "tp_inv env (c, u, k)" "begin_operation True c = (c', Ok e)" "(tp_step env)\<^sup>*\<^sup>* (c', u, k) (d, v, l)"
    and "disable_prologue e d = (d', Ok sids)"
    and "map_of (ta_guest_sessions (pc_temporary d')) sid = Some (a, b, ap, x)" "\<not> e < x"
  shows "sid \<in> set sids"
proof -
  let ?kdf = "pe_kdf env"
  obtain lk where lk: "epoch_begin True (ta_operation_epoch (pc_temporary c)) = (lk, Ok e)"
    and c': "pc_temporary c' = with_operation_epoch lk (pc_temporary c)"
    using assms(2) by (auto simp: begin_operation_def with_temporary_def split: prod.splits)
  from assms(1) have inv: "ta_inv ?kdf (pc_temporary c)" by (simp add: tp_inv_def)
  have "tp_inv env (c', u, k)" by (rule tp_step_inv [OF tp_begin [OF assms(2)] assms(1)])
  from tp_steps_ta [OF assms(3) this] have "(ta_step ?kdf)\<^sup>*\<^sup>* (pc_temporary c') (pc_temporary d)" by simp
  moreover have "(ta_step ?kdf)\<^sup>*\<^sup>* (pc_temporary d) (pc_temporary d')"
    using quiet_handlers(3) [OF assms(4), of ?kdf] by (simp add: quiet_def)
  ultimately have "(ta_step ?kdf)\<^sup>*\<^sup>* (pc_temporary c') (pc_temporary d')" by (rule rtranclp_trans)
  from fenced.steps_inv [OF this] fence_raised [OF inv lk] c' have f: "fence e (pc_temporary d')" by simp
  have entry: "(sid, a, b, ap, x) \<in> set (ta_guest_sessions (pc_temporary d'))" using assms(5) by (rule map_of_SomeD)
  with f have "x \<noteq> e" by (auto simp: fence_def)
  with assms(6) have "x < e" by simp
  moreover have "sids = guest_session_ids_before_epoch e (pc_temporary d')"
    using assms(4) by (auto simp: disable_prologue_def with_temporary_def split: if_splits prod.splits sum.splits)
  ultimately show ?thesis using entry by (force simp: guest_session_ids_before_epoch_def)
qed

section \<open>A sample run\<close>

lemma sample_guest:
  obtains c u h a where "(tp_step sample_env)\<^sup>*\<^sup>* tp_start (c, u, h)" "0 < ta_generation (pc_temporary c)"
    "map_of (ta_guest_sessions (pc_temporary c)) ''s'' = Some (a, ''c'', False, ta_applied_epoch (pc_temporary c))"
    "guest_session_ids (pc_temporary c) = [''s'']" "publication_epoch_current (pc_temporary c)"
    "map_option ti_current (ta_operation_epoch (pc_temporary c)) = Some 1"
proof -
  have "(tp_step sample_env)\<^sup>*\<^sup>* tp_start (sample_connection, None, [])"
    unfolding tp_start_def sample_connection_def by (intro r_into_rtranclp tp_step.tp_configure)
  moreover obtain c status where c: "rotate_handler sample_env (Some sample_entropy) (Ok sample_remote) sample_server 1000 True
      sample_connection = (c, Ok status)"
    and s: "ts_ready (temporary_status 1000 True (pc_temporary c))" "ta_guest_sessions (pc_temporary c) = []"
      "ts_generation sample_remote < ta_generation (pc_temporary c)"
      "map_option ti_current (ta_operation_epoch (pc_temporary c)) = Some 1"
    using rotation_run [OF sample_rotation]
    by (auto simp: sample_connection_def public_connection_default_def with_operation_epoch_def temporary_access_default_def
        temporary_status_def epoch_default_def Let_def)
  moreover obtain u h where "(tp_step sample_env)\<^sup>*\<^sup>* (sample_connection, None, []) (c, u, h)"
    using rotate_handler_steps [OF _ c, of "[]"] by (auto simp: drawn_def sample_entropy_def)
  ultimately have reach: "(tp_step sample_env)\<^sup>*\<^sup>* tp_start (c, u, h)" by (meson rtranclp_trans)
  let ?t = "pc_temporary c"
  define a where "a = \<lparr>tga_generation = ta_generation ?t, tga_target_auth_version = 7\<rparr>"
  let ?l = "?t\<lparr>ta_guest_sessions := [(''s'', a, ''c'', False, ta_applied_epoch ?t)]\<rparr>"
  from s(1) obtain i where i: "ta_operation_epoch ?t = Some i" "ti_enabled i" "ta_enabled ?t" "ti_current i = ta_applied_epoch ?t"
    unfolding ready_iff by blast
  have au: "authorize_guest ''s'' a ''c'' False 1000 True 7 ?t = (?l, True)"
    using s(1,2) i by (simp add: authorize_guest_def temporary_enabled_def permits_enabled_def a_def)
  have "tp_step sample_env (c, u, h) (with_temporary ?l c, u, h)" by (rule tp_step.tp_guest [OF au])
  with reach have "(tp_step sample_env)\<^sup>*\<^sup>* tp_start (with_temporary ?l c, u, h)" by (rule rtranclp.rtrancl_into_rtrancl)
  then show ?thesis
    using i s(3,4) by (rule_tac that)
      (auto simp: with_temporary_def guest_session_ids_def publication_epoch_current_def is_current_def epoch_current_def
        sample_remote_def intro: le_less_trans [OF word_zero_le])
qed

section \<open>Properties\<close>

text \<open>
  C10. Disabling temporary access ends what its guests may do.  A disable intent begins in any reachable state of
  the publication; other tasks run; the handler reads the guests to revoke; it revokes their
  authorizations in any reachable registry, again with other calls in between.  Then for every guest in
  the table that was not admitted after the intent, no scope is allowed any more under a record that
  existed when the revocation began: only a request made afterwards can be granted.
\<close>

theorem disable_ends_guest_authority:
  assumes "(tp_step env)\<^sup>*\<^sup>* tp_start (c, u, k)" "begin_operation True c = (c', Ok e)"
    and "(tp_step env)\<^sup>*\<^sup>* (c', u, k) (d, v, l)" "disable_prologue e d = (d', Ok sids)"
    and "(au_step cr)\<^sup>*\<^sup>* au_start (g, h)" "revoking cr sids (g, h) (g', h')"
    and "map_of (ta_guest_sessions (pc_temporary d')) sid = Some (a, b, ap, x)" "\<not> e < x"
  shows "snd (allows_scope sid scope now (rg_inner g')) \<longrightarrow>
    (\<exists>r. map_of (ai_records (rg_inner g')) sid = Some r \<and> ai_next_instance_id (rg_inner g) < az_instance_id r)"
proof
  assume "snd (allows_scope sid scope now (rg_inner g'))"
  then obtain r grant where r: "map_of (ai_records (rg_inner g')) sid = Some r" "grant_in_force r scope now grant"
    by (auto simp: allows_scope_iff)
  then have "\<not> terminal_record r" by (simp add: grant_in_force_def terminal_record_def terminal_states)
  moreover have "sid \<in> set sids"
    by (rule disabled_guests_listed [OF tp.reachable_inv [OF refl assms(1)] assms(2-4,7,8)])
  ultimately have "\<not> az_instance_id r \<le> ai_next_instance_id (rg_inner g)"
    using revoking_terminal [OF assms(6) au.reachable_inv [OF refl assms(5)]] r(1) by auto
  with r(1) show "\<exists>r. map_of (ai_records (rg_inner g')) sid = Some r \<and> ai_next_instance_id (rg_inner g) < az_instance_id r"
    by (auto simp: not_le)
qed

theorem disable_ends_guest_authority_witness:
  "\<exists>c c' d' u k e g' h'. (tp_step sample_env)\<^sup>*\<^sup>* tp_start (c, u, k) \<and> begin_operation True c = (c', Ok e) \<and>
     disable_prologue e c' = (d', Ok [''s'']) \<and>
     snd (allows_scope ''s'' ScreenView 4000 (rg_inner (demo_registry 5))) \<and>
     revoking sample_suite [''s''] (demo_registry 5, demo_history 5) (g', h') \<and>
     \<not> snd (allows_scope ''s'' ScreenView 4000 (rg_inner g'))"
proof -
  obtain c u k a where c: "(tp_step sample_env)\<^sup>*\<^sup>* tp_start (c, u, k)"
    and guest: "map_of (ta_guest_sessions (pc_temporary c)) ''s'' = Some (a, ''c'', False, ta_applied_epoch (pc_temporary c))"
      "guest_session_ids (pc_temporary c) = [''s'']" "publication_epoch_current (pc_temporary c)"
      "map_option ti_current (ta_operation_epoch (pc_temporary c)) = Some 1"
    by (rule sample_guest)
  then obtain i where i: "ta_operation_epoch (pc_temporary c) = Some i" "ti_current i = 1" "ta_applied_epoch (pc_temporary c) = 1"
    by (auto simp: publication_epoch_current_def is_current_def epoch_current_def)
  obtain c' where c': "begin_operation True c = (c', Ok 2)"
      "ta_guest_sessions (pc_temporary c') = ta_guest_sessions (pc_temporary c)" "is_current 2 (ta_operation_epoch (pc_temporary c'))"
    using i by (simp add: begin_operation_def epoch_begin_def checked_add_code with_temporary_def with_operation_epoch_def
        is_current_def epoch_current_def)
  have "ta_guest_sessions (pc_temporary c) = [(''s'', a, ''c'', False, 1)]"
    using guest(1,2) i(3) by (auto simp: guest_session_ids_def map_eq_Cons_conv split: if_splits)
  then obtain d' where d': "disable_prologue 2 c' = (d', Ok [''s''])"
      "map_of (ta_guest_sessions (pc_temporary d')) ''s'' = Some (a, ''c'', False, 1)"
    using c'(2,3) by (simp add: disable_prologue_def apply_operation_epoch_def temporary_freeze_def with_temporary_def
        guest_session_ids_before_epoch_def)
  obtain j q where j: "record_failure ''s'' AuRevoked guest_revoked_failure 4000 (rg_inner (demo_registry 5)) = (j, q)"
    by (rule prod.exhaust)
  let ?g = "(demo_registry 5)\<lparr>rg_inner := j\<rparr>"
  have rv: "revoking sample_suite [''s''] (demo_registry 5, demo_history 5) (?g, demo_history 5)"
    by (rule rv_next [OF rtranclp.rtrancl_refl j rv_done [OF rtranclp.rtrancl_refl]])
  have "ai_next_instance_id (rg_inner (demo_registry 5)) = 1"
    "map_option az_instance_id (map_of (ai_records (fst (record_failure ''s'' AuRevoked guest_revoked_failure 4000
       (rg_inner (demo_registry 5))))) ''s'') = Some 1" by code_simp+
  with disable_ends_guest_authority [OF c c'(1) rtranclp.rtrancl_refl d'(1) demo_reaches rv d'(2), of ScreenView 4000] j
  have "\<not> snd (allows_scope ''s'' ScreenView 4000 (rg_inner ?g))" by auto
  with c c'(1) d'(1) rv demo_allowed show ?thesis by (metis demo_registry_inner)
qed

end
