(* ===== verification/Low_Latency.thy ===== *)
theory Low_Latency
  imports Mrd_Prelude "HOL-Library.Multiset"
begin

text \<open>
  The low-latency datagram layer of the QUIC transport (\<open>mrd-transport-quic-quinn/src/low_latency.rs\<close>):
  XOR parity over blocks of packets, the receiver that tracks missing sequence numbers, and the
  transmitter and receiver built from them.  A panic (an index out of range, \<open>unwrap\<close> of \<open>None\<close>) is an
  error value.  A \<open>HashSet\<close> is a list without duplicates whose order no theorem uses.  The clock is a
  parameter, in milliseconds; the endpoint's sends and reads are parameters.  Pacing delays are floating
  point and only delay a send; they are left out.
\<close>

section \<open>Parity encoder\<close>

datatype fec_scheme = FecXor | ReedSolomon

record fec_config =
  fc_enabled :: bool
  fc_scheme :: fec_scheme
  fc_block_size :: nat
  fc_parity_count :: nat

definition fec_config_default :: fec_config where
  "fec_config_default = \<lparr>fc_enabled = True, fc_scheme = FecXor, fc_block_size = 10, fc_parity_count = 2\<rparr>"

record fec_encoder =
  fe_config :: fec_config
  fe_buffer :: "bytes list"
  fe_sequence :: u32

record fec_packet =
  fp_base_sequence :: u32
  fp_block_size :: u16
  fp_parity_index :: u16
  fp_data :: bytes

record parity_packet =
  pp_index :: u16
  pp_data :: bytes

definition fec_encoder_new :: "fec_config \<Rightarrow> fec_encoder" where
  "fec_encoder_new config = \<lparr>fe_config = config, fe_buffer = [], fe_sequence = 0\<rparr>"

text \<open>\<open>acc[i] ^= byte\<close> for the bytes of a packet, as far as \<open>acc\<close> reaches.\<close>

fun xor_onto :: "bytes \<Rightarrow> bytes \<Rightarrow> bytes" where
  "xor_onto acc [] = acc"
| "xor_onto [] (b # bs) = []"
| "xor_onto (a # acc) (b # bs) = xor a b # xor_onto acc bs"

definition max_len :: "bytes list \<Rightarrow> nat" where
  "max_len packets = fold (\<lambda>p m. max m (length p)) packets 0"

definition generate_xor_parity :: "fec_encoder \<Rightarrow> parity_packet list" where
  "generate_xor_parity self =
     (let parity = fold (\<lambda>packet acc. xor_onto acc packet) (fe_buffer self) (replicate (max_len (fe_buffer self)) 0)
      in map (\<lambda>idx. \<lparr>pp_index = of_nat idx, pp_data = parity\<rparr>) [0..<fc_parity_count (fe_config self)])"

definition generate_rs_parity :: "fec_encoder \<Rightarrow> parity_packet list" where
  "generate_rs_parity self = generate_xor_parity self"

definition generate_parity :: "fec_encoder \<Rightarrow> parity_packet list" where
  "generate_parity self =
     (case fc_scheme (fe_config self) of FecXor \<Rightarrow> generate_xor_parity self | ReedSolomon \<Rightarrow> generate_rs_parity self)"

definition add_data_packet :: "bytes \<Rightarrow> fec_encoder \<Rightarrow> fec_encoder \<times> fec_packet list" where
  "add_data_packet data self =
     (let self = self\<lparr>fe_buffer := fe_buffer self @ [data]\<rparr>;
          seq = fe_sequence self;
          self = self\<lparr>fe_sequence := fe_sequence self + 1\<rparr>
      in if length (fe_buffer self) < fc_block_size (fe_config self) then (self, [])
         else let parity = generate_parity self;
                  self = self\<lparr>fe_buffer := []\<rparr>
              in (self, map (\<lambda>p. \<lparr>fp_base_sequence = seq - of_nat (fc_block_size (fe_config self)),
                    fp_block_size = of_nat (fc_block_size (fe_config self)), fp_parity_index = pp_index p,
                    fp_data = pp_data p\<rparr>) parity))"

text \<open>\<open>flush\<close> clears the buffer before it reads the buffer's length for the block size.\<close>

definition fec_flush :: "fec_encoder \<Rightarrow> fec_encoder \<times> fec_packet list" where
  "fec_flush self =
     (if fe_buffer self = [] then (self, [])
      else let seq = fe_sequence self - of_nat (length (fe_buffer self));
               parity = generate_parity self;
               self = self\<lparr>fe_buffer := []\<rparr>
           in (self, map (\<lambda>p. \<lparr>fp_base_sequence = seq, fp_block_size = of_nat (length (fe_buffer self)),
                 fp_parity_index = pp_index p, fp_data = pp_data p\<rparr>) parity))"

section \<open>Parity decoder\<close>

datatype fec_panic = IndexOutOfBounds | UnwrapNone

record fec_decoder =
  fd_config :: fec_config
  fd_buffer :: "bytes option list"
  fd_parity_packets :: "fec_packet option list"
  fd_base_sequence :: "u32 option"

definition fec_decoder_new :: "fec_config \<Rightarrow> fec_decoder" where
  "fec_decoder_new config = \<lparr>fd_config = config, fd_buffer = [], fd_parity_packets = [], fd_base_sequence = None\<rparr>"

definition fec_reset :: "fec_decoder \<Rightarrow> fec_decoder" where
  "fec_reset self = self\<lparr>fd_buffer := [], fd_parity_packets := [], fd_base_sequence := None\<rparr>"

definition recover_slot :: "bytes \<Rightarrow> bytes option list \<Rightarrow> nat \<Rightarrow> bytes" where
  "recover_slot parity_data buffer i =
     fold (\<lambda>(j, p) acc. if i \<noteq> j then (case p of Some data \<Rightarrow> xor_onto acc data | None \<Rightarrow> acc) else acc)
       (enumerate 0 buffer) parity_data"

definition recover_with_xor_internal :: "bytes \<Rightarrow> bytes option list \<Rightarrow> bytes option list \<times> bytes list" where
  "recover_with_xor_internal parity_data buffer =
     fold (\<lambda>i (buf, recovered).
         if buf ! i = None
         then let r = recover_slot parity_data buf i in (buf[i := Some r], recovered @ [r])
         else (buf, recovered))
       [0..<length buffer] (buffer, [])"

definition drain_all :: "fec_decoder \<Rightarrow> (fec_decoder \<times> bytes list, fec_panic) result" where
  "drain_all self =
     (if None \<in> set (fd_buffer self) then Err UnwrapNone
      else Ok (fec_reset self, map the (fd_buffer self)))"

definition try_recover :: "fec_decoder \<Rightarrow> (fec_decoder \<times> bytes list, fec_panic) result" where
  "try_recover self =
     (let missing_count = length (filter (\<lambda>p. p = None) (fd_buffer self));
          fec_count = length (filter (\<lambda>p. p \<noteq> None) (fd_parity_packets self))
      in if missing_count = 0 then drain_all self
         else if missing_count > 0 \<and> missing_count \<le> fec_count then
           (case fd_parity_packets self of
              Some parity # _ \<Rightarrow>
                drain_all (self\<lparr>fd_buffer := fst (recover_with_xor_internal (fp_data parity) (fd_buffer self))\<rparr>)
            | _ \<Rightarrow> Ok (self, []))
         else Ok (self, []))"

definition process_data :: "u32 \<Rightarrow> bytes \<Rightarrow> fec_decoder \<Rightarrow> (fec_decoder \<times> bytes list, fec_panic) result" where
  "process_data seq data self =
     (let self = (if fd_base_sequence self = None
                  then self\<lparr>fd_base_sequence := Some seq,
                         fd_buffer := replicate (fc_block_size (fd_config self)) None,
                         fd_parity_packets := replicate (fc_parity_count (fd_config self)) None\<rparr>
                  else self);
          base = the (fd_base_sequence self);
          offset = unat (seq - base)
      in if offset \<ge> fc_block_size (fd_config self) then Ok (self, [])
         else if offset \<ge> length (fd_buffer self) then Err IndexOutOfBounds
         else try_recover (self\<lparr>fd_buffer := (fd_buffer self)[offset := Some data]\<rparr>))"

definition process_fec :: "fec_packet \<Rightarrow> fec_decoder \<Rightarrow> (fec_decoder \<times> bytes list, fec_panic) result" where
  "process_fec fec self =
     (let self = (if fd_base_sequence self = None
                  then self\<lparr>fd_base_sequence := Some (fp_base_sequence fec),
                         fd_buffer := replicate (unat (fp_block_size fec)) None,
                         fd_parity_packets := replicate (fc_parity_count (fd_config self)) None\<rparr>
                  else self);
          fec_idx = unat (fp_parity_index fec)
      in if fec_idx \<ge> length (fd_parity_packets self) then Ok (self, [])
         else try_recover (self\<lparr>fd_parity_packets := (fd_parity_packets self)[fec_idx := Some fec]\<rparr>))"

section \<open>Missing sequence numbers\<close>

record nack_config =
  nc_enabled :: bool
  nc_max_nacked_seqs :: nat
  nc_nack_timeout_ms :: nat
  nc_max_nack_retries :: u32

definition nack_config_default :: nack_config where
  "nack_config_default = \<lparr>nc_enabled = True, nc_max_nacked_seqs = 20, nc_nack_timeout_ms = 50, nc_max_nack_retries = 3\<rparr>"

record nack_receiver =
  nr_config :: nack_config
  nr_expected_sequence :: u32
  nr_missing_sequences :: "u32 list"
  nr_nack_retries :: "(u32, u32) hash_map"
  nr_last_nack_time :: "nat option"

definition nack_receiver_new :: "nack_config \<Rightarrow> u32 \<Rightarrow> nack_receiver" where
  "nack_receiver_new config initial_sequence =
     \<lparr>nr_config = config, nr_expected_sequence = initial_sequence, nr_missing_sequences = [],
      nr_nack_retries = [], nr_last_nack_time = None\<rparr>"

text \<open>The range \<open>a..b\<close> of \<open>u32\<close>: empty unless \<open>a\<close> is below \<open>b\<close>.\<close>

definition u32_range :: "u32 \<Rightarrow> u32 \<Rightarrow> u32 list" where
  "u32_range a b = map of_nat [unat a..<unat b]"

definition should_send_nack :: "nat \<Rightarrow> nack_receiver \<Rightarrow> bool" where
  "should_send_nack now self =
     (if \<not> nc_enabled (nr_config self) \<or> nr_missing_sequences self = [] then False
      else (case nr_last_nack_time self of
              Some sent \<Rightarrow> \<not> now - sent < nc_nack_timeout_ms (nr_config self)
            | None \<Rightarrow> True))"

definition mark_missing :: "u32 \<Rightarrow> nack_receiver \<Rightarrow> nack_receiver" where
  "mark_missing missing self =
     self\<lparr>nr_missing_sequences := List.insert missing (nr_missing_sequences self),
       nr_nack_retries := AList.update missing 0 (nr_nack_retries self)\<rparr>"

definition process_packet :: "nat \<Rightarrow> u32 \<Rightarrow> nack_receiver \<Rightarrow> nack_receiver \<times> u32 list option" where
  "process_packet now seq self =
     (let self = self\<lparr>nr_missing_sequences := removeAll seq (nr_missing_sequences self),
            nr_nack_retries := AList.delete seq (nr_nack_retries self)\<rparr>;
          seq_delta = seq - nr_expected_sequence self;
          self = (if seq_delta > 0 \<and> seq_delta < 1000
                  then fold mark_missing (u32_range (nr_expected_sequence self) seq) self else self);
          self = self\<lparr>nr_expected_sequence := seq + 1\<rparr>
      in (self, if should_send_nack now self then Some (nr_missing_sequences self) else None))"

definition update_nack_sent :: "nat \<Rightarrow> nack_receiver \<Rightarrow> nack_receiver" where
  "update_nack_sent now self = self\<lparr>nr_last_nack_time := Some now\<rparr>"

text \<open>\<open>increment_retry\<close> panics in a checked build when the count overflows (\<open>None\<close>).\<close>

definition increment_retry :: "u32 \<Rightarrow> nack_receiver \<Rightarrow> nack_receiver option" where
  "increment_retry seq self =
     (case checked_add (case map_of (nr_nack_retries self) seq of None \<Rightarrow> 0 | Some n \<Rightarrow> n) 1 of
        None \<Rightarrow> None
      | Some n \<Rightarrow> Some (self\<lparr>nr_nack_retries := AList.update seq n (nr_nack_retries self)\<rparr>))"

definition is_retry_exhausted :: "u32 \<Rightarrow> nack_receiver \<Rightarrow> bool" where
  "is_retry_exhausted seq self \<longleftrightarrow>
     (case map_of (nr_nack_retries self) seq of None \<Rightarrow> 0 | Some n \<Rightarrow> n) \<ge> nc_max_nack_retries (nr_config self)"

section \<open>Transmitter\<close>

datatype transmission_task = TxData u32 bytes | TxFec fec_packet | TxRetransmit u32 bytes

record low_latency_tx =
  tx_nack_config :: nack_config
  tx_fec_encoder :: fec_encoder
  tx_send_queue :: "transmission_task list"

definition tx_new :: "fec_config \<Rightarrow> nack_config \<Rightarrow> low_latency_tx" where
  "tx_new fec_config nack_config =
     \<lparr>tx_nack_config = nack_config, tx_fec_encoder = fec_encoder_new fec_config, tx_send_queue = []\<rparr>"

definition tx_send :: "u32 \<Rightarrow> bytes \<Rightarrow> low_latency_tx \<Rightarrow> low_latency_tx" where
  "tx_send sequence data self =
     (case add_data_packet data (tx_fec_encoder self) of
        (encoder, fec_packets) \<Rightarrow>
          self\<lparr>tx_fec_encoder := encoder,
            tx_send_queue := tx_send_queue self @ [TxData sequence data] @ map TxFec fec_packets\<rparr>)"

definition request_retransmit :: "u32 list \<Rightarrow> low_latency_tx \<Rightarrow> low_latency_tx" where
  "request_retransmit sequence_numbers self =
     (if \<not> nc_enabled (tx_nack_config self) then self
      else self\<lparr>tx_send_queue := tx_send_queue self @ map (\<lambda>seq. TxRetransmit seq []) sequence_numbers\<rparr>)"

definition tx_flush :: "low_latency_tx \<Rightarrow> low_latency_tx" where
  "tx_flush self =
     (case fec_flush (tx_fec_encoder self) of
        (encoder, fec_packets) \<Rightarrow>
          self\<lparr>tx_fec_encoder := encoder, tx_send_queue := tx_send_queue self @ map TxFec fec_packets\<rparr>)"

definition encode_fec_packet :: "fec_packet \<Rightarrow> bytes" where
  "encode_fec_packet packet =
     u32_le (fp_base_sequence packet) @ u16_le (fp_block_size packet) @ u16_le (fp_parity_index packet) @ fp_data packet"

text \<open>One wake-up of the pump: it sends until the queue is empty or a send fails.\<close>

fun task_datagram :: "transmission_task \<Rightarrow> bytes" where
  "task_datagram (TxData _ data) = data"
| "task_datagram (TxRetransmit _ data) = data"
| "task_datagram (TxFec packet) = encode_fec_packet packet"

fun pump :: "('n \<Rightarrow> bytes \<Rightarrow> 'n \<times> bool) \<Rightarrow> 'n \<Rightarrow> transmission_task list \<Rightarrow> 'n \<times> transmission_task list" where
  "pump send_datagram n [] = (n, [])"
| "pump send_datagram n (task # queue) =
     (case send_datagram n (task_datagram task) of
        (n, True) \<Rightarrow> pump send_datagram n queue
      | (n, False) \<Rightarrow> (n, queue))"

section \<open>Receiver\<close>

record low_latency_rx =
  rx_fec_decoder :: fec_decoder
  rx_nack_receiver :: nack_receiver

definition rx_new :: "fec_config \<Rightarrow> nack_config \<Rightarrow> low_latency_rx" where
  "rx_new fec_config nack_config =
     \<lparr>rx_fec_decoder = fec_decoder_new fec_config, rx_nack_receiver = nack_receiver_new nack_config 0\<rparr>"

definition parse_fec_packet :: "bytes \<Rightarrow> (fec_packet, unit) result" where
  "parse_fec_packet datagram =
     (if length datagram < 8 then Err ()
      else Ok \<lparr>fp_base_sequence = u32_of_le (take 4 datagram), fp_block_size = u16_of_le (take 2 (drop 4 datagram)),
             fp_parity_index = u16_of_le (take 2 (drop 6 datagram)), fp_data = drop 8 datagram\<rparr>)"

text \<open>One round of the loop of \<open>recv\<close>: a datagram, and the packets to return when there are any.\<close>

definition rx_datagram ::
  "nat \<Rightarrow> bytes \<Rightarrow> low_latency_rx \<Rightarrow> (low_latency_rx \<times> bytes list, fec_panic) result" where
  "rx_datagram now datagram self =
     (case parse_fec_packet datagram of
        Ok fec \<Rightarrow> and_then (process_fec fec (rx_fec_decoder self))
          (\<lambda>(decoder, recovered). Ok (self\<lparr>rx_fec_decoder := decoder\<rparr>, recovered))
      | Err _ \<Rightarrow>
          if length datagram \<ge> 4 then
            let seq = u32_of_le (take 4 datagram);
                data = drop 4 datagram;
                (receiver, nack) = process_packet now seq (rx_nack_receiver self);
                receiver = (if nack \<noteq> None then update_nack_sent now receiver else receiver)
            in and_then (process_data seq data (rx_fec_decoder self))
                 (\<lambda>(decoder, recovered).
                    Ok (self\<lparr>rx_nack_receiver := receiver, rx_fec_decoder := decoder\<rparr>, recovered))
          else Ok (self, []))"

datatype rx_error = ReceiveFailed string | RxPanic fec_panic

datatype recv_outcome = Received "bytes list" low_latency_rx | RecvFailed rx_error | Waiting low_latency_rx

text \<open>\<open>recv\<close> over the results of \<open>read_datagram\<close>; when they are used up it still waits.\<close>

fun recv :: "(string + nat \<times> bytes) list \<Rightarrow> low_latency_rx \<Rightarrow> recv_outcome" where
  "recv [] self = Waiting self"
| "recv (Inl e # reads) self = RecvFailed (ReceiveFailed e)"
| "recv (Inr (now, datagram) # reads) self =
     (case rx_datagram now datagram self of
        Inl p \<Rightarrow> RecvFailed (RxPanic p)
      | Inr (self, recovered) \<Rightarrow> if recovered \<noteq> [] then Received recovered self else recv reads self)"

section \<open>Parity\<close>

lemma length_xor_onto [simp]: "length (xor_onto acc bs) = length acc"
  by (induction acc bs rule: xor_onto.induct) simp_all

lemma nth_xor_onto:
  "k < length acc \<Longrightarrow> xor_onto acc bs ! k = (if k < length bs then xor (acc ! k) (bs ! k) else acc ! k)"
proof (induction acc bs arbitrary: k rule: xor_onto.induct)
  case (3 a acc b bs)
  then show ?case by (cases k) simp_all
qed simp_all

lemma xor_onto_commute: "xor_onto (xor_onto acc a) b = xor_onto (xor_onto acc b) a"
  by (rule nth_equalityI) (simp_all add: nth_xor_onto xor.assoc xor.commute xor.left_commute)

lemma xor_onto_twice [simp]: "xor_onto (xor_onto acc a) a = acc"
  by (rule nth_equalityI) (simp_all add: nth_xor_onto xor.assoc)

abbreviation xor_all :: "bytes list \<Rightarrow> bytes \<Rightarrow> bytes" where
  "xor_all ps acc \<equiv> fold (\<lambda>p a. xor_onto a p) ps acc"

lemma xor_all_onto: "xor_all ps (xor_onto acc a) = xor_onto (xor_all ps acc) a"
  by (induction ps arbitrary: acc) (simp_all add: xor_onto_commute)

lemma length_xor_all [simp]: "length (xor_all ps acc) = length acc"
  by (induction ps arbitrary: acc) simp_all

lemma xor_all_twice: "xor_all ps (xor_all ps acc) = acc"
  by (induction ps arbitrary: acc) (simp_all add: xor_all_onto)

lemma xor_all_mset: "mset ps = mset qs \<Longrightarrow> xor_all ps acc = xor_all qs acc"
proof (induction ps arbitrary: qs acc)
  case (Cons p ps)
  then have "p \<in> set qs" by (metis list.set_intros(1) mset_eq_setD)
  then obtain q1 q2 where qs: "qs = q1 @ p # q2" by (meson split_list)
  with Cons.prems have "mset ps = mset (q1 @ q2)" by simp
  then have "xor_all ps (xor_onto acc p) = xor_all (q1 @ q2) (xor_onto acc p)" by (rule Cons.IH)
  also have "\<dots> = xor_all qs acc" by (simp add: qs xor_all_onto)
  finally show ?case by simp
qed simp

lemma max_len_ge: "p \<in> set ps \<Longrightarrow> length p \<le> max_len ps"
proof -
  have mono: "m \<le> fold (\<lambda>p m. max m (length p)) ps m" for m and ps :: "bytes list"
    by (induction ps arbitrary: m) (simp_all, meson max.cobounded1 order.trans)
  have "p \<in> set ps \<Longrightarrow> length p \<le> fold (\<lambda>p m. max m (length p)) ps m" for m
    by (induction ps arbitrary: m) (use mono in \<open>auto intro: order.trans [OF max.cobounded2]\<close>)
  then show "p \<in> set ps \<Longrightarrow> length p \<le> max_len ps" by (simp add: max_len_def)
qed

lemma max_len_mset: "mset ps = mset qs \<Longrightarrow> max_len ps = max_len qs"
proof -
  have "max_len xs = Max (insert 0 (length ` set xs))" for xs :: "bytes list"
  proof -
    have "fold (\<lambda>p m. max m (length p)) xs m = Max (insert m (length ` set xs))" for m
    proof (induction xs arbitrary: m)
      case (Cons x xs)
      have "Max (insert (max m (length x)) (length ` set xs)) = Max (insert m (length ` set (x # xs)))"
        by (cases "xs = []") (simp_all add: max.assoc)
      with Cons show ?case by simp
    qed simp
    then show ?thesis by (simp add: max_len_def)
  qed
  then show "mset ps = mset qs \<Longrightarrow> max_len ps = max_len qs" by (metis mset_eq_setD)
qed

text \<open>A packet brought to the length of the parity.\<close>

definition padded :: "nat \<Rightarrow> bytes \<Rightarrow> bytes" where
  "padded n p = p @ replicate (n - length p) 0"

lemma xor_onto_zero: "length p \<le> n \<Longrightarrow> xor_onto (replicate n 0) p = padded n p"
  by (rule nth_equalityI) (auto simp: nth_xor_onto padded_def nth_append)

lemma padded_same [simp]: "length p = n \<Longrightarrow> padded n p = p"
  by (simp add: padded_def)

text \<open>The parity of a block, and what cancelling all packets but one leaves.\<close>

definition block_parity :: "bytes list \<Rightarrow> bytes" where
  "block_parity ps = xor_all ps (replicate (max_len ps) 0)"

lemma cancel_all_but_one:
  assumes "ps = pre @ x # post"
  shows "xor_all (pre @ post) (block_parity ps) = padded (max_len ps) x"
proof -
  have "block_parity ps = xor_all (pre @ post) (xor_onto (replicate (max_len ps) 0) x)"
    unfolding block_parity_def by (simp add: assms xor_all_onto)
  moreover have "length x \<le> max_len ps" by (rule max_len_ge) (simp add: assms)
  ultimately show ?thesis by (simp add: xor_all_twice xor_onto_zero del: fold_append)
qed

lemma block_parity_mset: "mset ps = mset qs \<Longrightarrow> block_parity ps = block_parity qs"
  using xor_all_mset [of ps qs] max_len_mset [of ps qs] by (simp add: block_parity_def)

section \<open>Decoding a block\<close>

text \<open>The slots of a block \<open>xs\<close> of which the packets at the offsets \<open>J\<close> have arrived.\<close>

definition slots :: "bytes list \<Rightarrow> nat set \<Rightarrow> bytes option list" where
  "slots xs J = map (\<lambda>j. if j \<in> J then Some (xs ! j) else None) [0..<length xs]"

lemma length_slots [simp]: "length (slots xs J) = length xs"
  by (simp add: slots_def)

lemma slots_empty: "slots xs {} = replicate (length xs) None"
  by (simp add: slots_def map_replicate_trivial)

lemma slots_update: "j < length xs \<Longrightarrow> (slots xs J)[j := Some (xs ! j)] = slots xs (insert j J)"
  by (rule nth_equalityI) (auto simp: slots_def nth_list_update)

lemma slots_all: "{0..<length xs} \<subseteq> J \<Longrightarrow> slots xs J = map Some xs"
  by (rule nth_equalityI) (auto simp: slots_def)

lemma slots_missing: "length (filter (\<lambda>p. p = None) (slots xs J)) = card ({0..<length xs} - J)"
proof -
  have "length (filter (\<lambda>p. p = None) (slots xs J)) = card {j. j < length xs \<and> j \<notin> J}"
    unfolding length_filter_conv_card by (rule arg_cong [where f = card]) (auto simp: slots_def)
  also have "{j. j < length xs \<and> j \<notin> J} = {0..<length xs} - J" by auto
  finally show ?thesis .
qed

lemma recover_slot_skip:
  "\<forall>x \<in> set (enumerate n (map Some ps)). i \<noteq> fst x \<Longrightarrow>
   fold (\<lambda>(j, p) acc. if i \<noteq> j then (case p of Some data \<Rightarrow> xor_onto acc data | None \<Rightarrow> acc) else acc)
     (enumerate n (map Some ps)) acc = xor_all ps acc"
  by (induction ps arbitrary: n acc) auto

lemma recover_slot_one:
  "recover_slot parity (map Some pre @ None # map Some post) (length pre) = xor_all (pre @ post) parity"
proof -
  have "\<forall>x \<in> set (enumerate 0 (map Some pre)). length pre \<noteq> fst x"
    and "\<forall>x \<in> set (enumerate (Suc (length pre)) (map Some post)). length pre \<noteq> fst x"
    by (auto simp: in_set_enumerate_eq)
  from recover_slot_skip [OF this(1)] recover_slot_skip [OF this(2)] show ?thesis
    by (simp add: recover_slot_def enumerate_append_eq)
qed

lemma recover_keeps:
  "\<forall>i \<in> set is. buf ! i \<noteq> None \<Longrightarrow>
   fold (\<lambda>i (buf, rec). if buf ! i = None then let r = recover_slot parity buf i in (buf[i := Some r], rec @ [r]) else (buf, rec))
     is (buf, rec) = (buf, rec)"
  by (induction "is" arbitrary: rec) auto

lemma recover_one:
  "fst (recover_with_xor_internal parity (map Some pre @ None # map Some post)) =
     map Some pre @ Some (xor_all (pre @ post) parity) # map Some post"
proof -
  let ?n = "length pre" and ?b = "map Some pre @ None # map Some post"
  let ?c = "map Some pre @ Some (xor_all (pre @ post) parity) # map Some post"
  let ?f = "\<lambda>i (buf, rec). if buf ! i = None then let r = recover_slot parity buf i in (buf[i := Some r], rec @ [r]) else (buf, rec)"
  have "[0..<length ?b] = [0..<?n] @ ?n # [Suc ?n..<length ?b]"
    using upt_add_eq_append [of 0 ?n "Suc (length post)"] upt_conv_Cons [of ?n "?n + Suc (length post)"]
    by (simp del: upt_Suc)
  moreover have "fold ?f [0..<?n] (?b, []) = (?b, [])"
    by (rule recover_keeps) (simp add: nth_append)
  moreover have "?f ?n (?b, []) = (?c, [xor_all (pre @ post) parity])"
    using recover_slot_one [of parity pre post] by (simp add: Let_def nth_append list_update_append)
  moreover have "fold ?f [Suc ?n..<length ?b] (?c, [xor_all (pre @ post) parity]) = (?c, [xor_all (pre @ post) parity])"
    by (rule recover_keeps) (auto simp: nth_append nth_Cons split: nat.splits)
  ultimately show ?thesis unfolding recover_with_xor_internal_def by simp
qed

lemma slots_one_missing:
  assumes "i < length xs" "{0..<length xs} - J = {i}"
  shows "slots xs J = map Some (take i xs) @ None # map Some (drop (Suc i) xs)"
proof (rule nth_equalityI)
  fix k
  assume "k < length (slots xs J)"
  then have k: "k < length xs" by simp
  have "k \<in> {0..<length xs} - J \<longleftrightarrow> k \<in> {i}" by (simp only: assms(2))
  with k have "k \<in> J \<longleftrightarrow> k \<noteq> i" by auto
  then have "slots xs J ! k = (if k = i then None else Some (xs ! k))" using k by (simp add: slots_def)
  moreover have "(map Some (take i xs) @ None # map Some (drop (Suc i) xs)) ! k = (if k = i then None else Some (xs ! k))"
  proof (cases "k \<le> i")
    case False
    then obtain m where m: "k = Suc (i + m)" using less_imp_Suc_add not_le by blast
    then show ?thesis using k assms(1) by (simp add: nth_append)
  qed (use k assms(1) in \<open>auto simp: nth_append\<close>)
  ultimately show "slots xs J ! k = (map Some (take i xs) @ None # map Some (drop (Suc i) xs)) ! k" by simp
qed (use assms(1) in simp)

text \<open>With one packet missing and its parity first, the decoder returns the block, the missing packet padded.\<close>

lemma try_recover_one:
  assumes "fd_buffer d = slots xs J" "i < length xs" "{0..<length xs} - J = {i}"
    and "fd_parity_packets d = Some f # rest" "fp_data f = block_parity xs"
  shows "try_recover d = Ok (fec_reset d, xs[i := padded (max_len xs) (xs ! i)])"
proof -
  have xs: "xs = take i xs @ xs ! i # drop (Suc i) xs" using assms(2) by (rule id_take_nth_drop)
  have miss: "length (filter (\<lambda>p. p = None) (fd_buffer d)) = 1"
    using slots_missing [of xs J] assms(1,3) by simp
  let ?r = "fst (recover_with_xor_internal (fp_data f) (fd_buffer d))"
  have r: "?r = map Some (xs[i := padded (max_len xs) (xs ! i)])"
    unfolding assms(1,5) slots_one_missing [OF assms(2,3)] recover_one cancel_all_but_one [OF xs]
    by (simp add: upd_conv_take_nth_drop [OF assms(2)])
  have "None \<notin> set ?r" unfolding r by auto
  moreover have "map the ?r = xs[i := padded (max_len xs) (xs ! i)]" unfolding r by (simp add: o_def)
  ultimately have "drain_all (d\<lparr>fd_buffer := ?r\<rparr>) = Ok (fec_reset d, xs[i := padded (max_len xs) (xs ! i)])"
    by (simp add: drain_all_def fec_reset_def)
  with miss assms(4) show ?thesis by (simp add: try_recover_def Let_def)
qed

lemma try_recover_waits:
  assumes "fd_buffer d = slots xs J" "length (filter (\<lambda>p. p \<noteq> None) (fd_parity_packets d)) < card ({0..<length xs} - J)"
  shows "try_recover d = Ok (d, [])"
proof -
  have "\<not> {0..<length xs} \<subseteq> J" using assms(2) by (metis Diff_eq_empty_iff card.empty not_less_zero)
  with assms slots_missing [of xs J] show ?thesis by (simp add: try_recover_def Let_def)
qed

text \<open>A data packet of the block the decoder is on.\<close>

lemma process_data_in_block:
  assumes "fd_base_sequence d = Some base" "fd_buffer d = slots xs J" "fc_block_size (fd_config d) = length xs"
    and "j < length xs" "length xs < 2 ^ 32"
  shows "process_data (base + of_nat j) (xs ! j) d = try_recover (d\<lparr>fd_buffer := slots xs (insert j J)\<rparr>)"
proof -
  have "unat (base + of_nat j - base) = j"
    using assms(4,5) by (simp add: unat_of_nat)
  with assms show ?thesis by (simp add: process_data_def slots_update)
qed

datatype fec_event = FecData u32 bytes | FecParity fec_packet

fun decode_run :: "fec_event list \<Rightarrow> fec_decoder \<Rightarrow> (fec_decoder \<times> bytes list list, fec_panic) result" where
  "decode_run [] d = Ok (d, [])"
| "decode_run (e # es) d =
     and_then (case e of FecData seq data \<Rightarrow> process_data seq data d | FecParity f \<Rightarrow> process_fec f d)
       (\<lambda>(d, out). and_then (decode_run es d) (\<lambda>(d, outs). Ok (d, out # outs)))"

lemma decode_run_append:
  "decode_run (es @ fs) d = and_then (decode_run es d) (\<lambda>(d, outs). and_then (decode_run fs d) (\<lambda>(d, outs'). Ok (d, outs @ outs')))"
proof (induction es arbitrary: d)
  case Nil
  then show ?case by (cases "decode_run fs d") auto
next
  case (Cons e es)
  show ?case
  proof (cases "case e of FecData seq data \<Rightarrow> process_data seq data d | FecParity f \<Rightarrow> process_fec f d")
    case (Inr r)
    obtain d' out where r: "r = (d', out)" by (rule prod.exhaust)
    show ?thesis
    proof (cases "decode_run es d'")
      case es: (Inr q)
      obtain d'' outs where q: "q = (d'', outs)" by (rule prod.exhaust)
      show ?thesis using Inr Cons r es q by (cases "decode_run fs d''") auto
    qed (use Inr Cons r in simp)
  qed simp
qed

text \<open>Data packets of one block that leave enough missing only fill slots.\<close>

lemma decode_data_fills:
  assumes "fd_base_sequence d = Some base" "fd_buffer d = slots xs J" "fc_block_size (fd_config d) = length xs"
    and "length xs < 2 ^ 32" "set js \<subseteq> {0..<length xs}"
    and "length (filter (\<lambda>p. p \<noteq> None) (fd_parity_packets d)) < card ({0..<length xs} - (J \<union> set js))"
  shows "decode_run (map (\<lambda>j. FecData (base + of_nat j) (xs ! j)) js) d =
    Ok (d\<lparr>fd_buffer := slots xs (J \<union> set js)\<rparr>, replicate (length js) [])"
  using assms
proof (induction js arbitrary: d J)
  case (Cons j js)
  let ?d = "d\<lparr>fd_buffer := slots xs (insert j J)\<rparr>"
  have sub: "{0..<length xs} - (J \<union> set (j # js)) \<subseteq> {0..<length xs} - insert j J" by auto
  have "card ({0..<length xs} - (J \<union> set (j # js))) \<le> card ({0..<length xs} - insert j J)"
    by (rule card_mono [OF _ sub]) simp
  with Cons.prems have "try_recover ?d = Ok (?d, [])" by (intro try_recover_waits [of _ xs "insert j J"]) simp_all
  moreover have "process_data (base + of_nat j) (xs ! j) d = try_recover ?d"
    using Cons.prems by (intro process_data_in_block) simp_all
  moreover have "decode_run (map (\<lambda>j. FecData (base + of_nat j) (xs ! j)) js) ?d =
      Ok (?d\<lparr>fd_buffer := slots xs (insert j J \<union> set js)\<rparr>, replicate (length js) [])"
    using Cons.prems by (intro Cons.IH) simp_all
  ultimately show ?case by simp
qed simp

text \<open>A packet of a block by its place, or the parity packet of the block.\<close>

definition block_event :: "u32 \<Rightarrow> bytes list \<Rightarrow> fec_packet \<Rightarrow> nat option \<Rightarrow> fec_event" where
  "block_event base xs f a = (case a of Some j \<Rightarrow> FecData (base + of_nat j) (xs ! j) | None \<Rightarrow> FecParity f)"

text \<open>The decoder in a block of which the packets \<open>J\<close> and perhaps the parity have arrived.\<close>

definition block_state :: "fec_config \<Rightarrow> u32 \<Rightarrow> bytes list \<Rightarrow> fec_packet \<Rightarrow> nat set \<Rightarrow> bool \<Rightarrow> fec_decoder" where
  "block_state cfg base xs f J p = (fec_decoder_new cfg)\<lparr>fd_base_sequence := Some base, fd_buffer := slots xs J,
     fd_parity_packets := (replicate (fc_parity_count cfg) None)[0 := if p then Some f else None]\<rparr>"

lemma block_state_step:
  assumes "length xs = fc_block_size cfg" "0 < fc_parity_count cfg" "length xs < 2 ^ 32" "fp_parity_index f = 0"
    and "\<forall>j. a = Some j \<longrightarrow> j < length xs"
  shows "decode_run [block_event base xs f a] (block_state cfg base xs f J p) =
    and_then (try_recover (block_state cfg base xs f (J \<union> {j. Some j = a}) (p \<or> a = None))) (\<lambda>(d, out). Ok (d, [out]))"
proof (cases a)
  case None
  then show ?thesis using assms
    by (simp add: block_event_def process_fec_def block_state_def fec_decoder_new_def Let_def)
next
  case (Some j)
  have "process_data (base + of_nat j) (xs ! j) (block_state cfg base xs f J p) =
      try_recover ((block_state cfg base xs f J p)\<lparr>fd_buffer := slots xs (insert j J)\<rparr>)"
    by (rule process_data_in_block) (use assms Some in \<open>simp_all add: block_state_def fec_decoder_new_def\<close>)
  moreover have "(block_state cfg base xs f J p)\<lparr>fd_buffer := slots xs (insert j J)\<rparr> = block_state cfg base xs f (insert j J) p"
    by (simp add: block_state_def)
  ultimately show ?thesis by (simp add: Some block_event_def)
qed

lemma block_state_waits:
  assumes "0 < fc_parity_count cfg" "(if p then 1 else 0) < card ({0..<length xs} - J)"
  shows "try_recover (block_state cfg base xs f J p) = Ok (block_state cfg base xs f J p, [])"
proof (rule try_recover_waits [of _ xs J])
  obtain m where "fc_parity_count cfg = Suc m" using assms(1) gr0_implies_Suc by blast
  with assms(2) show "length (filter (\<lambda>p. p \<noteq> None) (fd_parity_packets (block_state cfg base xs f J p))) < card ({0..<length xs} - J)"
    by (cases p) (simp_all add: block_state_def)
qed (simp add: block_state_def)

text \<open>Arrivals that leave something missing only fill slots; the last one completes the block.\<close>

lemma block_state_fills:
  assumes "length xs = fc_block_size cfg" "0 < fc_parity_count cfg" "length xs < 2 ^ 32" "fp_parity_index f = 0"
    and "\<forall>j. Some j \<in> set as \<longrightarrow> j < length xs"
    and "(if p \<or> None \<in> set as then 1 else 0) < card ({0..<length xs} - (J \<union> {j. Some j \<in> set as}))"
  shows "decode_run (map (block_event base xs f) as) (block_state cfg base xs f J p) =
    Ok (block_state cfg base xs f (J \<union> {j. Some j \<in> set as}) (p \<or> None \<in> set as), replicate (length as) [])"
  using assms(5,6)
proof (induction as arbitrary: J p)
  case (Cons a as)
  let ?J = "J \<union> {j. Some j = a}" and ?p = "p \<or> a = None"
  have J: "?J \<union> {j. Some j \<in> set as} = J \<union> {j. Some j \<in> set (a # as)}" by auto
  have "card ({0..<length xs} - (J \<union> {j. Some j \<in> set (a # as)})) \<le> card ({0..<length xs} - ?J)"
    by (intro card_mono) auto
  then have "(if ?p then 1 else 0) < card ({0..<length xs} - ?J)" using Cons.prems(2) by (auto split: if_splits)
  from block_state_waits [OF assms(2) this]
  have one: "decode_run [block_event base xs f a] (block_state cfg base xs f J p) = Ok (block_state cfg base xs f ?J ?p, [[]])"
    using block_state_step [OF assms(1-4), of a base J p] Cons.prems(1) by simp
  have rest: "decode_run (map (block_event base xs f) as) (block_state cfg base xs f ?J ?p) =
      Ok (block_state cfg base xs f (?J \<union> {j. Some j \<in> set as}) (?p \<or> None \<in> set as), replicate (length as) [])"
    using Cons.prems by (intro Cons.IH) (auto simp: J split: if_splits)
  have "(?p \<or> None \<in> set as) = (p \<or> None \<in> set (a # as))" by auto
  with one rest decode_run_append [of "[block_event base xs f a]" "map (block_event base xs f) as"] show ?case
    by (simp add: J)
qed simp

lemma block_state_completes:
  assumes "length xs = fc_block_size cfg" "0 < fc_parity_count cfg" "length xs < 2 ^ 32"
    and "fp_parity_index f = 0" "fp_data f = block_parity xs" "i < length xs"
    and "{0..<length xs} - (J \<union> {j. Some j = a}) = {i}" "p \<or> a = None" "\<forall>j. a = Some j \<longrightarrow> j < length xs"
  shows "decode_run [block_event base xs f a] (block_state cfg base xs f J p) =
    Ok (fec_decoder_new cfg, [xs[i := padded (max_len xs) (xs ! i)]])"
proof -
  let ?d = "block_state cfg base xs f (J \<union> {j. Some j = a}) True"
  obtain m where "fc_parity_count cfg = Suc m" using assms(2) gr0_implies_Suc by blast
  then have "try_recover ?d = Ok (fec_reset ?d, xs[i := padded (max_len xs) (xs ! i)])"
    by (intro try_recover_one [OF _ assms(6,7), where f = f and rest = "replicate m None"])
      (use assms(5) in \<open>simp_all add: block_state_def\<close>)
  moreover have "fec_reset ?d = fec_decoder_new cfg" by (simp add: fec_reset_def block_state_def fec_decoder_new_def)
  ultimately show ?thesis
    using block_state_step [OF assms(1-4,9), of base J p] assms(8) by (simp split del: if_split)
qed

text \<open>Before the arrival that completes a block with one loss, a packet or the parity is missing too.\<close>

lemma one_loss_waits:
  fixes i n :: nat
  assumes "i < n" "insert z A = insert None (Some ` ({0..<n} - {i}))" "z \<notin> A"
  shows "(if None \<in> A then 1 else 0) < card ({0..<n} - {j. Some j \<in> A})"
proof (cases z)
  case None
  with assms(3) have "None \<notin> A" by simp
  moreover have "Some i \<notin> insert z A" unfolding assms(2) by auto
  then have "i \<in> {0..<n} - {j. Some j \<in> A}" using assms(1) by simp
  then have "0 < card ({0..<n} - {j. Some j \<in> A})" by (metis card_gt_0_iff empty_iff finite_Diff finite_atLeastLessThan)
  ultimately show ?thesis by simp
next
  case (Some k)
  have "Some k \<in> insert z A" using Some by simp
  then have "k < n" "k \<noteq> i" unfolding assms(2) by auto
  moreover have "Some i \<notin> insert z A" unfolding assms(2) by auto
  then have "Some i \<notin> A" by simp
  moreover have "Some k \<notin> A" using assms(3) Some by simp
  ultimately have "{i, k} \<subseteq> {0..<n} - {j. Some j \<in> A}" using assms(1) by simp
  from card_mono [OF _ this] have "2 \<le> card ({0..<n} - {j. Some j \<in> A})" using \<open>k \<noteq> i\<close> by simp
  then show ?thesis by simp
qed

lemma process_data_starts:
  assumes "fd_config d = cfg" "fd_base_sequence d = None" "length xs = fc_block_size cfg"
  shows "process_data base x d = process_data base x (block_state cfg base xs f {} False)"
proof -
  have "(replicate n None)[0 := None] = replicate n (None :: fec_packet option)" for n by (cases n) simp_all
  then show ?thesis using assms
    by (cases d) (simp add: process_data_def block_state_def fec_decoder_new_def slots_empty)
qed

section \<open>Encoding a block\<close>

fun encode_run :: "bytes list \<Rightarrow> fec_encoder \<Rightarrow> fec_encoder \<times> fec_packet list" where
  "encode_run [] e = (e, [])"
| "encode_run (p # ps) e =
     (case add_data_packet p e of (e, out) \<Rightarrow> (case encode_run ps e of (e, outs) \<Rightarrow> (e, out @ outs)))"

text \<open>The parity packets of a block, with the base sequence the encoder computes.\<close>

definition block_packets :: "fec_config \<Rightarrow> u32 \<Rightarrow> bytes list \<Rightarrow> fec_packet list" where
  "block_packets cfg seq ps =
     map (\<lambda>k. \<lparr>fp_base_sequence = seq, fp_block_size = of_nat (length ps), fp_parity_index = of_nat k,
        fp_data = block_parity ps\<rparr>) [0..<fc_parity_count cfg]"

lemma generate_parity_eq:
  "generate_parity e = map (\<lambda>k. \<lparr>pp_index = of_nat k, pp_data = block_parity (fe_buffer e)\<rparr>) [0..<fc_parity_count (fe_config e)]"
  by (simp add: generate_parity_def generate_rs_parity_def generate_xor_parity_def block_parity_def Let_def
      split: fec_scheme.split)

lemma encode_run_block:
  assumes "length (fe_buffer e) + length ps = fc_block_size (fe_config e)" "ps \<noteq> []"
  shows "encode_run ps e = (e\<lparr>fe_buffer := [], fe_sequence := fe_sequence e + of_nat (length ps)\<rparr>,
    block_packets (fe_config e) (fe_sequence e + of_nat (length ps) - 1 - of_nat (fc_block_size (fe_config e))) (fe_buffer e @ ps))"
  using assms
proof (induction ps arbitrary: e)
  case (Cons p ps)
  show ?case
  proof (cases "ps = []")
    case True
    with Cons.prems show ?thesis
      by (simp add: add_data_packet_def generate_parity_eq block_packets_def Let_def o_def)
  next
    case False
    let ?e = "e\<lparr>fe_buffer := fe_buffer e @ [p], fe_sequence := fe_sequence e + 1\<rparr>"
    have "Suc (length (fe_buffer e)) < fc_block_size (fe_config e)" using Cons.prems False by (cases ps) simp_all
    then have "add_data_packet p e = (?e, [])" by (simp add: add_data_packet_def Let_def)
    moreover have "encode_run ps ?e = (?e\<lparr>fe_buffer := [], fe_sequence := fe_sequence ?e + of_nat (length ps)\<rparr>,
      block_packets (fe_config ?e) (fe_sequence ?e + of_nat (length ps) - 1 - of_nat (fc_block_size (fe_config ?e))) (fe_buffer ?e @ ps))"
      by (rule Cons.IH) (use Cons.prems False in simp_all)
    ultimately show ?thesis by (simp add: add.assoc add.commute add.left_commute)
  qed
qed simp

lemma encode_new_block:
  assumes "length ps = fc_block_size cfg" "ps \<noteq> []"
  shows "snd (encode_run ps (fec_encoder_new cfg)) = block_packets cfg (- 1) ps"
  using encode_run_block [of "fec_encoder_new cfg" ps] assms by (simp add: fec_encoder_new_def)

lemma block_packets_first:
  "0 < fc_parity_count cfg \<Longrightarrow> block_packets cfg seq ps =
     \<lparr>fp_base_sequence = seq, fp_block_size = of_nat (length ps), fp_parity_index = 0, fp_data = block_parity ps\<rparr> #
     tl (block_packets cfg seq ps)"
  by (simp add: block_packets_def upt_conv_Cons)

lemma encode_run_first:
  assumes "length ps = fc_block_size (fe_config e)" "fe_buffer e = []" "ps \<noteq> []" "0 < fc_parity_count (fe_config e)"
  shows "fp_parity_index (hd (snd (encode_run ps e))) = 0 \<and> fp_data (hd (snd (encode_run ps e))) = block_parity ps"
  using encode_run_block [of e ps] assms by (simp add: block_packets_def upt_conv_Cons)

lemma decode_parity_first:
  assumes "length xs = fc_block_size cfg" "fc_parity_count cfg = Suc m" "length xs < 2 ^ 16" "2 \<le> length xs"
    and f: "fp_block_size f = of_nat (length xs)" "fp_parity_index f = 0" "fp_data f = block_parity xs"
  shows "decode_run (FecParity f # map (\<lambda>j. FecData (fp_base_sequence f + of_nat j) (xs ! j)) [1..<length xs]) (fec_decoder_new cfg) =
    Ok (fec_decoder_new cfg, replicate (length xs - 1) [] @ [xs[0 := padded (max_len xs) (xs ! 0)]])"
proof -
  let ?n = "length xs" and ?b = "fp_base_sequence f"
  let ?d = "\<lambda>J. (fec_decoder_new cfg)\<lparr>fd_base_sequence := Some ?b, fd_buffer := slots xs J,
    fd_parity_packets := Some f # replicate m None\<rparr>"
  let ?ev = "\<lambda>j. FecData (?b + of_nat j) (xs ! j)"
  have "try_recover (?d {}) = Ok (?d {}, [])"
    by (rule try_recover_waits [of _ xs "{}"]) (use assms(4) in simp_all)
  moreover have "unat (of_nat ?n :: u16) = ?n" using assms(3) by (simp add: unat_of_nat)
  ultimately have start: "process_fec f (fec_decoder_new cfg) = Ok (?d {}, [])"
    by (simp add: f process_fec_def fec_decoder_new_def slots_empty assms(2))
  have small: "?n < 2 ^ 32" using assms(3) by simp
  have "{0..<?n} - {1..<?n - 1} = {0, ?n - 1}" using assms(4) by auto
  moreover have "card {0, ?n - 1} = 2" using assms(4) by simp
  ultimately have fill: "decode_run (map ?ev [1..<?n - 1]) (?d {}) = Ok (?d (set [1..<?n - 1]), replicate (?n - 2) [])"
    using decode_data_fills [of "?d {}" ?b xs "{}" "[1..<?n - 1]"] assms(1) small by (auto simp: fec_decoder_new_def)
  have left: "{0..<?n} - insert (?n - 1) (set [1..<?n - 1]) = {0}" using assms(4) by auto
  have "try_recover (?d (insert (?n - 1) (set [1..<?n - 1]))) = Ok (fec_reset (?d (insert (?n - 1) (set [1..<?n - 1]))),
      xs[0 := padded (max_len xs) (xs ! 0)])"
    by (rule try_recover_one [where f = f and rest = "replicate m None", OF _ _ left]) (use assms(4) f in auto)
  then have fin: "process_data (?b + of_nat (?n - 1)) (xs ! (?n - 1)) (?d (set [1..<?n - 1])) =
      Ok (fec_decoder_new cfg, xs[0 := padded (max_len xs) (xs ! 0)])"
    using process_data_in_block [of "?d (set [1..<?n - 1])" ?b xs "set [1..<?n - 1]" "?n - 1"] assms(1,3,4)
    by (simp add: fec_reset_def fec_decoder_new_def)
  obtain k where "?n = 2 + k" using assms(4) le_Suc_ex by blast
  then have k: "?n = Suc (Suc k)" by simp
  have split: "[1..<?n] = [1..<?n - 1] @ [?n - 1]" unfolding k by simp
  have "replicate (?n - 1) ([] :: bytes list) = [] # replicate (?n - 2) []" unfolding k by simp
  then show ?thesis
    unfolding split decode_run.simps fec_event.case start
    by (simp add: decode_run_append fill [simplified] fin [simplified] del: upt_Suc)
qed

section \<open>Panics\<close>

lemma recover_fold_fills:
  assumes "\<forall>i \<in> set is. i < length buf"
  shows "\<exists>buf' rec'. fold (\<lambda>i (buf, rec). if buf ! i = None
       then let r = recover_slot parity buf i in (buf[i := Some r], rec @ [r]) else (buf, rec)) is (buf, rec) = (buf', rec') \<and>
     length buf' = length buf \<and> (\<forall>i < length buf. buf ! i \<noteq> None \<or> i \<in> set is \<longrightarrow> buf' ! i \<noteq> None)"
  using assms
proof (induction "is" arbitrary: buf rec)
  case (Cons i "is")
  show ?case
  proof (cases "buf ! i = None")
    case True
    let ?r = "recover_slot parity buf i"
    have "\<forall>k \<in> set is. k < length (buf[i := Some ?r])" using Cons.prems by simp
    from Cons.IH [OF this, of "rec @ [?r]"] True Cons.prems show ?thesis
      by (auto simp: Let_def nth_list_update split: if_splits)
  next
    case False
    then show ?thesis using Cons.IH [of buf rec] Cons.prems by auto
  qed
qed simp

lemma recover_fills: "None \<notin> set (fst (recover_with_xor_internal parity buf))"
proof -
  have "\<forall>i \<in> set [0..<length buf]. i < length buf" by simp
  from recover_fold_fills [OF this, of parity "[]"] show ?thesis
    by (auto simp: recover_with_xor_internal_def in_set_conv_nth)
qed

lemma try_recover_ok:
  "\<exists>d' out. try_recover d = Ok (d', out) \<and> fd_config d' = fd_config d \<and> (d' = d \<or> fd_base_sequence d' = None)"
proof -
  have "drain_all e = Ok (fec_reset e, map the (fd_buffer e))" if "None \<notin> set (fd_buffer e)" for e
    using that by (simp add: drain_all_def)
  moreover have "None \<notin> set (fd_buffer d)" if "filter (\<lambda>p. p = None) (fd_buffer d) = []"
    using that by (auto simp: filter_empty_conv)
  ultimately show ?thesis
    using recover_fills [of _ "fd_buffer d"]
    by (auto simp: try_recover_def Let_def fec_reset_def split: list.split option.split)
qed

definition decoder_ok :: "fec_config \<Rightarrow> fec_decoder \<Rightarrow> bool" where
  "decoder_ok cfg d \<longleftrightarrow> fd_config d = cfg \<and> (fd_base_sequence d \<noteq> None \<longrightarrow> length (fd_buffer d) = fc_block_size cfg)"

lemma decoder_step_ok:
  assumes "decoder_ok cfg d" "case e of FecData _ _ \<Rightarrow> True | FecParity f \<Rightarrow> unat (fp_block_size f) = fc_block_size cfg"
  shows "\<exists>d' out. (case e of FecData seq data \<Rightarrow> process_data seq data d | FecParity f \<Rightarrow> process_fec f d) = Ok (d', out) \<and>
    decoder_ok cfg d'"
proof (cases e)
  case (FecData seq data)
  let ?s = "if fd_base_sequence d = None then d\<lparr>fd_base_sequence := Some seq, fd_buffer := replicate (fc_block_size (fd_config d)) None,
    fd_parity_packets := replicate (fc_parity_count (fd_config d)) None\<rparr> else d"
  have ok: "decoder_ok cfg ?s" "fd_base_sequence ?s \<noteq> None" using assms(1) by (auto simp: decoder_ok_def)
  let ?o = "unat (seq - the (fd_base_sequence ?s))"
  have "decoder_ok cfg (?s\<lparr>fd_buffer := (fd_buffer ?s)[?o := Some data]\<rparr>)" using ok by (auto simp: decoder_ok_def)
  with try_recover_ok [of "?s\<lparr>fd_buffer := (fd_buffer ?s)[?o := Some data]\<rparr>"]
  have "\<exists>d' out. try_recover (?s\<lparr>fd_buffer := (fd_buffer ?s)[?o := Some data]\<rparr>) = Ok (d', out) \<and> decoder_ok cfg d'"
    by (fastforce simp: decoder_ok_def)
  moreover have "\<not> length (fd_buffer ?s) \<le> ?o" if "\<not> fc_block_size (fd_config ?s) \<le> ?o"
    using ok that by (auto simp: decoder_ok_def)
  ultimately show ?thesis
    using ok FecData by (simp add: process_data_def Let_def del: if_split_asm)
next
  case (FecParity f)
  let ?s = "if fd_base_sequence d = None then d\<lparr>fd_base_sequence := Some (fp_base_sequence f),
    fd_buffer := replicate (unat (fp_block_size f)) None,
    fd_parity_packets := replicate (fc_parity_count (fd_config d)) None\<rparr> else d"
  have ok: "decoder_ok cfg ?s" using assms FecParity by (auto simp: decoder_ok_def)
  let ?t = "?s\<lparr>fd_parity_packets := (fd_parity_packets ?s)[unat (fp_parity_index f) := Some f]\<rparr>"
  have "decoder_ok cfg ?t" using ok by (auto simp: decoder_ok_def)
  with try_recover_ok [of ?t] have "\<exists>d' out. try_recover ?t = Ok (d', out) \<and> decoder_ok cfg d'"
    by (fastforce simp: decoder_ok_def)
  with ok FecParity show ?thesis by (simp add: process_fec_def Let_def)
qed

lemma decode_run_ok:
  "decoder_ok cfg d \<Longrightarrow> \<forall>f. FecParity f \<in> set es \<longrightarrow> unat (fp_block_size f) = fc_block_size cfg \<Longrightarrow>
   \<exists>d' outs. decode_run es d = Ok (d', outs) \<and> decoder_ok cfg d'"
proof (induction es arbitrary: d)
  case (Cons e es)
  have "case e of FecData _ _ \<Rightarrow> True | FecParity f \<Rightarrow> unat (fp_block_size f) = fc_block_size cfg"
    using Cons.prems(2) by (auto split: fec_event.split)
  from decoder_step_ok [OF Cons.prems(1) this] obtain d' out where
    "(case e of FecData seq data \<Rightarrow> process_data seq data d | FecParity f \<Rightarrow> process_fec f d) = Ok (d', out)" "decoder_ok cfg d'"
    by blast
  moreover from this(2) obtain d'' outs where "decode_run es d' = Ok (d'', outs)" "decoder_ok cfg d''"
    using Cons.IH Cons.prems(2) by (metis list.set_intros(2))
  ultimately show ?case by simp
qed simp

section \<open>Sequence tracking\<close>

lemma fold_mark_missing:
  "set (nr_missing_sequences (fold mark_missing ks r)) = set (nr_missing_sequences r) \<union> set ks"
  "nr_expected_sequence (fold mark_missing ks r) = nr_expected_sequence r"
  "nr_config (fold mark_missing ks r) = nr_config r"
  by (induction ks arbitrary: r) (auto simp: mark_missing_def)

lemma process_packet_missing:
  "set (nr_missing_sequences (fst (process_packet now seq r))) =
     set (nr_missing_sequences r) - {seq} \<union>
     (if 0 < seq - nr_expected_sequence r \<and> seq - nr_expected_sequence r < 1000
      then set (u32_range (nr_expected_sequence r) seq) else {})"
  "nr_expected_sequence (fst (process_packet now seq r)) = seq + 1"
  by (auto simp: process_packet_def Let_def fold_mark_missing)

lemma set_u32_range: "set (u32_range a b) = of_nat ` {unat a..<unat b}"
  by (simp add: u32_range_def)

lemma u32_of_nat_eq_iff: "m < 2 ^ 32 \<Longrightarrow> n < 2 ^ 32 \<Longrightarrow> (of_nat m :: u32) = of_nat n \<longleftrightarrow> m = n"
  using of_nat_word_inject [of m n, where 'a = 32] by auto

fun nack_run :: "nat list \<Rightarrow> nack_receiver \<Rightarrow> nack_receiver" where
  "nack_run [] r = r"
| "nack_run (n # ns) r = nack_run ns (fst (process_packet 0 (of_nat n) r))"

text \<open>Packets that arrive in order with gaps below 1000 and without wrap-around.\<close>

fun increasing_from :: "nat \<Rightarrow> nat list \<Rightarrow> bool" where
  "increasing_from e [] = True"
| "increasing_from e (n # ns) \<longleftrightarrow> e \<le> n \<and> n - e < 1000 \<and> n < 2 ^ 32 - 1 \<and> increasing_from (Suc n) ns"

lemma increasing_ge: "increasing_from e ns \<Longrightarrow> k \<in> set ns \<Longrightarrow> e \<le> k \<and> k < 2 ^ 32 - 1"
  by (induction ns arbitrary: e) fastforce+

lemma nack_run_missing:
  assumes "increasing_from e ns" "nr_expected_sequence r = of_nat e" "e < 2 ^ 32"
    and "set (nr_missing_sequences r) = of_nat ` M" "M \<subseteq> {0..<e}"
  shows "set (nr_missing_sequences (nack_run ns r)) = of_nat ` (M \<union> ({e..<last (e # map Suc ns)} - set ns))"
  using assms
proof (induction ns arbitrary: e r M)
  case (Cons n ns)
  let ?r = "fst (process_packet 0 (of_nat n) r)"
  from Cons.prems have n: "e \<le> n" "n - e < 1000" "n < 2 ^ 32 - 1" and inc: "increasing_from (Suc n) ns" by auto
  have delta: "(of_nat n :: u32) - of_nat e = of_nat (n - e)" using n(1) by (simp add: of_nat_diff)
  have "unat (of_nat k :: u32) = k" if "k < 1000" for k using that by (simp add: unat_of_nat)
  from this [OF n(2)] have gap: "(0 < (of_nat n :: u32) - of_nat e \<and> (of_nat n :: u32) - of_nat e < 1000) = (e < n)"
    unfolding delta using n by (auto simp: word_less_nat_alt)
  have range: "set (u32_range (of_nat e) (of_nat n)) = of_nat ` {e..<n}"
    using n Cons.prems(3) by (simp add: set_u32_range unat_of_nat)
  have "(of_nat n :: u32) \<noteq> of_nat m" if "m \<in> M" for m
  proof -
    have "m < n" using that Cons.prems(5) n(1) by auto
    then show ?thesis using n(3) u32_of_nat_eq_iff [of n m] by simp
  qed
  then have "(of_nat n :: u32) \<notin> of_nat ` M" by blast
  then have miss: "set (nr_missing_sequences ?r) = of_nat ` (M \<union> {e..<n})"
    unfolding process_packet_missing Cons.prems(2,4) gap range by (cases "e < n") (auto simp: image_Un)
  have IH: "set (nr_missing_sequences (nack_run ns ?r)) =
      of_nat ` ((M \<union> {e..<n}) \<union> ({Suc n..<last (Suc n # map Suc ns)} - set ns))"
    by (rule Cons.IH [OF inc _ _ miss]) (use n Cons.prems in \<open>auto simp: process_packet_missing(2)\<close>)
  have last_ge: "Suc n \<le> last (Suc n # map Suc ns)"
    using increasing_ge [OF inc, of "last ns"] by (cases "ns = []") (auto simp: last_map)
  have "M \<union> {e..<n} \<union> ({Suc n..<last (Suc n # map Suc ns)} - set ns) =
      M \<union> ({e..<last (e # map Suc (n # ns))} - set (n # ns))"
    using n(1) last_ge by (auto simp: not_less_eq_eq Suc_le_eq dest: increasing_ge [OF inc])
  with IH show ?case by simp
qed simp

section \<open>Wire format\<close>

lemma parse_encode:
  assumes "parse_fec_packet datagram = Ok packet"
  shows "datagram = encode_fec_packet packet"
proof -
  have len: "8 \<le> length datagram" using assms by (auto simp: parse_fec_packet_def split: if_splits)
  have le4: "u32_le (u32_of_le bs) = bs" if "length bs = 4" for bs
    using be_of_be(2) [of "rev bs"] that by (simp add: u32_le_def u32_of_le_def)
  have le2: "u16_le (u16_of_le bs) = bs" if "length bs = 2" for bs
    using be_of_be(1) [of "rev bs"] that by (simp add: u16_le_def u16_of_le_def)
  have "encode_fec_packet packet = take 4 datagram @ take 2 (drop 4 datagram) @ take 2 (drop 6 datagram) @ drop 8 datagram"
    using assms len by (auto simp: parse_fec_packet_def encode_fec_packet_def le4 le2 split: if_splits)
  moreover have "take 2 (drop 6 datagram) @ drop 8 datagram = drop 6 datagram"
    using append_take_drop_id [of 2 "drop 6 datagram"] by simp
  moreover have "take 2 (drop 4 datagram) @ drop 6 datagram = drop 4 datagram"
    using append_take_drop_id [of 2 "drop 4 datagram"] by simp
  ultimately show ?thesis by simp
qed

definition sample_fec :: fec_config where
  "sample_fec = \<lparr>fc_enabled = True, fc_scheme = FecXor, fc_block_size = 3, fc_parity_count = 1\<rparr>"

section \<open>Properties\<close>

text \<open>
  C11. Parity recovers a lost packet.  Take a block of packets given to an encoder that is between
  two blocks, and a decoder that is between two blocks.  Let all packets of the block but one and
  its first parity packet arrive in any order that starts with the first packet of the block, the
  parity packet anywhere after it, any of them repeatedly, up to the arrival that completes them:
  the decoder returns nothing before this arrival and then the block in order, with the lost packet
  recovered, and is between two blocks again.  Recovered packets come padded with zeros to the
  length of the longest packet, so the block is exact when the packets are equally long.
\<close>

theorem fec_recovers_one_loss:
  assumes "fe_config enc = cfg" "fe_buffer enc = []" "fd_config dec = cfg" "fd_base_sequence dec = None"
    and "length ps = fc_block_size cfg" "0 < fc_parity_count cfg" "length ps < 2 ^ 32" "0 < i" "i < length ps"
    and "set (Some 0 # os) = insert None (Some ` ({0..<length ps} - {i}))" "last (Some 0 # os) \<notin> set (butlast (Some 0 # os))"
  shows "decode_run (map (block_event base ps (hd (snd (encode_run ps enc)))) (Some 0 # os)) dec =
    Ok (fec_decoder_new cfg, replicate (length os) [] @ [ps[i := ps ! i @ replicate (max_len ps - length (ps ! i)) 0]])"
proof -
  let ?f = "hd (snd (encode_run ps enc))"
  let ?st = "block_state cfg base ps ?f" and ?ev = "block_event base ps ?f"
  have "ps \<noteq> []" using assms(9) by auto
  then have f: "fp_parity_index ?f = 0" "fp_data ?f = block_parity ps"
    using encode_run_first [of ps enc] assms(1,2,5,6) by simp_all
  define as z where "as = butlast (Some 0 # os)" and "z = last (Some 0 # os)"
  have split: "Some 0 # os = as @ [z]" and fresh: "z \<notin> set as"
    unfolding as_def z_def using assms(11) by simp_all
  have zs: "insert z (set as) = insert None (Some ` ({0..<length ps} - {i}))"
    using assms(10) unfolding split by simp
  let ?J = "{j. Some j \<in> set as}"
  have "None \<in> set (Some 0 # os)" unfolding assms(10) by simp
  then obtain bs where bs: "as = Some 0 # bs" using split by (cases as) auto
  have start: "decode_run (map ?ev as) dec = decode_run (map ?ev as) (?st {} False)"
    using process_data_starts [OF assms(3,4,5)] unfolding bs by (simp add: block_event_def)
  have lt: "j < length ps" if "Some j \<in> insert z (set as)" for j using that unfolding zs by auto
  have z: "\<forall>j. z = Some j \<longrightarrow> j < length ps" and as: "\<forall>j. Some j \<in> set as \<longrightarrow> j < length ps"
    using lt by simp_all
  have "(if None \<in> set as then 1 else 0) < card ({0..<length ps} - ?J)"
    by (rule one_loss_waits [OF assms(9) zs fresh])
  then have fill: "decode_run (map ?ev as) (?st {} False) = Ok (?st ?J (None \<in> set as), replicate (length as) [])"
    using block_state_fills [OF assms(5,6,7) f(1) as, of False "{}" base] by simp
  have "{0..<length ps} - {j. Some j \<in> insert z (set as)} = {i}" unfolding zs using assms(9) by auto
  moreover have "?J \<union> {j. Some j = z} = {j. Some j \<in> insert z (set as)}" by auto
  moreover have "None \<in> insert z (set as)" unfolding zs by simp
  ultimately have fin: "decode_run [?ev z] (?st ?J (None \<in> set as)) =
      Ok (fec_decoder_new cfg, [ps[i := padded (max_len ps) (ps ! i)]])"
    by (intro block_state_completes [OF assms(5,6,7) f assms(9) _ _ z]) auto
  have "length as = length os" using arg_cong [OF split, of length] by simp
  then show ?thesis
    unfolding split map_append decode_run_append start fill using fin by (simp add: padded_def)
qed

theorem fec_recovers_one_loss_witness:
  "decode_run (map (block_event 7 [[1, 2, 3], [4, 5, 6], [7, 8, 9]]
       (hd (snd (encode_run [[1, 2, 3], [4, 5, 6], [7, 8, 9]] (fec_encoder_new sample_fec))))) [Some 0, None, Some 0, Some 2])
     (fec_decoder_new sample_fec) =
    Ok (fec_decoder_new sample_fec, [[], [], [], [[1, 2, 3], [4, 5, 6], [7, 8, 9]]])"
proof -
  let ?ps = "[[1, 2, 3], [4, 5, 6], [7, 8, 9 :: u8]]"
  have "set [Some 0, None, Some 0, Some (2::nat)] = insert None (Some ` ({0..<length ?ps} - {1}))" by auto
  then have "decode_run (map (block_event 7 ?ps (hd (snd (encode_run ?ps (fec_encoder_new sample_fec))))) [Some 0, None, Some 0, Some 2])
      (fec_decoder_new sample_fec) =
    Ok (fec_decoder_new sample_fec, replicate (length [None, Some 0, Some (2::nat)]) [] @
      [?ps[1 := ?ps ! 1 @ replicate (max_len ?ps - length (?ps ! 1)) 0]])"
    by (intro fec_recovers_one_loss) (simp_all add: sample_fec_def fec_encoder_new_def fec_decoder_new_def)
  moreover have "replicate (length [None, Some 0, Some (2::nat)]) [] @
      [?ps[1 := ?ps ! 1 @ replicate (max_len ?ps - length (?ps ! 1)) 0]] = [[], [], [], ?ps]"
    by (simp add: max_len_def numeral_3_eq_3)
  ultimately show ?thesis by (simp only:)
qed

text \<open>
  Two parity packets do not recover two losses: they carry the same parity, and the decoder, which
  compares only their number with the number of missing packets, returns the sum of the two missing
  packets in place of the first and zeros in place of the second.
\<close>

lemma fec_two_losses_corrupt:
  "let cfg = \<lparr>fc_enabled = True, fc_scheme = FecXor, fc_block_size = 3, fc_parity_count = 2\<rparr>;
       parities = snd (encode_run [[1], [2], [4]] (fec_encoder_new cfg))
   in decode_run [FecData 0 [1], FecParity (parities ! 0), FecParity (parities ! 1)] (fec_decoder_new cfg) =
     Ok (fec_decoder_new cfg, [[], [], [[1], [6], [0]]])"
  by code_simp

text \<open>
  C36. A parity packet that arrives before the data of its block misplaces the block.  The encoder gives the parity
  of a block the base sequence one below its first packet, so when it comes first and the data packets
  of the block follow in order, the decoder, once the last but one has arrived, returns the packets
  rotated by one place, with the last packet recovered into the first place.
\<close>

theorem fec_parity_first_rotates:
  assumes "length ps = fc_block_size cfg" "0 < fc_parity_count cfg" "length ps < 2 ^ 16" "2 \<le> length ps"
  shows "decode_run (FecParity (hd (snd (encode_run ps (fec_encoder_new cfg)))) #
      map (\<lambda>j. FecData (of_nat j) (ps ! j)) [0..<length ps - 1]) (fec_decoder_new cfg) =
    Ok (fec_decoder_new cfg, replicate (length ps - 1) [] @
      [(last ps @ replicate (max_len ps - length (last ps)) 0) # butlast ps])"
proof -
  let ?n = "length ps" and ?xs = "last ps # butlast ps"
  let ?f = "hd (snd (encode_run ps (fec_encoder_new cfg)))"
  obtain m where m: "fc_parity_count cfg = Suc m" using assms(2) gr0_implies_Suc by blast
  have ne: "ps \<noteq> []" and len: "length ?xs = ?n" using assms(4) by auto
  have ms: "mset ps = mset ?xs" 
    using arg_cong [OF append_butlast_last_id [OF ne], of mset] by simp
  have par: "block_parity ?xs = block_parity ps" "max_len ?xs = max_len ps"
    using block_parity_mset [OF ms] max_len_mset [OF ms] by simp_all
  have f: "?f = \<lparr>fp_base_sequence = - 1, fp_block_size = of_nat ?n, fp_parity_index = 0, fp_data = block_parity ps\<rparr>"
    using encode_new_block [OF assms(1) ne] block_packets_first [OF assms(2), of "- 1" ps] by (metis list.sel(1))
  have ev: "FecData (fp_base_sequence ?f + of_nat (Suc j)) (?xs ! Suc j) = FecData (of_nat j) (ps ! j)" if "j < ?n - 1" for j
    using that by (simp add: f nth_butlast)
  have "map (\<lambda>j. FecData (fp_base_sequence ?f + of_nat j) (?xs ! j)) [1..<length ?xs] =
      map (\<lambda>j. FecData (fp_base_sequence ?f + of_nat (Suc j)) (?xs ! Suc j)) [0..<?n - 1]"
  proof -
    have "[1..<length ?xs] = map Suc [0..<?n - 1]" using assms(4) by (simp add: map_Suc_upt del: upt_Suc)
    then show ?thesis by (simp only: map_map o_def)
  qed
  also have "\<dots> = map (\<lambda>j. FecData (of_nat j) (ps ! j)) [0..<?n - 1]"
    by (rule map_cong) (simp_all only: ev set_upt atLeastLessThan_iff)
  finally have evs: "map (\<lambda>j. FecData (fp_base_sequence ?f + of_nat j) (?xs ! j)) [1..<length ?xs] =
      map (\<lambda>j. FecData (of_nat j) (ps ! j)) [0..<?n - 1]" .
  have run: "decode_run (FecParity ?f # map (\<lambda>j. FecData (fp_base_sequence ?f + of_nat j) (?xs ! j)) [1..<length ?xs]) (fec_decoder_new cfg) =
      Ok (fec_decoder_new cfg, replicate (length ?xs - 1) [] @ [?xs[0 := padded (max_len ?xs) (?xs ! 0)]])"
    by (rule decode_parity_first [OF _ m]) (use assms f len par in simp_all)
  have "?xs[0 := padded (max_len ?xs) (?xs ! 0)] = (last ps @ replicate (max_len ps - length (last ps)) 0) # butlast ps"
    by (simp add: par padded_def)
  with run [unfolded evs] show ?thesis by (simp only: len)
qed

theorem fec_parity_first_rotates_witness:
  "decode_run (FecParity (hd (snd (encode_run [[1], [2], [3]] (fec_encoder_new sample_fec)))) #
      map (\<lambda>j. FecData (of_nat j) ([[1], [2], [3]] ! j)) [0..<2]) (fec_decoder_new sample_fec) =
    Ok (fec_decoder_new sample_fec, [[], [], [[3], [1], [2]]])"
proof -
  let ?ps = "[[1], [2], [3 :: u8]]"
  have "replicate (length ?ps - 1) [] @ [(last ?ps @ replicate (max_len ?ps - length (last ?ps)) 0) # butlast ?ps] = [[], [], [[3], [1], [2]]]"
    by (simp add: max_len_def numeral_2_eq_2)
  moreover have "length ?ps = fc_block_size sample_fec" "0 < fc_parity_count sample_fec" "length ?ps < 2 ^ 16" "2 \<le> length ?ps"
    by (simp_all add: sample_fec_def)
  from fec_parity_first_rotates [OF this]
  have "decode_run (FecParity (hd (snd (encode_run ?ps (fec_encoder_new sample_fec)))) #
      map (\<lambda>j. FecData (of_nat j) (?ps ! j)) [0..<length ?ps - 1]) (fec_decoder_new sample_fec) =
    Ok (fec_decoder_new sample_fec, replicate (length ?ps - 1) [] @ [(last ?ps @ replicate (max_len ?ps - length (last ?ps)) 0) # butlast ?ps])" .
  moreover have "length ?ps - 1 = 2" by simp
  ultimately show ?thesis by (simp only:)
qed

text \<open>
  The decoder never panics on parity packets whose block size is the configured one: after any sequence of
  data packets, with any sequence numbers and contents, and of such parity packets, every call has
  returned and the state is either idle or has one slot per packet of a block.
\<close>

theorem fec_decoder_never_panics:
  assumes "\<forall>f. FecParity f \<in> set es \<longrightarrow> unat (fp_block_size f) = fc_block_size cfg"
  shows "\<exists>d outs. decode_run es (fec_decoder_new cfg) = Ok (d, outs) \<and> length outs = length es \<and>
    (fd_base_sequence d = None \<or> length (fd_buffer d) = fc_block_size cfg)"
proof -
  have "decoder_ok cfg (fec_decoder_new cfg)" by (simp add: decoder_ok_def fec_decoder_new_def)
  from decode_run_ok [OF this assms] obtain d outs where
    d: "decode_run es (fec_decoder_new cfg) = Ok (d, outs)" "decoder_ok cfg d" by blast
  have "length outs = length es" if "decode_run es e = Ok (d, outs)" for e d outs
    using that by (induction es arbitrary: e outs) auto
  with d show ?thesis by (auto simp: decoder_ok_def)
qed

theorem fec_decoder_never_panics_witness:
  "\<exists>d outs. decode_run [FecParity \<lparr>fp_base_sequence = 0, fp_block_size = 3, fp_parity_index = 0, fp_data = [9]\<rparr>,
      FecData 5 [1], FecData 1 [1, 2]] (fec_decoder_new sample_fec) = Ok (d, outs) \<and> length outs = 3"
  using fec_decoder_never_panics [of "[FecParity \<lparr>fp_base_sequence = 0, fp_block_size = 3, fp_parity_index = 0, fp_data = [9]\<rparr>,
      FecData 5 [1], FecData 1 [1, 2]]" sample_fec] by (force simp: sample_fec_def)

text \<open>
  A parity packet with a smaller block size makes the decoder panic.  If it opens a block with at least
  two but fewer slots than configured, the next data packet whose offset lies between the two sizes
  is written out of range.
\<close>

theorem fec_block_size_mismatch_panics:
  assumes "2 \<le> unat (fp_block_size f)" "unat (fp_block_size f) \<le> j" "j < fc_block_size cfg" "j < 2 ^ 32"
    and "unat (fp_parity_index f) < fc_parity_count cfg"
  shows "decode_run [FecParity f, FecData (fp_base_sequence f + of_nat j) x] (fec_decoder_new cfg) = Err IndexOutOfBounds"
proof -
  let ?m = "unat (fp_block_size f)"
  let ?d = "(fec_decoder_new cfg)\<lparr>fd_base_sequence := Some (fp_base_sequence f), fd_buffer := replicate ?m None,
    fd_parity_packets := (replicate (fc_parity_count cfg) None)[unat (fp_parity_index f) := Some f]\<rparr>"
  have "filter (\<lambda>p. p \<noteq> None) ((replicate n None)[k := Some f]) = [Some f]" if "k < n" for k n
    using that by (induction n arbitrary: k) (auto split: nat.split)
  then have "try_recover ?d = Ok (?d, [])" using assms(1,5) by (simp add: try_recover_def Let_def filter_replicate)
  then have fec: "process_fec f (fec_decoder_new cfg) = Ok (?d, [])"
    using assms(5) by (simp add: process_fec_def fec_decoder_new_def)
  have "unat (fp_base_sequence f + of_nat j - fp_base_sequence f) = j" using assms(4) by (simp add: unat_of_nat)
  then have "process_data (fp_base_sequence f + of_nat j) x ?d = Err IndexOutOfBounds"
    using assms(2,3) by (simp add: process_data_def fec_decoder_new_def)
  with fec show ?thesis by simp
qed

theorem fec_block_size_mismatch_panics_witness:
  "decode_run [FecParity \<lparr>fp_base_sequence = 0, fp_block_size = 3, fp_parity_index = 0, fp_data = [9]\<rparr>, FecData 5 [1]]
     (fec_decoder_new fec_config_default) = Err IndexOutOfBounds"
  using fec_block_size_mismatch_panics [of "\<lparr>fp_base_sequence = 0, fp_block_size = 3, fp_parity_index = 0, fp_data = [9]\<rparr>" 5
    fec_config_default "[1]"] by (simp add: fec_config_default_def)

text \<open>
  While packets arrive in order the receiver's missing set is exact: for any increasing run of sequence numbers
  with gaps below 1000 and no wrap-around, the set holds precisely the numbers between the start and
  the last arrival that did not arrive.
\<close>

theorem nack_missing_exact:
  assumes "increasing_from e ns" "e < 2 ^ 32"
  shows "set (nr_missing_sequences (nack_run ns (nack_receiver_new cfg (of_nat e)))) =
    of_nat ` {k. e \<le> k \<and> k < last (e # map Suc ns) \<and> k \<notin> set ns}"
proof -
  have "{e..<last (e # map Suc ns)} - set ns = {k. e \<le> k \<and> k < last (e # map Suc ns) \<and> k \<notin> set ns}" by auto
  with nack_run_missing [OF assms(1) _ assms(2), of "nack_receiver_new cfg (of_nat e)" "{}"] show ?thesis
    by (simp add: nack_receiver_new_def)
qed

theorem nack_missing_exact_witness:
  "set (nr_missing_sequences (nack_run [0, 3, 4, 6] (nack_receiver_new nack_config_default 0))) = {1, 2, 5}"
proof -
  have "{k. k < 7 \<and> k \<notin> {0, 3, 4, 6}} = {1, 2, 5 :: nat}" by auto
  then show ?thesis using nack_missing_exact [of 0 "[0, 3, 4, 6]" nack_config_default] by simp
qed

text \<open>
  C39. A late packet makes the receiver ask again for what it has, and a wrap hides a loss.  After the packets
  \<open>e + 2\<close>, the late \<open>e\<close> and then \<open>e + 3\<close>, the receiver counts \<open>e + 2\<close> as missing although it arrived; and
  when it expects the last sequence number and the first of the next round arrives instead, nothing is
  recorded as missing.
\<close>

theorem nack_late_and_wrapped:
  assumes "unat e + 3 < 2 ^ 32" "nr_expected_sequence r = e"
  shows "e + 2 \<in> set (nr_missing_sequences (fst (process_packet t3 (e + 3) (fst (process_packet t2 e
      (fst (process_packet t1 (e + 2) r))))))) \<and>
    set (nr_missing_sequences (fst (process_packet t 0 (r\<lparr>nr_expected_sequence := - 1\<rparr>)))) =
      set (nr_missing_sequences r) - {0}"
proof
  have u: "unat (e + 1) = unat e + 1" "unat (e + 3) = unat e + 3" "unat (e + 2) = unat e + 2"
    using assms(1) by (simp_all add: unat_word_ariths)
  have "e + 2 = of_nat (unat e + 2)" by simp
  moreover have "unat e + 2 \<in> {unat e + 1..<unat e + 3}" by simp
  ultimately have "e + 2 \<in> set (u32_range (e + 1) (e + 3))" unfolding set_u32_range u by (rule image_eqI)
  then show "e + 2 \<in> set (nr_missing_sequences (fst (process_packet t3 (e + 3) (fst (process_packet t2 e
      (fst (process_packet t1 (e + 2) r)))))))"
    by (simp add: process_packet_missing)
  show "set (nr_missing_sequences (fst (process_packet t 0 (r\<lparr>nr_expected_sequence := - 1\<rparr>)))) =
      set (nr_missing_sequences r) - {0}"
    by (simp add: process_packet_missing set_u32_range)
qed

theorem nack_late_and_wrapped_witness:
  "2 \<in> set (nr_missing_sequences (fst (process_packet 3 3 (fst (process_packet 2 0
      (fst (process_packet 1 2 (nack_receiver_new nack_config_default 0))))))))"
  using nack_late_and_wrapped [of 0 "nack_receiver_new nack_config_default 0" 3 2 1 0] by (simp add: nack_receiver_new_def)

text \<open>
  The wire format of parity packets is exact: a datagram parses as a parity packet precisely when it is the
  encoding of that packet, and precisely the datagrams of eight bytes or more parse.
\<close>

theorem parity_wire_exact:
  "(parse_fec_packet datagram = Ok packet \<longleftrightarrow> datagram = encode_fec_packet packet) \<and>
   (is_ok (parse_fec_packet datagram) \<longleftrightarrow> 8 \<le> length datagram)"
proof -
  have "parse_fec_packet (encode_fec_packet packet) = Ok packet"
    by (simp add: parse_fec_packet_def encode_fec_packet_def)
  then have "parse_fec_packet datagram = Ok packet \<longleftrightarrow> datagram = encode_fec_packet packet"
    using parse_encode by metis
  moreover have "is_ok (parse_fec_packet datagram) \<longleftrightarrow> 8 \<le> length datagram" by (simp add: parse_fec_packet_def not_less)
  ultimately show ?thesis by blast
qed

text \<open>
  C37. The receiver takes data for parity.  The transmitter queues a data packet without its sequence number, and
  the receiver tries to parse a datagram as parity first: a packet of eight bytes or more goes to the
  parity decoder with the base sequence, block size and index read from the payload, and the sequence
  tracking does not see it.
\<close>

theorem data_taken_for_parity:
  assumes "8 \<le> length data"
  shows "map task_datagram (tx_send_queue (tx_send seq data tx)) \<noteq> [] \<and>
    task_datagram (tx_send_queue (tx_send seq data tx) ! length (tx_send_queue tx)) = data \<and>
    (\<exists>f. data = encode_fec_packet f \<and>
      (\<forall>now rx. rx_datagram now data rx =
        and_then (process_fec f (rx_fec_decoder rx)) (\<lambda>(d, out). Ok (rx\<lparr>rx_fec_decoder := d\<rparr>, out))))"
proof -
  obtain f where f: "parse_fec_packet data = Ok f" using assms by (simp add: parse_fec_packet_def)
  have "data = encode_fec_packet f" using f by (rule parse_encode)
  with f show ?thesis
    by (auto simp: rx_datagram_def tx_send_def nth_append split: prod.split intro!: exI [of _ f])
qed

theorem data_taken_for_parity_witness:
  "\<exists>f. [1, 2, 3, 4, 5, 6, 7, 8, 9] = encode_fec_packet f \<and>
     task_datagram (tx_send_queue (tx_send 0 [1, 2, 3, 4, 5, 6, 7, 8, 9] (tx_new fec_config_default nack_config_default)) ! 0) =
       [1, 2, 3, 4, 5, 6, 7, 8, 9]"
  using data_taken_for_parity [of "[1, 2, 3, 4, 5, 6, 7, 8, 9]" 0 "tx_new fec_config_default nack_config_default"]
  by (auto simp: tx_new_def)

end
