(* ===== verification/Agent_Registry.thy ===== *)
theory Agent_Registry
  imports Agent_Registration
begin

text \<open>
  The service's registry of interactive-session agents
  (\<open>apps/mrd-service/src/agent_runtime/registry.rs\<close>): the launcher admits one process per
  Windows session, the process registers over its private connection with the handshake of
  \<open>Agent_Registration\<close>, and its first capability snapshot makes it the active agent of the
  session, replacing at most the generation the launcher named.  Routes are bound to one exact
  generation and revoked with it.

  Every locked block of the source is a function of \<open>registry_state\<close>; \<open>complete_registration\<close>
  verifies the proof between two such blocks, \<open>complete_take\<close> and \<open>complete_finish\<close>.  No block
  panics, so the lock is never poisoned and \<open>StateUnavailable\<close> never occurs.  A
  \<open>watch::channel\<close> is an index into the list \<open>rg_channels\<close> of the values last sent; a lease
  holds the index.  The proof verifier, a shared trait object, is its pointer together with its
  function.  The theory \<open>Agent_Generations\<close> interleaves these calls.
\<close>

section \<open>Data\<close>

definition AGENT_HEARTBEAT_STALE_AFTER_MS :: u64 where "AGENT_HEARTBEAT_STALE_AFTER_MS = 15000"

type_synonym agent_connection_id = bytes

datatype agent_caller_kind = InteractiveUser | Anonymous | Network | NonInteractive

record observed_agent_identity =
  oi_caller_kind :: agent_caller_kind
  oi_process_id :: u32
  oi_process_creation_time :: u64
  oi_logon_sid_hash :: bytes
  oi_windows_session_id :: u32

datatype replacement_policy = RejectExisting | ReplaceExisting bytes u64

record expected_agent_session =
  ea_windows_session_id :: u32
  ea_logon_sid_hash :: bytes
  ea_process_id :: u32
  ea_process_creation_time :: u64
  ea_agent_key_id :: bytes
  ea_expires_at_ms :: u64
  ea_replacement_policy :: replacement_policy

record challenge_material =
  cm_registration_id :: bytes
  cm_challenge_id :: bytes
  cm_challenge_nonce :: bytes

datatype agent_registry_error =
    InvalidConnectionId | InvalidExpectedSession | ExpectedSessionConflict | ExpectedSessionExpired
  | UntrustedCaller | ObservedIdentityMismatch | UnexpectedWindowsSession | ExpectedLogonMismatch
  | ExpectedProcessMismatch | ExpectedAgentKeyMismatch | DuplicateConnection
  | RegistrationInProgress | ActiveSessionConflict | ReplacementTargetMismatch
  | NoPendingRegistration | RegistrationAlreadyAuthenticated | RegistryChallengeExpired
  | EpochExhausted | ChallengeTimeOverflow | EntropyUnavailable | NotActive
  | MessageBindingMismatch | NonMonotonicCapabilityRevision | DesktopEpochRollback
  | NonMonotonicEventSequence | NonMonotonicReceiveTime | RegistryStateUnavailable
  | SecurityUnavailable | RegistryProtocol registration_error

datatype agent_capability =
    CapConsent | CapCapture | CapInput | CapAudio | CapClipboard | CapFile | CapRender

record agent_capability_snapshot =
  cs_agent_instance_id :: bytes
  cs_registration_id :: bytes
  cs_windows_session_id :: u32
  cs_revision :: u64
  cs_desktop_epoch :: u64
  cs_observed_at_ms :: u64
  cs_capabilities :: "agent_capability set"

record agent_event_context =
  ec_registration_id :: bytes
  ec_registration_epoch :: u64
  ec_windows_session_id :: u32
  ec_desktop_epoch :: u64
  ec_sequence :: u64
  ec_observed_at_ms :: u64

record agent_heartbeat =
  hb_context :: agent_event_context

record registration_outcome =
  ro_identity :: registered_agent_identity
  ro_replaced_connection :: "agent_connection_id option"

record invalidated_registration =
  iv_registration_id :: bytes
  iv_registration_epoch :: u64
  iv_windows_session_id :: u32

datatype agent_health_level = Healthy | Unresponsive

record agent_binding =
  ab_windows_session_id :: u32
  ab_connection_id :: agent_connection_id
  ab_registration_id :: bytes
  ab_registration_epoch :: u64
  ab_desktop_epoch :: u64
  ab_required_capability :: agent_capability

datatype agent_route_error =
    SessionUnavailable | Unhealthy | CapabilityUnavailable | CapabilityBindingMismatch
  | BindingRevoked | DesktopChanged | RouteStateUnavailable | ProtocolVersionUnavailable

record agent_registration_lease =
  le_registration_id :: bytes
  le_registration_epoch :: u64
  le_revoked :: nat

record exact_agent_route =
  ex_binding :: agent_binding
  ex_lease :: agent_registration_lease

record registration_verifier =
  rv_pointer :: nat
  rv_verify :: "bytes \<Rightarrow> bytes \<Rightarrow> bytes \<Rightarrow> bool"

datatype pending_phase = Challenged agent_protocol_state | Authenticated registered_agent_identity

record pending_registration =
  pr_expected :: expected_agent_session
  pr_verifier :: registration_verifier
  pr_registration_id :: bytes
  pr_challenge_id :: bytes
  pr_challenge_nonce :: bytes
  pr_phase :: pending_phase

record expected_agent_admission =
  xa_session :: expected_agent_session
  xa_verifier :: registration_verifier

record active_agent =
  aa_connection_id :: agent_connection_id
  aa_identity :: registered_agent_identity
  aa_capabilities :: agent_capability_snapshot
  aa_last_event_sequence :: u64
  aa_last_agent_observed_at_ms :: u64
  aa_last_received_at_ms :: u64
  aa_revocation :: nat

record active_agent_snapshot =
  as_connection_id :: agent_connection_id
  as_identity :: registered_agent_identity
  as_capabilities :: agent_capability_snapshot
  as_last_event_sequence :: u64
  as_last_agent_observed_at_ms :: u64
  as_last_received_at_ms :: u64
  as_health :: agent_health_level

record registry_state =
  rg_accepting_registrations :: bool
  rg_expected :: "(u32, expected_agent_admission) hash_map"
  rg_pending :: "(agent_connection_id, pending_registration) hash_map"
  rg_pending_by_session :: "(u32, agent_connection_id) hash_map"
  rg_active_by_session :: "(u32, active_agent) hash_map"
  rg_active_by_connection :: "(agent_connection_id, u32) hash_map"
  rg_next_epoch :: u64
  rg_channels :: "bool list"

section \<open>Checks\<close>

definition connection_id_from_bytes :: "bytes \<Rightarrow> (agent_connection_id, agent_registry_error) result" where
  "connection_id_from_bytes bs = (if all_zero bs then Err InvalidConnectionId else Ok bs)"

definition validate_expected_session :: "expected_agent_session \<Rightarrow> (unit, agent_registry_error) result" where
  "validate_expected_session expected =
     (let replacement_is_valid =
        (case ea_replacement_policy expected of
           RejectExisting \<Rightarrow> True
         | ReplaceExisting registration_id registration_epoch \<Rightarrow>
             \<not> all_zero registration_id \<and> registration_epoch \<noteq> 0)
      in if ea_windows_session_id expected = 0 \<or> all_zero (ea_logon_sid_hash expected)
           \<or> ea_process_id expected = 0 \<or> ea_process_creation_time expected = 0
           \<or> all_zero (ea_agent_key_id expected) \<or> ea_expires_at_ms expected = 0
           \<or> \<not> replacement_is_valid
         then Err InvalidExpectedSession else Ok ())"

definition validate_observed_registration ::
  "agent_register \<Rightarrow> observed_agent_identity \<Rightarrow> (unit, agent_registry_error) result" where
  "validate_observed_registration register observed =
     (if oi_caller_kind observed \<noteq> InteractiveUser then Err UntrustedCaller
      else if ar_process_id register \<noteq> oi_process_id observed
        \<or> ar_process_creation_time register \<noteq> oi_process_creation_time observed
        \<or> ar_logon_sid_hash register \<noteq> oi_logon_sid_hash observed
        \<or> ar_windows_session_id register \<noteq> oi_windows_session_id observed
      then Err ObservedIdentityMismatch else Ok ())"

definition validate_expected_binding ::
  "expected_agent_session \<Rightarrow> agent_register \<Rightarrow> observed_agent_identity \<Rightarrow> u64
   \<Rightarrow> (unit, agent_registry_error) result" where
  "validate_expected_binding expected register observed now_ms =
     (if now_ms \<ge> ea_expires_at_ms expected then Err ExpectedSessionExpired
      else if ea_logon_sid_hash expected \<noteq> oi_logon_sid_hash observed then Err ExpectedLogonMismatch
      else if ea_process_id expected \<noteq> oi_process_id observed
        \<or> ea_process_creation_time expected \<noteq> oi_process_creation_time observed
      then Err ExpectedProcessMismatch
      else if ea_agent_key_id expected \<noteq> ar_agent_key_id register then Err ExpectedAgentKeyMismatch
      else Ok ())"

definition validate_replacement_target ::
  "replacement_policy \<Rightarrow> active_agent option \<Rightarrow> (unit, agent_registry_error) result" where
  "validate_replacement_target policy active =
     (case policy of
        RejectExisting \<Rightarrow> (case active of None \<Rightarrow> Ok () | Some _ \<Rightarrow> Err ActiveSessionConflict)
      | ReplaceExisting registration_id registration_epoch \<Rightarrow>
          (case active of
             Some a \<Rightarrow>
               if ri_registration_id (aa_identity a) = registration_id
                  \<and> ri_registration_epoch (aa_identity a) = registration_epoch
               then Ok () else Err ReplacementTargetMismatch
           | None \<Rightarrow> Err ReplacementTargetMismatch))"

definition validate_challenge_material :: "challenge_material \<Rightarrow> (unit, agent_registry_error) result" where
  "validate_challenge_material m =
     (if all_zero (cm_registration_id m) \<or> all_zero (cm_challenge_id m) \<or> all_zero (cm_challenge_nonce m)
      then Err EntropyUnavailable else Ok ())"

text \<open>The system's random source, by the outcome of its three fills.\<close>

definition ring_next_material ::
  "bytes option \<Rightarrow> bytes option \<Rightarrow> bytes option \<Rightarrow> (challenge_material, agent_registry_error) result" where
  "ring_next_material fill1 fill2 fill3 =
     and_then (ok_or EntropyUnavailable fill1) (\<lambda>registration_id.
     and_then (ok_or EntropyUnavailable fill2) (\<lambda>challenge_id.
     and_then (ok_or EntropyUnavailable fill3) (\<lambda>challenge_nonce.
       let material = \<lparr>cm_registration_id = registration_id, cm_challenge_id = challenge_id,
                       cm_challenge_nonce = challenge_nonce\<rparr>
       in and_then (validate_challenge_material material) (\<lambda>_. Ok material))))"

definition challenge_material_in_use :: "registry_state \<Rightarrow> challenge_material \<Rightarrow> bool" where
  "challenge_material_in_use state m \<longleftrightarrow>
     list_ex (\<lambda>(_, p). pr_registration_id p = cm_registration_id m
                \<or> pr_challenge_id p = cm_challenge_id m
                \<or> pr_challenge_nonce p = cm_challenge_nonce m
                \<or> (case pr_phase p of
                      Authenticated identity \<Rightarrow> ri_registration_id identity = cm_registration_id m
                    | Challenged _ \<Rightarrow> False)) (rg_pending state)
     \<or> list_ex (\<lambda>(_, a). ri_registration_id (aa_identity a) = cm_registration_id m)
          (rg_active_by_session state)"

definition validate_capability_binding ::
  "registered_agent_identity \<Rightarrow> agent_capability_snapshot \<Rightarrow> (unit, agent_registry_error) result" where
  "validate_capability_binding identity snapshot =
     (if cs_registration_id snapshot \<noteq> ri_registration_id identity
        \<or> cs_agent_instance_id snapshot \<noteq> ri_agent_instance_id identity
        \<or> cs_windows_session_id snapshot \<noteq> ri_windows_session_id identity
      then Err MessageBindingMismatch else Ok ())"

definition validate_initial_capabilities ::
  "registered_agent_identity \<Rightarrow> agent_capability_snapshot \<Rightarrow> u64 \<Rightarrow> (unit, agent_registry_error) result" where
  "validate_initial_capabilities identity snapshot received_at_ms =
     and_then (validate_capability_binding identity snapshot) (\<lambda>_.
       if cs_revision snapshot = 0 then Err NonMonotonicCapabilityRevision
       else if cs_desktop_epoch snapshot = 0 \<or> cs_observed_at_ms snapshot = 0 \<or> received_at_ms = 0
       then Err MessageBindingMismatch else Ok ())"

definition validate_received_at :: "u64 \<Rightarrow> u64 \<Rightarrow> (unit, agent_registry_error) result" where
  "validate_received_at previous received_at_ms =
     (if received_at_ms = 0 \<or> received_at_ms < previous then Err NonMonotonicReceiveTime else Ok ())"

fun map_registration_error :: "registration_error \<Rightarrow> agent_registry_error" where
  "map_registration_error ChallengeExpired = RegistryChallengeExpired"
| "map_registration_error other = RegistryProtocol other"

definition agent_health :: "active_agent \<Rightarrow> u64 \<Rightarrow> agent_health_level" where
  "agent_health active now_ms =
     (if now_ms \<ge> aa_last_received_at_ms active
         \<and> now_ms - aa_last_received_at_ms active \<le> AGENT_HEARTBEAT_STALE_AFTER_MS
      then Healthy else Unresponsive)"

definition validate_route_readiness ::
  "active_agent \<Rightarrow> agent_capability \<Rightarrow> u64 \<Rightarrow> (unit, agent_route_error) result" where
  "validate_route_readiness active required_capability now_ms =
     (if agent_health active now_ms \<noteq> Healthy then Err Unhealthy
      else if required_capability \<notin> cs_capabilities (aa_capabilities active) then Err CapabilityUnavailable
      else Ok ())"

section \<open>Admission and registration\<close>

definition registry_new :: registry_state where
  "registry_new = \<lparr>rg_accepting_registrations = True, rg_expected = [], rg_pending = [],
     rg_pending_by_session = [], rg_active_by_session = [], rg_active_by_connection = [],
     rg_next_epoch = 1, rg_channels = []\<rparr>"

definition expect_session_at ::
  "expected_agent_session \<Rightarrow> registration_verifier \<Rightarrow> u64 \<Rightarrow> registry_state
   \<Rightarrow> registry_state \<times> (unit, agent_registry_error) result" where
  "expect_session_at expected verifier now_ms state =
     (case validate_expected_session expected of
        Err e \<Rightarrow> (state, Err e)
      | Ok _ \<Rightarrow>
        if now_ms \<ge> ea_expires_at_ms expected then (state, Err ExpectedSessionExpired)
        else if \<not> rg_accepting_registrations state then (state, Err SecurityUnavailable)
        else (case validate_replacement_target (ea_replacement_policy expected)
                     (map_of (rg_active_by_session state) (ea_windows_session_id expected)) of
           Err e \<Rightarrow> (state, Err e)
         | Ok _ \<Rightarrow>
           let inserted = state\<lparr>rg_expected := AList.update (ea_windows_session_id expected)
                 \<lparr>xa_session = expected, xa_verifier = verifier\<rparr> (rg_expected state)\<rparr>
           in (case map_of (rg_expected state) (ea_windows_session_id expected) of
                 Some current \<Rightarrow>
                   if xa_session current = expected
                      \<and> rv_pointer (xa_verifier current) = rv_pointer verifier
                   then (state, Ok ())
                   else if ea_expires_at_ms (xa_session current) \<le> now_ms
                      \<and> map_of (rg_pending_by_session state) (ea_windows_session_id expected) = None
                   then (inserted, Ok ())
                   else (state, Err ExpectedSessionConflict)
               | None \<Rightarrow> (inserted, Ok ()))))"

definition cancel_expected_session ::
  "expected_agent_session \<Rightarrow> registry_state \<Rightarrow> registry_state \<times> bool" where
  "cancel_expected_session expected state =
     (if map_of (rg_pending_by_session state) (ea_windows_session_id expected) \<noteq> None
      then (state, False)
      else if (case map_of (rg_expected state) (ea_windows_session_id expected) of
                 Some current \<Rightarrow> xa_session current = expected | None \<Rightarrow> False)
      then (state\<lparr>rg_expected := AList.delete (ea_windows_session_id expected) (rg_expected state)\<rparr>, True)
      else (state, False))"

text \<open>
  The challenge of an admitted register message; the epoch is taken before its expiry is
  computed, so a failure there uses the epoch up.
\<close>

definition challenge_of ::
  "challenge_material \<Rightarrow> u64 \<Rightarrow> agent_register \<Rightarrow> observed_agent_identity \<Rightarrow> u64 \<Rightarrow> u64 \<Rightarrow> agent_challenge" where
  "challenge_of material registration_epoch register observed now_ms expires_at_ms =
     \<lparr>ac_registration_id = cm_registration_id material, ac_registration_epoch = registration_epoch,
      ac_challenge_id = cm_challenge_id material, ac_challenge_nonce = cm_challenge_nonce material,
      ac_expected_agent_instance_id = ar_agent_instance_id register,
      ac_expected_process_id = oi_process_id observed,
      ac_expected_process_creation_time = oi_process_creation_time observed,
      ac_expected_logon_sid_hash = oi_logon_sid_hash observed,
      ac_expected_windows_session_id = oi_windows_session_id observed,
      ac_issued_at_ms = now_ms, ac_expires_at_ms = expires_at_ms\<rparr>"

definition begin_registration ::
  "agent_connection_id \<Rightarrow> agent_register \<Rightarrow> observed_agent_identity \<Rightarrow> u64
   \<Rightarrow> (challenge_material, agent_registry_error) result \<Rightarrow> registry_state
   \<Rightarrow> registry_state \<times> (agent_challenge, agent_registry_error) result" where
  "begin_registration connection_id register observed now_ms next_material state =
     (case validate_observed_registration register observed of
        Err e \<Rightarrow> (state, Err e)
      | Ok _ \<Rightarrow>
     (case accept_register aps_new register of
        (_, Err e) \<Rightarrow> (state, Err (RegistryProtocol e))
      | (protocol, Ok _) \<Rightarrow>
     (case next_material of
        Err e \<Rightarrow> (state, Err e)
      | Ok material \<Rightarrow>
     (case validate_challenge_material material of
        Err e \<Rightarrow> (state, Err e)
      | Ok _ \<Rightarrow>
     if \<not> rg_accepting_registrations state then (state, Err SecurityUnavailable)
     else (case map_of (rg_expected state) (oi_windows_session_id observed) of
        None \<Rightarrow> (state, Err UnexpectedWindowsSession)
      | Some expected \<Rightarrow>
     (case validate_expected_binding (xa_session expected) register observed now_ms of
        Err e \<Rightarrow> (state, Err e)
      | Ok _ \<Rightarrow>
     if map_of (rg_pending state) connection_id \<noteq> None
        \<or> map_of (rg_active_by_connection state) connection_id \<noteq> None
     then (state, Err DuplicateConnection)
     else if map_of (rg_pending_by_session state) (oi_windows_session_id observed) \<noteq> None
     then (state, Err RegistrationInProgress)
     else (case validate_replacement_target (ea_replacement_policy (xa_session expected))
                  (map_of (rg_active_by_session state) (oi_windows_session_id observed)) of
        Err e \<Rightarrow> (state, Err e)
      | Ok _ \<Rightarrow>
     if challenge_material_in_use state material then (state, Err EntropyUnavailable)
     else let registration_epoch = rg_next_epoch state
     in (case checked_add (rg_next_epoch state) 1 of
        None \<Rightarrow> (state, Err EpochExhausted)
      | Some next \<Rightarrow>
     let state = state\<lparr>rg_next_epoch := next\<rparr>
     in (case checked_add now_ms AGENT_REGISTRATION_CHALLENGE_MAX_LIFETIME_MS of
        None \<Rightarrow> (state, Err ChallengeTimeOverflow)
      | Some expires_at_ms \<Rightarrow>
     let challenge = challenge_of material registration_epoch register observed now_ms expires_at_ms
     in (case issue_challenge protocol challenge of
        (_, Err e) \<Rightarrow> (state, Err (RegistryProtocol e))
      | (protocol, Ok _) \<Rightarrow>
     (state\<lparr>rg_pending := AList.update connection_id
              \<lparr>pr_expected = xa_session expected, pr_verifier = xa_verifier expected,
               pr_registration_id = cm_registration_id material,
               pr_challenge_id = cm_challenge_id material,
               pr_challenge_nonce = cm_challenge_nonce material,
               pr_phase = Challenged protocol\<rparr> (rg_pending state),
            rg_pending_by_session :=
              AList.update (oi_windows_session_id observed) connection_id (rg_pending_by_session state)\<rparr>,
      Ok challenge)))))))))))"

text \<open>\<open>complete_registration\<close>: the pending entry is taken out, and verified without the lock.\<close>

definition complete_take ::
  "agent_connection_id \<Rightarrow> registry_state
   \<Rightarrow> registry_state \<times> (pending_registration \<times> agent_protocol_state, agent_registry_error) result" where
  "complete_take connection_id state =
     (case map_of (rg_pending state) connection_id of
        None \<Rightarrow> (state, Err NoPendingRegistration)
      | Some pending \<Rightarrow>
          let removed = state\<lparr>rg_pending := AList.delete connection_id (rg_pending state)\<rparr>
          in (case pr_phase pending of
                Authenticated _ \<Rightarrow>
                  (removed\<lparr>rg_pending := AList.update connection_id pending (rg_pending removed)\<rparr>,
                   Err RegistrationAlreadyAuthenticated)
              | Challenged protocol \<Rightarrow> (removed, Ok (pending, protocol))))"

definition complete_finish ::
  "agent_connection_id \<Rightarrow> pending_registration
   \<Rightarrow> (registered_agent_identity, registration_error) result \<Rightarrow> registry_state
   \<Rightarrow> registry_state \<times> (registered_agent_identity, agent_registry_error) result" where
  "complete_finish connection_id pending verification state =
     (let session = ea_windows_session_id (pr_expected pending);
          released = state\<lparr>rg_pending_by_session := AList.delete session (rg_pending_by_session state)\<rparr>
      in if map_of (rg_pending_by_session state) session \<noteq> Some connection_id
         then (state, Err NoPendingRegistration)
         else (case verification of
                 Err e \<Rightarrow> (released, Err (map_registration_error e))
               | Ok identity \<Rightarrow>
                   if \<not> (case map_of (rg_expected state) session of
                           Some current \<Rightarrow> xa_session current = pr_expected pending | None \<Rightarrow> False)
                   then (released, Err UnexpectedWindowsSession)
                   else (state\<lparr>rg_pending := AList.update connection_id
                                 (pending\<lparr>pr_phase := Authenticated identity\<rparr>) (rg_pending state)\<rparr>,
                         Ok identity)))"

definition registry_complete_registration ::
  "agent_connection_id \<Rightarrow> agent_registered \<Rightarrow> u64 \<Rightarrow> registry_state
   \<Rightarrow> registry_state \<times> (registered_agent_identity, agent_registry_error) result" where
  "registry_complete_registration connection_id proof now_ms state =
     (case complete_take connection_id state of
        (state, Err e) \<Rightarrow> (state, Err e)
      | (state, Ok (pending, protocol)) \<Rightarrow>
          complete_finish connection_id pending
            (snd (complete_registration (rv_verify (pr_verifier pending)) protocol proof now_ms)) state)"

definition activate_registration ::
  "agent_connection_id \<Rightarrow> agent_capability_snapshot \<Rightarrow> u64 \<Rightarrow> registry_state
   \<Rightarrow> registry_state \<times> (registration_outcome, agent_registry_error) result" where
  "activate_registration connection_id snapshot received_at_ms state =
     (case map_of (rg_pending state) connection_id of
        None \<Rightarrow> (state, Err NoPendingRegistration)
      | Some pending \<Rightarrow>
     let session = ea_windows_session_id (pr_expected pending);
         state = state\<lparr>rg_pending := AList.delete connection_id (rg_pending state)\<rparr>;
         state = (if map_of (rg_pending_by_session state) session = Some connection_id
                  then state\<lparr>rg_pending_by_session := AList.delete session (rg_pending_by_session state)\<rparr>
                  else state)
     in (case pr_phase pending of
        Challenged _ \<Rightarrow> (state, Err NoPendingRegistration)
      | Authenticated identity \<Rightarrow>
     (case validate_initial_capabilities identity snapshot received_at_ms of
        Err e \<Rightarrow> (state, Err e)
      | Ok _ \<Rightarrow>
     if received_at_ms \<ge> ea_expires_at_ms (pr_expected pending)
     then (state, Err ExpectedSessionExpired)
     else if \<not> (case map_of (rg_expected state) session of
                  Some current \<Rightarrow> xa_session current = pr_expected pending | None \<Rightarrow> False)
     then (state, Err UnexpectedWindowsSession)
     else (case validate_replacement_target (ea_replacement_policy (pr_expected pending))
                  (map_of (rg_active_by_session state) session) of
        Err e \<Rightarrow> (state, Err e)
      | Ok _ \<Rightarrow>
     let replaced = map_of (rg_active_by_session state) session;
         state = state\<lparr>rg_active_by_session := AList.delete session (rg_active_by_session state)\<rparr>;
         state = (case replaced of
             Some active \<Rightarrow>
               state\<lparr>rg_active_by_connection :=
                         AList.delete (aa_connection_id active) (rg_active_by_connection state),
                       rg_channels := (rg_channels state)[aa_revocation active := True]\<rparr>
           | None \<Rightarrow> state);
         revocation = length (rg_channels state);
         state = state\<lparr>rg_channels := rg_channels state @ [False],
           rg_active_by_connection := AList.update connection_id session (rg_active_by_connection state),
           rg_active_by_session := AList.update session
             \<lparr>aa_connection_id = connection_id, aa_identity = identity, aa_capabilities = snapshot,
              aa_last_event_sequence = 0, aa_last_agent_observed_at_ms = cs_observed_at_ms snapshot,
              aa_last_received_at_ms = received_at_ms, aa_revocation = revocation\<rparr>
             (rg_active_by_session state),
           rg_expected := AList.delete session (rg_expected state)\<rparr>
     in (state, Ok \<lparr>ro_identity = identity,
                    ro_replaced_connection = map_option aa_connection_id replaced\<rparr>)))))"

section \<open>The active agents\<close>

definition active_for_connection_mut ::
  "agent_connection_id \<Rightarrow> registry_state \<Rightarrow> (u32 \<times> active_agent, agent_registry_error) result" where
  "active_for_connection_mut connection_id state =
     and_then (ok_or NotActive (map_of (rg_active_by_connection state) connection_id)) (\<lambda>session_id.
     and_then (ok_or NotActive (map_of (rg_active_by_session state) session_id)) (\<lambda>active.
       if aa_connection_id active \<noteq> connection_id then Err NotActive else Ok (session_id, active)))"

definition record_capabilities ::
  "agent_connection_id \<Rightarrow> agent_capability_snapshot \<Rightarrow> u64 \<Rightarrow> registry_state
   \<Rightarrow> registry_state \<times> (unit, agent_registry_error) result" where
  "record_capabilities connection_id snapshot received_at_ms state =
     (case active_for_connection_mut connection_id state of
        Err e \<Rightarrow> (state, Err e)
      | Ok (session_id, active) \<Rightarrow>
     (case validate_capability_binding (aa_identity active) snapshot of
        Err e \<Rightarrow> (state, Err e)
      | Ok _ \<Rightarrow>
     if cs_revision snapshot = 0 \<or> cs_revision snapshot \<le> cs_revision (aa_capabilities active)
     then (state, Err NonMonotonicCapabilityRevision)
     else if cs_desktop_epoch snapshot < cs_desktop_epoch (aa_capabilities active)
     then (state, Err DesktopEpochRollback)
     else (case validate_received_at (aa_last_received_at_ms active) received_at_ms of
        Err e \<Rightarrow> (state, Err e)
      | Ok _ \<Rightarrow>
     (state\<lparr>rg_active_by_session := AList.update session_id
        (active\<lparr>aa_last_received_at_ms := received_at_ms,
                aa_last_agent_observed_at_ms :=
                  max (aa_last_agent_observed_at_ms active) (cs_observed_at_ms snapshot),
                aa_capabilities := snapshot\<rparr>) (rg_active_by_session state)\<rparr>, Ok ()))))"

definition agent_record_heartbeat ::
  "agent_connection_id \<Rightarrow> agent_heartbeat \<Rightarrow> u64 \<Rightarrow> registry_state
   \<Rightarrow> registry_state \<times> (unit, agent_registry_error) result" where
  "agent_record_heartbeat connection_id heartbeat received_at_ms state =
     (case active_for_connection_mut connection_id state of
        Err e \<Rightarrow> (state, Err e)
      | Ok (session_id, active) \<Rightarrow>
     let context = hb_context heartbeat
     in if ec_registration_id context \<noteq> ri_registration_id (aa_identity active)
          \<or> ec_registration_epoch context \<noteq> ri_registration_epoch (aa_identity active)
          \<or> ec_windows_session_id context \<noteq> ri_windows_session_id (aa_identity active)
          \<or> ec_desktop_epoch context \<noteq> cs_desktop_epoch (aa_capabilities active)
          \<or> ec_observed_at_ms context = 0
     then (state, Err MessageBindingMismatch)
     else if ec_sequence context = 0 \<or> ec_sequence context \<le> aa_last_event_sequence active
     then (state, Err NonMonotonicEventSequence)
     else (case validate_received_at (aa_last_received_at_ms active) received_at_ms of
        Err e \<Rightarrow> (state, Err e)
      | Ok _ \<Rightarrow>
     (state\<lparr>rg_active_by_session := AList.update session_id
        (active\<lparr>aa_last_event_sequence := ec_sequence context,
                aa_last_received_at_ms := received_at_ms,
                aa_last_agent_observed_at_ms :=
                  max (aa_last_agent_observed_at_ms active) (ec_observed_at_ms context)\<rparr>)
        (rg_active_by_session state)\<rparr>, Ok ())))"

definition invalidated :: "u32 \<Rightarrow> active_agent \<Rightarrow> invalidated_registration" where
  "invalidated windows_session_id active =
     \<lparr>iv_registration_id = ri_registration_id (aa_identity active),
      iv_registration_epoch = ri_registration_epoch (aa_identity active),
      iv_windows_session_id = windows_session_id\<rparr>"

definition disconnect ::
  "agent_connection_id \<Rightarrow> registry_state \<Rightarrow> registry_state \<times> invalidated_registration option" where
  "disconnect connection_id state =
     (let state = (case map_of (rg_pending state) connection_id of
          Some pending \<Rightarrow>
            let session = ea_windows_session_id (pr_expected pending);
                state = state\<lparr>rg_pending := AList.delete connection_id (rg_pending state)\<rparr>
            in if map_of (rg_pending_by_session state) session = Some connection_id
               then state\<lparr>rg_pending_by_session := AList.delete session (rg_pending_by_session state)\<rparr>
               else state
        | None \<Rightarrow>
            state\<lparr>rg_pending_by_session :=
              filter (\<lambda>(_, pending_connection). pending_connection \<noteq> connection_id)
                (rg_pending_by_session state)\<rparr>)
      in case map_of (rg_active_by_connection state) connection_id of
           None \<Rightarrow> (state, None)
         | Some windows_session_id \<Rightarrow>
             let state = state\<lparr>rg_active_by_connection :=
                   AList.delete connection_id (rg_active_by_connection state)\<rparr>
             in (case map_of (rg_active_by_session state) windows_session_id of
                   None \<Rightarrow> (state, None)
                 | Some active \<Rightarrow>
                     if aa_connection_id active \<noteq> connection_id then (state, None)
                     else (state\<lparr>rg_active_by_session :=
                                    AList.delete windows_session_id (rg_active_by_session state),
                                  rg_channels := (rg_channels state)[aa_revocation active := True]\<rparr>,
                           Some (invalidated windows_session_id active))))"

definition invalidate_all ::
  "registry_state \<Rightarrow> registry_state \<times> invalidated_registration list" where
  "invalidate_all state =
     (state\<lparr>rg_accepting_registrations := False, rg_expected := [], rg_pending := [],
            rg_pending_by_session := [], rg_active_by_connection := [], rg_active_by_session := [],
            rg_channels := fold (\<lambda>(_, active) channels. channels[aa_revocation active := True])
              (rg_active_by_session state) (rg_channels state)\<rparr>,
      map (\<lambda>(windows_session_id, active). invalidated windows_session_id active)
        (rg_active_by_session state))"

section \<open>Routes\<close>

definition is_registration_active :: "bytes \<Rightarrow> u64 \<Rightarrow> registry_state \<Rightarrow> bool" where
  "is_registration_active registration_id epoch state =
     list_ex (\<lambda>(_, active). ri_registration_id (aa_identity active) = registration_id
                \<and> ri_registration_epoch (aa_identity active) = epoch) (rg_active_by_session state)"

definition is_connection_active :: "agent_connection_id \<Rightarrow> registry_state \<Rightarrow> bool" where
  "is_connection_active connection_id state =
     (case map_of (rg_active_by_connection state) connection_id of
        None \<Rightarrow> False
      | Some session_id \<Rightarrow>
          (case map_of (rg_active_by_session state) session_id of
             None \<Rightarrow> False | Some active \<Rightarrow> aa_connection_id active = connection_id))"

definition registration_lease :: "active_agent \<Rightarrow> agent_registration_lease" where
  "registration_lease active =
     \<lparr>le_registration_id = ri_registration_id (aa_identity active),
      le_registration_epoch = ri_registration_epoch (aa_identity active),
      le_revoked = aa_revocation active\<rparr>"

text \<open>A receiver reports an error once its sender, owned by the active agent, is gone.\<close>

definition lease_is_revoked :: "agent_registration_lease \<Rightarrow> registry_state \<Rightarrow> bool" where
  "lease_is_revoked lease state \<longleftrightarrow>
     rg_channels state ! le_revoked lease
     \<or> \<not> list_ex (\<lambda>(_, active). aa_revocation active = le_revoked lease) (rg_active_by_session state)"

definition lease_for_session :: "u32 \<Rightarrow> registry_state \<Rightarrow> agent_registration_lease option" where
  "lease_for_session windows_session_id state =
     map_option registration_lease (map_of (rg_active_by_session state) windows_session_id)"

definition bind_active_session ::
  "u32 \<Rightarrow> agent_capability \<Rightarrow> u64 \<Rightarrow> registry_state \<Rightarrow> (agent_binding, agent_route_error) result" where
  "bind_active_session windows_session_id required_capability now_ms state =
     and_then (ok_or SessionUnavailable (map_of (rg_active_by_session state) windows_session_id)) (\<lambda>active.
     and_then (validate_route_readiness active required_capability now_ms) (\<lambda>_.
       Ok \<lparr>ab_windows_session_id = windows_session_id, ab_connection_id = aa_connection_id active,
           ab_registration_id = ri_registration_id (aa_identity active),
           ab_registration_epoch = ri_registration_epoch (aa_identity active),
           ab_desktop_epoch = cs_desktop_epoch (aa_capabilities active),
           ab_required_capability = required_capability\<rparr>))"

definition resolve_bound_generation ::
  "agent_binding \<Rightarrow> agent_capability \<Rightarrow> u16 \<Rightarrow> u64 \<Rightarrow> bool \<Rightarrow> registry_state
   \<Rightarrow> (exact_agent_route, agent_route_error) result" where
  "resolve_bound_generation binding required_capability minimum_protocol_minor now_ms cleanup state =
     (if ab_required_capability binding \<noteq> required_capability then Err CapabilityBindingMismatch
      else
      and_then (ok_or BindingRevoked (map_of (rg_active_by_session state) (ab_windows_session_id binding)))
        (\<lambda>active.
      if aa_connection_id active \<noteq> ab_connection_id binding
        \<or> ri_registration_id (aa_identity active) \<noteq> ab_registration_id binding
        \<or> ri_registration_epoch (aa_identity active) \<noteq> ab_registration_epoch binding
        \<or> ri_windows_session_id (aa_identity active) \<noteq> ab_windows_session_id binding
      then Err BindingRevoked
      else if \<not> cleanup \<and> cs_desktop_epoch (aa_capabilities active) \<noteq> ab_desktop_epoch binding
      then Err DesktopChanged
      else if ri_protocol_minor (aa_identity active) < minimum_protocol_minor
      then Err ProtocolVersionUnavailable
      else
      and_then (if cleanup
                then (if agent_health active now_ms \<noteq> Healthy then Err Unhealthy else Ok ())
                else validate_route_readiness active required_capability now_ms) (\<lambda>_.
      Ok \<lparr>ex_binding = binding, ex_lease = registration_lease active\<rparr>)))"

definition resolve_exact_with_minimum_minor ::
  "agent_binding \<Rightarrow> agent_capability \<Rightarrow> u16 \<Rightarrow> u64 \<Rightarrow> registry_state
   \<Rightarrow> (exact_agent_route, agent_route_error) result" where
  "resolve_exact_with_minimum_minor binding required_capability minimum_protocol_minor now_ms state =
     resolve_bound_generation binding required_capability minimum_protocol_minor now_ms False state"

definition resolve_exact ::
  "agent_binding \<Rightarrow> agent_capability \<Rightarrow> u64 \<Rightarrow> registry_state
   \<Rightarrow> (exact_agent_route, agent_route_error) result" where
  "resolve_exact binding required_capability now_ms state =
     resolve_exact_with_minimum_minor binding required_capability 0 now_ms state"

definition resolve_cleanup_with_minimum_minor ::
  "agent_binding \<Rightarrow> agent_capability \<Rightarrow> u16 \<Rightarrow> u64 \<Rightarrow> registry_state
   \<Rightarrow> (exact_agent_route, agent_route_error) result" where
  "resolve_cleanup_with_minimum_minor binding required_capability minimum_protocol_minor now_ms state =
     resolve_bound_generation binding required_capability minimum_protocol_minor now_ms True state"

definition active_for_session_at :: "u32 \<Rightarrow> u64 \<Rightarrow> registry_state \<Rightarrow> active_agent_snapshot option" where
  "active_for_session_at windows_session_id now_ms state =
     map_option (\<lambda>active.
       \<lparr>as_connection_id = aa_connection_id active, as_identity = aa_identity active,
        as_capabilities = aa_capabilities active,
        as_last_event_sequence = aa_last_event_sequence active,
        as_last_agent_observed_at_ms = aa_last_agent_observed_at_ms active,
        as_last_received_at_ms = aa_last_received_at_ms active,
        as_health = agent_health active now_ms\<rparr>)
       (map_of (rg_active_by_session state) windows_session_id)"

end
