(* ===== verification/Agent_Generations.thy ===== *)
theory Agent_Generations
  imports Agent_Registry
begin

text \<open>
  The agent registry under every interleaving of its calls: the step relation \<open>ar_step\<close>, where a
  connection stands (\<open>place_inv\<close>), which revocation channels are open (\<open>chan_ok\<close>), where an agent
  comes from (\<open>prov_inv\<close>), and how a generation, named by its epoch, is followed from its
  challenge to its end (\<open>epoch_flow\<close>, \<open>generation\<close>).
\<close>

section \<open>All interleavings\<close>

text \<open>
  \<open>aw_verifying\<close> holds the calls of \<open>complete_registration\<close> between their two locked blocks:
  connection, pending entry and result of the verification.  \<open>aw_admitted\<close> and \<open>aw_begun\<close> are
  history: the admissions the launcher was granted, and the challenges issued with the register
  message and the process the system observed on the connection.

  Each connection is served by one task (\<open>run_connection\<close> of \<open>server.rs\<close>), which makes the
  connection's calls one after the other; hence the condition that no verification of that
  connection is under way.  Everything else happens in any order.
\<close>

type_synonym verification_call =
  "agent_connection_id \<times> pending_registration \<times> (registered_agent_identity, registration_error) result"

record agent_world =
  aw_registry :: registry_state
  aw_verifying :: "verification_call list"
  aw_admitted :: "(expected_agent_session \<times> registration_verifier) list"
  aw_begun :: "(agent_connection_id \<times> agent_register \<times> observed_agent_identity \<times> agent_challenge) list"

definition world_new :: agent_world where
  "world_new = \<lparr>aw_registry = registry_new, aw_verifying = [], aw_admitted = [], aw_begun = []\<rparr>"

abbreviation idle :: "agent_connection_id \<Rightarrow> agent_world \<Rightarrow> bool" where
  "idle c W \<equiv> c \<notin> fst ` set (aw_verifying W)"

inductive ar_step :: "agent_world \<Rightarrow> agent_world \<Rightarrow> bool" where
  ar_expect: "expect_session_at e v now (aw_registry W) = (s, r) \<Longrightarrow>
    ar_step W (W\<lparr>aw_registry := s,
                aw_admitted := (if is_ok r then (e, v) # aw_admitted W else aw_admitted W)\<rparr>)"
| ar_cancel: "cancel_expected_session e (aw_registry W) = (s, b) \<Longrightarrow> ar_step W (W\<lparr>aw_registry := s\<rparr>)"
| ar_begin: "idle c W \<Longrightarrow> begin_registration c reg obs now material (aw_registry W) = (s, Inr ch) \<Longrightarrow>
    ar_step W (W\<lparr>aw_registry := s, aw_begun := (c, reg, obs, ch) # aw_begun W\<rparr>)"
| ar_begin_fail: "idle c W \<Longrightarrow> begin_registration c reg obs now material (aw_registry W) = (s, Inl err) \<Longrightarrow>
    ar_step W (W\<lparr>aw_registry := s\<rparr>)"
| ar_take: "idle c W \<Longrightarrow> complete_take c (aw_registry W) = (s, Inr (p, protocol)) \<Longrightarrow>
    complete_registration (rv_verify (pr_verifier p)) protocol answer now = (protocol', r) \<Longrightarrow>
    ar_step W (W\<lparr>aw_registry := s, aw_verifying := (c, p, r) # aw_verifying W\<rparr>)"
| ar_take_fail: "idle c W \<Longrightarrow> complete_take c (aw_registry W) = (s, Inl err) \<Longrightarrow>
    ar_step W (W\<lparr>aw_registry := s\<rparr>)"
| ar_finish: "aw_verifying W = xs @ (c, p, r) # ys \<Longrightarrow> complete_finish c p r (aw_registry W) = (s, r') \<Longrightarrow>
    ar_step W (W\<lparr>aw_registry := s, aw_verifying := xs @ ys\<rparr>)"
| ar_activate: "idle c W \<Longrightarrow> activate_registration c snapshot now (aw_registry W) = (s, o') \<Longrightarrow>
    ar_step W (W\<lparr>aw_registry := s\<rparr>)"
| ar_capabilities: "record_capabilities c snapshot now (aw_registry W) = (s, u) \<Longrightarrow>
    ar_step W (W\<lparr>aw_registry := s\<rparr>)"
| ar_heartbeat: "agent_record_heartbeat c heartbeat now (aw_registry W) = (s, u) \<Longrightarrow>
    ar_step W (W\<lparr>aw_registry := s\<rparr>)"
| ar_disconnect: "disconnect c (aw_registry W) = (s, i) \<Longrightarrow> ar_step W (W\<lparr>aw_registry := s\<rparr>)"
| ar_invalidate: "invalidate_all (aw_registry W) = (s, is) \<Longrightarrow> ar_step W (W\<lparr>aw_registry := s\<rparr>)"

inductive_cases ar_stepE: "ar_step W W'"

section \<open>What each operation does\<close>

lemma hm_filter_values:
  assumes "hm_wf m"
  shows "hm_wf (filter (\<lambda>(_, v). Q v) m)"
    and "map_of (filter (\<lambda>(_, v). Q v) m) k = (case map_of m k of Some v \<Rightarrow> if Q v then Some v else None | None \<Rightarrow> None)"
  using assms by (induction m) (auto simp: hm_wf_def split: option.splits, force)

lemmas hm_simps = update_conv' delete_conv' hm.wf_ins hm.wf_del

text \<open>What binds a register message and a challenge to an admission.\<close>

definition admitted_process ::
  "expected_agent_session \<Rightarrow> agent_register \<Rightarrow> observed_agent_identity \<Rightarrow> bool" where
  "admitted_process expected reg obs \<longleftrightarrow>
     oi_caller_kind obs = InteractiveUser \<and>
     ar_process_id reg = oi_process_id obs \<and> ea_process_id expected = oi_process_id obs \<and>
     ar_process_creation_time reg = oi_process_creation_time obs \<and>
     ea_process_creation_time expected = oi_process_creation_time obs \<and>
     ar_logon_sid_hash reg = oi_logon_sid_hash obs \<and> ea_logon_sid_hash expected = oi_logon_sid_hash obs \<and>
     ar_windows_session_id reg = oi_windows_session_id obs \<and>
     ea_windows_session_id expected = oi_windows_session_id obs \<and>
     ar_agent_key_id reg = ea_agent_key_id expected"

definition begun_entry ::
  "expected_agent_admission \<Rightarrow> challenge_material \<Rightarrow> agent_protocol_state \<Rightarrow> pending_registration" where
  "begun_entry x material protocol =
     \<lparr>pr_expected = xa_session x, pr_verifier = xa_verifier x,
      pr_registration_id = cm_registration_id material, pr_challenge_id = cm_challenge_id material,
      pr_challenge_nonce = cm_challenge_nonce material, pr_phase = Challenged protocol\<rparr>"

lemma begin_fail_cases:
  assumes "begin_registration c reg obs now material s = (t, Err err)"
  shows "t = s \<or> (\<exists>n. checked_add (rg_next_epoch s) 1 = Some n \<and> t = s\<lparr>rg_next_epoch := n\<rparr>)"
  using assms unfolding begin_registration_def Let_def
  by (simp split: sum.splits prod.splits option.splits if_splits)

lemma begin_Ok_cases:
  assumes "begin_registration c reg obs now material s = (t, Ok ch)"
  shows "\<exists>m x n protocol. material = Ok m \<and> rg_accepting_registrations s \<and>
    validate_observed_registration reg obs = Ok () \<and> register_shape reg \<and>
    map_of (rg_expected s) (oi_windows_session_id obs) = Some x \<and>
    validate_expected_binding (xa_session x) reg obs now = Ok () \<and>
    map_of (rg_pending s) c = None \<and> map_of (rg_active_by_connection s) c = None \<and>
    map_of (rg_pending_by_session s) (oi_windows_session_id obs) = None \<and>
    \<not> challenge_material_in_use s m \<and>
    checked_add (rg_next_epoch s) 1 = Some n \<and> ac_registration_epoch ch = rg_next_epoch s \<and>
    ac_registration_id ch = cm_registration_id m \<and>
    challenge_for reg ch \<and> aps_phase protocol = ChallengeIssued reg ch \<and>
    t = s\<lparr>rg_next_epoch := n,
          rg_pending := AList.update c (begun_entry x m protocol) (rg_pending s),
          rg_pending_by_session := AList.update (oi_windows_session_id obs) c (rg_pending_by_session s)\<rparr>"
  using assms unfolding begin_registration_def Let_def
  by (auto split: sum.splits prod.splits option.splits if_splits
      simp: begun_entry_def challenge_of_def dest!: accept_register_cases issue_challenge_cases)

text \<open>The pieces of which activation and disconnection are made.\<close>

abbreviation pending_session :: "pending_registration \<Rightarrow> u32" where
  "pending_session p \<equiv> ea_windows_session_id (pr_expected p)"

definition drop_pending :: "agent_connection_id \<Rightarrow> pending_registration \<Rightarrow> registry_state \<Rightarrow> registry_state" where
  "drop_pending c p s =
     s\<lparr>rg_pending := AList.delete c (rg_pending s),
       rg_pending_by_session :=
         (if map_of (rg_pending_by_session s) (pending_session p) = Some c
          then AList.delete (pending_session p) (rg_pending_by_session s) else rg_pending_by_session s)\<rparr>"

definition retire :: "u32 \<Rightarrow> registry_state \<Rightarrow> registry_state" where
  "retire w s =
     (case map_of (rg_active_by_session s) w of
        None \<Rightarrow> s
      | Some a \<Rightarrow> s\<lparr>rg_active_by_session := AList.delete w (rg_active_by_session s),
                   rg_active_by_connection := AList.delete (aa_connection_id a) (rg_active_by_connection s),
                   rg_channels := (rg_channels s)[aa_revocation a := True]\<rparr>)"

definition new_agent ::
  "agent_connection_id \<Rightarrow> registered_agent_identity \<Rightarrow> agent_capability_snapshot \<Rightarrow> u64 \<Rightarrow> nat \<Rightarrow> active_agent" where
  "new_agent c identity snapshot received_at_ms revocation =
     \<lparr>aa_connection_id = c, aa_identity = identity, aa_capabilities = snapshot,
      aa_last_event_sequence = 0, aa_last_agent_observed_at_ms = cs_observed_at_ms snapshot,
      aa_last_received_at_ms = received_at_ms, aa_revocation = revocation\<rparr>"

definition install :: "u32 \<Rightarrow> (nat \<Rightarrow> active_agent) \<Rightarrow> registry_state \<Rightarrow> registry_state" where
  "install w agent s =
     (let a = agent (length (rg_channels s))
      in s\<lparr>rg_channels := rg_channels s @ [False],
           rg_active_by_connection := AList.update (aa_connection_id a) w (rg_active_by_connection s),
           rg_active_by_session := AList.update w a (rg_active_by_session s),
           rg_expected := AList.delete w (rg_expected s)\<rparr>)"

lemma complete_take_Ok:
  "complete_take c s = (t, Ok (p, protocol)) \<Longrightarrow>
     map_of (rg_pending s) c = Some p \<and> pr_phase p = Challenged protocol \<and>
     t = s\<lparr>rg_pending := AList.delete c (rg_pending s)\<rparr>"
  by (auto simp: complete_take_def Let_def split: option.splits pending_phase.splits)

lemma complete_take_fail:
  "complete_take c s = (t, Err e) \<Longrightarrow>
     t = s \<or> (\<exists>p. map_of (rg_pending s) c = Some p \<and>
       t = s\<lparr>rg_pending := AList.update c p (AList.delete c (rg_pending s))\<rparr>)"
  by (auto simp: complete_take_def Let_def split: option.splits pending_phase.splits)

lemma complete_finish_cases:
  "complete_finish c p r s = (t, r') \<Longrightarrow>
     (map_of (rg_pending_by_session s) (pending_session p) \<noteq> Some c \<and> t = s \<and> \<not> is_ok r') \<or>
     (map_of (rg_pending_by_session s) (pending_session p) = Some c \<and> \<not> is_ok r' \<and>
        t = s\<lparr>rg_pending_by_session := AList.delete (pending_session p) (rg_pending_by_session s)\<rparr>) \<or>
     (\<exists>identity. map_of (rg_pending_by_session s) (pending_session p) = Some c \<and> r = Ok identity \<and>
        r' = Ok identity \<and>
        t = s\<lparr>rg_pending := AList.update c (p\<lparr>pr_phase := Authenticated identity\<rparr>) (rg_pending s)\<rparr>)"
  by (auto simp: complete_finish_def Let_def split: sum.splits if_splits)

lemma drop_pending_eq:
  "drop_pending c p s =
     (let s' = s\<lparr>rg_pending := AList.delete c (rg_pending s)\<rparr>
      in if map_of (rg_pending_by_session s') (pending_session p) = Some c
         then s'\<lparr>rg_pending_by_session := AList.delete (pending_session p) (rg_pending_by_session s')\<rparr>
         else s')"
  by (simp add: drop_pending_def Let_def)

lemma drop_pending_fields [simp]:
  "rg_expected (drop_pending c p s) = rg_expected s"
  "rg_active_by_session (drop_pending c p s) = rg_active_by_session s"
  "rg_active_by_connection (drop_pending c p s) = rg_active_by_connection s"
  "rg_channels (drop_pending c p s) = rg_channels s"
  "rg_next_epoch (drop_pending c p s) = rg_next_epoch s"
  "rg_accepting_registrations (drop_pending c p s) = rg_accepting_registrations s"
  by (simp_all add: drop_pending_def)

lemma activate_eq:
  "activate_registration c snapshot now s =
     (case map_of (rg_pending s) c of
        None \<Rightarrow> (s, Err NoPendingRegistration)
      | Some p \<Rightarrow>
          let w = pending_session p; s' = drop_pending c p s in
          (case pr_phase p of
             Challenged _ \<Rightarrow> (s', Err NoPendingRegistration)
           | Authenticated identity \<Rightarrow>
               (case validate_initial_capabilities identity snapshot now of
                  Err e \<Rightarrow> (s', Err e)
                | Ok _ \<Rightarrow>
                    if now \<ge> ea_expires_at_ms (pr_expected p) then (s', Err ExpectedSessionExpired)
                    else if \<not> (case map_of (rg_expected s) w of
                                  Some x \<Rightarrow> xa_session x = pr_expected p | None \<Rightarrow> False)
                    then (s', Err UnexpectedWindowsSession)
                    else (case validate_replacement_target (ea_replacement_policy (pr_expected p))
                                 (map_of (rg_active_by_session s) w) of
                            Err e \<Rightarrow> (s', Err e)
                          | Ok _ \<Rightarrow> (install w (new_agent c identity snapshot now) (retire w s'),
                                     Ok \<lparr>ro_identity = identity, ro_replaced_connection =
                                       map_option aa_connection_id (map_of (rg_active_by_session s) w)\<rparr>)))))"
proof (cases "map_of (rg_pending s) c")
  case (Some p)
  define w where "w = pending_session p"
  have gone: "AList.delete w (rg_active_by_session s) = rg_active_by_session s"
    if "map_of (rg_active_by_session s) w = None"
    using that by (simp add: delete_id map_of_eq_None_iff)
  show ?thesis
    unfolding activate_registration_def Some Let_def option.case w_def [symmetric]
    using gone
    by (cases "map_of (rg_active_by_session s) w")
      (auto simp: drop_pending_def w_def [symmetric] retire_def install_def new_agent_def Let_def
        split: pending_phase.splits sum.splits if_splits)
qed (simp add: activate_registration_def)

lemma activate_fail:
  assumes "activate_registration c snapshot now s = (t, Err e)"
  shows "t = s \<or> (\<exists>p. map_of (rg_pending s) c = Some p \<and> t = drop_pending c p s)"
  using assms unfolding activate_eq
  by (auto simp: Let_def split: option.splits pending_phase.splits sum.splits if_splits)

lemma activate_Ok:
  assumes "activate_registration c snapshot now s = (t, Ok out)"
  shows "\<exists>p identity x. map_of (rg_pending s) c = Some p \<and> pr_phase p = Authenticated identity \<and>
    validate_initial_capabilities identity snapshot now = Ok () \<and> now < ea_expires_at_ms (pr_expected p) \<and>
    map_of (rg_expected s) (pending_session p) = Some x \<and> xa_session x = pr_expected p \<and>
    validate_replacement_target (ea_replacement_policy (pr_expected p))
      (map_of (rg_active_by_session s) (pending_session p)) = Ok () \<and>
    out = \<lparr>ro_identity = identity, ro_replaced_connection =
      map_option aa_connection_id (map_of (rg_active_by_session s) (pending_session p))\<rparr> \<and>
    t = install (pending_session p) (new_agent c identity snapshot now)
          (retire (pending_session p) (drop_pending c p s))"
  using assms unfolding activate_eq
  by (auto simp: Let_def not_le split: option.splits pending_phase.splits sum.splits if_splits)

text \<open>Disconnecting and recording, by the same pieces.\<close>

definition forget_pending :: "agent_connection_id \<Rightarrow> registry_state \<Rightarrow> registry_state" where
  "forget_pending c s =
     (case map_of (rg_pending s) c of
        Some p \<Rightarrow> drop_pending c p s
      | None \<Rightarrow> s\<lparr>rg_pending_by_session :=
          filter (\<lambda>(_, pending_connection). pending_connection \<noteq> c) (rg_pending_by_session s)\<rparr>)"

lemma forget_pending_fields [simp]:
  "rg_expected (forget_pending c s) = rg_expected s"
  "rg_active_by_session (forget_pending c s) = rg_active_by_session s"
  "rg_active_by_connection (forget_pending c s) = rg_active_by_connection s"
  "rg_channels (forget_pending c s) = rg_channels s"
  "rg_next_epoch (forget_pending c s) = rg_next_epoch s"
  "rg_accepting_registrations (forget_pending c s) = rg_accepting_registrations s"
  by (simp_all add: forget_pending_def split: option.split)

lemma disconnect_cases:
  assumes "disconnect c s = (t, i)"
    and owner: "\<And>w. map_of (rg_active_by_connection s) c = Some w \<Longrightarrow>
      \<exists>a. map_of (rg_active_by_session s) w = Some a \<and> aa_connection_id a = c"
  shows "(t = forget_pending c s \<and> map_of (rg_active_by_connection s) c = None \<and> i = None) \<or>
    (\<exists>w a. map_of (rg_active_by_connection s) c = Some w \<and> map_of (rg_active_by_session s) w = Some a \<and>
       t = retire w (forget_pending c s) \<and> i = Some (invalidated w a))"
proof -
  have "(case map_of (rg_pending s) c of
      Some pending \<Rightarrow>
        let session = pending_session pending; s' = s\<lparr>rg_pending := AList.delete c (rg_pending s)\<rparr>
        in if map_of (rg_pending_by_session s') session = Some c
           then s'\<lparr>rg_pending_by_session := AList.delete session (rg_pending_by_session s')\<rparr> else s'
    | None \<Rightarrow> s\<lparr>rg_pending_by_session :=
        filter (\<lambda>(_, pending_connection). pending_connection \<noteq> c) (rg_pending_by_session s)\<rparr>) =
    forget_pending c s"
    by (auto simp: forget_pending_def drop_pending_eq Let_def split: option.split)
  then have "disconnect c s =
    (case map_of (rg_active_by_connection s) c of
       None \<Rightarrow> (forget_pending c s, None)
     | Some w \<Rightarrow>
         let s' = (forget_pending c s)\<lparr>rg_active_by_connection := AList.delete c (rg_active_by_connection s)\<rparr>
         in (case map_of (rg_active_by_session s) w of
               None \<Rightarrow> (s', None)
             | Some a \<Rightarrow>
                 if aa_connection_id a \<noteq> c then (s', None)
                 else (s'\<lparr>rg_active_by_session := AList.delete w (rg_active_by_session s),
                          rg_channels := (rg_channels s)[aa_revocation a := True]\<rparr>,
                       Some (invalidated w a))))"
    by (simp add: disconnect_def Let_def split: option.split)
  with assms(1) owner show ?thesis
    by (cases "map_of (rg_active_by_connection s) c") (fastforce simp: retire_def Let_def)+
qed

text \<open>A message of the active agent changes what the registry knows of it, not who it is.\<close>

definition same_agent :: "active_agent \<Rightarrow> active_agent \<Rightarrow> bool" where
  "same_agent a b \<longleftrightarrow> aa_connection_id b = aa_connection_id a \<and> aa_identity b = aa_identity a \<and>
     aa_revocation b = aa_revocation a \<and>
     (validate_capability_binding (aa_identity a) (aa_capabilities a) = Ok () \<longrightarrow>
      validate_capability_binding (aa_identity b) (aa_capabilities b) = Ok ())"

definition replace_agent :: "u32 \<Rightarrow> active_agent \<Rightarrow> registry_state \<Rightarrow> registry_state" where
  "replace_agent w b s = s\<lparr>rg_active_by_session := AList.update w b (rg_active_by_session s)\<rparr>"

lemma active_for_connection_Ok:
  "active_for_connection_mut c s = Ok (w, a) \<longleftrightarrow>
     map_of (rg_active_by_connection s) c = Some w \<and> map_of (rg_active_by_session s) w = Some a \<and>
     aa_connection_id a = c"
  by (auto simp: active_for_connection_mut_def)

lemma replaced_agentI:
  "map_of (rg_active_by_session s) w = Some a \<Longrightarrow> same_agent a b \<Longrightarrow> t = replace_agent w b s \<Longrightarrow>
   \<exists>w a b. map_of (rg_active_by_session s) w = Some a \<and> same_agent a b \<and> t = replace_agent w b s"
  by blast

lemma record_capabilities_cases:
  assumes "record_capabilities c snapshot now s = (t, r)"
  shows "t = s \<or>
    (\<exists>w a b. map_of (rg_active_by_session s) w = Some a \<and> same_agent a b \<and> t = replace_agent w b s)"
proof (cases "t = s")
  case False
  with assms obtain w a where "active_for_connection_mut c s = Ok (w, a)"
    and "validate_capability_binding (aa_identity a) snapshot = Ok ()"
    and "t = replace_agent w (a\<lparr>aa_last_received_at_ms := now,
      aa_last_agent_observed_at_ms := max (aa_last_agent_observed_at_ms a) (cs_observed_at_ms snapshot),
      aa_capabilities := snapshot\<rparr>) s"
    by (auto simp: record_capabilities_def replace_agent_def split: sum.splits if_splits)
  then show ?thesis
    by (intro disjI2, elim replaced_agentI [rotated 2]) (auto simp: active_for_connection_Ok same_agent_def)
qed simp

lemma agent_record_heartbeat_cases:
  assumes "agent_record_heartbeat c heartbeat now s = (t, r)"
  shows "t = s \<or>
    (\<exists>w a b. map_of (rg_active_by_session s) w = Some a \<and> same_agent a b \<and> t = replace_agent w b s)"
proof (cases "t = s")
  case False
  with assms obtain w a where "active_for_connection_mut c s = Ok (w, a)"
    and "t = replace_agent w (a\<lparr>aa_last_event_sequence := ec_sequence (hb_context heartbeat),
      aa_last_received_at_ms := now, aa_last_agent_observed_at_ms :=
        max (aa_last_agent_observed_at_ms a) (ec_observed_at_ms (hb_context heartbeat))\<rparr>) s"
    by (auto simp: agent_record_heartbeat_def replace_agent_def Let_def split: sum.splits if_splits)
  then show ?thesis
    by (intro disjI2, elim replaced_agentI [rotated 2]) (auto simp: active_for_connection_Ok same_agent_def)
qed simp

section \<open>Where a connection stands\<close>

text \<open>
  A connection is pending, being verified or active, and never two of these; the two maps of
  active agents are inverse to each other; a session's registration in progress is that of a
  pending or verified connection.
\<close>

definition stage_inv ::
  "(agent_connection_id \<rightharpoonup> pending_registration) \<Rightarrow> agent_connection_id set
   \<Rightarrow> (agent_connection_id \<rightharpoonup> u32) \<Rightarrow> bool" where
  "stage_inv P V C \<longleftrightarrow> (\<forall>c. P c \<noteq> None \<longrightarrow> c \<notin> V \<and> C c = None) \<and> (\<forall>c\<in>V. C c = None)"

definition owner_inv ::
  "(agent_connection_id \<rightharpoonup> u32) \<Rightarrow> (u32 \<rightharpoonup> active_agent) \<Rightarrow> bool" where
  "owner_inv C S \<longleftrightarrow> (\<forall>c w. C c = Some w \<longleftrightarrow> (\<exists>a. S w = Some a \<and> aa_connection_id a = c))"

definition progress_inv ::
  "(agent_connection_id \<rightharpoonup> pending_registration) \<Rightarrow> (agent_connection_id \<times> u32) set
   \<Rightarrow> (u32 \<rightharpoonup> agent_connection_id) \<Rightarrow> bool" where
  "progress_inv P V B \<longleftrightarrow>
     (\<forall>c p. P c = Some p \<longrightarrow> B (pending_session p) = Some c) \<and>
     (\<forall>w c. B w = Some c \<longrightarrow> (\<exists>p. P c = Some p \<and> pending_session p = w) \<or> (c, w) \<in> V)"

abbreviation verifying_sessions :: "verification_call list \<Rightarrow> (agent_connection_id \<times> u32) set" where
  "verifying_sessions F \<equiv> (\<lambda>(c, p, r). (c, pending_session p)) ` set F"

definition place_inv :: "registry_state \<Rightarrow> verification_call list \<Rightarrow> bool" where
  "place_inv s F \<longleftrightarrow>
     hm_wf (rg_expected s) \<and> hm_wf (rg_pending s) \<and> hm_wf (rg_pending_by_session s) \<and>
     hm_wf (rg_active_by_session s) \<and> hm_wf (rg_active_by_connection s) \<and> distinct (map fst F) \<and>
     stage_inv (map_of (rg_pending s)) (fst ` set F) (map_of (rg_active_by_connection s)) \<and>
     owner_inv (map_of (rg_active_by_connection s)) (map_of (rg_active_by_session s)) \<and>
     progress_inv (map_of (rg_pending s)) (verifying_sessions F) (map_of (rg_pending_by_session s))"

lemma progress_invD:
  "progress_inv P V B \<Longrightarrow> B w = Some c \<Longrightarrow> (\<exists>p. P c = Some p \<and> pending_session p = w) \<or> (c, w) \<in> V"
  by (simp add: progress_inv_def)

lemma progress_drop:
  assumes "progress_inv P V B" "P c = Some p" "\<And>w. (c, w) \<notin> V"
  shows "B (pending_session p) = Some c \<and> progress_inv (P(c := None)) V (B(pending_session p := None))"
proof -
  have own: "B (pending_session p') = Some c'" if "P c' = Some p'" for c' p'
    using assms(1) that by (simp add: progress_inv_def)
  have "pending_session p' \<noteq> pending_session p" if "P c' = Some p'" "c' \<noteq> c" for c' p'
    using own [OF that(1)] own [OF assms(2)] that(2) by auto
  moreover have "c' \<noteq> c" if "B w = Some c'" "w \<noteq> pending_session p" for w c'
    using assms that unfolding progress_inv_def by fastforce
  ultimately show ?thesis
    using assms(1) own [OF assms(2)] unfolding progress_inv_def by (auto 4 3)
qed

lemma progress_begin:
  assumes "progress_inv P V B" "P c = None" "B w = None" "pending_session p = w"
  shows "progress_inv (P(c \<mapsto> p)) V (B(w \<mapsto> c))"
proof -
  have own: "B (pending_session p') = Some c'" if "P c' = Some p'" for c' p'
    using assms(1) that by (simp add: progress_inv_def)
  have "pending_session p' \<noteq> w" if "P c' = Some p'" for c' p'
    using own [OF that] assms(3) by auto
  moreover have "(\<exists>p'. (P(c \<mapsto> p)) c' = Some p' \<and> pending_session p' = w') \<or> (c', w') \<in> V"
    if "(B(w \<mapsto> c)) w' = Some c'" for w' c'
    using assms(2-4) that progress_invD [OF assms(1), of w' c'] by (cases "w' = w") auto
  ultimately show ?thesis
    using own assms(4) unfolding progress_inv_def by simp
qed

lemma progress_take:
  assumes "progress_inv P V B" "P c = Some p"
  shows "progress_inv (P(c := None)) (insert (c, pending_session p) V) B"
proof -
  have "(\<exists>p'. (P(c := None)) c' = Some p' \<and> pending_session p' = w') \<or>
      (c', w') \<in> insert (c, pending_session p) V" if "B w' = Some c'" for w' c'
    using assms(2-) that progress_invD [OF assms(1), of w' c'] by (cases "c' = c") auto
  with assms(1) show ?thesis unfolding progress_inv_def by simp
qed

lemma progress_finish:
  assumes "progress_inv P (insert (c, pending_session p) V) B" "P c = None"
    "B (pending_session p) = Some c" "pending_session q = pending_session p"
  shows "progress_inv (P(c \<mapsto> q)) V B"
proof -
  have "(\<exists>p'. (P(c \<mapsto> q)) c' = Some p' \<and> pending_session p' = w') \<or> (c', w') \<in> V" if "B w' = Some c'" for w' c'
    using assms(2-) that progress_invD [OF assms(1), of w' c'] by (cases "c' = c") auto
  with assms show ?thesis unfolding progress_inv_def by simp
qed

lemma progress_release:
  assumes "progress_inv P (insert (c, pending_session p) V) B" "P c = None" "B (pending_session p) = Some c"
  shows "progress_inv P V (B(pending_session p := None))"
proof -
  have own: "B (pending_session p') = Some c'" "c' \<noteq> c" if "P c' = Some p'" for c' p'
    using assms(1,2) that by (auto simp: progress_inv_def)
  have "pending_session p' \<noteq> pending_session p" if "P c' = Some p'" for c' p'
    using own [OF that] assms(3) by auto
  with assms(1) own show ?thesis unfolding progress_inv_def by auto
qed

lemma owner_retire:
  "owner_inv C S \<Longrightarrow> S w = Some a \<Longrightarrow> owner_inv (C(aa_connection_id a := None)) (S(w := None))"
  unfolding owner_inv_def by (auto, metis option.inject)

lemma owner_install:
  "owner_inv C S \<Longrightarrow> S w = None \<Longrightarrow> C (aa_connection_id a) = None \<Longrightarrow>
   owner_inv (C(aa_connection_id a \<mapsto> w)) (S(w \<mapsto> a))"
  unfolding owner_inv_def by (auto, metis option.distinct(1))

lemma owner_replace:
  "owner_inv C S \<Longrightarrow> S w = Some a \<Longrightarrow> aa_connection_id b = aa_connection_id a \<Longrightarrow> owner_inv C (S(w \<mapsto> b))"
  unfolding owner_inv_def by auto

lemma verifying_fst: "(c, w) \<in> verifying_sessions F \<Longrightarrow> c \<in> fst ` set F"
  by force

lemma place_drop:
  assumes "place_inv s F" "map_of (rg_pending s) c = Some p"
  shows "place_inv (drop_pending c p s) F"
proof -
  have "c \<notin> fst ` set F" using assms by (auto simp: place_inv_def stage_inv_def)
  then have "(c, w) \<notin> verifying_sessions F" for w using verifying_fst by blast
  with assms progress_drop [of "map_of (rg_pending s)" "verifying_sessions F"
      "map_of (rg_pending_by_session s)" c p]
  show ?thesis by (simp add: place_inv_def drop_pending_def hm_simps stage_inv_def)
qed

lemma place_forget: "place_inv s F \<Longrightarrow> place_inv (forget_pending c s) F"
proof (cases "map_of (rg_pending s) c")
  case None
  assume "place_inv s F"
  with None show ?thesis
    by (auto simp: forget_pending_def place_inv_def progress_inv_def hm_filter_values split: option.splits)
qed (simp add: forget_pending_def place_drop)

lemma place_retire: "place_inv s F \<Longrightarrow> place_inv (retire w s) F"
  by (cases "map_of (rg_active_by_session s) w")
    (auto simp: retire_def place_inv_def hm_simps stage_inv_def intro: owner_retire)

lemma place_install:
  assumes "place_inv s F" "map_of (rg_active_by_session s) w = None"
    and "\<And>n. aa_connection_id (agent n) = c"
    and "map_of (rg_active_by_connection s) c = None" "map_of (rg_pending s) c = None" "c \<notin> fst ` set F"
  shows "place_inv (install w agent s) F"
  using assms owner_install [of "map_of (rg_active_by_connection s)" "map_of (rg_active_by_session s)" w
      "agent (length (rg_channels s))"]
  by (auto simp: place_inv_def install_def Let_def hm_simps stage_inv_def)

lemma place_replace:
  "place_inv s F \<Longrightarrow> map_of (rg_active_by_session s) w = Some a \<Longrightarrow> same_agent a b \<Longrightarrow>
   place_inv (replace_agent w b s) F"
  by (simp add: place_inv_def replace_agent_def same_agent_def hm_simps owner_replace)

section \<open>Revocation channels\<close>

text \<open>The channels not yet revoked are those of the active agents, one for each.\<close>

definition open_channels :: "bool list \<Rightarrow> nat set" where
  "open_channels ch = {i. i < length ch \<and> \<not> ch ! i}"

definition chan_ok :: "('k \<rightharpoonup> nat) \<Rightarrow> bool list \<Rightarrow> bool" where
  "chan_ok R ch \<longleftrightarrow> ran R = open_channels ch \<and> inj_on R (dom R)"

abbreviation revocations :: "registry_state \<Rightarrow> u32 \<rightharpoonup> nat" where
  "revocations s w \<equiv> map_option aa_revocation (map_of (rg_active_by_session s) w)"

abbreviation chan_inv :: "registry_state \<Rightarrow> bool" where
  "chan_inv s \<equiv> chan_ok (revocations s) (rg_channels s)"

lemma open_channels_revoke: "open_channels (ch[i := True]) = open_channels ch - {i}"
proof -
  have "ch[i := True] ! j \<longleftrightarrow> j = i \<or> ch ! j" if "j < length ch" for j
    using that by (cases "i < length ch") (auto simp: nth_list_update)
  then show ?thesis by (auto simp: open_channels_def)
qed

lemma open_channels_new: "open_channels (ch @ [False]) = insert (length ch) (open_channels ch)"
  by (auto simp: open_channels_def nth_append)

lemma chan_ok_retire:
  assumes "chan_ok R ch" "R w = Some i"
  shows "chan_ok (R(w := None)) (ch[i := True])"
proof -
  have uniq: "v = w" if "R v = Some i" for v
    using assms that inj_onD [of R "dom R" v w] by (auto simp: chan_ok_def)
  have "x \<in> ran (R(w := None)) \<longleftrightarrow> x \<in> ran R \<and> x \<noteq> i" for x
    unfolding ran_def by simp (metis uniq assms(2) option.inject)
  moreover have "inj_on (R(w := None)) (dom (R(w := None)))"
    using assms(1) unfolding chan_ok_def inj_on_def by simp
  ultimately show ?thesis using assms(1) by (auto simp: chan_ok_def open_channels_revoke)
qed

lemma chan_ok_install:
  assumes "chan_ok R ch" "R w = None"
  shows "chan_ok (R(w \<mapsto> length ch)) (ch @ [False])"
proof -
  have "R v \<noteq> Some (length ch)" for v
    using assms(1) by (auto simp: chan_ok_def open_channels_def ran_def)
  with assms show ?thesis by (auto simp: chan_ok_def open_channels_new inj_on_def)
qed

lemma chan_retire: "chan_inv s \<Longrightarrow> chan_inv (retire w s)"
proof (cases "map_of (rg_active_by_session s) w")
  case (Some a)
  assume "chan_inv s"
  from chan_ok_retire [OF this, of w "aa_revocation a"] Some show ?thesis
    by (simp add: retire_def delete_conv' fun_upd_def if_distrib cong: if_cong)
qed (simp add: retire_def)

lemma chan_install:
  assumes "chan_inv s" "map_of (rg_active_by_session s) w = None" "\<And>n. aa_revocation (agent n) = n"
  shows "chan_inv (install w agent s)"
  using chan_ok_install [OF assms(1), of w] assms(2,3)
  by (simp add: install_def Let_def update_conv' fun_upd_def if_distrib cong: if_cong)

lemma chan_replace:
  assumes "chan_inv s" "map_of (rg_active_by_session s) w = Some a" "same_agent a b"
  shows "chan_inv (replace_agent w b s)"
proof -
  have "revocations (replace_agent w b s) = revocations s"
    using assms(2,3) by (auto simp: replace_agent_def update_conv' same_agent_def)
  with assms(1) show ?thesis by (simp add: replace_agent_def)
qed

lemma open_channels_revoke_all:
  "open_channels (fold (\<lambda>(_, active) channels. channels[aa_revocation active := True]) m ch) =
   open_channels ch - aa_revocation ` snd ` set m"
  by (induction m arbitrary: ch) (auto simp: open_channels_revoke)

lemma length_revoke_all:
  "length (fold (\<lambda>(_, active) channels. channels[aa_revocation active := True]) m ch) = length ch"
  by (induction m arbitrary: ch) auto

lemma chan_invalidate:
  assumes "chan_inv s"
  shows "chan_inv (fst (invalidate_all s))"
proof -
  have "open_channels (rg_channels s) \<subseteq> aa_revocation ` snd ` set (rg_active_by_session s)"
    using assms by (force simp: chan_ok_def ran_def dest!: map_of_SomeD)
  then show ?thesis by (auto simp: chan_ok_def invalidate_all_def open_channels_revoke_all)
qed

section \<open>Where an agent comes from\<close>

definition entry_epoch ::
  "agent_connection_id \<times> agent_register \<times> observed_agent_identity \<times> agent_challenge \<Rightarrow> u64" where
  "entry_epoch e = ac_registration_epoch (snd (snd (snd e)))"

text \<open>An admission and a challenge in the history that fit together.\<close>

definition origin ::
  "agent_world \<Rightarrow> agent_connection_id \<Rightarrow> expected_agent_session \<Rightarrow> registration_verifier
   \<Rightarrow> agent_register \<Rightarrow> observed_agent_identity \<Rightarrow> agent_challenge \<Rightarrow> bool" where
  "origin W c expected verifier reg obs ch \<longleftrightarrow>
     (expected, verifier) \<in> set (aw_admitted W) \<and> (c, reg, obs, ch) \<in> set (aw_begun W) \<and>
     admitted_process expected reg obs \<and> register_shape reg \<and> challenge_for reg ch"

text \<open>An identity proven to the verifier of the admission.\<close>

definition proven ::
  "registration_verifier \<Rightarrow> agent_register \<Rightarrow> agent_challenge \<Rightarrow> registered_agent_identity \<Rightarrow> bool" where
  "proven verifier reg ch i \<longleftrightarrow>
     (\<exists>answer now. proof_answers (rv_verify verifier) reg ch answer now \<and> i = identity_of reg ch answer)"

definition pending_prov :: "agent_world \<Rightarrow> agent_connection_id \<Rightarrow> pending_registration \<Rightarrow> bool" where
  "pending_prov W c p \<longleftrightarrow>
     (\<exists>reg obs ch. origin W c (pr_expected p) (pr_verifier p) reg obs ch \<and>
        (case pr_phase p of
           Challenged protocol \<Rightarrow> aps_phase protocol = ChallengeIssued reg ch
         | Authenticated i \<Rightarrow> proven (pr_verifier p) reg ch i))"

definition call_prov :: "agent_world \<Rightarrow> verification_call \<Rightarrow> bool" where
  "call_prov W f \<longleftrightarrow>
     (case f of (c, p, r) \<Rightarrow>
        \<exists>reg obs ch protocol. origin W c (pr_expected p) (pr_verifier p) reg obs ch \<and>
          pr_phase p = Challenged protocol \<and> aps_phase protocol = ChallengeIssued reg ch \<and>
          (\<forall>i. r = Ok i \<longrightarrow> proven (pr_verifier p) reg ch i))"

definition agent_prov :: "agent_world \<Rightarrow> u32 \<Rightarrow> active_agent \<Rightarrow> bool" where
  "agent_prov W w a \<longleftrightarrow>
     (\<exists>expected verifier reg obs ch. origin W (aa_connection_id a) expected verifier reg obs ch \<and>
        ea_windows_session_id expected = w \<and> proven verifier reg ch (aa_identity a) \<and>
        validate_capability_binding (aa_identity a) (aa_capabilities a) = Ok ())"

definition history_inv :: "agent_world \<Rightarrow> bool" where
  "history_inv W \<longleftrightarrow>
     (\<forall>(e, v)\<in>set (aw_admitted W). validate_expected_session e = Ok ()) \<and>
     (\<forall>w x. map_of (rg_expected (aw_registry W)) w = Some x \<longrightarrow>
        (xa_session x, xa_verifier x) \<in> set (aw_admitted W) \<and> ea_windows_session_id (xa_session x) = w) \<and>
     (\<forall>e\<in>set (aw_begun W). entry_epoch e < rg_next_epoch (aw_registry W)) \<and>
     distinct (map entry_epoch (aw_begun W))"

definition prov_inv :: "agent_world \<Rightarrow> bool" where
  "prov_inv W \<longleftrightarrow> history_inv W \<and>
     (\<forall>c p. map_of (rg_pending (aw_registry W)) c = Some p \<longrightarrow> pending_prov W c p) \<and>
     (\<forall>f\<in>set (aw_verifying W). call_prov W f) \<and>
     (\<forall>w a. map_of (rg_active_by_session (aw_registry W)) w = Some a \<longrightarrow> agent_prov W w a)"

definition ag_inv :: "agent_world \<Rightarrow> bool" where
  "ag_inv W \<longleftrightarrow> place_inv (aw_registry W) (aw_verifying W) \<and> chan_inv (aw_registry W) \<and> prov_inv W"

lemma expect_cases:
  "expect_session_at e v now s = (t, r) \<Longrightarrow>
     (is_ok r \<longrightarrow> validate_expected_session e = Ok ()) \<and>
     (t = s \<or> is_ok r \<and> t = s\<lparr>rg_expected := AList.update (ea_windows_session_id e)
                \<lparr>xa_session = e, xa_verifier = v\<rparr> (rg_expected s)\<rparr>)"
  by (cases "validate_expected_session e"; cases r)
    (auto simp: expect_session_at_def Let_def split: sum.splits option.splits if_splits)

lemma cancel_cases:
  "cancel_expected_session e s = (t, b) \<Longrightarrow>
     t = s \<or> t = s\<lparr>rg_expected := AList.delete (ea_windows_session_id e) (rg_expected s)\<rparr>"
  by (auto simp: cancel_expected_session_def split: if_splits)

lemma place_expected:
  "place_inv s F \<Longrightarrow> hm_wf m \<Longrightarrow> place_inv (s\<lparr>rg_expected := m\<rparr>) F"
  "place_inv s F \<Longrightarrow> place_inv (s\<lparr>rg_next_epoch := n\<rparr>) F"
  by (simp_all add: place_inv_def)

lemma place_begin:
  assumes inv: "place_inv s F" and idle: "c \<notin> fst ` set F"
    and begun: "begin_registration c reg obs now material s = (t, Ok ch)"
    and expected: "\<And>w x. map_of (rg_expected s) w = Some x \<Longrightarrow> ea_windows_session_id (xa_session x) = w"
  shows "place_inv t F"
proof -
  from begin_Ok_cases [OF begun] obtain m x n protocol where
    x: "map_of (rg_expected s) (oi_windows_session_id obs) = Some x"
    and free: "map_of (rg_pending s) c = None" "map_of (rg_active_by_connection s) c = None"
      "map_of (rg_pending_by_session s) (oi_windows_session_id obs) = None"
    and t: "t = s\<lparr>rg_next_epoch := n,
        rg_pending := AList.update c (begun_entry x m protocol) (rg_pending s),
        rg_pending_by_session := AList.update (oi_windows_session_id obs) c (rg_pending_by_session s)\<rparr>"
    by blast
  have "pending_session (begun_entry x m protocol) = oi_windows_session_id obs"
    using expected [OF x] by (simp add: begun_entry_def)
  with inv free progress_begin [of "map_of (rg_pending s)" _ "map_of (rg_pending_by_session s)" c
      "oi_windows_session_id obs" "begun_entry x m protocol"] idle
  show ?thesis by (simp add: t place_inv_def hm_simps stage_inv_def)
qed

lemma place_take:
  assumes inv: "place_inv s F" and p: "map_of (rg_pending s) c = Some p"
  shows "place_inv (s\<lparr>rg_pending := AList.delete c (rg_pending s)\<rparr>) ((c, p, r) # F)"
proof -
  have "verifying_sessions ((c, p, r) # F) = insert (c, pending_session p) (verifying_sessions F)" by simp
  with assms progress_take [of "map_of (rg_pending s)" "verifying_sessions F" _ c p] show ?thesis
    by (auto simp: place_inv_def hm_simps stage_inv_def)
qed

lemma place_untake:
  assumes inv: "place_inv s F" and p: "map_of (rg_pending s) c = Some p"
  shows "place_inv (s\<lparr>rg_pending := AList.update c p (AList.delete c (rg_pending s))\<rparr>) F"
proof -
  have "map_of (AList.update c p (AList.delete c (rg_pending s))) = map_of (rg_pending s)"
    using p by (auto simp: update_conv' delete_conv')
  with inv show ?thesis by (simp add: place_inv_def hm_simps)
qed

lemma place_finish:
  assumes inv: "place_inv s (xs @ (c, p, r) # ys)" and fin: "complete_finish c p r s = (t, r')"
  shows "place_inv t (xs @ ys)"
proof -
  let ?F = "xs @ (c, p, r) # ys"
  let ?B = "map_of (rg_pending_by_session s)"
  have other: "c \<notin> fst ` set (xs @ ys)"
    using inv by (simp add: place_inv_def image_Un)
  have own: "map_of (rg_pending s) c = None" "map_of (rg_active_by_connection s) c = None"
    using inv by (auto simp: place_inv_def stage_inv_def)
  have V: "verifying_sessions ?F = insert (c, pending_session p) (verifying_sessions (xs @ ys))" by auto
  have stage: "stage_inv (map_of (rg_pending s)) (fst ` set (xs @ ys)) (map_of (rg_active_by_connection s))"
    and distinct: "distinct (map fst (xs @ ys))"
    using inv by (auto simp: place_inv_def stage_inv_def)
  have prog: "progress_inv (map_of (rg_pending s)) (insert (c, pending_session p) (verifying_sessions (xs @ ys))) ?B"
    using inv unfolding place_inv_def V by blast
  consider (stale) "?B (pending_session p) \<noteq> Some c" "t = s"
    | (fail) "?B (pending_session p) = Some c"
        "t = s\<lparr>rg_pending_by_session := AList.delete (pending_session p) (rg_pending_by_session s)\<rparr>"
    | (ok) i where "?B (pending_session p) = Some c"
        "t = s\<lparr>rg_pending := AList.update c (p\<lparr>pr_phase := Authenticated i\<rparr>) (rg_pending s)\<rparr>"
    using complete_finish_cases [OF fin] by blast
  then show ?thesis
  proof cases
    case stale
    with prog have "progress_inv (map_of (rg_pending s)) (verifying_sessions (xs @ ys)) ?B"
      unfolding progress_inv_def by blast
    with inv stage distinct stale show ?thesis by (simp add: place_inv_def)
  next
    case fail
    with inv stage distinct own progress_release [OF prog] show ?thesis
      by (simp add: place_inv_def hm_simps)
  next
    case ok
    with own progress_finish [OF prog, of "p\<lparr>pr_phase := Authenticated i\<rparr>"]
    have "progress_inv ((map_of (rg_pending s))(c \<mapsto> p\<lparr>pr_phase := Authenticated i\<rparr>))
        (verifying_sessions (xs @ ys)) ?B"
      by simp
    moreover have "stage_inv ((map_of (rg_pending s))(c \<mapsto> p\<lparr>pr_phase := Authenticated i\<rparr>))
        (fst ` set (xs @ ys)) (map_of (rg_active_by_connection s))"
      using stage own other by (simp add: stage_inv_def)
    ultimately show ?thesis using inv distinct ok by (simp add: place_inv_def hm_simps)
  qed
qed

lemma retire_fields [simp]:
  "map_of (rg_active_by_session (retire w s)) = (map_of (rg_active_by_session s))(w := None)"
  "rg_pending (retire w s) = rg_pending s"
  "rg_expected (retire w s) = rg_expected s"
  "rg_next_epoch (retire w s) = rg_next_epoch s"
  by (cases "map_of (rg_active_by_session s) w"; auto simp: retire_def delete_conv')+

lemma invalidate_place: "place_inv s F \<Longrightarrow> place_inv (fst (invalidate_all s)) F"
  by (auto simp: invalidate_all_def place_inv_def stage_inv_def owner_inv_def progress_inv_def)

lemma activate_place:
  assumes inv: "place_inv s F" "chan_inv s" and idle: "c \<notin> fst ` set F"
    and act: "activate_registration c snapshot now s = (t, out)"
  shows "place_inv t F \<and> chan_inv t"
proof (cases out)
  case (Inl e)
  with activate_fail [of c snapshot now s t e] act inv place_drop [OF inv(1)] show ?thesis by auto
next
  case (Inr r)
  with act obtain p identity where p: "map_of (rg_pending s) c = Some p"
    and t: "t = install (pending_session p) (new_agent c identity snapshot now)
          (retire (pending_session p) (drop_pending c p s))"
    using activate_Ok [of c snapshot now s t r] by auto
  let ?s = "retire (pending_session p) (drop_pending c p s)"
  have "place_inv ?s F" by (intro place_retire place_drop inv(1) p)
  moreover have "map_of (rg_active_by_connection ?s) c = None"
    using inv(1) p by (auto simp: place_inv_def stage_inv_def retire_def delete_conv' split: option.split)
  ultimately have "place_inv t F"
    unfolding t by (intro place_install [where c = c]) (simp_all add: new_agent_def drop_pending_def delete_conv' idle)
  moreover have "chan_inv t"
    unfolding t by (rule chan_install, rule chan_retire) (simp_all add: inv(2) new_agent_def)
  ultimately show ?thesis by simp
qed

lemma disconnect_place:
  assumes inv: "place_inv s F" "chan_inv s" and dis: "disconnect c s = (t, i)"
  shows "place_inv t F \<and> chan_inv t"
proof -
  have "\<exists>a. map_of (rg_active_by_session s) w = Some a \<and> aa_connection_id a = c"
    if "map_of (rg_active_by_connection s) c = Some w" for w
    using inv(1) that by (simp add: place_inv_def owner_inv_def)
  from disconnect_cases [OF dis this] have "t = forget_pending c s \<or> (\<exists>w. t = retire w (forget_pending c s))"
    by blast
  with place_forget [OF inv(1)] inv(2) show ?thesis
    by (auto intro!: place_retire chan_retire)
qed

lemma place_chan_step:
  assumes "ar_step W W'" and inv: "place_inv (aw_registry W) (aw_verifying W)" "chan_inv (aw_registry W)"
    and expected: "\<And>w x. map_of (rg_expected (aw_registry W)) w = Some x \<Longrightarrow>
      ea_windows_session_id (xa_session x) = w"
  shows "place_inv (aw_registry W') (aw_verifying W') \<and> chan_inv (aw_registry W')"
  using assms(1)
proof cases
  case (ar_expect e v now s r)
  with inv expect_cases [of e v now "aw_registry W" s r] show ?thesis
    by (auto intro!: place_expected(1) hm.wf_ins simp: place_inv_def)
next
  case (ar_cancel e s b)
  with inv cancel_cases [of e "aw_registry W" s b] show ?thesis
    by (auto intro!: place_expected(1) hm.wf_del simp: place_inv_def)
next
  case (ar_begin c reg obs now material s ch)
  with inv place_begin [OF inv(1) _ _ expected] begin_Ok_cases [of c reg obs now material "aw_registry W" s ch]
  show ?thesis by auto
next
  case (ar_begin_fail c reg obs now material s err)
  with inv begin_fail_cases [of c reg obs now material "aw_registry W" s err] show ?thesis
    by (auto intro!: place_expected(2))
next
  case (ar_take c s p protocol answer now protocol' r)
  with inv complete_take_Ok [of c "aw_registry W" s p protocol] place_take [OF inv(1)] show ?thesis by auto
next
  case (ar_take_fail c s err)
  with inv complete_take_fail [of c "aw_registry W" s err] place_untake [OF inv(1)] show ?thesis by auto
next
  case (ar_finish xs c p r ys s r')
  have "place_inv s (xs @ ys)" using inv(1) ar_finish by (auto intro: place_finish)
  with inv ar_finish complete_finish_cases [of c p r "aw_registry W" s r'] show ?thesis by auto
next
  case (ar_activate c snapshot now s o')
  with activate_place [OF inv] show ?thesis by simp
next
  case (ar_capabilities c snapshot now s u)
  with inv record_capabilities_cases [of c snapshot now "aw_registry W" s u] show ?thesis
    by (auto intro: place_replace chan_replace)
next
  case (ar_heartbeat c heartbeat now s u)
  with inv agent_record_heartbeat_cases [of c heartbeat now "aw_registry W" s u] show ?thesis
    by (auto intro: place_replace chan_replace)
next
  case (ar_disconnect c s i)
  with disconnect_place [OF inv] show ?thesis by simp
next
  case (ar_invalidate s "is")
  with invalidate_place [OF inv(1)] chan_invalidate [OF inv(2)] show ?thesis by simp
qed

lemma origin_mono:
  "origin W c expected verifier reg obs ch \<Longrightarrow> set (aw_admitted W) \<subseteq> set (aw_admitted W') \<Longrightarrow>
   set (aw_begun W) \<subseteq> set (aw_begun W') \<Longrightarrow> origin W' c expected verifier reg obs ch"
  by (auto simp: origin_def)

lemma origin_update [simp]:
  "origin (W\<lparr>aw_registry := s\<rparr>) = origin W" "origin (W\<lparr>aw_verifying := F\<rparr>) = origin W"
  by (simp_all add: origin_def fun_eq_iff)

lemma prov_extend:
  assumes "prov_inv W" "history_inv W'"
    and mono: "set (aw_admitted W) \<subseteq> set (aw_admitted W')" "set (aw_begun W) \<subseteq> set (aw_begun W')"
    and "\<And>c p. map_of (rg_pending (aw_registry W')) c = Some p \<Longrightarrow>
      map_of (rg_pending (aw_registry W)) c = Some p \<or> pending_prov W' c p"
    and "\<And>f. f \<in> set (aw_verifying W') \<Longrightarrow> f \<in> set (aw_verifying W) \<or> call_prov W' f"
    and "\<And>w a. map_of (rg_active_by_session (aw_registry W')) w = Some a \<Longrightarrow>
      map_of (rg_active_by_session (aw_registry W)) w = Some a \<or> agent_prov W' w a"
  shows "prov_inv W'"
proof -
  have "pending_prov W' c p" if "pending_prov W c p" for c p
    using that origin_mono [OF _ mono] unfolding pending_prov_def by blast
  moreover have "call_prov W' f" if "call_prov W f" for f
    using that origin_mono [OF _ mono] unfolding call_prov_def by (auto split: prod.splits) blast
  moreover have "agent_prov W' w a" if "agent_prov W w a" for w a
    using that origin_mono [OF _ mono] unfolding agent_prov_def by blast
  ultimately show ?thesis using assms unfolding prov_inv_def by blast
qed

text \<open>Steps that only remove entries, or change what is known of an active agent.\<close>

lemma prov_shrink:
  assumes "prov_inv W" and "aw_admitted W' = aw_admitted W" "aw_begun W' = aw_begun W"
    and "rg_next_epoch (aw_registry W) \<le> rg_next_epoch (aw_registry W')"
    and "map_of (rg_expected (aw_registry W')) \<subseteq>\<^sub>m map_of (rg_expected (aw_registry W))"
    and "map_of (rg_pending (aw_registry W')) \<subseteq>\<^sub>m map_of (rg_pending (aw_registry W))"
    and "set (aw_verifying W') \<subseteq> set (aw_verifying W)"
    and "map_of (rg_active_by_session (aw_registry W')) \<subseteq>\<^sub>m map_of (rg_active_by_session (aw_registry W))"
  shows "prov_inv W'"
proof (rule prov_extend [OF assms(1)])
  have "history_inv W" using assms(1) by (simp add: prov_inv_def)
  with assms(2-5) show "history_inv W'"
    unfolding history_inv_def map_le_def dom_def by (fastforce intro: less_le_trans)
qed (use assms in \<open>auto simp: map_le_def dom_def\<close>)

lemma prov_replace:
  assumes "prov_inv W" "map_of (rg_active_by_session (aw_registry W)) w = Some a" "same_agent a b"
  shows "prov_inv (W\<lparr>aw_registry := replace_agent w b (aw_registry W)\<rparr>)"
proof (rule prov_extend [OF assms(1)])
  show "history_inv (W\<lparr>aw_registry := replace_agent w b (aw_registry W)\<rparr>)"
    using assms(1) by (simp add: prov_inv_def history_inv_def replace_agent_def)
  have "agent_prov W w a" using assms(1,2) by (simp add: prov_inv_def)
  with assms(3) have "agent_prov (W\<lparr>aw_registry := replace_agent w b (aw_registry W)\<rparr>) w b"
    by (simp add: agent_prov_def same_agent_def) metis
  then show "map_of (rg_active_by_session (aw_registry W)) v = Some d \<or>
      agent_prov (W\<lparr>aw_registry := replace_agent w b (aw_registry W)\<rparr>) v d"
    if "map_of (rg_active_by_session (aw_registry (W\<lparr>aw_registry := replace_agent w b (aw_registry W)\<rparr>))) v = Some d"
    for v d
    using that by (auto simp: replace_agent_def update_conv' split: if_splits)
qed (simp_all add: replace_agent_def)

lemma checked_succ: "checked_add n 1 = Some m \<Longrightarrow> n < (m::u64)"
  using checked_add_Some [of n 1 m] by (simp add: word_less_nat_alt)

lemma prov_begin:
  assumes inv: "prov_inv W" and begun: "begin_registration c reg obs now material (aw_registry W) = (s, Ok ch)"
  shows "prov_inv (W\<lparr>aw_registry := s, aw_begun := (c, reg, obs, ch) # aw_begun W\<rparr>)" (is "prov_inv ?W")
proof -
  from begin_Ok_cases [OF begun] obtain m x n protocol where
    obs: "validate_observed_registration reg obs = Ok ()" "register_shape reg" and
    x: "map_of (rg_expected (aw_registry W)) (oi_windows_session_id obs) = Some x"
      "validate_expected_binding (xa_session x) reg obs now = Ok ()" and
    n: "checked_add (rg_next_epoch (aw_registry W)) 1 = Some n"
      "ac_registration_epoch ch = rg_next_epoch (aw_registry W)" and
    ch: "challenge_for reg ch" "aps_phase protocol = ChallengeIssued reg ch" and
    s: "s = (aw_registry W)\<lparr>rg_next_epoch := n,
        rg_pending := AList.update c (begun_entry x m protocol) (rg_pending (aw_registry W)),
        rg_pending_by_session :=
          AList.update (oi_windows_session_id obs) c (rg_pending_by_session (aw_registry W))\<rparr>"
    by blast
  have hist: "history_inv W" using inv by (simp add: prov_inv_def)
  then have adm: "(xa_session x, xa_verifier x) \<in> set (aw_admitted W)"
    "ea_windows_session_id (xa_session x) = oi_windows_session_id obs"
    using x(1) by (simp_all add: history_inv_def)
  have "admitted_process (xa_session x) reg obs"
    using obs(1) x(2) adm(2)
    by (auto simp: admitted_process_def validate_observed_registration_def validate_expected_binding_def
        split: if_splits)
  then have entry: "pending_prov ?W c (begun_entry x m protocol)"
    using adm(1) obs(2) ch by (auto simp: pending_prov_def begun_entry_def origin_def)
  have old: "entry_epoch e < rg_next_epoch (aw_registry W)" if "e \<in> set (aw_begun W)" for e
    using hist that by (simp add: history_inv_def)
  have "entry_epoch (c, reg, obs, ch) = rg_next_epoch (aw_registry W)" using n(2) by (simp add: entry_epoch_def)
  moreover have "\<forall>e\<in>set (aw_begun W). entry_epoch e < n"
    using old less_trans [OF _ checked_succ [OF n(1)]] by blast
  moreover have "rg_next_epoch (aw_registry W) \<notin> entry_epoch ` set (aw_begun W)"
    using old by (metis imageE less_irrefl)
  ultimately have "history_inv ?W"
    using hist checked_succ [OF n(1)] by (simp add: history_inv_def s)
  then show ?thesis
    by (rule prov_extend [OF inv]) (use entry in \<open>auto simp: s update_conv' split: if_splits\<close>)
qed

lemma prov_pendingE:
  assumes "prov_inv W" "map_of (rg_pending (aw_registry W)) c = Some p"
  obtains reg obs ch where "origin W c (pr_expected p) (pr_verifier p) reg obs ch"
    and "case pr_phase p of
           Challenged protocol \<Rightarrow> aps_phase protocol = ChallengeIssued reg ch
         | Authenticated i \<Rightarrow> proven (pr_verifier p) reg ch i"
  using assms unfolding prov_inv_def pending_prov_def by blast

lemma prov_take:
  assumes inv: "prov_inv W" and take: "complete_take c (aw_registry W) = (s, Ok (p, protocol))"
    and verify: "complete_registration (rv_verify (pr_verifier p)) protocol answer now = (protocol', r)"
  shows "prov_inv (W\<lparr>aw_registry := s, aw_verifying := (c, p, r) # aw_verifying W\<rparr>)" (is "prov_inv ?W")
proof (rule prov_extend [OF inv])
  from complete_take_Ok [OF take] have p: "map_of (rg_pending (aw_registry W)) c = Some p"
    "pr_phase p = Challenged protocol" "s = (aw_registry W)\<lparr>rg_pending := AList.delete c (rg_pending (aw_registry W))\<rparr>"
    by auto
  show "history_inv ?W" using inv by (simp add: prov_inv_def history_inv_def p(3))
  obtain reg obs ch where o: "origin W c (pr_expected p) (pr_verifier p) reg obs ch"
    and phase: "case pr_phase p of
           Challenged protocol \<Rightarrow> aps_phase protocol = ChallengeIssued reg ch
         | Authenticated i \<Rightarrow> proven (pr_verifier p) reg ch i"
    by (rule prov_pendingE [OF inv p(1)])
  have issued: "aps_phase protocol = ChallengeIssued reg ch" using phase p(2) by simp
  have "proven (pr_verifier p) reg ch i" if "r = Ok i" for i
    using complete_registration_cases [OF verify] issued that by (auto simp: proven_def)
  with o issued p(2) have "call_prov ?W (c, p, r)"
    unfolding call_prov_def by (auto simp: origin_def)
  then show "f \<in> set (aw_verifying W) \<or> call_prov ?W f" if "f \<in> set (aw_verifying ?W)" for f
    using that by auto
  show "map_of (rg_pending (aw_registry W)) d = Some q \<or> pending_prov ?W d q"
    if "map_of (rg_pending (aw_registry ?W)) d = Some q" for d q
    using that by (simp add: p(3) delete_conv' split: if_splits)
  show "map_of (rg_active_by_session (aw_registry W)) w = Some a \<or> agent_prov ?W w a"
    if "map_of (rg_active_by_session (aw_registry ?W)) w = Some a" for w a
    using that by (simp add: p(3))
qed simp_all

lemma prov_finish:
  assumes inv: "prov_inv W" and flight: "aw_verifying W = xs @ (c, p, r) # ys"
    and fin: "complete_finish c p r (aw_registry W) = (s, r')"
  shows "prov_inv (W\<lparr>aw_registry := s, aw_verifying := xs @ ys\<rparr>)" (is "prov_inv ?W")
proof -
  let ?s = "aw_registry W"
  from inv flight have "call_prov W (c, p, r)" by (simp add: prov_inv_def)
  then obtain reg obs ch where o: "origin W c (pr_expected p) (pr_verifier p) reg obs ch"
    "\<And>i. r = Ok i \<Longrightarrow> proven (pr_verifier p) reg ch i"
    by (auto simp: call_prov_def)
  consider "s = ?s"
    | "s = ?s\<lparr>rg_pending_by_session := AList.delete (pending_session p) (rg_pending_by_session ?s)\<rparr>"
    | (ok) i where "r = Ok i"
        "s = ?s\<lparr>rg_pending := AList.update c (p\<lparr>pr_phase := Authenticated i\<rparr>) (rg_pending ?s)\<rparr>"
    using complete_finish_cases [OF fin] by blast
  then show ?thesis
  proof cases
    case ok
    have "pending_prov ?W c (p\<lparr>pr_phase := Authenticated i\<rparr>)"
      using o(1) o(2) [OF ok(1)] by (auto simp: pending_prov_def origin_def)
    with inv flight ok(2) show ?thesis
      by (intro prov_extend [OF inv])
        (auto simp: prov_inv_def history_inv_def update_conv' split: if_splits)
  qed (use flight in \<open>auto intro!: prov_shrink [OF inv] simp: flight\<close>)
qed

lemma prov_activate:
  assumes inv: "prov_inv W" and act: "activate_registration c snapshot now (aw_registry W) = (s, out)"
  shows "prov_inv (W\<lparr>aw_registry := s\<rparr>)" (is "prov_inv ?W")
proof (cases out)
  case (Inl e)
  with activate_fail [of c snapshot now "aw_registry W" s e] act
  have "s = aw_registry W \<or> (\<exists>p. s = drop_pending c p (aw_registry W))" by auto
  then show ?thesis
    by (auto intro!: prov_shrink [OF inv] simp: drop_pending_def delete_conv' map_le_def)
next
  case (Inr res)
  with act activate_Ok [of c snapshot now "aw_registry W" s res] obtain p i where
    p: "map_of (rg_pending (aw_registry W)) c = Some p" "pr_phase p = Authenticated i"
      "validate_initial_capabilities i snapshot now = Ok ()"
    and s: "s = install (pending_session p) (new_agent c i snapshot now)
          (retire (pending_session p) (drop_pending c p (aw_registry W)))"
    by auto
  obtain reg obs ch where o: "origin W c (pr_expected p) (pr_verifier p) reg obs ch"
    and phase: "case pr_phase p of
           Challenged protocol \<Rightarrow> aps_phase protocol = ChallengeIssued reg ch
         | Authenticated i \<Rightarrow> proven (pr_verifier p) reg ch i"
    by (rule prov_pendingE [OF inv p(1)])
  have "proven (pr_verifier p) reg ch i" using phase p(2) by simp
  with o p(3) have "agent_prov ?W (pending_session p) (new_agent c i snapshot now n)" for n
    by (simp add: agent_prov_def new_agent_def validate_initial_capabilities_def) blast
  with inv show ?thesis
    by (intro prov_extend [OF inv])
      (auto simp: prov_inv_def history_inv_def s install_def Let_def update_conv' delete_conv'
        drop_pending_def split: if_splits)
qed

lemma prov_step:
  assumes "ar_step W W'" and inv: "ag_inv W"
  shows "prov_inv W'"
proof -
  have prov: "prov_inv W" and place: "place_inv (aw_registry W) (aw_verifying W)"
    using inv by (simp_all add: ag_inv_def)
  from assms(1) show ?thesis
  proof cases
    case (ar_expect e v now s r)
    have "history_inv W" using prov by (simp add: prov_inv_def)
    with expect_cases [of e v now "aw_registry W" s r] ar_expect have "history_inv W'"
      by (auto simp: history_inv_def update_conv' split: if_splits)
    with expect_cases [of e v now "aw_registry W" s r] ar_expect show ?thesis
      by (intro prov_extend [OF prov]) auto
  next
    case (ar_cancel e s b)
    with cancel_cases [of e "aw_registry W" s b] show ?thesis
      by (auto intro!: prov_shrink [OF prov] simp: delete_conv' map_le_def)
  next
    case (ar_begin c reg obs now material s ch)
    with prov_begin [OF prov] show ?thesis by simp
  next
    case (ar_begin_fail c reg obs now material s err)
    with begin_fail_cases [of c reg obs now material "aw_registry W" s err]
    obtain n where "s = (aw_registry W)\<lparr>rg_next_epoch := n\<rparr>" "rg_next_epoch (aw_registry W) \<le> n"
      using checked_succ by (metis order_refl less_imp_le registry_state.surjective registry_state.update_convs(7))
    with ar_begin_fail show ?thesis by (intro prov_shrink [OF prov]) simp_all
  next
    case (ar_take c s p protocol answer now protocol' r)
    with prov_take [OF prov] show ?thesis by simp
  next
    case (ar_take_fail c s err)
    with complete_take_fail [of c "aw_registry W" s err] show ?thesis
      by (auto intro!: prov_shrink [OF prov] simp: map_le_def update_conv' delete_conv')
  next
    case (ar_finish xs c p r ys s r')
    with prov_finish [OF prov] show ?thesis by simp
  next
    case (ar_activate c snapshot now s o')
    with prov_activate [OF prov] show ?thesis by simp
  next
    case (ar_capabilities c snapshot now s u)
    with record_capabilities_cases [of c snapshot now "aw_registry W" s u] prov show ?thesis
      by (auto intro: prov_replace)
  next
    case (ar_heartbeat c heartbeat now s u)
    with agent_record_heartbeat_cases [of c heartbeat now "aw_registry W" s u] prov show ?thesis
      by (auto intro: prov_replace)
  next
    case (ar_disconnect c s i)
    have "\<exists>a. map_of (rg_active_by_session (aw_registry W)) w = Some a \<and> aa_connection_id a = c"
      if "map_of (rg_active_by_connection (aw_registry W)) c = Some w" for w
      using place that by (simp add: place_inv_def owner_inv_def)
    from disconnect_cases [OF ar_disconnect(2) this]
    have "s = forget_pending c (aw_registry W) \<or> (\<exists>w. s = retire w (forget_pending c (aw_registry W)))"
      by blast
    moreover have "map_of (rg_pending (forget_pending c (aw_registry W))) \<subseteq>\<^sub>m map_of (rg_pending (aw_registry W))"
      by (auto simp: forget_pending_def drop_pending_def delete_conv' map_le_def split: option.split)
    ultimately show ?thesis
      unfolding ar_disconnect(1) by (intro prov_shrink [OF prov]) auto
  next
    case (ar_invalidate s "is")
    then show ?thesis by (auto intro!: prov_shrink [OF prov] simp: invalidate_all_def map_le_def)
  qed
qed

interpretation agr: state_invariant "\<lambda>W. W = world_new" ar_step ag_inv
proof unfold_locales
  show "ag_inv W" if "W = world_new" for W
    using that by (simp add: ag_inv_def world_new_def registry_new_def place_inv_def stage_inv_def
        owner_inv_def progress_inv_def chan_ok_def open_channels_def prov_inv_def history_inv_def)
  show "ag_inv W'" if step: "ar_step W W'" and inv: "ag_inv W" for W W'
  proof -
    have "ea_windows_session_id (xa_session x) = w" if "map_of (rg_expected (aw_registry W)) w = Some x" for w x
      using inv that by (simp add: ag_inv_def prov_inv_def history_inv_def)
    with place_chan_step [OF step] prov_step [OF step inv] inv show ?thesis by (simp add: ag_inv_def)
  qed
qed

section \<open>Generations\<close>

definition pending_epoch :: "pending_registration \<Rightarrow> u64" where
  "pending_epoch p =
     (case pr_phase p of
        Challenged protocol \<Rightarrow>
          (case aps_phase protocol of ChallengeIssued _ ch \<Rightarrow> ac_registration_epoch ch | _ \<Rightarrow> 0)
      | Authenticated i \<Rightarrow> ri_registration_epoch i)"

abbreviation agent_epoch :: "active_agent \<Rightarrow> u64" where
  "agent_epoch a \<equiv> ri_registration_epoch (aa_identity a)"

text \<open>An epoch that was issued and that nobody holds any more.\<close>

definition epoch_gone :: "u64 \<Rightarrow> agent_world \<Rightarrow> bool" where
  "epoch_gone e W \<longleftrightarrow> e < rg_next_epoch (aw_registry W) \<and>
     (\<forall>c p. map_of (rg_pending (aw_registry W)) c = Some p \<longrightarrow> pending_epoch p \<noteq> e) \<and>
     (\<forall>f\<in>set (aw_verifying W). pending_epoch (fst (snd f)) \<noteq> e) \<and>
     (\<forall>w a. map_of (rg_active_by_session (aw_registry W)) w = Some a \<longrightarrow> agent_epoch a \<noteq> e)"

lemma proven_epoch: "proven v reg ch i \<Longrightarrow> ri_registration_epoch i = ac_registration_epoch ch"
  by (auto simp: proven_def identity_of_def)

lemma call_epoch:
  "prov_inv W \<Longrightarrow> (c, p, Ok i) \<in> set (aw_verifying W) \<Longrightarrow> ri_registration_epoch i = pending_epoch p"
  by (fastforce simp: prov_inv_def call_prov_def pending_epoch_def dest: proven_epoch)

text \<open>The history entry of an epoch names the connection that holds it.\<close>

lemma epoch_connection:
  assumes "prov_inv W" "(c, reg, obs, ch) \<in> set (aw_begun W)" "(c', reg', obs', ch') \<in> set (aw_begun W)"
    and "ac_registration_epoch ch = ac_registration_epoch ch'"
  shows "c = c' \<and> reg = reg'"
proof -
  have "inj_on entry_epoch (set (aw_begun W))"
    using assms(1) by (simp add: prov_inv_def history_inv_def distinct_map)
  from inj_onD [OF this _ assms(2,3)] assms(4) show ?thesis by (simp add: entry_epoch_def)
qed

lemma pending_entry:
  assumes "prov_inv W" "map_of (rg_pending (aw_registry W)) c = Some p"
  obtains reg obs ch where "(c, reg, obs, ch) \<in> set (aw_begun W)" "pending_epoch p = ac_registration_epoch ch"
proof -
  obtain reg obs ch where o: "origin W c (pr_expected p) (pr_verifier p) reg obs ch"
    and phase: "case pr_phase p of
           Challenged protocol \<Rightarrow> aps_phase protocol = ChallengeIssued reg ch
         | Authenticated i \<Rightarrow> proven (pr_verifier p) reg ch i"
    by (rule prov_pendingE [OF assms])
  have "pending_epoch p = ac_registration_epoch ch"
    using phase by (auto simp: pending_epoch_def dest: proven_epoch split: pending_phase.splits)
  with o that show ?thesis by (auto simp: origin_def)
qed

lemma call_entry:
  assumes "prov_inv W" "(c, p, r) \<in> set (aw_verifying W)"
  obtains reg obs ch where "(c, reg, obs, ch) \<in> set (aw_begun W)" "pending_epoch p = ac_registration_epoch ch"
proof -
  have "call_prov W (c, p, r)" using assms by (auto simp: prov_inv_def)
  then obtain reg obs ch protocol where "origin W c (pr_expected p) (pr_verifier p) reg obs ch"
    "pr_phase p = Challenged protocol" "aps_phase protocol = ChallengeIssued reg ch"
    by (auto simp: call_prov_def)
  with that show ?thesis by (auto simp: origin_def pending_epoch_def)
qed

lemma agent_entry:
  assumes "prov_inv W" "map_of (rg_active_by_session (aw_registry W)) w = Some a"
  obtains reg obs ch where "(aa_connection_id a, reg, obs, ch) \<in> set (aw_begun W)"
    "agent_epoch a = ac_registration_epoch ch" "ar_windows_session_id reg = w"
    "ri_windows_session_id (aa_identity a) = w"
proof -
  have "agent_prov W w a" using assms by (auto simp: prov_inv_def)
  then obtain expected v reg obs ch where "origin W (aa_connection_id a) expected v reg obs ch"
    "ea_windows_session_id expected = w" "proven v reg ch (aa_identity a)"
    by (auto simp: agent_prov_def)
  with that show ?thesis
    by (auto simp: origin_def admitted_process_def proven_def identity_of_def)
qed

text \<open>An epoch has one holder.\<close>

lemma active_epoch_unique:
  assumes "prov_inv W" "map_of (rg_active_by_session (aw_registry W)) w = Some a"
    "map_of (rg_active_by_session (aw_registry W)) v = Some b" "agent_epoch a = agent_epoch b"
  shows "w = v \<and> a = b"
proof -
  obtain reg obs ch where a: "(aa_connection_id a, reg, obs, ch) \<in> set (aw_begun W)"
    "agent_epoch a = ac_registration_epoch ch" "ar_windows_session_id reg = w"
    by (rule agent_entry [OF assms(1,2)])
  obtain reg' obs' ch' where b: "(aa_connection_id b, reg', obs', ch') \<in> set (aw_begun W)"
    "agent_epoch b = ac_registration_epoch ch'" "ar_windows_session_id reg' = v"
    by (rule agent_entry [OF assms(1,3)])
  from epoch_connection [OF assms(1) a(1) b(1)] a b assms(4) have "w = v" by auto
  with assms show ?thesis by simp
qed

lemma active_epoch_exclusive:
  assumes "ag_inv W" "map_of (rg_active_by_session (aw_registry W)) w = Some a"
  shows "map_of (rg_pending (aw_registry W)) c = Some p \<Longrightarrow> pending_epoch p \<noteq> agent_epoch a"
    and "(c, p, r) \<in> set (aw_verifying W) \<Longrightarrow> pending_epoch p \<noteq> agent_epoch a"
    and "agent_epoch a < rg_next_epoch (aw_registry W)"
proof -
  have prov: "prov_inv W" and place: "place_inv (aw_registry W) (aw_verifying W)"
    using assms(1) by (simp_all add: ag_inv_def)
  obtain reg obs ch where a: "(aa_connection_id a, reg, obs, ch) \<in> set (aw_begun W)"
    "agent_epoch a = ac_registration_epoch ch"
    by (rule agent_entry [OF prov assms(2)])
  from a prov show "agent_epoch a < rg_next_epoch (aw_registry W)"
    by (fastforce simp: prov_inv_def history_inv_def entry_epoch_def)
  have owner: "map_of (rg_active_by_connection (aw_registry W)) (aa_connection_id a) = Some w"
    using place assms(2) by (simp add: place_inv_def owner_inv_def)
  show "pending_epoch p \<noteq> agent_epoch a" if p: "map_of (rg_pending (aw_registry W)) c = Some p"
  proof
    assume eq: "pending_epoch p = agent_epoch a"
    obtain reg' obs' ch' where "(c, reg', obs', ch') \<in> set (aw_begun W)"
      "pending_epoch p = ac_registration_epoch ch'"
      by (rule pending_entry [OF prov p])
    with epoch_connection [OF prov a(1)] a(2) eq have "aa_connection_id a = c" by auto
    with owner place p show False by (auto simp: place_inv_def stage_inv_def)
  qed
  show "pending_epoch p \<noteq> agent_epoch a" if p: "(c, p, r) \<in> set (aw_verifying W)"
  proof
    assume eq: "pending_epoch p = agent_epoch a"
    obtain reg' obs' ch' where "(c, reg', obs', ch') \<in> set (aw_begun W)"
      "pending_epoch p = ac_registration_epoch ch'"
      by (rule call_entry [OF prov p])
    with epoch_connection [OF prov a(1)] a(2) eq have "aa_connection_id a = c" by auto
    with owner place p show False by (auto simp: place_inv_def stage_inv_def image_iff)
  qed
qed

text \<open>How epochs move in one step: from a new challenge to pending, verified, pending, active.\<close>

definition waiting_epochs :: "agent_world \<Rightarrow> u64 set" where
  "waiting_epochs W = pending_epoch ` ran (map_of (rg_pending (aw_registry W)))
     \<union> (\<lambda>f. pending_epoch (fst (snd f))) ` set (aw_verifying W)"

definition active_epochs :: "agent_world \<Rightarrow> u64 set" where
  "active_epochs W = agent_epoch ` ran (map_of (rg_active_by_session (aw_registry W)))"

lemma epoch_gone_iff:
  "epoch_gone e W \<longleftrightarrow>
     e < rg_next_epoch (aw_registry W) \<and> e \<notin> waiting_epochs W \<and> e \<notin> active_epochs W"
  by (auto simp: epoch_gone_def waiting_epochs_def active_epochs_def ran_def)

lemma ran_update_subset: "ran (map_of (AList.update k v m)) \<subseteq> insert v (ran (map_of m))"
  by (auto simp: update_conv' ran_def)

lemma ran_delete_subset: "ran (map_of (AList.delete k m)) \<subseteq> ran (map_of m)"
  by (auto simp: delete_conv' ran_def split: if_splits)

lemma ran_upd_None_subset: "ran (f(k := None)) \<subseteq> ran f"
  by (auto simp: ran_def)

lemma waiting_epochs_mono:
  assumes "ran (map_of (rg_pending (aw_registry W'))) \<subseteq> ran (map_of (rg_pending (aw_registry W)))"
    and "set (aw_verifying W') \<subseteq> set (aw_verifying W)"
  shows "waiting_epochs W' \<subseteq> waiting_epochs W"
  using assms unfolding waiting_epochs_def by blast

definition epoch_flow :: "agent_world \<Rightarrow> agent_world \<Rightarrow> bool" where
  "epoch_flow W W' \<longleftrightarrow> rg_next_epoch (aw_registry W) \<le> rg_next_epoch (aw_registry W') \<and>
     length (rg_channels (aw_registry W)) \<le> length (rg_channels (aw_registry W')) \<and>
     waiting_epochs W' \<subseteq> insert (rg_next_epoch (aw_registry W)) (waiting_epochs W) \<and>
     (\<forall>w b. map_of (rg_active_by_session (aw_registry W')) w = Some b \<longrightarrow>
        (\<exists>a. map_of (rg_active_by_session (aw_registry W)) w = Some a \<and>
             aa_revocation b = aa_revocation a \<and> agent_epoch b = agent_epoch a) \<or>
        length (rg_channels (aw_registry W)) \<le> aa_revocation b \<and> agent_epoch b \<in> waiting_epochs W)"

lemma flow_shrink:
  assumes "rg_next_epoch (aw_registry W) \<le> rg_next_epoch (aw_registry W')"
    and "length (rg_channels (aw_registry W)) \<le> length (rg_channels (aw_registry W'))"
    and "ran (map_of (rg_pending (aw_registry W'))) \<subseteq> ran (map_of (rg_pending (aw_registry W)))"
    and "set (aw_verifying W') \<subseteq> set (aw_verifying W)"
    and "map_of (rg_active_by_session (aw_registry W')) \<subseteq>\<^sub>m map_of (rg_active_by_session (aw_registry W))"
  shows "epoch_flow W W'"
proof -
  have "map_of (rg_active_by_session (aw_registry W)) w = Some b"
    if "map_of (rg_active_by_session (aw_registry W')) w = Some b" for w b
    using assms(5) that by (auto simp: map_le_def dom_def)
  with assms(1,2) waiting_epochs_mono [OF assms(3,4)] show ?thesis
    unfolding epoch_flow_def by blast
qed

lemma flow_begin:
  assumes begun: "begin_registration c reg obs now material (aw_registry W) = (s, Ok ch)"
    and W': "W' = W\<lparr>aw_registry := s, aw_begun := B\<rparr>"
  shows "epoch_flow W W'"
proof -
  from begin_Ok_cases [OF begun] obtain m x n protocol where
    n: "checked_add (rg_next_epoch (aw_registry W)) 1 = Some n"
      "ac_registration_epoch ch = rg_next_epoch (aw_registry W)" and
    ch: "aps_phase protocol = ChallengeIssued reg ch" and
    s: "s = (aw_registry W)\<lparr>rg_next_epoch := n,
        rg_pending := AList.update c (begun_entry x m protocol) (rg_pending (aw_registry W)),
        rg_pending_by_session :=
          AList.update (oi_windows_session_id obs) c (rg_pending_by_session (aw_registry W))\<rparr>"
    by blast
  have "pending_epoch (begun_entry x m protocol) = rg_next_epoch (aw_registry W)"
    using n(2) ch by (simp add: pending_epoch_def begun_entry_def)
  then have "waiting_epochs W' \<subseteq> insert (rg_next_epoch (aw_registry W)) (waiting_epochs W)"
    using ran_update_subset [of c "begun_entry x m protocol" "rg_pending (aw_registry W)"]
    by (auto simp: waiting_epochs_def W' s)
  then show ?thesis
    using checked_succ [OF n(1)] by (auto simp: epoch_flow_def W' s)
qed

lemma flow_finish:
  assumes prov: "prov_inv W" and flight: "aw_verifying W = xs @ (c, p, r) # ys"
    and fin: "complete_finish c p r (aw_registry W) = (s, r')"
    and W': "W' = W\<lparr>aw_registry := s, aw_verifying := xs @ ys\<rparr>"
  shows "epoch_flow W W'"
proof -
  consider (same) "rg_pending s = rg_pending (aw_registry W)"
    | (ok) i where "r = Ok i"
        "rg_pending s = AList.update c (p\<lparr>pr_phase := Authenticated i\<rparr>) (rg_pending (aw_registry W))"
    using complete_finish_cases [OF fin] by auto
  then have "waiting_epochs W' \<subseteq> waiting_epochs W"
  proof cases
    case ok
    have "ri_registration_epoch i = pending_epoch p"
      using call_epoch [OF prov, of c p i] flight ok(1) by simp
    then have "pending_epoch (p\<lparr>pr_phase := Authenticated i\<rparr>) = pending_epoch p"
      by (simp add: pending_epoch_def)
    with ok(2) flight ran_update_subset [of c "p\<lparr>pr_phase := Authenticated i\<rparr>" "rg_pending (aw_registry W)"]
    show ?thesis unfolding waiting_epochs_def W' by auto
  qed (auto simp: waiting_epochs_def W' flight)
  moreover have "rg_next_epoch s = rg_next_epoch (aw_registry W)"
    "rg_active_by_session s = rg_active_by_session (aw_registry W)"
    "rg_channels s = rg_channels (aw_registry W)"
    using complete_finish_cases [OF fin] by auto
  ultimately show ?thesis by (auto simp: epoch_flow_def W')
qed

lemma flow_activate:
  assumes act: "activate_registration c snapshot now (aw_registry W) = (s, out)"
    and W': "W' = W\<lparr>aw_registry := s\<rparr>"
  shows "epoch_flow W W'"
proof (cases out)
  case (Inl e)
  with activate_fail [of c snapshot now "aw_registry W" s e] act
  have "s = aw_registry W \<or> (\<exists>p. s = drop_pending c p (aw_registry W))" by auto
  then show ?thesis
    by (auto intro!: flow_shrink simp: W' drop_pending_def dest: subsetD [OF ran_delete_subset])
next
  case (Inr res)
  with act activate_Ok [of c snapshot now "aw_registry W" s res] obtain p i where
    p: "map_of (rg_pending (aw_registry W)) c = Some p" "pr_phase p = Authenticated i"
    and s: "s = install (pending_session p) (new_agent c i snapshot now)
          (retire (pending_session p) (drop_pending c p (aw_registry W)))"
    by auto
  let ?r = "retire (pending_session p) (drop_pending c p (aw_registry W))"
  have new: "ri_registration_epoch i \<in> waiting_epochs W"
    using p by (force simp: waiting_epochs_def pending_epoch_def ran_def image_iff)
  have len: "length (rg_channels ?r) = length (rg_channels (aw_registry W))"
    by (simp add: retire_def split: option.split)
  have "(\<exists>a. map_of (rg_active_by_session (aw_registry W)) w = Some a \<and>
           aa_revocation b = aa_revocation a \<and> agent_epoch b = agent_epoch a) \<or>
        length (rg_channels (aw_registry W)) \<le> aa_revocation b \<and> agent_epoch b \<in> waiting_epochs W"
    if "map_of (rg_active_by_session s) w = Some b" for w b
    using that new len by (auto simp: s install_def Let_def update_conv' new_agent_def split: if_splits)
  moreover have "waiting_epochs W' \<subseteq> waiting_epochs W"
    by (rule waiting_epochs_mono)
      (use ran_delete_subset [of c "rg_pending (aw_registry W)"] in
        \<open>simp_all add: W' s install_def Let_def drop_pending_def\<close>)
  ultimately show ?thesis
    using len by (auto simp: epoch_flow_def W') (auto simp: s install_def Let_def)
qed

lemma flow_replace:
  assumes "map_of (rg_active_by_session (aw_registry W)) w = Some a" "same_agent a b"
  shows "epoch_flow W (W\<lparr>aw_registry := replace_agent w b (aw_registry W)\<rparr>)"
  using assms by (auto simp: epoch_flow_def replace_agent_def same_agent_def update_conv' waiting_epochs_def)

lemma flow_refl: "epoch_flow W (W\<lparr>aw_registry := aw_registry W\<rparr>)"
  by (rule flow_shrink) simp_all

lemma flow_step:
  assumes "ar_step W W'" and inv: "ag_inv W"
  shows "epoch_flow W W'"
proof -
  have prov: "prov_inv W" and place: "place_inv (aw_registry W) (aw_verifying W)"
    using inv by (simp_all add: ag_inv_def)
  from assms(1) show ?thesis
  proof cases
    case (ar_expect e v now s r)
    with expect_cases [of e v now "aw_registry W" s r] show ?thesis by (auto intro!: flow_shrink)
  next
    case (ar_cancel e s b)
    with cancel_cases [of e "aw_registry W" s b] show ?thesis by (auto intro!: flow_shrink)
  next
    case (ar_begin c reg obs now material s ch)
    with flow_begin show ?thesis by blast
  next
    case (ar_begin_fail c reg obs now material s err)
    with begin_fail_cases [of c reg obs now material "aw_registry W" s err] checked_succ
    show ?thesis by (auto intro!: flow_shrink intro: less_imp_le)
  next
    case (ar_take c s p protocol answer now protocol' r)
    with complete_take_Ok [of c "aw_registry W" s p protocol]
    have s: "s = (aw_registry W)\<lparr>rg_pending := AList.delete c (rg_pending (aw_registry W))\<rparr>"
      and "p \<in> ran (map_of (rg_pending (aw_registry W)))"
      by (auto intro: ranI)
    with ar_take(1) ran_delete_subset [of c "rg_pending (aw_registry W)"]
    have "waiting_epochs W' \<subseteq> waiting_epochs W" by (auto simp: waiting_epochs_def)
    with ar_take complete_take_Ok [of c "aw_registry W" s p protocol] show ?thesis
      by (auto simp: epoch_flow_def)
  next
    case (ar_take_fail c s err)
    have "map_of (AList.update c p (AList.delete c (rg_pending (aw_registry W)))) = map_of (rg_pending (aw_registry W))"
      if "map_of (rg_pending (aw_registry W)) c = Some p" for p
      using that by (auto simp: update_conv' delete_conv')
    with complete_take_fail [of c "aw_registry W" s err] ar_take_fail show ?thesis
      by (auto intro!: flow_shrink)
  next
    case (ar_finish xs c p r ys s r')
    with flow_finish [OF prov] show ?thesis by blast
  next
    case (ar_activate c snapshot now s o')
    with flow_activate show ?thesis by blast
  next
    case (ar_capabilities c snapshot now s u)
    with record_capabilities_cases [of c snapshot now "aw_registry W" s u] show ?thesis
      by (auto intro: flow_replace flow_refl)
  next
    case (ar_heartbeat c heartbeat now s u)
    with agent_record_heartbeat_cases [of c heartbeat now "aw_registry W" s u] show ?thesis
      by (auto intro: flow_replace flow_refl)
  next
    case (ar_disconnect c s i)
    have "\<exists>a. map_of (rg_active_by_session (aw_registry W)) w = Some a \<and> aa_connection_id a = c"
      if "map_of (rg_active_by_connection (aw_registry W)) c = Some w" for w
      using place that by (simp add: place_inv_def owner_inv_def)
    from disconnect_cases [OF ar_disconnect(2) this]
    have "s = forget_pending c (aw_registry W) \<or> (\<exists>w. s = retire w (forget_pending c (aw_registry W)))"
      by blast
    moreover have "ran (map_of (rg_pending (forget_pending c (aw_registry W)))) \<subseteq> ran (map_of (rg_pending (aw_registry W)))"
      using ran_delete_subset [of c "rg_pending (aw_registry W)"]
      by (simp add: forget_pending_def drop_pending_def split: option.split)
    moreover have "length (rg_channels (retire w t)) = length (rg_channels t)" for w t
      by (simp add: retire_def split: option.split)
    ultimately show ?thesis
      unfolding ar_disconnect(1) by (intro flow_shrink) auto
  next
    case (ar_invalidate s "is")
    then show ?thesis by (auto intro!: flow_shrink simp: invalidate_all_def length_revoke_all)
  qed
qed

text \<open>
  The generation that holds channel \<open>i\<close> under epoch \<open>e\<close>, from its activation on: it is active, or
  the epoch has come to its end.
\<close>

definition generation :: "u64 \<Rightarrow> nat \<Rightarrow> agent_world \<Rightarrow> bool" where
  "generation e i W \<longleftrightarrow> i < length (rg_channels (aw_registry W)) \<and> e < rg_next_epoch (aw_registry W) \<and>
     e \<notin> waiting_epochs W \<and>
     (\<forall>w a. map_of (rg_active_by_session (aw_registry W)) w = Some a \<longrightarrow>
        (aa_revocation a = i \<longleftrightarrow> agent_epoch a = e))"

definition epoch_active :: "u64 \<Rightarrow> agent_world \<Rightarrow> bool" where
  "epoch_active e W \<longleftrightarrow>
     (\<exists>w a. map_of (rg_active_by_session (aw_registry W)) w = Some a \<and> agent_epoch a = e)"

lemma generation_step:
  assumes "epoch_flow W W'" "generation e i W"
  shows "generation e i W'" and "epoch_active e W' \<Longrightarrow> epoch_active e W"
proof -
  have old: "\<exists>a. map_of (rg_active_by_session (aw_registry W)) w = Some a \<and>
      aa_revocation b = aa_revocation a \<and> agent_epoch b = agent_epoch a"
    if "map_of (rg_active_by_session (aw_registry W')) w = Some b" "aa_revocation b = i \<or> agent_epoch b = e" for w b
    using assms that unfolding epoch_flow_def generation_def by fastforce
  have "e \<notin> waiting_epochs W'" "i < length (rg_channels (aw_registry W'))"
    "e < rg_next_epoch (aw_registry W')"
    using assms unfolding epoch_flow_def generation_def by (auto dest: less_le_trans)
  moreover have "aa_revocation b = i \<longleftrightarrow> agent_epoch b = e"
    if "map_of (rg_active_by_session (aw_registry W')) w = Some b" for w b
    using old [OF that] assms(2) unfolding generation_def by metis
  ultimately show "generation e i W'" by (simp add: generation_def)
  show "epoch_active e W" if "epoch_active e W'"
    using old that unfolding epoch_active_def by metis
qed

interpretation gen: state_invariant "\<lambda>W. ag_inv W \<and> generation e i W" ar_step
  "\<lambda>W. ag_inv W \<and> generation e i W" for e i
  by unfold_locales (auto intro: agr.step_inv generation_step(1) flow_step)

lemma generation_active:
  assumes inv: "ag_inv W" and a: "map_of (rg_active_by_session (aw_registry W)) w = Some a"
  shows "generation (agent_epoch a) (aa_revocation a) W"
proof -
  have chan: "chan_inv (aw_registry W)" and prov: "prov_inv W" using inv by (simp_all add: ag_inv_def)
  have "aa_revocation a \<in> open_channels (rg_channels (aw_registry W))"
    using chan a by (auto simp: chan_ok_def intro!: ranI)
  moreover have "agent_epoch a \<notin> waiting_epochs W"
    unfolding waiting_epochs_def ran_def
    by (auto simp: image_iff dest: active_epoch_exclusive(1,2) [OF inv a])
  moreover have "aa_revocation b = aa_revocation a \<longleftrightarrow> agent_epoch b = agent_epoch a"
    if b: "map_of (rg_active_by_session (aw_registry W)) v = Some b" for v b
  proof
    assume "agent_epoch b = agent_epoch a"
    with active_epoch_unique [OF prov b a] show "aa_revocation b = aa_revocation a" by simp
  next
    assume "aa_revocation b = aa_revocation a"
    with chan a b have "v = w"
      using inj_onD [of "revocations (aw_registry W)" "dom (revocations (aw_registry W))" v w]
      by (auto simp: chan_ok_def)
    with a b show "agent_epoch b = agent_epoch a" by simp
  qed
  ultimately show ?thesis
    using active_epoch_exclusive(3) [OF inv a] by (simp add: generation_def open_channels_def)
qed

lemma gone_forever:
  assumes "ar_step\<^sup>*\<^sup>* W W'" "ag_inv W" "generation e i W" "\<not> epoch_active e W"
  shows "\<not> epoch_active e W'"
proof -
  have "ag_inv W' \<and> generation e i W' \<and> \<not> epoch_active e W'"
    using assms(1)
  proof (induction rule: rtranclp_induct)
    case (step U V)
    then show ?case
      using generation_step(2) [OF flow_step] gen.step_inv by blast
  qed (use assms in blast)
  then show ?thesis by simp
qed

lemma active_list_ex:
  assumes "hm_wf m"
  shows "list_ex (\<lambda>(_, a). P a) m \<longleftrightarrow> (\<exists>w a. map_of m w = Some a \<and> P a)"
  using assms hm.get_entries [OF assms] by (force simp: list_ex_iff)

text \<open>The registration of a generation, by identifier and epoch, is active exactly with its epoch.\<close>

lemma registration_active_epoch:
  assumes "ag_inv W" "(c, reg, obs, ch) \<in> set (aw_begun W)" "ac_registration_epoch ch = e"
  shows "is_registration_active (ac_registration_id ch) e (aw_registry W) \<longleftrightarrow> epoch_active e W"
proof -
  have prov: "prov_inv W" and wf: "hm_wf (rg_active_by_session (aw_registry W))"
    using assms(1) by (simp_all add: ag_inv_def place_inv_def)
  have "ri_registration_id (aa_identity a) = ac_registration_id ch"
    if a: "map_of (rg_active_by_session (aw_registry W)) w = Some a" "agent_epoch a = e" for w a
  proof -
    have "agent_prov W w a" using prov a(1) by (simp add: prov_inv_def)
    then obtain v reg' obs' ch' where e: "(aa_connection_id a, reg', obs', ch') \<in> set (aw_begun W)"
      and p: "proven v reg' ch' (aa_identity a)"
      by (auto simp: agent_prov_def origin_def)
    have "inj_on entry_epoch (set (aw_begun W))"
      using prov by (simp add: prov_inv_def history_inv_def distinct_map)
    from inj_onD [OF this _ e assms(2)] proven_epoch [OF p] a(2) assms(3) have "ch' = ch"
      by (simp add: entry_epoch_def)
    with p show ?thesis by (auto simp: proven_def identity_of_def)
  qed
  then show ?thesis
    unfolding is_registration_active_def active_list_ex [OF wf] epoch_active_def by blast
qed

lemma lease_active:
  assumes inv: "ag_inv W" and gen: "generation e i W" and lease: "le_revoked lease = i"
  shows "lease_is_revoked lease (aw_registry W) \<longleftrightarrow> \<not> epoch_active e W"
proof -
  have chan: "chan_inv (aw_registry W)" and wf: "hm_wf (rg_active_by_session (aw_registry W))"
    using inv by (simp_all add: ag_inv_def place_inv_def)
  have "(\<exists>w a. map_of (rg_active_by_session (aw_registry W)) w = Some a \<and> aa_revocation a = i) \<longleftrightarrow>
      epoch_active e W"
    using gen unfolding generation_def epoch_active_def by blast
  moreover have "\<not> rg_channels (aw_registry W) ! i"
    if "map_of (rg_active_by_session (aw_registry W)) w = Some a" "aa_revocation a = i" for w a
  proof -
    have "i \<in> open_channels (rg_channels (aw_registry W))"
      using chan that by (auto simp: chan_ok_def intro!: ranI)
    then show ?thesis by (simp add: open_channels_def)
  qed
  ultimately show ?thesis
    unfolding lease_is_revoked_def active_list_ex [OF wf] lease by blast
qed

lemma bind_active_Ok:
  "bind_active_session w cap now s = Ok b \<longleftrightarrow>
     (\<exists>a. map_of (rg_active_by_session s) w = Some a \<and> agent_health a now = Healthy \<and>
        cap \<in> cs_capabilities (aa_capabilities a) \<and>
        b = \<lparr>ab_windows_session_id = w, ab_connection_id = aa_connection_id a,
             ab_registration_id = ri_registration_id (aa_identity a),
             ab_registration_epoch = agent_epoch a,
             ab_desktop_epoch = cs_desktop_epoch (aa_capabilities a), ab_required_capability = cap\<rparr>)"
  by (auto simp: bind_active_session_def validate_route_readiness_def guard_Ok)

lemma resolve_bound_Ok:
  "resolve_bound_generation b cap minor now cleanup s = Ok route \<longleftrightarrow>
     ab_required_capability b = cap \<and>
     (\<exists>a. map_of (rg_active_by_session s) (ab_windows_session_id b) = Some a \<and>
        aa_connection_id a = ab_connection_id b \<and> ri_registration_id (aa_identity a) = ab_registration_id b \<and>
        agent_epoch a = ab_registration_epoch b \<and>
        ri_windows_session_id (aa_identity a) = ab_windows_session_id b \<and>
        minor \<le> ri_protocol_minor (aa_identity a) \<and> agent_health a now = Healthy \<and>
        (cleanup \<or> cs_desktop_epoch (aa_capabilities a) = ab_desktop_epoch b \<and>
                   cap \<in> cs_capabilities (aa_capabilities a)) \<and>
        route = \<lparr>ex_binding = b, ex_lease = registration_lease a\<rparr>)"
  unfolding resolve_bound_generation_def validate_route_readiness_def guard_Ok and_then_eq_Ok ok_or_eq_Ok
  by (cases cleanup) (auto simp: not_less)

section \<open>A registration\<close>

text \<open>
  The handshake of \<open>demo_register\<close> with the registry: the launcher admits process 9 of Windows
  session 2, the process registers on one connection, and becomes active.
\<close>

definition demo_admission :: expected_agent_session where
  "demo_admission = \<lparr>ea_windows_session_id = 2, ea_logon_sid_hash = replicate 32 2, ea_process_id = 9,
     ea_process_creation_time = 77, ea_agent_key_id = replicate 32 3, ea_expires_at_ms = 50000,
     ea_replacement_policy = RejectExisting\<rparr>"

definition demo_observed :: observed_agent_identity where
  "demo_observed = \<lparr>oi_caller_kind = InteractiveUser, oi_process_id = 9, oi_process_creation_time = 77,
     oi_logon_sid_hash = replicate 32 2, oi_windows_session_id = 2\<rparr>"

definition demo_material :: challenge_material where
  "demo_material = \<lparr>cm_registration_id = replicate 16 5, cm_challenge_id = replicate 16 6,
     cm_challenge_nonce = replicate 32 7\<rparr>"

definition demo_verifier :: registration_verifier where
  "demo_verifier = \<lparr>rv_pointer = 0, rv_verify = demo_verify\<rparr>"

definition demo_connection :: agent_connection_id where
  "demo_connection = replicate 16 1"

definition demo_snapshot :: agent_capability_snapshot where
  "demo_snapshot = \<lparr>cs_agent_instance_id = replicate 16 1, cs_registration_id = replicate 16 5,
     cs_windows_session_id = 2, cs_revision = 1, cs_desktop_epoch = 3, cs_observed_at_ms = 1600,
     cs_capabilities = {CapInput}\<rparr>"

definition demo_issued :: agent_challenge where
  "demo_issued = demo_challenge\<lparr>ac_expires_at_ms := 31000\<rparr>"

definition demo_identity :: registered_agent_identity where
  "demo_identity = identity_of demo_register demo_issued demo_proof"

definition demo_entry :: "pending_phase \<Rightarrow> pending_registration" where
  "demo_entry phase = \<lparr>pr_expected = demo_admission, pr_verifier = demo_verifier,
     pr_registration_id = replicate 16 5, pr_challenge_id = replicate 16 6,
     pr_challenge_nonce = replicate 32 7, pr_phase = phase\<rparr>"

definition demo_protocol :: agent_protocol_state where
  "demo_protocol = \<lparr>aps_phase = ChallengeIssued demo_register demo_issued\<rparr>"

definition demo_active :: active_agent where
  "demo_active = new_agent demo_connection demo_identity demo_snapshot 2500 0"

text \<open>The registry after each of the calls.\<close>

definition demo_expecting :: registry_state where
  "demo_expecting = registry_new\<lparr>rg_expected := [(2, \<lparr>xa_session = demo_admission, xa_verifier = demo_verifier\<rparr>)]\<rparr>"

definition demo_pending :: "pending_phase \<Rightarrow> registry_state" where
  "demo_pending phase = demo_expecting\<lparr>rg_next_epoch := 2,
     rg_pending := [(demo_connection, demo_entry phase)], rg_pending_by_session := [(2, demo_connection)]\<rparr>"

definition demo_running :: registry_state where
  "demo_running = registry_new\<lparr>rg_next_epoch := 2, rg_active_by_session := [(2, demo_active)],
     rg_active_by_connection := [(demo_connection, 2)], rg_channels := [False]\<rparr>"

lemmas demo_registry_defs = demo_admission_def demo_observed_def demo_material_def demo_verifier_def
  demo_connection_def demo_snapshot_def demo_issued_def demo_entry_def demo_protocol_def
  demo_handshake_defs registry_new_def

lemma demo_expect:
  "expect_session_at demo_admission demo_verifier 500 registry_new = (demo_expecting, Ok ())"
  by (simp add: expect_session_at_def validate_expected_session_def validate_replacement_target_def
      demo_admission_def demo_expecting_def registry_new_def Let_def)

lemma demo_begin:
  "begin_registration demo_connection demo_register demo_observed 1000 (Ok demo_material) demo_expecting =
     (demo_pending (Challenged demo_protocol), Ok demo_issued)"
  by (simp add: begin_registration_def validate_observed_registration_def accept_register_def aps_new_def
      validate_challenge_material_def validate_expected_binding_def validate_replacement_target_def
      challenge_material_in_use_def checked_add_def challenge_of_def issue_challenge_def saturating_sub_def
      AGENT_REGISTRATION_CHALLENGE_MAX_LIFETIME_MS_def demo_expecting_def demo_pending_def
      demo_registry_defs Let_def)

lemma demo_complete:
  "complete_take demo_connection (demo_pending (Challenged demo_protocol)) =
     ((demo_pending (Challenged demo_protocol))\<lparr>rg_pending := []\<rparr>, Ok (demo_entry (Challenged demo_protocol), demo_protocol))"
  "complete_registration demo_verify demo_protocol demo_proof 2000 =
     (\<lparr>aps_phase = Registered demo_identity\<rparr>, Ok demo_identity)"
  "complete_finish demo_connection (demo_entry (Challenged demo_protocol)) (Ok demo_identity)
     ((demo_pending (Challenged demo_protocol))\<lparr>rg_pending := []\<rparr>) =
     (demo_pending (Authenticated demo_identity), Ok demo_identity)"
proof -
  show "complete_take demo_connection (demo_pending (Challenged demo_protocol)) =
     ((demo_pending (Challenged demo_protocol))\<lparr>rg_pending := []\<rparr>, Ok (demo_entry (Challenged demo_protocol), demo_protocol))"
    by (simp add: complete_take_def demo_pending_def demo_expecting_def demo_entry_def)
  show "complete_registration demo_verify demo_protocol demo_proof 2000 =
     (\<lparr>aps_phase = Registered demo_identity\<rparr>, Ok demo_identity)"
    by (simp add: complete_registration_def identity_of_def demo_identity_def demo_protocol_def demo_issued_def
        demo_handshake_defs Let_def replicate_add [symmetric] AGENT_IPC_PROTOCOL_MAJOR_def
        AGENT_IPC_PROTOCOL_MINOR_def)
  show "complete_finish demo_connection (demo_entry (Challenged demo_protocol)) (Ok demo_identity)
     ((demo_pending (Challenged demo_protocol))\<lparr>rg_pending := []\<rparr>) =
     (demo_pending (Authenticated demo_identity), Ok demo_identity)"
    by (simp add: complete_finish_def demo_pending_def demo_expecting_def demo_entry_def demo_admission_def
        registry_new_def Let_def)
qed

lemma demo_activate:
  "activate_registration demo_connection demo_snapshot 2500 (demo_pending (Authenticated demo_identity)) =
     (demo_running, Ok \<lparr>ro_identity = demo_identity, ro_replaced_connection = None\<rparr>)"
  by (simp add: activate_registration_def validate_initial_capabilities_def validate_capability_binding_def
      validate_replacement_target_def demo_pending_def demo_expecting_def demo_running_def demo_active_def
      new_agent_def demo_identity_def identity_of_def demo_registry_defs Let_def)

definition demo_world :: agent_world where
  "demo_world = \<lparr>aw_registry = demo_running, aw_verifying = [],
     aw_admitted = [(demo_admission, demo_verifier)],
     aw_begun = [(demo_connection, demo_register, demo_observed, demo_issued)]\<rparr>"

lemma demo_handshake_steps:
  "ar_step\<^sup>*\<^sup>* world_new
     \<lparr>aw_registry = demo_pending (Authenticated demo_identity), aw_verifying = [],
      aw_admitted = [(demo_admission, demo_verifier)],
      aw_begun = [(demo_connection, demo_register, demo_observed, demo_issued)]\<rparr>"
proof -
  let ?W = "\<lambda>s F B. \<lparr>aw_registry = s, aw_verifying = F, aw_admitted = [(demo_admission, demo_verifier)], aw_begun = B\<rparr>"
  let ?B = "[(demo_connection, demo_register, demo_observed, demo_issued)]"
  let ?p = "demo_entry (Challenged demo_protocol)"
  let ?s = "(demo_pending (Challenged demo_protocol))\<lparr>rg_pending := []\<rparr>"
  have s1: "ar_step world_new (?W demo_expecting [] [])"
    using ar_expect [of demo_admission demo_verifier 500 world_new demo_expecting "Ok ()"] demo_expect
    by (simp add: world_new_def)
  have s2: "ar_step (?W demo_expecting [] []) (?W (demo_pending (Challenged demo_protocol)) [] ?B)"
    using ar_begin [of demo_connection "?W demo_expecting [] []"] demo_begin by fastforce
  have s3: "ar_step (?W (demo_pending (Challenged demo_protocol)) [] ?B)
      (?W ?s [(demo_connection, ?p, Ok demo_identity)] ?B)"
    using ar_take [of demo_connection "?W (demo_pending (Challenged demo_protocol)) [] ?B" ?s ?p demo_protocol
        demo_proof 2000 _ "Ok demo_identity"] demo_complete(1,2)
    by (simp add: demo_entry_def demo_verifier_def)
  have s4: "ar_step (?W ?s [(demo_connection, ?p, Ok demo_identity)] ?B)
      (?W (demo_pending (Authenticated demo_identity)) [] ?B)"
    using ar_finish [of "?W ?s [(demo_connection, ?p, Ok demo_identity)] ?B" "[]"] demo_complete(3)
    by fastforce
  show ?thesis
    by (meson s1 s2 s3 s4 converse_rtranclp_into_rtranclp rtranclp.rtrancl_refl)
qed

lemma demo_world_reachable: "ar_step\<^sup>*\<^sup>* world_new demo_world"
proof -
  let ?W = "\<lparr>aw_registry = demo_pending (Authenticated demo_identity), aw_verifying = [],
      aw_admitted = [(demo_admission, demo_verifier)],
      aw_begun = [(demo_connection, demo_register, demo_observed, demo_issued)]\<rparr>"
  have "ar_step ?W demo_world"
    using ar_activate [of demo_connection ?W] demo_activate by (fastforce simp: demo_world_def)
  with demo_handshake_steps show ?thesis by simp
qed

section \<open>Properties\<close>

lemma begun_mono: "ar_step\<^sup>*\<^sup>* W W' \<Longrightarrow> set (aw_begun W) \<subseteq> set (aw_begun W')"
proof (induction rule: rtranclp_induct)
  case (step U V)
  from step.hyps(2) have "set (aw_begun U) \<subseteq> set (aw_begun V)"
    by cases auto
  with step.IH show ?case by blast
qed simp

text \<open>
  C6. Only the admitted process becomes an agent.  In every state that any interleaving of the
  registry's calls can reach, the active agent of a Windows session goes back to an admission
  that the launcher was granted for this session and to a challenge issued on the agent's own
  connection: the system had observed on that connection an interactive process with the
  admitted process identifier, creation time, logon and session, the register message named the
  admitted key, the challenge named exactly this process, and a proof for the challenge was
  accepted by the admission's verifier under the admitted key.  The agent's identity consists of
  these values, and its capability snapshot is bound to it.
\<close>

theorem active_agent_admitted:
  assumes "ar_step\<^sup>*\<^sup>* world_new W" and "map_of (rg_active_by_session (aw_registry W)) w = Some a"
  shows "\<exists>expected verifier reg obs ch answer now.
    (expected, verifier) \<in> set (aw_admitted W) \<and> validate_expected_session expected = Ok () \<and>
    (aa_connection_id a, reg, obs, ch) \<in> set (aw_begun W) \<and>
    admitted_process expected reg obs \<and> challenge_for reg ch \<and>
    proof_answers (rv_verify verifier) reg ch answer now \<and> aa_identity a = identity_of reg ch answer \<and>
    ea_windows_session_id expected = w \<and> ri_windows_session_id (aa_identity a) = w \<and>
    ri_agent_key_id (aa_identity a) = ea_agent_key_id expected \<and>
    validate_capability_binding (aa_identity a) (aa_capabilities a) = Ok ()"
proof -
  have "prov_inv W" using agr.reachable_inv [OF refl assms(1)] by (simp add: ag_inv_def)
  then have "agent_prov W w a" and adm: "\<And>e v. (e, v) \<in> set (aw_admitted W) \<Longrightarrow> validate_expected_session e = Ok ()"
    using assms(2) by (auto simp: prov_inv_def history_inv_def)
  then obtain expected verifier reg obs ch answer now where
    "origin W (aa_connection_id a) expected verifier reg obs ch" "ea_windows_session_id expected = w"
    "proof_answers (rv_verify verifier) reg ch answer now" "aa_identity a = identity_of reg ch answer"
    "validate_capability_binding (aa_identity a) (aa_capabilities a) = Ok ()"
    by (auto simp: agent_prov_def proven_def)
  then show ?thesis
    unfolding origin_def
    by (intro exI [of _ expected] exI [of _ verifier] exI [of _ reg] exI [of _ obs] exI [of _ ch]
        exI [of _ answer] exI [of _ now])
      (auto simp: adm admitted_process_def identity_of_def)
qed

theorem active_agent_admitted_witness:
  "\<exists>expected verifier. (expected, verifier) \<in> set (aw_admitted demo_world) \<and>
     ea_windows_session_id expected = 2 \<and> ri_agent_key_id (aa_identity demo_active) = ea_agent_key_id expected"
proof -
  have "map_of (rg_active_by_session (aw_registry demo_world)) 2 = Some demo_active"
    by (simp add: demo_world_def demo_running_def)
  from active_agent_admitted [OF demo_world_reachable this] show ?thesis by blast
qed

text \<open>
  C38. One owner for each session, connection and generation.  In every reachable state a
  connection owns a session exactly when it is the connection of the session's active agent;
  that agent is registered for this session, its connection is not registering again, no two
  active agents share a connection or a registration epoch; and every registration in progress
  is the one recorded for its session.
\<close>

theorem registry_ownership:
  assumes "ar_step\<^sup>*\<^sup>* world_new W"
  shows "(\<forall>c w. map_of (rg_active_by_connection (aw_registry W)) c = Some w \<longleftrightarrow>
      (\<exists>a. map_of (rg_active_by_session (aw_registry W)) w = Some a \<and> aa_connection_id a = c)) \<and>
    (\<forall>w a. map_of (rg_active_by_session (aw_registry W)) w = Some a \<longrightarrow>
      ri_windows_session_id (aa_identity a) = w \<and> is_connection_active (aa_connection_id a) (aw_registry W) \<and>
      map_of (rg_pending (aw_registry W)) (aa_connection_id a) = None) \<and>
    (\<forall>w a v b. map_of (rg_active_by_session (aw_registry W)) w = Some a \<longrightarrow>
      map_of (rg_active_by_session (aw_registry W)) v = Some b \<longrightarrow>
      aa_connection_id a = aa_connection_id b \<or> agent_epoch a = agent_epoch b \<longrightarrow> w = v) \<and>
    (\<forall>c p. map_of (rg_pending (aw_registry W)) c = Some p \<longrightarrow>
      map_of (rg_pending_by_session (aw_registry W)) (pending_session p) = Some c)"
proof -
  have inv: "ag_inv W" by (rule agr.reachable_inv [OF refl assms])
  then have prov: "prov_inv W" and place: "place_inv (aw_registry W) (aw_verifying W)"
    by (simp_all add: ag_inv_def)
  have owner: "\<forall>c w. map_of (rg_active_by_connection (aw_registry W)) c = Some w \<longleftrightarrow>
      (\<exists>a. map_of (rg_active_by_session (aw_registry W)) w = Some a \<and> aa_connection_id a = c)"
    using place by (simp add: place_inv_def owner_inv_def)
  have "ri_windows_session_id (aa_identity a) = w \<and> is_connection_active (aa_connection_id a) (aw_registry W) \<and>
      map_of (rg_pending (aw_registry W)) (aa_connection_id a) = None"
    if a: "map_of (rg_active_by_session (aw_registry W)) w = Some a" for w a
  proof -
    have c: "map_of (rg_active_by_connection (aw_registry W)) (aa_connection_id a) = Some w"
      using owner a by blast
    then have "map_of (rg_pending (aw_registry W)) (aa_connection_id a) = None"
      using place by (auto simp: place_inv_def stage_inv_def)
    moreover have "ri_windows_session_id (aa_identity a) = w" by (rule agent_entry [OF prov a])
    ultimately show ?thesis using a c by (simp add: is_connection_active_def)
  qed
  moreover have "w = v" if "map_of (rg_active_by_session (aw_registry W)) w = Some a"
    "map_of (rg_active_by_session (aw_registry W)) v = Some b"
    "aa_connection_id a = aa_connection_id b \<or> agent_epoch a = agent_epoch b" for w a v b
    using that owner active_epoch_unique [OF prov] by (metis option.inject)
  moreover have "map_of (rg_pending_by_session (aw_registry W)) (pending_session p) = Some c"
    if "map_of (rg_pending (aw_registry W)) c = Some p" for c p
    using place that by (simp add: place_inv_def progress_inv_def)
  ultimately show ?thesis using owner by blast
qed

theorem registry_ownership_witness:
  "map_of (rg_active_by_session (aw_registry demo_world)) 2 = Some demo_active \<and>
   is_connection_active demo_connection (aw_registry demo_world)"
proof -
  have a: "map_of (rg_active_by_session (aw_registry demo_world)) 2 = Some demo_active"
    by (simp add: demo_world_def demo_running_def)
  with registry_ownership [OF demo_world_reachable]
  have "is_connection_active (aa_connection_id demo_active) (aw_registry demo_world)" by blast
  with a show ?thesis by (simp add: demo_active_def new_agent_def)
qed

text \<open>
  What a binding or a lease refers to, followed through later states: the registration named by
  an active agent is active exactly as long as the generation of that agent is.
\<close>

lemma generation_followed:
  assumes reach: "ar_step\<^sup>*\<^sup>* world_new W" and steps: "ar_step\<^sup>*\<^sup>* W W'"
    and a: "map_of (rg_active_by_session (aw_registry W)) w = Some a"
  shows "ag_inv W'" and "generation (agent_epoch a) (aa_revocation a) W'"
    and "is_registration_active (ri_registration_id (aa_identity a)) (agent_epoch a) (aw_registry W') \<longleftrightarrow>
      epoch_active (agent_epoch a) W'"
proof -
  have inv: "ag_inv W" by (rule agr.reachable_inv [OF refl reach])
  have later: "ag_inv W' \<and> generation (agent_epoch a) (aa_revocation a) W'"
    using gen.steps_inv [OF steps] inv generation_active [OF inv a] by blast
  then show "ag_inv W'" "generation (agent_epoch a) (aa_revocation a) W'" by auto
  have "agent_prov W w a" using inv a by (simp add: ag_inv_def prov_inv_def)
  then obtain verifier reg obs ch where e: "(aa_connection_id a, reg, obs, ch) \<in> set (aw_begun W)"
    and p: "proven verifier reg ch (aa_identity a)"
    by (auto simp: agent_prov_def origin_def)
  have "(aa_connection_id a, reg, obs, ch) \<in> set (aw_begun W')" using begun_mono [OF steps] e by blast
  from registration_active_epoch [OF _ this] later proven_epoch [OF p] p
  show "is_registration_active (ri_registration_id (aa_identity a)) (agent_epoch a) (aw_registry W') \<longleftrightarrow>
      epoch_active (agent_epoch a) W'"
    by (auto simp: proven_def identity_of_def)
qed

text \<open>
  C5. A binding names one generation for ever.  Take a binding made in any reachable state, and
  any later state.  If the binding resolves there, for a command or for cleanup, the bound
  registration is still the active one and the lease handed out is not revoked; outside cleanup
  the bound desktop is unchanged and the capability still advertised.  A lease is revoked exactly when its
  registration is no longer active.  And once the registration is not active, no later state,
  whatever processes register in between, makes it active again or lets the binding resolve.
\<close>

theorem bound_route_final:
  assumes reach: "ar_step\<^sup>*\<^sup>* world_new W"
    and bind: "bind_active_session w cap now (aw_registry W) = Ok b"
    and lease: "lease_for_session w (aw_registry W) = Some lease"
    and steps: "ar_step\<^sup>*\<^sup>* W W'"
  shows "(\<forall>minor now' cleanup route.
      resolve_bound_generation b cap minor now' cleanup (aw_registry W') = Ok route \<longrightarrow>
      is_registration_active (ab_registration_id b) (ab_registration_epoch b) (aw_registry W') \<and>
      \<not> lease_is_revoked (ex_lease route) (aw_registry W') \<and>
      (cleanup \<or> (\<exists>a. map_of (rg_active_by_session (aw_registry W')) w = Some a \<and>
         cs_desktop_epoch (aa_capabilities a) = ab_desktop_epoch b \<and> cap \<in> cs_capabilities (aa_capabilities a)))) \<and>
    (lease_is_revoked lease (aw_registry W') \<longleftrightarrow>
      \<not> is_registration_active (le_registration_id lease) (le_registration_epoch lease) (aw_registry W')) \<and>
    (\<not> is_registration_active (ab_registration_id b) (ab_registration_epoch b) (aw_registry W') \<longrightarrow>
      (\<forall>W''. ar_step\<^sup>*\<^sup>* W' W'' \<longrightarrow>
         \<not> is_registration_active (ab_registration_id b) (ab_registration_epoch b) (aw_registry W'') \<and>
         (\<forall>minor now' cleanup. \<not> is_ok (resolve_bound_generation b cap minor now' cleanup (aw_registry W'')))))"
proof -
  obtain a where a: "map_of (rg_active_by_session (aw_registry W)) w = Some a"
    and b: "ab_registration_id b = ri_registration_id (aa_identity a)" "ab_registration_epoch b = agent_epoch a"
      "ab_windows_session_id b = w"
    using bind by (auto simp: bind_active_Ok)
  have l: "lease = registration_lease a" using lease a by (simp add: lease_for_session_def)
  note now = generation_followed [OF reach steps a]
  have active: "is_registration_active (ab_registration_id b) (ab_registration_epoch b) (aw_registry V)"
    if "resolve_bound_generation b cap minor now' cleanup (aw_registry V) = Ok route" "ag_inv V"
    for V minor now' cleanup route
  proof -
    have wf: "hm_wf (rg_active_by_session (aw_registry V))" using that(2) by (simp add: ag_inv_def place_inv_def)
    from that(1) show ?thesis
      unfolding is_registration_active_def active_list_ex [OF wf] resolve_bound_Ok by blast
  qed
  have "\<not> lease_is_revoked (ex_lease route) (aw_registry W')"
    if r: "resolve_bound_generation b cap minor now' cleanup (aw_registry W') = Ok route" for minor now' cleanup route
  proof -
    obtain d where d: "map_of (rg_active_by_session (aw_registry W')) w = Some d"
      "ex_lease route = registration_lease d"
      using r b(3) by (auto simp: resolve_bound_Ok)
    have "epoch_active (agent_epoch d) W'" using d(1) by (auto simp: epoch_active_def)
    with lease_active [OF now(1) generation_active [OF now(1) d(1)], of "registration_lease d"] d(2)
    show ?thesis by (simp add: registration_lease_def)
  qed
  moreover have "lease_is_revoked lease (aw_registry W') \<longleftrightarrow>
      \<not> is_registration_active (le_registration_id lease) (le_registration_epoch lease) (aw_registry W')"
    using lease_active [OF now(1,2), of lease] now(3) by (simp add: l registration_lease_def)
  moreover have "\<not> is_registration_active (ab_registration_id b) (ab_registration_epoch b) (aw_registry W'') \<and>
      (\<forall>minor now' cleanup. \<not> is_ok (resolve_bound_generation b cap minor now' cleanup (aw_registry W'')))"
    if gone: "\<not> is_registration_active (ab_registration_id b) (ab_registration_epoch b) (aw_registry W')"
      and more: "ar_step\<^sup>*\<^sup>* W' W''" for W''
  proof -
    have "\<not> epoch_active (agent_epoch a) W''"
      using gone_forever [OF more now(1,2)] gone now(3) b by simp
    moreover note later = generation_followed [OF reach rtranclp_trans [OF steps more] a]
    ultimately have "\<not> is_registration_active (ab_registration_id b) (ab_registration_epoch b) (aw_registry W'')"
      using later(3) b by simp
    with active [OF _ later(1)] show ?thesis by (auto simp: is_ok_iff)
  qed
  ultimately show ?thesis
    using active [OF _ now(1)] b(3) by (fastforce simp: resolve_bound_Ok)
qed

text \<open>The demonstration agent is bound for input and then disconnects.\<close>

definition demo_binding :: agent_binding where
  "demo_binding = \<lparr>ab_windows_session_id = 2, ab_connection_id = demo_connection,
     ab_registration_id = replicate 16 5, ab_registration_epoch = 1, ab_desktop_epoch = 3,
     ab_required_capability = CapInput\<rparr>"

definition demo_gone :: agent_world where
  "demo_gone = demo_world\<lparr>aw_registry := fst (disconnect demo_connection demo_running)\<rparr>"

lemma demo_bind:
  "bind_active_session 2 CapInput 3000 (aw_registry demo_world) = Ok demo_binding"
  "lease_for_session 2 (aw_registry demo_world) = Some (registration_lease demo_active)"
  by (simp_all add: bind_active_session_def validate_route_readiness_def agent_health_def
      AGENT_HEARTBEAT_STALE_AFTER_MS_def demo_world_def demo_running_def demo_active_def new_agent_def
      demo_binding_def demo_snapshot_def demo_identity_def identity_of_def demo_issued_def
      demo_challenge_def lease_for_session_def)

lemma demo_disconnected: "ar_step\<^sup>*\<^sup>* demo_world demo_gone"
proof -
  have "disconnect demo_connection (aw_registry demo_world) =
      (fst (disconnect demo_connection demo_running), snd (disconnect demo_connection demo_running))"
    by (simp add: demo_world_def)
  from ar_disconnect [OF this] show ?thesis by (simp add: demo_gone_def r_into_rtranclp)
qed

theorem bound_route_final_witness:
  "resolve_bound_generation demo_binding CapInput 0 3000 False (aw_registry demo_world) =
     Ok \<lparr>ex_binding = demo_binding, ex_lease = registration_lease demo_active\<rparr> \<and>
   \<not> lease_is_revoked (registration_lease demo_active) (aw_registry demo_world) \<and>
   lease_is_revoked (registration_lease demo_active) (aw_registry demo_gone)"
proof -
  have resolve: "resolve_bound_generation demo_binding CapInput 0 3000 False (aw_registry demo_world) =
      Ok \<lparr>ex_binding = demo_binding, ex_lease = registration_lease demo_active\<rparr>"
    by (simp add: resolve_bound_Ok agent_health_def AGENT_HEARTBEAT_STALE_AFTER_MS_def demo_world_def
        demo_running_def demo_active_def new_agent_def demo_binding_def demo_snapshot_def demo_identity_def
        identity_of_def demo_issued_def demo_challenge_def demo_register_def)
  have "\<not> is_registration_active (le_registration_id (registration_lease demo_active))
      (le_registration_epoch (registration_lease demo_active)) (aw_registry demo_gone)"
    by (simp add: is_registration_active_def demo_gone_def disconnect_def demo_running_def demo_active_def
        new_agent_def registry_new_def)
  with resolve bound_route_final [OF demo_world_reachable demo_bind rtranclp.rtrancl_refl]
    bound_route_final [OF demo_world_reachable demo_bind demo_disconnected]
  show ?thesis by fastforce
qed

text \<open>
  C39. An activation replaces what the launcher named, and nothing else.  When a registration is
  activated in a reachable state, the session had no agent if its admission rejects existing
  ones, and otherwise had exactly the named generation, which from then on is not active and
  whose lease is revoked.  The new agent's lease is not revoked, the agents of all other sessions are
  untouched, and the admission is used up: a second process needs a new one.
\<close>

theorem activation_replaces_exactly:
  assumes reach: "ar_step\<^sup>*\<^sup>* world_new W" and idle: "c \<notin> fst ` set (aw_verifying W)"
    and act: "activate_registration c snapshot now (aw_registry W) = (s, Ok out)"
  shows "\<exists>p a. map_of (rg_pending (aw_registry W)) c = Some p \<and>
    map_of (rg_active_by_session s) (pending_session p) = Some a \<and> aa_connection_id a = c \<and>
    aa_identity a = ro_identity out \<and> \<not> lease_is_revoked (registration_lease a) s \<and>
    (case ea_replacement_policy (pr_expected p) of
       RejectExisting \<Rightarrow> map_of (rg_active_by_session (aw_registry W)) (pending_session p) = None
     | ReplaceExisting i e \<Rightarrow>
         (\<exists>b. map_of (rg_active_by_session (aw_registry W)) (pending_session p) = Some b \<and>
            ri_registration_id (aa_identity b) = i \<and> agent_epoch b = e \<and>
            ro_replaced_connection out = Some (aa_connection_id b) \<and>
            \<not> is_registration_active i e s \<and> lease_is_revoked (registration_lease b) s)) \<and>
    (\<forall>w. w \<noteq> pending_session p \<longrightarrow>
       map_of (rg_active_by_session s) w = map_of (rg_active_by_session (aw_registry W)) w) \<and>
    map_of (rg_expected s) (pending_session p) = None \<and> map_of (rg_pending s) c = None"
proof -
  obtain p i where p: "map_of (rg_pending (aw_registry W)) c = Some p"
      "validate_replacement_target (ea_replacement_policy (pr_expected p))
        (map_of (rg_active_by_session (aw_registry W)) (pending_session p)) = Ok ()"
    and out: "out = \<lparr>ro_identity = i, ro_replaced_connection =
      map_option aa_connection_id (map_of (rg_active_by_session (aw_registry W)) (pending_session p))\<rparr>"
    and s: "s = install (pending_session p) (new_agent c i snapshot now)
          (retire (pending_session p) (drop_pending c p (aw_registry W)))"
    using activate_Ok [OF act] by blast
  let ?W = "W\<lparr>aw_registry := s\<rparr>"
  have step: "ar_step W ?W" by (rule ar_activate [OF idle act])
  then have reach': "ar_step\<^sup>*\<^sup>* world_new ?W" using reach by simp
  have inv: "ag_inv ?W" by (rule agr.reachable_inv [OF refl reach'])
  obtain a where a: "map_of (rg_active_by_session s) (pending_session p) = Some a" "aa_connection_id a = c"
      "aa_identity a = i"
    by (auto simp: s install_def Let_def update_conv' new_agent_def)
  have others: "map_of (rg_active_by_session s) w = map_of (rg_active_by_session (aw_registry W)) w"
    if "w \<noteq> pending_session p" for w
    using that by (simp add: s install_def Let_def update_conv')
  have lease: "\<not> lease_is_revoked (registration_lease a) s"
    using lease_active [OF inv generation_active [OF inv], of "pending_session p" a "registration_lease a"] a(1)
    by (auto simp: registration_lease_def epoch_active_def)
  have "\<not> is_registration_active (ri_registration_id (aa_identity b)) (agent_epoch b) s \<and>
      lease_is_revoked (registration_lease b) s"
    if b: "map_of (rg_active_by_session (aw_registry W)) (pending_session p) = Some b" for b
  proof -
    note g = generation_followed [OF reach r_into_rtranclp [of ar_step, OF step] b]
    have inv0: "ag_inv W" by (rule agr.reachable_inv [OF refl reach])
    have new: "agent_epoch a \<in> waiting_epochs W \<or> agent_epoch a = agent_epoch b \<and> aa_revocation a = aa_revocation b"
      using flow_step [OF step inv0] a(1) b unfolding epoch_flow_def by fastforce
    have "aa_revocation a = length (rg_channels (aw_registry W))"
      using a(1) b by (auto simp: s install_def Let_def update_conv' new_agent_def retire_def split: option.splits)
    moreover have "aa_revocation b < length (rg_channels (aw_registry W))"
      using generation_active [OF inv0 b] by (simp add: generation_def)
    ultimately have "agent_epoch a \<in> waiting_epochs W" using new by auto
    then have "agent_epoch a \<noteq> agent_epoch b"
      using generation_active [OF inv0 b] by (auto simp: generation_def)
    moreover have "agent_epoch d \<noteq> agent_epoch b"
      if "map_of (rg_active_by_session (aw_registry W)) w = Some d" "w \<noteq> pending_session p" for w d
      using active_epoch_unique [OF _ that(1) b] inv0 that(2) by (auto simp: ag_inv_def)
    ultimately have "agent_epoch d \<noteq> agent_epoch b" if "map_of (rg_active_by_session s) w = Some d" for w d
      using others [of w] a(1) that by (cases "w = pending_session p") auto
    then have "\<not> epoch_active (agent_epoch b) ?W" by (auto simp: epoch_active_def)
    with g(3) lease_active [OF g(1,2), of "registration_lease b"] show ?thesis
      by (simp add: registration_lease_def)
  qed
  with p a others lease show ?thesis
    by (intro exI [of _ p] exI [of _ a])
      (auto simp: out validate_replacement_target_def s install_def Let_def delete_conv' drop_pending_def
        split: replacement_policy.splits option.splits if_splits)
qed

text \<open>The demonstration up to its activation, which finds the session free.\<close>

lemma demo_authenticated_reachable:
  "ar_step\<^sup>*\<^sup>* world_new (demo_world\<lparr>aw_registry := demo_pending (Authenticated demo_identity)\<rparr>)"
  using demo_handshake_steps by (simp add: demo_world_def)

theorem activation_replaces_exactly_witness:
  "map_of (rg_active_by_session (demo_pending (Authenticated demo_identity))) 2 = None \<and>
   \<not> lease_is_revoked (registration_lease demo_active) demo_running"
proof -
  let ?W = "demo_world\<lparr>aw_registry := demo_pending (Authenticated demo_identity)\<rparr>"
  have act: "activate_registration demo_connection demo_snapshot 2500 (aw_registry ?W) =
      (demo_running, Ok \<lparr>ro_identity = demo_identity, ro_replaced_connection = None\<rparr>)"
    by (simp add: demo_activate)
  have idle: "demo_connection \<notin> fst ` set (aw_verifying ?W)" by (simp add: demo_world_def)
  have p: "map_of (rg_pending (aw_registry ?W)) demo_connection = Some (demo_entry (Authenticated demo_identity))"
    by (simp add: demo_pending_def)
  have w: "ea_windows_session_id (pr_expected (demo_entry (Authenticated demo_identity))) = 2"
    "ea_replacement_policy (pr_expected (demo_entry (Authenticated demo_identity))) = RejectExisting"
    by (simp_all add: demo_entry_def demo_admission_def)
  have "map_of (rg_active_by_session demo_running) 2 = Some demo_active" by (simp add: demo_running_def)
  with activation_replaces_exactly [OF demo_authenticated_reachable idle act] p w show ?thesis by auto
qed

end
