(* ===== verification/Agent_Bootstrap.thy ===== *)
theory Agent_Bootstrap
  imports Agent_Framing Agent_Grant Control_Proto
begin

text \<open>
  The bootstrap record by which the launcher hands a new session agent its registration seed and
  the keys to trust (\<open>crates/mrd-agent-ipc/src/bootstrap.rs\<close>): its codec, the derivation of key
  identifiers, and the two verifiers that are bound to one key each.  The elliptic-curve and hash
  functions of \<open>ed25519_dalek\<close>, \<open>curve25519_dalek\<close> and \<open>ring\<close> are the fields of \<open>agent_crypto\<close>.
  \<open>AgentBootstrap\<close>, \<open>ReceivedAgentBootstrap\<close> and \<open>BootstrapFields\<close> have the same fields and are one
  record; its fixed-size arrays are byte lists, with their sizes in \<open>bootstrap_wf\<close>.
\<close>

section \<open>Parameters and data\<close>

record 'p agent_crypto =
  bc_public_key :: "bytes \<Rightarrow> bytes"
  bc_sign :: "bytes \<Rightarrow> bytes \<Rightarrow> bytes"
  bc_verifying_key :: "bytes \<Rightarrow> bool"
  bc_verify_strict :: "bytes \<Rightarrow> bytes \<Rightarrow> bytes \<Rightarrow> bool"
  bc_is_weak :: "bytes \<Rightarrow> bool"
  bc_decompress :: "bytes \<Rightarrow> 'p option"
  bc_compress :: "'p \<Rightarrow> bytes"
  bc_is_torsion_free :: "'p \<Rightarrow> bool"
  bc_sha256 :: "bytes \<Rightarrow> bytes"

text \<open>Documented behaviour: signatures of a seed verify strictly under its public key.\<close>

definition seed_signatures_verify :: "'p agent_crypto \<Rightarrow> bool" where
  "seed_signatures_verify cr \<longleftrightarrow>
     (\<forall>seed m. bc_verify_strict cr (bc_public_key cr seed) m (bc_sign cr seed m))"

definition BOOTSTRAP_MAGIC :: bytes where "BOOTSTRAP_MAGIC = as_bytes (''MRDABT2'' @ [CHR 0x00])"
definition BOOTSTRAP_VERSION :: u16 where "BOOTSTRAP_VERSION = 2"
definition BOOTSTRAP_HEADER_BYTES :: nat where "BOOTSTRAP_HEADER_BYTES = 168"
definition BOOTSTRAP_MAX_BYTES :: nat where "BOOTSTRAP_MAX_BYTES = 1024"
definition REGISTRATION_KEY_ID_CONTEXT :: bytes where
  "REGISTRATION_KEY_ID_CONTEXT = as_bytes (''mrd-agent-registration-key-v1'' @ [CHR 0x00])"

lemmas bootstrap_consts = BOOTSTRAP_MAGIC_def BOOTSTRAP_VERSION_def BOOTSTRAP_HEADER_BYTES_def
  BOOTSTRAP_MAX_BYTES_def AGENT_IPC_MAX_IDENTIFIER_BYTES_def

record registration_public_key =
  rk_key_id :: bytes
  rk_public_key :: bytes

record agent_bootstrap =
  bs_control_endpoint :: string
  bs_service_process_id :: u32
  bs_service_process_creation_time :: u64
  bs_heartbeat_interval_ms :: u32
  bs_handshake_timeout_ms :: u32
  bs_registration_seed :: bytes
  bs_expected_agent_key_id :: bytes
  bs_execute_grant_issuer_key_id :: bytes
  bs_execute_grant_public_key :: bytes

text \<open>An error of the channel carries the operating system's error number.\<close>

datatype agent_bootstrap_error =
  InvalidBootstrapRecord | InvalidRegistrationKey | InvalidExecuteGrantIssuerKey | BootstrapIo "int io_error"

record bound_verifier =
  bv_expected_key_id :: bytes
  bv_public_key :: bytes

section \<open>Keys and verifiers\<close>

definition digest_to_array :: "bytes \<Rightarrow> (bytes, agent_bootstrap_error) result" where
  "digest_to_array bs = (if length bs = 32 then Ok bs else Err InvalidRegistrationKey)"

definition derive_registration_public_key ::
  "'p agent_crypto \<Rightarrow> bytes \<Rightarrow> (registration_public_key, agent_bootstrap_error) result" where
  "derive_registration_public_key cr seed =
     (if all_zero seed then Err InvalidRegistrationKey
      else let public_key = bc_public_key cr seed in
        and_then (digest_to_array (bc_sha256 cr (REGISTRATION_KEY_ID_CONTEXT @ public_key))) (\<lambda>key_id.
          Ok \<lparr>rk_key_id = key_id, rk_public_key = public_key\<rparr>))"

definition derive_execute_grant_issuer_key_id :: "'p agent_crypto \<Rightarrow> bytes \<Rightarrow> bytes" where
  "derive_execute_grant_issuer_key_id cr public_key = bc_sha256 cr public_key"

definition registration_verifier_new ::
  "'p agent_crypto \<Rightarrow> bytes \<Rightarrow> bytes \<Rightarrow> (bound_verifier, agent_bootstrap_error) result" where
  "registration_verifier_new cr expected_key_id public_key =
     and_then (digest_to_array (bc_sha256 cr (REGISTRATION_KEY_ID_CONTEXT @ public_key))) (\<lambda>key_id.
       if key_id \<noteq> expected_key_id then Err InvalidRegistrationKey
       else if \<not> bc_verifying_key cr public_key then Err InvalidRegistrationKey
       else Ok \<lparr>bv_expected_key_id = expected_key_id, bv_public_key = public_key\<rparr>)"

definition execute_grant_verifier_new ::
  "'p agent_crypto \<Rightarrow> bytes \<Rightarrow> bytes \<Rightarrow> (bound_verifier, agent_bootstrap_error) result" where
  "execute_grant_verifier_new cr expected_key_id public_key =
     (if all_zero expected_key_id \<or> all_zero public_key
        \<or> derive_execute_grant_issuer_key_id cr public_key \<noteq> expected_key_id
      then Err InvalidExecuteGrantIssuerKey
      else and_then (ok_or InvalidExecuteGrantIssuerKey (bc_decompress cr public_key)) (\<lambda>point.
        if bc_compress cr point \<noteq> public_key \<or> \<not> bc_is_torsion_free cr point
        then Err InvalidExecuteGrantIssuerKey
        else if \<not> bc_verifying_key cr public_key then Err InvalidExecuteGrantIssuerKey
        else if bc_is_weak cr public_key then Err InvalidExecuteGrantIssuerKey
        else Ok \<lparr>bv_expected_key_id = expected_key_id, bv_public_key = public_key\<rparr>))"

text \<open>The \<open>verify\<close> of both verifiers.\<close>

definition bound_verify :: "'p agent_crypto \<Rightarrow> bound_verifier \<Rightarrow> bytes \<Rightarrow> bytes \<Rightarrow> bytes \<Rightarrow> bool" where
  "bound_verify cr self key_id signing_bytes sig \<longleftrightarrow>
     key_id = bv_expected_key_id self \<and> bc_verify_strict cr (bv_public_key self) signing_bytes sig"

section \<open>The record\<close>

definition validate_bootstrap_fields ::
  "'p agent_crypto \<Rightarrow> agent_bootstrap \<Rightarrow> (unit, agent_bootstrap_error) result" where
  "validate_bootstrap_fields cr b =
     (if bs_control_endpoint b = [] \<or> CHR 0x00 \<in> set (bs_control_endpoint b)
        \<or> length (bs_control_endpoint b) > AGENT_IPC_MAX_IDENTIFIER_BYTES * 2
        \<or> bs_service_process_id b = 0 \<or> bs_service_process_creation_time b = 0
        \<or> bs_heartbeat_interval_ms b = 0 \<or> bs_handshake_timeout_ms b = 0
        \<or> all_zero (bs_expected_agent_key_id b)
      then Err InvalidBootstrapRecord
      else and_then (derive_registration_public_key cr (bs_registration_seed b)) (\<lambda>derived.
        if rk_key_id derived \<noteq> bs_expected_agent_key_id b then Err InvalidRegistrationKey
        else and_then (execute_grant_verifier_new cr (bs_execute_grant_issuer_key_id b)
                         (bs_execute_grant_public_key b)) (\<lambda>_. Ok ())))"

definition bootstrap_frame :: "agent_bootstrap \<Rightarrow> u32 \<Rightarrow> u16 \<Rightarrow> bytes" where
  "bootstrap_frame b total_len endpoint_len =
     BOOTSTRAP_MAGIC @ u16_le BOOTSTRAP_VERSION @ u16_le 0 @ u32_le total_len @ u16_le endpoint_len @ u16_le 0
     @ u32_le (bs_service_process_id b) @ u64_le (bs_service_process_creation_time b)
     @ u32_le (bs_heartbeat_interval_ms b) @ u32_le (bs_handshake_timeout_ms b)
     @ bs_expected_agent_key_id b @ bs_registration_seed b @ bs_execute_grant_issuer_key_id b
     @ bs_execute_grant_public_key b @ as_bytes (bs_control_endpoint b)"

definition encode_agent_bootstrap ::
  "'p agent_crypto \<Rightarrow> agent_bootstrap \<Rightarrow> (bytes, agent_bootstrap_error) result" where
  "encode_agent_bootstrap cr bootstrap =
     and_then (validate_bootstrap_fields cr bootstrap) (\<lambda>_.
       let endpoint_bytes = length (bs_control_endpoint bootstrap);
           total_len = BOOTSTRAP_HEADER_BYTES + endpoint_bytes in
       if total_len > BOOTSTRAP_MAX_BYTES then Err InvalidBootstrapRecord
       else if endpoint_bytes \<ge> 2 ^ 16 then Err InvalidBootstrapRecord
       else Ok (bootstrap_frame bootstrap (of_nat total_len) (of_nat endpoint_bytes)))"

definition write_agent_bootstrap ::
  "'p agent_crypto \<Rightarrow> ('w \<Rightarrow> bytes \<Rightarrow> (unit, int io_error) result \<times> 'w) \<Rightarrow> ('w \<Rightarrow> (unit, int io_error) result \<times> 'w)
   \<Rightarrow> 'w \<Rightarrow> agent_bootstrap \<Rightarrow> (unit, agent_bootstrap_error) result \<times> 'w" where
  "write_agent_bootstrap cr write_all flush writer bootstrap =
     (case encode_agent_bootstrap cr bootstrap of
        Err e \<Rightarrow> (Err e, writer)
      | Ok frame \<Rightarrow>
          (case write_all writer frame of
             (Err e, writer') \<Rightarrow> (Err (BootstrapIo e), writer')
           | (Ok _, writer') \<Rightarrow>
               (case flush writer' of
                  (Err e, writer'') \<Rightarrow> (Err (BootstrapIo e), writer'')
                | (Ok _, writer'') \<Rightarrow> (Ok (), writer''))))"

definition u64_of_le :: "bytes \<Rightarrow> u64" where "u64_of_le bs = u64_of_be (rev bs)"

text \<open>
  \<open>u16_at\<close>, \<open>u32_at\<close>, \<open>u64_at\<close> on the header, which has its full length, so that their error for a
  slice out of range does not arise.
\<close>

definition u16_at :: "bytes \<Rightarrow> nat \<Rightarrow> u16" where "u16_at bs offset = u16_of_le (take 2 (drop offset bs))"
definition u32_at :: "bytes \<Rightarrow> nat \<Rightarrow> u32" where "u32_at bs offset = u32_of_le (take 4 (drop offset bs))"
definition u64_at :: "bytes \<Rightarrow> nat \<Rightarrow> u64" where "u64_at bs offset = u64_of_le (take 8 (drop offset bs))"

definition received_bootstrap :: "bytes \<Rightarrow> bytes \<Rightarrow> agent_bootstrap" where
  "received_bootstrap header endpoint =
     \<lparr>bs_control_endpoint = string_of_bytes endpoint, bs_service_process_id = u32_at header 20,
      bs_service_process_creation_time = u64_at header 24, bs_heartbeat_interval_ms = u32_at header 32,
      bs_handshake_timeout_ms = u32_at header 36, bs_registration_seed = take 32 (drop 72 header),
      bs_expected_agent_key_id = take 32 (drop 40 header),
      bs_execute_grant_issuer_key_id = take 32 (drop 104 header),
      bs_execute_grant_public_key = take 32 (drop 136 header)\<rparr>"

definition read_agent_bootstrap ::
  "'p agent_crypto \<Rightarrow> bytes \<Rightarrow> (agent_bootstrap, agent_bootstrap_error) result \<times> bytes" where
  "read_agent_bootstrap cr stream =
     (case read_exact BOOTSTRAP_HEADER_BYTES stream of
        (Err e, rest) \<Rightarrow> (Err (BootstrapIo e), rest)
      | (Ok header, rest) \<Rightarrow>
          if take 8 header \<noteq> BOOTSTRAP_MAGIC \<or> u16_at header 8 \<noteq> BOOTSTRAP_VERSION
            \<or> u16_at header 10 \<noteq> 0 \<or> u16_at header 18 \<noteq> 0
          then (Err InvalidBootstrapRecord, rest)
          else let total_len = unat (u32_at header 12); endpoint_len = unat (u16_at header 16) in
          if total_len \<noteq> BOOTSTRAP_HEADER_BYTES + endpoint_len \<or> total_len > BOOTSTRAP_MAX_BYTES
            \<or> endpoint_len = 0 \<or> endpoint_len > AGENT_IPC_MAX_IDENTIFIER_BYTES * 2
          then (Err InvalidBootstrapRecord, rest)
          else (case read_exact endpoint_len rest of
             (Err e, rest') \<Rightarrow> (Err (BootstrapIo e), rest')
           | (Ok endpoint, rest') \<Rightarrow>
               if \<not> utf8_valid endpoint then (Err InvalidBootstrapRecord, rest')
               else (case validate_bootstrap_fields cr (received_bootstrap header endpoint) of
                       Err e \<Rightarrow> (Err e, rest')
                     | Ok _ \<Rightarrow> (Ok (received_bootstrap header endpoint), rest'))))"

definition windows_agent_bootstrap_pipe_name :: "u32 \<Rightarrow> u32 \<Rightarrow> u64 \<Rightarrow> string" where
  "windows_agent_bootstrap_pipe_name windows_session_id process_id process_creation_time =
     [CHR 0x5C, CHR 0x5C, CHR ''.'', CHR 0x5C] @ ''pipe'' @ [CHR 0x5C] @ ''mrd-agent-bootstrap-v2-s''
     @ decimal_string (unat windows_session_id) @ ''-p'' @ decimal_string (unat process_id) @ ''-c''
     @ concat (map hex_byte (u64_be process_creation_time))"

section \<open>Reading back\<close>

definition bootstrap_wf :: "agent_bootstrap \<Rightarrow> bool" where
  "bootstrap_wf b \<longleftrightarrow> length (bs_registration_seed b) = 32 \<and> length (bs_expected_agent_key_id b) = 32 \<and>
     length (bs_execute_grant_issuer_key_id b) = 32 \<and> length (bs_execute_grant_public_key b) = 32 \<and>
     utf8_valid (as_bytes (bs_control_endpoint b))"

lemma u64_of_le_le [simp]: "u64_of_le (u64_le w) = w"
  by (simp add: u64_of_le_def u64_le_def)

lemma bootstrap_frame_length:
  "bootstrap_wf b \<Longrightarrow> length (bootstrap_frame b t e) = 168 + length (bs_control_endpoint b)"
  by (simp add: bootstrap_frame_def bootstrap_wf_def bootstrap_consts)

lemma bootstrap_frame_fields:
  assumes "bootstrap_wf b"
  shows "take 8 (bootstrap_frame b t e) = BOOTSTRAP_MAGIC"
    "u16_at (bootstrap_frame b t e) 8 = BOOTSTRAP_VERSION" "u16_at (bootstrap_frame b t e) 10 = 0"
    "u32_at (bootstrap_frame b t e) 12 = t" "u16_at (bootstrap_frame b t e) 16 = e"
    "u16_at (bootstrap_frame b t e) 18 = 0"
    "drop 168 (bootstrap_frame b t e) = as_bytes (bs_control_endpoint b)"
    "received_bootstrap (take 168 (bootstrap_frame b t e)) (as_bytes (bs_control_endpoint b)) = b"
  using assms
  by (simp_all add: bootstrap_frame_def bootstrap_wf_def bootstrap_consts u16_at_def u32_at_def u64_at_def
      received_bootstrap_def take_take drop_take)

lemma at_take:
  "k + 2 \<le> n \<Longrightarrow> u16_at (take n bs) k = u16_at bs k" "k + 4 \<le> n \<Longrightarrow> u32_at (take n bs) k = u32_at bs k"
  by (simp_all add: u16_at_def u32_at_def drop_take min_def)

lemma validate_bootstrap_Ok:
  "validate_bootstrap_fields cr b = Ok u \<Longrightarrow>
     0 < length (bs_control_endpoint b) \<and> length (bs_control_endpoint b) \<le> 512"
  by (auto simp: validate_bootstrap_fields_def guard_Ok AGENT_IPC_MAX_IDENTIFIER_BYTES_def)

lemma unat_of_nat_small:
  "n \<le> 512 \<Longrightarrow> unat (of_nat n :: u16) = n" "n \<le> 512 \<Longrightarrow> unat (of_nat (168 + n) :: u32) = 168 + n"
proof -
  show "unat (of_nat n :: u16) = n" if "n \<le> 512"
    using that by (simp add: unat_of_nat del: of_nat_add)
  show "unat (of_nat (168 + n) :: u32) = 168 + n" if "n \<le> 512"
    using that by (simp add: unat_of_nat del: of_nat_add)
qed

lemma encode_bootstrap_Ok:
  "encode_agent_bootstrap cr b = Ok frame \<longleftrightarrow>
     validate_bootstrap_fields cr b = Ok () \<and>
     frame = bootstrap_frame b (of_nat (168 + length (bs_control_endpoint b)))
       (of_nat (length (bs_control_endpoint b)))"
  using validate_bootstrap_Ok [of cr b "()"]
  by (auto simp: encode_agent_bootstrap_def Let_def guard_Ok bootstrap_consts)

lemma read_encoded:
  assumes wf: "bootstrap_wf b" and enc: "encode_agent_bootstrap cr b = Ok frame"
  shows "read_agent_bootstrap cr (frame @ rest) = (Ok b, rest)"
proof -
  let ?n = "length (bs_control_endpoint b)"
  define f where "f = bootstrap_frame b (of_nat (168 + ?n)) (of_nat ?n)"
  from enc have v: "validate_bootstrap_fields cr b = Ok ()" and frame: "frame = f"
    by (simp_all add: encode_bootstrap_Ok f_def)
  from validate_bootstrap_Ok [OF v] have n: "0 < ?n" "?n \<le> 512" by auto
  note fields = bootstrap_frame_fields [OF wf, of "of_nat (168 + ?n)" "of_nat ?n", folded f_def]
  have len: "length f = 168 + ?n" unfolding f_def by (rule bootstrap_frame_length [OF wf])
  have head: "(read_exact 168 (f @ rest) :: (bytes, int io_error) result \<times> bytes) = (Ok (take 168 f), as_bytes (bs_control_endpoint b) @ rest)"
    using len fields(7) by (simp add: read_exact_def)
  have tail: "(read_exact ?n (as_bytes (bs_control_endpoint b) @ rest) :: (bytes, int io_error) result \<times> bytes) =
      (Ok (as_bytes (bs_control_endpoint b)), rest)"
    by (simp add: read_exact_def)
  have "take 8 (take 168 f) = BOOTSTRAP_MAGIC" using fields(1) by (simp add: take_take)
  with n fields wf v head tail show ?thesis
    unfolding frame read_agent_bootstrap_def BOOTSTRAP_HEADER_BYTES_def
    by (simp add: at_take unat_of_nat_small Let_def bootstrap_wf_def BOOTSTRAP_MAX_BYTES_def
        AGENT_IPC_MAX_IDENTIFIER_BYTES_def del: of_nat_add)
qed

text \<open>The pieces of a buffer of known layout.\<close>

fun slices :: "nat list \<Rightarrow> 'a list \<Rightarrow> 'a list list" where
  "slices [] xs = [xs]"
| "slices (n # ns) xs = take n xs # slices ns (drop n xs)"

lemma concat_slices: "concat (slices ns xs) = xs"
  by (induction ns xs rule: slices.induct) simp_all

lemma le_of_le:
  "length bs = 2 \<Longrightarrow> u16_le (u16_of_le bs) = bs" "length bs = 4 \<Longrightarrow> u32_le (u32_of_le bs) = bs"
  "length bs = 8 \<Longrightarrow> u64_le (u64_of_le bs) = bs"
  by (simp_all add: u16_le_def u16_of_le_def u32_le_def u32_of_le_def u64_le_def u64_of_le_def be_of_be)

lemma header_layout:
  assumes len: "length h = 168" and magic: "take 8 h = BOOTSTRAP_MAGIC" "u16_at h 8 = BOOTSTRAP_VERSION"
    "u16_at h 10 = 0" "u16_at h 18 = 0"
  shows "bootstrap_frame (received_bootstrap h endpoint) (u32_at h 12) (u16_at h 16) = h @ endpoint"
proof -
  have "h = concat (slices [8, 2, 2, 4, 2, 2, 4, 8, 4, 4, 32, 32, 32, 32] h)" by (rule concat_slices [symmetric])
  then have h: "h = take 8 h @ take 2 (drop 8 h) @ take 2 (drop 10 h) @ take 4 (drop 12 h) @ take 2 (drop 16 h)
      @ take 2 (drop 18 h) @ take 4 (drop 20 h) @ take 8 (drop 24 h) @ take 4 (drop 32 h) @ take 4 (drop 36 h)
      @ take 32 (drop 40 h) @ take 32 (drop 72 h) @ take 32 (drop 104 h) @ take 32 (drop 136 h)"
    using len by simp
  have le: "u16_le (u16_at h k) = take 2 (drop k h)" if "k + 2 \<le> 168" for k
    using that len by (simp add: u16_at_def le_of_le)
  have le4: "u32_le (u32_at h k) = take 4 (drop k h)" if "k + 4 \<le> 168" for k
    using that len by (simp add: u32_at_def le_of_le)
  have le8: "u64_le (u64_at h k) = take 8 (drop k h)" if "k + 8 \<le> 168" for k
    using that len by (simp add: u64_at_def le_of_le)
  have "bootstrap_frame (received_bootstrap h endpoint) (u32_at h 12) (u16_at h 16) =
      take 8 h @ u16_le (u16_at h 8) @ u16_le (u16_at h 10) @ u32_le (u32_at h 12) @ u16_le (u16_at h 16)
      @ u16_le (u16_at h 18) @ u32_le (u32_at h 20) @ u64_le (u64_at h 24) @ u32_le (u32_at h 32)
      @ u32_le (u32_at h 36) @ take 32 (drop 40 h) @ take 32 (drop 72 h) @ take 32 (drop 104 h)
      @ take 32 (drop 136 h) @ endpoint"
    by (simp add: bootstrap_frame_def received_bootstrap_def magic)
  also have "\<dots> = (take 8 h @ take 2 (drop 8 h) @ take 2 (drop 10 h) @ take 4 (drop 12 h) @ take 2 (drop 16 h)
      @ take 2 (drop 18 h) @ take 4 (drop 20 h) @ take 8 (drop 24 h) @ take 4 (drop 32 h) @ take 4 (drop 36 h)
      @ take 32 (drop 40 h) @ take 32 (drop 72 h) @ take 32 (drop 104 h) @ take 32 (drop 136 h)) @ endpoint"
    by (simp add: le le4 le8)
  also have "\<dots> = h @ endpoint" by (simp only: h [symmetric])
  finally show ?thesis .
qed

lemma read_canonical:
  assumes "read_agent_bootstrap cr s = (Ok b, rest)"
  shows "bootstrap_wf b \<and> (\<exists>frame. encode_agent_bootstrap cr b = Ok frame \<and> s = frame @ rest)"
proof -
  let ?n = "length (bs_control_endpoint b)"
  from assms obtain h rest1 endpoint where
    h: "(read_exact 168 s :: (bytes, int io_error) result \<times> bytes) = (Ok h, rest1)" "take 8 h = BOOTSTRAP_MAGIC" "u16_at h 8 = BOOTSTRAP_VERSION"
      "u16_at h 10 = 0" "u16_at h 18 = 0" and
    len: "unat (u32_at h 12) = 168 + unat (u16_at h 16)" and
    tail: "(read_exact (unat (u16_at h 16)) rest1 :: (bytes, int io_error) result \<times> bytes) = (Ok endpoint, rest)" and
    b: "b = received_bootstrap h endpoint" "utf8_valid endpoint" "validate_bootstrap_fields cr b = Ok ()"
    by (auto simp: read_agent_bootstrap_def BOOTSTRAP_HEADER_BYTES_def Let_def split: prod.splits sum.splits if_splits)
  have s: "s = h @ endpoint @ rest" "length h = 168" "length endpoint = unat (u16_at h 16)"
    using h(1) tail by (auto simp: read_exact_Ok)
  have n: "?n = unat (u16_at h 16)" by (simp add: b(1) received_bootstrap_def string_of_bytes_def s(3))
  have "of_nat ?n = u16_at h 16" by (simp add: n)
  moreover have "of_nat (168 + ?n) = u32_at h 12" by (simp only: n len [symmetric]) simp
  ultimately have "bootstrap_frame b (of_nat (168 + ?n)) (of_nat ?n) =
      bootstrap_frame b (u32_at h 12) (u16_at h 16)" by simp
  with header_layout [OF s(2) h(2-5), of endpoint] b(1)
  have "bootstrap_frame b (of_nat (168 + ?n)) (of_nat ?n) = h @ endpoint" by simp
  moreover have "bootstrap_wf b"
    using b(1,2) s(2) by (simp add: bootstrap_wf_def received_bootstrap_def)
  ultimately show ?thesis using b(3) s(1) by (simp add: encode_bootstrap_Ok del: of_nat_add)
qed

section \<open>Properties\<close>

text \<open>
  C40. The bootstrap codec is exact.  Reading returns a record precisely when the channel starts
  with the encoding of that record, and leaves exactly what follows it: what the launcher writes
  is read back, no other byte string is read as a record, and no byte beyond the record is taken.
\<close>

theorem bootstrap_codec_exact:
  "read_agent_bootstrap cr s = (Ok b, rest) \<longleftrightarrow>
     bootstrap_wf b \<and> (\<exists>frame. encode_agent_bootstrap cr b = Ok frame \<and> s = frame @ rest)"
  using read_canonical read_encoded by blast

end
