(* ===== verification/Agent_Issuer.thy ===== *)
theory Agent_Issuer
  imports Agent_Generations Agent_Bootstrap
begin

text \<open>
  The service's issuer of execute grants (\<open>apps/mrd-service/src/agent_runtime/execute_issuer.rs\<close>):
  a template binds the authorization of a session to one exact agent generation, and the issuer
  signs it for one command.  The last part joins the registry, the bootstrap and the agent's own
  validation: what the service issues for a bound generation is what that agent accepts.
\<close>

section \<open>Data\<close>

record execute_grant_template =
  tp_registration_id :: bytes
  tp_registration_epoch :: u64
  tp_session_id :: session_id
  tp_peer :: peer_binding
  tp_scopes :: permission_scopes
  tp_policy_revision :: u64
  tp_windows_session_id :: u32
  tp_desktop_epoch :: u64
  tp_desktop_kind :: desktop_kind
  tp_issued_at_ms :: u64
  tp_not_before_ms :: u64
  tp_expires_at_ms :: u64
  tp_required_capability :: agent_capability

datatype execute_grant_issue_error =
  InvalidAuthority | InvalidWindow | InvalidCommandIdentity | CapabilityMismatch | MissingScope

record execute_grant_issuer =
  gi_signing_key :: bytes
  gi_public_key :: bytes
  gi_key_id :: bytes

section \<open>Operations\<close>

fun command_required_capability :: "agent_command \<Rightarrow> agent_capability" where
  "command_required_capability (StartCapture _ _ _) = CapCapture"
| "command_required_capability (StopCapture _) = CapCapture"
| "command_required_capability (StartInput _ _) = CapInput"
| "command_required_capability (StopInput _) = CapInput"
| "command_required_capability (StartAudio _ _) = CapAudio"
| "command_required_capability (StopAudio _) = CapAudio"
| "command_required_capability (StartClipboard _) = CapClipboard"
| "command_required_capability (StopClipboard _) = CapClipboard"
| "command_required_capability (StartFile _ _) = CapFile"
| "command_required_capability (StopFile _) = CapFile"
| "command_required_capability (StartRender _ _ _) = CapRender"
| "command_required_capability (StopRender _) = CapRender"

definition validate_window :: "u64 \<Rightarrow> u64 \<Rightarrow> u64 \<Rightarrow> (unit, execute_grant_issue_error) result" where
  "validate_window issued_at_ms not_before_ms expires_at_ms =
     (if issued_at_ms = 0 \<or> not_before_ms < issued_at_ms \<or> expires_at_ms \<le> not_before_ms
        \<or> saturating_sub expires_at_ms not_before_ms > AGENT_EXECUTE_GRANT_MAX_LIFETIME_MS
      then Err InvalidWindow else Ok ())"

definition template_for_binding ::
  "agent_binding \<Rightarrow> session_id \<Rightarrow> peer_binding \<Rightarrow> permission_scopes \<Rightarrow> u64 \<Rightarrow> desktop_kind \<Rightarrow> u64 \<Rightarrow> u64 \<Rightarrow> u64
   \<Rightarrow> (execute_grant_template, execute_grant_issue_error) result" where
  "template_for_binding binding session_id peer scopes policy_revision kind issued_at_ms not_before_ms expires_at_ms =
     (if all_zero (ab_registration_id binding) \<or> ab_registration_epoch binding = 0
        \<or> ab_windows_session_id binding = 0 \<or> ab_desktop_epoch binding = 0 \<or> session_id = []
        \<or> pb_device_id peer = [] \<or> all_zero (pb_key_id peer) \<or> policy_revision = 0
      then Err InvalidAuthority
      else and_then (validate_window issued_at_ms not_before_ms expires_at_ms) (\<lambda>_.
        Ok \<lparr>tp_registration_id = ab_registration_id binding,
            tp_registration_epoch = ab_registration_epoch binding, tp_session_id = session_id, tp_peer = peer,
            tp_scopes = scopes, tp_policy_revision = policy_revision,
            tp_windows_session_id = ab_windows_session_id binding, tp_desktop_epoch = ab_desktop_epoch binding,
            tp_desktop_kind = kind, tp_issued_at_ms = issued_at_ms, tp_not_before_ms = not_before_ms,
            tp_expires_at_ms = expires_at_ms, tp_required_capability = ab_required_capability binding\<rparr>))"

definition template_with_scopes :: "permission_scopes \<Rightarrow> execute_grant_template \<Rightarrow> execute_grant_template" where
  "template_with_scopes scopes self = self\<lparr>tp_scopes := scopes\<rparr>"

definition matches_binding :: "execute_grant_template \<Rightarrow> agent_binding \<Rightarrow> bool" where
  "matches_binding self binding \<longleftrightarrow>
     tp_registration_id self = ab_registration_id binding
     \<and> tp_registration_epoch self = ab_registration_epoch binding
     \<and> tp_windows_session_id self = ab_windows_session_id binding
     \<and> tp_desktop_epoch self = ab_desktop_epoch binding
     \<and> tp_required_capability self = ab_required_capability binding"

definition issuer_from_seed :: "'p agent_crypto \<Rightarrow> bytes \<Rightarrow> execute_grant_issuer option" where
  "issuer_from_seed cr seed =
     (if all_zero seed then None
      else Some \<lparr>gi_signing_key = seed, gi_public_key = bc_public_key cr seed,
                 gi_key_id = derive_execute_grant_issuer_key_id cr (bc_public_key cr seed)\<rparr>)"

definition issue ::
  "grant_env \<Rightarrow> 'p agent_crypto \<Rightarrow> execute_grant_issuer \<Rightarrow> bytes \<Rightarrow> bytes \<Rightarrow> agent_command
   \<Rightarrow> execute_grant_template \<Rightarrow> (execute_command, execute_grant_issue_error) result" where
  "issue env cr self command_id grant_id command template =
     (if all_zero command_id \<or> all_zero grant_id then Err InvalidCommandIdentity
      else if command_required_capability command \<noteq> tp_required_capability template then Err CapabilityMismatch
      else if \<not> command_required_scopes command \<subseteq> tp_scopes template then Err MissingScope
      else and_then (validate_window (tp_issued_at_ms template) (tp_not_before_ms template)
                       (tp_expires_at_ms template)) (\<lambda>_.
        let claims = \<lparr>gc_grant_id = grant_id, gc_registration_id = tp_registration_id template,
              gc_registration_epoch = tp_registration_epoch template, gc_session_id = tp_session_id template,
              gc_peer = tp_peer template, gc_scopes = tp_scopes template,
              gc_policy_revision = tp_policy_revision template,
              gc_windows_session_id = tp_windows_session_id template,
              gc_desktop_epoch = tp_desktop_epoch template, gc_desktop_kind = tp_desktop_kind template,
              gc_issued_at_ms = tp_issued_at_ms template, gc_not_before_ms = tp_not_before_ms template,
              gc_expires_at_ms = tp_expires_at_ms template, gc_command_digest = replicate 32 0,
              gc_audience = SessionAgent\<rparr>;
            grant = \<lparr>eg_claims = claims, eg_issuer_key_id = gi_key_id self, eg_signature = replicate 64 0\<rparr>;
            execute = \<lparr>ex_request_token = 1, ex_command_id = command_id, ex_grant = grant, ex_command = command\<rparr>;
            grant = grant\<lparr>eg_claims := claims\<lparr>gc_command_digest := execute_command_digest env execute\<rparr>\<rparr>;
            grant = grant\<lparr>eg_signature := bc_sign cr (gi_signing_key self) (grant_signing_bytes env grant)\<rparr>
        in Ok (execute\<lparr>ex_grant := grant\<rparr>)))"

section \<open>Issued commands\<close>

lemma validate_window_Ok:
  "validate_window i n e = Ok u \<longleftrightarrow> i \<noteq> 0 \<and> i \<le> n \<and> n < e \<and> unat e \<le> unat n + 300000"
  by (auto simp: validate_window_def not_less not_le word_le_nat_alt word_less_nat_alt unat_saturating_sub
      AGENT_EXECUTE_GRANT_MAX_LIFETIME_MS_def)

text \<open>The fields of an issued command.\<close>

lemma issue_Ok:
  assumes "issue env cr self cid gid command t = Ok x"
  shows "\<not> all_zero cid" "\<not> all_zero gid" "command_required_capability command = tp_required_capability t"
    "command_required_scopes command \<subseteq> tp_scopes t"
    "validate_window (tp_issued_at_ms t) (tp_not_before_ms t) (tp_expires_at_ms t) = Ok ()"
    "ex_command x = command" "ex_command_id x = cid" "eg_issuer_key_id (ex_grant x) = gi_key_id self"
    "eg_claims (ex_grant x) = \<lparr>gc_grant_id = gid, gc_registration_id = tp_registration_id t,
       gc_registration_epoch = tp_registration_epoch t, gc_session_id = tp_session_id t, gc_peer = tp_peer t,
       gc_scopes = tp_scopes t, gc_policy_revision = tp_policy_revision t,
       gc_windows_session_id = tp_windows_session_id t, gc_desktop_epoch = tp_desktop_epoch t,
       gc_desktop_kind = tp_desktop_kind t, gc_issued_at_ms = tp_issued_at_ms t,
       gc_not_before_ms = tp_not_before_ms t, gc_expires_at_ms = tp_expires_at_ms t,
       gc_command_digest = execute_command_digest env x, gc_audience = SessionAgent\<rparr>"
    "eg_signature (ex_grant x) = bc_sign cr (gi_signing_key self) (grant_signing_bytes env (ex_grant x))"
  using assms
  by (auto simp: issue_def Let_def execute_command_digest_def execute_digest_input_def grant_signing_bytes_def
      split: if_splits)

text \<open>What a bound verifier of the issuer's key accepts.\<close>

lemma pinned_verifier:
  assumes "execute_grant_verifier_new cr key_id public_key = Ok v"
  shows "v = \<lparr>bv_expected_key_id = key_id, bv_public_key = public_key\<rparr>" and "\<not> all_zero key_id"
    and "key_id = bc_sha256 cr public_key"
  using assms by (auto simp: execute_grant_verifier_new_def derive_execute_grant_issuer_key_id_def guard_Ok)

lemma template_for_binding_Ok:
  assumes "template_for_binding b sid peer scopes revision kind i n e = Ok t"
  shows "\<not> all_zero (ab_registration_id b)" "ab_registration_epoch b \<noteq> 0" "ab_windows_session_id b \<noteq> 0"
    "ab_desktop_epoch b \<noteq> 0" "sid \<noteq> []" "pb_device_id peer \<noteq> []" "\<not> all_zero (pb_key_id peer)" "revision \<noteq> 0"
    "t = \<lparr>tp_registration_id = ab_registration_id b, tp_registration_epoch = ab_registration_epoch b,
          tp_session_id = sid, tp_peer = peer, tp_scopes = scopes, tp_policy_revision = revision,
          tp_windows_session_id = ab_windows_session_id b, tp_desktop_epoch = ab_desktop_epoch b,
          tp_desktop_kind = kind, tp_issued_at_ms = i, tp_not_before_ms = n, tp_expires_at_ms = e,
          tp_required_capability = ab_required_capability b\<rparr>"
  using assms by (auto simp: template_for_binding_def guard_Ok)

section \<open>Properties\<close>

text \<open>
  C7. What the service issues is what the agent accepts.  Let a binding be made for the active
  agent of a Windows session, a template made for the binding, and a command issued from it; and
  let the agent check it with the verifier that its bootstrap pinned to the issuer's key.  With any
  request token, the agent accepts the command exactly when the token is set, the command's own
  fields are valid and the identifiers short enough; neither the digest nor the signature is all
  zero, which the agent takes for absent; the context is that of the bound registration, session,
  peer, policy revision and desktop; the issued scopes were approved; the grant ends within five
  minutes of its issue and not after the authorization; it has begun; and a command that starts
  work is on the default desktop and before the grant's end.  In particular no other agent
  generation accepts it.
\<close>

theorem issued_command_accepted_exactly:
  assumes active: "map_of (rg_active_by_session r) w = Some a"
    and bind: "bind_active_session w cap now r = Ok b"
    and template: "template_for_binding b sid peer scopes revision kind i n e = Ok t"
    and issuer: "issuer_from_seed cr seed = Some iss" and issue: "issue env cr iss cid gid command t = Ok x"
    and pinned: "execute_grant_verifier_new cr (gi_key_id iss) (gi_public_key iss) = Ok v"
    and env: "ge_verify env = bound_verify cr v" and crypto: "seed_signatures_verify cr"
    and ctx: "xc_expected_issuer_key_id ctx = gi_key_id iss"
  shows "is_ok (validate_execute_command env (x\<lparr>ex_request_token := token\<rparr>) ctx) \<longleftrightarrow>
    token \<noteq> 0 \<and> command_shape command \<and> length sid \<le> 256 \<and> length (pb_device_id peer) \<le> 256 \<and>
    \<not> all_zero (execute_command_digest env x) \<and> \<not> all_zero (eg_signature (ex_grant x)) \<and>
    xc_registration_id ctx = ri_registration_id (aa_identity a) \<and>
    xc_registration_epoch ctx = ri_registration_epoch (aa_identity a) \<and>
    xc_windows_session_id ctx = w \<and> xc_desktop_epoch ctx = cs_desktop_epoch (aa_capabilities a) \<and>
    xc_session_id ctx = sid \<and> xc_peer ctx = peer \<and> xc_policy_revision ctx = revision \<and> xc_desktop_kind ctx = kind \<and>
    scopes \<subseteq> xc_authorization_scopes ctx \<and>
    unat e \<le> unat i + 300000 \<and> e \<le> xc_authorization_expires_at_ms ctx \<and> n \<le> xc_now_ms ctx \<and>
    (command_is_cleanup command \<or> kind = DkDefault \<and> xc_now_ms ctx < e)"
proof -
  from bind active have b: "ab_registration_id b = ri_registration_id (aa_identity a)"
    "ab_registration_epoch b = ri_registration_epoch (aa_identity a)" "ab_windows_session_id b = w"
    "ab_desktop_epoch b = cs_desktop_epoch (aa_capabilities a)"
    by (auto simp: bind_active_Ok)
  note t = template_for_binding_Ok [OF template]
  note x = issue_Ok [OF issue]
  note v = pinned_verifier [OF pinned]
  have iss: "gi_signing_key iss = seed" "gi_public_key iss = bc_public_key cr seed"
    using issuer by (auto simp: issuer_from_seed_def split: if_splits)
  have sig: "ge_verify env (gi_key_id iss) (grant_signing_bytes env (ex_grant x)) (eg_signature (ex_grant x))"
    using crypto by (simp add: env v(1) bound_verify_def iss x(10) seed_signatures_verify_def)
  have digest: "execute_command_digest env (x\<lparr>ex_request_token := token\<rparr>) = execute_command_digest env x"
    by (simp add: execute_command_digest_def execute_digest_input_def)
  have window: "i \<noteq> 0" "i \<le> n" "n < e" "unat e \<le> unat n + 300000"
    using x(5) by (simp_all add: t(9) validate_window_Ok)
  then have ie: "i < e" by (simp add: order.strict_trans1)
  show ?thesis
    unfolding is_ok_iff validate_execute_command_Ok grant_bound_def Let_def
    using t(1-8) x(1-4) window ie sig digest v(2)
    by (simp add: x(6-9) t(9) b ctx) (metis peer_binding_eq)
qed

text \<open>
  The registry of \<open>demo_world\<close>, an issuer from a fixed seed, and its pinned verifier.
\<close>

definition demo_agent_crypto :: "bytes agent_crypto" where
  "demo_agent_crypto = \<lparr>bc_public_key = (\<lambda>seed. seed), bc_sign = (\<lambda>seed m. seed @ seed),
     bc_verifying_key = (\<lambda>pk. True), bc_verify_strict = (\<lambda>pk m s. s = pk @ pk), bc_is_weak = (\<lambda>pk. False),
     bc_decompress = Some, bc_compress = (\<lambda>p. p), bc_is_torsion_free = (\<lambda>p. True), bc_sha256 = (\<lambda>m. 1 # m)\<rparr>"

definition demo_issuer :: execute_grant_issuer where
  "demo_issuer = \<lparr>gi_signing_key = replicate 32 7, gi_public_key = replicate 32 7, gi_key_id = 1 # replicate 32 7\<rparr>"

definition demo_issuing_env :: grant_env where
  "demo_issuing_env = demo_env\<lparr>ge_verify := bound_verify demo_agent_crypto
     \<lparr>bv_expected_key_id = 1 # replicate 32 7, bv_public_key = replicate 32 7\<rparr>\<rparr>"

definition demo_template :: execute_grant_template where
  "demo_template = \<lparr>tp_registration_id = replicate 16 5, tp_registration_epoch = 1, tp_session_id = ''s'',
     tp_peer = \<lparr>pb_device_id = ''d'', pb_key_id = replicate 32 6\<rparr>, tp_scopes = {InputPointer},
     tp_policy_revision = 4, tp_windows_session_id = 2, tp_desktop_epoch = 3, tp_desktop_kind = DkDefault,
     tp_issued_at_ms = 900, tp_not_before_ms = 1000, tp_expires_at_ms = 61000, tp_required_capability = CapInput\<rparr>"

lemma demo_template_Ok:
  "template_for_binding demo_binding ''s'' \<lparr>pb_device_id = ''d'', pb_key_id = replicate 32 6\<rparr> {InputPointer} 4
     DkDefault 900 1000 61000 = Ok demo_template"
  by (simp add: template_for_binding_def demo_binding_def demo_template_def validate_window_def saturating_sub_def
      AGENT_EXECUTE_GRANT_MAX_LIFETIME_MS_def)

lemma demo_issuer_Ok:
  "issuer_from_seed demo_agent_crypto (replicate 32 7) = Some demo_issuer"
  "execute_grant_verifier_new demo_agent_crypto (gi_key_id demo_issuer) (gi_public_key demo_issuer) =
     Ok \<lparr>bv_expected_key_id = 1 # replicate 32 7, bv_public_key = replicate 32 7\<rparr>"
  "seed_signatures_verify demo_agent_crypto"
  by (simp_all add: issuer_from_seed_def execute_grant_verifier_new_def derive_execute_grant_issuer_key_id_def
      seed_signatures_verify_def demo_agent_crypto_def demo_issuer_def)

lemma demo_issue_Ok:
  "is_ok (issue demo_issuing_env demo_agent_crypto demo_issuer (replicate 16 2) (replicate 32 8) demo_start demo_template)"
  by (simp add: issue_def demo_template_def demo_start_def validate_window_def saturating_sub_def
      AGENT_EXECUTE_GRANT_MAX_LIFETIME_MS_def Let_def)

theorem issued_command_accepted_exactly_witness:
  "\<exists>x. issue demo_issuing_env demo_agent_crypto demo_issuer (replicate 16 2) (replicate 32 8) demo_start demo_template = Ok x \<and>
     is_ok (validate_execute_command demo_issuing_env (x\<lparr>ex_request_token := 5\<rparr>)
       (demo_context\<lparr>xc_expected_issuer_key_id := 1 # replicate 32 7\<rparr>))"
proof -
  obtain x where x: "issue demo_issuing_env demo_agent_crypto demo_issuer (replicate 16 2) (replicate 32 8)
      demo_start demo_template = Ok x"
    using demo_issue_Ok by (auto simp: is_ok_iff)
  have active: "map_of (rg_active_by_session (aw_registry demo_world)) 2 = Some demo_active"
    by (simp add: demo_world_def demo_running_def)
  have env: "ge_verify demo_issuing_env = bound_verify demo_agent_crypto
      \<lparr>bv_expected_key_id = 1 # replicate 32 7, bv_public_key = replicate 32 7\<rparr>"
    by (simp add: demo_issuing_env_def)
  let ?ctx = "demo_context\<lparr>xc_expected_issuer_key_id := 1 # replicate 32 7\<rparr>"
  have ctx: "xc_expected_issuer_key_id ?ctx = gi_key_id demo_issuer"
    by (simp add: demo_issuer_def)
  have nonzero: "\<not> all_zero (execute_command_digest demo_issuing_env x)" "\<not> all_zero (eg_signature (ex_grant x))"
    by (simp_all add: issue_Ok(10) [OF x] execute_command_digest_def demo_issuing_env_def demo_env_def
        demo_agent_crypto_def demo_issuer_def replicate_add [symmetric])
  have "is_ok (validate_execute_command demo_issuing_env (x\<lparr>ex_request_token := 5\<rparr>) ?ctx)"
    unfolding issued_command_accepted_exactly [OF active demo_bind(1) demo_template_Ok demo_issuer_Ok(1) x
        demo_issuer_Ok(2) env demo_issuer_Ok(3) ctx]
    using nonzero by (simp add: demo_context_def demo_registry_defs demo_active_def new_agent_def demo_identity_def identity_of_def)
  with x show ?thesis by blast
qed

end
