(* ===== verification/Spec2Isabelle.thy ===== *)
theory Spec2Isabelle
  imports Session_Grant Remote_Session Quic_Session Session_Scheduler Control_Envelope
    Control_Sequence Control_Proto Device_Identity File_Transfer Relay_Selection Relay_Directory
    Agent_Framing Agent_Registration Agent_Grant Agent_Consent Control_Input Relay_Access
    Relay_Failover Session_Authority Temporary_Revocation Low_Latency
    Agent_Issuer
begin

text \<open>
  A verification library for Mini Remote Desktop, a remote desktop service written in Rust.

  \<^bold>\<open>The program.\<close>  A service on each machine keeps sessions between devices.  A controller asks
  for a session, the target's policy and user resolve which permission scopes it gets
  (\<open>crates/mrd-session\<close>), both sides prove their device keys (\<open>crates/mrd-identity\<close>), traffic
  flows directly or through a relay chosen from a signed directory
  (\<open>crates/mrd-relay-control\<close>), input events travel in a compact binary protocol
  (\<open>common-control-proto\<close>) inside signed, sequence-numbered envelopes, files travel as bounded
  chunks (\<open>crates/mrd-file-transfer\<close>), and a scheduler limits how many sessions stream at once.
  The service hands privileged work to an agent in the user's desktop over a framed, versioned
  protocol in which the agent registers with a proof and every command carries a signed grant
  (\<open>crates/mrd-agent-ipc\<close>); it injects remote input on behalf of several sessions at once, and
  fetches relay credentials, moves a failing session to another relay, and lets guests in with a
  temporary password that it publishes to a server (\<open>apps/mrd-service\<close>).  Video travels as
  datagrams with forward error correction (\<open>crates/mrd-transport-quic-quinn\<close>).  Capture,
  encoding, rendering and the transports themselves are separate crates around this core.

  \<^bold>\<open>The theories.\<close>
  \<^item> \<open>Mrd_Prelude\<close>: words with Rust's saturating and checked arithmetic, \<open>Result\<close>, big-endian
    encodings, \<open>str::trim\<close>, hash and B-tree maps, and the contracts of the library as locales:
    \<open>keyed_store\<close>, \<open>state_invariant\<close>, \<open>at_most_once\<close>, \<open>prefix_code\<close>.
  \<^item> \<open>Session_Grant\<close>: \<open>mrd-proto/src/lib.rs\<close>, \<open>mrd-session/src/permissions.rs\<close> and \<open>grant.rs\<close>.
  \<^item> \<open>Remote_Session\<close>: the aggregate of \<open>remote_session.rs\<close> with its authorization, route and
    media states, as operations and as the step relation \<open>rs_step\<close>.
  \<^item> \<open>Quic_Session\<close>: the lifecycle states and the coordinator of \<open>mrd-session/src/lib.rs\<close>.
  \<^item> \<open>Session_Scheduler\<close>: \<open>scheduler.rs\<close>.  Every critical section is a function of the
    scheduler's state; the step relation \<open>ss_step\<close> interleaves any number of callers, with
    cancelled futures and the best-effort destructor of a permit; \<open>ss_run\<close> counts the
    registrations, because the generation counter wraps after 2^64 of them.  The semaphore is a
    parameter with a contract.
  \<^item> \<open>Control_Envelope\<close> and \<open>Control_Sequence\<close>: \<open>control_envelope.rs\<close>, the envelope's shape
    validation and deserialisation visitors, and its replay window.
  \<^item> \<open>Control_Proto\<close>: \<open>common-control-proto/src/lib.rs\<close>, with lossy UTF-8 decoding.
  \<^item> \<open>Device_Identity\<close>: \<open>crates/mrd-identity\<close>, over a parameter for the cryptography.
  \<^item> \<open>File_Transfer\<close>: \<open>crates/mrd-file-transfer\<close>, path validation on both platforms,
    resolution over a view of the file system, chunks, resume cursor and commit.
  \<^item> \<open>Relay_Selection\<close>: \<open>model.rs\<close>, \<open>health.rs\<close> and \<open>selection.rs\<close> of the relay control crate.
  \<^item> \<open>Relay_Directory\<close>: its \<open>directory.rs\<close>.
  \<^item> \<open>Agent_Framing\<close>: \<open>mrd-agent-ipc/src/framing.rs\<close>, the in-memory decoder and the stream reader.
  \<^item> \<open>Agent_Registration\<close>: the state machine \<open>AgentProtocolState\<close> of \<open>protocol.rs\<close> and the
    transcript that the agent signs.
  \<^item> \<open>Agent_Registry\<close> and \<open>Agent_Generations\<close>: \<open>agent_runtime/registry.rs\<close>, the service's
    admissions, pending and active agents, bindings and leases; the second theory interleaves the
    calls (\<open>ar_step\<close>) with a history of admissions and challenges.
  \<^item> \<open>Agent_Bootstrap\<close>: \<open>mrd-agent-ipc/src/bootstrap.rs\<close>, the record a launched agent receives, with
    the verifiers pinned to its keys, over a parameter for the curve and the hash.
  \<^item> \<open>Agent_Issuer\<close>: \<open>agent_runtime/execute_issuer.rs\<close>, the signing of grants for the commands of
    one agent generation.
  \<^item> \<open>Agent_Grant\<close> and \<open>Agent_Consent\<close>: the commands of \<open>protocol.rs\<close> with their digests, and
    the validation of grants, commands, input events (\<open>grant.rs\<close>) and consent answers.
  \<^item> \<open>Control_Input\<close>: \<open>mrd-input\<close> and \<open>mrd-service/src/control_input.rs\<close>, a registry of what
    each session holds down on one injector, with lanes, coalescing, release and freeze.
  \<^item> \<open>Relay_Access\<close>: \<open>relay/client.rs\<close> and \<open>relay/cache.rs\<close>, the verification of an access
    response, route evidence and the cache.
  \<^item> \<open>Relay_Failover\<close>: \<open>relay/migration.rs\<close>.  The table of sessions changes in locked blocks; a
    call is a \<open>task\<close> at one of its await points, and \<open>fo_step\<close> interleaves calls, cancellations,
    dropped guards, spawned thaws and cleanups in any order.
  \<^item> \<open>Session_Authorization\<close> and \<open>Session_Authority\<close>: \<open>session_authorization.rs\<close>, the registry of
    requests, consents, unattended proofs, grants, leases and events; the first theory is the
    registry, the second its step relation \<open>au_step\<close> and what holds of it.
  \<^item> \<open>Temporary_Access\<close>: \<open>temporary_access.rs\<close>, the temporary password with its generation, the
    operation epoch that orders enabling and disabling, and the guests admitted with it; \<open>ta_step\<close>.
  \<^item> \<open>Temporary_Publication\<close>: \<open>public_connection/temporary.rs\<close> and the handlers of
    \<open>temporary_access_http.rs\<close>.  The update routine is cut at its await points (\<open>update_point\<close>);
    \<open>tp_step\<close> interleaves any number of routines, requests, guests and server answers.
  \<^item> \<open>Temporary_Revocation\<close>: the disable handler together with the registry of
    \<open>Session_Authority\<close>, in which it ends the guests' sessions.
  \<^item> \<open>Low_Latency\<close>: \<open>low_latency.rs\<close>, parity packets, loss reports, and the datagram sender and
    receiver; a slice index out of range and an \<open>unwrap\<close> of \<open>None\<close> are the values of \<open>fec_panic\<close>.

  \<^bold>\<open>How code becomes definitions.\<close>  A struct is a record, an enum a datatype, a fallible function
  returns the sum \<open>result\<close> with one constructor per error, \<open>&mut self\<close> is an argument and part of
  the result.  Integers keep their width; lengths are natural numbers.  A lock is a critical
  section, a step of the relation.  Calls into crates outside the repository (\<open>ring\<close>,
  \<open>ed25519_dalek\<close>, \<open>sha2\<close>, \<open>base64\<close>, \<open>serde_json\<close>, tokio's semaphore) and the operating system
  are parameters; a theorem that relies on one states what it relies on as a hypothesis and has a witness.

  \<^bold>\<open>What is shown.\<close>  For each component its invariant in every reachable state (sessions,
  coordinator, scheduler, replay windows, resume cursor), the exact conditions under which an
  operation succeeds, the error on every other branch, and the property the component exists
  for: grants give least privilege, a closed session cannot stream, no streaming permit is lost and a
  session's active flag follows its own permits under every interleaving, a registration that was
  removed cannot be acted upon, no control message,
  nonce or sequence number is accepted twice, codecs round-trip and signed bytes determine
  what they were made from, a peer's path resolves exactly when it passes the stated checks and
  what exists of it lies under the approved root, a transfer reproduces
  the file and cannot overrun, relay selection is sound, explains every refusal and does not
  depend on the order of its input unless reports of one node tie, and a verified directory is bound to its caller's context.
  An agent's identity, a command and an input event are accepted only with a verified proof or
  grant bound to the whole context and inside its interval; an active agent goes back to an
  admission, an observed process and an accepted proof, a replaced or disconnected generation never
  becomes routable again, and what the service issues for a generation is accepted by exactly that
  one; a digest determines its command; a
  button or key is down on the device exactly when some session holds it; the relay cache is a
  bounded least-recently-used list; and a session under failover changes its route only by
  committing the migration in flight, to another failure domain, and is never left busy.  The
  service allows a scope only under a grant that someone answers for, a terminal authorization
  stays terminal, leases end with their grants and no event is skipped by a subscriber.  The
  races of the failover's input barrier are shown as reachable states.  A temporary password is
  shown only after the server has acknowledged a document with its verifier and generation, one
  generation has one password, and disabling temporary access ends what every earlier guest may
  do, in this component and in the registry.  One lost packet of a block is recovered from its
  parity in every order of arrival that starts with the block's first packet; the cases in which the parity decoder and the loss reports do not do what they mean
  to are stated exactly.

  \<^bold>\<open>Bounds.\<close>  Loops are structural or have a termination proof; there is no fuel.  The loops over
  buffers (\<open>trim_start\<close>, \<open>from_utf8_lossy\<close>, \<open>slice_chunks\<close>) consume at least one byte a round,
  the cache's eviction loop one entry.  The steps of a failover task are bounded by its
  \<open>task_weight\<close>, from 15 for a call that has just planned to 1 for a thaw; those of an update of
  the temporary access by its \<open>update_rank\<close>, at most seven.

  \<^bold>\<open>What is not modelled.\<close>  Capture, codecs, rendering, audio and transports (foreign functions and
  device I/O), the user interfaces, the Python server, the service's process management and
  storage, and test code; the platform injectors, which call the
  operating system; the macOS pointer geometry of the control input (floating point);
  the agent protocol's lifecycle, media and render messages, which are data.  Media adaptation
  decides by thresholds on
  floating-point rates; the enrolment of the public connection and the sending task of the
  low-latency transport are input and output with delays.
\<close>

section \<open>Properties across components\<close>

text \<open>
  C27. The bytes of every authenticated input event fit the control envelope that carries them:
  the envelope's slice and streaming visitors accept them unchanged, the decoder on the other
  side returns the event, and an envelope that is valid with other event bytes stays valid with
  these.
\<close>

theorem authenticated_event_fits_envelope:
  assumes "encode_authenticated_input_event ev = Ok b"
    and "validate_shape e now = Ok ()"
  shows "event_bytes_visit_bytes b = Ok b \<and> event_bytes_visit_seq (map Ok b) = Ok b \<and>
    decode_authenticated_input_event b = Ok ev \<and>
    validate_shape (e\<lparr>ce_authenticated_event_bytes := b\<rparr>) now = Ok ()"
proof -
  have len: "1 \<le> length b" "length b \<le> 64"
    using assms(1) authenticated_payload_length [of ev] by (auto simp: encode_authenticated_Ok)
  then have "b \<noteq> []" by auto
  with len assms(2) have "validate_shape (e\<lparr>ce_authenticated_event_bytes := b\<rparr>) now = Ok ()"
    by (simp add: validate_shape_Ok control_envelope_limits)
  with len \<open>b \<noteq> []\<close> show ?thesis
    using authenticated_decode_encode [OF assms(1)]
    by (simp add: event_bytes_visit_bytes_def event_bytes_visit_seq_Ok control_envelope_limits)
qed

theorem authenticated_event_fits_envelope_witness:
  "\<exists>b. encode_authenticated_input_event (Key 65 True) = Ok b \<and>
     validate_shape (sample_envelope\<lparr>ce_authenticated_event_bytes := b\<rparr>) 10000 = Ok ()"
proof -
  obtain b where b: "encode_authenticated_input_event (Key 65 True) = Ok b"
    by (simp add: encode_authenticated_Ok)
  from authenticated_event_fits_envelope [OF b sample_envelope_valid(1)] b show ?thesis by blast
qed

end
